(* ===== verification/Foundation_Prelude.thy ===== *)
theory Foundation_Prelude
  imports Main "HOL-Library.Char_ord" "HOL-Library.List_Lexorder" "HOL-Library.Sublist"
begin

text \<open>
  Shared vocabulary of the development: the JavaScript containers the sources use
  (insertion-ordered \<open>Map\<close> as a list of pairs with distinct keys, insertion-ordered
  \<open>Set\<close> as a distinct list), decimal printing of counters and numbers, the string
  operations \<open>join\<close>, \<open>replace\<close> of one character and \<open>toUpperCase\<close> on ASCII, and
  the generic lemmas on them that the component theories share.
\<close>

named_theorems jmap_simps \<open>lookup, keys and size after an update of a JavaScript Map\<close>
named_theorems string_simps \<open>equations of the string helpers\<close>

type_synonym ms = int \<comment> \<open>a value of \<open>Date.now()\<close> or a duration, in milliseconds\<close>

subsection \<open>JavaScript \<open>Map\<close>\<close>

type_synonym ('k, 'v) jmap = "('k \<times> 'v) list"

definition jm_get :: "('k, 'v) jmap \<Rightarrow> 'k \<Rightarrow> 'v option" where
  "jm_get m k = map_of m k"

definition jm_has :: "('k, 'v) jmap \<Rightarrow> 'k \<Rightarrow> bool" where
  "jm_has m k = (map_of m k \<noteq> None)"

text \<open>\<open>Map.set\<close> keeps the position of a key it overwrites and appends a new key.\<close>

fun jm_set :: "'k \<Rightarrow> 'v \<Rightarrow> ('k, 'v) jmap \<Rightarrow> ('k, 'v) jmap" where
  "jm_set k v [] = [(k, v)]"
| "jm_set k v ((k', v') # m) = (if k = k' then (k, v) # m else (k', v') # jm_set k v m)"

definition jm_delete :: "'k \<Rightarrow> ('k, 'v) jmap \<Rightarrow> ('k, 'v) jmap" where
  "jm_delete k m = filter (\<lambda>e. fst e \<noteq> k) m"

abbreviation jm_keys :: "('k, 'v) jmap \<Rightarrow> 'k list" where
  "jm_keys m \<equiv> map fst m"

abbreviation jm_ok :: "('k, 'v) jmap \<Rightarrow> bool" where
  "jm_ok m \<equiv> distinct (map fst m)"

lemma jm_get_Nil [simp, jmap_simps]: "jm_get [] k = None"
  by (simp add: jm_get_def)

lemma jm_get_Cons [jmap_simps]: "jm_get (e # m) k = (if fst e = k then Some (snd e) else jm_get m k)"
  by (cases e) (auto simp: jm_get_def)

lemma jm_has_iff [jmap_simps]: "jm_has m k \<longleftrightarrow> jm_get m k \<noteq> None"
  by (simp add: jm_has_def jm_get_def)

lemma jm_get_set [simp, jmap_simps]: "jm_get (jm_set k v m) k' = (if k' = k then Some v else jm_get m k')"
  by (induction m rule: jm_set.induct[of _ k v]) (auto simp: jm_get_def)

lemma jm_get_delete [simp, jmap_simps]: "jm_get (jm_delete k m) k' = (if k' = k then None else jm_get m k')"
  by (induction m) (auto simp: jm_delete_def jm_get_def)

lemma jm_get_None_iff: "jm_get m k = None \<longleftrightarrow> k \<notin> set (jm_keys m)"
  by (simp add: jm_get_def map_of_eq_None_iff)

lemma jm_get_Some_in: "jm_get m k = Some v \<Longrightarrow> (k, v) \<in> set m"
  by (simp add: jm_get_def map_of_SomeD)

lemma jm_get_Some_iff: "jm_ok m \<Longrightarrow> jm_get m k = Some v \<longleftrightarrow> (k, v) \<in> set m"
  by (simp add: jm_get_def)

lemma jm_ok_unique: "jm_ok m \<Longrightarrow> e \<in> set m \<Longrightarrow> (fst e, v) \<in> set m \<Longrightarrow> v = snd e"
  by (metis eq_key_imp_eq_value prod.collapse)

lemma jm_keys_set: "jm_keys (jm_set k v m) = (if k \<in> set (jm_keys m) then jm_keys m else jm_keys m @ [k])"
proof (induction m)
  case (Cons e m)
  then show ?case by (cases e) (simp del: set_map)
qed simp

lemma set_jm_keys_set [simp]: "fst ` set (jm_set k v m) = insert k (fst ` set m)"
proof -
  have "set (jm_keys (jm_set k v m)) = insert k (set (jm_keys m))"
    by (simp only: jm_keys_set) auto
  then show ?thesis by simp
qed

lemma set_jm_keys_delete [simp]: "fst ` set (jm_delete k m) = fst ` set m - {k}"
  by (auto simp: jm_delete_def image_iff)

lemma jm_ok_set [simp]: "jm_ok m \<Longrightarrow> jm_ok (jm_set k v m)"
  by (induction m) (auto simp: image_iff)

lemma jm_ok_delete [simp]: "jm_ok m \<Longrightarrow> jm_ok (jm_delete k m)"
  by (induction m) (auto simp: jm_delete_def)

lemma length_jm_set [jmap_simps]: "length (jm_set k v m) = (if jm_get m k = None then Suc (length m) else length m)"
  by (induction m) (auto simp: jm_get_def)

lemma jm_delete_notin [simp]: "jm_get m k = None \<Longrightarrow> jm_delete k m = m"
  by (induction m) (auto simp: jm_delete_def jm_get_def split: if_splits)

lemma length_jm_delete [jmap_simps]:
  "jm_ok m \<Longrightarrow> length (jm_delete k m) = (if jm_get m k = None then length m else length m - 1)"
proof (induction m)
  case Nil
  then show ?case by (simp add: jm_delete_def)
next
  case (Cons e m)
  show ?case
  proof (cases "fst e = k")
    case True
    with Cons.prems have "jm_get m k = None" by (auto simp: jm_get_None_iff)
    then have "jm_delete k m = m" by simp
    with True show ?thesis by (simp add: jm_delete_def jm_get_Cons)
  next
    case False
    have "length m > 0" if "jm_get m k \<noteq> None" using that by (cases m) auto
    with False Cons show ?thesis by (auto simp: jm_delete_def jm_get_Cons)
  qed
qed

lemma jm_set_twice [simp]: "jm_set k v (jm_set k w m) = jm_set k v m"
  by (induction m) auto

lemma set_jm_setD: "e \<in> set (jm_set k v m) \<Longrightarrow> e = (k, v) \<or> e \<in> set m"
  by (induction m) (auto split: if_splits)

lemma jm_ok_filter [simp]: "jm_ok m \<Longrightarrow> jm_ok (filter P m)"
  by (simp add: distinct_map_filter)

lemma jm_get_filter:
  "jm_ok m \<Longrightarrow> jm_get (filter (\<lambda>(k, v). P k v) m) k =
     (case jm_get m k of None \<Rightarrow> None | Some v \<Rightarrow> if P k v then Some v else None)"
proof (induction m)
  case (Cons e m)
  show ?case
  proof (cases "fst e = k")
    case True
    with Cons.prems have "jm_get m k = None" by (auto simp: jm_get_None_iff)
    with True Cons show ?thesis by (cases e) (auto simp: jm_get_Cons)
  next
    case False
    with Cons show ?thesis by (cases e) (auto simp: jm_get_Cons)
  qed
qed simp

lemma jm_set_same_snoc:
  "jm_get m k = None \<Longrightarrow> jm_set k v m = m @ [(k, v)]"
  by (induction m) (auto simp: jm_get_Cons split: if_splits)

text \<open>A map filled from a list of items, each under a key of its own: \<open>new Map(items.map(x => [key(x), x]))\<close>.\<close>

definition keyed :: "('a \<Rightarrow> 'k) \<Rightarrow> ('k, 'a) jmap \<Rightarrow> bool" where
  "keyed key m \<longleftrightarrow> jm_ok m \<and> (\<forall>(k, x) \<in> set m. key x = k)"

lemma keyed_get: "keyed key m \<Longrightarrow> jm_get m k = Some x \<Longrightarrow> key x = k"
  by (auto simp: keyed_def dest: jm_get_Some_in)

lemma keyed_set: "keyed key m \<Longrightarrow> keyed key (jm_set (key x) x m)"
  by (auto simp: keyed_def dest!: set_jm_setD)

lemma fold_set_keyed: "keyed key m \<Longrightarrow> keyed key (fold (\<lambda>x m. jm_set (key x) x m) xs m)"
  by (induction xs arbitrary: m) (auto intro: keyed_set)

lemma fold_set_keys: "fst ` set (fold (\<lambda>x m. jm_set (key x) x m) xs m) = fst ` set m \<union> key ` set xs"
  by (induction xs arbitrary: m) auto

lemma fold_set_distinct:
  "distinct (map fst m @ map key xs) \<Longrightarrow>
   fold (\<lambda>x m. jm_set (key x) x m) xs m = m @ map (\<lambda>x. (key x, x)) xs"
proof (induction xs arbitrary: m)
  case (Cons x xs)
  then have "jm_get m (key x) = None" by (auto simp: jm_get_None_iff)
  with Cons show ?case by (auto simp: jm_set_same_snoc)
qed simp

lemma keyed_map_snd: "keyed key m \<Longrightarrow> map (\<lambda>x. (key x, x)) (map snd m) = m"
  by (induction m) (auto simp: keyed_def)

lemma keyed_refill: "keyed key m \<Longrightarrow> fold (\<lambda>x m. jm_set (key x) x m) (map snd m) [] = m"
proof -
  assume k: "keyed key m"
  then have "map key (map snd m) = map fst m" by (induction m) (auto simp: keyed_def)
  then have "distinct (map fst [] @ map key (map snd m))" using k by (simp only: keyed_def) simp
  from fold_set_distinct [OF this] k show ?thesis by (simp only: keyed_map_snd append_Nil)
qed

text \<open>Deleting a list of keys, some of them under a condition.\<close>

lemma fold_delete_if:
  "fold (\<lambda>(k, x) m. if P x then jm_delete k m else m) ks m =
   filter (\<lambda>e. \<not> (\<exists>x. (fst e, x) \<in> set ks \<and> P x)) m"
proof (induction ks arbitrary: m)
  case (Cons kx ks)
  obtain k x where kx: "kx = (k, x)" by fastforce
  have "filter (\<lambda>e. \<not> (\<exists>y. (fst e, y) \<in> set ks \<and> P y)) (if P x then jm_delete k m else m) =
      filter (\<lambda>e. \<not> (\<exists>y. (fst e, y) \<in> set (kx # ks) \<and> P y)) m"
    unfolding kx jm_delete_def by (induction m) auto
  then show ?case by (simp only: kx fold_simps case_prod_conv Cons.IH)
qed simp

lemma fold_delete: "fold (\<lambda>(k, x). jm_delete k) ks m = filter (\<lambda>e. fst e \<notin> fst ` set ks) m"
proof (induction ks arbitrary: m)
  case (Cons kx ks)
  then show ?case by (cases kx) (simp add: jm_delete_def)
qed simp

subsection \<open>JavaScript \<open>Set\<close>\<close>

definition js_add :: "'a \<Rightarrow> 'a list \<Rightarrow> 'a list" where
  "js_add x xs = (if x \<in> set xs then xs else xs @ [x])"

lemma set_js_add [simp]: "set (js_add x xs) = insert x (set xs)"
  by (auto simp: js_add_def)

lemma distinct_js_add [simp]: "distinct xs \<Longrightarrow> distinct (js_add x xs)"
  by (auto simp: js_add_def)

lemma js_add_prefix: "prefix xs (js_add x xs)"
  by (simp add: js_add_def)

lemma set_fold_js_add [simp]: "set (fold js_add ys xs) = set xs \<union> set ys"
  by (induction ys arbitrary: xs) auto

lemma distinct_fold_js_add [simp]: "distinct xs \<Longrightarrow> distinct (fold js_add ys xs)"
  by (induction ys arbitrary: xs) auto

subsection \<open>Strings\<close>

text \<open>\<open>xs.join(sep)\<close>.\<close>

fun join :: "string \<Rightarrow> string list \<Rightarrow> string" where
  "join sep [] = []"
| "join sep [x] = x"
| "join sep (x # y # xs) = x @ sep @ join sep (y # xs)"

lemma join_Cons: "xs \<noteq> [] \<Longrightarrow> join sep (x # xs) = x @ sep @ join sep xs"
  by (cases xs) auto

lemma join_neq_Nil: "xs \<noteq> [] \<Longrightarrow> \<forall>x\<in>set xs. x \<noteq> [] \<Longrightarrow> join sep xs \<noteq> []"
  by (induction sep xs rule: join.induct) auto

lemma set_join_subset: "set (join sep xs) \<subseteq> set sep \<union> (\<Union>x\<in>set xs. set x)"
  by (induction sep xs rule: join.induct) auto

text \<open>\<open>s.split(c)\<close> for a one-character separator: never empty.\<close>

fun split_on :: "char \<Rightarrow> string \<Rightarrow> string list" where
  "split_on c [] = [[]]"
| "split_on c (d # s) =
     (if d = c then [] # split_on c s
      else (case split_on c s of [] \<Rightarrow> [[d]] | p # ps \<Rightarrow> (d # p) # ps))"

lemma split_on_neq_Nil [simp]: "split_on c s \<noteq> []"
  by (induction s) (auto split: list.splits)

lemma split_on_notin: "c \<notin> set s \<Longrightarrow> split_on c s = [s]"
  by (induction s) auto

lemma split_on_sep: "c \<notin> set s \<Longrightarrow> split_on c (s @ c # t) = s # split_on c t"
  by (induction s) auto

lemma split_on_join: "xs \<noteq> [] \<Longrightarrow> \<forall>x\<in>set xs. c \<notin> set x \<Longrightarrow> split_on c (join [c] xs) = xs"
  by (induction "[c]" xs rule: join.induct) (auto simp: split_on_notin split_on_sep)

text \<open>\<open>s.replace(/c/g, r)\<close> for a single character \<open>c\<close>.\<close>

definition replace_char :: "char \<Rightarrow> string \<Rightarrow> string \<Rightarrow> string" where
  "replace_char c r s = concat (map (\<lambda>d. if d = c then r else [d]) s)"

lemma replace_char_Nil [simp, string_simps]: "replace_char c r [] = []"
  by (simp add: replace_char_def)

lemma replace_char_Cons [simp, string_simps]:
  "replace_char c r (d # s) = (if d = c then r else [d]) @ replace_char c r s"
  by (simp add: replace_char_def)

lemma replace_char_append [simp, string_simps]:
  "replace_char c r (s @ t) = replace_char c r s @ replace_char c r t"
  by (simp add: replace_char_def)

lemma replace_char_notin: "c \<notin> set s \<Longrightarrow> replace_char c r s = s"
  by (induction s) auto

text \<open>\<open>toUpperCase\<close> on the ASCII letters; other characters are left alone.\<close>

definition char_between :: "char \<Rightarrow> char \<Rightarrow> char \<Rightarrow> bool" where
  "char_between a b c \<longleftrightarrow>
     (of_char a :: nat) \<le> of_char c \<and> (of_char c :: nat) \<le> of_char b"

definition upper_char :: "char \<Rightarrow> char" where
  "upper_char c = (if char_between (CHR ''a'') (CHR ''z'') c then char_of ((of_char c :: nat) - 32) else c)"

definition to_upper :: "string \<Rightarrow> string" where
  "to_upper s = map upper_char s"

definition is_digit :: "char \<Rightarrow> bool" where
  "is_digit c = char_between (CHR ''0'') (CHR ''9'') c"

definition is_alpha :: "char \<Rightarrow> bool" where
  "is_alpha c \<longleftrightarrow> char_between (CHR ''a'') (CHR ''z'') c \<or> char_between (CHR ''A'') (CHR ''Z'') c"

text \<open>The regular-expression class \<open>\w\<close>: a letter, a digit or an underscore.\<close>

definition is_word_char :: "char \<Rightarrow> bool" where
  "is_word_char c \<longleftrightarrow> is_alpha c \<or> is_digit c \<or> c = CHR ''_''"

subsection \<open>Decimal printing\<close>

text \<open>\<open>String(n)\<close> of a non-negative integral number, and of an integral number.\<close>

definition digit_char :: "nat \<Rightarrow> char" where
  "digit_char d = char_of (48 + d)"

fun show_nat :: "nat \<Rightarrow> string" where
  "show_nat n = (if n < 10 then [digit_char n] else show_nat (n div 10) @ [digit_char (n mod 10)])"

declare show_nat.simps [simp del]

definition show_int :: "int \<Rightarrow> string" where
  "show_int i = (if i < 0 then CHR ''-'' # show_nat (nat (- i)) else show_nat (nat i))"

definition digit_val :: "char \<Rightarrow> nat" where
  "digit_val c = of_char c - 48"

definition read_nat :: "string \<Rightarrow> nat" where
  "read_nat s = foldl (\<lambda>a c. 10 * a + digit_val c) 0 s"

lemma digit_val_char [simp]: "d < 10 \<Longrightarrow> digit_val (digit_char d) = d"
  by (simp add: digit_val_def digit_char_def of_char_of)

lemma is_digit_char [simp]: "d < 10 \<Longrightarrow> is_digit (digit_char d)"
  by (simp add: is_digit_def char_between_def digit_char_def of_char_of)

lemma read_show_nat [simp]: "read_nat (show_nat n) = n"
proof (induction n rule: show_nat.induct)
  case (1 n)
  show ?case
  proof (cases "n < 10")
    case True
    then show ?thesis by (simp add: show_nat.simps [of n] read_nat_def)
  next
    case False
    with 1 have "read_nat (show_nat (n div 10)) = n div 10" by simp
    with False show ?thesis by (simp add: show_nat.simps [of n] read_nat_def)
  qed
qed

lemma show_nat_inject [simp]: "show_nat m = show_nat n \<longleftrightarrow> m = n"
  by (metis read_show_nat)

lemma show_nat_digits: "c \<in> set (show_nat n) \<Longrightarrow> is_digit c"
proof (induction n rule: show_nat.induct)
  case (1 n)
  then show ?case
    by (cases "n < 10") (auto simp: show_nat.simps [of n])
qed

lemma show_nat_neq_Nil [simp]: "show_nat n \<noteq> []"
  by (simp add: show_nat.simps [of n])

lemma hd_show_nat_digit: "is_digit (hd (show_nat n))"
  using show_nat_digits [of "hd (show_nat n)" n] by simp

lemma not_digit_minus: "\<not> is_digit (CHR ''-'')"
  by (simp add: is_digit_def char_between_def)

lemma show_int_inject [simp]: "show_int i = show_int j \<longleftrightarrow> i = j"
proof -
  have neq: "CHR ''-'' # s \<noteq> show_nat n" for s n
    by (metis hd_show_nat_digit list.sel(1) not_digit_minus)
  then have neq': "show_nat n \<noteq> CHR ''-'' # s" for s n by metis
  show ?thesis by (auto simp: show_int_def neq neq')
qed

lemma show_int_chars: "c \<in> set (show_int i) \<Longrightarrow> is_digit c \<or> c = CHR ''-''"
  by (auto simp: show_int_def dest: show_nat_digits split: if_splits)

subsection \<open>Lists\<close>

text \<open>\<open>findIndex\<close> followed by \<open>splice(index, 1)\<close>: remove the first match.\<close>

fun remove_first :: "('a \<Rightarrow> bool) \<Rightarrow> 'a list \<Rightarrow> ('a \<times> 'a list) option" where
  "remove_first P [] = None"
| "remove_first P (x # xs) =
     (if P x then Some (x, xs)
      else (case remove_first P xs of None \<Rightarrow> None | Some (y, ys) \<Rightarrow> Some (y, x # ys)))"

lemma remove_first_None: "remove_first P xs = None \<longleftrightarrow> (\<forall>x\<in>set xs. \<not> P x)"
  by (induction xs) (auto split: option.splits)

lemma remove_first_Some:
  "remove_first P xs = Some (y, ys) \<Longrightarrow>
   \<exists>us vs. xs = us @ y # vs \<and> ys = us @ vs \<and> P y \<and> (\<forall>u\<in>set us. \<not> P u)"
proof (induction xs arbitrary: ys)
  case Nil
  then show ?case by simp
next
  case (Cons x xs)
  show ?case
  proof (cases "P x")
    case True
    with Cons.prems have "x # xs = [] @ y # ys \<and> ys = [] @ ys \<and> P y \<and> (\<forall>u\<in>set []. \<not> P u)"
      by simp
    then show ?thesis by blast
  next
    case False
    with Cons.prems obtain zs where r: "remove_first P xs = Some (y, zs)" and ys: "ys = x # zs"
      by (auto split: option.splits)
    from Cons.IH [OF r] obtain us vs where "xs = us @ y # vs" "zs = us @ vs" "P y" "\<forall>u\<in>set us. \<not> P u"
      by blast
    with False ys have "x # xs = (x # us) @ y # vs \<and> ys = (x # us) @ vs \<and> P y \<and> (\<forall>u\<in>set (x # us). \<not> P u)"
      by simp
    then show ?thesis by blast
  qed
qed

lemma length_filter_weaken:
  "(\<And>x. x \<in> set xs \<Longrightarrow> P x \<Longrightarrow> Q x) \<Longrightarrow> length (filter P xs) \<le> length (filter Q xs)"
  by (induction xs) auto

lemma find_None_iff_all: "find P xs = None \<longleftrightarrow> (\<forall>x\<in>set xs. \<not> P x)"
  by (auto simp: find_None_iff)

subsection \<open>Errors\<close>

text \<open>\<open>map\<close> with a callback that may throw: the first error, or all results.\<close>

fun sum_sequence :: "('e + 'a) list \<Rightarrow> 'e + 'a list" where
  "sum_sequence [] = Inr []"
| "sum_sequence (Inl e # xs) = Inl e"
| "sum_sequence (Inr x # xs) = (case sum_sequence xs of Inl e \<Rightarrow> Inl e | Inr ys \<Rightarrow> Inr (x # ys))"

lemma sum_sequence_map_Inr [simp]: "sum_sequence (map Inr ys) = Inr ys"
  by (induction ys) auto

lemma sum_sequence_InrD: "sum_sequence xs = Inr ys \<Longrightarrow> xs = map Inr ys"
  by (induction xs arbitrary: ys rule: sum_sequence.induct) (auto split: sum.splits)

lemma sum_sequence_Inr: "sum_sequence xs = Inr ys \<longleftrightarrow> xs = map Inr ys"
  by (metis sum_sequence_InrD sum_sequence_map_Inr)

end
