(* ===== verification/Priority_Queue.thy ===== *)
theory Priority_Queue
  imports Foundation_Prelude "HOL-Library.Multiset"
begin

text \<open>
  The priority queue of the worker pool
  (\<open>libs/foundation/bridge/src/wasm/pool/priority-queue.ts\<close>): three FIFO lists, one per
  priority, and an index from generated ids to entries. The operations are modelled with both
  halves of the state; the invariant says that the two halves describe the same entries, and the
  abstraction reads the queue as one list in service order. The locale \<open>overflow_queue\<close> is what
  the query coordinator relies on.
\<close>

subsection \<open>Data\<close>

datatype priority_level = HIGH | NORMAL | LOW

definition PRIORITY_ORDER :: "priority_level list" where
  "PRIORITY_ORDER = [HIGH, NORMAL, LOW]"

record 'a queue_item =
  qi_item :: 'a
  qi_priority :: priority_level
  qi_timestamp :: ms
  qi_id :: string

text \<open>
  The \<open>queues\<close> map holds exactly the three keys it is constructed with, so it is a function of
  the priority; the id index is a JavaScript \<open>Map\<close>.
\<close>

record 'a pqueue =
  queues :: "priority_level \<Rightarrow> 'a queue_item list"
  idIndex :: "(string, priority_level \<times> 'a queue_item) jmap"
  idCounter :: nat

definition pq_empty :: "'a pqueue" where
  "pq_empty = \<lparr>queues = (\<lambda>_. []), idIndex = [], idCounter = 0\<rparr>"

definition mk_id :: "nat \<Rightarrow> ms \<Rightarrow> string" where
  "mk_id n t = ''q_'' @ show_nat n @ ''_'' @ show_int t"

subsection \<open>Operations\<close>

text \<open>\<open>Date.now()\<close> is read twice, once for the id and once for the timestamp.\<close>

definition enqueue :: "ms \<Rightarrow> ms \<Rightarrow> 'a \<Rightarrow> priority_level \<Rightarrow> 'a pqueue \<Rightarrow> string \<times> 'a pqueue" where
  "enqueue t_id t_stamp x p q =
     (let n = Suc (idCounter q);
          i = mk_id n t_id;
          qi = \<lparr>qi_item = x, qi_priority = p, qi_timestamp = t_stamp, qi_id = i\<rparr>
      in (i, q\<lparr>queues := (queues q)(p := queues q p @ [qi]),
               idIndex := jm_set i (p, qi) (idIndex q),
               idCounter := n\<rparr>))"

fun dequeue_from :: "priority_level list \<Rightarrow> 'a pqueue \<Rightarrow> 'a option \<times> 'a pqueue" where
  "dequeue_from [] q = (None, q)"
| "dequeue_from (p # ps) q =
     (case queues q p of
        [] \<Rightarrow> dequeue_from ps q
      | qi # rest \<Rightarrow>
          (Some (qi_item qi),
           q\<lparr>queues := (queues q)(p := rest), idIndex := jm_delete (qi_id qi) (idIndex q)\<rparr>))"

definition dequeue :: "'a pqueue \<Rightarrow> 'a option \<times> 'a pqueue" where
  "dequeue q = dequeue_from PRIORITY_ORDER q"

fun peek_from :: "priority_level list \<Rightarrow> 'a pqueue \<Rightarrow> 'a option" where
  "peek_from [] q = None"
| "peek_from (p # ps) q = (case queues q p of [] \<Rightarrow> peek_from ps q | qi # _ \<Rightarrow> Some (qi_item qi))"

definition peek :: "'a pqueue \<Rightarrow> 'a option" where
  "peek q = peek_from PRIORITY_ORDER q"

fun remove_from :: "priority_level list \<Rightarrow> ('a \<Rightarrow> bool) \<Rightarrow> 'a pqueue \<Rightarrow> 'a option \<times> 'a pqueue" where
  "remove_from [] P q = (None, q)"
| "remove_from (p # ps) P q =
     (case remove_first (\<lambda>qi. P (qi_item qi)) (queues q p) of
        None \<Rightarrow> remove_from ps P q
      | Some (qi, rest) \<Rightarrow>
          (Some (qi_item qi),
           q\<lparr>queues := (queues q)(p := rest), idIndex := jm_delete (qi_id qi) (idIndex q)\<rparr>))"

definition pq_remove :: "('a \<Rightarrow> bool) \<Rightarrow> 'a pqueue \<Rightarrow> 'a option \<times> 'a pqueue" where
  "pq_remove P q = remove_from PRIORITY_ORDER P q"

definition removeById :: "string \<Rightarrow> 'a pqueue \<Rightarrow> 'a option \<times> 'a pqueue" where
  "removeById i q =
     (case jm_get (idIndex q) i of
        None \<Rightarrow> (None, q)
      | Some (p, qi) \<Rightarrow>
          (let q' = (case remove_first (\<lambda>x. qi_id x = i) (queues q p) of
                       None \<Rightarrow> q
                     | Some (_, rest) \<Rightarrow> q\<lparr>queues := (queues q)(p := rest)\<rparr>)
           in (Some (qi_item qi), q'\<lparr>idIndex := jm_delete i (idIndex q')\<rparr>)))"

definition getById :: "string \<Rightarrow> 'a pqueue \<Rightarrow> 'a option" where
  "getById i q = map_option (\<lambda>e. qi_item (snd e)) (jm_get (idIndex q) i)"

definition hasId :: "string \<Rightarrow> 'a pqueue \<Rightarrow> bool" where
  "hasId i q = jm_has (idIndex q) i"

fun find_from :: "priority_level list \<Rightarrow> ('a \<Rightarrow> bool) \<Rightarrow> 'a pqueue \<Rightarrow> 'a option" where
  "find_from [] P q = None"
| "find_from (p # ps) P q =
     (case find (\<lambda>qi. P (qi_item qi)) (queues q p) of
        None \<Rightarrow> find_from ps P q
      | Some qi \<Rightarrow> Some (qi_item qi))"

definition pq_find :: "('a \<Rightarrow> bool) \<Rightarrow> 'a pqueue \<Rightarrow> 'a option" where
  "pq_find P q = find_from PRIORITY_ORDER P q"

text \<open>\<open>find(predicate) !== undefined\<close>; entries are objects, never \<open>undefined\<close>.\<close>

definition pq_has :: "('a \<Rightarrow> bool) \<Rightarrow> 'a pqueue \<Rightarrow> bool" where
  "pq_has P q = (pq_find P q \<noteq> None)"

definition pq_size :: "'a pqueue \<Rightarrow> nat" where
  "pq_size q = length (idIndex q)"

definition sizeAt :: "priority_level \<Rightarrow> 'a pqueue \<Rightarrow> nat" where
  "sizeAt p q = length (queues q p)"

definition pq_isEmpty :: "'a pqueue \<Rightarrow> bool" where
  "pq_isEmpty q = (length (idIndex q) = 0)"

definition toArray :: "'a pqueue \<Rightarrow> 'a list" where
  "toArray q = concat (map (\<lambda>p. map qi_item (queues q p)) PRIORITY_ORDER)"

definition pq_clear :: "'a pqueue \<Rightarrow> 'a list \<times> 'a pqueue" where
  "pq_clear q =
     (concat (map (\<lambda>p. map qi_item (queues q p)) PRIORITY_ORDER),
      q\<lparr>queues := (\<lambda>_. []), idIndex := []\<rparr>)"

subsection \<open>Invariant\<close>

definition all_items :: "'a pqueue \<Rightarrow> 'a queue_item list" where
  "all_items q = queues q HIGH @ queues q NORMAL @ queues q LOW"

definition pq_inv :: "'a pqueue \<Rightarrow> bool" where
  "pq_inv q \<longleftrightarrow>
     distinct (map qi_id (all_items q)) \<and>
     jm_ok (idIndex q) \<and>
     (\<forall>i p x. jm_get (idIndex q) i = Some (p, x) \<longleftrightarrow> x \<in> set (queues q p) \<and> qi_id x = i) \<and>
     (\<forall>p. \<forall>x\<in>set (queues q p). qi_priority x = p \<and> (\<exists>n t. n \<le> idCounter q \<and> qi_id x = mk_id n t))"

lemma set_all_items: "set (all_items q) = (\<Union>p. set (queues q p))"
proof -
  have "(UNIV :: priority_level set) = {HIGH, NORMAL, LOW}"
    using priority_level.exhaust by auto
  then have "(\<Union>p. set (queues q p)) = (\<Union>p\<in>{HIGH, NORMAL, LOW}. set (queues q p))" by simp
  then show ?thesis by (simp add: all_items_def Un_assoc)
qed

lemma not_digit_underscore: "\<not> is_digit (CHR ''_'')"
  by (simp add: is_digit_def char_between_def)

lemma mk_id_inject: "mk_id m s = mk_id n t \<Longrightarrow> m = n"
proof -
  assume eq: "mk_id m s = mk_id n t"
  have tw: "takeWhile is_digit (show_nat k @ CHR ''_'' # u) = show_nat k" for k u
    by (subst takeWhile_append2) (auto simp: show_nat_digits not_digit_underscore)
  from eq have "show_nat m @ CHR ''_'' # show_int s = show_nat n @ CHR ''_'' # show_int t"
    by (simp add: mk_id_def)
  then have "show_nat m = show_nat n" using tw by metis
  then show ?thesis by simp
qed

lemma pq_invD:
  assumes "pq_inv q"
  shows "distinct (map qi_id (all_items q))" and "jm_ok (idIndex q)"
    and "jm_get (idIndex q) i = Some (p, x) \<longleftrightarrow> x \<in> set (queues q p) \<and> qi_id x = i"
    and "x \<in> set (queues q p) \<Longrightarrow> qi_priority x = p"
    and "x \<in> set (queues q p) \<Longrightarrow> \<exists>n t. n \<le> idCounter q \<and> qi_id x = mk_id n t"
  using assms by (auto simp: pq_inv_def)

lemma pq_inv_empty [simp]: "pq_inv pq_empty"
  by (simp add: pq_inv_def pq_empty_def all_items_def)

text \<open>The id a new entry gets is not in use.\<close>

lemma fresh_id:
  assumes "pq_inv q" and "x \<in> set (queues q p)"
  shows "qi_id x \<noteq> mk_id (Suc (idCounter q)) t"
  using pq_invD(5) [OF assms] mk_id_inject by fastforce

lemma mset_all_items_upd:
  "mset (all_items (q\<lparr>queues := (queues q)(p := xs)\<rparr>)) + mset (queues q p) =
   mset (all_items q) + mset xs"
  by (cases p) (simp_all add: all_items_def)

lemma distinct_map_mset: "mset xs = mset ys \<Longrightarrow> distinct (map f xs) = distinct (map f ys)"
  by (metis mset_eq_imp_distinct_iff mset_map)

lemma all_items_snoc:
  "mset (all_items (q\<lparr>queues := (queues q)(p := queues q p @ [x])\<rparr>)) = mset (all_items q @ [x])"
  by (cases p) (simp_all add: all_items_def)

lemma all_items_simps [simp]:
  "all_items (q\<lparr>idIndex := i\<rparr>) = all_items q" "all_items (q\<lparr>idCounter := n\<rparr>) = all_items q"
  by (simp_all add: all_items_def)

lemma pq_inv_enqueue:
  assumes inv: "pq_inv q"
  shows "pq_inv (snd (enqueue t1 t2 x p q))"
proof -
  let ?i = "mk_id (Suc (idCounter q)) t1"
  let ?x = "\<lparr>qi_item = x, qi_priority = p, qi_timestamp = t2, qi_id = ?i\<rparr>"
  let ?q = "q\<lparr>queues := (queues q)(p := queues q p @ [?x])\<rparr>"
  have fresh: "\<And>p' y. y \<in> set (queues q p') \<Longrightarrow> qi_id y \<noteq> ?i"
    using fresh_id [OF inv] by blast
  have "distinct (map qi_id (all_items q @ [?x]))"
    using pq_invD(1) [OF inv] fresh by (fastforce simp: set_all_items)
  moreover have "mset (all_items ?q) = mset (all_items q @ [?x])"
    by (rule all_items_snoc)
  ultimately have "distinct (map qi_id (all_items ?q))"
    using distinct_map_mset by blast
  moreover have "jm_ok (jm_set ?i (p, ?x) (idIndex q))"
    using pq_invD(2) [OF inv] by simp
  moreover have "jm_get (jm_set ?i (p, ?x) (idIndex q)) i = Some (p', y) \<longleftrightarrow>
      y \<in> set (queues ?q p') \<and> qi_id y = i" for i p' y
    using pq_invD(3) [OF inv, of i p' y] fresh by auto
  moreover have "qi_priority y = p' \<and> (\<exists>n t. n \<le> Suc (idCounter q) \<and> qi_id y = mk_id n t)"
    if "y \<in> set (queues ?q p')" for p' y
  proof (cases "y = ?x \<and> p' = p")
    case True
    then show ?thesis by auto
  next
    case False
    with that have "y \<in> set (queues q p')" by (auto split: if_splits)
    with pq_invD(4,5) [OF inv] show ?thesis by (meson le_SucI)
  qed
  ultimately show ?thesis
    by (simp add: pq_inv_def enqueue_def Let_def)
qed

text \<open>
  Every operation that takes an entry out removes it from its list and its id from the index:
  one lemma covers \<open>dequeue\<close>, \<open>remove\<close> and \<open>removeById\<close>.
\<close>

lemma pq_inv_take_out:
  assumes inv: "pq_inv q" and split: "queues q p = us @ y # vs"
  shows "pq_inv (q\<lparr>queues := (queues q)(p := us @ vs), idIndex := jm_delete (qi_id y) (idIndex q)\<rparr>)"
proof -
  let ?q = "q\<lparr>queues := (queues q)(p := us @ vs)\<rparr>"
  have m: "mset (all_items q) = mset (all_items ?q) + {#y#}"
    using mset_all_items_upd [of q p "us @ vs"] by (simp add: split)
  then have "mset (map qi_id (all_items q)) = mset (qi_id y # map qi_id (all_items ?q))"
    by simp
  with pq_invD(1) [OF inv] have d: "distinct (qi_id y # map qi_id (all_items ?q))"
    using mset_eq_imp_distinct_iff by blast
  then have "qi_id y \<notin> qi_id ` (\<Union>p'. set (queues ?q p'))"
    by (simp only: distinct.simps set_map set_all_items) simp
  then have gone: "\<And>p' z. z \<in> set (queues ?q p') \<Longrightarrow> qi_id z \<noteq> qi_id y"
    by (metis (no_types, lifting) UN_I UNIV_I imageI)
  have same: "z \<in> set (queues ?q p') \<longleftrightarrow> z \<in> set (queues q p')" if "qi_id z \<noteq> qi_id y" for z p'
    using that by (auto simp: split)
  have "jm_get (jm_delete (qi_id y) (idIndex q)) i = Some (p', z) \<longleftrightarrow>
      z \<in> set (queues ?q p') \<and> qi_id z = i" for i p' z
    using pq_invD(3) [OF inv, of i p' z] gone [of z p'] same [of z p'] by auto
  moreover have "z \<in> set (queues q p')" if "z \<in> set (queues ?q p')" for z p'
    using gone [OF that] same that by blast
  then have "\<forall>p'. \<forall>z\<in>set (queues ?q p'). qi_priority z = p' \<and> (\<exists>n t. n \<le> idCounter q \<and> qi_id z = mk_id n t)"
    using pq_invD(4,5) [OF inv] by blast
  ultimately show ?thesis
    using d pq_invD(2) [OF inv] by (simp add: pq_inv_def)
qed

lemma dequeue_from_cases:
  obtains (empty) "dequeue_from ps q = (None, q)" "\<forall>p\<in>set ps. queues q p = []"
  | (item) ps1 p ps2 y rest where "ps = ps1 @ p # ps2" "\<forall>p'\<in>set ps1. queues q p' = []"
      "queues q p = y # rest"
      "dequeue_from ps q = (Some (qi_item y),
         q\<lparr>queues := (queues q)(p := rest), idIndex := jm_delete (qi_id y) (idIndex q)\<rparr>)"
proof (induction ps arbitrary: thesis)
  case Nil
  then show ?case by simp
next
  case (Cons a ps)
  show ?case
  proof (cases "queues q a")
    case (Cons y rest)
    then show ?thesis by (intro Cons.prems(2) [of "[]" a ps y rest]) (simp_all add: fun_upd_def)
  next
    case Nil
    show ?thesis
    proof (rule Cons.IH)
      assume "dequeue_from ps q = (None, q)" "\<forall>p\<in>set ps. queues q p = []"
      with Nil show ?thesis by (intro Cons.prems(1)) auto
    next
      fix ps1 p ps2 y rest
      assume "ps = ps1 @ p # ps2" "\<forall>p'\<in>set ps1. queues q p' = []" "queues q p = y # rest"
        "dequeue_from ps q = (Some (qi_item y),
           q\<lparr>queues := (queues q)(p := rest), idIndex := jm_delete (qi_id y) (idIndex q)\<rparr>)"
      with Nil show ?thesis by (intro Cons.prems(2) [of "a # ps1" p ps2 y rest]) (simp_all add: fun_upd_def)
    qed
  qed
qed

lemma pq_inv_dequeue: "pq_inv q \<Longrightarrow> pq_inv (snd (dequeue q))"
  unfolding dequeue_def
  by (rule dequeue_from_cases [of PRIORITY_ORDER q]) (auto dest: pq_inv_take_out [where us = "[]"])

lemma pq_inv_remove_from: "pq_inv q \<Longrightarrow> pq_inv (snd (remove_from ps P q))"
proof (induction ps)
  case (Cons p ps)
  show ?case
  proof (cases "remove_first (\<lambda>qi. P (qi_item qi)) (queues q p)")
    case None
    with Cons show ?thesis by simp
  next
    case (Some yr)
    obtain y rest where yr: "yr = (y, rest)" by (cases yr)
    from remove_first_Some [OF Some [unfolded yr]] obtain us vs
      where "queues q p = us @ y # vs" "rest = us @ vs" by blast
    with pq_inv_take_out [OF Cons.prems] Some yr show ?thesis by simp
  qed
qed simp

lemma pq_inv_removeById:
  assumes inv: "pq_inv q"
  shows "pq_inv (snd (removeById i q))"
proof (cases "jm_get (idIndex q) i")
  case None
  with inv show ?thesis by (simp add: removeById_def)
next
  case (Some e)
  obtain p x where e: "e = (p, x)" by (cases e)
  with Some inv have x: "x \<in> set (queues q p)" "qi_id x = i"
    by (auto simp: pq_invD(3))
  then obtain y rest where r: "remove_first (\<lambda>x. qi_id x = i) (queues q p) = Some (y, rest)"
    by (cases "remove_first (\<lambda>x. qi_id x = i) (queues q p)") (auto simp: remove_first_None)
  from remove_first_Some [OF r] obtain us vs
    where "queues q p = us @ y # vs" "rest = us @ vs" "qi_id y = i" by blast
  with pq_inv_take_out [OF inv] Some e r show ?thesis
    by (fastforce simp: removeById_def Let_def)
qed

lemma pq_inv_clear: "pq_inv q \<Longrightarrow> pq_inv (snd (pq_clear q))"
  by (simp add: pq_inv_def pq_clear_def all_items_def)

text \<open>The index has one entry per queued item, so \<open>size\<close> counts the queued items.\<close>

lemma pq_size_all_items:
  assumes inv: "pq_inv q"
  shows "pq_size q = length (all_items q)"
proof -
  have "fst ` set (idIndex q) = qi_id ` set (all_items q)"
  proof (intro set_eqI)
    fix i
    have "i \<in> fst ` set (idIndex q) \<longleftrightarrow> (\<exists>p x. jm_get (idIndex q) i = Some (p, x))"
      using jm_get_None_iff [of "idIndex q" i] by (cases "jm_get (idIndex q) i") auto
    also have "\<dots> \<longleftrightarrow> i \<in> qi_id ` set (all_items q)"
      using inv by (auto simp: pq_invD(3) set_all_items)
    finally show "i \<in> fst ` set (idIndex q) \<longleftrightarrow> i \<in> qi_id ` set (all_items q)" .
  qed
  then have "set (map fst (idIndex q)) = set (map qi_id (all_items q))" by simp
  then have "length (map fst (idIndex q)) = length (map qi_id (all_items q))"
    using pq_invD(1,2) [OF inv] by (metis distinct_card)
  then show ?thesis by (simp add: pq_size_def)
qed

subsection \<open>The queue as one list in service order\<close>

fun prank :: "priority_level \<Rightarrow> nat" where
  "prank HIGH = 0" | "prank NORMAL = 1" | "prank LOW = 2"

definition pq_contents :: "'a pqueue \<Rightarrow> (priority_level \<times> 'a) list" where
  "pq_contents q = map (\<lambda>x. (qi_priority x, qi_item x)) (all_items q)"

text \<open>Insertion behind every entry of the same or a higher priority.\<close>

definition insert_stable :: "priority_level \<Rightarrow> 'a \<Rightarrow> (priority_level \<times> 'a) list \<Rightarrow> (priority_level \<times> 'a) list" where
  "insert_stable p x xs =
     takeWhile (\<lambda>e. prank (fst e) \<le> prank p) xs @ (p, x) # dropWhile (\<lambda>e. prank (fst e) \<le> prank p) xs"

lemma insert_stable_split:
  assumes "\<forall>e\<in>set xs. prank (fst e) \<le> prank p" and "\<forall>e\<in>set ys. \<not> prank (fst e) \<le> prank p"
  shows "insert_stable p x (xs @ ys) = xs @ (p, x) # ys"
proof -
  have "takeWhile (\<lambda>e. prank (fst e) \<le> prank p) ys = []" "dropWhile (\<lambda>e. prank (fst e) \<le> prank p) ys = ys"
    using assms(2) by (cases ys; simp)+
  with assms(1) show ?thesis by (simp add: insert_stable_def)
qed

lemma contents_enqueue:
  assumes inv: "pq_inv q"
  shows "pq_contents (snd (enqueue t1 t2 x p q)) = insert_stable p x (pq_contents q)"
proof -
  let ?c = "\<lambda>p. map (\<lambda>x. (qi_priority x, qi_item x)) (queues q p)"
  have pri: "\<And>p e. e \<in> set (?c p) \<Longrightarrow> fst e = p"
    using pq_invD(4) [OF inv] by auto
  note rank = pq_invD(4) [OF inv]
  have c: "pq_contents q = ?c HIGH @ ?c NORMAL @ ?c LOW"
    by (simp add: pq_contents_def all_items_def)
  show ?thesis
  proof (cases p)
    case HIGH
    have "insert_stable p x (?c HIGH @ (?c NORMAL @ ?c LOW)) = ?c HIGH @ (p, x) # (?c NORMAL @ ?c LOW)"
      using HIGH by (intro insert_stable_split) (auto dest: rank)
    with HIGH show ?thesis
      by (simp only: c) (simp add: pq_contents_def all_items_def enqueue_def Let_def)
  next
    case NORMAL
    have "insert_stable p x ((?c HIGH @ ?c NORMAL) @ ?c LOW) = (?c HIGH @ ?c NORMAL) @ (p, x) # ?c LOW"
      using NORMAL by (intro insert_stable_split) (auto dest: rank)
    with NORMAL show ?thesis
      by (simp only: c) (simp add: pq_contents_def all_items_def enqueue_def Let_def)
  next
    case LOW
    have "insert_stable p x ((?c HIGH @ ?c NORMAL @ ?c LOW) @ []) = (?c HIGH @ ?c NORMAL @ ?c LOW) @ [(p, x)]"
      using LOW by (intro insert_stable_split) (auto dest: rank)
    with LOW show ?thesis
      by (simp only: c) (simp add: pq_contents_def all_items_def enqueue_def Let_def)
  qed
qed

lemma map_snd_contents: "map snd (pq_contents q) = toArray q"
  by (simp add: pq_contents_def all_items_def toArray_def PRIORITY_ORDER_def)

lemma contents_dequeue:
  assumes inv: "pq_inv q"
  shows "fst (dequeue q) = (case pq_contents q of [] \<Rightarrow> None | e # _ \<Rightarrow> Some (snd e)) \<and>
         pq_contents (snd (dequeue q)) = tl (pq_contents q)"
proof (cases "queues q HIGH")
  case (Cons y ys)
  then show ?thesis
    by (simp add: dequeue_def PRIORITY_ORDER_def pq_contents_def all_items_def)
next
  case H: Nil
  show ?thesis
    by (cases "queues q NORMAL"; cases "queues q LOW")
      (simp_all add: H dequeue_def PRIORITY_ORDER_def pq_contents_def all_items_def)
qed

lemma remove_first_append:
  "remove_first P (xs @ ys) =
     (case remove_first P xs of
        None \<Rightarrow> map_option (\<lambda>(y, zs). (y, xs @ zs)) (remove_first P ys)
      | Some (y, zs) \<Rightarrow> Some (y, zs @ ys))"
  by (induction xs) (auto split: option.splits simp: option.map_comp option.map_id)

lemma remove_first_map:
  "remove_first P (map f xs) = map_option (\<lambda>(y, zs). (f y, map f zs)) (remove_first (P \<circ> f) xs)"
  by (induction xs) (auto split: option.splits)

lemma remove_first_cong_fun: "(\<And>x. P x = Q x) \<Longrightarrow> remove_first P xs = remove_first Q xs"
  by (induction xs) auto

lemma contents_remove:
  "(case remove_first (\<lambda>e. P (snd e)) (pq_contents q) of
      None \<Rightarrow> fst (pq_remove P q) = None \<and> pq_contents (snd (pq_remove P q)) = pq_contents q
    | Some (e, es) \<Rightarrow> fst (pq_remove P q) = Some (snd e) \<and> pq_contents (snd (pq_remove P q)) = es)"
proof -
  let ?r = "\<lambda>p. remove_first (\<lambda>qi. P (qi_item qi)) (queues q p)"
  have c: "((\<lambda>e. P (snd e)) \<circ> (\<lambda>x. (qi_priority x, qi_item x))) = (\<lambda>qi. P (qi_item qi))"
    by auto
  show ?thesis
    by (cases "?r HIGH"; cases "?r NORMAL"; cases "?r LOW")
      (auto simp: pq_remove_def PRIORITY_ORDER_def pq_contents_def all_items_def
         remove_first_append remove_first_map c)
qed

lemma contents_clear: "fst (pq_clear q) = map snd (pq_contents q) \<and> pq_contents (snd (pq_clear q)) = []"
  by (simp add: pq_clear_def pq_contents_def all_items_def PRIORITY_ORDER_def)

lemma length_contents: "pq_inv q \<Longrightarrow> length (pq_contents q) = pq_size q"
  by (simp add: pq_size_all_items pq_contents_def)

subsection \<open>What a client of the queue relies on\<close>

text \<open>
  \<open>drain deq n q\<close> is what \<open>n\<close> calls of a dequeue operation hand out, in order.
\<close>

fun drain :: "('q \<Rightarrow> 'a option \<times> 'q) \<Rightarrow> nat \<Rightarrow> 'q \<Rightarrow> 'a list" where
  "drain deq 0 q = []"
| "drain deq (Suc n) q = (case deq q of (None, _) \<Rightarrow> [] | (Some x, q') \<Rightarrow> x # drain deq n q')"

locale overflow_queue =
  fixes valid :: "'q \<Rightarrow> bool"
    and contents :: "'q \<Rightarrow> (priority_level \<times> 'a) list"
    and enq :: "ms \<Rightarrow> ms \<Rightarrow> 'a \<Rightarrow> priority_level \<Rightarrow> 'q \<Rightarrow> 'q"
    and deq :: "'q \<Rightarrow> 'a option \<times> 'q"
    and rmv :: "('a \<Rightarrow> bool) \<Rightarrow> 'q \<Rightarrow> 'a option \<times> 'q"
    and sz :: "'q \<Rightarrow> nat"
  assumes valid_enq: "valid q \<Longrightarrow> valid (enq t1 t2 x p q)"
    and valid_deq: "valid q \<Longrightarrow> valid (snd (deq q))"
    and valid_rmv: "valid q \<Longrightarrow> valid (snd (rmv P q))"
    and contents_enq: "valid q \<Longrightarrow> contents (enq t1 t2 x p q) = insert_stable p x (contents q)"
    and fst_deq: "valid q \<Longrightarrow> fst (deq q) = (case contents q of [] \<Rightarrow> None | e # _ \<Rightarrow> Some (snd e))"
    and contents_deq: "valid q \<Longrightarrow> contents (snd (deq q)) = tl (contents q)"
    and contents_rmv: "valid q \<Longrightarrow>
      (case remove_first (\<lambda>e. P (snd e)) (contents q) of
         None \<Rightarrow> fst (rmv P q) = None \<and> contents (snd (rmv P q)) = contents q
       | Some (e, es) \<Rightarrow> fst (rmv P q) = Some (snd e) \<and> contents (snd (rmv P q)) = es)"
    and sz_contents: "valid q \<Longrightarrow> sz q = length (contents q)"
begin

lemma drain_contents: "valid q \<Longrightarrow> drain deq n q = take n (map snd (contents q))"
proof (induction n arbitrary: q)
  case (Suc n)
  obtain r q' where d: "deq q = (r, q')" by (cases "deq q")
  have "valid q'" "contents q' = tl (contents q)"
    "r = (case contents q of [] \<Rightarrow> None | e # _ \<Rightarrow> Some (snd e))"
    using valid_deq [OF Suc.prems] contents_deq [OF Suc.prems] fst_deq [OF Suc.prems] by (simp_all add: d)
  with Suc.IH show ?case by (cases "contents q") (simp_all add: d)
qed simp

lemma mset_insert_stable: "mset (insert_stable p x xs) = add_mset (p, x) (mset xs)"
  unfolding insert_stable_def
  by simp (metis mset_append takeWhile_dropWhile_id)

lemma sz_enq: "valid q \<Longrightarrow> sz (enq t1 t2 x p q) = Suc (sz q)"
  using arg_cong [OF mset_insert_stable [of p x "contents q"], of size]
  by (simp add: sz_contents valid_enq contents_enq)

lemma sz_deq: "valid q \<Longrightarrow> sz (snd (deq q)) = sz q - 1"
  by (simp add: sz_contents valid_deq contents_deq)

lemma deq_None_iff: "valid q \<Longrightarrow> fst (deq q) = None \<longleftrightarrow> sz q = 0"
  by (simp add: sz_contents fst_deq split: list.splits)

lemma rmv_gone:
  assumes "valid q" and "\<And>x y. x \<in> snd ` set (contents q) \<Longrightarrow> y \<in> snd ` set (contents q) \<Longrightarrow> P x \<Longrightarrow> P y \<Longrightarrow> x = y"
    and "distinct (map snd (contents q))"
  shows "\<forall>x\<in>snd ` set (contents (snd (rmv P q))). \<not> P x"
proof (cases "remove_first (\<lambda>e. P (snd e)) (contents q)")
  case None
  with contents_rmv [OF assms(1), of P] show ?thesis
    by (auto simp: remove_first_None)
next
  case (Some ees)
  obtain e es where ees: "ees = (e, es)" by (cases ees)
  from remove_first_Some [OF Some [unfolded ees]] obtain us vs
    where c: "contents q = us @ e # vs" "es = us @ vs" "P (snd e)" by blast
  with assms(3) have "snd e \<notin> snd ` set es" by auto
  moreover have "contents (snd (rmv P q)) = es"
    using contents_rmv [OF assms(1), of P] Some ees by simp
  moreover have "P y \<Longrightarrow> y \<in> snd ` set es \<Longrightarrow> y = snd e" for y
    by (rule assms(2)) (use c in auto)
  ultimately show ?thesis by metis
qed

end

interpretation pq: overflow_queue pq_inv pq_contents "\<lambda>t1 t2 x p q. snd (enqueue t1 t2 x p q)"
  dequeue pq_remove pq_size
  by unfold_locales
    (use contents_dequeue contents_remove in
      \<open>auto simp: pq_inv_enqueue pq_inv_dequeue pq_remove_def pq_inv_remove_from contents_enqueue length_contents\<close>)

subsection \<open>Properties\<close>

text \<open>A sequence of enqueues: clock readings, priority and item of each call.\<close>

fun enqueue_all :: "(ms \<times> ms \<times> priority_level \<times> 'a) list \<Rightarrow> 'a pqueue \<Rightarrow> 'a pqueue" where
  "enqueue_all [] q = q"
| "enqueue_all ((t1, t2, p, x) # es) q = enqueue_all es (snd (enqueue t1 t2 x p q))"

definition of_prio :: "priority_level \<Rightarrow> (priority_level \<times> 'a) list \<Rightarrow> 'a list" where
  "of_prio p es = map snd (filter (\<lambda>e. fst e = p) es)"

lemma enqueue_queues:
  "queues (snd (enqueue t1 t2 x p q)) p' = queues q p' @
     (if p' = p then [\<lparr>qi_item = x, qi_priority = p, qi_timestamp = t2, qi_id = mk_id (Suc (idCounter q)) t1\<rparr>] else [])"
  by (simp add: enqueue_def Let_def)

lemma enqueue_all_queues:
  "map qi_item (queues (enqueue_all es q) p) = map qi_item (queues q p) @ of_prio p (map (\<lambda>(_, _, e). e) es)"
proof (induction es arbitrary: q)
  case Nil
  show ?case by (simp add: of_prio_def)
next
  case (Cons e es)
  then show ?case by (cases e) (auto simp: enqueue_queues of_prio_def)
qed

lemma pq_inv_enqueue_all: "pq_inv q \<Longrightarrow> pq_inv (enqueue_all es q)"
  by (induction es q rule: enqueue_all.induct) (auto simp: pq_inv_enqueue)

text \<open>C1 Service order. Whatever sequence of \<open>enqueue\<close> calls filled an empty queue,
  dequeuing until it is empty hands out every item exactly once: all HIGH items first, then
  NORMAL, then LOW, and within one priority in the order they were enqueued.\<close>

theorem dequeue_order:
  "drain dequeue (length es) (enqueue_all es pq_empty) =
     of_prio HIGH (map (\<lambda>(_, _, e). e) es) @ of_prio NORMAL (map (\<lambda>(_, _, e). e) es) @
     of_prio LOW (map (\<lambda>(_, _, e). e) es)"
proof -
  let ?es = "map (\<lambda>(_, _, e). e) es"
  have arr: "toArray (enqueue_all es pq_empty) = of_prio HIGH ?es @ of_prio NORMAL ?es @ of_prio LOW ?es"
    by (simp add: toArray_def PRIORITY_ORDER_def enqueue_all_queues) (simp add: pq_empty_def)
  have part: "length (of_prio HIGH xs) + length (of_prio NORMAL xs) + length (of_prio LOW xs) = length xs"
    for xs :: "(priority_level \<times> 'a) list"
    by (induction xs) (auto simp: of_prio_def split: prod.splits intro: priority_level.exhaust)
  have "drain dequeue (length es) (enqueue_all es pq_empty) = take (length es) (toArray (enqueue_all es pq_empty))"
    using pq.drain_contents [OF pq_inv_enqueue_all [OF pq_inv_empty]] by (metis map_snd_contents)
  also have "\<dots> = toArray (enqueue_all es pq_empty)"
    using part [of ?es] by (simp add: arr)
  finally show ?thesis by (simp only: arr)
qed



text \<open>Round trip by id. The id returned by \<open>enqueue\<close> finds exactly the item just queued, and
  removing by that id returns it and restores the queue's contents to what they were, leaving no
  trace of the id; the invariant is kept.\<close>

theorem enqueue_removeById:
  assumes inv: "pq_inv q"
  shows "let (i, q1) = enqueue t1 t2 x p q; (r, q2) = removeById i q1 in
           getById i q1 = Some x \<and> r = Some x \<and> pq_inv q2 \<and>
           pq_contents q2 = pq_contents q \<and> \<not> hasId i q2"
proof -
  let ?i = "mk_id (Suc (idCounter q)) t1"
  let ?x = "\<lparr>qi_item = x, qi_priority = p, qi_timestamp = t2, qi_id = ?i\<rparr>"
  define q1 where "q1 = snd (enqueue t1 t2 x p q)"
  have e: "enqueue t1 t2 x p q = (?i, q1)" by (simp add: q1_def enqueue_def Let_def)
  have inv1: "pq_inv q1" using pq_inv_enqueue [OF inv] by (simp add: q1_def)
  have qs: "queues q1 p' = queues q p' @ (if p' = p then [?x] else [])" for p'
    by (simp add: q1_def enqueue_queues)
  have g: "jm_get (idIndex q1) ?i = Some (p, ?x)"
    by (simp add: q1_def enqueue_def Let_def)
  have rf: "remove_first (\<lambda>y. qi_id y = ?i) (queues q1 p) = Some (?x, queues q p)"
  proof -
    have "remove_first (\<lambda>y. qi_id y = ?i) (queues q p) = None"
      using fresh_id [OF inv] by (auto simp: remove_first_None)
    then show ?thesis
      by (simp add: q1_def enqueue_queues remove_first_append)
  qed
  have r: "removeById ?i q1 = (Some x, q1\<lparr>queues := (queues q1)(p := queues q p), idIndex := jm_delete ?i (idIndex q1)\<rparr>)"
    by (simp add: removeById_def g rf Let_def)
  have "all_items (snd (removeById ?i q1)) = all_items q"
    by (cases p) (simp_all add: r all_items_def qs)
  then have "pq_contents (snd (removeById ?i q1)) = pq_contents q"
    by (simp add: pq_contents_def)
  with pq_inv_removeById [OF inv1, of ?i] show ?thesis
    by (simp add: e r getById_def g hasId_def jm_has_iff)
qed

theorem enqueue_removeById_witness:
  "pq_inv (pq_empty :: nat pqueue) \<and>
   (let (i, q1) = enqueue 10 11 (7::nat) LOW pq_empty; (r, q2) = removeById i q1 in
      getById i q1 = Some 7 \<and> r = Some 7 \<and> pq_inv q2 \<and>
      pq_contents q2 = pq_contents pq_empty \<and> \<not> hasId i q2)"
  using enqueue_removeById [OF pq_inv_empty, of 10 11 7 LOW] by simp

end
