(* ===== verification/Table_Locks.thy ===== *)
theory Table_Locks
  imports Foundation_Prelude
begin

text \<open>
  The readers-writer locks on tables
  (\<open>libs/foundation/bridge/src/wasm/pool/table-lock-manager.ts\<close>). The first part translates the
  manager: one lock record per table in an insertion-ordered registry, \<open>acquireLocks\<close> and
  \<open>releaseLocks\<close> as functions on it. A queued \<open>resolve\<close> callback is represented by the request
  that waits for it. The second part closes the system with its clients: requests that have called
  \<open>acquireLocks\<close> and wait for some of their tables or hold all of them.
\<close>

subsection \<open>The manager\<close>

type_synonym req = nat
type_synonym table = string

datatype lock_mode = READ | WRITE

record table_lock =
  readersCount :: int
  writer :: bool
  readersQueue :: "req list"
  writersQueue :: "req list"

type_synonym lock_registry = "(table, table_lock) jmap"

definition new_lock :: table_lock where
  "new_lock = \<lparr>readersCount = 0, writer = False, readersQueue = [], writersQueue = []\<rparr>"

definition getOrCreateLock :: "table \<Rightarrow> lock_registry \<Rightarrow> table_lock \<times> lock_registry" where
  "getOrCreateLock t reg =
     (case jm_get reg t of
        Some l \<Rightarrow> (l, reg)
      | None \<Rightarrow> (new_lock, jm_set t new_lock reg))"

text \<open>One turn of the acquisition loop: whether a promise is queued, and the lock afterwards.\<close>

fun acquire_one :: "req \<Rightarrow> lock_mode \<Rightarrow> table_lock \<Rightarrow> bool \<times> table_lock" where
  "acquire_one r READ l =
     (if \<not> writer l \<and> writersQueue l = [] then (False, l\<lparr>readersCount := readersCount l + 1\<rparr>)
      else (True, l\<lparr>readersQueue := readersQueue l @ [r]\<rparr>))"
| "acquire_one r WRITE l =
     (if readersCount l = 0 \<and> \<not> writer l then (False, l\<lparr>writer := True\<rparr>)
      else (True, l\<lparr>writersQueue := writersQueue l @ [r]\<rparr>))"

fun acquire_loop :: "req \<Rightarrow> lock_mode \<Rightarrow> table list \<Rightarrow> lock_registry \<Rightarrow> table list \<times> lock_registry" where
  "acquire_loop r m [] reg = ([], reg)"
| "acquire_loop r m (t # ts) reg =
     (let (l, reg1) = getOrCreateLock t reg;
          (waits, l') = acquire_one r m l;
          (ws, reg2) = acquire_loop r m ts (jm_set t l' reg1)
      in (if waits then t # ws else ws, reg2))"

text \<open>
  The result lists the tables whose promise is pending; the returned promise resolves when none
  is left. JavaScript's default \<open>sort\<close> on strings is the lexicographic order of the code units.
\<close>

definition acquireLocks :: "req \<Rightarrow> table list \<Rightarrow> lock_mode \<Rightarrow> lock_registry \<Rightarrow> table list \<times> lock_registry" where
  "acquireLocks r ts m reg = (if ts = [] then ([], reg) else acquire_loop r m (sort ts) reg)"

text \<open>One turn of the release loop: the requests whose callback is called, and the lock.\<close>

fun release_one :: "lock_mode \<Rightarrow> table_lock \<Rightarrow> req list \<times> table_lock" where
  "release_one READ l =
     (let l1 = l\<lparr>readersCount := readersCount l - 1\<rparr>
      in (if readersCount l1 = 0 \<and> writersQueue l1 \<noteq> []
          then ([hd (writersQueue l1)], l1\<lparr>writersQueue := tl (writersQueue l1), writer := True\<rparr>)
          else ([], l1)))"
| "release_one WRITE l =
     (let l1 = l\<lparr>writer := False\<rparr>
      in (if readersQueue l1 \<noteq> []
          then (readersQueue l1,
                l1\<lparr>readersQueue := [], readersCount := readersCount l1 + int (length (readersQueue l1))\<rparr>)
          else if writersQueue l1 \<noteq> []
          then ([hd (writersQueue l1)], l1\<lparr>writersQueue := tl (writersQueue l1), writer := True\<rparr>)
          else ([], l1)))"

definition idle_lock :: "table_lock \<Rightarrow> bool" where
  "idle_lock l \<longleftrightarrow> readersCount l = 0 \<and> \<not> writer l \<and> readersQueue l = [] \<and> writersQueue l = []"

definition release_table :: "lock_mode \<Rightarrow> table \<Rightarrow> lock_registry \<Rightarrow> req list \<times> lock_registry" where
  "release_table m t reg =
     (case jm_get reg t of
        None \<Rightarrow> ([], reg)
      | Some l \<Rightarrow>
          (let (woken, l') = release_one m l
           in (woken, if idle_lock l' then jm_delete t reg else jm_set t l' reg)))"

fun releaseLocks :: "table list \<Rightarrow> lock_mode \<Rightarrow> lock_registry \<Rightarrow> (req \<times> table) list \<times> lock_registry" where
  "releaseLocks [] m reg = ([], reg)"
| "releaseLocks (t # ts) m reg =
     (let (woken, reg1) = release_table m t reg;
          (more, reg2) = releaseLocks ts m reg1
      in (map (\<lambda>w. (w, t)) woken @ more, reg2))"

definition isLocked :: "table \<Rightarrow> lock_registry \<Rightarrow> bool" where
  "isLocked t reg = (case jm_get reg t of Some l \<Rightarrow> readersCount l > 0 \<or> writer l | None \<Rightarrow> False)"

definition isWriteLocked :: "table \<Rightarrow> lock_registry \<Rightarrow> bool" where
  "isWriteLocked t reg = (case jm_get reg t of Some l \<Rightarrow> writer l | None \<Rightarrow> False)"

definition getReaderCount :: "table \<Rightarrow> lock_registry \<Rightarrow> int" where
  "getReaderCount t reg = (case jm_get reg t of Some l \<Rightarrow> readersCount l | None \<Rightarrow> 0)"

definition getLockedTables :: "lock_registry \<Rightarrow> table list" where
  "getLockedTables reg = map fst (filter (\<lambda>(_, l). readersCount l > 0 \<or> writer l) reg)"

record table_lock_status =
  st_readers :: int
  st_writer :: bool
  st_pendingReaders :: nat
  st_pendingWriters :: nat

definition getLockStatus :: "lock_registry \<Rightarrow> (table, table_lock_status) jmap" where
  "getLockStatus reg =
     fold (\<lambda>(n, l). jm_set n \<lparr>st_readers = readersCount l, st_writer = writer l,
             st_pendingReaders = length (readersQueue l), st_pendingWriters = length (writersQueue l)\<rparr>) reg []"

text \<open>\<open>clearAll\<close> calls every queued callback and empties the registry.\<close>

definition clearAll :: "lock_registry \<Rightarrow> (req \<times> table) list \<times> lock_registry" where
  "clearAll reg =
     (concat (map (\<lambda>(t, l). map (\<lambda>w. (w, t)) (readersQueue l @ writersQueue l)) reg), [])"

subsection \<open>One lock at a time\<close>

definition lock_at :: "lock_registry \<Rightarrow> table \<Rightarrow> table_lock" where
  "lock_at reg t = (case jm_get reg t of Some l \<Rightarrow> l | None \<Rightarrow> new_lock)"

lemma getOrCreateLock_lock_at [simp]:
  "fst (getOrCreateLock t reg) = lock_at reg t"
  "lock_at (snd (getOrCreateLock t reg)) t' = lock_at reg t'"
  by (auto simp: getOrCreateLock_def lock_at_def split: option.splits)

lemma lock_at_set [simp]: "lock_at (jm_set t l reg) t' = (if t' = t then l else lock_at reg t')"
  by (simp add: lock_at_def)

lemma acquire_loop_lock_at:
  assumes "distinct ts"
  shows "lock_at (snd (acquire_loop r m ts reg)) t =
      (if t \<in> set ts then snd (acquire_one r m (lock_at reg t)) else lock_at reg t)"
    and "fst (acquire_loop r m ts reg) = filter (\<lambda>t. fst (acquire_one r m (lock_at reg t))) ts"
proof -
  have "\<forall>t. lock_at (snd (acquire_loop r m ts reg)) t =
      (if t \<in> set ts then snd (acquire_one r m (lock_at reg t)) else lock_at reg t) \<and>
     fst (acquire_loop r m ts reg) = filter (\<lambda>t. fst (acquire_one r m (lock_at reg t))) ts"
    using assms
  proof (induction ts arbitrary: reg)
    case (Cons u ts)
    define reg' where "reg' = jm_set u (snd (acquire_one r m (lock_at reg u))) (snd (getOrCreateLock u reg))"
    have l: "lock_at reg' t = (if t = u then snd (acquire_one r m (lock_at reg u)) else lock_at reg t)" for t
      by (simp add: reg'_def)
    have step: "acquire_loop r m (u # ts) reg =
        ((if fst (acquire_one r m (lock_at reg u)) then [u] else []) @ fst (acquire_loop r m ts reg'),
         snd (acquire_loop r m ts reg'))"
      by (simp add: reg'_def split_def Let_def)
    have "filter (\<lambda>t. fst (acquire_one r m (lock_at reg' t))) ts = filter (\<lambda>t. fst (acquire_one r m (lock_at reg t))) ts"
      using Cons.prems by (intro filter_cong) (auto simp: l)
    with Cons.IH [of reg'] Cons.prems show ?case
      by (auto simp: step l simp del: acquire_loop.simps)
  qed simp
  then show "lock_at (snd (acquire_loop r m ts reg)) t =
      (if t \<in> set ts then snd (acquire_one r m (lock_at reg t)) else lock_at reg t)"
    and "fst (acquire_loop r m ts reg) = filter (\<lambda>t. fst (acquire_one r m (lock_at reg t))) ts"
    by blast+
qed

lemma acquireLocks_effect:
  assumes "distinct ts"
  shows "lock_at (snd (acquireLocks r ts m reg)) t =
      (if t \<in> set ts then snd (acquire_one r m (lock_at reg t)) else lock_at reg t)"
    and "set (fst (acquireLocks r ts m reg)) = {t \<in> set ts. fst (acquire_one r m (lock_at reg t))}"
    and "distinct (fst (acquireLocks r ts m reg))"
  using assms by (auto simp: acquireLocks_def acquire_loop_lock_at)

text \<open>A registry without idle entries: what the clean-up at the end of a release maintains.\<close>

definition tidy :: "lock_registry \<Rightarrow> bool" where
  "tidy reg \<longleftrightarrow> (\<forall>t l. jm_get reg t = Some l \<longrightarrow> \<not> idle_lock l)"

lemma idle_lock_new: "idle_lock l \<longleftrightarrow> l = new_lock"
  by (cases l) (simp add: idle_lock_def new_lock_def)

lemma acquire_one_not_idle: "readersCount l \<ge> 0 \<Longrightarrow> \<not> idle_lock (snd (acquire_one r m l))"
  by (cases m) (auto simp: idle_lock_def)

lemma release_table_effect:
  assumes "jm_get reg t = Some l"
  shows "lock_at (snd (release_table m t reg)) t' = (if t' = t then snd (release_one m l) else lock_at reg t')"
    and "fst (release_table m t reg) = fst (release_one m l)"
  using assms
  by (auto simp: release_table_def lock_at_def split_def Let_def idle_lock_new split: option.splits)

lemma tidy_release_table: "tidy reg \<Longrightarrow> tidy (snd (release_table m t reg))"
  by (auto simp: tidy_def release_table_def split_def Let_def split: option.splits if_splits)

lemma jm_get_release_table_other:
  "t' \<noteq> t \<Longrightarrow> jm_get (snd (release_table m t reg)) t' = jm_get reg t'"
  by (auto simp: release_table_def split_def Let_def split: option.splits)

lemma releaseLocks_effect:
  assumes "distinct ts" and "\<forall>t\<in>set ts. jm_get reg t \<noteq> None"
  shows "lock_at (snd (releaseLocks ts m reg)) t =
      (if t \<in> set ts then snd (release_one m (lock_at reg t)) else lock_at reg t)"
    and "(w, t) \<in> set (fst (releaseLocks ts m reg)) \<longleftrightarrow> t \<in> set ts \<and> w \<in> set (fst (release_one m (lock_at reg t)))"
    and "tidy reg \<Longrightarrow> tidy (snd (releaseLocks ts m reg))"
proof -
  have "(\<forall>t. lock_at (snd (releaseLocks ts m reg)) t =
      (if t \<in> set ts then snd (release_one m (lock_at reg t)) else lock_at reg t)) \<and>
    (\<forall>w t. (w, t) \<in> set (fst (releaseLocks ts m reg)) \<longleftrightarrow>
       t \<in> set ts \<and> w \<in> set (fst (release_one m (lock_at reg t)))) \<and>
    (tidy reg \<longrightarrow> tidy (snd (releaseLocks ts m reg)))"
    using assms
  proof (induction ts arbitrary: reg)
    case (Cons u ts)
    define reg' where "reg' = snd (release_table m u reg)"
    from Cons.prems obtain l where g: "jm_get reg u = Some l" by auto
    then have l: "lock_at reg u = l" by (simp add: lock_at_def)
    have la: "lock_at reg' t = (if t = u then snd (release_one m l) else lock_at reg t)" for t
      using release_table_effect(1) [OF g] by (simp add: reg'_def)
    have "\<forall>t\<in>set ts. jm_get reg' t \<noteq> None"
      using Cons.prems jm_get_release_table_other [of _ u m reg] unfolding reg'_def
      by (metis distinct.simps(2) list.set_intros(2))
    with Cons.IH [of reg'] Cons.prems have IH:
      "\<forall>t. lock_at (snd (releaseLocks ts m reg')) t =
        (if t \<in> set ts then snd (release_one m (lock_at reg' t)) else lock_at reg' t)"
      "\<forall>w t. (w, t) \<in> set (fst (releaseLocks ts m reg')) \<longleftrightarrow>
         t \<in> set ts \<and> w \<in> set (fst (release_one m (lock_at reg' t)))"
      "tidy reg' \<longrightarrow> tidy (snd (releaseLocks ts m reg'))"
      by auto
    have step: "releaseLocks (u # ts) m reg =
        (map (\<lambda>w. (w, u)) (fst (release_one m l)) @ fst (releaseLocks ts m reg'), snd (releaseLocks ts m reg'))"
      by (simp add: reg'_def split_def Let_def release_table_effect(2) [OF g])
    have "tidy reg \<Longrightarrow> tidy reg'" by (simp add: reg'_def tidy_release_table)
    with IH Cons.prems show ?case
      by (auto simp: step la l simp del: releaseLocks.simps)
  qed simp
  then show "lock_at (snd (releaseLocks ts m reg)) t =
      (if t \<in> set ts then snd (release_one m (lock_at reg t)) else lock_at reg t)"
    and "(w, t) \<in> set (fst (releaseLocks ts m reg)) \<longleftrightarrow> t \<in> set ts \<and> w \<in> set (fst (release_one m (lock_at reg t)))"
    and "tidy reg \<Longrightarrow> tidy (snd (releaseLocks ts m reg))"
    by blast+
qed

subsection \<open>The invariant of one table\<close>

text \<open>
  \<open>st r\<close> says how request \<open>r\<close> stands with the table: not involved, or in which mode, and
  whether it has been granted the lock or its callback is still queued.
\<close>

datatype grant = Granted | Pending

type_synonym standing = "req \<Rightarrow> (lock_mode \<times> grant) option"

definition who :: "standing \<Rightarrow> lock_mode \<Rightarrow> grant \<Rightarrow> req set" where
  "who st m g = {r. st r = Some (m, g)}"

text \<open>
  The counters and queues of a lock describe exactly the four sets of requests: reading, writing,
  waiting to read, waiting to write. A writer is alone, and nobody waits for a lock that is free.
\<close>

definition lock_inv :: "table_lock \<Rightarrow> req set \<Rightarrow> req set \<Rightarrow> req set \<Rightarrow> req set \<Rightarrow> bool" where
  "lock_inv l RG WG RP WP \<longleftrightarrow>
     finite RG \<and> readersCount l = int (card RG) \<and>
     (if writer l then \<exists>w. WG = {w} else WG = {}) \<and>
     (writer l \<longrightarrow> RG = {}) \<and>
     distinct (readersQueue l) \<and> set (readersQueue l) = RP \<and>
     distinct (writersQueue l) \<and> set (writersQueue l) = WP \<and>
     (RP \<noteq> {} \<longrightarrow> WG \<noteq> {} \<or> WP \<noteq> {}) \<and>
     (WP \<noteq> {} \<longrightarrow> WG \<noteq> {} \<or> RG \<noteq> {})"

definition table_inv :: "table_lock \<Rightarrow> standing \<Rightarrow> bool" where
  "table_inv l st \<longleftrightarrow>
     lock_inv l (who st READ Granted) (who st WRITE Granted) (who st READ Pending) (who st WRITE Pending)"

lemma table_inv_new: "table_inv new_lock (\<lambda>_. None)"
  by (simp add: table_inv_def lock_inv_def new_lock_def who_def)

lemma who_upd: "st r = None \<Longrightarrow> who (st(r \<mapsto> (m, g))) m' g' = (if m' = m \<and> g' = g then insert r (who st m' g') else who st m' g')"
  by (auto simp: who_def)

lemma who_notin: "st r = None \<Longrightarrow> r \<notin> who st m g"
  by (simp add: who_def)

lemma lock_inv_acquire_read:
  assumes "lock_inv l RG WG RP WP" and "r \<notin> RG" "r \<notin> RP"
  shows "if fst (acquire_one r READ l) then lock_inv (snd (acquire_one r READ l)) RG WG (insert r RP) WP
         else lock_inv (snd (acquire_one r READ l)) (insert r RG) WG RP WP"
proof (cases "\<not> writer l \<and> writersQueue l = []")
  case True
  with assms show ?thesis by (auto simp: lock_inv_def)
next
  case False
  with assms show ?thesis by (cases "writer l") (auto simp: lock_inv_def)
qed

lemma lock_inv_acquire_write:
  assumes "lock_inv l RG WG RP WP" and "r \<notin> WG" "r \<notin> WP"
  shows "if fst (acquire_one r WRITE l) then lock_inv (snd (acquire_one r WRITE l)) RG WG RP (insert r WP)
         else lock_inv (snd (acquire_one r WRITE l)) RG (insert r WG) RP WP"
proof (cases "readersCount l = 0 \<and> \<not> writer l")
  case True
  with assms show ?thesis by (auto simp: lock_inv_def)
next
  case False
  with assms show ?thesis by (cases "writer l") (auto simp: lock_inv_def)
qed

lemma table_inv_acquire:
  assumes inv: "table_inv l st" and fresh: "st r = None"
  shows "table_inv (snd (acquire_one r m l))
           (st(r \<mapsto> (m, if fst (acquire_one r m l) then Pending else Granted)))"
  using lock_inv_acquire_read [OF inv [unfolded table_inv_def], of r]
    lock_inv_acquire_write [OF inv [unfolded table_inv_def], of r]
  by (cases m) (auto simp: table_inv_def who_upd [where st = st, OF fresh] who_notin [where st = st, OF fresh]
      simp del: acquire_one.simps)

text \<open>
  A release: the releaser leaves, and the woken requests turn from pending to granted.
\<close>

lemma lock_inv_release_read:
  assumes inv: "lock_inv l RG WG RP WP" and r: "r \<in> RG"
  shows "lock_inv (snd (release_one READ l)) (RG - {r}) (WG \<union> set (fst (release_one READ l))) RP
           (WP - set (fst (release_one READ l)))"
    and "RG - {r} \<noteq> {} \<Longrightarrow> fst (release_one READ l) = []"
    and "set (fst (release_one READ l)) \<subseteq> WP"
proof -
  have w: "\<not> writer l" "WG = {}" using inv r by (auto simp: lock_inv_def split: if_splits)
  have fin: "finite RG" and n: "readersCount l = int (card RG)"
    using inv by (simp_all add: lock_inv_def)
  have "card RG = Suc (card (RG - {r}))" using fin r by (rule card.remove)
  with n have card: "readersCount l - 1 = int (card (RG - {r}))" by simp
  have zero: "readersCount l - 1 = 0 \<longleftrightarrow> RG - {r} = {}"
    using card fin by simp
  show "lock_inv (snd (release_one READ l)) (RG - {r}) (WG \<union> set (fst (release_one READ l))) RP
           (WP - set (fst (release_one READ l)))"
  proof (cases "RG - {r} = {} \<and> writersQueue l \<noteq> []")
    case True
    then obtain v vs where q: "writersQueue l = v # vs" by (cases "writersQueue l") auto
    with True inv w card zero show ?thesis by (auto simp: lock_inv_def Let_def)
  next
    case False
    with inv w card zero fin show ?thesis by (auto simp: lock_inv_def Let_def)
  qed
  show "RG - {r} \<noteq> {} \<Longrightarrow> fst (release_one READ l) = []"
    using zero by (simp add: Let_def)
  show "set (fst (release_one READ l)) \<subseteq> WP"
    using inv by (auto simp: lock_inv_def Let_def dest: hd_in_set)
qed

lemma lock_inv_release_write:
  assumes inv: "lock_inv l RG WG RP WP" and r: "r \<in> WG"
  shows "if RP \<noteq> {} then lock_inv (snd (release_one WRITE l)) (RG \<union> set (fst (release_one WRITE l))) (WG - {r})
             (RP - set (fst (release_one WRITE l))) WP \<and> set (fst (release_one WRITE l)) \<subseteq> RP
         else lock_inv (snd (release_one WRITE l)) RG (WG - {r} \<union> set (fst (release_one WRITE l))) RP
             (WP - set (fst (release_one WRITE l))) \<and> set (fst (release_one WRITE l)) \<subseteq> WP"
proof -
  have w: "writer l" "WG = {r}" "RG = {}" "readersCount l = 0"
    using inv r by (auto simp: lock_inv_def split: if_splits)
  show ?thesis
  proof (cases "readersQueue l = []")
    case False
    with inv w show ?thesis by (auto simp: lock_inv_def Let_def distinct_card)
  next
    case True
    show ?thesis
    proof (cases "writersQueue l")
      case Nil
      with True inv w show ?thesis by (auto simp: lock_inv_def Let_def)
    next
      case (Cons v vs)
      with True inv w show ?thesis by (auto simp: lock_inv_def Let_def)
    qed
  qed
qed

text \<open>What a release does to the standing of everybody at this table.\<close>

definition wake :: "req \<Rightarrow> req list \<Rightarrow> standing \<Rightarrow> standing" where
  "wake r ws st = (\<lambda>r'. if r' = r then None
                        else if r' \<in> set ws then map_option (\<lambda>(m, _). (m, Granted)) (st r') else st r')"

lemma wake_Granted:
  "wake r ws st r' = Some (m, Granted) \<longleftrightarrow>
     r' \<noteq> r \<and> (st r' = Some (m, Granted) \<or> r' \<in> set ws \<and> st r' = Some (m, Pending))"
proof (cases "st r'")
  case (Some mg)
  obtain m0 g0 where "mg = (m0, g0)" by (cases mg)
  with Some show ?thesis by (cases g0) (simp_all add: wake_def)
qed (simp add: wake_def)

lemma wake_Pending:
  "wake r ws st r' = Some (m, Pending) \<longleftrightarrow> r' \<noteq> r \<and> r' \<notin> set ws \<and> st r' = Some (m, Pending)"
proof (cases "st r'")
  case (Some mg)
  obtain m0 g0 where "mg = (m0, g0)" by (cases mg)
  with Some show ?thesis by (cases g0) (simp_all add: wake_def)
qed (simp add: wake_def)

lemma table_inv_release:
  assumes inv: "table_inv l st" and r: "st r = Some (m, Granted)"
  shows "table_inv (snd (release_one m l)) (wake r (fst (release_one m l)) st)"
proof -
  let ?ws = "fst (release_one m l)"
  have rg: "r \<in> who st m Granted" using r by (simp add: who_def)
  have upd: "who (wake r ?ws st) m' Granted = who st m' Granted - {r} \<union> (set ?ws \<inter> who st m' Pending)"
    "who (wake r ?ws st) m' Pending = who st m' Pending - set ?ws" for m'
    using r by (auto simp: who_def wake_Granted wake_Pending)
  have disj: "who st READ g \<inter> who st WRITE g' = {}" for g g' by (auto simp: who_def)
  show ?thesis
  proof (cases m)
    case READ
    note rel = lock_inv_release_read [OF inv [unfolded table_inv_def]]
    have rg': "r \<in> who st READ Granted" using rg READ by simp
    have sub: "set ?ws \<subseteq> who st WRITE Pending" using rel(3) [OF rg'] READ by simp
    then have "who (wake r ?ws st) READ Granted = who st READ Granted - {r}"
      "who (wake r ?ws st) READ Pending = who st READ Pending"
      "who (wake r ?ws st) WRITE Granted = who st WRITE Granted \<union> set ?ws"
      "who (wake r ?ws st) WRITE Pending = who st WRITE Pending - set ?ws"
      using disj rg' unfolding upd by blast+
    with rel(1) [OF rg'] READ show ?thesis unfolding table_inv_def by metis
  next
    case WRITE
    have rg': "r \<in> who st WRITE Granted" using rg WRITE by simp
    note rel = lock_inv_release_write [OF inv [unfolded table_inv_def] rg']
    show ?thesis
    proof (cases "who st READ Pending = {}")
      case False
      with rel WRITE have sub: "set ?ws \<subseteq> who st READ Pending" by simp
      then have "who (wake r ?ws st) READ Granted = who st READ Granted \<union> set ?ws"
        "who (wake r ?ws st) READ Pending = who st READ Pending - set ?ws"
        "who (wake r ?ws st) WRITE Granted = who st WRITE Granted - {r}"
        "who (wake r ?ws st) WRITE Pending = who st WRITE Pending"
        using disj rg' unfolding upd by blast+
      with rel False WRITE show ?thesis unfolding table_inv_def by metis
    next
      case True
      with rel WRITE have sub: "set ?ws \<subseteq> who st WRITE Pending" by simp
      then have "who (wake r ?ws st) READ Granted = who st READ Granted"
        "who (wake r ?ws st) READ Pending = who st READ Pending"
        "who (wake r ?ws st) WRITE Granted = who st WRITE Granted - {r} \<union> set ?ws"
        "who (wake r ?ws st) WRITE Pending = who st WRITE Pending - set ?ws"
        using disj rg' unfolding upd by blast+
      with rel True WRITE show ?thesis unfolding table_inv_def by metis
    qed
  qed
qed

subsection \<open>The manager and its clients\<close>

text \<open>
  A request is described by its tables, its mode and the tables whose promise is still pending.
  \<open>acquireLocks\<close> runs without interruption up to its \<open>await\<close>, so one call is one step; the
  request proceeds (holds its locks) when nothing is pending, and only then releases.
\<close>

record lock_sys =
  registry :: lock_registry
  reqs :: "req \<Rightarrow> (table list \<times> lock_mode \<times> table list) option"

definition sys_init :: lock_sys where
  "sys_init = \<lparr>registry = [], reqs = (\<lambda>_. None)\<rparr>"

definition sys_acquire :: "req \<Rightarrow> table list \<Rightarrow> lock_mode \<Rightarrow> lock_sys \<Rightarrow> lock_sys" where
  "sys_acquire r ts m s =
     (let (pend, reg) = acquireLocks r ts m (registry s)
      in \<lparr>registry = reg, reqs = (reqs s)(r \<mapsto> (ts, m, pend))\<rparr>)"

definition sys_release :: "req \<Rightarrow> table list \<Rightarrow> lock_mode \<Rightarrow> lock_sys \<Rightarrow> lock_sys" where
  "sys_release r ts m s =
     (let (woken, reg) = releaseLocks ts m (registry s)
      in \<lparr>registry = reg,
          reqs = (\<lambda>w. if w = r then None
                      else map_option (\<lambda>(ts, m, p). (ts, m, filter (\<lambda>t. (w, t) \<notin> set woken) p)) (reqs s w))\<rparr>)"

inductive lock_step :: "lock_sys \<Rightarrow> lock_sys \<Rightarrow> bool" where
  acquire: "reqs s r = None \<Longrightarrow> distinct ts \<Longrightarrow> lock_step s (sys_acquire r ts m s)"
| release: "reqs s r = Some (ts, m, []) \<Longrightarrow> lock_step s (sys_release r ts m s)"

inductive_cases lock_stepE: "lock_step s s'"

inductive lock_reachable :: "lock_sys \<Rightarrow> bool" where
  start: "lock_reachable sys_init"
| step: "lock_reachable s \<Longrightarrow> lock_step s s' \<Longrightarrow> lock_reachable s'"

definition waits :: "lock_sys \<Rightarrow> req \<Rightarrow> table \<Rightarrow> bool" where
  "waits s r t \<longleftrightarrow> (case reqs s r of Some (ts, m, p) \<Rightarrow> t \<in> set p | None \<Rightarrow> False)"

definition standing_at :: "lock_sys \<Rightarrow> table \<Rightarrow> standing" where
  "standing_at s t r =
     (case reqs s r of
        None \<Rightarrow> None
      | Some (ts, m, p) \<Rightarrow>
          if t \<in> set ts then Some (m, if t \<in> set p then Pending else Granted) else None)"

definition sys_inv :: "lock_sys \<Rightarrow> bool" where
  "sys_inv s \<longleftrightarrow>
     (\<forall>t. table_inv (lock_at (registry s) t) (standing_at s t)) \<and>
     (\<forall>r ts m p. reqs s r = Some (ts, m, p) \<longrightarrow> distinct ts \<and> set p \<subseteq> set ts) \<and>
     tidy (registry s)"

lemma sys_inv_init: "sys_inv sys_init"
proof -
  have "standing_at sys_init t = (\<lambda>_. None)" for t
    by (simp add: standing_at_def sys_init_def fun_eq_iff)
  then show ?thesis
    by (simp add: sys_inv_def table_inv_new tidy_def lock_at_def) (simp add: sys_init_def table_inv_new)
qed

lemma tidy_acquire:
  assumes "tidy reg" and "\<forall>t. readersCount (lock_at reg t) \<ge> 0" and "distinct ts"
  shows "tidy (snd (acquireLocks r ts m reg))"
proof -
  have other: "jm_get (snd (acquire_loop r m us reg)) t = jm_get reg t" if "t \<notin> set us" for us t reg
    using that
    by (induction us arbitrary: reg)
      (auto simp: split_def Let_def getOrCreateLock_def split: option.splits)
  have "\<not> idle_lock l" if "jm_get (snd (acquireLocks r ts m reg)) t = Some l" for t l
  proof (cases "t \<in> set ts")
    case True
    from that have "l = lock_at (snd (acquireLocks r ts m reg)) t" by (simp add: lock_at_def)
    then have "l = snd (acquire_one r m (lock_at reg t))"
      using True assms(3) by (simp add: acquireLocks_effect)
    with assms(2) show ?thesis using acquire_one_not_idle by simp
  next
    case False
    then have "jm_get (snd (acquireLocks r ts m reg)) t = jm_get reg t"
      using other [of t "sort ts"] by (simp add: acquireLocks_def)
    with that assms(1) show ?thesis by (simp add: tidy_def)
  qed
  then show ?thesis by (auto simp: tidy_def)
qed

lemma sys_inv_acquire:
  assumes inv: "sys_inv s" and fresh: "reqs s r = None" and d: "distinct ts"
  shows "sys_inv (sys_acquire r ts m s)"
proof -
  define pend reg where "pend = fst (acquireLocks r ts m (registry s))" and "reg = snd (acquireLocks r ts m (registry s))"
  have s': "sys_acquire r ts m s = \<lparr>registry = reg, reqs = (reqs s)(r \<mapsto> (ts, m, pend))\<rparr>"
    by (simp add: sys_acquire_def pend_def reg_def split_def Let_def)
  have pend: "set pend = {t \<in> set ts. fst (acquire_one r m (lock_at (registry s) t))}"
    using d by (simp add: pend_def acquireLocks_effect)
  have nn: "\<forall>t. readersCount (lock_at (registry s) t) \<ge> 0"
    using inv by (auto simp: sys_inv_def table_inv_def lock_inv_def)
  have "table_inv (lock_at reg t) (standing_at (sys_acquire r ts m s) t)" for t
  proof (cases "t \<in> set ts")
    case True
    let ?a = "acquire_one r m (lock_at (registry s) t)"
    have "table_inv (snd ?a) ((standing_at s t)(r \<mapsto> (m, if fst ?a then Pending else Granted)))"
      using inv fresh by (intro table_inv_acquire) (auto simp: sys_inv_def standing_at_def)
    moreover have "(standing_at s t)(r \<mapsto> (m, if fst ?a then Pending else Granted)) = standing_at (sys_acquire r ts m s) t"
      using True pend by (auto simp: s' standing_at_def fun_eq_iff)
    moreover have "lock_at reg t = snd ?a" using True d by (simp add: reg_def acquireLocks_effect)
    ultimately show ?thesis by simp
  next
    case False
    then have "standing_at (sys_acquire r ts m s) t = standing_at s t"
      using fresh by (auto simp: s' standing_at_def fun_eq_iff)
    moreover have "lock_at reg t = lock_at (registry s) t"
      using False d by (simp add: reg_def acquireLocks_effect)
    ultimately show ?thesis using inv by (simp add: sys_inv_def)
  qed
  moreover have "tidy reg"
    using inv nn d by (simp add: reg_def tidy_acquire sys_inv_def)
  moreover have "set pend \<subseteq> set ts" using pend by auto
  ultimately show ?thesis using inv d by (auto simp: sys_inv_def s')
qed

lemma held_lock_exists:
  assumes inv: "sys_inv s" and r: "reqs s r = Some (ts, m, p)" and t: "t \<in> set ts"
  shows "jm_get (registry s) t \<noteq> None"
proof
  assume "jm_get (registry s) t = None"
  then have "lock_at (registry s) t = new_lock" by (simp add: lock_at_def)
  moreover have "table_inv (lock_at (registry s) t) (standing_at s t)" using inv by (simp add: sys_inv_def)
  ultimately have "who (standing_at s t) m' g = {}" for m' g
    by (cases m'; cases g) (auto simp: table_inv_def lock_inv_def new_lock_def)
  moreover have "\<exists>g. r \<in> who (standing_at s t) m g"
    using r t by (auto simp: who_def standing_at_def)
  ultimately show False by blast
qed

lemma sys_release_standing:
  assumes inv: "sys_inv s" and r: "reqs s r = Some (ts, m, [])"
  shows "standing_at (sys_release r ts m s) t =
      (if t \<in> set ts then wake r (fst (release_one m (lock_at (registry s) t))) (standing_at s t) else standing_at s t)"
    and "lock_at (registry (sys_release r ts m s)) t =
      (if t \<in> set ts then snd (release_one m (lock_at (registry s) t)) else lock_at (registry s) t)"
    and "tidy (registry (sys_release r ts m s))"
proof -
  have d: "distinct ts" using inv r by (auto simp: sys_inv_def)
  have ex: "\<forall>t\<in>set ts. jm_get (registry s) t \<noteq> None"
    using held_lock_exists [OF inv r] by blast
  note eff = releaseLocks_effect [OF d ex]
  show "standing_at (sys_release r ts m s) t =
      (if t \<in> set ts then wake r (fst (release_one m (lock_at (registry s) t))) (standing_at s t) else standing_at s t)"
    using r inv
    by (auto simp: fun_eq_iff standing_at_def sys_release_def split_def Let_def wake_def eff(2) sys_inv_def
        split: option.splits)
  show "lock_at (registry (sys_release r ts m s)) t =
      (if t \<in> set ts then snd (release_one m (lock_at (registry s) t)) else lock_at (registry s) t)"
    by (simp add: sys_release_def split_def Let_def eff(1))
  show "tidy (registry (sys_release r ts m s))"
    using inv by (simp add: sys_release_def split_def Let_def eff(3) sys_inv_def)
qed

lemma sys_inv_release:
  assumes inv: "sys_inv s" and r: "reqs s r = Some (ts, m, [])"
  shows "sys_inv (sys_release r ts m s)"
proof -
  have "table_inv (lock_at (registry (sys_release r ts m s)) t) (standing_at (sys_release r ts m s) t)" for t
  proof (cases "t \<in> set ts")
    case True
    then have "standing_at s t r = Some (m, Granted)" using r by (simp add: standing_at_def)
    then show ?thesis
      using True inv by (simp add: sys_release_standing [OF inv r] table_inv_release sys_inv_def)
  next
    case False
    then show ?thesis using inv by (simp add: sys_release_standing [OF inv r] sys_inv_def)
  qed
  moreover have "distinct ts' \<and> set p' \<subseteq> set ts'"
    if "reqs (sys_release r ts m s) r' = Some (ts', m', p')" for r' ts' m' p'
  proof -
    from that obtain p where p: "reqs s r' = Some (ts', m', p)" "set p' \<subseteq> set p"
      by (auto simp: sys_release_def split_def Let_def split: if_splits)
    then have "distinct ts' \<and> set p \<subseteq> set ts'" using inv unfolding sys_inv_def by blast
    with p(2) show ?thesis by blast
  qed
  ultimately show ?thesis
    using sys_release_standing(3) [OF inv r] by (simp add: sys_inv_def)
qed

lemma sys_inv_step: "lock_step s s' \<Longrightarrow> sys_inv s \<Longrightarrow> sys_inv s'"
  by (auto elim!: lock_stepE simp: sys_inv_acquire sys_inv_release)

lemma reachable_sys_inv: "lock_reachable s \<Longrightarrow> sys_inv s"
  by (induction rule: lock_reachable.induct) (auto simp: sys_inv_init sys_inv_step)

subsection \<open>Properties\<close>

abbreviation granted :: "lock_sys \<Rightarrow> req \<Rightarrow> table \<Rightarrow> lock_mode \<Rightarrow> bool" where
  "granted s r t m \<equiv> standing_at s t r = Some (m, Granted)"

lemma granted_who: "granted s r t m \<longleftrightarrow> r \<in> who (standing_at s t) m Granted"
  by (simp add: who_def)

lemma reachable_lock_inv:
  "lock_reachable s \<Longrightarrow>
     lock_inv (lock_at (registry s) t) (who (standing_at s t) READ Granted) (who (standing_at s t) WRITE Granted)
       (who (standing_at s t) READ Pending) (who (standing_at s t) WRITE Pending)"
  by (drule reachable_sys_inv) (simp add: sys_inv_def table_inv_def)

lemma lock_inv_exclusive:
  assumes "lock_inv l RG WG RP WP" and "r \<in> WG"
  shows "RG = {} \<and> WG = {r}"
  using assms by (auto simp: lock_inv_def split: if_splits)

lemma lock_inv_wait:
  assumes "lock_inv l RG WG RP WP" and "RP \<union> WP \<noteq> {}"
  shows "RG \<union> WG \<noteq> {}"
  using assms by (auto simp: lock_inv_def)

lemma waits_standing:
  assumes "sys_inv s" and "waits s r t"
  shows "\<exists>m. standing_at s t r = Some (m, Pending)"
proof -
  from assms(2) obtain ts m p where e: "reqs s r = Some (ts, m, p)" "t \<in> set p"
    by (auto simp: waits_def split: option.splits)
  with assms(1) have "t \<in> set ts" unfolding sys_inv_def by blast
  with e show ?thesis by (simp add: standing_at_def)
qed

lemma standing_waits: "standing_at s t r = Some (m, Pending) \<Longrightarrow> waits s r t"
  unfolding waits_def standing_at_def by (auto split: option.splits if_splits)

text \<open>C3 Exclusion. In every reachable state of the lock manager and its clients, two different
  requests that have been granted the same table are both readers: a writer is alone.\<close>

theorem table_lock_exclusion:
  assumes "lock_reachable s" and "r1 \<noteq> r2"
    and "standing_at s t r1 = Some (m1, Granted)" and "standing_at s t r2 = Some (m2, Granted)"
  shows "m1 = READ \<and> m2 = READ"
proof -
  have "r1 \<notin> who (standing_at s t) WRITE Granted" "r2 \<notin> who (standing_at s t) WRITE Granted"
    using lock_inv_exclusive [OF reachable_lock_inv [OF assms(1), of t]] assms(2-4)
    by (cases m1; cases m2; auto simp: who_def)+
  with assms(3,4) show ?thesis by (cases m1; cases m2) (auto simp: who_def)
qed

lemma reach_acquire: "lock_reachable s \<Longrightarrow> reqs s r = None \<Longrightarrow> distinct ts \<Longrightarrow> lock_reachable (sys_acquire r ts m s)"
  by (blast intro: lock_reachable.step lock_step.acquire)

lemma reach_release: "lock_reachable s \<Longrightarrow> reqs s r = Some (ts, m, []) \<Longrightarrow> lock_reachable (sys_release r ts m s)"
  by (blast intro: lock_reachable.step lock_step.release)

text \<open>A run of clients as a list of events, for concrete states.\<close>

datatype lock_event = Acq req "table list" lock_mode | Rel req

fun lock_run :: "lock_event list \<Rightarrow> lock_sys \<Rightarrow> lock_sys option" where
  "lock_run [] s = Some s"
| "lock_run (Acq r ts m # es) s =
     (if reqs s r = None \<and> distinct ts then lock_run es (sys_acquire r ts m s) else None)"
| "lock_run (Rel r # es) s =
     (case reqs s r of Some (ts, m, []) \<Rightarrow> lock_run es (sys_release r ts m s) | _ \<Rightarrow> None)"

lemma lock_run_reachable: "lock_run es s = Some s' \<Longrightarrow> lock_reachable s \<Longrightarrow> lock_reachable s'"
  by (induction es s rule: lock_run.induct)
    (auto simp: reach_acquire reach_release split: if_splits option.splits list.splits)

lemma lock_run_Some:
  "(case lock_run es sys_init of Some s \<Rightarrow> P s | None \<Rightarrow> False) \<Longrightarrow> \<exists>s. lock_reachable s \<and> P s"
  using lock_run_reachable [of es sys_init] lock_reachable.start by (auto split: option.splits)

theorem table_lock_exclusion_witness:
  "\<exists>s. lock_reachable s \<and> standing_at s ''T'' 1 = Some (READ, Granted) \<and>
       standing_at s ''T'' 2 = Some (READ, Granted) \<and> READ = READ \<and> READ = READ"
proof -
  have "case lock_run [Acq 1 [''T''] READ, Acq 2 [''T''] READ] sys_init of
      Some s \<Rightarrow> standing_at s ''T'' 1 = Some (READ, Granted) \<and> standing_at s ''T'' 2 = Some (READ, Granted)
    | None \<Rightarrow> False" by code_simp
  from lock_run_Some [OF this] obtain s where s: "lock_reachable s"
    "standing_at s ''T'' 1 = Some (READ, Granted)" "standing_at s ''T'' 2 = Some (READ, Granted)" by blast
  from table_lock_exclusion [OF s(1) _ s(2) s(3)] s show ?thesis by auto
qed

lemma no_lost_wakeup_aux:
  assumes "lock_reachable s" and "waits s r t"
  shows "\<exists>r' m. r' \<noteq> r \<and> standing_at s t r' = Some (m, Granted)"
proof -
  obtain m where m: "standing_at s t r = Some (m, Pending)"
    using waits_standing [OF reachable_sys_inv [OF assms(1)] assms(2)] by blast
  then have "who (standing_at s t) READ Pending \<union> who (standing_at s t) WRITE Pending \<noteq> {}"
    by (cases m) (auto simp: who_def)
  from lock_inv_wait [OF reachable_lock_inv [OF assms(1)] this]
  obtain r' m' where r': "standing_at s t r' = Some (m', Granted)" by (auto simp: who_def)
  with m have "r' \<noteq> r" by auto
  with r' show ?thesis by blast
qed

text \<open>No lost wake-up. A request that waits for a table waits for somebody: another request has
  been granted that table, so a release will call the next callback.\<close>

theorem no_lost_wakeup:
  assumes "lock_reachable s" and "waits s r t"
  shows "\<exists>r' m. r' \<noteq> r \<and> standing_at s t r' = Some (m, Granted)"
  using assms by (rule no_lost_wakeup_aux)

theorem no_lost_wakeup_witness:
  "\<exists>s. lock_reachable s \<and> waits s 2 ''T'' \<and> (\<exists>r' m. r' \<noteq> 2 \<and> standing_at s ''T'' r' = Some (m, Granted))"
proof -
  have "case lock_run [Acq 1 [''T''] WRITE, Acq 2 [''T''] READ] sys_init of
      Some s \<Rightarrow> waits s 2 ''T'' | None \<Rightarrow> False" by code_simp
  from lock_run_Some [OF this] obtain s where s: "lock_reachable s" "waits s 2 ''T''" by blast
  from no_lost_wakeup [OF s] s show ?thesis by blast
qed

text \<open>Progress for single-table requests. If no request names more than one table, then whenever
  somebody waits, some request holds everything it asked for and can release: the system is not stuck.\<close>

theorem single_table_progress:
  assumes "lock_reachable s" and "waits s r t"
    and single: "\<forall>r ts m p. reqs s r = Some (ts, m, p) \<longrightarrow> length ts \<le> 1"
  shows "\<exists>r' m s'. reqs s r' = Some ([t], m, []) \<and> lock_step s s'"
proof -
  obtain r' m where g: "standing_at s t r' = Some (m, Granted)"
    using no_lost_wakeup_aux [OF assms(1,2)] by blast
  then obtain ts m' p where e: "reqs s r' = Some (ts, m', p)" "t \<in> set ts" "t \<notin> set p" "m' = m"
    by (auto simp: standing_at_def split: option.splits if_splits)
  then have "ts = [t]" using single by (cases ts; cases "tl ts") fastforce+
  moreover have "set p \<subseteq> set ts" using reachable_sys_inv [OF assms(1)] e(1) unfolding sys_inv_def by blast
  ultimately have "p = []" using e(3) by (cases p) auto
  with e \<open>ts = [t]\<close> show ?thesis by (blast intro: lock_step.release)
qed

theorem single_table_progress_witness:
  "\<exists>s. lock_reachable s \<and> waits s 2 ''T'' \<and>
     (\<exists>r' m s'. reqs s r' = Some ([''T''], m, []) \<and> lock_step s s')"
proof -
  let ?s = "sys_acquire 2 [''T''] READ (sys_acquire 1 [''T''] WRITE sys_init)"
  have 1: "lock_reachable (sys_acquire 1 [''T''] WRITE sys_init)"
    by (rule reach_acquire [OF lock_reachable.start]) (simp_all add: sys_init_def)
  have "lock_reachable ?s"
    by (rule reach_acquire [OF 1]) (simp_all add: sys_acquire_def sys_init_def split_def Let_def)
  moreover have "waits ?s 2 ''T''" by code_simp
  moreover have "\<forall>r ts m p. reqs ?s r = Some (ts, m, p) \<longrightarrow> length ts \<le> 1"
    by (simp add: sys_acquire_def sys_init_def split_def Let_def)
  ultimately show ?thesis using single_table_progress [of ?s 2 "''T''"] by blast
qed

text \<open>The registry does not leak. Whatever requests came and went, once no request is left the
  registry has no entry: the clean-up at the end of \<open>releaseLocks\<close> removes every lock.\<close>

theorem registry_empty_when_idle:
  assumes "lock_reachable s" and "\<forall>r. reqs s r = None"
  shows "registry s = []"
proof -
  have inv: "sys_inv s" using assms(1) by (rule reachable_sys_inv)
  have "jm_get (registry s) t = None" for t
  proof (rule ccontr)
    assume "jm_get (registry s) t \<noteq> None"
    then obtain l where l: "jm_get (registry s) t = Some l" by blast
    have none: "who (standing_at s t) m g = {}" for m g
      using assms(2) by (simp add: who_def standing_at_def)
    have "lock_inv l {} {} {} {}"
      using reachable_lock_inv [OF assms(1), of t] l by (simp add: none lock_at_def)
    then have "idle_lock l" by (simp add: lock_inv_def idle_lock_def split: if_splits)
    with inv l show False by (simp add: sys_inv_def tidy_def)
  qed
  then show ?thesis
    by (cases "registry s") (simp_all add: jm_get_Cons split: if_splits, metis option.distinct(1))
qed

theorem registry_empty_when_idle_witness:
  "\<exists>s. lock_reachable s \<and> (\<forall>r. reqs s r = None) \<and> registry s = []"
proof -
  let ?a = "sys_acquire 1 [''T''] WRITE sys_init"
  let ?s = "sys_release 1 [''T''] WRITE ?a"
  have a: "lock_reachable ?a"
    by (rule reach_acquire [OF lock_reachable.start]) (simp_all add: sys_init_def)
  have r: "reqs ?a 1 = Some ([''T''], WRITE, [])" by code_simp
  have "lock_reachable ?s" by (rule reach_release [OF a r])
  moreover have "\<forall>r. reqs ?s r = None"
    by (simp add: sys_release_def sys_acquire_def sys_init_def split_def Let_def)
  ultimately show ?thesis using registry_empty_when_idle [of ?s] by blast
qed

text \<open>Two requests each waiting for a table the other one has been granted.\<close>

definition circular_wait :: "lock_sys \<Rightarrow> req \<Rightarrow> req \<Rightarrow> table \<Rightarrow> table \<Rightarrow> bool" where
  "circular_wait s a b t u \<longleftrightarrow>
     (case standing_at s t a of Some (_, g) \<Rightarrow> g = Pending | None \<Rightarrow> False) \<and>
     (case standing_at s t b of Some (_, g) \<Rightarrow> g = Granted | None \<Rightarrow> False) \<and>
     (case standing_at s u b of Some (_, g) \<Rightarrow> g = Pending | None \<Rightarrow> False) \<and>
     (case standing_at s u a of Some (_, g) \<Rightarrow> g = Granted | None \<Rightarrow> False)"

lemma circular_waitE:
  assumes "circular_wait s a b t u"
  obtains m m' n n' where "standing_at s t a = Some (m, Pending)" "standing_at s t b = Some (m', Granted)"
    "standing_at s u b = Some (n, Pending)" "standing_at s u a = Some (n', Granted)"
  using assms by (auto simp: circular_wait_def split: option.splits)

text \<open>While somebody else keeps the table, a release wakes nobody there.\<close>

lemma release_wakes_nobody:
  assumes inv: "sys_inv s" and r: "standing_at s t r = Some (m, Granted)"
    and b: "standing_at s t b = Some (m', Granted)" and ne: "b \<noteq> r"
  shows "fst (release_one m (lock_at (registry s) t)) = []"
proof -
  have li: "lock_inv (lock_at (registry s) t) (who (standing_at s t) READ Granted) (who (standing_at s t) WRITE Granted)
       (who (standing_at s t) READ Pending) (who (standing_at s t) WRITE Pending)"
    using inv by (simp add: sys_inv_def table_inv_def)
  have "m = READ" "m' = READ"
    using lock_inv_exclusive [OF li] r b ne by (cases m; cases m'; auto simp: who_def)+
  then have "r \<in> who (standing_at s t) READ Granted" "who (standing_at s t) READ Granted - {r} \<noteq> {}"
    using r b ne by (auto simp: who_def)
  then show ?thesis using lock_inv_release_read(2) [OF li] \<open>m = READ\<close> by simp
qed

lemma standing_after_release:
  assumes inv: "sys_inv s" and r: "reqs s r = Some (ts, m, [])"
    and b: "standing_at s t b = Some (m', Granted)" and ne: "b \<noteq> r" and c: "c \<noteq> r"
  shows "standing_at (sys_release r ts m s) t c = standing_at s t c"
proof (cases "t \<in> set ts")
  case True
  then have "standing_at s t r = Some (m, Granted)" using r by (simp add: standing_at_def)
  from release_wakes_nobody [OF inv this b ne] show ?thesis
    using True c by (simp add: sys_release_standing [OF inv r] wake_def)
next
  case False
  then show ?thesis by (simp add: sys_release_standing [OF inv r])
qed

lemma circular_wait_step:
  assumes step: "lock_step s s'" and inv: "sys_inv s" and cw: "circular_wait s a b t u"
  shows "circular_wait s' a b t u"
  using step
proof (cases rule: lock_step.cases)
  case (acquire r ts m)
  have "a \<noteq> r" "b \<noteq> r" using cw acquire(2) by (auto simp: circular_wait_def standing_at_def)
  then have "standing_at s' v c = standing_at s v c" if "c = a \<or> c = b" for v c
    using that by (auto simp: acquire(1) sys_acquire_def split_def Let_def standing_at_def)
  with cw show ?thesis by (simp add: circular_wait_def)
next
  case (release r ts m)
  from cw obtain m1 m2 m3 m4 where st: "standing_at s t a = Some (m1, Pending)"
    "standing_at s t b = Some (m2, Granted)" "standing_at s u b = Some (m3, Pending)"
    "standing_at s u a = Some (m4, Granted)" by (rule circular_waitE)
  then have ne: "a \<noteq> r" "b \<noteq> r" using release(2) by (auto simp: standing_at_def split: if_splits)
  have "standing_at s' t c = standing_at s t c" "standing_at s' u c = standing_at s u c" if "c = a \<or> c = b" for c
    using that ne standing_after_release [OF inv release(2) st(2)] standing_after_release [OF inv release(2) st(4)]
    by (auto simp: release(1))
  with cw show ?thesis by (simp add: circular_wait_def)
qed

text \<open>A circular wait is for ever. Once two requests wait for each other's tables, no sequence of
  further acquisitions and releases by any clients gets them out of it.\<close>

theorem circular_wait_permanent:
  assumes "lock_reachable s" and "circular_wait s a b t u" and "lock_step\<^sup>*\<^sup>* s s'"
  shows "circular_wait s' a b t u \<and> waits s' a t \<and> waits s' b u"
proof -
  have "lock_reachable s' \<and> circular_wait s' a b t u"
    using assms(3)
  proof (induction rule: rtranclp_induct)
    case base
    with assms show ?case by simp
  next
    case (step y z)
    then show ?case using circular_wait_step [OF step(2)] reachable_sys_inv lock_reachable.step by blast
  qed
  then show ?thesis by (auto elim!: circular_waitE dest: standing_waits)
qed

text \<open>
  The schedule behind the next claim: one reader of Y and one writer of X are active, a writer
  of X and Y and a reader of X and Y queue up behind them; the writer of X releases (its waiting
  reader is served before the older waiting writer), then the reader of Y releases (its waiting
  writer is served).
\<close>

definition deadlock_schedule :: "lock_event list" where
  "deadlock_schedule =
     [Acq 0 [''Y''] READ, Acq 1 [''X''] WRITE, Acq 2 [''X'', ''Y''] WRITE, Acq 3 [''X'', ''Y''] READ,
      Rel 1, Rel 0]"

text \<open>Sorting the tables does not prevent deadlocks. A reachable state has two requests in a
  circular wait on X and Y although both name the tables in the same order, and no request in it
  holds everything it asked for: every client waits.\<close>

theorem acquireLocks_can_deadlock:
  "\<exists>s. lock_reachable s \<and> circular_wait s 2 3 ''X'' ''Y'' \<and>
       reqs s 0 = None \<and> reqs s 1 = None \<and>
       reqs s 2 = Some ([''X'', ''Y''], WRITE, [''X'']) \<and> reqs s 3 = Some ([''X'', ''Y''], READ, [''Y''])"
proof -
  have "case lock_run deadlock_schedule sys_init of
      Some s \<Rightarrow> circular_wait s 2 3 ''X'' ''Y'' \<and> reqs s 0 = None \<and> reqs s 1 = None \<and>
        reqs s 2 = Some ([''X'', ''Y''], WRITE, [''X'']) \<and> reqs s 3 = Some ([''X'', ''Y''], READ, [''Y''])
    | None \<Rightarrow> False" by code_simp
  from lock_run_Some [OF this] show ?thesis .
qed

theorem circular_wait_permanent_witness:
  "\<exists>s. lock_reachable s \<and> circular_wait s 2 3 ''X'' ''Y'' \<and>
     lock_step\<^sup>*\<^sup>* s (sys_acquire 4 [''Z'', ''X''] READ s) \<and>
     waits (sys_acquire 4 [''Z'', ''X''] READ s) 2 ''X'' \<and> waits (sys_acquire 4 [''Z'', ''X''] READ s) 3 ''Y''"
proof -
  have "case lock_run deadlock_schedule sys_init of
      Some s \<Rightarrow> circular_wait s 2 3 ''X'' ''Y'' \<and> reqs s 4 = None | None \<Rightarrow> False" by code_simp
  from lock_run_Some [OF this] obtain s
    where s: "lock_reachable s" "circular_wait s 2 3 ''X'' ''Y''" "reqs s 4 = None" by blast
  have "lock_step s (sys_acquire 4 [''Z'', ''X''] READ s)"
    by (rule lock_step.acquire) (simp_all add: s(3))
  then have steps: "lock_step\<^sup>*\<^sup>* s (sys_acquire 4 [''Z'', ''X''] READ s)" by blast
  from circular_wait_permanent [OF s(1,2) steps] s(1,2) steps show ?thesis by blast
qed

text \<open>A request that names a table twice waits for itself.\<close>

lemma duplicate_table_self_wait:
  "fst (acquireLocks r [t, t] WRITE []) = [t] \<and>
   isWriteLocked t (snd (acquireLocks r [t, t] WRITE []))"
  by (simp add: acquireLocks_def getOrCreateLock_def new_lock_def isWriteLocked_def jm_get_Cons)

end
