(* ===== verification/Async_Mutex.thy ===== *)
theory Async_Mutex
  imports Foundation_Prelude
begin

text \<open>
  The asynchronous mutex and semaphore (\<open>libs/foundation/utils/src/concurrency/mutex.ts\<close>).
  A caller of \<open>acquire\<close> either gets its promise resolved at once or leaves a \<open>tryAcquire\<close>
  closure in the queue; \<open>release\<close> frees the lock and re-runs the closure at the head. Callers are
  numbered; a queued closure is represented by its caller. Both classes implement one contract,
  the locale \<open>permit_lock\<close>, and the exclusion and wake-up lemmas are proved once in it.
\<close>

subsection \<open>Mutex\<close>

record mutex =
  mx_locked :: bool
  mx_queue :: "nat list"

definition new_mutex :: mutex where
  "new_mutex = \<lparr>mx_locked = False, mx_queue = []\<rparr>"

text \<open>The closure \<open>tryAcquire\<close> inside \<open>acquire\<close>: whether the promise resolves, and the mutex.\<close>

definition mx_attempt :: "nat \<Rightarrow> mutex \<Rightarrow> bool \<times> mutex" where
  "mx_attempt r m =
     (if \<not> mx_locked m then (True, m\<lparr>mx_locked := True\<rparr>)
      else (False, m\<lparr>mx_queue := mx_queue m @ [r]\<rparr>))"

definition mx_acquire :: "nat \<Rightarrow> mutex \<Rightarrow> bool \<times> mutex" where
  "mx_acquire r m = mx_attempt r m"

text \<open>\<open>release\<close>: the caller whose promise it resolves, if any.\<close>

definition mx_release :: "mutex \<Rightarrow> nat option \<times> mutex" where
  "mx_release m =
     (let m1 = m\<lparr>mx_locked := False\<rparr>
      in (case mx_queue m1 of
            [] \<Rightarrow> (None, m1)
          | r # rs \<Rightarrow>
              (let (got, m2) = mx_attempt r (m1\<lparr>mx_queue := rs\<rparr>)
               in (if got then Some r else None, m2))))"

definition mx_tryAcquire :: "mutex \<Rightarrow> bool \<times> mutex" where
  "mx_tryAcquire m = (if mx_locked m then (False, m) else (True, m\<lparr>mx_locked := True\<rparr>))"

definition mx_queueLength :: "mutex \<Rightarrow> nat" where
  "mx_queueLength m = length (mx_queue m)"

subsection \<open>Semaphore\<close>

record semaphore =
  sem_permits :: int
  sem_queue :: "nat list"

datatype sem_error = TooFewPermits

definition new_semaphore :: "int \<Rightarrow> sem_error + semaphore" where
  "new_semaphore n = (if n < 1 then Inl TooFewPermits else Inr \<lparr>sem_permits = n, sem_queue = []\<rparr>)"

definition sem_attempt :: "nat \<Rightarrow> semaphore \<Rightarrow> bool \<times> semaphore" where
  "sem_attempt r m =
     (if sem_permits m > 0 then (True, m\<lparr>sem_permits := sem_permits m - 1\<rparr>)
      else (False, m\<lparr>sem_queue := sem_queue m @ [r]\<rparr>))"

definition sem_acquire :: "nat \<Rightarrow> semaphore \<Rightarrow> bool \<times> semaphore" where
  "sem_acquire r m = sem_attempt r m"

definition sem_release :: "semaphore \<Rightarrow> nat option \<times> semaphore" where
  "sem_release m =
     (let m1 = m\<lparr>sem_permits := sem_permits m + 1\<rparr>
      in (case sem_queue m1 of
            [] \<Rightarrow> (None, m1)
          | r # rs \<Rightarrow>
              (let (got, m2) = sem_attempt r (m1\<lparr>sem_queue := rs\<rparr>)
               in (if got then Some r else None, m2))))"

subsection \<open>Clients\<close>

text \<open>
  The lock with the callers that hold it, in the order they got it. A caller releases once and
  only while it holds the lock, as \<open>runExclusive\<close> and \<open>runWithPermit\<close> do with
  \<open>try\<close>/\<open>finally\<close>.
\<close>

datatype lock_call = CAcquire nat | CRelease nat

fun client_step ::
  "(nat \<Rightarrow> 'l \<Rightarrow> bool \<times> 'l) \<Rightarrow> ('l \<Rightarrow> nat option \<times> 'l) \<Rightarrow> 'l \<times> nat list \<Rightarrow> lock_call \<Rightarrow> 'l \<times> nat list" where
  "client_step acq rel (l, hs) (CAcquire r) =
     (let (got, l') = acq r l in (l', if got then hs @ [r] else hs))"
| "client_step acq rel (l, hs) (CRelease r) =
     (if r \<in> set hs
      then (let (next, l') = rel l
            in (l', remove1 r hs @ (case next of Some w \<Rightarrow> [w] | None \<Rightarrow> [])))
      else (l, hs))"

definition client_run ::
  "(nat \<Rightarrow> 'l \<Rightarrow> bool \<times> 'l) \<Rightarrow> ('l \<Rightarrow> nat option \<times> 'l) \<Rightarrow> lock_call list \<Rightarrow> 'l \<Rightarrow> 'l \<times> nat list" where
  "client_run acq rel cs l = foldl (client_step acq rel) (l, []) cs"

locale permit_lock =
  fixes free :: "'l \<Rightarrow> nat" and waiting :: "'l \<Rightarrow> nat list"
    and acq :: "nat \<Rightarrow> 'l \<Rightarrow> bool \<times> 'l" and rel :: "'l \<Rightarrow> nat option \<times> 'l"
    and sound :: "'l \<Rightarrow> bool"
  assumes acq_free: "sound l \<Longrightarrow> free l > 0 \<Longrightarrow>
      fst (acq r l) \<and> free (snd (acq r l)) = free l - 1 \<and> waiting (snd (acq r l)) = waiting l"
    and acq_busy: "sound l \<Longrightarrow> free l = 0 \<Longrightarrow>
      \<not> fst (acq r l) \<and> free (snd (acq r l)) = 0 \<and> waiting (snd (acq r l)) = waiting l @ [r]"
    and rel_none: "sound l \<Longrightarrow> waiting l = [] \<Longrightarrow>
      fst (rel l) = None \<and> waiting (snd (rel l)) = []"
    and rel_wake: "sound l \<Longrightarrow> waiting l = w # ws \<Longrightarrow> free l = 0 \<Longrightarrow>
      fst (rel l) = Some w \<and> free (snd (rel l)) = 0 \<and> waiting (snd (rel l)) = ws"
    and sound_acq: "sound l \<Longrightarrow> sound (snd (acq r l))"
    and sound_rel: "sound l \<Longrightarrow> sound (snd (rel l))"
begin

text \<open>
  \<open>n\<close> is the number of permits; a release by a holder gives one back. Holders plus free permits
  make \<open>n\<close>, and nobody waits while a permit is free.
\<close>

definition balanced :: "nat \<Rightarrow> 'l \<times> nat list \<Rightarrow> bool" where
  "balanced n s \<longleftrightarrow> sound (fst s) \<and> free (fst s) + length (snd s) = n \<and> (waiting (fst s) \<noteq> [] \<longrightarrow> free (fst s) = 0)"

lemma balanced_acquire: "balanced n (l, hs) \<Longrightarrow> balanced n (client_step acq rel (l, hs) (CAcquire r))"
  using acq_free [of l r] acq_busy [of l r] sound_acq [of l r]
  by (cases "free l = 0") (auto simp: balanced_def split_def Let_def)

lemma balanced_release:
  assumes b: "balanced n (l, hs)"
    and give_back: "waiting l = [] \<Longrightarrow> r \<in> set hs \<Longrightarrow> free (snd (rel l)) = Suc (free l)"
  shows "balanced n (client_step acq rel (l, hs) (CRelease r))"
proof (cases "r \<in> set hs")
  case True
  then have len: "length (remove1 r hs) = length hs - 1" "length hs > 0"
    by (auto simp: length_remove1)
  show ?thesis
  proof (cases "waiting l")
    case Nil
    with b True len give_back rel_none [of l] sound_rel [of l] show ?thesis
      by (auto simp: balanced_def split_def Let_def)
  next
    case (Cons w ws)
    with b True len rel_wake [of l w ws] sound_rel [of l] show ?thesis
      by (auto simp: balanced_def split_def Let_def)
  qed
qed (use b in simp)

lemma balanced_run:
  assumes "balanced n (l, [])"
    and give_back: "\<And>l hs r. balanced n (l, hs) \<Longrightarrow> waiting l = [] \<Longrightarrow> r \<in> set hs \<Longrightarrow> free (snd (rel l)) = Suc (free l)"
  shows "balanced n (client_run acq rel cs l)"
proof -
  have "balanced n (foldl (client_step acq rel) s cs)" if "balanced n s" for s
    using that
  proof (induction cs arbitrary: s)
    case (Cons c cs)
    obtain l hs where s: "s = (l, hs)" by (cases s)
    have "balanced n (client_step acq rel s c)"
      using Cons.prems balanced_acquire balanced_release give_back unfolding s by (cases c) auto
    then show ?case using Cons.IH by simp
  qed simp
  with assms(1) show ?thesis by (simp add: client_run_def)
qed

lemma balanced_bound:
  assumes "balanced n s"
  shows "length (snd s) \<le> n" and "waiting (fst s) \<noteq> [] \<Longrightarrow> length (snd s) = n"
  using assms by (auto simp: balanced_def)

end

interpretation mx: permit_lock "\<lambda>m. if mx_locked m then 0 else 1" mx_queue mx_acquire mx_release "\<lambda>_. True"
  by unfold_locales
    (auto simp: mx_acquire_def mx_attempt_def mx_release_def Let_def split: if_splits)

interpretation sem: permit_lock "\<lambda>s. nat (sem_permits s)" sem_queue sem_acquire sem_release "\<lambda>s. sem_permits s \<ge> 0"
  by unfold_locales
    (auto simp: sem_acquire_def sem_attempt_def sem_release_def Let_def split: if_splits list.splits)

lemma mx_balanced_run: "mx.balanced 1 (client_run mx_acquire mx_release cs new_mutex)"
proof (rule mx.balanced_run)
  show "mx.balanced 1 (new_mutex, [])"
    by (simp add: mx.balanced_def new_mutex_def)
  show "(if mx_locked (snd (mx_release m)) then 0 else 1) = Suc (if mx_locked m then 0 else 1)"
    if "mx.balanced 1 (m, hs)" "mx_queue m = []" "r \<in> set hs" for m hs r
  proof -
    have "length hs > 0" using that(3) by (cases hs) auto
    then have "mx_locked m" using that(1) by (auto simp: mx.balanced_def split: if_splits)
    with that(2) show ?thesis by (simp add: mx_release_def Let_def)
  qed
qed

lemma sem_balanced_run:
  "new_semaphore k = Inr s \<Longrightarrow> sem.balanced (nat k) (client_run sem_acquire sem_release cs s)"
  by (rule sem.balanced_run)
    (auto simp: sem.balanced_def new_semaphore_def sem_release_def Let_def split: if_splits)

subsection \<open>Properties\<close>

text \<open>Mutual exclusion and no lost wake-up of the mutex. Whatever interleaving of acquisitions
  and releases the callers make, at most one of them holds the mutex, and a caller is queued only
  while another one holds it.\<close>

theorem mutex_exclusion:
  "case client_run mx_acquire mx_release cs new_mutex of
     (m, hs) \<Rightarrow> length hs \<le> 1 \<and> (mx_locked m \<longleftrightarrow> hs \<noteq> []) \<and> (mx_queueLength m = 0 \<or> length hs = 1)"
  using mx_balanced_run [of cs] mx.balanced_bound [OF mx_balanced_run, of cs]
  by (cases "client_run mx_acquire mx_release cs new_mutex")
    (auto simp: mx.balanced_def mx_queueLength_def split: if_splits)

text \<open>The semaphore bounds concurrency. With \<open>k\<close> permits at most \<open>k\<close> callers hold one at any
  time, holders and free permits always add up to \<open>k\<close>, and callers queue only when all \<open>k\<close> are held;
  a semaphore with fewer than one permit cannot be built.\<close>

theorem semaphore_bounds:
  "case new_semaphore k of
     Inl _ \<Rightarrow> k < 1
   | Inr s \<Rightarrow>
       (case client_run sem_acquire sem_release cs s of
          (s', hs) \<Rightarrow> sem_permits s' \<ge> 0 \<and> sem_permits s' + int (length hs) = k \<and>
                     (sem_queue s' = [] \<or> int (length hs) = k))"
proof (cases "new_semaphore k")
  case (Inl e)
  then show ?thesis by (simp add: new_semaphore_def split: if_splits)
next
  case (Inr s)
  obtain s' hs where r: "client_run sem_acquire sem_release cs s = (s', hs)"
    by (cases "client_run sem_acquire sem_release cs s")
  have "k \<ge> 1" using Inr by (simp add: new_semaphore_def split: if_splits)
  moreover have "sem.balanced (nat k) (s', hs)" using sem_balanced_run [OF Inr, of cs] by (simp add: r)
  ultimately show ?thesis by (auto simp: Inr r sem.balanced_def)
qed

text \<open>
  The release function is not tied to one acquisition: called twice, the second call lets a
  second caller in while the first waiter still holds the mutex.
\<close>

lemma double_release_breaks_exclusion:
  "let m0 = snd (mx_acquire 1 new_mutex); m1 = snd (mx_acquire 2 m0); m2 = snd (mx_acquire 3 m1);
       (w1, m3) = mx_release m2; (w2, m4) = mx_release m3
   in w1 = Some 2 \<and> w2 = Some 3"
  by (simp add: mx_acquire_def mx_attempt_def mx_release_def new_mutex_def Let_def)

end
