(* ===== verification/Rate_Limiter.thy ===== *)
theory Rate_Limiter
  imports Complex_Main Foundation_Prelude
begin

text \<open>
  The rate limiters of the telemetry pipeline
  (\<open>libs/foundation/metrics/src/sampling/rate-limiter.ts\<close>): the sliding window limiter, the
  keyed limiter that keeps one of them per key, and the token bucket. The clock reading of each
  \<open>Date.now()\<close> is an argument. The closures' captured variables are the explicit state:
  the list of timestamps, the map of limiters, the tokens and the t0 refill. Token counts are
  rationals, where the source computes with floating point numbers.
\<close>

subsection \<open>The sliding window\<close>

record rl_config =
  maxPerWindow :: int
  windowSize :: ms

record rl_state =
  currentCount :: int
  remainingQuota :: int
  resetTime :: ms

record rl_result = rl_state +
  rl_ok :: bool

type_synonym window = "ms list"

definition rl_prune :: "rl_config \<Rightarrow> ms \<Rightarrow> window \<Rightarrow> window" where
  "rl_prune cfg now ts = dropWhile (\<lambda>t. t < now - windowSize cfg) ts"

definition rl_tryAcquire :: "rl_config \<Rightarrow> ms \<Rightarrow> window \<Rightarrow> rl_result \<times> window" where
  "rl_tryAcquire cfg now ts =
     (let ts' = rl_prune cfg now ts;
          n = int (length ts');
          quota = max 0 (maxPerWindow cfg - n);
          rt = (case ts' of [] \<Rightarrow> now | t # _ \<Rightarrow> t + windowSize cfg)
      in if n < maxPerWindow cfg
         then (\<lparr>currentCount = n + 1, remainingQuota = quota - 1, resetTime = rt, rl_ok = True\<rparr>,
               ts' @ [now])
         else (\<lparr>currentCount = n, remainingQuota = 0, resetTime = rt, rl_ok = False\<rparr>, ts'))"

definition rl_getState :: "rl_config \<Rightarrow> ms \<Rightarrow> window \<Rightarrow> rl_state" where
  "rl_getState cfg now ts =
     (let n = int (length (filter (\<lambda>t. t \<ge> now - windowSize cfg) ts))
      in \<lparr>currentCount = n, remainingQuota = max 0 (maxPerWindow cfg - n),
          resetTime = (case ts of [] \<Rightarrow> now | t # _ \<Rightarrow> t + windowSize cfg)\<rparr>)"

definition rl_reset :: "window \<Rightarrow> window" where
  "rl_reset ts = []"

text \<open>A run of calls at the given clock readings: the times of the allowed calls, the state.\<close>

fun rl_run :: "rl_config \<Rightarrow> ms list \<Rightarrow> window \<Rightarrow> ms list \<times> window" where
  "rl_run cfg [] ts = ([], ts)"
| "rl_run cfg (now # nows) ts =
     (let (r, ts') = rl_tryAcquire cfg now ts;
          (as, ts'') = rl_run cfg nows ts'
      in (if rl_ok r then now # as else as, ts''))"

lemma rl_run_append:
  "rl_run cfg (xs @ ys) ts =
     (let (as, ts') = rl_run cfg xs ts; (bs, ts'') = rl_run cfg ys ts' in (as @ bs, ts''))"
  by (induction xs arbitrary: ts) (auto simp: Let_def split: prod.splits)

lemma dropWhile_less_trans:
  "a \<le> (b :: int) \<Longrightarrow> dropWhile (\<lambda>t. t < b) (dropWhile (\<lambda>t. t < a) ts) = dropWhile (\<lambda>t. t < b) ts"
  by (induction ts) auto

lemma dropWhile_less_sorted:
  "sorted ts \<Longrightarrow> dropWhile (\<lambda>t. t < (a :: int)) ts = filter (\<lambda>t. a \<le> t) ts"
proof (induction ts)
  case (Cons x ts)
  then have "a \<le> x \<Longrightarrow> filter (\<lambda>t. a \<le> t) ts = ts" by (auto simp: filter_id_conv)
  with Cons show ?case by auto
qed simp

lemma dropWhile_less_snoc:
  "a \<le> (x :: int) \<Longrightarrow> dropWhile (\<lambda>t. t < a) (ts @ [x]) = dropWhile (\<lambda>t. t < a) ts @ [x]"
  by (induction ts) auto

lemma rl_prune_trans: "t0 \<le> now \<Longrightarrow> rl_prune cfg now (rl_prune cfg t0 ts) = rl_prune cfg now ts"
  by (simp add: rl_prune_def dropWhile_less_trans)

text \<open>
  What the timestamps mean: they are the allowed calls of the t0 window, in order. The history
  \<open>h\<close> is the list of all allowed calls so far and \<open>t0\<close> the reading of the latest call.
\<close>

definition window_of :: "rl_config \<Rightarrow> ms \<Rightarrow> ms list \<Rightarrow> window \<Rightarrow> bool" where
  "window_of cfg t0 h ts \<longleftrightarrow>
     sorted h \<and> (\<forall>t\<in>set h. t \<le> t0) \<and> rl_prune cfg t0 h = rl_prune cfg t0 ts"

lemma window_of_prune:
  assumes "window_of cfg t0 h ts" "t0 \<le> now"
  shows "rl_prune cfg now ts = filter (\<lambda>t. now - windowSize cfg \<le> t) h"
proof -
  have "rl_prune cfg now ts = rl_prune cfg now (rl_prune cfg t0 ts)"
    using assms(2) by (simp add: rl_prune_trans)
  also have "\<dots> = rl_prune cfg now (rl_prune cfg t0 h)"
    using assms(1) by (simp add: window_of_def)
  also have "\<dots> = rl_prune cfg now h"
    using assms(2) by (rule rl_prune_trans)
  finally show ?thesis
    using assms(1) by (simp add: window_of_def rl_prune_def dropWhile_less_sorted)
qed

lemma window_of_step:
  assumes w: "window_of cfg t0 h ts" and "t0 \<le> now" "windowSize cfg \<ge> 0"
  shows "window_of cfg now (if rl_ok (fst (rl_tryAcquire cfg now ts)) then h @ [now] else h)
           (snd (rl_tryAcquire cfg now ts))"
proof -
  have p: "rl_prune cfg now h = rl_prune cfg now ts"
    using window_of_prune [OF w assms(2)] w
    by (simp add: window_of_def rl_prune_def dropWhile_less_sorted)
  have idem: "rl_prune cfg now (rl_prune cfg now xs) = rl_prune cfg now xs" for xs
    by (simp add: rl_prune_def dropWhile_less_trans)
  have snoc: "rl_prune cfg now (xs @ [now]) = rl_prune cfg now xs @ [now]" for xs
    using assms(3) by (simp add: rl_prune_def dropWhile_less_snoc)
  have le: "\<forall>t\<in>set h. t \<le> now" using w assms(2) by (auto simp: window_of_def)
  with w have "sorted (h @ [now])" by (simp add: window_of_def sorted_append)
  with w le p idem snoc show ?thesis
    by (simp add: rl_tryAcquire_def Let_def window_of_def)
qed

lemma window_of_run:
  assumes "sorted nows" "windowSize cfg \<ge> 0" "window_of cfg t0 h ts" "\<forall>t\<in>set nows. t0 \<le> t"
  shows "\<exists>t1. window_of cfg t1 (h @ fst (rl_run cfg nows ts)) (snd (rl_run cfg nows ts))
           \<and> (\<forall>t. (\<forall>t'\<in>insert t0 (set nows). t' \<le> t) \<longrightarrow> t1 \<le> t)"
  using assms
proof (induction nows arbitrary: t0 h ts)
  case Nil
  then show ?case by auto
next
  case (Cons now nows)
  let ?r = "rl_tryAcquire cfg now ts"
  let ?h = "if rl_ok (fst ?r) then h @ [now] else h"
  have "window_of cfg now ?h (snd ?r)" using window_of_step Cons.prems by auto
  from Cons.IH [OF _ _ this] Cons.prems obtain t1 where
    l: "window_of cfg t1 (?h @ fst (rl_run cfg nows (snd ?r))) (snd (rl_run cfg nows (snd ?r)))"
      "\<forall>t. (\<forall>t'\<in>insert now (set nows). t' \<le> t) \<longrightarrow> t1 \<le> t" by auto
  have "fst (rl_run cfg (now # nows) ts) =
          (if rl_ok (fst ?r) then [now] else []) @ fst (rl_run cfg nows (snd ?r))"
    and "snd (rl_run cfg (now # nows) ts) = snd (rl_run cfg nows (snd ?r))"
    by (simp_all add: Let_def split: prod.splits)
  with l show ?case by (auto split: if_splits)
qed

lemma window_of_empty: "window_of cfg t0 [] []"
  by (simp add: window_of_def)


lemma window_of_run_empty:
  assumes "sorted (nows @ [now])" "windowSize cfg \<ge> 0"
  shows "\<exists>t0 \<le> now. window_of cfg t0 (fst (rl_run cfg nows [])) (snd (rl_run cfg nows []))"
proof (cases nows)
  case Nil
  then show ?thesis using window_of_empty by auto
next
  case (Cons n ns)
  with assms(1) have "\<forall>t\<in>set nows. n \<le> t" "sorted nows" "\<forall>t\<in>insert n (set nows). t \<le> now"
    by (auto simp: sorted_append)
  from window_of_run [OF this(2) assms(2) window_of_empty [of cfg n] this(1)] this(3)
  show ?thesis by (metis append_Nil)
qed

definition in_window :: "ms \<Rightarrow> ms \<Rightarrow> ms list \<Rightarrow> ms list" where
  "in_window a b ts = filter (\<lambda>t. a \<le> t \<and> t \<le> b) ts"

text \<open>The decision at a call, in terms of the calls allowed before it.\<close>

lemma decision:
  assumes "sorted (nows @ [now])" "windowSize cfg \<ge> 0"
  defines "h \<equiv> fst (rl_run cfg nows [])"
  shows "fst (rl_tryAcquire cfg now (snd (rl_run cfg nows []))) =
    (let past = in_window (now - windowSize cfg) now h; n = int (length past); mx = maxPerWindow cfg
     in \<lparr>currentCount = (if n < mx then n + 1 else n),
         remainingQuota = (if n < mx then mx - n - 1 else 0),
         resetTime = (if past = [] then now else hd past + windowSize cfg),
         rl_ok = (n < mx)\<rparr>)"
    and "\<forall>t\<in>set h. t \<le> now"
proof -
  from window_of_run_empty [OF assms(1,2)] obtain t0 where
    "t0 \<le> now" and w: "window_of cfg t0 h (snd (rl_run cfg nows []))" by (auto simp: h_def)
  then show le: "\<forall>t\<in>set h. t \<le> now" by (auto simp: window_of_def)
  have "rl_prune cfg now (snd (rl_run cfg nows [])) = in_window (now - windowSize cfg) now h"
    using window_of_prune [OF w \<open>t0 \<le> now\<close>] le by (auto simp: in_window_def intro: filter_cong)
  then show "fst (rl_tryAcquire cfg now (snd (rl_run cfg nows []))) =
    (let past = in_window (now - windowSize cfg) now h; n = int (length past); mx = maxPerWindow cfg
     in \<lparr>currentCount = (if n < mx then n + 1 else n),
         remainingQuota = (if n < mx then mx - n - 1 else 0),
         resetTime = (if past = [] then now else hd past + windowSize cfg),
         rl_ok = (n < mx)\<rparr>)"
    by (auto simp: rl_tryAcquire_def Let_def split: list.splits)
qed

lemma rl_run_snoc:
  "fst (rl_run cfg (nows @ [now]) ts) =
     fst (rl_run cfg nows ts) @
     (if rl_ok (fst (rl_tryAcquire cfg now (snd (rl_run cfg nows ts)))) then [now] else [])"
  by (simp add: rl_run_append Let_def split: prod.splits)

text \<open>C4 Window bound. Whatever the calls, as long as the clock does not run backwards, any closed
  time window of the configured length holds at most \<open>maxPerWindow\<close> allowed calls: the limit holds
  for every window, not only for those that start at a call.\<close>

theorem sliding_window_bound:
  assumes "sorted nows" "windowSize cfg \<ge> 0" "maxPerWindow cfg \<ge> 0"
  shows "int (length (in_window x (x + windowSize cfg) (fst (rl_run cfg nows [])))) \<le> maxPerWindow cfg"
  using assms(1)
proof (induction nows rule: rev_induct)
  case Nil
  then show ?case using assms(3) by (simp add: in_window_def)
next
  case (snoc now nows)
  let ?h = "fst (rl_run cfg nows [])"
  note d = decision [OF snoc.prems assms(2)]
  have IH: "int (length (in_window x (x + windowSize cfg) ?h)) \<le> maxPerWindow cfg"
    using snoc by (simp add: sorted_append)
  show ?case
  proof (cases "rl_ok (fst (rl_tryAcquire cfg now (snd (rl_run cfg nows [])))) \<and> x \<le> now \<and> now \<le> x + windowSize cfg")
    case True
    have "length (in_window x (x + windowSize cfg) ?h) \<le> length (in_window (now - windowSize cfg) now ?h)"
      using d(2) True unfolding in_window_def by (intro length_filter_weaken) auto
    with True show ?thesis by (auto simp: rl_run_snoc d(1) Let_def in_window_def)
  next
    case False
    with IH show ?thesis by (auto simp: rl_run_snoc in_window_def)
  qed
qed

theorem sliding_window_bound_witness:
  "length (in_window 1 11 (fst (rl_run \<lparr>maxPerWindow = 2, windowSize = 10\<rparr> [0, 5, 6, 11, 20] []))) \<le> 2"
  using sliding_window_bound [of "[0, 5, 6, 11, 20]" "\<lparr>maxPerWindow = 2, windowSize = 10\<rparr>" 1] by simp

text \<open>Exact decisions. A call is allowed exactly when fewer than \<open>maxPerWindow\<close> allowed calls
  lie in the window ending at it, and the result reports that count, the quota left after it and
  the time at which the oldest of them leaves the window.\<close>

theorem tryAcquire_decides:
  assumes "sorted (nows @ [now])" "windowSize cfg \<ge> 0"
  shows "fst (rl_tryAcquire cfg now (snd (rl_run cfg nows []))) =
    (let past = in_window (now - windowSize cfg) now (fst (rl_run cfg nows []));
         n = int (length past); mx = maxPerWindow cfg
     in \<lparr>currentCount = (if n < mx then n + 1 else n),
         remainingQuota = (if n < mx then mx - n - 1 else 0),
         resetTime = (if past = [] then now else hd past + windowSize cfg),
         rl_ok = (n < mx)\<rparr>)"
  by (rule decision(1) [OF assms])

theorem tryAcquire_decides_witness:
  "fst (rl_tryAcquire \<lparr>maxPerWindow = 2, windowSize = 10\<rparr> 9
          (snd (rl_run \<lparr>maxPerWindow = 2, windowSize = 10\<rparr> [0, 5] []))) =
     \<lparr>currentCount = 2, remainingQuota = 0, resetTime = 10, rl_ok = False\<rparr>"
  using tryAcquire_decides [of "[0, 5]" 9 "\<lparr>maxPerWindow = 2, windowSize = 10\<rparr>"]
  by (simp add: in_window_def rl_tryAcquire_def rl_prune_def)

subsection \<open>The keyed limiter\<close>

type_synonym limiters = "(string, window) jmap"

definition getLimiter :: "string \<Rightarrow> limiters \<Rightarrow> window \<times> limiters" where
  "getLimiter key m =
     (case jm_get m key of Some l \<Rightarrow> (l, m) | None \<Rightarrow> ([], jm_set key [] m))"

definition keyed_tryAcquire :: "rl_config \<Rightarrow> ms \<Rightarrow> string \<Rightarrow> limiters \<Rightarrow> rl_result \<times> limiters" where
  "keyed_tryAcquire cfg now key m =
     (let (l, m') = getLimiter key m; (r, l') = rl_tryAcquire cfg now l in (r, jm_set key l' m'))"

definition keyed_getState :: "rl_config \<Rightarrow> ms \<Rightarrow> string \<Rightarrow> limiters \<Rightarrow> rl_state \<times> limiters" where
  "keyed_getState cfg now key m = (let (l, m') = getLimiter key m in (rl_getState cfg now l, m'))"

definition resetKey :: "string \<Rightarrow> limiters \<Rightarrow> limiters" where
  "resetKey key m = jm_delete key m"

definition resetAll :: "limiters \<Rightarrow> limiters" where
  "resetAll m = []"

text \<open>
  \<open>cleanup\<close> reads the clock once itself and once per limiter in \<open>getState\<close>: \<open>clk key\<close> is
  the reading for that key. Deleting the current key while iterating over a \<open>Map\<close> is a filter.
\<close>

definition rl_stale :: "rl_config \<Rightarrow> ms \<Rightarrow> ms \<Rightarrow> window \<Rightarrow> bool" where
  "rl_stale cfg now now' l \<longleftrightarrow> resetTime (rl_getState cfg now' l) < now - windowSize cfg"

definition cleanup :: "rl_config \<Rightarrow> ms \<Rightarrow> (string \<Rightarrow> ms) \<Rightarrow> limiters \<Rightarrow> limiters" where
  "cleanup cfg now clk m = filter (\<lambda>(key, l). \<not> rl_stale cfg now (clk key) l) m"

text \<open>
  What the keyed limiter relies on: two states can be indistinguishable from a time on
  (\<open>same t\<close>), \<open>attempt\<close> respects that, and a state that passes the clean-up test is
  indistinguishable from a fresh one. \<open>valid t s\<close> says that \<open>s\<close> was reached by time \<open>t\<close>.
\<close>

locale droppable_limiter =
  fixes fresh :: 's
    and attempt :: "ms \<Rightarrow> 's \<Rightarrow> 'r \<times> 's"
    and stale :: "ms \<Rightarrow> ms \<Rightarrow> 's \<Rightarrow> bool"
    and valid :: "ms \<Rightarrow> 's \<Rightarrow> bool"
    and same :: "ms \<Rightarrow> 's \<Rightarrow> 's \<Rightarrow> bool"
  assumes same_refl: "same t s s"
    and same_trans: "same t s s' \<Longrightarrow> same t s' s'' \<Longrightarrow> same t s s''"
    and same_sym: "same t s s' \<Longrightarrow> same t s' s"
    and same_mono: "same t s s' \<Longrightarrow> t \<le> t' \<Longrightarrow> same t' s s'"
    and valid_fresh: "valid t fresh"
    and valid_attempt: "valid t s \<Longrightarrow> t \<le> t' \<Longrightarrow> valid t' (snd (attempt t' s))"
    and valid_mono: "valid t s \<Longrightarrow> t \<le> t' \<Longrightarrow> valid t' s"
    and attempt_same: "same t s s' \<Longrightarrow> fst (attempt t s) = fst (attempt t s') \<and> same t (snd (attempt t s)) (snd (attempt t s'))"
    and stale_fresh: "valid t s \<Longrightarrow> t \<le> t' \<Longrightarrow> t' \<le> t'' \<Longrightarrow> stale t' t'' s \<Longrightarrow> same t' s fresh"
begin

definition entry :: "(string, 's) jmap \<Rightarrow> string \<Rightarrow> 's" where
  "entry m k = (case jm_get m k of None \<Rightarrow> fresh | Some s \<Rightarrow> s)"

text \<open>The map agrees, key by key, with limiters that were never dropped.\<close>

definition agrees :: "ms \<Rightarrow> (string, 's) jmap \<Rightarrow> (string \<Rightarrow> 's) \<Rightarrow> bool" where
  "agrees t m f \<longleftrightarrow> jm_ok m \<and> (\<forall>k. valid t (entry m k) \<and> same t (entry m k) (f k))"

lemma agreesD: "agrees t m f \<Longrightarrow> jm_ok m \<and> valid t (entry m k) \<and> same t (entry m k) (f k)"
  by (simp add: agrees_def)

lemma agrees_mono: "agrees t m f \<Longrightarrow> t \<le> t' \<Longrightarrow> agrees t' m f"
  unfolding agrees_def by (blast intro: same_mono valid_mono)

lemma entry_set [simp]: "entry (jm_set k s m) k' = (if k' = k then s else entry m k')"
  by (simp add: entry_def)

lemma entry_delete [simp]: "entry (jm_delete k m) k' = (if k' = k then fresh else entry m k')"
  by (simp add: entry_def)

lemma agrees_attempt:
  assumes a: "agrees t m f" and "t \<le> t'"
  shows "fst (attempt t' (entry m k)) = fst (attempt t' (f k)) \<and>
         agrees t' (jm_set k (snd (attempt t' (entry m k))) m) (f(k := snd (attempt t' (f k))))"
proof -
  have s: "same t' (entry m k) (f k)" using agreesD [OF agrees_mono [OF a \<open>t \<le> t'\<close>]] by blast
  have v: "valid t' (snd (attempt t' (entry m k)))"
    using agreesD [OF a] \<open>t \<le> t'\<close> by (blast intro: valid_attempt)
  show ?thesis using agrees_mono [OF a \<open>t \<le> t'\<close>] s v attempt_same [OF s]
    by (auto simp: agrees_def)
qed

lemma agrees_touch: "agrees t m f \<Longrightarrow> jm_get m k = None \<Longrightarrow> agrees t (jm_set k fresh m) f"
proof -
  assume a: "agrees t m f" and "jm_get m k = None"
  then have "entry m k = fresh" by (simp add: entry_def)
  then have "entry (jm_set k fresh m) k' = entry m k'" for k' by simp
  with a show ?thesis unfolding agrees_def by (auto intro: jm_ok_set)
qed

lemma agrees_delete: "agrees t m f \<Longrightarrow> agrees t (jm_delete k m) (f(k := fresh))"
  by (auto simp: agrees_def valid_fresh same_refl intro: jm_ok_delete)

lemma agrees_none: "agrees t [] (\<lambda>_. fresh)"
  by (simp add: agrees_def entry_def valid_fresh same_refl)

lemma agrees_drop:
  assumes a: "agrees t m f" and "t \<le> t'" and clk: "\<And>k. t' \<le> clk k"
  shows "agrees t' (filter (\<lambda>(k, s). \<not> stale t' (clk k) s) m) f"
proof -
  let ?m = "filter (\<lambda>(k, s). \<not> stale t' (clk k) s) m"
  have ok: "jm_ok m" using a by (simp add: agrees_def)
  have "entry ?m k = entry m k \<or> entry ?m k = fresh \<and> stale t' (clk k) (entry m k)" for k
    using ok by (simp add: entry_def jm_get_filter split: option.splits)
  moreover have "valid t' (entry m k) \<and> same t' (entry m k) (f k)" for k
    using agreesD [OF agrees_mono [OF a \<open>t \<le> t'\<close>]] by blast
  moreover have "stale t' (clk k) (entry m k) \<Longrightarrow> same t' fresh (f k)" for k
    using agreesD [OF a] agreesD [OF agrees_mono [OF a \<open>t \<le> t'\<close>]] stale_fresh [OF _ \<open>t \<le> t'\<close> clk]
    by (meson same_sym same_trans)
  moreover have "jm_ok ?m" using ok by (simp add: distinct_map_filter)
  ultimately show ?thesis unfolding agrees_def by (metis valid_fresh)
qed

end

text \<open>The timestamps of a limiter lie within one window and are not in the future.\<close>

definition window_valid :: "rl_config \<Rightarrow> ms \<Rightarrow> window \<Rightarrow> bool" where
  "window_valid cfg t ts \<longleftrightarrow>
     (\<forall>x\<in>set ts. x \<le> t) \<and> (windowSize cfg \<ge> 0 \<longrightarrow> (\<forall>x\<in>set ts. x \<le> hd ts + windowSize cfg))"

lemma rl_prune_hd:
  assumes "rl_prune cfg t ts \<noteq> []"
  shows "t - windowSize cfg \<le> hd (rl_prune cfg t ts)"
  using hd_dropWhile [of "\<lambda>x. x < t - windowSize cfg" ts] assms by (simp add: rl_prune_def)

lemma set_rl_prune: "set (rl_prune cfg t ts) \<subseteq> set ts"
  unfolding rl_prune_def by (meson set_dropWhileD subsetI)

lemma window_valid_attempt:
  assumes "window_valid cfg t ts" "t \<le> t'"
  shows "window_valid cfg t' (snd (rl_tryAcquire cfg t' ts))"
proof -
  let ?p = "rl_prune cfg t' ts"
  have le: "x \<le> t'" if "x \<in> set ?p" for x
    using set_rl_prune that assms by (fastforce simp: window_valid_def)
  have "x \<le> hd ?p + windowSize cfg" if "?p \<noteq> []" "x \<le> t'" for x
    using rl_prune_hd [OF that(1)] that(2) by simp
  with le show ?thesis
    by (cases "?p") (auto simp: window_valid_def rl_tryAcquire_def Let_def)
qed

lemma stale_window_empty:
  assumes v: "window_valid cfg t ts" and "t \<le> t'" "t' \<le> t''" and st: "rl_stale cfg t' t'' ts"
  shows "rl_prune cfg t' ts = []"
proof -
  have "x < t' - windowSize cfg" if x: "x \<in> set ts" for x
  proof (cases "windowSize cfg \<ge> 0")
    case True
    have "hd ts + windowSize cfg < t' - windowSize cfg"
      using st x by (cases ts) (auto simp: rl_stale_def rl_getState_def Let_def)
    with v x True show ?thesis by (fastforce simp: window_valid_def)
  next
    case False
    with v x \<open>t \<le> t'\<close> show ?thesis by (fastforce simp: window_valid_def)
  qed
  then show ?thesis by (simp add: rl_prune_def dropWhile_eq_Nil_conv)
qed

interpretation kl: droppable_limiter "[]" "rl_tryAcquire cfg" "rl_stale cfg" "window_valid cfg"
    "\<lambda>t ts ts'. rl_prune cfg t ts = rl_prune cfg t ts'"
  for cfg
proof unfold_locales
  show "window_valid cfg t s \<Longrightarrow> t \<le> t' \<Longrightarrow> t' \<le> t'' \<Longrightarrow> rl_stale cfg t' t'' s \<Longrightarrow>
      rl_prune cfg t' s = rl_prune cfg t' []" for t t' t'' s
    using stale_window_empty by (simp add: rl_prune_def)
  show "rl_prune cfg t s = rl_prune cfg t s' \<Longrightarrow>
      fst (rl_tryAcquire cfg t s) = fst (rl_tryAcquire cfg t s') \<and>
      rl_prune cfg t (snd (rl_tryAcquire cfg t s)) = rl_prune cfg t (snd (rl_tryAcquire cfg t s'))" for t s s'
    by (simp add: rl_tryAcquire_def)
  show "rl_prune cfg t s = rl_prune cfg t s' \<Longrightarrow> t \<le> t' \<Longrightarrow> rl_prune cfg t' s = rl_prune cfg t' s'" for t t' s s'
    by (metis rl_prune_trans)
  show "window_valid cfg t s \<Longrightarrow> t \<le> t' \<Longrightarrow> window_valid cfg t' (snd (rl_tryAcquire cfg t' s))" for t t' s
    by (rule window_valid_attempt)
qed (auto simp: window_valid_def)

text \<open>
  A run of the keyed limiter, and the run it is compared with: one limiter per key for ever,
  to which clean-up and state queries do nothing.
\<close>

datatype keyed_op = KTry string | KGet string | KReset string | KResetAll | KCleanup "string \<Rightarrow> nat"

fun keyed_step :: "rl_config \<Rightarrow> ms \<Rightarrow> keyed_op \<Rightarrow> limiters \<Rightarrow> (string \<times> rl_result) list \<times> limiters" where
  "keyed_step cfg now (KTry k) m = (let (r, m') = keyed_tryAcquire cfg now k m in ([(k, r)], m'))"
| "keyed_step cfg now (KGet k) m = ([], snd (keyed_getState cfg now k m))"
| "keyed_step cfg now (KReset k) m = ([], resetKey k m)"
| "keyed_step cfg now KResetAll m = ([], resetAll m)"
| "keyed_step cfg now (KCleanup lag) m = ([], cleanup cfg now (\<lambda>k. now + int (lag k)) m)"

fun keyed_run :: "rl_config \<Rightarrow> (ms \<times> keyed_op) list \<Rightarrow> limiters \<Rightarrow> (string \<times> rl_result) list" where
  "keyed_run cfg [] m = []"
| "keyed_run cfg ((now, op) # es) m =
     (let (rs, m') = keyed_step cfg now op m in rs @ keyed_run cfg es m')"

fun solo_step :: "rl_config \<Rightarrow> ms \<Rightarrow> keyed_op \<Rightarrow> (string \<Rightarrow> window) \<Rightarrow> (string \<times> rl_result) list \<times> (string \<Rightarrow> window)" where
  "solo_step cfg now (KTry k) f = (let (r, l) = rl_tryAcquire cfg now (f k) in ([(k, r)], f(k := l)))"
| "solo_step cfg now (KGet k) f = ([], f)"
| "solo_step cfg now (KReset k) f = ([], f(k := []))"
| "solo_step cfg now KResetAll f = ([], \<lambda>_. [])"
| "solo_step cfg now (KCleanup lag) f = ([], f)"

fun solo_run :: "rl_config \<Rightarrow> (ms \<times> keyed_op) list \<Rightarrow> (string \<Rightarrow> window) \<Rightarrow> (string \<times> rl_result) list" where
  "solo_run cfg [] f = []"
| "solo_run cfg ((now, op) # es) f = (let (rs, f') = solo_step cfg now op f in rs @ solo_run cfg es f')"

lemma getLimiter_entry:
  "getLimiter k m = (kl.entry m k, if jm_get m k = None then jm_set k [] m else m)"
  by (simp add: getLimiter_def kl.entry_def split: option.splits)

lemma keyed_tryAcquire_entry:
  "keyed_tryAcquire cfg now k m =
     (fst (rl_tryAcquire cfg now (kl.entry m k)), jm_set k (snd (rl_tryAcquire cfg now (kl.entry m k))) m)"
  by (simp add: keyed_tryAcquire_def getLimiter_entry split: prod.splits)

lemma keyed_step_agrees:
  assumes a: "kl.agrees cfg t m f" and "t \<le> now"
  shows "fst (keyed_step cfg now op m) = fst (solo_step cfg now op f) \<and>
         kl.agrees cfg now (snd (keyed_step cfg now op m)) (snd (solo_step cfg now op f))"
proof (cases op)
  case (KTry k)
  with kl.agrees_attempt [OF a \<open>t \<le> now\<close>, of k] show ?thesis
    by (simp add: keyed_tryAcquire_entry case_prod_beta)
next
  case (KGet k)
  with kl.agrees_mono [OF a \<open>t \<le> now\<close>] kl.agrees_touch show ?thesis
    by (auto simp: keyed_getState_def getLimiter_entry)
next
  case (KReset k)
  with kl.agrees_delete [OF kl.agrees_mono [OF a \<open>t \<le> now\<close>]] show ?thesis
    by (simp add: resetKey_def)
next
  case KResetAll
  with kl.agrees_none show ?thesis by (simp add: resetAll_def)
next
  case (KCleanup lag)
  with kl.agrees_drop [OF a \<open>t \<le> now\<close>, of "\<lambda>k. now + int (lag k)"] show ?thesis
    by (simp add: cleanup_def)
qed

lemma keyed_run_agrees:
  "kl.agrees cfg t m f \<Longrightarrow> sorted (map fst es) \<Longrightarrow> \<forall>e\<in>set es. t \<le> fst e \<Longrightarrow> keyed_run cfg es m = solo_run cfg es f"
proof (induction es arbitrary: t m f)
  case (Cons e es)
  obtain now op where e: "e = (now, op)" by force
  with Cons.prems have "t \<le> now" "sorted (map fst es)" "\<forall>e\<in>set es. now \<le> fst e" by auto
  with keyed_step_agrees [OF Cons.prems(1) \<open>t \<le> now\<close>, of op] Cons.IH
  show ?case by (auto simp: e case_prod_beta)
qed simp

text \<open>Keys are independent and clean-up is invisible. As long as the clock does not run backwards,
  whatever keys are used, queried, reset and cleaned up in whatever order, every call to
  \<open>tryAcquire(key)\<close> returns what a limiter of its own, never dropped, would have returned.\<close>

theorem keyed_limiter_independent:
  assumes "sorted (map fst es)"
  shows "keyed_run cfg es [] = solo_run cfg es (\<lambda>_. [])"
proof (cases es)
  case (Cons e es')
  with assms have "\<forall>e'\<in>set es. fst e \<le> fst e'" by auto
  with kl.agrees_none assms show ?thesis by (rule keyed_run_agrees)
qed simp

theorem keyed_limiter_independent_witness:
  "map (rl_ok \<circ> snd) (keyed_run \<lparr>maxPerWindow = 1, windowSize = 10\<rparr>
     [(0, KTry ''a''), (1, KTry ''b''), (2, KTry ''a''), (21, KCleanup (\<lambda>_. 0)), (21, KTry ''a'')] []) =
   [True, True, False, True]"
  using keyed_limiter_independent [of
      "[(0, KTry ''a''), (1, KTry ''b''), (2, KTry ''a''), (21, KCleanup (\<lambda>_. 0)), (21, KTry ''a'')]"
      "\<lparr>maxPerWindow = 1, windowSize = 10\<rparr>"]
  by (simp add: rl_tryAcquire_def rl_prune_def)

text \<open>
  \<open>cleanup\<close> is meant to remove limiters that have not been used for two windows. A limiter that
  never allowed a call (one that \<open>getState\<close> created, or any limiter when \<open>maxPerWindow\<close> is 0)
  reports the present time as its reset time, so it is never removed.
\<close>

lemma cleanup_keeps_unused:
  assumes "jm_ok m" "jm_get m k = None" "windowSize cfg \<ge> 0" "now \<le> clk k"
  shows "jm_has (cleanup cfg now clk (snd (keyed_getState cfg t k m))) k"
proof -
  have "jm_get (jm_set k [] m) k = Some []" by simp
  with assms show ?thesis
    by (simp add: cleanup_def keyed_getState_def getLimiter_entry jm_has_iff jm_get_filter
        rl_stale_def rl_getState_def)
qed

subsection \<open>The token bucket\<close>

record bucket_config =
  capacity :: rat
  refillRate :: rat

record bucket =
  tokens :: rat
  lastRefill :: ms

definition tb_new :: "bucket_config \<Rightarrow> ms \<Rightarrow> bucket" where
  "tb_new cfg now = \<lparr>tokens = capacity cfg, lastRefill = now\<rparr>"

definition tb_refill :: "bucket_config \<Rightarrow> ms \<Rightarrow> bucket \<Rightarrow> bucket" where
  "tb_refill cfg now b =
     (let elapsed = of_int (now - lastRefill b) / 1000;
          tokensToAdd = elapsed * refillRate cfg
      in \<lparr>tokens = min (capacity cfg) (tokens b + tokensToAdd), lastRefill = now\<rparr>)"

definition tb_tryAcquire :: "bucket_config \<Rightarrow> ms \<Rightarrow> rat \<Rightarrow> bucket \<Rightarrow> bool \<times> bucket" where
  "tb_tryAcquire cfg now count b =
     (let b' = tb_refill cfg now b
      in if tokens b' \<ge> count then (True, b'\<lparr>tokens := tokens b' - count\<rparr>) else (False, b'))"

definition tb_getTokens :: "bucket_config \<Rightarrow> ms \<Rightarrow> bucket \<Rightarrow> rat \<times> bucket" where
  "tb_getTokens cfg now b = (let b' = tb_refill cfg now b in (tokens b', b'))"

definition tb_reset :: "bucket_config \<Rightarrow> ms \<Rightarrow> bucket \<Rightarrow> bucket" where
  "tb_reset cfg now b = b\<lparr>tokens := capacity cfg, lastRefill := now\<rparr>"

text \<open>A run of acquisitions: the tokens handed out, and the bucket.\<close>

fun tb_run :: "bucket_config \<Rightarrow> (ms \<times> rat) list \<Rightarrow> bucket \<Rightarrow> rat \<times> bucket" where
  "tb_run cfg [] b = (0, b)"
| "tb_run cfg ((now, count) # cs) b =
     (let (ok, b') = tb_tryAcquire cfg now count b;
          (used, b'') = tb_run cfg cs b'
      in ((if ok then count else 0) + used, b''))"

definition bucket_inv :: "bucket_config \<Rightarrow> bucket \<Rightarrow> bool" where
  "bucket_inv cfg b \<longleftrightarrow> 0 \<le> tokens b \<and> tokens b \<le> capacity cfg"

lemma tb_refill_inv:
  assumes "bucket_inv cfg b" "lastRefill b \<le> now" "refillRate cfg \<ge> 0"
  shows "bucket_inv cfg (tb_refill cfg now b)"
    and "tokens (tb_refill cfg now b) \<le> tokens b + of_int (now - lastRefill b) / 1000 * refillRate cfg"
proof -
  have "(of_int (now - lastRefill b) :: rat) \<ge> 0" using assms(2) by simp
  then have "of_int (now - lastRefill b) / 1000 * refillRate cfg \<ge> 0" using assms(3) by simp
  with assms(1) show "bucket_inv cfg (tb_refill cfg now b)"
    by (simp add: bucket_inv_def tb_refill_def Let_def)
  show "tokens (tb_refill cfg now b) \<le> tokens b + of_int (now - lastRefill b) / 1000 * refillRate cfg"
    by (simp add: tb_refill_def Let_def)
qed

lemma tb_step:
  assumes "bucket_inv cfg b" "lastRefill b \<le> now" "refillRate cfg \<ge> 0" "count \<ge> 0"
  shows "bucket_inv cfg (snd (tb_tryAcquire cfg now count b))"
    and "(if fst (tb_tryAcquire cfg now count b) then count else 0) + tokens (snd (tb_tryAcquire cfg now count b))
           \<le> tokens b + of_int (now - lastRefill b) / 1000 * refillRate cfg"
    and "lastRefill (snd (tb_tryAcquire cfg now count b)) = now"
  using tb_refill_inv [OF assms(1-3)] assms(4)
  by (auto simp: tb_tryAcquire_def Let_def bucket_inv_def) (simp_all add: tb_refill_def Let_def)

lemma tb_run_bound:
  assumes "refillRate cfg \<ge> 0"
  shows "bucket_inv cfg b \<Longrightarrow> sorted (lastRefill b # map fst cs) \<Longrightarrow> \<forall>c\<in>set cs. snd c \<ge> 0 \<Longrightarrow>
    bucket_inv cfg (snd (tb_run cfg cs b)) \<and>
    fst (tb_run cfg cs b) + tokens (snd (tb_run cfg cs b))
      \<le> tokens b + of_int (last (lastRefill b # map fst cs) - lastRefill b) / 1000 * refillRate cfg"
proof (induction cs arbitrary: b)
  case (Cons c cs)
  obtain now count where c: "c = (now, count)" by force
  let ?b = "snd (tb_tryAcquire cfg now count b)"
  note st = tb_step [OF Cons.prems(1) _ assms, of now count]
  have IH: "bucket_inv cfg (snd (tb_run cfg cs ?b)) \<and>
    fst (tb_run cfg cs ?b) + tokens (snd (tb_run cfg cs ?b))
      \<le> tokens ?b + of_int (last (now # map fst cs) - now) / 1000 * refillRate cfg"
    using Cons.IH [of ?b] st Cons.prems by (cases "cs = []") (simp_all add: c)
  let ?l = "last (now # map fst cs)"
  define A B C where "A = of_int (now - lastRefill b) / 1000 * refillRate cfg"
    and "B = of_int (?l - now) / 1000 * refillRate cfg"
    and "C = of_int (?l - lastRefill b) / 1000 * refillRate cfg"
  have "C = A + B" by (simp add: A_def B_def C_def field_simps)
  moreover have "(if fst (tb_tryAcquire cfg now count b) then count else 0) + tokens ?b \<le> tokens b + A"
    using st(2) Cons.prems by (simp add: c A_def)
  moreover have "fst (tb_run cfg cs ?b) + tokens (snd (tb_run cfg cs ?b)) \<le> tokens ?b + B"
    using IH by (simp only: B_def)
  ultimately have
    "(if fst (tb_tryAcquire cfg now count b) then count else 0) + fst (tb_run cfg cs ?b) + tokens (snd (tb_run cfg cs ?b))
      \<le> tokens b + of_int (?l - lastRefill b) / 1000 * refillRate cfg"
    unfolding C_def [symmetric] by linarith
  moreover have "last (lastRefill b # map fst (c # cs)) = ?l" by (simp add: c)
  ultimately show ?case using IH by (simp add: c Let_def case_prod_beta del: last.simps)
qed simp

text \<open>Token bucket. From a full bucket at time \<open>t\<close>, as long as the clock does not run backwards and
  no negative count is asked for, the tokens stay between 0 and the capacity and the tokens handed
  out never exceed the capacity plus what the refill rate yields in the elapsed time.\<close>

theorem token_bucket_bound:
  assumes "refillRate cfg \<ge> 0" "capacity cfg \<ge> 0" "sorted (t # map fst cs)" "\<forall>c\<in>set cs. snd c \<ge> 0"
  shows "0 \<le> tokens (snd (tb_run cfg cs (tb_new cfg t)))
    \<and> tokens (snd (tb_run cfg cs (tb_new cfg t))) \<le> capacity cfg
    \<and> fst (tb_run cfg cs (tb_new cfg t))
           \<le> capacity cfg + refillRate cfg * of_int (last (t # map fst cs) - t) / 1000"
proof -
  have i: "bucket_inv cfg (tb_new cfg t)" using assms(2) by (simp add: bucket_inv_def tb_new_def)
  from tb_run_bound [OF assms(1) i _ assms(4)] assms(3) show ?thesis
    by (auto simp: bucket_inv_def tb_new_def mult.commute)
qed

theorem token_bucket_bound_witness:
  "fst (tb_run \<lparr>capacity = 2, refillRate = 1\<rparr> [(0, 2), (500, 1), (1000, 1)]
         (tb_new \<lparr>capacity = 2, refillRate = 1\<rparr> 0)) \<le> 2 + 1"
  using token_bucket_bound [of "\<lparr>capacity = 2, refillRate = 1\<rparr>" 0 "[(0, 2), (500, 1), (1000, 1)]"]
  by simp

end
