(* ===== verification/Circuit_Breaker.thy ===== *)
theory Circuit_Breaker
  imports Foundation_Prelude "HOL-Library.Multiset"
begin

text \<open>
  The per-host circuit breaker of the HTTP client
  (\<open>libs/foundation/http/src/interceptors/response/circuit-breaker-interceptor.ts\<close>): the map of
  host circuits with its pruning by age and by number, the four recording operations, and the
  request and response interceptors that call them. Every operation takes one clock reading for
  all the \<open>Date.now()\<close> of its synchronous body. The abstract breaker is a small state machine
  for one host; the development shows that, host by host, the code implements it.
\<close>

subsection \<open>Data\<close>

datatype circuit_state = CLOSED | OPEN | HALF_OPEN

record host_circuit =
  c_state :: circuit_state
  failureCount :: int
  lastFailureTime :: ms
  halfOpenRequests :: int
  updatedAt :: ms

record cb_config =
  failureThreshold :: int
  resetTimeoutMs :: ms
  halfOpenMaxRequests :: int
  failureStatusCodes :: "int list"
  countNetworkErrors :: bool
  maxHosts :: int
  hostTtlMs :: ms

definition DEFAULT_CIRCUIT_BREAKER_CONFIG :: cb_config where
  "DEFAULT_CIRCUIT_BREAKER_CONFIG =
     \<lparr>failureThreshold = 5, resetTimeoutMs = 30000, halfOpenMaxRequests = 1,
      failureStatusCodes = [500, 502, 503, 504], countNetworkErrors = True,
      maxHosts = 250, hostTtlMs = 600000\<rparr>"

type_synonym host = string
type_synonym circuits = "(host, host_circuit) jmap"

subsection \<open>Operations\<close>

text \<open>The eviction loop over the entries sorted by age; \<open>sort\<close> is stable.\<close>

fun evict_oldest :: "int \<Rightarrow> (host \<times> host_circuit) list \<Rightarrow> circuits \<Rightarrow> circuits" where
  "evict_oldest mx [] m = m"
| "evict_oldest mx (e # es) m =
     (if int (length m) > mx then evict_oldest mx es (jm_delete (fst e) m) else m)"

definition pruneCircuits :: "cb_config \<Rightarrow> ms \<Rightarrow> circuits \<Rightarrow> circuits" where
  "pruneCircuits cfg now m =
     (let m' = (if hostTtlMs cfg > 0
                then filter (\<lambda>(h, c). \<not> now - updatedAt c > hostTtlMs cfg) m else m)
      in if maxHosts cfg > 0 \<and> int (length m') > maxHosts cfg
         then evict_oldest (maxHosts cfg) (sort_key (\<lambda>e. updatedAt (snd e)) m') m'
         else m')"

definition new_circuit :: "ms \<Rightarrow> host_circuit" where
  "new_circuit now =
     \<lparr>c_state = CLOSED, failureCount = 0, lastFailureTime = 0, halfOpenRequests = 0, updatedAt = now\<rparr>"

definition getOrCreateCircuit :: "ms \<Rightarrow> host \<Rightarrow> circuits \<Rightarrow> host_circuit \<times> circuits" where
  "getOrCreateCircuit now h m =
     (case jm_get m h of
        Some c \<Rightarrow> (c, m)
      | None \<Rightarrow> (new_circuit now, jm_set h (new_circuit now) m))"

definition touchCircuit :: "ms \<Rightarrow> host_circuit \<Rightarrow> host_circuit" where
  "touchCircuit now c = c\<lparr>updatedAt := now\<rparr>"

definition allowRequest :: "cb_config \<Rightarrow> ms \<Rightarrow> host \<Rightarrow> circuits \<Rightarrow> bool \<times> circuits" where
  "allowRequest cfg now h m =
     (let m = pruneCircuits cfg now m
      in case jm_get m h of
           None \<Rightarrow> (True, m)
         | Some c0 \<Rightarrow>
             (let c = touchCircuit now c0
              in case c_state c of
                   CLOSED \<Rightarrow> (True, jm_set h c m)
                 | OPEN \<Rightarrow>
                     if now - lastFailureTime c \<ge> resetTimeoutMs cfg
                     then (True, jm_set h (c\<lparr>c_state := HALF_OPEN, halfOpenRequests := 0\<rparr>) m)
                     else (False, jm_set h c m)
                 | HALF_OPEN \<Rightarrow> (halfOpenRequests c < halfOpenMaxRequests cfg, jm_set h c m)))"

definition recordSuccess :: "cb_config \<Rightarrow> ms \<Rightarrow> host \<Rightarrow> circuits \<Rightarrow> circuits" where
  "recordSuccess cfg now h m =
     (let m = pruneCircuits cfg now m
      in case jm_get m h of
           None \<Rightarrow> m
         | Some c \<Rightarrow>
             jm_set h (touchCircuit now
               (c\<lparr>c_state := CLOSED, failureCount := 0, halfOpenRequests := 0\<rparr>)) m)"

definition recordFailure :: "cb_config \<Rightarrow> ms \<Rightarrow> host \<Rightarrow> circuits \<Rightarrow> circuits" where
  "recordFailure cfg now h m =
     (let m = pruneCircuits cfg now m;
          (c0, m) = getOrCreateCircuit now h m;
          c = touchCircuit now (c0\<lparr>failureCount := failureCount c0 + 1, lastFailureTime := now\<rparr>)
      in if c_state c = HALF_OPEN then jm_set h (c\<lparr>c_state := OPEN\<rparr>) m
         else if failureCount c \<ge> failureThreshold cfg then jm_set h (c\<lparr>c_state := OPEN\<rparr>) m
         else jm_set h c m)"

definition recordHalfOpenRequest :: "cb_config \<Rightarrow> ms \<Rightarrow> host \<Rightarrow> circuits \<Rightarrow> circuits" where
  "recordHalfOpenRequest cfg now h m =
     (let m = pruneCircuits cfg now m
      in case jm_get m h of
           None \<Rightarrow> m
         | Some c \<Rightarrow>
             if c_state c = HALF_OPEN
             then jm_set h (touchCircuit now (c\<lparr>halfOpenRequests := halfOpenRequests c + 1\<rparr>)) m
             else m)"

definition cb_getState :: "cb_config \<Rightarrow> ms \<Rightarrow> host \<Rightarrow> circuits \<Rightarrow> circuit_state \<times> circuits" where
  "cb_getState cfg now h m =
     (let m = pruneCircuits cfg now m
      in (case jm_get m h of None \<Rightarrow> CLOSED | Some c \<Rightarrow> c_state c, m))"

definition cb_reset :: "circuits \<Rightarrow> circuits" where
  "cb_reset m = []"

definition cb_size :: "cb_config \<Rightarrow> ms \<Rightarrow> circuits \<Rightarrow> nat \<times> circuits" where
  "cb_size cfg now m = (let m = pruneCircuits cfg now m in (length m, m))"

subsection \<open>Interceptors\<close>

text \<open>
  The codes of a rejected axios call that the breaker tells apart; any other code, and any error
  that is not an axios error, is \<open>ERR_OTHER\<close>.
\<close>

datatype reject_code = ERR_NETWORK | ECONNABORTED | ETIMEDOUT | ERR_CANCELED | ERR_OTHER

definition isFailureStatus :: "int \<Rightarrow> int list \<Rightarrow> bool" where
  "isFailureStatus status codes \<longleftrightarrow> status \<in> set codes"

definition isNetworkFailure :: "reject_code \<Rightarrow> bool" where
  "isNetworkFailure c \<longleftrightarrow> c = ERR_NETWORK \<or> c = ECONNABORTED \<or> c = ETIMEDOUT"

text \<open>The request interceptor: whether the request goes out, or is refused with a 503.\<close>

definition cb_onRequest :: "cb_config \<Rightarrow> ms \<Rightarrow> host \<Rightarrow> circuits \<Rightarrow> bool \<times> circuits" where
  "cb_onRequest cfg now h m =
     (let (ok, m) = allowRequest cfg now h m
      in if \<not> ok then (False, m)
         else let (st, m) = cb_getState cfg now h m
              in (True, if st = HALF_OPEN then recordHalfOpenRequest cfg now h m else m))"

definition cb_onFulfilled :: "cb_config \<Rightarrow> ms \<Rightarrow> host \<Rightarrow> int \<Rightarrow> circuits \<Rightarrow> circuits" where
  "cb_onFulfilled cfg now h status m =
     (if isFailureStatus status (failureStatusCodes cfg) then recordFailure cfg now h m
      else recordSuccess cfg now h m)"

definition cb_onRejected :: "cb_config \<Rightarrow> ms \<Rightarrow> host \<Rightarrow> reject_code \<Rightarrow> circuits \<Rightarrow> circuits" where
  "cb_onRejected cfg now h code m =
     (if countNetworkErrors cfg \<and> isNetworkFailure code then recordFailure cfg now h m else m)"

text \<open>A run of the interceptors: the outcome of every request, in order.\<close>

datatype cb_event = Request host | Response host int | Reject host reject_code

fun cb_event_host :: "cb_event \<Rightarrow> host" where
  "cb_event_host (Request h) = h"
| "cb_event_host (Response h _) = h"
| "cb_event_host (Reject h _) = h"

fun cb_step :: "cb_config \<Rightarrow> ms \<Rightarrow> cb_event \<Rightarrow> circuits \<Rightarrow> (host \<times> bool) list \<times> circuits" where
  "cb_step cfg now (Request h) m = (let (ok, m') = cb_onRequest cfg now h m in ([(h, ok)], m'))"
| "cb_step cfg now (Response h status) m = ([], cb_onFulfilled cfg now h status m)"
| "cb_step cfg now (Reject h code) m = ([], cb_onRejected cfg now h code m)"

fun cb_run :: "cb_config \<Rightarrow> (ms \<times> cb_event) list \<Rightarrow> circuits \<Rightarrow> (host \<times> bool) list \<times> circuits" where
  "cb_run cfg [] m = ([], m)"
| "cb_run cfg ((now, e) # es) m =
     (let (os, m') = cb_step cfg now e m; (os', m'') = cb_run cfg es m' in (os @ os', m''))"

subsection \<open>The breaker of one host\<close>

text \<open>
  What a host sees: closed with a number of consecutive failures, open since its last failure, or
  half open with a number of probes under way; and the time of the last event that touched it,
  after which the entry expires.
\<close>

datatype breaker = Closed nat | Open ms | Half_Open nat

type_synonym host_view = "breaker \<times> ms"

definition expire :: "cb_config \<Rightarrow> ms \<Rightarrow> host_view \<Rightarrow> breaker" where
  "expire cfg now v = (if hostTtlMs cfg > 0 \<and> now - snd v > hostTtlMs cfg then Closed 0 else fst v)"

fun hv_request :: "cb_config \<Rightarrow> ms \<Rightarrow> breaker \<Rightarrow> bool \<times> breaker" where
  "hv_request cfg now (Closed n) = (True, Closed n)"
| "hv_request cfg now (Open t) = (if now - t \<ge> resetTimeoutMs cfg then (True, Half_Open 1) else (False, Open t))"
| "hv_request cfg now (Half_Open k) =
     (if int k < halfOpenMaxRequests cfg then (True, Half_Open (Suc k)) else (False, Half_Open k))"

fun hv_failure :: "cb_config \<Rightarrow> ms \<Rightarrow> breaker \<Rightarrow> breaker" where
  "hv_failure cfg now (Closed n) = (if int (Suc n) \<ge> failureThreshold cfg then Open now else Closed (Suc n))"
| "hv_failure cfg now b = Open now"

datatype verdict = Success | Failure | Uncounted

fun verdict_of :: "cb_config \<Rightarrow> cb_event \<Rightarrow> verdict" where
  "verdict_of cfg (Request h) = Uncounted"
| "verdict_of cfg (Response h status) = (if status \<in> set (failureStatusCodes cfg) then Failure else Success)"
| "verdict_of cfg (Reject h code) = (if countNetworkErrors cfg \<and> isNetworkFailure code then Failure else Uncounted)"

fun hv_step :: "cb_config \<Rightarrow> host \<Rightarrow> ms \<Rightarrow> cb_event \<Rightarrow> host_view \<Rightarrow> bool list \<times> host_view" where
  "hv_step cfg h now (Request h') v =
     (if h' = h then (let (ok, b) = hv_request cfg now (expire cfg now v) in ([ok], (b, now))) else ([], v))"
| "hv_step cfg h now e v =
     (if cb_event_host e = h then
        (case verdict_of cfg e of
           Success \<Rightarrow> ([], (Closed 0, now))
         | Failure \<Rightarrow> ([], (hv_failure cfg now (expire cfg now v), now))
         | Uncounted \<Rightarrow> ([], v))
      else ([], v))"

fun hv_run :: "cb_config \<Rightarrow> host \<Rightarrow> (ms \<times> cb_event) list \<Rightarrow> host_view \<Rightarrow> bool list \<times> host_view" where
  "hv_run cfg h [] v = ([], v)"
| "hv_run cfg h ((now, e) # es) v =
     (let (os, v') = hv_step cfg h now e v; (os', v'') = hv_run cfg h es v' in (os @ os', v''))"


subsection \<open>Pruning\<close>

lemma set_jm_delete: "set (jm_delete k m) = {e \<in> set m. fst e \<noteq> k}"
  by (simp add: jm_delete_def)

lemma evict_oldest_take:
  "\<exists>n. evict_oldest mx es m = filter (\<lambda>e. fst e \<notin> set (map fst (take n es))) m"
proof (induction es arbitrary: m)
  case (Cons e es)
  show ?case
  proof (cases "int (length m) > mx")
    case True
    from Cons [of "jm_delete (fst e) m"] obtain n where
      "evict_oldest mx es (jm_delete (fst e) m) =
         filter (\<lambda>e. fst e \<notin> set (map fst (take n es))) (jm_delete (fst e) m)" by blast
    with True have "evict_oldest mx (e # es) m =
        filter (\<lambda>e'. fst e' \<notin> set (map fst (take (Suc n) (e # es)))) m"
      by (auto simp: jm_delete_def intro: filter_cong)
    then show ?thesis by blast
  next
    case False
    then have "evict_oldest mx (e # es) m = filter (\<lambda>e'. fst e' \<notin> set (map fst (take 0 (e # es)))) m"
      by simp
    then show ?thesis by blast
  qed
qed auto

lemma evict_oldest_bound:
  "jm_ok m \<Longrightarrow> jm_ok es \<Longrightarrow> fst ` set es = fst ` set m \<Longrightarrow> mx \<ge> 0 \<Longrightarrow> int (length (evict_oldest mx es m)) \<le> mx"
proof (induction es arbitrary: m)
  case Nil
  then show ?case by simp
next
  case (Cons e es)
  have "fst e \<notin> fst ` set es" "insert (fst e) (fst ` set es) = fst ` set m" using Cons.prems by auto
  then have "fst ` set es = fst ` set m - {fst e}" by (metis Diff_insert_absorb)
  then have "fst ` set es = fst ` set (jm_delete (fst e) m)" by simp
  with Cons show ?case by auto
qed

definition settled :: "cb_config \<Rightarrow> ms \<Rightarrow> circuits \<Rightarrow> bool" where
  "settled cfg now m \<longleftrightarrow>
     (hostTtlMs cfg > 0 \<longrightarrow> (\<forall>e\<in>set m. \<not> now - updatedAt (snd e) > hostTtlMs cfg)) \<and>
     (maxHosts cfg > 0 \<longrightarrow> int (length m) \<le> maxHosts cfg)"

definition unexpired :: "cb_config \<Rightarrow> ms \<Rightarrow> circuits \<Rightarrow> circuits" where
  "unexpired cfg now m =
     (if hostTtlMs cfg > 0 then filter (\<lambda>(h, c). \<not> now - updatedAt c > hostTtlMs cfg) m else m)"

lemma pruneCircuits_unexpired:
  "pruneCircuits cfg now m =
     (if maxHosts cfg > 0 \<and> int (length (unexpired cfg now m)) > maxHosts cfg
      then evict_oldest (maxHosts cfg) (sort_key (\<lambda>e. updatedAt (snd e)) (unexpired cfg now m)) (unexpired cfg now m)
      else unexpired cfg now m)"
  by (simp only: pruneCircuits_def unexpired_def Let_def)

lemma set_unexpired: "set (unexpired cfg now m) \<subseteq> set m"
  by (auto simp: unexpired_def)

lemma length_unexpired: "length (unexpired cfg now m) \<le> length m"
  by (simp add: unexpired_def)

lemma jm_ok_unexpired [simp]: "jm_ok m \<Longrightarrow> jm_ok (unexpired cfg now m)"
  by (simp add: unexpired_def)

lemma jm_ok_sort_key: "jm_ok m \<Longrightarrow> jm_ok (sort_key f m)"
  by (metis mset_eq_imp_distinct_iff mset_map mset_sort)

lemma pruneCircuits_settled: "settled cfg now m \<Longrightarrow> pruneCircuits cfg now m = m"
proof -
  assume s: "settled cfg now m"
  then have "unexpired cfg now m = m"
    by (auto simp: unexpired_def settled_def filter_id_conv)
  with s show ?thesis by (auto simp: pruneCircuits_unexpired settled_def)
qed

text \<open>Pruning keeps the unexpired entries but for the first \<open>n\<close> in order of age.\<close>

lemma pruneCircuits_take:
  "\<exists>n. pruneCircuits cfg now m =
      filter (\<lambda>e. fst e \<notin> set (map fst (take n (sort_key (\<lambda>e. updatedAt (snd e)) (unexpired cfg now m)))))
        (unexpired cfg now m)"
  unfolding pruneCircuits_unexpired
  using evict_oldest_take [of "maxHosts cfg" "sort_key (\<lambda>e. updatedAt (snd e)) (unexpired cfg now m)" "unexpired cfg now m"]
  by (metis (no_types, lifting) empty_iff filter_True list.set(1) list.simps(8) take0)

lemma length_pruneCircuits:
  "jm_ok m \<Longrightarrow> maxHosts cfg > 0 \<Longrightarrow> int (length (pruneCircuits cfg now m)) \<le> maxHosts cfg"
  by (simp add: pruneCircuits_unexpired evict_oldest_bound jm_ok_sort_key)

lemma set_pruneCircuits: "set (pruneCircuits cfg now m) \<subseteq> set (unexpired cfg now m)"
  using pruneCircuits_take [of cfg now m] by auto

lemma jm_ok_prune [simp]: "jm_ok m \<Longrightarrow> jm_ok (pruneCircuits cfg now m)"
  using pruneCircuits_take [of cfg now m] by (metis jm_ok_filter jm_ok_unexpired)

lemma settled_prune: "jm_ok m \<Longrightarrow> settled cfg now (pruneCircuits cfg now m)"
proof -
  have "hostTtlMs cfg > 0 \<Longrightarrow> \<forall>e\<in>set (unexpired cfg now m). \<not> now - updatedAt (snd e) > hostTtlMs cfg"
    by (auto simp: unexpired_def)
  then show "jm_ok m \<Longrightarrow> ?thesis"
    using set_pruneCircuits [of cfg now m] length_pruneCircuits [of m cfg now] by (auto simp: settled_def)
qed

lemma settled_set:
  assumes "settled cfg now m" "jm_get m h \<noteq> None" "updatedAt c = now"
  shows "settled cfg now (jm_set h c m)"
  using assms by (auto simp: settled_def length_jm_set dest!: set_jm_setD)

text \<open>Without eviction a circuit leaves the map only by expiring.\<close>

lemma jm_get_prune:
  assumes "jm_ok m" "maxHosts cfg \<le> 0 \<or> int (length m) \<le> maxHosts cfg"
  shows "jm_get (pruneCircuits cfg now m) h =
    (case jm_get m h of None \<Rightarrow> None
     | Some c \<Rightarrow> if hostTtlMs cfg > 0 \<and> now - updatedAt c > hostTtlMs cfg then None else Some c)"
proof -
  have "pruneCircuits cfg now m = unexpired cfg now m"
    using length_unexpired [of cfg now m] assms(2) by (auto simp: pruneCircuits_unexpired)
  with assms(1) show ?thesis
    by (auto simp: unexpired_def jm_get_filter split: option.splits)
qed

subsection \<open>Refinement\<close>

definition circ_abs :: "host_circuit \<Rightarrow> breaker" where
  "circ_abs c = (case c_state c of
     CLOSED \<Rightarrow> Closed (nat (failureCount c))
   | OPEN \<Rightarrow> Open (lastFailureTime c)
   | HALF_OPEN \<Rightarrow> Half_Open (nat (halfOpenRequests c)))"

definition circ_ok :: "host_circuit \<Rightarrow> bool" where
  "circ_ok c \<longleftrightarrow> failureCount c \<ge> 0 \<and> halfOpenRequests c \<ge> 0"

definition implements :: "cb_config \<Rightarrow> ms \<Rightarrow> circuits \<Rightarrow> host \<Rightarrow> host_view \<Rightarrow> bool" where
  "implements cfg now m h v \<longleftrightarrow>
     (case jm_get m h of
        None \<Rightarrow> expire cfg now v = Closed 0
      | Some c \<Rightarrow> circ_ok c \<and> v = (circ_abs c, updatedAt c))"

lemma implements_later: "implements cfg t m h v \<Longrightarrow> t \<le> now \<Longrightarrow> implements cfg now m h v"
  by (auto simp: implements_def expire_def split: option.splits if_splits)

lemma circuit_update_order:
  "c\<lparr>halfOpenRequests := k, updatedAt := u\<rparr> = c\<lparr>updatedAt := u, halfOpenRequests := k\<rparr>"
  "c\<lparr>c_state := s, updatedAt := u\<rparr> = c\<lparr>updatedAt := u, c_state := s\<rparr>"
  by (cases c; simp)+

lemma nat_succ: "0 \<le> z \<Longrightarrow> nat (z + 1) = Suc (nat z)"
  by simp

text \<open>The request interceptor in one piece: prune once, then act on the circuit found.\<close>

lemma cb_onRequest_eq:
  assumes "jm_ok m"
  shows "cb_onRequest cfg now h m =
    (let pm = pruneCircuits cfg now m
     in case jm_get pm h of
          None \<Rightarrow> (True, pm)
        | Some c0 \<Rightarrow>
            let c = touchCircuit now c0 in
            (case c_state c of
               CLOSED \<Rightarrow> (True, jm_set h c pm)
             | OPEN \<Rightarrow> if now - lastFailureTime c \<ge> resetTimeoutMs cfg
                 then (True, jm_set h (c\<lparr>c_state := HALF_OPEN, halfOpenRequests := 1\<rparr>) pm)
                 else (False, jm_set h c pm)
             | HALF_OPEN \<Rightarrow> if halfOpenRequests c < halfOpenMaxRequests cfg
                 then (True, jm_set h (c\<lparr>halfOpenRequests := halfOpenRequests c + 1\<rparr>) pm)
                 else (False, jm_set h c pm)))"
proof -
  let ?pm = "pruneCircuits cfg now m"
  have s: "settled cfg now ?pm" using assms by (rule settled_prune)
  have p: "pruneCircuits cfg now ?pm = ?pm" using s by (rule pruneCircuits_settled)
  have ps: "pruneCircuits cfg now (jm_set h c ?pm) = jm_set h c ?pm"
    if "jm_get ?pm h \<noteq> None" "updatedAt c = now" for c
    using settled_set [OF s that] by (rule pruneCircuits_settled)
  show ?thesis
    by (auto simp: cb_onRequest_def allowRequest_def cb_getState_def recordHalfOpenRequest_def
        Let_def p ps touchCircuit_def circuit_update_order split: option.splits circuit_state.splits)
qed

lemma implements_prune:
  assumes "implements cfg t m h v" "t \<le> now" "jm_ok m" "maxHosts cfg \<le> 0 \<or> int (length m) \<le> maxHosts cfg"
  shows "case jm_get (pruneCircuits cfg now m) h of
           None \<Rightarrow> expire cfg now v = Closed 0
         | Some c \<Rightarrow> circ_ok c \<and> v = (circ_abs c, updatedAt c) \<and> expire cfg now v = circ_abs c"
  using implements_later [OF assms(1,2)]
  by (auto simp: implements_def jm_get_prune [OF assms(3,4)] expire_def split: option.splits if_splits)

lemma implements_pruned:
  assumes "implements cfg t m h v" "t \<le> now" "jm_ok m" "maxHosts cfg \<le> 0 \<or> int (length m) \<le> maxHosts cfg"
  shows "implements cfg now (pruneCircuits cfg now m) h v"
  using implements_prune [OF assms] by (auto simp: implements_def split: option.splits)

lemma implements_other: "h' \<noteq> h \<Longrightarrow> implements cfg now (jm_set h' c m) h v \<longleftrightarrow> implements cfg now m h v"
  by (simp add: implements_def)

lemma implements_set:
  "implements cfg now (jm_set h c m) h v \<longleftrightarrow> circ_ok c \<and> v = (circ_abs c, updatedAt c)"
  by (simp add: implements_def)

lemma expire_closed [simp]: "expire cfg now (Closed 0, u) = Closed 0"
  by (simp add: expire_def)

lemma implements_onRequest:
  assumes "implements cfg t m h v" "t \<le> now" "jm_ok m" "maxHosts cfg \<le> 0 \<or> int (length m) \<le> maxHosts cfg"
  shows "fst (cb_onRequest cfg now h m) = fst (hv_request cfg now (expire cfg now v)) \<and>
         implements cfg now (snd (cb_onRequest cfg now h m)) h (snd (hv_request cfg now (expire cfg now v)), now)"
proof (cases "jm_get (pruneCircuits cfg now m) h")
  case None
  with implements_prune [OF assms] show ?thesis
    by (simp add: cb_onRequest_eq [OF assms(3)] Let_def implements_def)
next
  case (Some c)
  with implements_prune [OF assms] show ?thesis
    by (cases "c_state c")
      (auto simp: cb_onRequest_eq [OF assms(3)] Let_def implements_def touchCircuit_def circ_abs_def
        circ_ok_def nat_succ)
qed

lemma implements_recordSuccess:
  assumes "implements cfg t m h v" "t \<le> now" "jm_ok m" "maxHosts cfg \<le> 0 \<or> int (length m) \<le> maxHosts cfg"
  shows "implements cfg now (recordSuccess cfg now h m) h (Closed 0, now)"
  using implements_prune [OF assms]
  by (auto simp: recordSuccess_def Let_def implements_def touchCircuit_def circ_abs_def circ_ok_def split: option.splits)

lemma implements_recordFailure:
  assumes "implements cfg t m h v" "t \<le> now" "jm_ok m" "maxHosts cfg \<le> 0 \<or> int (length m) \<le> maxHosts cfg"
  shows "implements cfg now (recordFailure cfg now h m) h (hv_failure cfg now (expire cfg now v), now)"
proof (cases "jm_get (pruneCircuits cfg now m) h")
  case None
  with implements_prune [OF assms] show ?thesis
    by (auto simp: recordFailure_def getOrCreateCircuit_def Let_def implements_def touchCircuit_def
        circ_abs_def circ_ok_def new_circuit_def)
next
  case (Some c)
  with implements_prune [OF assms] show ?thesis
    by (cases "c_state c")
      (auto simp: recordFailure_def getOrCreateCircuit_def Let_def implements_def touchCircuit_def
        circ_abs_def circ_ok_def nat_succ)
qed

lemma other_recordSuccess:
  assumes "implements cfg t m h v" "t \<le> now" "jm_ok m" "maxHosts cfg \<le> 0 \<or> int (length m) \<le> maxHosts cfg" "h' \<noteq> h"
  shows "implements cfg now (recordSuccess cfg now h' m) h v"
    and "implements cfg now (recordFailure cfg now h' m) h v"
    and "implements cfg now (snd (cb_onRequest cfg now h' m)) h v"
  using implements_pruned [OF assms(1-4)] assms(5)
  by (auto simp: recordSuccess_def recordFailure_def getOrCreateCircuit_def cb_onRequest_eq [OF assms(3)]
      Let_def implements_other split: option.splits circuit_state.splits)

lemma pruned_hosts: "fst ` set (pruneCircuits cfg now m) \<subseteq> fst ` set m"
  using set_pruneCircuits [of cfg now m] set_unexpired [of cfg now m] by blast

lemma cb_ops_form:
  shows "jm_ok m \<Longrightarrow> snd (cb_onRequest cfg now h m) = pruneCircuits cfg now m \<or>
           (\<exists>c. snd (cb_onRequest cfg now h m) = jm_set h c (pruneCircuits cfg now m))"
    and "recordSuccess cfg now h m = pruneCircuits cfg now m \<or>
           (\<exists>c. recordSuccess cfg now h m = jm_set h c (pruneCircuits cfg now m))"
    and "\<exists>c. recordFailure cfg now h m = jm_set h c (pruneCircuits cfg now m)"
  by (auto simp: cb_onRequest_eq recordSuccess_def recordFailure_def getOrCreateCircuit_def Let_def
      split: option.splits circuit_state.splits)

lemma hosts_of_form:
  assumes "jm_ok m" "m' = pruneCircuits cfg now m \<or> (\<exists>c. m' = jm_set h c (pruneCircuits cfg now m))"
  shows "jm_ok m' \<and> fst ` set m' \<subseteq> insert h (fst ` set m)"
proof -
  have "jm_ok (pruneCircuits cfg now m)" using assms(1) by (rule jm_ok_prune)
  then have "jm_ok m'" using assms(2) jm_ok_set by auto
  moreover have "fst ` set m' \<subseteq> insert h (fst ` set m)"
    using assms(2) pruned_hosts [of cfg now m] set_jm_keys_set by (metis insert_mono subset_insertI2)
  ultimately show ?thesis ..
qed

lemma cb_step_hosts:
  assumes "jm_ok m"
  shows "jm_ok (snd (cb_step cfg now e m)) \<and>
         fst ` set (snd (cb_step cfg now e m)) \<subseteq> insert (cb_event_host e) (fst ` set m)"
proof (cases e)
  case (Request h)
  with hosts_of_form [OF assms cb_ops_form(1) [OF assms]] show ?thesis by (simp add: case_prod_beta)
next
  case (Response h st)
  with hosts_of_form [OF assms cb_ops_form(2)] hosts_of_form [OF assms disjI2 [OF cb_ops_form(3)]]
  show ?thesis by (simp add: cb_onFulfilled_def)
next
  case (Reject h code)
  with hosts_of_form [OF assms disjI2 [OF cb_ops_form(3)]] assms show ?thesis
    by (auto simp: cb_onRejected_def)
qed

text \<open>One step of the code is one step of the breaker of every host.\<close>

lemma cb_step_implements:
  assumes i: "implements cfg t m h v" and "t \<le> now" and ok: "jm_ok m"
    and cap: "maxHosts cfg \<le> 0 \<or> int (length m) \<le> maxHosts cfg"
  shows "map snd (filter (\<lambda>r. fst r = h) (fst (cb_step cfg now e m))) = fst (hv_step cfg h now e v) \<and>
         implements cfg now (snd (cb_step cfg now e m)) h (snd (hv_step cfg h now e v))"
proof (cases "cb_event_host e = h")
  case True
  then show ?thesis
    using implements_onRequest [OF assms] implements_recordSuccess [OF assms]
      implements_recordFailure [OF assms] implements_later [OF i \<open>t \<le> now\<close>]
    by (cases e) (auto simp: case_prod_beta cb_onFulfilled_def cb_onRejected_def isFailureStatus_def)
next
  case False
  then show ?thesis
    using other_recordSuccess [OF assms] implements_later [OF i \<open>t \<le> now\<close>]
    by (cases e) (auto simp: case_prod_beta cb_onFulfilled_def cb_onRejected_def isFailureStatus_def)
qed

definition cb_hosts :: "(ms \<times> cb_event) list \<Rightarrow> host set" where
  "cb_hosts es = (\<lambda>(t, e). cb_event_host e) ` set es"

lemma length_le_hosts: "jm_ok m \<Longrightarrow> fst ` set m \<subseteq> H \<Longrightarrow> finite H \<Longrightarrow> length m \<le> card H"
  by (metis card_mono distinct_card length_map set_map)

lemma cb_run_implements:
  assumes "finite H" "maxHosts cfg \<le> 0 \<or> int (card H) \<le> maxHosts cfg"
  shows "implements cfg t m h v \<Longrightarrow> jm_ok m \<Longrightarrow> fst ` set m \<union> cb_hosts es \<subseteq> H \<Longrightarrow>
    sorted (map fst es) \<Longrightarrow> \<forall>e\<in>set es. t \<le> fst e \<Longrightarrow>
    map snd (filter (\<lambda>r. fst r = h) (fst (cb_run cfg es m))) = fst (hv_run cfg h es v) \<and>
    implements cfg (last (t # map fst es)) (snd (cb_run cfg es m)) h (snd (hv_run cfg h es v)) \<and>
    jm_ok (snd (cb_run cfg es m)) \<and> fst ` set (snd (cb_run cfg es m)) \<subseteq> H"
proof (induction es arbitrary: t m v)
  case Nil
  then show ?case by simp
next
  case (Cons ev es)
  obtain now e where ev: "ev = (now, e)" by force
  have "t \<le> now" using Cons.prems ev by simp
  have "length m \<le> card H" using Cons.prems assms(1) by (intro length_le_hosts) auto
  with assms(2) have cap: "maxHosts cfg \<le> 0 \<or> int (length m) \<le> maxHosts cfg" by auto
  note st = cb_step_implements [OF Cons.prems(1) \<open>t \<le> now\<close> Cons.prems(2) cap, of e]
  note hs = cb_step_hosts [OF Cons.prems(2), of cfg now e]
  have "cb_event_host e \<in> H" "cb_hosts es \<subseteq> H" "fst ` set m \<subseteq> H"
    using Cons.prems(3) by (auto simp: cb_hosts_def ev)
  then have "insert (cb_event_host e) (fst ` set m) \<subseteq> H" by simp
  with hs have "fst ` set (snd (cb_step cfg now e m)) \<subseteq> H" by (meson order_trans)
  with \<open>cb_hosts es \<subseteq> H\<close> have k: "fst ` set (snd (cb_step cfg now e m)) \<union> cb_hosts es \<subseteq> H"
    by (simp only: Un_subset_iff simp_thms)
  have "sorted (map fst es)" "\<forall>e\<in>set es. now \<le> fst e" using Cons.prems(4) by (auto simp: ev)
  note IH = Cons.IH [OF st [THEN conjunct2] hs [THEN conjunct1] k this]
  have "last (now # map fst es) = last (t # map fst (ev # es))" by (simp add: ev)
  with IH st show ?case unfolding ev by (simp add: case_prod_beta del: last.simps)
qed

lemma implements_empty: "implements cfg t [] h (Closed 0, u)"
  by (simp add: implements_def)

text \<open>C5 Every host has a breaker of its own. As long as the clock does not run backwards and the hosts
  seen fit into \<open>maxHosts\<close>, the requests to a host are let through or refused exactly as the abstract
  breaker of that host decides on its own events, whatever happens to the other hosts: the shared map,
  its pruning by age and the in-place updates are invisible.\<close>

theorem breaker_per_host:
  assumes "sorted (map fst es)" "maxHosts cfg \<le> 0 \<or> int (card (cb_hosts es)) \<le> maxHosts cfg"
  shows "map snd (filter (\<lambda>r. fst r = h) (fst (cb_run cfg es []))) = fst (hv_run cfg h es (Closed 0, 0))"
proof (cases es)
  case (Cons e es')
  with assms(1) have "\<forall>x\<in>set es. fst e \<le> fst x" by auto
  moreover have "finite (cb_hosts es)" by (simp add: cb_hosts_def)
  ultimately show ?thesis
    using cb_run_implements [of "cb_hosts es" cfg "fst e" "[]" h "(Closed 0, 0)" es] assms
    by (simp add: implements_empty)
qed simp

definition cb_example :: "(ms \<times> cb_event) list" where
  "cb_example = [(0, Request ''a''), (1, Request ''b''), (2, Response ''a'' 503), (3, Request ''a''), (4, Request ''b'')]"

theorem breaker_per_host_witness:
  "map snd (filter (\<lambda>r. fst r = ''a'') (fst (cb_run
      (DEFAULT_CIRCUIT_BREAKER_CONFIG\<lparr>failureThreshold := 1\<rparr>) cb_example []))) = [True, False]"
proof -
  let ?cfg = "DEFAULT_CIRCUIT_BREAKER_CONFIG\<lparr>failureThreshold := 1\<rparr>"
  have "sorted (map fst cb_example)" by (simp add: cb_example_def)
  moreover have "maxHosts ?cfg \<le> 0 \<or> int (card (cb_hosts cb_example)) \<le> maxHosts ?cfg"
    by (simp add: cb_example_def cb_hosts_def DEFAULT_CIRCUIT_BREAKER_CONFIG_def card_insert_if)
  moreover have "fst (hv_run ?cfg ''a'' cb_example (Closed 0, 0)) = [True, False]"
    by (simp add: cb_example_def expire_def DEFAULT_CIRCUIT_BREAKER_CONFIG_def)
  ultimately show ?thesis using breaker_per_host [of cb_example ?cfg "''a''"] by simp
qed

subsection \<open>Consequences\<close>

text \<open>Failures of a host, counted as the interceptors count them.\<close>

definition failures_of :: "cb_config \<Rightarrow> host \<Rightarrow> (ms \<times> cb_event) list \<Rightarrow> nat" where
  "failures_of cfg h es =
     length (filter (\<lambda>(t, e). cb_event_host e = h \<and> verdict_of cfg e = Failure) es)"

lemma hv_run_failures:
  assumes "\<forall>(t, e)\<in>set es. cb_event_host e = h \<longrightarrow> verdict_of cfg e \<noteq> Success"
    and "\<forall>(t, e)\<in>set es. t0 \<le> t \<and> t \<le> now" "now - t0 < resetTimeoutMs cfg"
    and "hostTtlMs cfg \<le> 0 \<or> now - t0 \<le> hostTtlMs cfg"
    and "t0 \<le> u" "u \<le> now"
    and "b = Closed k \<and> int k < failureThreshold cfg \<or> (\<exists>t. b = Open t \<and> t0 \<le> t \<and> t \<le> now \<and> int k \<ge> failureThreshold cfg)"
  shows "\<exists>b' u'. snd (hv_run cfg h es (b, u)) = (b', u') \<and> t0 \<le> u' \<and> u' \<le> now \<and>
    (b' = Closed (k + failures_of cfg h es) \<and> int (k + failures_of cfg h es) < failureThreshold cfg \<or>
     (\<exists>t. b' = Open t \<and> t0 \<le> t \<and> t \<le> now \<and> int (k + failures_of cfg h es) \<ge> failureThreshold cfg))"
  using assms
proof (induction es arbitrary: b u k)
  case Nil
  then show ?case by (simp add: failures_of_def)
next
  case (Cons ev es)
  obtain t e where ev: "ev = (t, e)" by force
  have t: "t0 \<le> t" "t \<le> now" using Cons.prems(2) by (auto simp: ev)
  have ex: "expire cfg t (b, u) = b" using Cons.prems t by (auto simp: expire_def)
  let ?k = "k + (if cb_event_host e = h \<and> verdict_of cfg e = Failure then 1 else 0)"
  obtain b1 u1 where s: "snd (hv_step cfg h t e (b, u)) = (b1, u1)" by force
  have b1: "t0 \<le> u1 \<and> u1 \<le> now \<and> (b1 = Closed ?k \<and> int ?k < failureThreshold cfg \<or>
        (\<exists>t. b1 = Open t \<and> t0 \<le> t \<and> t \<le> now \<and> int ?k \<ge> failureThreshold cfg))"
    using Cons.prems s t ex by (cases e) (auto simp: ev split: if_splits)
  have "\<exists>b' u'. snd (hv_run cfg h es (b1, u1)) = (b', u') \<and> t0 \<le> u' \<and> u' \<le> now \<and>
    (b' = Closed (?k + failures_of cfg h es) \<and> int (?k + failures_of cfg h es) < failureThreshold cfg \<or>
     (\<exists>t. b' = Open t \<and> t0 \<le> t \<and> t \<le> now \<and> int (?k + failures_of cfg h es) \<ge> failureThreshold cfg))"
    using b1 Cons.prems by (intro Cons.IH) auto
  moreover have "?k + failures_of cfg h es = k + failures_of cfg h (ev # es)"
    by (simp add: failures_of_def ev)
  moreover have "snd (hv_run cfg h (ev # es) (b, u)) = snd (hv_run cfg h es (b1, u1))"
    using s by (simp add: ev case_prod_beta)
  ultimately show ?case by simp
qed

lemma fst_onRequest_view:
  assumes "implements cfg t m h v" "t \<le> now" "jm_ok m" "maxHosts cfg \<le> 0 \<or> int (length m) \<le> maxHosts cfg"
  shows "fst (cb_onRequest cfg now h m) = fst (hv_request cfg now (expire cfg now v))"
  using implements_onRequest [OF assms] by blast

text \<open>The breaker opens exactly at the threshold. Take any run of the interceptors in which the host
  has no counted success, within a period shorter than the reset timeout and not longer than the time to
  live. A further request to the host at the end of the period is let through exactly when the host's
  counted failures are fewer than \<open>failureThreshold\<close>.\<close>

theorem breaker_opens_at_threshold:
  assumes "sorted (map fst es @ [now])" "\<forall>(t, e)\<in>set es. t0 \<le> t"
    and "\<forall>(t, e)\<in>set es. cb_event_host e = h \<longrightarrow> verdict_of cfg e \<noteq> Success"
    and "t0 \<le> now" "now - t0 < resetTimeoutMs cfg" "hostTtlMs cfg \<le> 0 \<or> now - t0 \<le> hostTtlMs cfg"
    and "maxHosts cfg \<le> 0 \<or> int (card (insert h (cb_hosts es))) \<le> maxHosts cfg"
    and "failureThreshold cfg \<ge> 1"
  shows "fst (cb_onRequest cfg now h (snd (cb_run cfg es []))) \<longleftrightarrow>
           int (failures_of cfg h es) < failureThreshold cfg"
proof -
  let ?m = "snd (cb_run cfg es [])" and ?v = "snd (hv_run cfg h es (Closed 0, t0))"
  have fin: "finite (insert h (cb_hosts es))" by (simp add: cb_hosts_def)
  have tn: "\<forall>(t, e)\<in>set es. t0 \<le> t \<and> t \<le> now" using assms(1,2) by (auto simp: sorted_append)
  have ge: "\<forall>e\<in>set es. t0 \<le> fst e" using assms(2) by auto
  have sub: "fst ` set [] \<union> cb_hosts es \<subseteq> insert h (cb_hosts es)" and so: "sorted (map fst es)"
    using assms(1) by (auto simp: sorted_append)
  have r: "implements cfg (last (t0 # map fst es)) ?m h ?v" "jm_ok ?m" "fst ` set ?m \<subseteq> insert h (cb_hosts es)"
    using cb_run_implements [OF fin assms(7) implements_empty [of cfg t0 h t0] _ sub so ge] by simp_all
  have "last (t0 # map fst es) \<le> now" using tn assms(4) by (cases es rule: rev_cases) auto
  moreover have "maxHosts cfg \<le> 0 \<or> int (length ?m) \<le> maxHosts cfg"
    using length_le_hosts [OF r(2,3) fin] assms(7) by linarith
  ultimately have dec: "fst (cb_onRequest cfg now h ?m) = fst (hv_request cfg now (expire cfg now ?v))"
    using r by (intro fst_onRequest_view)
  have "\<exists>b' u'. ?v = (b', u') \<and> t0 \<le> u' \<and> u' \<le> now \<and>
    (b' = Closed (0 + failures_of cfg h es) \<and> int (0 + failures_of cfg h es) < failureThreshold cfg \<or>
     (\<exists>t. b' = Open t \<and> t0 \<le> t \<and> t \<le> now \<and> int (0 + failures_of cfg h es) \<ge> failureThreshold cfg))"
    using assms tn by (intro hv_run_failures) auto
  then obtain b' u' where v: "?v = (b', u')" "t0 \<le> u'" and
    b': "b' = Closed (failures_of cfg h es) \<and> int (failures_of cfg h es) < failureThreshold cfg \<or>
     (\<exists>t. b' = Open t \<and> t0 \<le> t \<and> int (failures_of cfg h es) \<ge> failureThreshold cfg)" by auto
  have "expire cfg now ?v = b'" using v assms(6) by (auto simp: expire_def)
  with dec b' assms(5) show ?thesis by auto
qed

definition two_failures :: "(ms \<times> cb_event) list" where
  "two_failures = [(0, Request ''a''), (0, Reject ''a'' ERR_NETWORK), (5, Request ''a''),
                   (6, Request ''b''), (7, Response ''b'' 200), (8, Response ''a'' 503)]"

theorem breaker_opens_at_threshold_witness:
  "\<not> fst (cb_onRequest (DEFAULT_CIRCUIT_BREAKER_CONFIG\<lparr>failureThreshold := 2\<rparr>) 9 ''a''
       (snd (cb_run (DEFAULT_CIRCUIT_BREAKER_CONFIG\<lparr>failureThreshold := 2\<rparr>) two_failures [])))"
proof -
  let ?cfg = "DEFAULT_CIRCUIT_BREAKER_CONFIG\<lparr>failureThreshold := 2\<rparr>"
  have "fst (cb_onRequest ?cfg 9 ''a'' (snd (cb_run ?cfg two_failures []))) \<longleftrightarrow>
      int (failures_of ?cfg ''a'' two_failures) < failureThreshold ?cfg"
    by (rule breaker_opens_at_threshold [where ?t0.0 = 0])
      (simp_all add: two_failures_def DEFAULT_CIRCUIT_BREAKER_CONFIG_def cb_hosts_def card_insert_if isNetworkFailure_def)
  then show ?thesis
    by (simp add: failures_of_def two_failures_def DEFAULT_CIRCUIT_BREAKER_CONFIG_def isNetworkFailure_def)
qed

text \<open>Bounds that hold after any run, with or without eviction.\<close>

definition cb_bounded :: "cb_config \<Rightarrow> circuits \<Rightarrow> bool" where
  "cb_bounded cfg m \<longleftrightarrow> jm_ok m \<and>
     (maxHosts cfg > 0 \<longrightarrow> int (length m) \<le> maxHosts cfg + 1) \<and>
     (\<forall>(h, c)\<in>set m. failureCount c \<ge> 0 \<and> 0 \<le> halfOpenRequests c \<and>
        halfOpenRequests c \<le> max 1 (halfOpenMaxRequests cfg))"

definition circ_bounded :: "cb_config \<Rightarrow> host_circuit \<Rightarrow> bool" where
  "circ_bounded cfg c \<longleftrightarrow> failureCount c \<ge> 0 \<and> 0 \<le> halfOpenRequests c \<and>
     halfOpenRequests c \<le> max 1 (halfOpenMaxRequests cfg)"

lemma cb_bounded_circ:
  "cb_bounded cfg m \<longleftrightarrow> jm_ok m \<and> (maxHosts cfg > 0 \<longrightarrow> int (length m) \<le> maxHosts cfg + 1) \<and>
     (\<forall>e\<in>set m. circ_bounded cfg (snd e))"
  by (auto simp: cb_bounded_def circ_bounded_def split: prod.splits)

lemma cb_bounded_form:
  assumes "cb_bounded cfg m"
    and "m' = pruneCircuits cfg now m \<or> (\<exists>c. m' = jm_set h c (pruneCircuits cfg now m) \<and> circ_bounded cfg c)"
  shows "cb_bounded cfg m'"
proof -
  let ?pm = "pruneCircuits cfg now m"
  have ok: "jm_ok m" using assms(1) by (simp add: cb_bounded_def)
  have p: "\<forall>e\<in>set ?pm. circ_bounded cfg (snd e)"
    using assms(1) set_pruneCircuits [of cfg now m] set_unexpired [of cfg now m]
    unfolding cb_bounded_circ by blast
  have "length m' \<le> Suc (length ?pm)" using assms(2) by (auto simp: length_jm_set)
  then have "maxHosts cfg > 0 \<longrightarrow> int (length m') \<le> maxHosts cfg + 1"
    using length_pruneCircuits [OF ok, of cfg now] by linarith
  moreover have "jm_ok m'" using assms(2) jm_ok_prune [OF ok] jm_ok_set by auto
  moreover have "\<forall>e\<in>set m'. circ_bounded cfg (snd e)"
    using assms(2) p by (auto dest!: set_jm_setD)
  ultimately show ?thesis by (simp add: cb_bounded_circ)
qed

lemma get_pruned_bounded:
  "cb_bounded cfg m \<Longrightarrow> jm_get (pruneCircuits cfg now m) h = Some c \<Longrightarrow> circ_bounded cfg c"
  unfolding cb_bounded_circ
  using set_pruneCircuits [of cfg now m] set_unexpired [of cfg now m] jm_get_Some_in by fastforce

lemma cb_step_bounded:
  assumes b: "cb_bounded cfg m"
  shows "cb_bounded cfg (snd (cb_step cfg now e m))"
proof -
  have ok: "jm_ok m" using b by (simp add: cb_bounded_def)
  note g = get_pruned_bounded [OF b, of now]
  have "cb_bounded cfg (snd (cb_onRequest cfg now h m))" for h
    using g [of h] by (intro cb_bounded_form [OF b, of _ now h]) (auto simp: cb_onRequest_eq [OF ok]
        Let_def touchCircuit_def circ_bounded_def split: option.splits circuit_state.splits)
  moreover have "cb_bounded cfg (recordSuccess cfg now h m)" for h
    using g [of h] by (intro cb_bounded_form [OF b, of _ now h]) (auto simp: recordSuccess_def
        Let_def touchCircuit_def circ_bounded_def split: option.splits)
  moreover have "cb_bounded cfg (recordFailure cfg now h m)" for h
    using g [of h] by (intro cb_bounded_form [OF b, of _ now h] disjI2) (auto simp: recordFailure_def
        getOrCreateCircuit_def Let_def touchCircuit_def circ_bounded_def new_circuit_def split: option.splits)
  ultimately show ?thesis using b
    by (cases e) (simp_all add: case_prod_beta cb_onFulfilled_def cb_onRejected_def)
qed

lemma cb_run_bounded: "cb_bounded cfg m \<Longrightarrow> cb_bounded cfg (snd (cb_run cfg es m))"
proof (induction es arbitrary: m)
  case (Cons e es)
  obtain now ev where "e = (now, ev)" by force
  with Cons cb_step_bounded [OF Cons.prems, of now ev] show ?case by (simp add: case_prod_beta)
qed simp

text \<open>The breaker's memory and its probes are bounded. After any run whatever, with any clock, there
  are at most \<open>maxHosts + 1\<close> entries with distinct hosts (a failure of a new host is added after the
  pruning), no circuit has more half-open probes than configured (one is always granted), and no failure
  count is negative.\<close>

theorem breaker_bounded: "cb_bounded cfg (snd (cb_run cfg es []))"
  by (rule cb_run_bounded) (simp add: cb_bounded_def)

text \<open>What an eviction removes is at least as old as what it keeps.\<close>

lemma evicts_oldest:
  assumes "jm_ok m" "e \<in> set (unexpired cfg now m)" "e \<notin> set (pruneCircuits cfg now m)"
    and "k \<in> set (pruneCircuits cfg now m)"
  shows "updatedAt (snd e) \<le> updatedAt (snd k)"
proof -
  let ?es = "sort_key (\<lambda>e. updatedAt (snd e)) (unexpired cfg now m)"
  obtain n where n: "pruneCircuits cfg now m = filter (\<lambda>e. fst e \<notin> set (map fst (take n ?es))) (unexpired cfg now m)"
    using pruneCircuits_take [of cfg now m] by blast
  have s: "sorted (map (\<lambda>e. updatedAt (snd e)) (take n ?es @ drop n ?es))" by simp
  have k: "k \<in> set ?es" "fst k \<notin> set (map fst (take n ?es))" using assms(4) n by auto
  have "set ?es = set (take n ?es) \<union> set (drop n ?es)" by (metis append_take_drop_id set_append)
  with k have "k \<in> set (drop n ?es)" by auto
  have "fst e \<in> set (map fst (take n ?es))" using assms(2,3) n by auto
  then obtain e' where e': "e' \<in> set (take n ?es)" "fst e' = fst e" by auto
  then have "e' \<in> set (unexpired cfg now m)" by (metis in_set_takeD set_sort)
  with e' assms(2) jm_ok_unexpired [OF assms(1), of cfg now] have "e' = e"
    by (metis eq_key_imp_eq_value prod.collapse)
  with e'(1) \<open>k \<in> set (drop n ?es)\<close> s show ?thesis by (auto simp: sorted_append simp del: append_take_drop_id)
qed

text \<open>
  A probe that ends in neither a counted failure nor a response (a cancelled request, say, or any
  rejection when network errors are not counted) leaves the circuit half open with its probe slot
  taken. From then on every request is refused and none is ever sent that could free the slot; the
  refused requests keep the entry young, so it does not expire either.
\<close>

definition cancelled_probe :: "host \<Rightarrow> (ms \<times> cb_event) list" where
  "cancelled_probe h = replicate 5 (0, Response h 503) @ [(30000, Request h), (30001, Reject h ERR_CANCELED)]"

definition stuck_circuit :: "ms \<Rightarrow> host_circuit" where
  "stuck_circuit t = \<lparr>c_state = HALF_OPEN, failureCount = 5, lastFailureTime = 0, halfOpenRequests = 1, updatedAt = t\<rparr>"

definition tripped :: host_circuit where
  "tripped = \<lparr>c_state = OPEN, failureCount = 5, lastFailureTime = 0, halfOpenRequests = 0, updatedAt = 0\<rparr>"

lemma prune_single:
  "now - updatedAt c \<le> 600000 \<Longrightarrow> pruneCircuits DEFAULT_CIRCUIT_BREAKER_CONFIG now [(h, c)] = [(h, c)]"
  "pruneCircuits DEFAULT_CIRCUIT_BREAKER_CONFIG now [] = []"
  by (rule pruneCircuits_settled, simp add: settled_def DEFAULT_CIRCUIT_BREAKER_CONFIG_def)+

lemma failureThreshold_default: "failureThreshold DEFAULT_CIRCUIT_BREAKER_CONFIG = 5"
  by (simp add: DEFAULT_CIRCUIT_BREAKER_CONFIG_def)

lemma stuck_run:
  "successively (\<lambda>a b. a \<le> b \<and> b \<le> a + 600000) (t # ts) \<Longrightarrow>
   fst (cb_run DEFAULT_CIRCUIT_BREAKER_CONFIG (map (\<lambda>t. (t, Request h)) ts) [(h, stuck_circuit t)]) =
     map (\<lambda>_. (h, False)) ts"
proof (induction ts arbitrary: t)
  case (Cons t' ts)
  have "settled DEFAULT_CIRCUIT_BREAKER_CONFIG t' [(h, stuck_circuit t)]"
    using Cons.prems by (simp add: settled_def DEFAULT_CIRCUIT_BREAKER_CONFIG_def stuck_circuit_def)
  from pruneCircuits_settled [OF this] have
    "cb_onRequest DEFAULT_CIRCUIT_BREAKER_CONFIG t' h [(h, stuck_circuit t)] = (False, [(h, stuck_circuit t')])"
    by (simp add: cb_onRequest_eq jm_get_Cons stuck_circuit_def touchCircuit_def DEFAULT_CIRCUIT_BREAKER_CONFIG_def)
  with Cons.IH [of t'] Cons.prems show ?case by (simp add: case_prod_beta)
qed simp

text \<open>A cancelled probe blocks its host for good. With the default configuration, after five failures
  and one probe that is cancelled, every later request to the host is refused, for as long as requests
  keep coming at intervals of at most ten minutes, however long ago the last failure was.\<close>

theorem cancelled_probe_blocks_host:
  assumes "successively (\<lambda>a b. a \<le> b \<and> b \<le> a + 600000) (30000 # ts)"
  shows "fst (cb_run DEFAULT_CIRCUIT_BREAKER_CONFIG (map (\<lambda>t. (t, Request h)) ts)
            (snd (cb_run DEFAULT_CIRCUIT_BREAKER_CONFIG (cancelled_probe h) []))) = map (\<lambda>_. (h, False)) ts"
proof -
  have f: "cb_onFulfilled DEFAULT_CIRCUIT_BREAKER_CONFIG 0 h 503 = recordFailure DEFAULT_CIRCUIT_BREAKER_CONFIG 0 h"
    by (simp add: fun_eq_iff cb_onFulfilled_def isFailureStatus_def DEFAULT_CIRCUIT_BREAKER_CONFIG_def)
  have "snd (cb_run DEFAULT_CIRCUIT_BREAKER_CONFIG (cancelled_probe h) []) =
      snd (cb_onRequest DEFAULT_CIRCUIT_BREAKER_CONFIG 30000 h
        ((recordFailure DEFAULT_CIRCUIT_BREAKER_CONFIG 0 h ^^ 5) []))"
    by (simp add: cancelled_probe_def case_prod_beta numeral_eq_Suc f cb_onRejected_def isNetworkFailure_def)
  also have "(recordFailure DEFAULT_CIRCUIT_BREAKER_CONFIG 0 h ^^ 5) [] = [(h, tripped)]"
    by (simp add: numeral_eq_Suc recordFailure_def getOrCreateCircuit_def new_circuit_def touchCircuit_def
        tripped_def prune_single failureThreshold_default Let_def jm_get_Cons)
  also have "snd (cb_onRequest DEFAULT_CIRCUIT_BREAKER_CONFIG 30000 h [(h, tripped)]) = [(h, stuck_circuit 30000)]"
    by (simp add: cb_onRequest_eq prune_single Let_def touchCircuit_def tripped_def stuck_circuit_def jm_get_Cons
        DEFAULT_CIRCUIT_BREAKER_CONFIG_def [THEN arg_cong, of resetTimeoutMs])
  finally have "snd (cb_run DEFAULT_CIRCUIT_BREAKER_CONFIG (cancelled_probe h) []) = [(h, stuck_circuit 30000)]" .
  then show ?thesis using stuck_run [OF assms] by simp
qed

theorem cancelled_probe_blocks_host_witness:
  "fst (cb_run DEFAULT_CIRCUIT_BREAKER_CONFIG (map (\<lambda>t. (t, Request ''a'')) [60000, 600000, 1200000])
      (snd (cb_run DEFAULT_CIRCUIT_BREAKER_CONFIG (cancelled_probe ''a'') []))) =
   [(''a'', False), (''a'', False), (''a'', False)]"
  using cancelled_probe_blocks_host [of "[60000, 600000, 1200000]" "''a''"] by simp

end
