(* ===== verification/Http_Errors.thy ===== *)
theory Http_Errors
  imports Foundation_Prelude
begin

text \<open>
  The error hierarchy: the code registry with its categories
  (\<open>libs/foundation/data-model/src/errors/error-codes.ts\<close>), what \<open>FoundationError\<close> derives
  from a code (\<open>foundation-error.ts\<close>), the HTTP error classes
  (\<open>libs/foundation/http/src/errors/http-errors.ts\<close>) and the guards that classify them
  (\<open>http/src/errors/type-guards.ts\<close>). An error object is a record of the fields the code reads;
  stack traces and time stamps are left out.
\<close>

subsection \<open>Codes and categories\<close>

datatype (plugins only: size) foundation_error_code =
    BRIDGE_QUERY_TIMEOUT | BRIDGE_QUERY_CANCELLED | BRIDGE_NOT_INITIALIZED
    | BRIDGE_ALREADY_INITIALIZED | BRIDGE_INIT_FAILED | BRIDGE_SHUTDOWN_FAILED
    | BRIDGE_WORKER_POOL_EXHAUSTED | BRIDGE_WORKER_ERROR | BRIDGE_FILE_REGISTRATION_FAILED
    | BRIDGE_VIEW_CREATION_FAILED | BRIDGE_TRANSACTION_ERROR | BRIDGE_PARQUET_ERROR
    | BRIDGE_WASM_LOAD_FAILED | BRIDGE_IPC_ERROR | BRIDGE_WORKER_INIT_FAILED
    | BRIDGE_POOL_SHUTDOWN | BRIDGE_POOL_AT_CAPACITY | BRIDGE_OPFS_NOT_FOUND
    | BRIDGE_OPFS_PERMISSION_DENIED | BRIDGE_OPFS_WRITE_FAILED | BRIDGE_SQL_VALIDATION_FAILED
    | QUERY_SYNTAX_ERROR | QUERY_EXECUTION_FAILED | QUERY_TABLE_NOT_FOUND
    | QUERY_COLUMN_NOT_FOUND | QUERY_INVALID_PARAMS | QUERY_RESULT_CONVERSION_FAILED
    | QUERY_SCHEMA_MISMATCH | SYNC_FAILED | SYNC_CONFLICT | SYNC_QUEUE_PROCESSING_FAILED
    | SYNC_CROSS_TAB_ERROR | SYNC_LEADER_ELECTION_FAILED | SYNC_MUTATION_NOT_FOUND
    | SYNC_INVALID_MUTATION | SYNC_API_ERROR | SYNC_NETWORK_MONITOR_ERROR
    | SYNC_OFFLINE_QUEUE_FULL | SYNC_ID_MAPPING_FAILED | SYNC_REHYDRATION_FAILED
    | REALTIME_AUTH_FAILED | REALTIME_PROTOCOL_VALIDATION_FAILED | REALTIME_HEARTBEAT_TIMEOUT
    | REALTIME_RESUME_FAILED | REALTIME_RESYNC_REQUIRED | REALTIME_SUBSCRIPTION_FAILED
    | DATABASE_CONNECTION_FAILED | DATABASE_OPERATION_FAILED | DATABASE_NOT_INITIALIZED
    | DATABASE_OPFS_NOT_SUPPORTED | DATABASE_OPFS_INIT_FAILED | DATABASE_OPFS_ERROR
    | DATABASE_INDEXEDDB_ERROR | DATABASE_QUOTA_EXCEEDED | DATABASE_DUPLICATE_ENTRY
    | NETWORK_REQUEST_FAILED | NETWORK_REQUEST_CANCELLED | NETWORK_TIMEOUT | NETWORK_OFFLINE
    | NETWORK_HEALTH_CHECK_FAILED | VALIDATION_FAILED | VALIDATION_REQUIRED | VALIDATION_TYPE
    | VALIDATION_RANGE | VALIDATION_FORMAT | VALIDATION_SCHEMA | CONFIG_INVALID
    | CONFIG_MISSING | CONFIG_CONFLICT | RESOURCE_DISPOSED | RESOURCE_NOT_FOUND
    | RESOURCE_LOCKED | RESOURCE_BUSY | INTERNAL_ERROR | ASSERTION_FAILED | NOT_IMPLEMENTED

datatype error_category = TRANSIENT | PERMANENT | USER_INPUT | INFRASTRUCTURE | CONFIGURATION | UNKNOWN

definition getErrorCategory :: "foundation_error_code \<Rightarrow> error_category" where
  "getErrorCategory code =
    (if code \<in> set [BRIDGE_QUERY_TIMEOUT, BRIDGE_WORKER_POOL_EXHAUSTED, BRIDGE_WORKER_ERROR,
          BRIDGE_WORKER_INIT_FAILED, BRIDGE_POOL_AT_CAPACITY, NETWORK_REQUEST_FAILED,
          NETWORK_TIMEOUT, NETWORK_OFFLINE, NETWORK_HEALTH_CHECK_FAILED, SYNC_FAILED,
          SYNC_QUEUE_PROCESSING_FAILED, SYNC_CROSS_TAB_ERROR, SYNC_NETWORK_MONITOR_ERROR,
          SYNC_REHYDRATION_FAILED, REALTIME_HEARTBEAT_TIMEOUT, REALTIME_RESUME_FAILED,
          REALTIME_RESYNC_REQUIRED, DATABASE_CONNECTION_FAILED, RESOURCE_BUSY, RESOURCE_LOCKED]
     then TRANSIENT
     else if code \<in> set [VALIDATION_FAILED, VALIDATION_REQUIRED, VALIDATION_TYPE, VALIDATION_RANGE,
          VALIDATION_FORMAT, VALIDATION_SCHEMA, QUERY_SYNTAX_ERROR, QUERY_INVALID_PARAMS,
          SYNC_INVALID_MUTATION, BRIDGE_SQL_VALIDATION_FAILED,
          REALTIME_PROTOCOL_VALIDATION_FAILED]
     then USER_INPUT
     else if code \<in> set [CONFIG_INVALID, CONFIG_MISSING, CONFIG_CONFLICT, BRIDGE_NOT_INITIALIZED,
          BRIDGE_ALREADY_INITIALIZED, DATABASE_NOT_INITIALIZED, REALTIME_SUBSCRIPTION_FAILED]
     then CONFIGURATION
     else if code \<in> set [BRIDGE_INIT_FAILED, BRIDGE_SHUTDOWN_FAILED, BRIDGE_WASM_LOAD_FAILED,
          BRIDGE_IPC_ERROR, BRIDGE_OPFS_NOT_FOUND, BRIDGE_OPFS_PERMISSION_DENIED,
          BRIDGE_OPFS_WRITE_FAILED, DATABASE_OPFS_NOT_SUPPORTED, DATABASE_OPFS_INIT_FAILED,
          DATABASE_OPFS_ERROR, DATABASE_INDEXEDDB_ERROR, DATABASE_QUOTA_EXCEEDED,
          DATABASE_OPERATION_FAILED, DATABASE_DUPLICATE_ENTRY, REALTIME_AUTH_FAILED]
     then INFRASTRUCTURE
     else if code \<in> set [BRIDGE_QUERY_CANCELLED, NETWORK_REQUEST_CANCELLED, BRIDGE_POOL_SHUTDOWN,
          QUERY_TABLE_NOT_FOUND, QUERY_COLUMN_NOT_FOUND, SYNC_MUTATION_NOT_FOUND,
          SYNC_OFFLINE_QUEUE_FULL, SYNC_ID_MAPPING_FAILED, RESOURCE_DISPOSED,
          RESOURCE_NOT_FOUND, NOT_IMPLEMENTED]
     then PERMANENT
     else UNKNOWN)"

definition isRetryableErrorCode :: "foundation_error_code \<Rightarrow> bool" where
  "isRetryableErrorCode code \<longleftrightarrow> getErrorCategory code = TRANSIENT"

definition shouldReport :: "foundation_error_code \<Rightarrow> bool" where
  "shouldReport code =
    (if getErrorCategory code = USER_INPUT then False
     else if code = BRIDGE_QUERY_CANCELLED then False
     else True)"

subsection \<open>HTTP errors\<close>

datatype http_method = GET | POST | PUT | DELETE | PATCH | HEAD | OPTIONS

datatype http_error_code =
    HTTP_NOT_INITIALIZED | HTTP_REQUEST_FAILED | HTTP_TIMEOUT | HTTP_NETWORK_ERROR | HTTP_CANCELLED
  | HTTP_UNAUTHORIZED | HTTP_FORBIDDEN | HTTP_NOT_FOUND | HTTP_SERVER_ERROR | HTTP_CONFIG_ERROR
  | HTTP_SERIALIZATION_ERROR

record http_error =
  he_code :: foundation_error_code
  he_httpCode :: http_error_code
  he_message :: string
  he_statusCode :: "int option"
  he_url :: "string option"
  he_method :: "http_method option"

definition HttpNotInitializedError :: "string option \<Rightarrow> http_error" where
  "HttpNotInitializedError operation =
     \<lparr>he_code = CONFIG_MISSING, he_httpCode = HTTP_NOT_INITIALIZED,
      he_message = ''HTTP client not initialized'' @
        (case operation of None \<Rightarrow> [] | Some op \<Rightarrow> if op = [] then [] else ''. Cannot perform: '' @ op),
      he_statusCode = None, he_url = None, he_method = None\<rparr>"

definition HttpConfigError :: "string \<Rightarrow> http_error" where
  "HttpConfigError reason =
     \<lparr>he_code = CONFIG_INVALID, he_httpCode = HTTP_CONFIG_ERROR,
      he_message = ''HTTP configuration error: '' @ reason,
      he_statusCode = None, he_url = None, he_method = None\<rparr>"

definition HttpRequestError ::
  "string \<Rightarrow> int option \<Rightarrow> string option \<Rightarrow> http_method option \<Rightarrow> http_error" where
  "HttpRequestError message status url method =
     \<lparr>he_code = NETWORK_REQUEST_FAILED, he_httpCode = HTTP_REQUEST_FAILED, he_message = message,
      he_statusCode = status, he_url = url, he_method = method\<rparr>"

definition HttpTimeoutError :: "int \<Rightarrow> string option \<Rightarrow> http_method option \<Rightarrow> http_error" where
  "HttpTimeoutError timeoutMs url method =
     \<lparr>he_code = NETWORK_TIMEOUT, he_httpCode = HTTP_TIMEOUT,
      he_message = ''Request timed out after '' @ show_int timeoutMs @ ''ms'',
      he_statusCode = None, he_url = url, he_method = method\<rparr>"

definition HttpNetworkError :: "string option \<Rightarrow> string option \<Rightarrow> http_method option \<Rightarrow> http_error" where
  "HttpNetworkError message url method =
     \<lparr>he_code = NETWORK_REQUEST_FAILED, he_httpCode = HTTP_NETWORK_ERROR,
      he_message = (case message of None \<Rightarrow> ''Network error occurred'' | Some m \<Rightarrow> m),
      he_statusCode = None, he_url = url, he_method = method\<rparr>"

definition HttpCancelledError :: "string option \<Rightarrow> http_method option \<Rightarrow> http_error" where
  "HttpCancelledError url method =
     \<lparr>he_code = NETWORK_REQUEST_CANCELLED, he_httpCode = HTTP_CANCELLED,
      he_message = ''Request was cancelled'',
      he_statusCode = None, he_url = url, he_method = method\<rparr>"

definition HttpUnauthorizedError :: "string option \<Rightarrow> http_method option \<Rightarrow> http_error" where
  "HttpUnauthorizedError url method =
     \<lparr>he_code = NETWORK_REQUEST_FAILED, he_httpCode = HTTP_UNAUTHORIZED,
      he_message = ''Unauthorized - authentication required'',
      he_statusCode = Some 401, he_url = url, he_method = method\<rparr>"

definition HttpForbiddenError :: "string option \<Rightarrow> http_method option \<Rightarrow> http_error" where
  "HttpForbiddenError url method =
     \<lparr>he_code = NETWORK_REQUEST_FAILED, he_httpCode = HTTP_FORBIDDEN,
      he_message = ''Forbidden - insufficient permissions'',
      he_statusCode = Some 403, he_url = url, he_method = method\<rparr>"

definition HttpNotFoundError :: "string option \<Rightarrow> http_method option \<Rightarrow> http_error" where
  "HttpNotFoundError url method =
     \<lparr>he_code = RESOURCE_NOT_FOUND, he_httpCode = HTTP_NOT_FOUND,
      he_message = ''Resource not found'',
      he_statusCode = Some 404, he_url = url, he_method = method\<rparr>"

definition HttpServerError ::
  "int \<Rightarrow> string option \<Rightarrow> string option \<Rightarrow> http_method option \<Rightarrow> http_error" where
  "HttpServerError status message url method =
     \<lparr>he_code = NETWORK_REQUEST_FAILED, he_httpCode = HTTP_SERVER_ERROR,
      he_message = (case message of None \<Rightarrow> ''Server error: '' @ show_int status | Some m \<Rightarrow> m),
      he_statusCode = Some status, he_url = url, he_method = method\<rparr>"

datatype serialization_operation = SER_REQUEST | SER_RESPONSE

fun serialization_operation_text :: "serialization_operation \<Rightarrow> string" where
  "serialization_operation_text SER_REQUEST = ''request''"
| "serialization_operation_text SER_RESPONSE = ''response''"

definition HttpSerializationError :: "serialization_operation \<Rightarrow> http_error" where
  "HttpSerializationError operation =
     \<lparr>he_code = VALIDATION_FAILED, he_httpCode = HTTP_SERIALIZATION_ERROR,
      he_message = ''Failed to serialize '' @ serialization_operation_text operation @ '' data'',
      he_statusCode = None, he_url = None, he_method = None\<rparr>"

subsection \<open>Guards\<close>

text \<open>
  A thrown value is an HTTP error or something without an \<open>httpCode\<close>, which no guard accepts.
\<close>

type_synonym thrown = "http_error option"

definition hasHttpErrorCode :: "thrown \<Rightarrow> http_error_code \<Rightarrow> bool" where
  "hasHttpErrorCode e c \<longleftrightarrow> (case e of None \<Rightarrow> False | Some h \<Rightarrow> he_httpCode h = c)"

definition isAuthenticationError :: "thrown \<Rightarrow> bool" where
  "isAuthenticationError e \<longleftrightarrow> hasHttpErrorCode e HTTP_UNAUTHORIZED \<or> hasHttpErrorCode e HTTP_FORBIDDEN"

definition isClientError :: "thrown \<Rightarrow> bool" where
  "isClientError e \<longleftrightarrow>
     (case e of None \<Rightarrow> False
      | Some h \<Rightarrow> (case he_statusCode h of None \<Rightarrow> False | Some s \<Rightarrow> s \<ge> 400 \<and> s < 500))"

definition isServerError :: "thrown \<Rightarrow> bool" where
  "isServerError e \<longleftrightarrow>
     hasHttpErrorCode e HTTP_SERVER_ERROR \<or>
     (case e of None \<Rightarrow> False
      | Some h \<Rightarrow> (case he_statusCode h of None \<Rightarrow> False | Some s \<Rightarrow> s \<ge> 500 \<and> s < 600))"

definition isRetryableHttpError :: "thrown \<Rightarrow> bool" where
  "isRetryableHttpError e =
    (if hasHttpErrorCode e HTTP_NETWORK_ERROR \<or> hasHttpErrorCode e HTTP_TIMEOUT then True
     else case e of None \<Rightarrow> False
      | Some h \<Rightarrow> (case he_statusCode h of None \<Rightarrow> False
          | Some s \<Rightarrow> s \<ge> 500 \<or> s = 408 \<or> s = 429))"

definition isNonRetryableHttpError :: "thrown \<Rightarrow> bool" where
  "isNonRetryableHttpError e =
    (if hasHttpErrorCode e HTTP_CANCELLED then True
     else case e of None \<Rightarrow> False
      | Some h \<Rightarrow> (case he_statusCode h of None \<Rightarrow> False
          | Some s \<Rightarrow> s \<ge> 400 \<and> s < 500 \<and> s \<noteq> 408 \<and> s \<noteq> 429))"

definition isRetriableHttpStatus :: "int \<Rightarrow> bool" where
  "isRetriableHttpStatus s \<longleftrightarrow> s \<ge> 500 \<or> s = 408 \<or> s = 429 \<or> s = 0"

text \<open>The errors the constructors of the library build.\<close>

inductive built :: "http_error \<Rightarrow> bool" where
  "built (HttpNotInitializedError op)"
| "built (HttpConfigError r)"
| "built (HttpRequestError m s u d)"
| "built (HttpTimeoutError t u d)"
| "built (HttpNetworkError mo u d)"
| "built (HttpCancelledError u d)"
| "built (HttpUnauthorizedError u d)"
| "built (HttpForbiddenError u d)"
| "built (HttpNotFoundError u d)"
| "built (HttpServerError i mo u d)"
| "built (HttpSerializationError so)"

lemmas http_error_defs =
  HttpNotInitializedError_def HttpConfigError_def HttpRequestError_def HttpTimeoutError_def
  HttpNetworkError_def HttpCancelledError_def HttpUnauthorizedError_def HttpForbiddenError_def
  HttpNotFoundError_def HttpServerError_def HttpSerializationError_def

lemmas guard_defs =
  hasHttpErrorCode_def isAuthenticationError_def isClientError_def isServerError_def
  isRetryableHttpError_def isNonRetryableHttpError_def

text \<open>No error is both retryable and non-retryable for the guards.\<close>

lemma guards_exclusive: "built h \<Longrightarrow> \<not> (isRetryableHttpError (Some h) \<and> isNonRetryableHttpError (Some h))"
  by (induction rule: built.induct) (auto simp: http_error_defs guard_defs split: option.splits)

text \<open>
  The guards and the code's category disagree: every 4xx error that carries
  \<open>NETWORK_REQUEST_FAILED\<close> is retryable by its category and not retryable by the guard.
\<close>

lemma category_contradicts_guard:
  "isRetryableErrorCode (he_code (HttpUnauthorizedError u d)) \<and> isNonRetryableHttpError (Some (HttpUnauthorizedError u d))"
  "isRetryableErrorCode (he_code (HttpRequestError m (Some 400) u d)) \<and>
   isNonRetryableHttpError (Some (HttpRequestError m (Some 400) u d))"
  by (simp_all add: http_error_defs guard_defs isRetryableErrorCode_def getErrorCategory_def)

text \<open>Cancelled operations are not to be reported; a cancelled HTTP request is.\<close>

lemma cancelled_request_is_reported: "shouldReport (he_code (HttpCancelledError u d))"
  by (simp add: shouldReport_def getErrorCategory_def HttpCancelledError_def)

end
