(* ===== verification/Http_Pipeline.thy ===== *)
theory Http_Pipeline
  imports Complex_Main Http_Errors Circuit_Breaker
begin

text \<open>
  The HTTP client without its circuit breaker (which is off by default): request metadata
  (\<open>http/src/core/request-metadata.ts\<close>), retry policy (\<open>core/retry-utils.ts\<close>,
  \<open>interceptors/response/retry-interceptor.ts\<close>), error normalisation
  (\<open>response/error-normalizer.ts\<close>), the unauthorized handler
  (\<open>response/unauthorized-handler.ts\<close>), and the request interceptors for headers and
  authentication (\<open>request/headers-interceptor.ts\<close>, \<open>request/auth-interceptor.ts\<close>), composed
  as \<open>interceptors/setup.ts\<close> registers them. The platform's URL parser is a parameter: it maps a
  URL and an optional base to the absolute URL, or to \<open>None\<close> where it throws. The network is a
  function from the number of the attempt to what axios reports.
\<close>

subsection \<open>Requests, responses and rejections\<close>

text \<open>Response bodies, as far as the error message is looked up in them.\<close>

datatype body = BString string | BObject "(string \<times> body) list" | BArray "body list" | BOther

record response =
  r_status :: int
  r_data :: body

record axios_error =
  ax_code :: reject_code
  ax_message :: string
  ax_response :: "response option"

datatype rejection = Axios axios_error | Http http_error | Max_retries nat | Thrown string

record request =
  q_url :: "string option"
  q_baseURL :: "string option"
  q_method :: "string option"
  q_timeout :: "int option"

subsection \<open>Request metadata\<close>

type_synonym url_parser = "string \<Rightarrow> string option \<Rightarrow> string option"

fun http_method_text :: "http_method \<Rightarrow> string" where
  "http_method_text GET = ''GET''"
| "http_method_text POST = ''POST''"
| "http_method_text PUT = ''PUT''"
| "http_method_text DELETE = ''DELETE''"
| "http_method_text PATCH = ''PATCH''"
| "http_method_text HEAD = ''HEAD''"
| "http_method_text OPTIONS = ''OPTIONS''"

definition HTTP_METHODS :: "http_method list" where
  "HTTP_METHODS = [GET, POST, PUT, DELETE, PATCH, HEAD, OPTIONS]"

definition normalizeHttpMethod :: "string option \<Rightarrow> http_method option" where
  "normalizeHttpMethod m =
     (case m of None \<Rightarrow> None
      | Some s \<Rightarrow> if s = [] then None else find (\<lambda>v. http_method_text v = to_upper s) HTTP_METHODS)"

definition resolveRequestUrl :: "url_parser \<Rightarrow> string option \<Rightarrow> string option \<Rightarrow> string option" where
  "resolveRequestUrl URL url baseUrl =
     (case url of None \<Rightarrow> None
      | Some u \<Rightarrow>
          if u = [] then None
          else (case (case baseUrl of
                        Some b \<Rightarrow> if b \<noteq> [] then URL u (Some b) else URL u None
                      | None \<Rightarrow> URL u None) of
                  Some full \<Rightarrow> Some full
                | None \<Rightarrow> Some u))"

definition UNKNOWN_HOST_KEY :: string where
  "UNKNOWN_HOST_KEY = ''__unknown__''"

text \<open>\<open>host_of\<close> is the \<open>host\<close> of a parsed URL, \<open>None\<close> where the parser throws.\<close>

definition extractHostKey ::
  "url_parser \<Rightarrow> (string \<Rightarrow> string option) \<Rightarrow> string option \<Rightarrow> string option \<Rightarrow> string" where
  "extractHostKey URL host_of url baseUrl =
     (case resolveRequestUrl URL url baseUrl of
        None \<Rightarrow> UNKNOWN_HOST_KEY
      | Some u \<Rightarrow>
          if u = [] then UNKNOWN_HOST_KEY
          else (case host_of u of
                  Some h \<Rightarrow> if h = [] then UNKNOWN_HOST_KEY else h
                | None \<Rightarrow> UNKNOWN_HOST_KEY))"

record request_metadata =
  requestUrl :: "string option"
  md_method :: "http_method option"
  hostKey :: string

definition getRequestMetadata ::
  "url_parser \<Rightarrow> (string \<Rightarrow> string option) \<Rightarrow> request \<Rightarrow> request_metadata" where
  "getRequestMetadata URL host_of q =
     \<lparr>requestUrl = resolveRequestUrl URL (q_url q) (q_baseURL q),
      md_method = normalizeHttpMethod (q_method q),
      hostKey = extractHostKey URL host_of (q_url q) (q_baseURL q)\<rparr>"

subsection \<open>Error normalisation\<close>

text \<open>\<open>typeof obj[key] === 'string'\<close>: the string at a key of an object, if any.\<close>

definition string_at :: "string \<Rightarrow> (string \<times> body) list \<Rightarrow> string option" where
  "string_at k ob = (case map_of ob k of Some (BString s) \<Rightarrow> Some s | _ \<Rightarrow> None)"

fun first_error_message :: "(string \<times> body) list \<Rightarrow> string option" where
  "first_error_message ob =
     (case map_of ob ''errors'' of
        Some (BArray (BObject e # _)) \<Rightarrow> string_at ''message'' e
      | _ \<Rightarrow> None)"

definition extractErrorMessage :: "body \<Rightarrow> string option" where
  "extractErrorMessage d =
     (case d of
        BString s \<Rightarrow> Some s
      | BObject ob \<Rightarrow>
          (case string_at ''message'' ob of Some s \<Rightarrow> Some s
           | None \<Rightarrow> (case string_at ''error'' ob of Some s \<Rightarrow> Some s
           | None \<Rightarrow> (case string_at ''errorMessage'' ob of Some s \<Rightarrow> Some s
           | None \<Rightarrow> first_error_message ob)))
      | _ \<Rightarrow> None)"

definition mapStatusToError :: "int \<Rightarrow> string \<Rightarrow> string option \<Rightarrow> http_method option \<Rightarrow> http_error" where
  "mapStatusToError status message url method =
     (if status = 401 then HttpUnauthorizedError url method
      else if status = 403 then HttpForbiddenError url method
      else if status = 404 then HttpNotFoundError url method
      else if status \<ge> 500 then HttpServerError status (Some message) url method
      else HttpRequestError message (Some status) url method)"

definition convertAxiosError :: "url_parser \<Rightarrow> request \<Rightarrow> axios_error \<Rightarrow> http_error" where
  "convertAxiosError URL q e =
     (let url = resolveRequestUrl URL (q_url q) (q_baseURL q);
          method = normalizeHttpMethod (q_method q)
      in if ax_code e = ERR_CANCELED then HttpCancelledError url method
         else if ax_code e = ECONNABORTED \<or> ax_code e = ETIMEDOUT
         then HttpTimeoutError (case q_timeout q of None \<Rightarrow> 0 | Some t \<Rightarrow> t) url method
         else (case ax_response e of
                 None \<Rightarrow> HttpNetworkError (Some (ax_message e)) url method
               | Some r \<Rightarrow>
                   if ax_code e = ERR_NETWORK then HttpNetworkError (Some (ax_message e)) url method
                   else mapStatusToError (r_status r)
                     (case extractErrorMessage (r_data r) of Some m \<Rightarrow> m | None \<Rightarrow> ax_message e) url method))"

definition convertResponseError :: "url_parser \<Rightarrow> request \<Rightarrow> response \<Rightarrow> http_error" where
  "convertResponseError URL q r =
     mapStatusToError (r_status r)
       (case extractErrorMessage (r_data r) of Some m \<Rightarrow> m | None \<Rightarrow> ''HTTP '' @ show_int (r_status r))
       (resolveRequestUrl URL (q_url q) (q_baseURL q)) (normalizeHttpMethod (q_method q))"

text \<open>What a promise of the response chain is settled with.\<close>

type_synonym settlement = "rejection + response"

definition normalizer_onFulfilled :: "url_parser \<Rightarrow> request \<Rightarrow> response \<Rightarrow> settlement" where
  "normalizer_onFulfilled URL q r =
     (if r_status r \<ge> 400 then Inl (Http (convertResponseError URL q r)) else Inr r)"

definition normalizer_onRejected :: "url_parser \<Rightarrow> request \<Rightarrow> rejection \<Rightarrow> settlement" where
  "normalizer_onRejected URL q e =
     (case e of Axios ax \<Rightarrow> Inl (Http (convertAxiosError URL q ax)) | _ \<Rightarrow> Inl e)"

subsection \<open>The unauthorized handler\<close>

text \<open>A call of \<open>onUnauthorized(statusCode, url)\<close>.\<close>

type_synonym callback = "int \<times> string option"

definition unauthorized_onFulfilled :: "bool \<Rightarrow> request \<Rightarrow> response \<Rightarrow> callback list \<times> settlement" where
  "unauthorized_onFulfilled enabled q r =
     (if enabled \<and> (r_status r = 401 \<or> r_status r = 403) then ([(r_status r, q_url q)], Inr r)
      else ([], Inr r))"

definition thrown_of :: "rejection \<Rightarrow> thrown" where
  "thrown_of e = (case e of Http h \<Rightarrow> Some h | _ \<Rightarrow> None)"

definition unauthorized_onRejected :: "bool \<Rightarrow> rejection \<Rightarrow> callback list \<times> settlement" where
  "unauthorized_onRejected enabled e =
     ((if enabled then
         (case e of
            Http h \<Rightarrow>
              if hasHttpErrorCode (thrown_of e) HTTP_UNAUTHORIZED
              then [(case he_statusCode h of None \<Rightarrow> 401 | Some s \<Rightarrow> s, he_url h)]
              else if hasHttpErrorCode (thrown_of e) HTTP_FORBIDDEN
              then [(case he_statusCode h of None \<Rightarrow> 403 | Some s \<Rightarrow> s, he_url h)]
              else []
          | _ \<Rightarrow> [])
       else []), Inl e)"

subsection \<open>Retry\<close>

record retry_config =
  rt_enabled :: bool
  maxRetries :: nat
  initialDelayMs :: rat
  maxDelayMs :: rat
  backoffMultiplier :: rat
  retryableStatusCodes :: "int list"
  retryOnNetworkError :: bool

definition DEFAULT_HTTP_RETRY_CONFIG :: retry_config where
  "DEFAULT_HTTP_RETRY_CONFIG =
     \<lparr>rt_enabled = True, maxRetries = 3, initialDelayMs = 1000, maxDelayMs = 30000,
      backoffMultiplier = 2, retryableStatusCodes = [408, 429, 500, 502, 503, 504],
      retryOnNetworkError = True\<rparr>"

definition isRetryableStatusCode :: "int \<Rightarrow> int list \<Rightarrow> bool" where
  "isRetryableStatusCode status codes =
     (if codes = [] then isRetriableHttpStatus status else status \<in> set codes)"

text \<open>\<open>rnd\<close> is the value of \<open>Math.random()\<close>.\<close>

definition calculateRetryDelayMs :: "rat \<Rightarrow> nat \<Rightarrow> retry_config \<Rightarrow> bool \<Rightarrow> rat" where
  "calculateRetryDelayMs rnd attempt cfg includeJitter =
     (let exponentialDelay = initialDelayMs cfg * backoffMultiplier cfg ^ attempt;
          cappedDelay = min exponentialDelay (maxDelayMs cfg)
      in if \<not> includeJitter then cappedDelay
         else of_int (floor (cappedDelay + cappedDelay * (1 / 2) * rnd)))"

definition isRetryableAxiosError :: "rejection \<Rightarrow> bool \<Rightarrow> bool" where
  "isRetryableAxiosError e onNetwork =
     (case e of
        Axios ax \<Rightarrow>
          if ax_code ax = ERR_CANCELED then False
          else if onNetwork \<and> (ax_code ax = ERR_NETWORK \<or> ax_code ax = ECONNABORTED \<or> ax_code ax = ETIMEDOUT)
          then True else False
      | _ \<Rightarrow> False)"

text \<open>
  What the retry interceptor does with a settled dispatch, given the retry count of the request:
  pass it on, or dispatch the request again with the count increased.
\<close>

datatype retry_decision = Pass settlement | Again nat

definition executeRetry :: "retry_config \<Rightarrow> nat \<Rightarrow> retry_decision" where
  "executeRetry cfg retryCount =
     (if retryCount \<ge> maxRetries cfg then Pass (Inl (Max_retries (maxRetries cfg)))
      else Again (retryCount + 1))"

definition retry_onFulfilled :: "retry_config \<Rightarrow> nat \<Rightarrow> response \<Rightarrow> retry_decision" where
  "retry_onFulfilled cfg retryCount r =
     (if \<not> rt_enabled cfg then Pass (Inr r)
      else if isRetryableStatusCode (r_status r) (retryableStatusCodes cfg)
      then (if retryCount \<ge> maxRetries cfg then Pass (Inr r) else executeRetry cfg retryCount)
      else Pass (Inr r))"

definition retry_onRejected :: "retry_config \<Rightarrow> nat \<Rightarrow> rejection \<Rightarrow> retry_decision" where
  "retry_onRejected cfg retryCount e =
     (if \<not> rt_enabled cfg then Pass (Inl e)
      else if \<not> isRetryableAxiosError e (retryOnNetworkError cfg) then Pass (Inl e)
      else if retryCount \<ge> maxRetries cfg then Pass (Inl e)
      else executeRetry cfg retryCount)"

definition retry_step :: "retry_config \<Rightarrow> nat \<Rightarrow> settlement \<Rightarrow> retry_decision" where
  "retry_step cfg n s = (case s of Inl e \<Rightarrow> retry_onRejected cfg n e | Inr r \<Rightarrow> retry_onFulfilled cfg n r)"

subsection \<open>The response chain\<close>

definition unauthorized_step :: "bool \<Rightarrow> request \<Rightarrow> settlement \<Rightarrow> callback list \<times> settlement" where
  "unauthorized_step enabled q s =
     (case s of Inl e \<Rightarrow> unauthorized_onRejected enabled e | Inr r \<Rightarrow> unauthorized_onFulfilled enabled q r)"

definition normalizer_step :: "url_parser \<Rightarrow> request \<Rightarrow> settlement \<Rightarrow> settlement" where
  "normalizer_step URL q s =
     (case s of Inl e \<Rightarrow> normalizer_onRejected URL q e | Inr r \<Rightarrow> normalizer_onFulfilled URL q r)"

record client =
  cl_retry :: retry_config
  cl_auth_enabled :: bool

lemma retry_step_Again: "retry_step cfg n s = Again k \<Longrightarrow> k = Suc n \<and> n < maxRetries cfg"
  by (auto simp: retry_step_def retry_onFulfilled_def retry_onRejected_def executeRetry_def
      split: sum.splits if_splits)

text \<open>
  \<open>instance.request(config)\<close> with retry count \<open>n\<close>: the network answers, the retry interceptor
  passes the answer on or waits for a whole new \<open>instance.request\<close> of the same config, and the
  outcome goes through the unauthorized handler and the normaliser. The result is the sequence of
  \<open>onUnauthorized\<close> calls, the number of dispatches and the outcome.
\<close>

function dispatch ::
  "client \<Rightarrow> url_parser \<Rightarrow> (nat \<Rightarrow> settlement) \<Rightarrow> request \<Rightarrow> nat \<Rightarrow> callback list \<times> nat \<times> settlement" where
  "dispatch cl URL net q n =
     (let (cbs, used, s) =
            (case retry_step (cl_retry cl) n (net n) of
               Pass s \<Rightarrow> ([], 1, s)
             | Again k \<Rightarrow> (let (c, u, s) = dispatch cl URL net q k in (c, Suc u, s)));
          (cbs', s') = unauthorized_step (cl_auth_enabled cl) q s
      in (cbs @ cbs', used, normalizer_step URL q s'))"
  by pat_completeness auto

termination dispatch
  by (relation "measure (\<lambda>(cl, URL, net, q, n). maxRetries (cl_retry cl) - n)")
    (auto dest!: retry_step_Again)

declare dispatch.simps [simp del]

subsection \<open>Properties of the response chain\<close>

lemma mapStatusToError_status [simp]: "he_statusCode (mapStatusToError s m u d) = Some s"
  by (simp add: mapStatusToError_def http_error_defs)

lemma unauthorized_step_snd [simp]: "snd (unauthorized_step en q s) = s"
  by (auto simp: unauthorized_step_def unauthorized_onFulfilled_def unauthorized_onRejected_def split: sum.splits)

lemma normalizer_step_idem [simp]: "normalizer_step URL q (normalizer_step URL q s) = normalizer_step URL q s"
  by (auto simp: normalizer_step_def normalizer_onFulfilled_def normalizer_onRejected_def
      split: sum.splits rejection.splits)

text \<open>C6 Normalised errors are classified by their status alone. A response with a status of 400 or more
  is always thrown as an HTTP error that carries that status, and every guard answers as the status says;
  a response below 400 passes unchanged.\<close>

theorem normalized_by_status:
  "normalizer_onFulfilled URL q r =
     (if r_status r < 400 then Inr r else Inl (Http (convertResponseError URL q r))) \<and>
   he_statusCode (convertResponseError URL q r) = Some (r_status r) \<and>
   (let h = Some (convertResponseError URL q r); s = r_status r
    in isAuthenticationError h = (s = 401 \<or> s = 403) \<and>
       isClientError h = (400 \<le> s \<and> s < 500) \<and>
       isServerError h = (s \<ge> 500) \<and>
       isRetryableHttpError h = (s \<ge> 500 \<or> s = 408 \<or> s = 429) \<and>
       isNonRetryableHttpError h = (400 \<le> s \<and> s < 500 \<and> s \<noteq> 408 \<and> s \<noteq> 429))"
  by (auto simp: normalizer_onFulfilled_def convertResponseError_def Let_def guard_defs mapStatusToError_def
      http_error_defs)

text \<open>
  Which dispatch decides: the first one the retry interceptor passes on.
\<close>

lemma dispatch_unfold:
  "dispatch cl URL net q n =
     (case retry_step (cl_retry cl) n (net n) of
        Pass s \<Rightarrow> (fst (unauthorized_step (cl_auth_enabled cl) q s), 1, normalizer_step URL q s)
      | Again k \<Rightarrow>
          (let d = dispatch cl URL net q (Suc n)
           in (fst d @ fst (unauthorized_step (cl_auth_enabled cl) q (snd (snd d))), Suc (fst (snd d)),
               normalizer_step URL q (snd (snd d)))))"
  by (subst dispatch.simps) (auto simp: case_prod_beta Let_def dest: retry_step_Again split: retry_decision.splits)

text \<open>The steps of a dispatch sequence that starts with retry count \<open>n\<close>.\<close>

definition retries_until :: "retry_config \<Rightarrow> (nat \<Rightarrow> settlement) \<Rightarrow> nat \<Rightarrow> nat \<Rightarrow> settlement \<Rightarrow> bool" where
  "retries_until cfg net n used s \<longleftrightarrow>
     (\<exists>k. used = Suc k \<and> (\<forall>i<k. retry_step cfg (n + i) (net (n + i)) = Again (n + i + 1)) \<and>
          retry_step cfg (n + k) (net (n + k)) = Pass s)"

lemma retries_until_Again:
  assumes "retry_step cfg n (net n) = Again (Suc n)" "retries_until cfg net (Suc n) used s"
  shows "retries_until cfg net n (Suc used) s"
proof -
  obtain k where k: "used = Suc k" "\<forall>i<k. retry_step cfg (Suc n + i) (net (Suc n + i)) = Again (Suc n + i + 1)"
    "retry_step cfg (Suc n + k) (net (Suc n + k)) = Pass s"
    using assms(2) by (auto simp: retries_until_def)
  have "retry_step cfg (n + i) (net (n + i)) = Again (n + i + 1)" if "i < Suc k" for i
    using that assms(1) k(2) by (cases i) auto
  with k show ?thesis by (auto simp: retries_until_def)
qed

lemma dispatch_deciding:
  assumes "n \<le> maxRetries (cl_retry cl)"
  shows "\<exists>s. retries_until (cl_retry cl) net n (fst (snd (dispatch cl URL net q n))) s \<and>
     snd (snd (dispatch cl URL net q n)) = normalizer_step URL q s \<and>
     fst (snd (dispatch cl URL net q n)) \<le> maxRetries (cl_retry cl) - n + 1"
  using assms
proof (induction "maxRetries (cl_retry cl) - n" arbitrary: n)
  case 0
  then have "\<exists>s. retry_step (cl_retry cl) n (net n) = Pass s"
    by (cases "retry_step (cl_retry cl) n (net n)") (auto dest: retry_step_Again)
  then show ?case by (subst (1 2 3) dispatch_unfold) (auto simp: retries_until_def)
next
  case (Suc m)
  show ?case
  proof (cases "retry_step (cl_retry cl) n (net n)")
    case (Pass s)
    then show ?thesis by (subst (1 2 3) dispatch_unfold) (auto simp: retries_until_def)
  next
    case (Again k)
    then have k: "k = Suc n" "n < maxRetries (cl_retry cl)" by (auto dest: retry_step_Again)
    then have "m = maxRetries (cl_retry cl) - Suc n" "Suc n \<le> maxRetries (cl_retry cl)" using Suc(2) by auto
    from Suc(1) [OF this] obtain s where
      s: "retries_until (cl_retry cl) net (Suc n) (fst (snd (dispatch cl URL net q (Suc n)))) s"
        "snd (snd (dispatch cl URL net q (Suc n))) = normalizer_step URL q s"
        "fst (snd (dispatch cl URL net q (Suc n))) \<le> maxRetries (cl_retry cl) - Suc n + 1" by blast
    have "dispatch cl URL net q n =
        (fst (dispatch cl URL net q (Suc n)) @
          fst (unauthorized_step (cl_auth_enabled cl) q (snd (snd (dispatch cl URL net q (Suc n))))),
         Suc (fst (snd (dispatch cl URL net q (Suc n)))), normalizer_step URL q s)"
      using Again k s(2) by (subst dispatch_unfold) (simp add: Let_def)
    moreover have "retries_until (cl_retry cl) net n (Suc (fst (snd (dispatch cl URL net q (Suc n))))) s"
      using Again k s(1) retries_until_Again by auto
    moreover have "Suc (fst (snd (dispatch cl URL net q (Suc n)))) \<le> maxRetries (cl_retry cl) - n + 1"
      using s(3) k(2) by linarith
    ultimately show ?thesis by auto
  qed
qed

text \<open>C7 Retrying is bounded and transparent. Whatever the network answers, a request is dispatched at most
  \<open>maxRetries + 1\<close> times; every dispatch but the last was answered with something retryable, and the
  caller gets the normalised outcome of the last one.\<close>

theorem dispatch_bounded:
  "\<exists>s. retries_until (cl_retry cl) net 0 (fst (snd (dispatch cl URL net q 0))) s \<and>
     snd (snd (dispatch cl URL net q 0)) = normalizer_step URL q s \<and>
     fst (snd (dispatch cl URL net q 0)) \<le> maxRetries (cl_retry cl) + 1"
  using dispatch_deciding [of 0 cl net URL q] by simp

definition unauthorized_outcome :: "settlement \<Rightarrow> bool" where
  "unauthorized_outcome s =
     (case s of Inl e \<Rightarrow> isAuthenticationError (thrown_of e) | Inr r \<Rightarrow> False)"

text \<open>
  Axios is configured with \<open>validateStatus: () => true\<close>, so it never rejects a response for its
  status: a rejection carries no response.
\<close>

definition no_status_rejection :: "settlement \<Rightarrow> bool" where
  "no_status_rejection s = (case s of Inl (Axios ax) \<Rightarrow> ax_response ax = None | _ \<Rightarrow> True)"

lemma unauthorized_callback_once:
  "no_status_rejection s \<Longrightarrow>
   length (fst (unauthorized_step True q s)) = (if unauthorized_outcome (normalizer_step URL q s) then 1 else 0)"
  by (auto simp: unauthorized_step_def unauthorized_onFulfilled_def unauthorized_onRejected_def no_status_rejection_def
      unauthorized_outcome_def normalizer_step_def normalizer_onFulfilled_def normalizer_onRejected_def
      thrown_of_def convertResponseError_def convertAxiosError_def mapStatusToError_def isAuthenticationError_def
      hasHttpErrorCode_def http_error_defs Let_def split: sum.splits rejection.splits option.splits)

lemma normalized_no_status_rejection: "no_status_rejection (normalizer_step URL q s)"
  by (auto simp: no_status_rejection_def normalizer_step_def normalizer_onFulfilled_def normalizer_onRejected_def
      split: sum.splits rejection.splits)

lemma retry_passes: "retry_step cfg n s = Pass s' \<Longrightarrow> no_status_rejection s \<Longrightarrow> no_status_rejection s'"
  by (auto simp: retry_step_def retry_onFulfilled_def retry_onRejected_def executeRetry_def no_status_rejection_def
      split: sum.splits if_splits)

lemma dispatch_callbacks:
  assumes "cl_auth_enabled cl" "\<forall>i. no_status_rejection (net i)" "n \<le> maxRetries (cl_retry cl)"
  shows "length (fst (dispatch cl URL net q n)) =
    (if unauthorized_outcome (snd (snd (dispatch cl URL net q n))) then fst (snd (dispatch cl URL net q n)) else 0)
    \<and> snd (snd (dispatch cl URL net q n)) = normalizer_step URL q (snd (snd (dispatch cl URL net q n)))"
  using assms(3)
proof (induction "maxRetries (cl_retry cl) - n" arbitrary: n rule: less_induct)
  case less
  show ?case
  proof (cases "retry_step (cl_retry cl) n (net n)")
    case (Pass s)
    then have "no_status_rejection s" using assms(2) retry_passes by blast
    from unauthorized_callback_once [OF this, of q URL] Pass assms(1) show ?thesis
      by (subst (1 2 3 4 5) dispatch_unfold) (simp split: if_splits)
  next
    case (Again k)
    then have k: "k = Suc n" "n < maxRetries (cl_retry cl)" by (auto dest: retry_step_Again)
    let ?d = "dispatch cl URL net q (Suc n)"
    have IH: "length (fst ?d) = (if unauthorized_outcome (snd (snd ?d)) then fst (snd ?d) else 0)"
      "snd (snd ?d) = normalizer_step URL q (snd (snd ?d))"
      using less(1) [of "Suc n"] k by auto
    have "no_status_rejection (snd (snd ?d))" using IH(2) normalized_no_status_rejection by metis
    from unauthorized_callback_once [OF this, of q URL] have
      "length (fst (unauthorized_step True q (snd (snd ?d)))) = (if unauthorized_outcome (snd (snd ?d)) then 1 else 0)"
      using IH(2) by simp
    with IH Again k assms(1) show ?thesis
      by (subst (1 2 3 4 5) dispatch_unfold) (simp add: Let_def)
  qed
qed

text \<open>The unauthorized callback is called once per dispatch, not once per request. If the request ends in
  a 401 or 403, \<open>onUnauthorized\<close> (and the transport's \<open>invalidate\<close>) is called as often as the request
  was dispatched: every nested retry passes the same error through the handler again. If it does not end
  so, the callback is not called.\<close>

theorem unauthorized_callbacks:
  assumes "cl_auth_enabled cl" "\<forall>i. no_status_rejection (net i)"
  shows "length (fst (dispatch cl URL net q 0)) =
    (if unauthorized_outcome (snd (snd (dispatch cl URL net q 0))) then fst (snd (dispatch cl URL net q 0)) else 0)"
  using dispatch_callbacks [OF assms, of 0 URL q] by simp

definition flaky_then_401 :: "nat \<Rightarrow> settlement" where
  "flaky_then_401 i = Inr \<lparr>r_status = (if i < 2 then 503 else 401), r_data = BOther\<rparr>"

theorem unauthorized_callbacks_witness:
  "length (fst (dispatch \<lparr>cl_retry = DEFAULT_HTTP_RETRY_CONFIG, cl_auth_enabled = True\<rparr> (\<lambda>u b. Some u)
      flaky_then_401 \<lparr>q_url = Some ''/x'', q_baseURL = None, q_method = None, q_timeout = None\<rparr> 0)) = 3"
proof -
  let ?cl = "\<lparr>cl_retry = DEFAULT_HTTP_RETRY_CONFIG, cl_auth_enabled = True\<rparr>"
  let ?q = "\<lparr>q_url = Some ''/x'', q_baseURL = None, q_method = None, q_timeout = None\<rparr>"
  let ?d = "dispatch ?cl (\<lambda>u b. Some u) flaky_then_401 ?q 0"
  have "length (fst ?d) = (if unauthorized_outcome (snd (snd ?d)) then fst (snd ?d) else 0)"
    by (rule unauthorized_callbacks) (simp_all add: no_status_rejection_def flaky_then_401_def)
  moreover have "unauthorized_outcome (snd (snd ?d)) \<and> fst (snd ?d) = 3"
    by (simp add: dispatch_unfold retry_step_def retry_onFulfilled_def isRetryableStatusCode_def flaky_then_401_def
        DEFAULT_HTTP_RETRY_CONFIG_def executeRetry_def normalizer_step_def normalizer_onFulfilled_def
        normalizer_onRejected_def unauthorized_outcome_def thrown_of_def convertResponseError_def
        mapStatusToError_def isAuthenticationError_def hasHttpErrorCode_def http_error_defs Let_def)
  ultimately show ?thesis by simp
qed

text \<open>Retry delays. With a non-negative delay, a multiplier of at least 1 and a random number in
  \<open>[0, 1)\<close>, the delay without jitter is non-negative, grows with the attempt and is capped by
  \<open>maxDelayMs\<close>; with jitter it is a whole number of milliseconds above that delay minus one and at
  most one and a half times it.\<close>

theorem retry_delay_bounds:
  assumes "initialDelayMs cfg \<ge> 0" "maxDelayMs cfg \<ge> 0" "backoffMultiplier cfg \<ge> 1" "0 \<le> rnd" "rnd < 1"
  shows "let d = calculateRetryDelayMs rnd n cfg False; j = calculateRetryDelayMs rnd n cfg True
     in 0 \<le> d \<and> d \<le> maxDelayMs cfg \<and> d \<le> calculateRetryDelayMs rnd (Suc n) cfg False \<and>
        j \<in> \<int> \<and> d - 1 < j \<and> j \<le> 3 / 2 * d"
proof -
  let ?d = "calculateRetryDelayMs rnd n cfg False"
  have p: "1 \<le> backoffMultiplier cfg ^ n" using assms(3) by (rule one_le_power)
  have d0: "0 \<le> ?d" "?d \<le> maxDelayMs cfg" using assms p by (auto simp: calculateRetryDelayMs_def Let_def)
  have "initialDelayMs cfg * backoffMultiplier cfg ^ n \<le> initialDelayMs cfg * backoffMultiplier cfg ^ Suc n"
    using assms p by (intro mult_left_mono power_increasing) auto
  then have "?d \<le> calculateRetryDelayMs rnd (Suc n) cfg False"
    by (auto simp: calculateRetryDelayMs_def Let_def min_le_iff_disj)
  have j: "calculateRetryDelayMs rnd n cfg True = of_int \<lfloor>?d + ?d * (1 / 2) * rnd\<rfloor>"
    by (simp add: calculateRetryDelayMs_def Let_def)
  have m: "0 \<le> ?d * rnd" "?d * rnd \<le> ?d" using d0(1) assms(4,5) by (auto intro: mult_left_le)
  have f: "of_int \<lfloor>?d + ?d * (1 / 2) * rnd\<rfloor> \<le> ?d + ?d * (1 / 2) * rnd"
    "?d + ?d * (1 / 2) * rnd < of_int \<lfloor>?d + ?d * (1 / 2) * rnd\<rfloor> + 1"
    using floor_correct [of "?d + ?d * (1 / 2) * rnd"] by (simp_all only: of_int_add of_int_1)
  have h: "?d * (1 / 2) * rnd = ?d * rnd / 2" by simp
  have "?d - 1 < of_int \<lfloor>?d + ?d * (1 / 2) * rnd\<rfloor>" "of_int \<lfloor>?d + ?d * (1 / 2) * rnd\<rfloor> \<le> 3 / 2 * ?d"
    using f m unfolding h by linarith+
  with d0 \<open>?d \<le> calculateRetryDelayMs rnd (Suc n) cfg False\<close> j show ?thesis by (simp add: Let_def)
qed

theorem retry_delay_bounds_witness:
  "calculateRetryDelayMs (1 / 3) 2 DEFAULT_HTTP_RETRY_CONFIG True \<le> 3 / 2 * 4000"
  using retry_delay_bounds [of DEFAULT_HTTP_RETRY_CONFIG "1 / 3" 2]
  by (simp add: DEFAULT_HTTP_RETRY_CONFIG_def calculateRetryDelayMs_def Let_def)

text \<open>The jitter is added after the cap, so the delay can exceed \<open>maxDelayMs\<close>.\<close>

lemma jitter_exceeds_cap:
  "calculateRetryDelayMs (1 / 2) 10 DEFAULT_HTTP_RETRY_CONFIG True > maxDelayMs DEFAULT_HTTP_RETRY_CONFIG"
  by (simp add: DEFAULT_HTTP_RETRY_CONFIG_def calculateRetryDelayMs_def Let_def)

end
