(* ===== verification/Http_Requests.thy ===== *)
theory Http_Requests
  imports Foundation_Prelude
begin

text \<open>
  The request side of the HTTP client: the headers interceptor
  (\<open>http/src/interceptors/request/headers-interceptor.ts\<close>), the authentication interceptor
  (\<open>request/auth-interceptor.ts\<close>) and the cleaning and serialisation of query parameters
  (\<open>request/params-interceptor.ts\<close>), composed in the order in which axios runs them (last registered
  first: authentication, parameters, headers). Strings are their UTF-8 bytes, so that
  \<open>encodeURIComponent\<close> works byte by byte. What the authentication transport and
  \<open>getAccessToken\<close> answer, and the generated request id, are arguments.
\<close>

subsection \<open>Headers\<close>

type_synonym headers = "(string, string) jmap"

text \<open>\<open>config.headers[k]\<close> in a condition: present and not empty.\<close>

definition has_header :: "string \<Rightarrow> headers \<Rightarrow> bool" where
  "has_header k hs \<longleftrightarrow> (case jm_get hs k of None \<Rightarrow> False | Some v \<Rightarrow> v \<noteq> [])"

datatype session_id = Session_text string | Session_function string

record client_headers =
  clientId :: "string option"
  clientVersion :: "string option"
  platform :: "string option"
  sessionId :: "session_id option"

text \<open>\<open>if (value && !headers[k]) headers[k] = value\<close>.\<close>

definition add_client_header :: "string \<Rightarrow> string option \<Rightarrow> headers \<Rightarrow> headers" where
  "add_client_header k v hs =
     (case v of None \<Rightarrow> hs | Some s \<Rightarrow> if s \<noteq> [] \<and> \<not> has_header k hs then jm_set k s hs else hs)"

definition add_session_header :: "session_id option \<Rightarrow> headers \<Rightarrow> headers" where
  "add_session_header sid hs =
     (case sid of
        None \<Rightarrow> hs
      | Some (Session_text s) \<Rightarrow>
          if s \<noteq> [] \<and> \<not> has_header ''X-Client-Session-ID'' hs then jm_set ''X-Client-Session-ID'' s hs else hs
      | Some (Session_function s) \<Rightarrow>
          if \<not> has_header ''X-Client-Session-ID'' hs then jm_set ''X-Client-Session-ID'' s hs else hs)"

definition headers_interceptor :: "client_headers option \<Rightarrow> string \<Rightarrow> headers \<Rightarrow> headers" where
  "headers_interceptor client generated hs =
     (let hs = (if has_header ''X-Request-ID'' hs then hs else jm_set ''X-Request-ID'' generated hs)
      in case client of
           None \<Rightarrow> hs
         | Some ch \<Rightarrow>
             add_session_header (sessionId ch)
               (add_client_header ''X-Client-Platform'' (platform ch)
                 (add_client_header ''X-Client-Version'' (clientVersion ch)
                   (add_client_header ''X-Client-ID'' (clientId ch) hs))))"

subsection \<open>Authentication\<close>

datatype transport =
    Anonymous
  | Cookie (ck_credentials: "bool option")
  | Bearer (br_scheme: "string option") (br_token: string) (br_credentials: "bool option")

text \<open>
  Where the credentials come from: the configured transport, which answers or throws, or
  \<open>getAccessToken\<close>, which is absent or answers null (\<open>Some None\<close>), answers a token, or throws
  (\<open>None\<close>).
\<close>

datatype auth_answer = From_transport "transport option" | From_getter "string option option"

record request_config =
  rq_headers :: headers
  rq_withCredentials :: "bool option"

definition auth_interceptor ::
  "bool \<Rightarrow> string option \<Rightarrow> auth_answer \<Rightarrow> request_config \<Rightarrow> request_config" where
  "auth_interceptor enabled tokenType answer cfg =
     (if \<not> enabled then cfg
      else if has_header ''Authorization'' (rq_headers cfg) then cfg
      else
        (case answer of
           From_transport None \<Rightarrow> cfg
         | From_transport (Some Anonymous) \<Rightarrow> cfg
         | From_transport (Some (Cookie wc)) \<Rightarrow>
             cfg\<lparr>rq_withCredentials := Some (case wc of None \<Rightarrow> True | Some b \<Rightarrow> b)\<rparr>
         | From_transport (Some (Bearer scheme tok wc)) \<Rightarrow>
             cfg\<lparr>rq_withCredentials := (case wc of None \<Rightarrow> rq_withCredentials cfg | Some b \<Rightarrow> Some b),
                 rq_headers := jm_set ''Authorization''
                   ((case scheme of Some sc \<Rightarrow> sc
                     | None \<Rightarrow> (case tokenType of Some t \<Rightarrow> t | None \<Rightarrow> ''Bearer'')) @ '' '' @ tok)
                   (rq_headers cfg)\<rparr>
         | From_getter None \<Rightarrow> cfg
         | From_getter (Some None) \<Rightarrow> cfg
         | From_getter (Some (Some tok)) \<Rightarrow>
             if tok = [] then cfg
             else cfg\<lparr>rq_headers := jm_set ''Authorization''
                   ((case tokenType of Some t \<Rightarrow> t | None \<Rightarrow> ''Bearer'') @ '' '' @ tok) (rq_headers cfg)\<rparr>))"

text \<open>The request interceptors in the order they run; parameters do not touch headers.\<close>

definition request_chain ::
  "bool \<Rightarrow> string option \<Rightarrow> auth_answer \<Rightarrow> client_headers option \<Rightarrow> string \<Rightarrow> request_config \<Rightarrow> request_config" where
  "request_chain enabled tokenType answer client generated cfg =
     (let cfg = auth_interceptor enabled tokenType answer cfg
      in cfg\<lparr>rq_headers := headers_interceptor client generated (rq_headers cfg)\<rparr>)"

text \<open>Adding a header never disturbs one that is already there.\<close>

definition keeps_headers :: "headers \<Rightarrow> headers \<Rightarrow> bool" where
  "keeps_headers hs hs' \<longleftrightarrow> (\<forall>k. has_header k hs \<longrightarrow> jm_get hs' k = jm_get hs k)"

lemma keeps_refl [simp]: "keeps_headers hs hs"
  by (simp add: keeps_headers_def)

lemma keeps_trans: "keeps_headers a b \<Longrightarrow> keeps_headers b c \<Longrightarrow> keeps_headers a c"
  by (simp add: keeps_headers_def has_header_def)

lemma keeps_set: "\<not> has_header k hs \<Longrightarrow> keeps_headers hs (jm_set k v hs)"
  by (auto simp: keeps_headers_def)

lemma keeps_client: "keeps_headers hs (add_client_header k v hs)"
  by (auto simp: add_client_header_def keeps_set split: option.splits)

lemma keeps_session: "keeps_headers hs (add_session_header v hs)"
  by (auto simp: add_session_header_def keeps_set split: option.splits session_id.splits)

lemma keeps_clients:
  "keeps_headers hs (add_session_header a (add_client_header k3 v3 (add_client_header k2 v2 (add_client_header k1 v1 hs))))"
  by (meson keeps_trans keeps_client keeps_session)

lemma keeps_interceptor: "keeps_headers hs (headers_interceptor c g hs)"
proof -
  have "keeps_headers hs (if has_header ''X-Request-ID'' hs then hs else jm_set ''X-Request-ID'' g hs)"
    by (simp add: keeps_set)
  then show ?thesis unfolding headers_interceptor_def Let_def
    by (cases c) (auto intro: keeps_trans keeps_clients)
qed

lemma keeps_auth: "keeps_headers (rq_headers cfg) (rq_headers (auth_interceptor e t a cfg))"
  by (auto simp: auth_interceptor_def keeps_set split: auth_answer.splits option.splits transport.splits)

lemma has_request_id:
  assumes "g \<noteq> []"
  shows "has_header ''X-Request-ID'' (headers_interceptor c g hs)"
proof -
  let ?hs = "if has_header ''X-Request-ID'' hs then hs else jm_set ''X-Request-ID'' g hs"
  have h: "has_header ''X-Request-ID'' ?hs" using assms by (simp add: has_header_def)
  have "keeps_headers ?hs (headers_interceptor c g hs)"
    unfolding headers_interceptor_def Let_def
    by (cases c) (auto intro: keeps_clients)
  with h show ?thesis by (auto simp: keeps_headers_def has_header_def)
qed

text \<open>Request interceptors only add headers. Whatever the authentication answers, every non-empty header
  of the request is kept, a non-empty \<open>X-Request-ID\<close> is present afterwards, and running the chain again
  for a retry, with any other answer and any other generated id, keeps the id and every header set
  by the first run.\<close>

theorem request_chain_adds:
  assumes "generated \<noteq> []"
  shows "let c1 = request_chain en tt ans cl generated cfg; c2 = request_chain en tt ans' cl generated' c1
     in keeps_headers (rq_headers cfg) (rq_headers c1) \<and>
        has_header ''X-Request-ID'' (rq_headers c1) \<and>
        keeps_headers (rq_headers c1) (rq_headers c2) \<and>
        jm_get (rq_headers c2) ''X-Request-ID'' = jm_get (rq_headers c1) ''X-Request-ID''"
proof -
  have k: "keeps_headers (rq_headers c) (rq_headers (request_chain en tt a cl g c))" for a g c
    unfolding request_chain_def Let_def
    by (auto intro: keeps_trans [OF keeps_auth keeps_interceptor])
  have r: "has_header ''X-Request-ID'' (rq_headers (request_chain en tt ans cl generated cfg))"
    using assms by (simp add: request_chain_def Let_def has_request_id)
  with k show ?thesis by (simp add: Let_def keeps_headers_def)
qed

theorem request_chain_adds_witness:
  "jm_get (rq_headers (request_chain True None (From_getter (Some (Some ''t2''))) None ''id2''
      (request_chain True None (From_getter (Some (Some ''t1''))) None ''id1''
        \<lparr>rq_headers = [(''Accept'', ''x'')], rq_withCredentials = None\<rparr>))) ''X-Request-ID'' = Some ''id1''"
proof -
  let ?c1 = "request_chain True None (From_getter (Some (Some ''t1''))) None ''id1''
        \<lparr>rq_headers = [(''Accept'', ''x'')], rq_withCredentials = None\<rparr>"
  have "jm_get (rq_headers ?c1) ''X-Request-ID'' = Some ''id1''" by code_simp
  then show ?thesis
    using request_chain_adds [OF list.distinct(2) [of "CHR ''i''" "''d1''"], of True None "From_getter (Some (Some ''t1''))" None
      "\<lparr>rq_headers = [(''Accept'', ''x'')], rq_withCredentials = None\<rparr>" "From_getter (Some (Some ''t2''))" "''id2''"]
    by (simp only: Let_def)
qed

subsection \<open>Query parameters\<close>

text \<open>
  A parameter value: null or undefined, a scalar with its \<open>String\<close> rendering, an array with the
  renderings of its elements, or an object with its JSON text.
\<close>

datatype param = PNullish | PScalar string | PArray "string list" | PJson string

datatype array_format = BRACKETS | INDICES | REPEAT | COMMA

type_synonym params = "(string \<times> param) list"

definition cleanParams :: "params \<Rightarrow> params option" where
  "cleanParams ps =
     (let cleaned = filter (\<lambda>(k, v). v \<noteq> PNullish) ps in if length cleaned > 0 then Some cleaned else None)"

text \<open>\<open>encodeURIComponent\<close> on UTF-8 bytes.\<close>

definition unreserved :: "char \<Rightarrow> bool" where
  "unreserved c \<longleftrightarrow> is_alpha c \<or> is_digit c \<or> c \<in> set ''-_.!~*()'' \<or> c = CHR 0x27"

definition hex_digit :: "nat \<Rightarrow> char" where
  "hex_digit n = (if n < 10 then char_of (48 + n) else char_of (55 + n))"

definition hex_value :: "char \<Rightarrow> nat" where
  "hex_value c = (let n = of_char c in if n < 58 then n - 48 else n - 55)"

definition encode_char :: "char \<Rightarrow> string" where
  "encode_char c =
     (if unreserved c then [c]
      else [CHR ''%'', hex_digit (of_char c div 16), hex_digit (of_char c mod 16)])"

definition encodeURIComponent :: "string \<Rightarrow> string" where
  "encodeURIComponent s = concat (map encode_char s)"

definition serializeArrayParam :: "string \<Rightarrow> string list \<Rightarrow> array_format \<Rightarrow> string" where
  "serializeArrayParam key values fmt =
     (let ek = encodeURIComponent key
      in case fmt of
           BRACKETS \<Rightarrow> join ''&'' (map (\<lambda>v. ek @ ''[]='' @ encodeURIComponent v) values)
         | INDICES \<Rightarrow> join ''&'' (map (\<lambda>(i, v). ek @ ''['' @ show_nat i @ '']='' @ encodeURIComponent v)
                        (enumerate 0 values))
         | COMMA \<Rightarrow> ek @ ''='' @ join '','' (map encodeURIComponent values)
         | REPEAT \<Rightarrow> join ''&'' (map (\<lambda>v. ek @ ''='' @ encodeURIComponent v) values))"

text \<open>What the loop pushes for one entry.\<close>

definition param_parts :: "bool \<Rightarrow> array_format \<Rightarrow> string \<times> param \<Rightarrow> string list" where
  "param_parts removeNullish fmt e =
     (case e of (key, v) \<Rightarrow>
       (case v of
          PNullish \<Rightarrow> if removeNullish then [] else [encodeURIComponent key @ ''='']
        | PArray vs \<Rightarrow> if length vs > 0 then [serializeArrayParam key vs fmt] else []
        | PJson s \<Rightarrow> [encodeURIComponent key @ ''='' @ encodeURIComponent s]
        | PScalar s \<Rightarrow> [encodeURIComponent key @ ''='' @ encodeURIComponent s]))"

definition serializeParams :: "bool \<Rightarrow> array_format \<Rightarrow> params \<Rightarrow> string" where
  "serializeParams removeNullish fmt ps = join ''&'' (concat (map (param_parts removeNullish fmt) ps))"

text \<open>The receiving side: split at \<open>&\<close>, at the first \<open>=\<close>, and decode.\<close>

fun pct_decode :: "string \<Rightarrow> string" where
  "pct_decode (c # s) =
     (if c = CHR ''%'' then
        (case s of a # b # t \<Rightarrow> char_of (16 * hex_value a + hex_value b) # pct_decode t | _ \<Rightarrow> [])
      else c # pct_decode s)"
| "pct_decode [] = []"

definition parse_pair :: "string \<Rightarrow> string \<times> string" where
  "parse_pair s =
     (pct_decode (takeWhile (\<lambda>c. c \<noteq> CHR ''='') s), pct_decode (drop 1 (dropWhile (\<lambda>c. c \<noteq> CHR ''='') s)))"

definition parse_query :: "string \<Rightarrow> (string \<times> string) list" where
  "parse_query s = (if s = [] then [] else map parse_pair (split_on (CHR ''&'') s))"

text \<open>The pairs an entry stands for.\<close>

definition param_pairs :: "bool \<Rightarrow> array_format \<Rightarrow> string \<times> param \<Rightarrow> (string \<times> string) list" where
  "param_pairs removeNullish fmt e =
     (case e of (key, v) \<Rightarrow>
       (case v of
          PNullish \<Rightarrow> if removeNullish then [] else [(key, [])]
        | PArray vs \<Rightarrow>
            (case fmt of
               BRACKETS \<Rightarrow> map (\<lambda>v. (key @ ''[]'', v)) vs
             | INDICES \<Rightarrow> map (\<lambda>(i, v). (key @ ''['' @ show_nat i @ '']'', v)) (enumerate 0 vs)
             | COMMA \<Rightarrow> if vs = [] then [] else [(key, join '','' vs)]
             | REPEAT \<Rightarrow> map (\<lambda>v. (key, v)) vs)
        | PJson s \<Rightarrow> [(key, s)]
        | PScalar s \<Rightarrow> [(key, s)]))"

lemma hex_value_digit [simp]: "n < 16 \<Longrightarrow> hex_value (hex_digit n) = n"
  by (auto simp: hex_value_def hex_digit_def of_char_of Let_def)

lemma unreserved_not [simp]:
  "unreserved c \<Longrightarrow> c \<noteq> CHR ''%''" "unreserved c \<Longrightarrow> c \<noteq> CHR ''=''" "unreserved c \<Longrightarrow> c \<noteq> CHR ''&''"
  by (auto simp: unreserved_def is_alpha_def is_digit_def char_between_def)

lemma of_char_less: "(of_char c :: nat) < 256"
  using of_char_mod_256 [of c] by (metis mod_less_divisor zero_less_numeral of_char_of)

lemma nibbles: "(of_char c :: nat) div 16 < 16" "(of_char c :: nat) mod 16 < 16"
  using of_char_less [of c] by (auto intro: less_mult_imp_div_less)

lemma pct_decode_char: "pct_decode (encode_char c @ s) = c # pct_decode s"
proof (cases "unreserved c")
  case True
  then show ?thesis by (simp add: encode_char_def)
next
  case False
  note nibbles [of c]
  moreover have "16 * ((of_char c :: nat) div 16) + of_char c mod 16 = of_char c" by simp
  ultimately show ?thesis using False by (simp add: encode_char_def)
qed

lemma pct_decode_encode: "pct_decode (encodeURIComponent s @ t) = s @ pct_decode t"
  by (induction s) (simp_all add: encodeURIComponent_def pct_decode_char)

lemma hex_digit_chars: "n < 16 \<Longrightarrow> hex_digit n \<notin> set ''&=,%''"
  by (auto simp: hex_digit_def char_of_eq_iff take_bit_eq_mod)

lemma encode_char_chars: "c \<in> set (encode_char d) \<Longrightarrow> c \<noteq> CHR ''&'' \<and> c \<noteq> CHR ''=''"
  using hex_digit_chars [OF nibbles(1) [of d]] hex_digit_chars [OF nibbles(2) [of d]] unreserved_not [of d]
  by (auto simp: encode_char_def split: if_splits)

lemma encode_chars: "c \<in> set (encodeURIComponent s) \<Longrightarrow> c \<noteq> CHR ''&'' \<and> c \<noteq> CHR ''=''"
  using encode_char_chars by (auto simp: encodeURIComponent_def)

text \<open>A key text and a value text with nothing to escape between them are read back as a pair.\<close>

lemma pct_decode_encode_Nil [simp]: "pct_decode (encodeURIComponent s) = s"
  using pct_decode_encode [of s "[]"] by simp

lemma parse_pair_parts:
  assumes "CHR ''='' \<notin> set k"
  shows "parse_pair (k @ CHR ''='' # v) = (pct_decode k, pct_decode v)"
proof -
  have "takeWhile (\<lambda>c. c \<noteq> CHR ''='') (k @ CHR ''='' # v) = k"
    and "dropWhile (\<lambda>c. c \<noteq> CHR ''='') (k @ CHR ''='' # v) = CHR ''='' # v"
    using assms by (simp_all add: takeWhile_append dropWhile_append)
  then show ?thesis by (simp add: parse_pair_def)
qed

lemma show_nat_plain: "c \<in> set (show_nat n) \<Longrightarrow> c \<noteq> CHR ''='' \<and> c \<noteq> CHR ''&'' \<and> c \<noteq> CHR ''%''"
  using show_nat_digits [of c n] by (auto simp: is_digit_def char_between_def)

lemma pct_decode_show: "pct_decode (show_nat n @ t) = show_nat n @ pct_decode t"
proof -
  have "CHR ''%'' \<notin> set s \<Longrightarrow> pct_decode (s @ t) = s @ pct_decode t" for s by (induction s) auto
  with show_nat_plain show ?thesis by blast
qed

lemma pct_decode_join:
  "pct_decode (join '','' (map encodeURIComponent vs)) = join '','' vs"
proof (induction vs rule: induct_list012)
  case (3 x y vs)
  then show ?case by (simp add: pct_decode_encode)
qed simp_all

definition plain_part :: "string \<Rightarrow> bool" where
  "plain_part s \<longleftrightarrow> s \<noteq> [] \<and> CHR ''&'' \<notin> set s"

text \<open>The list of single parts an entry contributes, before they are joined.\<close>

definition flat_parts :: "bool \<Rightarrow> array_format \<Rightarrow> string \<times> param \<Rightarrow> string list" where
  "flat_parts rn fmt e =
     (case e of (key, v) \<Rightarrow> let ek = encodeURIComponent key in
       (case v of
          PNullish \<Rightarrow> if rn then [] else [ek @ ''='']
        | PArray vs \<Rightarrow>
            (case fmt of
               BRACKETS \<Rightarrow> map (\<lambda>v. ek @ ''[]='' @ encodeURIComponent v) vs
             | INDICES \<Rightarrow> map (\<lambda>(i, v). ek @ ''['' @ show_nat i @ '']='' @ encodeURIComponent v) (enumerate 0 vs)
             | COMMA \<Rightarrow> if vs = [] then [] else [ek @ ''='' @ join '','' (map encodeURIComponent vs)]
             | REPEAT \<Rightarrow> map (\<lambda>v. ek @ ''='' @ encodeURIComponent v) vs)
        | PJson s \<Rightarrow> [ek @ ''='' @ encodeURIComponent s]
        | PScalar s \<Rightarrow> [ek @ ''='' @ encodeURIComponent s]))"

lemma join_append: "xs \<noteq> [] \<Longrightarrow> ys \<noteq> [] \<Longrightarrow> join sep (xs @ ys) = join sep xs @ sep @ join sep ys"
  by (induction sep xs rule: join.induct) (auto simp: join_Cons)

lemma param_parts_flat:
  "param_parts rn fmt e = (if flat_parts rn fmt e = [] then [] else [join ''&'' (flat_parts rn fmt e)])"
  by (auto simp: param_parts_def flat_parts_def serializeArrayParam_def Let_def enumerate_eq_zip
      split: prod.splits param.splits array_format.splits)

lemma join_regroup:
  assumes "join sep P = join sep F" "P = [] \<longleftrightarrow> F = []"
  shows "join sep ((if fe = [] then [] else [join sep fe]) @ P) = join sep (fe @ F)"
proof (cases "fe = [] \<or> F = []")
  case True
  with assms show ?thesis by auto
next
  case False
  with assms show ?thesis by (simp add: join_append join_Cons)
qed

lemma parts_Nil: "concat (map (param_parts rn fmt) ps) = [] \<longleftrightarrow> concat (map (flat_parts rn fmt) ps) = []"
  by (induction ps) (simp_all add: param_parts_flat)

lemma join_parts:
  "join ''&'' (concat (map (param_parts rn fmt) ps)) = join ''&'' (concat (map (flat_parts rn fmt) ps))"
proof (induction ps)
  case (Cons e ps)
  from join_regroup [OF this parts_Nil, of "flat_parts rn fmt e"] show ?case
    by (simp only: list.map concat.simps param_parts_flat [of rn fmt e])
qed simp

lemma encode_no_amp: "CHR ''&'' \<notin> set (encodeURIComponent s)" "CHR ''='' \<notin> set (encodeURIComponent s)"
  using encode_chars by blast+

lemma flat_parts_plain: "\<forall>p\<in>set (flat_parts rn fmt e). plain_part p"
proof -
  have "CHR ''&'' \<notin> set (join '','' (map encodeURIComponent vs))" for vs
    using set_join_subset [of "'',''" "map encodeURIComponent vs"] encode_no_amp by fastforce
  moreover have "CHR ''&'' \<notin> set (show_nat n)" for n using show_nat_plain by blast
  ultimately show ?thesis using encode_no_amp(1)
    by (cases e) (auto simp: flat_parts_def plain_part_def Let_def split: param.splits array_format.splits)
qed

lemma flat_parts_pairs: "map parse_pair (flat_parts rn fmt e) = param_pairs rn fmt e"
proof -
  have k: "parse_pair (encodeURIComponent key @ CHR ''='' # v) = (key, pct_decode v)" for key v
    using encode_no_amp(2) by (simp add: parse_pair_parts)
  have b: "parse_pair (encodeURIComponent key @ ''[]='' @ v) = (key @ ''[]'', pct_decode v)" for key v
    using parse_pair_parts [of "encodeURIComponent key @ ''[]''" v] encode_no_amp(2)
    by (simp add: pct_decode_encode)
  have i: "parse_pair (encodeURIComponent key @ ''['' @ show_nat n @ '']='' @ v) = (key @ ''['' @ show_nat n @ '']'', pct_decode v)"
    for key n v
    using parse_pair_parts [of "encodeURIComponent key @ ''['' @ show_nat n @ '']''" v] encode_no_amp(2) show_nat_plain [of _ n]
    by (auto simp: pct_decode_encode pct_decode_show)
  show ?thesis using k b i
    by (auto simp: flat_parts_def param_pairs_def Let_def pct_decode_join split: prod.splits param.splits array_format.splits)
qed

text \<open>Query parameters survive the wire. Whatever bytes keys and values contain (including \<open>&\<close>, \<open>=\<close>,
  \<open>%\<close> and \<open>,\<close>), and in every array format, splitting the serialised query at \<open>&\<close> and \<open>=\<close> and decoding
  gives back exactly the pairs the parameters stand for, in order; the comma format merges an array
  into the joined text of its elements.\<close>

theorem params_roundtrip:
  "parse_query (serializeParams rn fmt ps) = concat (map (param_pairs rn fmt) ps)"
proof -
  let ?f = "concat (map (flat_parts rn fmt) ps)"
  have p: "\<forall>p\<in>set ?f. plain_part p" using flat_parts_plain by fastforce
  have m: "map parse_pair ?f = concat (map (param_pairs rn fmt) ps)"
    by (induction ps) (simp_all add: flat_parts_pairs)
  show ?thesis
  proof (cases "?f = []")
    case True
    then have "join ''&'' ?f = []" by (simp only: join.simps)
    with m True show ?thesis by (simp only: serializeParams_def join_parts parse_query_def list.map simp_thms if_True)
  next
    case False
    then have "join ''&'' ?f \<noteq> []" using p by (intro join_neq_Nil) (auto simp: plain_part_def)
    moreover have "split_on (CHR ''&'') (join ''&'' ?f) = ?f"
      using False p by (intro split_on_join) (auto simp: plain_part_def)
    ultimately show ?thesis using m by (simp add: serializeParams_def join_parts parse_query_def)
  qed
qed

end
