(* ===== verification/Http_Instances.thy ===== *)
theory Http_Instances
  imports Http_Errors
begin

text \<open>
  The manager of named HTTP instances (\<open>http/src/instance/instance-manager.ts\<close>). An axios instance
  is its number; \<open>live\<close> is the list of the numbers whose interceptors are registered, which
  \<open>setupInterceptors\<close> extends and \<open>removeInterceptors\<close> shrinks. The configuration is its base URL
  and its signature, a string that \<open>createConfigSignature\<close> computes.
\<close>

record managed =
  mg_instance :: nat
  mg_signature :: string

record manager =
  instances :: "(string, managed) jmap"
  defaultKey :: "string option"
  live :: "nat list"
  fresh :: nat

definition new_manager :: manager where
  "new_manager = \<lparr>instances = [], defaultKey = None, live = [], fresh = 0\<rparr>"

text \<open>\<open>createConfiguredAxiosInstance\<close> and \<open>setupInterceptors\<close>: a new instance with live interceptors.\<close>

definition setup_instance :: "string \<Rightarrow> manager \<Rightarrow> managed \<times> manager" where
  "setup_instance signature s =
     (\<lparr>mg_instance = fresh s, mg_signature = signature\<rparr>,
      s\<lparr>live := live s @ [fresh s], fresh := Suc (fresh s)\<rparr>)"

definition remove_interceptors :: "managed \<Rightarrow> manager \<Rightarrow> manager" where
  "remove_interceptors m s = s\<lparr>live := filter (\<lambda>i. i \<noteq> mg_instance m) (live s)\<rparr>"

definition createInstance ::
  "string \<Rightarrow> string \<Rightarrow> string option \<Rightarrow> bool \<Rightarrow> manager \<Rightarrow> (http_error + managed) \<times> manager" where
  "createInstance baseUrl signature key setAsDefault s =
     (let k = (case key of None \<Rightarrow> baseUrl | Some k \<Rightarrow> k)
      in case jm_get (instances s) k of
           Some m \<Rightarrow>
             if mg_signature m \<noteq> signature
             then (Inl (HttpConfigError (''Instance \"'' @ k @ ''\" already exists with a different configuration'')), s)
             else (Inr m, s)
         | None \<Rightarrow>
             if baseUrl = [] then (Inl (HttpConfigError ''baseUrl is required''), s)
             else
               (let (m, s) = setup_instance signature s;
                    s = s\<lparr>instances := jm_set k m (instances s)\<rparr>
                in (Inr m, if setAsDefault \<or> defaultKey s = None then s\<lparr>defaultKey := Some k\<rparr> else s)))"

definition getInstance :: "string \<Rightarrow> manager \<Rightarrow> managed option" where
  "getInstance k s = jm_get (instances s) k"

definition getDefaultInstance :: "manager \<Rightarrow> http_error + managed" where
  "getDefaultInstance s =
     (case defaultKey s of
        None \<Rightarrow> Inl (HttpNotInitializedError (Some ''getDefaultInstance''))
      | Some k \<Rightarrow>
          (case jm_get (instances s) k of
             None \<Rightarrow> Inl (HttpNotInitializedError (Some ''getDefaultInstance''))
           | Some m \<Rightarrow> Inr m))"

definition hasDefaultInstance :: "manager \<Rightarrow> bool" where
  "hasDefaultInstance s \<longleftrightarrow> (case defaultKey s of None \<Rightarrow> False | Some k \<Rightarrow> jm_has (instances s) k)"

definition removeInstance :: "string \<Rightarrow> manager \<Rightarrow> bool \<times> manager" where
  "removeInstance k s0 =
     (let s = (case jm_get (instances s0) k of None \<Rightarrow> s0 | Some m \<Rightarrow> remove_interceptors m s0);
          removed = jm_has (instances s) k;
          s = s\<lparr>instances := jm_delete k (instances s)\<rparr>;
          s = (if Some k = defaultKey s
               then s\<lparr>defaultKey := (case jm_keys (instances s) of [] \<Rightarrow> None | k' # _ \<Rightarrow> Some k')\<rparr>
               else s)
      in (removed, s))"

definition setDefaultInstance :: "string \<Rightarrow> manager \<Rightarrow> (http_error + unit) \<times> manager" where
  "setDefaultInstance k s =
     (if \<not> jm_has (instances s) k
      then (Inl (HttpNotInitializedError (Some (''setDefaultInstance: '' @ k))), s)
      else (Inr (), s\<lparr>defaultKey := Some k\<rparr>))"

definition getInstanceKeys :: "manager \<Rightarrow> string list" where
  "getInstanceKeys s = jm_keys (instances s)"

definition manager_clear :: "manager \<Rightarrow> manager" where
  "manager_clear s =
     (fold (\<lambda>e s. remove_interceptors (snd e) s) (instances s) s)\<lparr>instances := [], defaultKey := None\<rparr>"

definition manager_size :: "manager \<Rightarrow> nat" where
  "manager_size s = length (instances s)"

subsection \<open>Invariant\<close>

definition manager_inv :: "manager \<Rightarrow> bool" where
  "manager_inv s \<longleftrightarrow>
     jm_ok (instances s) \<and>
     distinct (live s) \<and>
     distinct (map (mg_instance \<circ> snd) (instances s)) \<and>
     set (live s) = set (map (mg_instance \<circ> snd) (instances s)) \<and>
     (\<forall>i\<in>set (live s). i < fresh s) \<and>
     (case defaultKey s of None \<Rightarrow> instances s = [] | Some k \<Rightarrow> jm_get (instances s) k \<noteq> None)"

datatype manager_op =
    Create string string "string option" bool
  | Remove string
  | Set_default string
  | Clear

fun manager_step :: "manager_op \<Rightarrow> manager \<Rightarrow> manager" where
  "manager_step (Create b sig k d) s = snd (createInstance b sig k d s)"
| "manager_step (Remove k) s = snd (removeInstance k s)"
| "manager_step (Set_default k) s = snd (setDefaultInstance k s)"
| "manager_step Clear s = manager_clear s"

lemma manager_inv_create: "manager_inv s \<Longrightarrow> manager_inv (snd (createInstance b sig key d s))"
proof -
  assume inv: "manager_inv s"
  define k where "k = (case key of None \<Rightarrow> b | Some k \<Rightarrow> k)"
  show ?thesis
  proof (cases "jm_get (instances s) k = None \<and> b \<noteq> []")
    case False
    then show ?thesis using inv
      by (auto simp: createInstance_def Let_def simp flip: k_def split: option.splits)
  next
    case True
    have "snd (createInstance b sig key d s) =
        s\<lparr>live := live s @ [fresh s], fresh := Suc (fresh s),
          instances := instances s @ [(k, \<lparr>mg_instance = fresh s, mg_signature = sig\<rparr>)],
          defaultKey := (if d \<or> defaultKey s = None then Some k else defaultKey s)\<rparr>"
      using True by (auto simp: createInstance_def Let_def setup_instance_def jm_set_same_snoc simp flip: k_def)
    moreover have "k \<notin> fst ` set (instances s)" using True by (simp add: jm_get_None_iff)
    moreover have "jm_get (instances s @ [(k, m)]) k' = (if k' = k then Some m else jm_get (instances s) k')" for k' m
      using True jm_set_same_snoc [of "instances s" k m] jm_get_set [of k m "instances s" k'] by simp
    moreover have "mg_instance (snd e) < fresh s" if "e \<in> set (instances s)" for e
      using inv that by (auto simp: manager_inv_def)
    then have "mg_instance (snd e) < Suc (fresh s) \<and> mg_instance (snd e) \<noteq> fresh s" if "e \<in> set (instances s)" for e
      using that by (simp add: less_Suc_eq order_less_imp_not_eq)
    ultimately show ?thesis using inv
      by (fastforce simp: manager_inv_def split: option.splits)
  qed
qed

lemma first_key:
  "case (case jm_keys m of [] \<Rightarrow> None | k # _ \<Rightarrow> Some k) of None \<Rightarrow> m = [] | Some k \<Rightarrow> jm_get m k \<noteq> None"
  by (cases m) (auto simp: jm_get_Cons)

lemma manager_inv_remove: "manager_inv s \<Longrightarrow> manager_inv (snd (removeInstance k s))"
proof -
  assume inv: "manager_inv s"
  let ?is = "jm_delete k (instances s)"
  have ok: "jm_ok ?is" "distinct (map (mg_instance \<circ> snd) ?is)"
    using inv by (auto simp: manager_inv_def jm_delete_def distinct_map_filter simp del: map_map)
  have live: "set (map (mg_instance \<circ> snd) ?is) =
      (case jm_get (instances s) k of None \<Rightarrow> set (live s) | Some m \<Rightarrow> set (live s) - {mg_instance m})"
  proof (cases "jm_get (instances s) k")
    case None
    then show ?thesis using inv by (simp add: manager_inv_def)
  next
    case (Some m)
    then have "(k, m) \<in> set (instances s)" by (rule jm_get_Some_in)
    moreover have "jm_ok (instances s)" "inj_on (mg_instance \<circ> snd) (set (instances s))"
      using inv by (auto simp: manager_inv_def distinct_map)
    ultimately have "e \<in> set (instances s) \<Longrightarrow> fst e \<noteq> k \<longleftrightarrow> mg_instance (snd e) \<noteq> mg_instance m" for e
      by (metis comp_apply eq_key_imp_eq_value inj_on_def prod.collapse snd_conv fst_conv)
    then have "{e \<in> set (instances s). fst e \<noteq> k} = {e \<in> set (instances s). (mg_instance \<circ> snd) e \<noteq> mg_instance m}"
      by auto
    moreover have "f ` {e \<in> A. f e \<noteq> c} = f ` A - {c}" for f :: "string \<times> managed \<Rightarrow> nat" and A c by auto
    ultimately show ?thesis using Some inv by (simp add: manager_inv_def jm_delete_def del: o_apply)
  qed
  have def: "case (if Some k = defaultKey s then (case jm_keys ?is of [] \<Rightarrow> None | k' # _ \<Rightarrow> Some k') else defaultKey s) of
      None \<Rightarrow> ?is = [] | Some k' \<Rightarrow> jm_get ?is k' \<noteq> None"
  proof (cases "Some k = defaultKey s")
    case True
    then show ?thesis using first_key [of ?is] by simp
  next
    case False
    then show ?thesis using inv by (auto simp: manager_inv_def jm_delete_def split: option.splits)
        (metis jm_delete_def jm_get_delete option.distinct(1))
  qed
  show ?thesis
    using inv ok live def
    by (auto simp: removeInstance_def Let_def remove_interceptors_def manager_inv_def split: option.splits)
qed

lemma live_after_clear:
  "live (fold (\<lambda>e s. remove_interceptors (snd e) s) es s) =
     filter (\<lambda>i. i \<notin> set (map (mg_instance \<circ> snd) es)) (live s)"
proof (induction es arbitrary: s)
  case (Cons e es)
  then show ?case by (auto simp: remove_interceptors_def intro: filter_cong)
qed simp

lemma manager_inv_clear: "manager_inv s \<Longrightarrow> manager_inv (manager_clear s)"
proof -
  assume inv: "manager_inv s"
  then have "live (manager_clear s) = []"
    by (simp add: manager_clear_def live_after_clear manager_inv_def filter_empty_conv)
  then show ?thesis by (simp add: manager_inv_def manager_clear_def)
qed

lemma manager_inv_step: "manager_inv s \<Longrightarrow> manager_inv (manager_step op s)"
proof (cases op)
  case (Set_default k)
  then show "manager_inv s \<Longrightarrow> ?thesis"
    by (cases "jm_get (instances s) k") (simp_all add: setDefaultInstance_def manager_inv_def jm_has_iff)
qed (simp_all add: manager_inv_create manager_inv_remove manager_inv_clear)

lemma manager_inv_run: "manager_inv s \<Longrightarrow> manager_inv (fold manager_step ops s)"
  by (induction ops arbitrary: s) (simp_all add: manager_inv_step)

lemma manager_inv_new: "manager_inv new_manager"
  by (simp add: manager_inv_def new_manager_def)

text \<open>C8 The manager never leaks interceptors and never loses its default. After any sequence of creations,
  removals, default settings and clears, the axios instances with registered interceptors are exactly
  those in the map, each once; \<open>getDefaultInstance\<close> answers an instance of the map whenever there
  is one, and throws exactly when the manager is empty.\<close>

theorem manager_consistent:
  "let s = fold manager_step ops new_manager
   in distinct (live s) \<and> set (live s) = (mg_instance \<circ> snd) ` set (instances s) \<and>
      (if manager_size s = 0
       then getDefaultInstance s = Inl (HttpNotInitializedError (Some ''getDefaultInstance''))
       else (\<exists>k m. defaultKey s = Some k \<and> getInstance k s = Some m \<and> getDefaultInstance s = Inr m))"
proof -
  have "manager_inv (fold manager_step ops new_manager)"
    by (rule manager_inv_run [OF manager_inv_new])
  then show ?thesis
    by (auto simp: Let_def manager_inv_def manager_size_def getDefaultInstance_def getInstance_def jm_get_def
        split: option.splits)
qed

end
