(* ===== verification/Sql_Text.thy ===== *)
theory Sql_Text
  imports Complex_Main Foundation_Prelude
begin

text \<open>
  The SQL text layer: identifier validation with its caches, quoting, escaping, view validation
  and LIMIT handling of the DuckDB bridge (\<open>bridge/src/utils/sql.ts\<close> with the constants of
  \<open>bridge/src/constants/index.ts\<close>), the value formatting of the query engine
  (\<open>query-engine/src/compiler/sql-utils.ts\<close>) and member references
  (\<open>query-engine/src/utils/member-ref.ts\<close>, \<open>MemberRef\<close> in \<open>data-model/src/types/branded.ts\<close>).
  The locale \<open>literal_codec\<close> says what the compiler relies on: what is quoted is read back by the
  SQL lexer as exactly the text that was quoted, whatever follows it.
\<close>

subsection \<open>Identifiers\<close>

datatype sql_error = SqlValidationError string string

definition MAX_IDENTIFIER_LENGTH :: nat where
  "MAX_IDENTIFIER_LENGTH = 256"

definition RESERVED_WORDS :: "string list" where
  "RESERVED_WORDS =
     [''SELECT'', ''INSERT'', ''UPDATE'', ''DELETE'', ''DROP'', ''CREATE'', ''ALTER'', ''TRUNCATE'', ''TABLE'',
      ''VIEW'', ''INDEX'', ''FROM'', ''WHERE'', ''AND'', ''OR'', ''NOT'', ''NULL'', ''TRUE'', ''FALSE'', ''AS'',
      ''ON'', ''JOIN'', ''LEFT'', ''RIGHT'', ''INNER'', ''OUTER'', ''GROUP'', ''BY'', ''ORDER'', ''HAVING'',
      ''LIMIT'', ''OFFSET'', ''UNION'', ''ALL'', ''DISTINCT'', ''INTO'', ''VALUES'', ''SET'', ''BEGIN'',
      ''COMMIT'', ''ROLLBACK'']"

text \<open>\<open>/^[a-zA-Z_][a-zA-Z0-9_]*$/\<close>.\<close>

definition identifier_pattern :: "string \<Rightarrow> bool" where
  "identifier_pattern s \<longleftrightarrow>
     (case s of [] \<Rightarrow> False | c # cs \<Rightarrow> (is_alpha c \<or> c = CHR ''_'') \<and> list_all is_word_char cs)"

record identifier_caches =
  validated :: "(string, string) jmap"
  invalid :: "string list"

definition MAX_VALIDATION_CACHE_SIZE :: nat where
  "MAX_VALIDATION_CACHE_SIZE = 1000"

definition cacheValidatedIdentifier :: "string \<Rightarrow> identifier_caches \<Rightarrow> identifier_caches" where
  "cacheValidatedIdentifier name c =
     (let m = (if length (validated c) \<ge> MAX_VALIDATION_CACHE_SIZE
               then (case jm_keys (validated c) of [] \<Rightarrow> validated c | k # _ \<Rightarrow> jm_delete k (validated c))
               else validated c)
      in c\<lparr>validated := jm_set name name m\<rparr>)"

definition cacheInvalidIdentifier :: "string \<Rightarrow> identifier_caches \<Rightarrow> identifier_caches" where
  "cacheInvalidIdentifier name c =
     (let s = (if length (invalid c) \<ge> MAX_VALIDATION_CACHE_SIZE then [] else invalid c)
      in c\<lparr>invalid := js_add name s\<rparr>)"

definition validateIdentifier :: "string \<Rightarrow> identifier_caches \<Rightarrow> (sql_error + string) \<times> identifier_caches" where
  "validateIdentifier name c =
     (case jm_get (validated c) name of
        Some i \<Rightarrow> (Inr i, c)
      | None \<Rightarrow>
          if name \<in> set (invalid c) then (Inl (SqlValidationError name ''Identifier is invalid (cached)''), c)
          else if name = [] then
            (Inl (SqlValidationError [] ''Identifier cannot be empty''), cacheInvalidIdentifier [] c)
          else if length name > MAX_IDENTIFIER_LENGTH then
            (Inl (SqlValidationError name ''Identifier exceeds maximum length of 256''), cacheInvalidIdentifier name c)
          else if \<not> identifier_pattern name then
            (Inl (SqlValidationError name
               ''Identifier must start with letter or underscore and contain only alphanumeric characters or underscores''),
             cacheInvalidIdentifier name c)
          else if to_upper name \<in> set RESERVED_WORDS then
            (Inl (SqlValidationError name ''Identifier is a SQL reserved word''), cacheInvalidIdentifier name c)
          else (Inr name, cacheValidatedIdentifier name c))"

definition validateTableName :: "string \<Rightarrow> identifier_caches \<Rightarrow> (sql_error + string) \<times> identifier_caches" where
  "validateTableName name c =
     (case validateIdentifier name c of (Inl e, c') \<Rightarrow> (Inl e, c') | (Inr _, c') \<Rightarrow> (Inr name, c'))"

definition isValidIdentifier :: "string \<Rightarrow> bool" where
  "isValidIdentifier s =
     (if s = [] \<or> length s > MAX_IDENTIFIER_LENGTH then False
      else if \<not> identifier_pattern s then False
      else if to_upper s \<in> set RESERVED_WORDS then False
      else True)"

definition no_caches :: identifier_caches where
  "no_caches = \<lparr>validated = [], invalid = []\<rparr>"

definition caches_ok :: "identifier_caches \<Rightarrow> bool" where
  "caches_ok c \<longleftrightarrow>
     jm_ok (validated c) \<and> (\<forall>(k, v)\<in>set (validated c). v = k \<and> isValidIdentifier k) \<and>
     distinct (invalid c) \<and> (\<forall>k\<in>set (invalid c). \<not> isValidIdentifier k) \<and>
     length (validated c) \<le> MAX_VALIDATION_CACHE_SIZE \<and> length (invalid c) \<le> MAX_VALIDATION_CACHE_SIZE"

lemma caches_ok_valid:
  assumes "caches_ok c" "isValidIdentifier name" "jm_get (validated c) name = None"
  shows "caches_ok (cacheValidatedIdentifier name c)"
proof -
  define m where "m = (if length (validated c) \<ge> MAX_VALIDATION_CACHE_SIZE
      then (case jm_keys (validated c) of [] \<Rightarrow> validated c | k # _ \<Rightarrow> jm_delete k (validated c)) else validated c)"
  have e: "cacheValidatedIdentifier name c = c\<lparr>validated := jm_set name name m\<rparr>"
    by (simp only: cacheValidatedIdentifier_def m_def Let_def)
  have ok: "jm_ok m" "set m \<subseteq> set (validated c)"
    using assms(1) by (auto simp: m_def caches_ok_def jm_delete_def distinct_map_filter split: list.splits)
  have "length m < MAX_VALIDATION_CACHE_SIZE"
  proof (cases "length (validated c) \<ge> MAX_VALIDATION_CACHE_SIZE")
    case True
    then obtain e l where m: "validated c = e # l"
      by (cases "validated c") (auto simp: MAX_VALIDATION_CACHE_SIZE_def)
    moreover have "length (jm_delete (fst e) (validated c)) = length (validated c) - 1"
      using assms(1) m by (subst length_jm_delete) (auto simp: caches_ok_def jm_get_Cons)
    ultimately show ?thesis using assms(1) True by (auto simp: m_def caches_ok_def MAX_VALIDATION_CACHE_SIZE_def)
  qed (simp add: m_def)
  then have "length (jm_set name name m) \<le> MAX_VALIDATION_CACHE_SIZE" by (simp add: length_jm_set)
  moreover have "\<forall>(k, v)\<in>set (jm_set name name m). v = k \<and> isValidIdentifier k"
    using ok(2) assms(1,2) set_jm_setD [of _ name name m] by (fastforce simp: caches_ok_def)
  ultimately show ?thesis using assms(1) jm_ok_set [OF ok(1)]
    by (simp add: e caches_ok_def)
qed

lemma caches_ok_invalid:
  "caches_ok c \<Longrightarrow> \<not> isValidIdentifier name \<Longrightarrow> caches_ok (cacheInvalidIdentifier name c)"
  by (auto simp: caches_ok_def cacheInvalidIdentifier_def Let_def js_add_def MAX_VALIDATION_CACHE_SIZE_def)

lemma validateIdentifier_ok:
  assumes "caches_ok c"
  shows "caches_ok (snd (validateIdentifier name c)) \<and>
     (if isValidIdentifier name then fst (validateIdentifier name c) = Inr name
      else (\<exists>e. fst (validateIdentifier name c) = Inl e))"
proof (cases "jm_get (validated c) name")
  case (Some i)
  then have "i = name" "isValidIdentifier name" using assms jm_get_Some_in by (fastforce simp: caches_ok_def)+
  with Some assms show ?thesis by (simp add: validateIdentifier_def)
next
  case None
  show ?thesis
  proof (cases "isValidIdentifier name")
    case True
    with assms have "name \<notin> set (invalid c)" by (auto simp: caches_ok_def)
    with True None caches_ok_valid [OF assms True None] show ?thesis
      by (auto simp: validateIdentifier_def isValidIdentifier_def split: if_splits)
  next
    case False
    with None assms caches_ok_invalid [OF assms False] show ?thesis
      by (auto simp: validateIdentifier_def isValidIdentifier_def)
  qed
qed

lemma validate_run_ok: "caches_ok c \<Longrightarrow> caches_ok (fold (\<lambda>n c. snd (validateIdentifier n c)) ns c)"
  by (induction ns arbitrary: c) (simp_all add: validateIdentifier_ok)

lemma caches_ok_empty: "caches_ok no_caches"
  by (simp add: caches_ok_def no_caches_def)

text \<open>The identifier caches are transparent and bounded. After any sequence of validations, a further
  one accepts an identifier exactly when it matches the pattern, is no longer than 256 characters and is
  not a reserved word, and returns it unchanged; neither cache ever holds more than 1000 entries.\<close>

theorem validateIdentifier_transparent:
  "let c = fold (\<lambda>n c. snd (validateIdentifier n c)) names no_caches
   in (if isValidIdentifier name then fst (validateIdentifier name c) = Inr name
       else (\<exists>e. fst (validateIdentifier name c) = Inl e)) \<and>
      length (validated c) \<le> 1000 \<and> length (invalid c) \<le> 1000"
proof -
  define c where "c = fold (\<lambda>n c. snd (validateIdentifier n c)) names no_caches"
  have ok: "caches_ok c" unfolding c_def by (rule validate_run_ok [OF caches_ok_empty])
  then have "length (validated c) \<le> 1000 \<and> length (invalid c) \<le> 1000"
    by (simp only: caches_ok_def MAX_VALIDATION_CACHE_SIZE_def simp_thms)
  with validateIdentifier_ok [OF ok, of name] show ?thesis
    unfolding Let_def c_def [symmetric] by blast
qed

subsection \<open>Quoting\<close>

definition quoteIdentifier :: "string \<Rightarrow> string" where
  "quoteIdentifier i = CHR 0x22 # replace_char (CHR 0x22) [CHR 0x22, CHR 0x22] i @ [CHR 0x22]"

definition escapeString :: "string \<Rightarrow> string" where
  "escapeString v = replace_char (CHR 0x27) [CHR 0x27, CHR 0x27] v"

definition stringLiteral :: "string \<Rightarrow> string" where
  "stringLiteral v = CHR 0x27 # escapeString v @ [CHR 0x27]"

text \<open>The query engine's \<open>quoteIdentifier\<close> validates first, and quotes the raw text if that throws.\<close>

definition qe_quoteIdentifier :: "string \<Rightarrow> identifier_caches \<Rightarrow> string \<times> identifier_caches" where
  "qe_quoteIdentifier i c =
     (case validateIdentifier i c of
        (Inr v, c') \<Rightarrow> (quoteIdentifier v, c')
      | (Inl _, c') \<Rightarrow> (CHR 0x22 # replace_char (CHR 0x22) [CHR 0x22, CHR 0x22] i @ [CHR 0x22], c'))"

lemma qe_quoteIdentifier_eq: "caches_ok c \<Longrightarrow> fst (qe_quoteIdentifier i c) = quoteIdentifier i"
  using validateIdentifier_ok [of c i]
  by (auto simp: qe_quoteIdentifier_def quoteIdentifier_def split: prod.splits sum.splits if_splits)

text \<open>
  The SQL lexer's view of a quoted token: after the opening quote, a doubled quote stands for one,
  a single one closes. The result is the text and what follows the token.
\<close>

fun scan_body :: "char \<Rightarrow> string \<Rightarrow> (string \<times> string) option" where
  "scan_body q [] = None"
| "scan_body q (c # s) =
     (if c = q then
        (case s of
           [] \<Rightarrow> Some ([], [])
         | d # t \<Rightarrow> if d = q then map_option (\<lambda>(x, r). (q # x, r)) (scan_body q t) else Some ([], s))
      else map_option (\<lambda>(x, r). (c # x, r)) (scan_body q s))"

definition scan_quoted :: "char \<Rightarrow> string \<Rightarrow> (string \<times> string) option" where
  "scan_quoted q s = (case s of c # t \<Rightarrow> if c = q then scan_body q t else None | [] \<Rightarrow> None)"

text \<open>Tokens separated by a comma and a space, as the compiler lists them.\<close>

fun scan_list :: "(string \<Rightarrow> (string \<times> string) option) \<Rightarrow> nat \<Rightarrow> string \<Rightarrow> (string list \<times> string) option" where
  "scan_list scan 0 s = Some ([], s)"
| "scan_list scan (Suc 0) s = map_option (\<lambda>(x, r). ([x], r)) (scan s)"
| "scan_list scan (Suc (Suc n)) s =
     (case scan s of
        Some (x, c # d # r) \<Rightarrow>
          if [c, d] = '', '' then map_option (\<lambda>(xs, r). (x # xs, r)) (scan_list scan (Suc n) r) else None
      | _ \<Rightarrow> None)"

locale literal_codec =
  fixes enc :: "string \<Rightarrow> string"
    and scan :: "string \<Rightarrow> (string \<times> string) option"
    and quote :: char
  assumes scan_enc: "rest = [] \<or> hd rest \<noteq> quote \<Longrightarrow> scan (enc s @ rest) = Some (s, rest)"
    and quote_not_comma: "quote \<noteq> CHR '',''"
begin

lemma scan_enc_end: "scan (enc s) = Some (s, [])"
  using scan_enc [of "[]" s] by simp

lemma enc_inject: "enc s = enc t \<Longrightarrow> s = t"
  by (metis option.inject prod.inject scan_enc_end)

lemma scan_list_enc:
  "rest = [] \<or> hd rest \<noteq> quote \<Longrightarrow> scan_list scan (length xs) (join '', '' (map enc xs) @ rest) = Some (xs, rest)"
proof (induction xs rule: induct_list012)
  case (3 x y xs)
  have "scan (enc x @ '', '' @ join '', '' (map enc (y # xs)) @ rest) =
      Some (x, '', '' @ join '', '' (map enc (y # xs)) @ rest)"
    using quote_not_comma by (intro scan_enc) auto
  moreover have "scan_list scan (length (y # xs)) (join '', '' (map enc (y # xs)) @ rest) = Some (y # xs, rest)"
    using 3 by blast
  ultimately show ?case by simp
qed (simp_all add: scan_enc)

lemma list_inject: "join '', '' (map enc xs) = join '', '' (map enc ys) \<Longrightarrow> length xs = length ys \<Longrightarrow> xs = ys"
  by (metis append_Nil2 option.inject prod.inject scan_list_enc)

end

lemma scan_body_replace:
  "rest = [] \<or> hd rest \<noteq> q \<Longrightarrow> scan_body q (replace_char q [q, q] s @ q # rest) = Some (s, rest)"
proof (induction s)
  case Nil
  then show ?case by (cases rest) auto
next
  case (Cons c s)
  then show ?case by simp
qed

interpretation ident: literal_codec quoteIdentifier "scan_quoted (CHR 0x22)" "CHR 0x22"
  by unfold_locales (simp_all add: quoteIdentifier_def scan_quoted_def scan_body_replace)

interpretation strlit: literal_codec stringLiteral "scan_quoted (CHR 0x27)" "CHR 0x27"
  by unfold_locales (simp_all add: stringLiteral_def escapeString_def scan_quoted_def scan_body_replace)

definition buildCreateViewSql :: "string \<Rightarrow> string \<Rightarrow> bool \<Rightarrow> string" where
  "buildCreateViewSql viewName sql orReplace =
     (let pre = (if orReplace then ''CREATE OR REPLACE VIEW'' else ''CREATE VIEW'')
      in pre @ '' '' @ quoteIdentifier viewName @ '' AS '' @ sql)"

definition buildDropViewSql :: "string \<Rightarrow> bool \<Rightarrow> string" where
  "buildDropViewSql viewName ifExists =
     (let suf = (if ifExists then '' IF EXISTS'' else []) in ''DROP VIEW'' @ suf @ '' '' @ quoteIdentifier viewName)"

text \<open>C9 Quoting is safe against injection. Whatever an identifier or a string contains, and whatever
  follows it (as long as it is not another quote), the lexer reads its quoted form back as one token
  with exactly that text and goes on with what follows; so do the identifiers of a list, and the
  names in the generated CREATE VIEW and DROP VIEW statements.\<close>

theorem quoting_safe:
  assumes "rest = [] \<or> hd rest \<noteq> CHR 0x22" "rest' = [] \<or> hd rest' \<noteq> CHR 0x27"
  shows "scan_quoted (CHR 0x22) (quoteIdentifier i @ rest) = Some (i, rest) \<and>
    scan_quoted (CHR 0x27) (stringLiteral v @ rest') = Some (v, rest') \<and>
    scan_list (scan_quoted (CHR 0x22)) (length is) (join '', '' (map quoteIdentifier is) @ rest) = Some (is, rest) \<and>
    scan_list (scan_quoted (CHR 0x27)) (length vs) (join '', '' (map stringLiteral vs) @ rest') = Some (vs, rest') \<and>
    scan_quoted (CHR 0x22) (drop (length ''CREATE OR REPLACE VIEW '') (buildCreateViewSql i sql True)) =
      Some (i, '' AS '' @ sql) \<and>
    scan_quoted (CHR 0x22) (drop (length ''DROP VIEW IF EXISTS '') (buildDropViewSql i True)) = Some (i, [])"
proof (intro conjI)
  show "scan_quoted (CHR 0x22) (quoteIdentifier i @ rest) = Some (i, rest)"
    using assms(1) by (rule ident.scan_enc)
  show "scan_quoted (CHR 0x27) (stringLiteral v @ rest') = Some (v, rest')"
    using assms(2) by (rule strlit.scan_enc)
  show "scan_list (scan_quoted (CHR 0x22)) (length is) (join '', '' (map quoteIdentifier is) @ rest) = Some (is, rest)"
    using assms(1) by (rule ident.scan_list_enc)
  show "scan_list (scan_quoted (CHR 0x27)) (length vs) (join '', '' (map stringLiteral vs) @ rest') = Some (vs, rest')"
    using assms(2) by (rule strlit.scan_list_enc)
  show "scan_quoted (CHR 0x22) (drop (length ''CREATE OR REPLACE VIEW '') (buildCreateViewSql i sql True)) =
      Some (i, '' AS '' @ sql)"
    using ident.scan_enc [of "'' AS '' @ sql" i] by (simp add: buildCreateViewSql_def)
  show "scan_quoted (CHR 0x22) (drop (length ''DROP VIEW IF EXISTS '') (buildDropViewSql i True)) = Some (i, [])"
    using ident.scan_enc_end [of i] by (simp add: buildDropViewSql_def)
qed

theorem quoting_safe_witness:
  "scan_quoted (CHR 0x27) (stringLiteral [CHR 0x27] @ '' OR 1'') = Some ([CHR 0x27], '' OR 1'')"
  using quoting_safe [of "[]" "'' OR 1''"] by simp

subsection \<open>Values and LIKE patterns\<close>

text \<open>Filter values. Numbers are integral; a date is its \<open>toISOString\<close> and its \<open>String\<close> text.\<close>

datatype filter_value = FNull | FString string | FNumber int | FBool bool | FDate string string

definition formatValue :: "filter_value \<Rightarrow> string" where
  "formatValue v =
     (case v of
        FNull \<Rightarrow> ''NULL''
      | FString s \<Rightarrow> CHR 0x27 # escapeString s @ [CHR 0x27]
      | FNumber n \<Rightarrow> show_int n
      | FBool b \<Rightarrow> if b then ''TRUE'' else ''FALSE''
      | FDate iso_text _ \<Rightarrow> CHR 0x27 # iso_text @ [CHR 0x27])"

definition formatValueList :: "filter_value list \<Rightarrow> string" where
  "formatValueList vs = join '', '' (map formatValue vs)"

definition escapeLikePattern :: "string \<Rightarrow> string" where
  "escapeLikePattern p =
     replace_char (CHR ''_'') [CHR 0x5C, CHR ''_'']
       (replace_char (CHR ''%'') [CHR 0x5C, CHR ''%'']
         (replace_char (CHR 0x5C) [CHR 0x5C, CHR 0x5C] p))"

definition buildContainsPattern :: "string \<Rightarrow> string" where
  "buildContainsPattern v = CHR 0x27 # CHR ''%'' # escapeLikePattern (escapeString v) @ [CHR ''%'', CHR 0x27]"

definition buildStartsWithPattern :: "string \<Rightarrow> string" where
  "buildStartsWithPattern v = CHR 0x27 # escapeLikePattern (escapeString v) @ [CHR ''%'', CHR 0x27]"

definition buildEndsWithPattern :: "string \<Rightarrow> string" where
  "buildEndsWithPattern v = CHR 0x27 # CHR ''%'' # escapeLikePattern (escapeString v) @ [CHR 0x27]"

datatype like_operator = CONTAINS | STARTS_WITH | ENDS_WITH

text \<open>\<open>value.replace(/[%_\\]/g, '\\$&')\<close>.\<close>

definition like_escape :: "string \<Rightarrow> string" where
  "like_escape v = concat (map (\<lambda>c. if c \<in> {CHR ''%'', CHR ''_'', CHR 0x5C} then [CHR 0x5C, c] else [c]) v)"

definition buildLikePattern :: "string \<Rightarrow> like_operator \<Rightarrow> string" where
  "buildLikePattern v op =
     (let escaped = replace_char (CHR 0x27) [CHR 0x27, CHR 0x27] (like_escape v)
      in case op of
           CONTAINS \<Rightarrow> CHR 0x27 # CHR ''%'' # escaped @ [CHR ''%'', CHR 0x27]
         | STARTS_WITH \<Rightarrow> CHR 0x27 # escaped @ [CHR ''%'', CHR 0x27]
         | ENDS_WITH \<Rightarrow> CHR 0x27 # CHR ''%'' # escaped @ [CHR 0x27])"

text \<open>SQL's LIKE with \<open>ESCAPE '\'\<close>.\<close>

fun like_match :: "string \<Rightarrow> string \<Rightarrow> bool" where
  "like_match [] t = (t = [])"
| "like_match (p # ps) t =
     (if p = CHR 0x5C then
        (case ps of [] \<Rightarrow> False | c # ps' \<Rightarrow> (case t of [] \<Rightarrow> False | d # t' \<Rightarrow> d = c \<and> like_match ps' t'))
      else if p = CHR ''%'' then
        like_match ps t \<or> (case t of [] \<Rightarrow> False | d # t' \<Rightarrow> like_match (p # ps) t')
      else (case t of [] \<Rightarrow> False | d # t' \<Rightarrow> (p = CHR ''_'' \<or> d = p) \<and> like_match ps t'))"

lemma like_match_percent: "like_match (CHR ''%'' # ps) t \<longleftrightarrow> (\<exists>a b. t = a @ b \<and> like_match ps b)"
proof (induction t)
  case (Cons d t)
  have "(\<exists>a b. d # t = a @ b \<and> like_match ps b) \<longleftrightarrow> like_match ps (d # t) \<or> (\<exists>a b. t = a @ b \<and> like_match ps b)"
    by (auto simp: Cons_eq_append_conv)
  with Cons show ?case by simp
qed simp

lemma like_escape_Cons:
  "like_escape (c # v) = (if c \<in> {CHR ''%'', CHR ''_'', CHR 0x5C} then [CHR 0x5C, c] else [c]) @ like_escape v"
  by (simp add: like_escape_def)

lemma like_match_escape: "like_match (like_escape v @ ps) t \<longleftrightarrow> (\<exists>u. t = v @ u \<and> like_match ps u)"
proof (induction v arbitrary: t)
  case Nil
  then show ?case by (simp add: like_escape_def)
next
  case (Cons c v)
  show ?case
  proof (cases t)
    case Nil
    then show ?thesis by (auto simp: like_escape_Cons)
  next
    case (Cons d t')
    with Cons.IH [of t'] show ?thesis by (auto simp: like_escape_Cons)
  qed
qed

lemma escapeLike_eq: "escapeLikePattern v = like_escape v"
  by (induction v) (auto simp: escapeLikePattern_def like_escape_def)

lemma escape_commute: "like_escape (escapeString v) = escapeString (like_escape v)"
  by (induction v) (auto simp: escapeString_def like_escape_def)

fun matches_operator :: "like_operator \<Rightarrow> string \<Rightarrow> string \<Rightarrow> bool" where
  "matches_operator CONTAINS v t = sublist v t"
| "matches_operator STARTS_WITH v t = prefix v t"
| "matches_operator ENDS_WITH v t = suffix v t"

lemma escapeString_percent:
  "escapeString (CHR ''%'' # s) = CHR ''%'' # escapeString s" "escapeString (s @ ''%'') = escapeString s @ ''%''"
  by (simp_all add: escapeString_def)

text \<open>LIKE patterns match literally. For every search text, including ones with quotes, percent signs,
  underscores and backslashes, the generated pattern is one well-formed string literal, and with the
  generated \<open>ESCAPE '\'\<close> clause it matches exactly the texts that contain, start with or end with the
  search text; the pattern builders of \<open>sql-utils\<close> and of the compiler agree.\<close>

theorem like_patterns_exact:
  "(\<exists>pat. scan_quoted (CHR 0x27) (buildLikePattern v op) = Some (pat, []) \<and>
     (\<forall>t. like_match pat t \<longleftrightarrow> matches_operator op v t)) \<and>
   buildContainsPattern v = buildLikePattern v CONTAINS \<and>
   buildStartsWithPattern v = buildLikePattern v STARTS_WITH \<and>
   buildEndsWithPattern v = buildLikePattern v ENDS_WITH"
proof -
  have l: "scan_quoted (CHR 0x27) (CHR 0x27 # escapeString s @ [CHR 0x27]) = Some (s, [])" for s
    using strlit.scan_enc_end [of s] by (simp add: stringLiteral_def)
  have tail: "like_match (CHR ''%'' # []) u" for u by (simp only: like_match_percent) auto
  have "\<exists>pat. scan_quoted (CHR 0x27) (buildLikePattern v op) = Some (pat, []) \<and>
     (\<forall>t. like_match pat t \<longleftrightarrow> matches_operator op v t)"
  proof (cases op)
    case CONTAINS
    have "buildLikePattern v op = CHR 0x27 # escapeString (CHR ''%'' # like_escape v @ ''%'') @ [CHR 0x27]"
      using CONTAINS by (simp add: buildLikePattern_def escapeString_def)
    moreover have "like_match (CHR ''%'' # like_escape v @ ''%'') t \<longleftrightarrow> sublist v t" for t
      unfolding like_match_percent like_match_escape sublist_def using tail by auto
    ultimately show ?thesis using l CONTAINS by auto
  next
    case STARTS_WITH
    have "buildLikePattern v op = CHR 0x27 # escapeString (like_escape v @ ''%'') @ [CHR 0x27]"
      using STARTS_WITH by (simp add: buildLikePattern_def escapeString_def)
    moreover have "like_match (like_escape v @ ''%'') t \<longleftrightarrow> prefix v t" for t
      unfolding like_match_escape prefix_def using tail by auto
    ultimately show ?thesis using l STARTS_WITH by auto
  next
    case ENDS_WITH
    have "buildLikePattern v op = CHR 0x27 # escapeString (CHR ''%'' # like_escape v) @ [CHR 0x27]"
      using ENDS_WITH by (simp add: buildLikePattern_def escapeString_def)
    moreover have "like_match (CHR ''%'' # like_escape v) t \<longleftrightarrow> suffix v t" for t
      using like_match_escape [of v "[]"] unfolding like_match_percent suffix_def by auto
    ultimately show ?thesis using l ENDS_WITH by auto
  qed
  moreover have "buildContainsPattern v = buildLikePattern v CONTAINS"
    "buildStartsWithPattern v = buildLikePattern v STARTS_WITH"
    "buildEndsWithPattern v = buildLikePattern v ENDS_WITH"
    by (simp_all add: buildContainsPattern_def buildStartsWithPattern_def buildEndsWithPattern_def
        buildLikePattern_def escapeLike_eq escape_commute) (simp_all add: escapeString_def)
  ultimately show ?thesis by blast
qed

subsection \<open>View definitions\<close>

text \<open>The characters \<open>trim\<close> removes and \<open>\s\<close> matches, below code 256.\<close>

definition is_space :: "char \<Rightarrow> bool" where
  "is_space c \<longleftrightarrow> of_char c \<in> {9, 10, 11, 12, 13, 32, 160 :: nat}"

definition trim :: "string \<Rightarrow> string" where
  "trim s = rev (dropWhile is_space (rev (dropWhile is_space s)))"

definition FORBIDDEN_VIEW_SQL_KEYWORDS :: "string list" where
  "FORBIDDEN_VIEW_SQL_KEYWORDS =
     [''DROP'', ''CREATE'', ''ALTER'', ''DELETE'', ''INSERT'', ''UPDATE'', ''TRUNCATE'', ''GRANT'', ''REVOKE'',
      ''EXEC'', ''EXECUTE'']"

text \<open>
  \<open>/'(?:[^']|'')*'/\<close> after its opening quote, as a backtracking matcher runs it: it goes on past a
  doubled quote if a later closing quote exists, and otherwise closes at the first of the two.
\<close>

fun quoted_match :: "char \<Rightarrow> string \<Rightarrow> string option" where
  "quoted_match q [] = None"
| "quoted_match q (c # s) =
     (if c \<noteq> q then quoted_match q s
      else (case s of
              [] \<Rightarrow> Some []
            | d # t \<Rightarrow> if d = q then (case quoted_match q t of Some r \<Rightarrow> Some r | None \<Rightarrow> Some s) else Some s))"

lemma quoted_match_length: "quoted_match q s = Some r \<Longrightarrow> length r < length s"
  by (induction q s arbitrary: r rule: quoted_match.induct)
    (fastforce split: if_splits list.splits option.splits)+

text \<open>\<open>replace\<close> of every match by the empty string.\<close>

function strip_quoted :: "char \<Rightarrow> string \<Rightarrow> string" where
  "strip_quoted q [] = []"
| "strip_quoted q (c # s) =
     (if c = q then (case quoted_match q s of Some r \<Rightarrow> strip_quoted q r | None \<Rightarrow> c # strip_quoted q s)
      else c # strip_quoted q s)"
  by pat_completeness auto
termination
  by (relation "measure (\<lambda>(q, s). length s)") (auto dest: quoted_match_length)

definition stripQuotedStrings :: "string \<Rightarrow> string" where
  "stripQuotedStrings sql = strip_quoted (CHR 0x22) (strip_quoted (CHR 0x27) sql)"

text \<open>\<open>\b\<close>keyword\<open>\b\<close> at the start of a text, ignoring case; the flag says whether a word character precedes it.\<close>

definition word_at :: "string \<Rightarrow> bool \<Rightarrow> string \<Rightarrow> bool" where
  "word_at kw before s \<longleftrightarrow>
     \<not> before \<and> to_upper (take (length kw) s) = kw \<and>
     (case drop (length kw) s of [] \<Rightarrow> True | d # _ \<Rightarrow> \<not> is_word_char d)"

fun has_word :: "string \<Rightarrow> bool \<Rightarrow> string \<Rightarrow> bool" where
  "has_word kw before [] = False"
| "has_word kw before (c # s) = (word_at kw before (c # s) \<or> has_word kw (is_word_char c) s)"

definition validateViewSql :: "string \<Rightarrow> sql_error + unit" where
  "validateViewSql sql =
     (if sql = [] \<or> length (trim sql) = 0 then Inl (SqlValidationError ''(empty)'' ''View SQL cannot be empty'')
      else
        let stripped = stripQuotedStrings sql;
            trimmedUpper = to_upper (trim stripped)
        in if take 6 trimmedUpper \<noteq> ''SELECT'' \<and> take 4 trimmedUpper \<noteq> ''WITH''
           then Inl (SqlValidationError (take 50 sql) ''View SQL must start with SELECT or WITH'')
           else (case find (\<lambda>kw. has_word kw False stripped) FORBIDDEN_VIEW_SQL_KEYWORDS of
                   Some kw \<Rightarrow>
                     Inl (SqlValidationError (take 50 sql) (''View SQL contains forbidden keyword: '' @ kw))
                 | None \<Rightarrow> Inr ()))"

text \<open>
  SQL text as a lexer reads it: code, string literals and quoted names. A sequence of pieces stands
  for its concatenation when the code has no quotes and something separates the quoted pieces.
\<close>

datatype sql_piece = Code string | Literal string | Name string

fun piece_text :: "sql_piece \<Rightarrow> string" where
  "piece_text (Code s) = s"
| "piece_text (Literal v) = stringLiteral v"
| "piece_text (Name n) = quoteIdentifier n"

fun piece_code :: "sql_piece \<Rightarrow> string" where
  "piece_code (Code s) = s"
| "piece_code (Literal v) = []"
| "piece_code (Name n) = []"

fun well_separated :: "sql_piece list \<Rightarrow> bool" where
  "well_separated [] = True"
| "well_separated (Code s # ps) = (CHR 0x22 \<notin> set s \<and> CHR 0x27 \<notin> set s \<and> well_separated ps)"
| "well_separated [p] = True"
| "well_separated (p # Code s # ps) = (s \<noteq> [] \<and> well_separated (Code s # ps))"
| "well_separated (p # r # ps) = False"

fun names_without_apostrophe :: "sql_piece list \<Rightarrow> bool" where
  "names_without_apostrophe [] = True"
| "names_without_apostrophe (Name n # ps) = (CHR 0x27 \<notin> set n \<and> names_without_apostrophe ps)"
| "names_without_apostrophe (p # ps) = names_without_apostrophe ps"

definition sql_text :: "sql_piece list \<Rightarrow> string" where
  "sql_text ps = concat (map piece_text ps)"

definition sql_code :: "sql_piece list \<Rightarrow> string" where
  "sql_code ps = concat (map piece_code ps)"

lemmas well_separated_induct =
  well_separated.induct [case_names Nil Code_first Lone_literal Lone_name Literal_code Name_code
    Literal_literal Literal_name Name_literal Name_name]

lemma quoted_match_replace:
  "t = [] \<or> hd t \<noteq> q \<Longrightarrow> quoted_match q (replace_char q [q, q] v @ q # t) = Some t"
proof (induction v)
  case Nil
  then show ?case by (cases t) auto
qed auto

lemma strip_quoted_app: "q \<notin> set s \<Longrightarrow> strip_quoted q (s @ t) = s @ strip_quoted q t"
  by (induction s) auto

lemma strip_quoted_enc:
  "t = [] \<or> hd t \<noteq> q \<Longrightarrow> strip_quoted q (q # replace_char q [q, q] v @ q # t) = strip_quoted q t"
  by (simp add: quoted_match_replace)

definition literals_removed :: "sql_piece list \<Rightarrow> string" where
  "literals_removed ps = concat (map (\<lambda>p. case p of Literal v \<Rightarrow> [] | _ \<Rightarrow> piece_text p) ps)"

lemma quoteIdentifier_no_apostrophe: "CHR 0x27 \<notin> set n \<Longrightarrow> CHR 0x27 \<notin> set (quoteIdentifier n)"
  by (induction n) (auto simp: quoteIdentifier_def)

lemma strip_literals:
  "well_separated ps \<Longrightarrow> names_without_apostrophe ps \<Longrightarrow>
     strip_quoted (CHR 0x27) (sql_text ps) = literals_removed ps"
proof (induction ps rule: well_separated_induct)
  case (Code_first s ps)
  then show ?case by (simp add: sql_text_def literals_removed_def strip_quoted_app)
next
  case (Lone_literal v)
  then show ?case
    using strip_quoted_enc [of "[]" "CHR 0x27" v]
    by (simp add: sql_text_def literals_removed_def stringLiteral_def escapeString_def)
next
  case (Lone_name n)
  then show ?case
    using strip_quoted_app [OF quoteIdentifier_no_apostrophe [of n], of "[]"]
    by (simp add: sql_text_def literals_removed_def)
next
  case (Literal_code v s ps)
  moreover from Literal_code have "hd (s @ t) \<noteq> CHR 0x27" for t by (cases s) auto
  moreover have "sql_text (Literal v # Code s # ps) =
      CHR 0x27 # replace_char (CHR 0x27) [CHR 0x27, CHR 0x27] v @ CHR 0x27 # sql_text (Code s # ps)"
    by (simp add: sql_text_def stringLiteral_def escapeString_def)
  ultimately show ?case
    by (simp add: strip_quoted_enc sql_text_def literals_removed_def del: strip_quoted.simps(2))
next
  case (Name_code n s ps)
  then show ?case
    using strip_quoted_app [OF quoteIdentifier_no_apostrophe [of n]]
    by (simp add: sql_text_def literals_removed_def)
qed (auto simp: sql_text_def literals_removed_def)

lemma strip_names:
  "well_separated ps \<Longrightarrow> strip_quoted (CHR 0x22) (literals_removed ps) = sql_code ps"
proof (induction ps rule: well_separated_induct)
  case (Code_first s ps)
  then show ?case by (simp add: sql_code_def literals_removed_def strip_quoted_app)
next
  case (Lone_name n)
  then show ?case
    using strip_quoted_enc [of "[]" "CHR 0x22" n]
    by (simp add: sql_code_def literals_removed_def quoteIdentifier_def)
next
  case (Name_code n s ps)
  moreover from Name_code have "hd (s @ t) \<noteq> CHR 0x22" for t by (cases s) auto
  moreover have "literals_removed (Name n # Code s # ps) =
      CHR 0x22 # replace_char (CHR 0x22) [CHR 0x22, CHR 0x22] n @ CHR 0x22 # literals_removed (Code s # ps)"
    by (simp add: literals_removed_def quoteIdentifier_def)
  ultimately show ?case
    by (simp add: strip_quoted_enc sql_code_def literals_removed_def del: strip_quoted.simps(2))
qed (auto simp: sql_code_def literals_removed_def)

lemma stripQuotedStrings_exact:
  "well_separated ps \<Longrightarrow> names_without_apostrophe ps \<Longrightarrow> stripQuotedStrings (sql_text ps) = sql_code ps"
  by (simp add: stripQuotedStrings_def strip_literals strip_names)

definition select_like :: "string \<Rightarrow> bool" where
  "select_like code \<longleftrightarrow>
     (let t = to_upper (trim code) in take 6 t = ''SELECT'' \<or> take 4 t = ''WITH'')"

definition forbidden_word :: "string \<Rightarrow> bool" where
  "forbidden_word code \<longleftrightarrow> list_ex (\<lambda>kw. has_word kw False code) FORBIDDEN_VIEW_SQL_KEYWORDS"

lemma trim_blank: "trim s = [] \<longleftrightarrow> list_all is_space s"
proof (cases "list_all is_space s")
  case True
  then have e: "dropWhile is_space s = []" by (simp add: dropWhile_eq_Nil_conv list_all_iff)
  show ?thesis using True by (simp add: trim_def e)
next
  case False
  then have ne: "dropWhile is_space s \<noteq> []" by (simp add: dropWhile_eq_Nil_conv list_all_iff)
  then have "\<not> is_space (hd (dropWhile is_space s))" by (rule hd_dropWhile)
  with ne have "\<exists>c\<in>set (rev (dropWhile is_space s)). \<not> is_space c"
    by (intro bexI [of _ "hd (dropWhile is_space s)"]) simp_all
  then have "trim s \<noteq> []" unfolding trim_def dropWhile_eq_Nil_conv rev_is_Nil_conv by blast
  with False show ?thesis by simp
qed

lemma stripped_blank: "trim (sql_text ps) = [] \<Longrightarrow> trim (sql_code ps) = []"
proof -
  have "set (piece_code p) \<subseteq> set (piece_text p)" for p by (cases p) auto
  then have "set (sql_code ps) \<subseteq> set (sql_text ps)" unfolding sql_code_def sql_text_def by fastforce
  then show "trim (sql_text ps) = [] \<Longrightarrow> trim (sql_code ps) = []"
    unfolding trim_blank list_all_iff by blast
qed

lemma validateViewSql_iff:
  assumes "stripQuotedStrings sql = code" "trim sql = [] \<Longrightarrow> trim code = []"
  shows "validateViewSql sql = Inr () \<longleftrightarrow> select_like code \<and> \<not> forbidden_word code"
proof (cases "trim sql = []")
  case True
  with assms(2) have "\<not> select_like code" by (simp add: select_like_def to_upper_def)
  with True show ?thesis by (simp add: validateViewSql_def)
next
  case False
  then have "sql \<noteq> []" by (auto simp: trim_def)
  have forb: "forbidden_word code \<longleftrightarrow> find (\<lambda>kw. has_word kw False code) FORBIDDEN_VIEW_SQL_KEYWORDS \<noteq> None"
    unfolding forbidden_word_def list_ex_iff find_None_iff by blast
  show ?thesis
    using False \<open>sql \<noteq> []\<close>
    by (simp only: validateViewSql_def select_like_def forb assms(1) Let_def length_0_conv)
      (simp split: option.split)
qed

text \<open>View validation sees exactly the code. For SQL whose quoted names contain no apostrophe, stripping
  leaves exactly the text outside literals and names, so the statement is accepted if and only if that
  code starts with SELECT or WITH and contains none of the forbidden keywords as a word; what literals
  and names contain never matters.\<close>

theorem view_validation_exact:
  assumes "well_separated ps" "names_without_apostrophe ps"
  shows "stripQuotedStrings (sql_text ps) = sql_code ps \<and>
    (validateViewSql (sql_text ps) = Inr () \<longleftrightarrow> select_like (sql_code ps) \<and> \<not> forbidden_word (sql_code ps))"
  using stripQuotedStrings_exact [OF assms] validateViewSql_iff [OF stripQuotedStrings_exact [OF assms] stripped_blank]
  by simp

theorem view_validation_exact_witness:
  "validateViewSql (sql_text [Code ''select '', Literal ''drop; it's'', Code '' as '', Name ''a delete b'', Code ''''])
     = Inr ()"
proof -
  let ?ps = "[Code ''select '', Literal ''drop; it's'', Code '' as '', Name ''a delete b'', Code '''']"
  have "well_separated [Code ''select '', Literal ''drop; it's'', Code '' as '', Name ''a delete b'']"
    by code_simp
  moreover have "names_without_apostrophe [Code ''select '', Literal ''drop; it's'', Code '' as '', Name ''a delete b'']"
    by code_simp
  moreover have "select_like (sql_code [Code ''select '', Literal ''drop; it's'', Code '' as '', Name ''a delete b''])"
    by code_simp
  moreover have "\<not> forbidden_word (sql_code [Code ''select '', Literal ''drop; it's'', Code '' as '', Name ''a delete b''])"
    by code_simp
  ultimately have "validateViewSql (sql_text [Code ''select '', Literal ''drop; it's'', Code '' as '', Name ''a delete b'']) = Inr ()"
    using view_validation_exact by blast
  then show ?thesis by (simp add: sql_text_def)
qed

definition bypass_pieces :: "sql_piece list" where
  "bypass_pieces =
     [Code ''SELECT 1 AS '', Name ''it's'', Code ''; DROP TABLE users; SELECT '', Literal ''x'']"

text \<open>An apostrophe in a quoted name defeats view validation. The two kinds of quotes are stripped one
  after the other, single quotes first, so the apostrophe of the name opens a literal that swallows
  the code up to the next apostrophe: the statement is accepted although its code, outside all
  literals and names, drops a table.\<close>

theorem view_validation_bypassed:
  "validateViewSql (sql_text bypass_pieces) = Inr () \<and> well_separated bypass_pieces \<and>
   has_word ''DROP'' False (sql_code bypass_pieces) \<and> forbidden_word (sql_code bypass_pieces)"
proof (intro conjI)
  show "validateViewSql (sql_text bypass_pieces) = Inr ()" by code_simp
  show "well_separated bypass_pieces" by code_simp
  show "has_word ''DROP'' False (sql_code bypass_pieces)" by code_simp
  show "forbidden_word (sql_code bypass_pieces)" by code_simp
qed

subsection \<open>Statements\<close>

definition buildParameterizedSql :: "string \<Rightarrow> nat \<Rightarrow> sql_error + (string \<times> nat)" where
  "buildParameterizedSql sql paramCount =
     (let placeholderCount = length (filter (\<lambda>c. c = CHR ''?'') sql)
      in if placeholderCount \<noteq> paramCount
         then Inl (SqlValidationError (take 50 sql)
                (''Expected '' @ show_nat paramCount @ '' parameters but found '' @ show_nat placeholderCount @ '' placeholders''))
         else Inr (sql, placeholderCount))"

text \<open>Limits and offsets are integral, so that \<open>Math.floor\<close> is the identity.\<close>

definition applyLimitOffset :: "string \<Rightarrow> int option \<Rightarrow> int option \<Rightarrow> sql_error + string" where
  "applyLimitOffset sql limit offset =
     (case limit of
        Some l \<Rightarrow>
          if l < 0 then Inl (SqlValidationError (show_int l) ''LIMIT must be a non-negative number'')
          else (case offset of
                  Some off \<Rightarrow>
                    if off < 0 then Inl (SqlValidationError (show_int off) ''OFFSET must be a non-negative number'')
                    else if \<not> has_word ''LIMIT'' False sql
                    then Inr (sql @ '' LIMIT '' @ show_int l @ '' OFFSET '' @ show_int off)
                    else Inr sql
                | None \<Rightarrow> if \<not> has_word ''LIMIT'' False sql then Inr (sql @ '' LIMIT '' @ show_int l) else Inr sql)
      | None \<Rightarrow>
          (case offset of
             Some off \<Rightarrow>
               if off < 0 then Inl (SqlValidationError (show_int off) ''OFFSET must be a non-negative number'')
               else Inr sql
           | None \<Rightarrow> Inr sql))"

text \<open>A LIMIT inside a literal suppresses the requested limit; an offset without a limit is dropped.\<close>

lemma limit_suppressed_by_literal:
  "applyLimitOffset (''SELECT * FROM t WHERE note = '' @ stringLiteral ''no limit'') (Some 10) (Some 0) =
     Inr (''SELECT * FROM t WHERE note = '' @ stringLiteral ''no limit'')"
  by code_simp

lemma offset_without_limit_dropped: "off \<ge> 0 \<Longrightarrow> applyLimitOffset sql None (Some off) = Inr sql"
  by (simp add: applyLimitOffset_def)

definition joinClauses :: "string list \<Rightarrow> string \<Rightarrow> string" where
  "joinClauses clauses separator = join separator (filter (\<lambda>c. c \<noteq> []) clauses)"

definition wrapInParens :: "string \<Rightarrow> string" where
  "wrapInParens sql = ''('' @ sql @ '')''"

text \<open>\<open>replace(/\s+/g, ' ')\<close>; the flag says whether the last character was a space.\<close>

fun collapse_spaces :: "bool \<Rightarrow> string \<Rightarrow> string" where
  "collapse_spaces after_space [] = []"
| "collapse_spaces after_space (c # s) =
     (if is_space c then (if after_space then collapse_spaces True s else CHR '' '' # collapse_spaces True s)
      else c # collapse_spaces False s)"

text \<open>\<open>replace\<close> of every whole-word occurrence; the number counts the characters of a match still to drop.\<close>

fun replace_word :: "string \<Rightarrow> string \<Rightarrow> bool \<Rightarrow> nat \<Rightarrow> string \<Rightarrow> string" where
  "replace_word kw new before n [] = []"
| "replace_word kw new before (Suc n) (c # s) = replace_word kw new (is_word_char c) n s"
| "replace_word kw new before 0 (c # s) =
     (if word_at kw before (c # s)
      then new @ replace_word kw new (is_word_char c) (length kw - 1) s
      else c # replace_word kw new (is_word_char c) 0 s)"

definition pretty_keywords :: "string list" where
  "pretty_keywords =
     [''SELECT'', ''FROM'', ''WHERE'', ''GROUP BY'', ''HAVING'', ''ORDER BY'', ''LIMIT'', ''OFFSET'']"

definition formatSql :: "string \<Rightarrow> bool \<Rightarrow> string" where
  "formatSql sql pretty =
     (if \<not> pretty then trim (collapse_spaces False sql)
      else trim (fold (\<lambda>kw s. replace_word kw (CHR 0x0A # kw) False 0 s) pretty_keywords sql))"

definition buildDateTrunc :: "string \<Rightarrow> string \<Rightarrow> string" where
  "buildDateTrunc granularity column =
     ''date_trunc('' @ [CHR 0x27] @ granularity @ [CHR 0x27] @ '', '' @ column @ '')''"

definition buildAggregation :: "string \<Rightarrow> string \<Rightarrow> bool \<Rightarrow> string \<Rightarrow> string" where
  "buildAggregation func column distnct flt =
     (let expression =
            (if func = ''COUNT(DISTINCT'' then ''COUNT(DISTINCT '' @ column @ '')''
             else if distnct \<and> func \<noteq> ''COUNT'' then func @ ''(DISTINCT '' @ column @ '')''
             else if func = ''COUNT'' \<and> column = ''*'' then ''COUNT(*)''
             else func @ ''('' @ column @ '')'')
      in if flt \<noteq> [] then expression @ '' FILTER (WHERE '' @ flt @ '')'' else expression)"

definition buildCaseExpression :: "(string \<times> string) list \<Rightarrow> string option \<Rightarrow> string" where
  "buildCaseExpression conditions elseValue =
     (let whenClauses = join '' '' (map (\<lambda>(w, t). ''WHEN '' @ w @ '' THEN '' @ t) conditions)
      in case elseValue of
           Some e \<Rightarrow> ''CASE '' @ whenClauses @ '' ELSE '' @ e @ '' END''
         | None \<Rightarrow> ''CASE '' @ whenClauses @ '' END'')"

definition sanitizeIdentifier :: "string \<Rightarrow> string" where
  "sanitizeIdentifier i = map (\<lambda>c. if is_word_char c then c else CHR ''_'') i"

text \<open>Asking for a DISTINCT count builds a plain count.\<close>

lemma distinct_count_dropped: "buildAggregation ''COUNT'' column True [] = buildAggregation ''COUNT'' column False []"
  by (simp add: buildAggregation_def)

subsection \<open>Member references\<close>

definition index_of :: "char \<Rightarrow> string \<Rightarrow> nat option" where
  "index_of c s = (if c \<in> set s then Some (length (takeWhile (\<lambda>d. d \<noteq> c) s)) else None)"

definition MemberRef_create :: "string \<Rightarrow> string \<Rightarrow> string" where
  "MemberRef_create table mem = table @ ''.'' @ mem"

definition MemberRef_parse :: "string \<Rightarrow> string \<times> string" where
  "MemberRef_parse s =
     (case index_of (CHR ''.'') s of None \<Rightarrow> ([], s) | Some i \<Rightarrow> (take i s, drop (Suc i) s))"

definition MemberRef_isValid :: "string \<Rightarrow> bool" where
  "MemberRef_isValid s =
     (case index_of (CHR ''.'') s of None \<Rightarrow> False | Some i \<Rightarrow> i > 0 \<and> Suc i < length s)"

definition parseMemberRef :: "string \<Rightarrow> (string \<times> string) option" where
  "parseMemberRef mem = (if \<not> MemberRef_isValid mem then None else Some (MemberRef_parse mem))"

definition extractTableName :: "string \<Rightarrow> string option" where
  "extractTableName mem = (case parseMemberRef mem of None \<Rightarrow> None | Some (table, column) \<Rightarrow> Some table)"

definition extractColumnName :: "string \<Rightarrow> string option" where
  "extractColumnName mem = (case parseMemberRef mem of None \<Rightarrow> None | Some (table, column) \<Rightarrow> Some column)"

lemma index_of_app: "c \<notin> set a \<Longrightarrow> index_of c (a @ c # b) = Some (length a)"
proof -
  assume "c \<notin> set a"
  then have "takeWhile (\<lambda>d. d \<noteq> c) a = a" by (auto simp: takeWhile_eq_all_conv)
  then show ?thesis by (simp add: index_of_def takeWhile_tail)
qed

lemma parseMemberRef_create:
  "CHR ''.'' \<notin> set table \<Longrightarrow> table \<noteq> [] \<Longrightarrow> mem \<noteq> [] \<Longrightarrow>
     parseMemberRef (MemberRef_create table mem) = Some (table, mem)"
  by (simp add: parseMemberRef_def MemberRef_isValid_def MemberRef_parse_def MemberRef_create_def index_of_app)

lemma parseMemberRef_Some:
  assumes "parseMemberRef s = Some (table, column)"
  shows "s = MemberRef_create table column \<and> table \<noteq> [] \<and> column \<noteq> [] \<and> CHR ''.'' \<notin> set table"
proof -
  from assms have dot: "CHR ''.'' \<in> set s"
    by (simp add: parseMemberRef_def MemberRef_isValid_def index_of_def split: if_splits)
  then obtain a b where s: "s = a @ CHR ''.'' # b" "CHR ''.'' \<notin> set a" using split_list_first by metis
  then have "index_of (CHR ''.'') s = Some (length a)" by (simp add: index_of_app)
  with assms s show ?thesis
    by (auto simp: parseMemberRef_def MemberRef_isValid_def MemberRef_parse_def MemberRef_create_def split: if_splits)
qed

text \<open>The table and column names of a valid reference, quoted, joined by a dot.\<close>

definition quoteTableName :: "string \<Rightarrow> string \<Rightarrow> string" where
  "quoteTableName tableName schema =
     (if schema \<noteq> [] then quoteIdentifier schema @ ''.'' @ quoteIdentifier tableName else quoteIdentifier tableName)"

definition quoteColumn :: "string \<Rightarrow> string \<Rightarrow> string" where
  "quoteColumn columnName tableAlias =
     (if tableAlias \<noteq> [] then quoteIdentifier tableAlias @ ''.'' @ quoteIdentifier columnName
      else quoteIdentifier columnName)"

definition utils_quoteMemberRef :: "string \<Rightarrow> string" where
  "utils_quoteMemberRef memberRef =
     (if memberRef = ''*'' then ''*''
      else (case parseMemberRef memberRef of
              None \<Rightarrow> quoteIdentifier memberRef
            | Some (table, column) \<Rightarrow> quoteIdentifier table @ ''.'' @ quoteIdentifier column))"

end
