(* ===== verification/Query_Model.thy ===== *)
theory Query_Model
  imports Complex_Main Sql_Text
begin

text \<open>
  The query of the query engine: filters, dimensions, measures, joins, orderings and time dimensions
  (\<open>query-engine/src/types\<close>), the shared recursion over filter trees
  (\<open>internal/filter-recursion.ts\<close>), the conversion of filters to API arguments
  (\<open>engine/filter-converter.ts\<close>) and the table extractor (\<open>engine/table-extractor.ts\<close>).
\<close>

subsection \<open>Filters\<close>

datatype filter_operator =
    EQUALS | NOT_EQUALS | GT | GTE | LT | LTE | BETWEEN
  | OP_CONTAINS | NOT_CONTAINS | OP_STARTS_WITH | OP_ENDS_WITH | MATCHES
  | OP_IN | NOT_IN | IS_NULL | IS_NOT_NULL
  | ARRAY_CONTAINS | ARRAY_CONTAINS_ANY | ARRAY_CONTAINS_ALL
  | OTHER_OPERATOR string \<comment> \<open>a string that is none of the above\<close>

fun operator_text :: "filter_operator \<Rightarrow> string" where
  "operator_text EQUALS = ''equals''"
| "operator_text NOT_EQUALS = ''notEquals''"
| "operator_text GT = ''gt''"
| "operator_text GTE = ''gte''"
| "operator_text LT = ''lt''"
| "operator_text LTE = ''lte''"
| "operator_text BETWEEN = ''between''"
| "operator_text OP_CONTAINS = ''contains''"
| "operator_text NOT_CONTAINS = ''notContains''"
| "operator_text OP_STARTS_WITH = ''startsWith''"
| "operator_text OP_ENDS_WITH = ''endsWith''"
| "operator_text MATCHES = ''matches''"
| "operator_text OP_IN = ''in''"
| "operator_text NOT_IN = ''notIn''"
| "operator_text IS_NULL = ''isNull''"
| "operator_text IS_NOT_NULL = ''isNotNull''"
| "operator_text ARRAY_CONTAINS = ''arrayContains''"
| "operator_text ARRAY_CONTAINS_ANY = ''arrayContainsAny''"
| "operator_text ARRAY_CONTAINS_ALL = ''arrayContainsAll''"
| "operator_text (OTHER_OPERATOR s) = s"

definition VALUELESS_FILTER_OPERATORS :: "filter_operator list" where
  "VALUELESS_FILTER_OPERATORS = [IS_NULL, IS_NOT_NULL]"

definition MULTI_VALUE_FILTER_OPERATORS :: "filter_operator list" where
  "MULTI_VALUE_FILTER_OPERATORS = [OP_IN, NOT_IN, BETWEEN, ARRAY_CONTAINS_ANY, ARRAY_CONTAINS_ALL]"

definition operatorRequiresValues :: "filter_operator \<Rightarrow> bool" where
  "operatorRequiresValues op \<longleftrightarrow> op \<notin> set VALUELESS_FILTER_OPERATORS"

definition operatorAcceptsMultipleValues :: "filter_operator \<Rightarrow> bool" where
  "operatorAcceptsMultipleValues op \<longleftrightarrow> op \<in> set MULTI_VALUE_FILTER_OPERATORS"

record filter_condition =
  fc_member :: string
  fc_operator :: filter_operator
  fc_values :: "filter_value list option"
  caseInsensitive :: "bool option"

text \<open>\<open>Malformed\<close> is an object that is neither a condition nor a group.\<close>

datatype filter_expression =
    Condition filter_condition
  | AndGroup "filter_expression list"
  | OrGroup "filter_expression list"
  | Malformed

definition createFilterCondition :: "string \<Rightarrow> filter_operator \<Rightarrow> filter_value list option \<Rightarrow> filter_condition" where
  "createFilterCondition mem op vs =
     \<lparr>fc_member = mem, fc_operator = op, fc_values = vs, caseInsensitive = None\<rparr>"

fun mapFilterExpression ::
  "(filter_condition \<Rightarrow> nat \<Rightarrow> 'r) \<Rightarrow> ('r list \<Rightarrow> nat \<Rightarrow> 'r) \<Rightarrow> ('r list \<Rightarrow> nat \<Rightarrow> 'r) \<Rightarrow> filter_expression \<Rightarrow> nat \<Rightarrow> 'r" where
  "mapFilterExpression onCondition onAndGroup onOrGroup (Condition c) depth = onCondition c depth"
| "mapFilterExpression onCondition onAndGroup onOrGroup (AndGroup es) depth =
     onAndGroup (map (\<lambda>e. mapFilterExpression onCondition onAndGroup onOrGroup e (Suc depth)) es) depth"
| "mapFilterExpression onCondition onAndGroup onOrGroup (OrGroup es) depth =
     onOrGroup (map (\<lambda>e. mapFilterExpression onCondition onAndGroup onOrGroup e (Suc depth)) es) depth"
| "mapFilterExpression onCondition onAndGroup onOrGroup Malformed depth = onAndGroup [] depth"

text \<open>Without callbacks that look at the depth, the depth does not matter.\<close>

fun fold_filter :: "(filter_condition \<Rightarrow> 'r) \<Rightarrow> ('r list \<Rightarrow> 'r) \<Rightarrow> ('r list \<Rightarrow> 'r) \<Rightarrow> filter_expression \<Rightarrow> 'r" where
  "fold_filter f g h (Condition c) = f c"
| "fold_filter f g h (AndGroup es) = g (map (fold_filter f g h) es)"
| "fold_filter f g h (OrGroup es) = h (map (fold_filter f g h) es)"
| "fold_filter f g h Malformed = g []"

lemma map_filter_fold:
  "mapFilterExpression (\<lambda>c _. f c) (\<lambda>cs _. g cs) (\<lambda>cs _. h cs) e d = fold_filter f g h e"
  by (induction e arbitrary: d) (simp_all cong: map_cong)

subsection \<open>Dimensions, measures, joins, orderings, time\<close>

record dimension_spec =
  dim_member :: string
  dim_alias :: "string option"

datatype aggregation = AGG_SUM | AGG_COUNT | AGG_AVG | AGG_MIN | AGG_MAX | AGG_COUNT_DISTINCT | AGG_SUM_DISTINCT | AGG_AVG_DISTINCT

fun aggregation_text :: "aggregation \<Rightarrow> string" where
  "aggregation_text AGG_SUM = ''sum''"
| "aggregation_text AGG_COUNT = ''count''"
| "aggregation_text AGG_AVG = ''avg''"
| "aggregation_text AGG_MIN = ''min''"
| "aggregation_text AGG_MAX = ''max''"
| "aggregation_text AGG_COUNT_DISTINCT = ''countDistinct''"
| "aggregation_text AGG_SUM_DISTINCT = ''sumDistinct''"
| "aggregation_text AGG_AVG_DISTINCT = ''avgDistinct''"

definition isDistinctAggregation :: "aggregation \<Rightarrow> bool" where
  "isDistinctAggregation a \<longleftrightarrow> a \<in> {AGG_COUNT_DISTINCT, AGG_SUM_DISTINCT, AGG_AVG_DISTINCT}"

definition isCountAggregation :: "aggregation \<Rightarrow> bool" where
  "isCountAggregation a \<longleftrightarrow> a \<in> {AGG_COUNT, AGG_COUNT_DISTINCT}"

definition isNumericAggregation :: "aggregation \<Rightarrow> bool" where
  "isNumericAggregation a \<longleftrightarrow> a \<in> {AGG_SUM, AGG_AVG, AGG_MIN, AGG_MAX, AGG_SUM_DISTINCT, AGG_AVG_DISTINCT}"

fun getAggregationSqlFunction :: "aggregation \<Rightarrow> string" where
  "getAggregationSqlFunction AGG_SUM = ''SUM''"
| "getAggregationSqlFunction AGG_SUM_DISTINCT = ''SUM''"
| "getAggregationSqlFunction AGG_COUNT = ''COUNT''"
| "getAggregationSqlFunction AGG_COUNT_DISTINCT = ''COUNT''"
| "getAggregationSqlFunction AGG_AVG = ''AVG''"
| "getAggregationSqlFunction AGG_AVG_DISTINCT = ''AVG''"
| "getAggregationSqlFunction AGG_MIN = ''MIN''"
| "getAggregationSqlFunction AGG_MAX = ''MAX''"

record measure_spec =
  ms_member :: string
  ms_aggregation :: aggregation
  ms_alias :: "string option"
  ms_distinct :: bool
  ms_filter :: "filter_condition option"

definition measureUsesDistinct :: "measure_spec \<Rightarrow> bool" where
  "measureUsesDistinct m =
     (if ms_distinct m then True
      else ms_aggregation m = AGG_COUNT_DISTINCT \<or> ms_aggregation m = AGG_SUM_DISTINCT \<or> ms_aggregation m = AGG_AVG_DISTINCT)"

lemma measureUsesDistinct_iff: "measureUsesDistinct m \<longleftrightarrow> isDistinctAggregation (ms_aggregation m) \<or> ms_distinct m"
  by (auto simp: measureUsesDistinct_def isDistinctAggregation_def)

datatype join_type = INNER | LEFT | RIGHT | FULL | CROSS

fun getJoinSqlKeyword :: "join_type \<Rightarrow> string" where
  "getJoinSqlKeyword INNER = ''INNER JOIN''"
| "getJoinSqlKeyword LEFT = ''LEFT OUTER JOIN''"
| "getJoinSqlKeyword RIGHT = ''RIGHT OUTER JOIN''"
| "getJoinSqlKeyword FULL = ''FULL OUTER JOIN''"
| "getJoinSqlKeyword CROSS = ''CROSS JOIN''"

record join_spec =
  join_left :: string
  join_right :: string
  join_kind :: join_type
  additionalConditions :: "(string \<times> string) list option"

datatype order_direction = ASC | DESC
datatype nulls_handling = FIRST | LAST

record order_by_spec =
  ob_member :: string
  ob_direction :: order_direction
  ob_nulls :: "nulls_handling option"

datatype time_granularity = SECOND | MINUTE | HOUR | DAY | WEEK | MONTH | QUARTER | YEAR

fun getDateTruncUnit :: "time_granularity \<Rightarrow> string" where
  "getDateTruncUnit SECOND = ''second''"
| "getDateTruncUnit MINUTE = ''minute''"
| "getDateTruncUnit HOUR = ''hour''"
| "getDateTruncUnit DAY = ''day''"
| "getDateTruncUnit WEEK = ''week''"
| "getDateTruncUnit MONTH = ''month''"
| "getDateTruncUnit QUARTER = ''quarter''"
| "getDateTruncUnit YEAR = ''year''"

datatype preset_date_range =
    TODAY | YESTERDAY | THIS_WEEK | LAST_WEEK | THIS_MONTH | LAST_MONTH | THIS_QUARTER | LAST_QUARTER
  | THIS_YEAR | LAST_YEAR | LAST_7_DAYS | LAST_14_DAYS | LAST_30_DAYS | LAST_60_DAYS | LAST_90_DAYS
  | LAST_365_DAYS | ALL_TIME

datatype date_range_spec =
    Preset preset_date_range
  | Date_range string string \<comment> \<open>\<open>{ from, to }\<close>\<close>
  | Date_tuple string string
  | Relative int time_granularity
  | Unresolvable \<comment> \<open>an object none of the guards accepts\<close>

record time_dimension_spec =
  td_dimension :: string
  td_granularity :: "time_granularity option"
  td_dateRange :: "date_range_spec option"

subsection \<open>The query\<close>

datatype operation = OP_GET | OP_LIST | OP_CREATE | OP_UPDATE | OP_DELETE

definition isReadOperation :: "operation \<Rightarrow> bool" where
  "isReadOperation op \<longleftrightarrow> op \<in> {OP_GET, OP_LIST}"

definition isMutationOperation :: "operation \<Rightarrow> bool" where
  "isMutationOperation op \<longleftrightarrow> op \<in> {OP_CREATE, OP_UPDATE, OP_DELETE}"

lemma read_or_mutation: "isReadOperation op \<longleftrightarrow> \<not> isMutationOperation op"
  by (cases op) (simp_all add: isReadOperation_def isMutationOperation_def)

record query =
  q_operation :: "operation option"
  q_dimensions :: "dimension_spec list option"
  q_measures :: "measure_spec list option"
  q_filters :: "filter_expression list option"
  q_joins :: "join_spec list option"
  q_orderBy :: "order_by_spec list option"
  q_timeDimensions :: "time_dimension_spec list option"
  q_limit :: "int option"
  q_offset :: "int option"
  q_entityId :: "string option"

definition empty_query :: query where
  "empty_query = \<lparr>q_operation = None, q_dimensions = None, q_measures = None, q_filters = None, q_joins = None,
     q_orderBy = None, q_timeDimensions = None, q_limit = None, q_offset = None, q_entityId = None\<rparr>"

text \<open>\<open>query.xs ?? []\<close>.\<close>

definition or_empty :: "'a list option \<Rightarrow> 'a list" where
  "or_empty xs = (case xs of None \<Rightarrow> [] | Some ys \<Rightarrow> ys)"

definition queryRequiresDuckDB :: "query \<Rightarrow> bool" where
  "queryRequiresDuckDB q =
     (if or_empty (q_joins q) \<noteq> [] then True
      else if or_empty (q_measures q) \<noteq> [] then True
      else if or_empty (q_timeDimensions q) \<noteq> [] then True
      else False)"

definition isMutationQuery :: "query \<Rightarrow> bool" where
  "isMutationQuery q = (case q_operation q of None \<Rightarrow> False | Some op \<Rightarrow> isMutationOperation op)"

definition isReadQuery :: "query \<Rightarrow> bool" where
  "isReadQuery q = (case q_operation q of None \<Rightarrow> True | Some op \<Rightarrow> isReadOperation op)"

lemma read_xor_mutation_query: "isReadQuery q \<longleftrightarrow> \<not> isMutationQuery q"
  by (simp add: isReadQuery_def isMutationQuery_def read_or_mutation split: option.split)

definition getQueryOperation :: "query \<Rightarrow> operation" where
  "getQueryOperation q = (case q_operation q of None \<Rightarrow> OP_LIST | Some op \<Rightarrow> op)"

definition createListQuery :: "string \<Rightarrow> string list \<Rightarrow> query" where
  "createListQuery table columns =
     empty_query\<lparr>q_dimensions := Some (map (\<lambda>col. \<lparr>dim_member = table @ ''.'' @ col, dim_alias = None\<rparr>) columns)\<rparr>"

definition createGetQuery :: "string \<Rightarrow> string \<Rightarrow> query" where
  "createGetQuery table entityId =
     empty_query\<lparr>q_operation := Some OP_GET,
       q_dimensions := Some [\<lparr>dim_member = table @ ''.id'', dim_alias = None\<rparr>], q_entityId := Some entityId\<rparr>"

definition createCountQuery :: "string \<Rightarrow> string \<Rightarrow> query" where
  "createCountQuery table column =
     empty_query\<lparr>q_measures := Some [\<lparr>ms_member = table @ ''.'' @ column, ms_aggregation = AGG_COUNT,
       ms_alias = Some ''count'', ms_distinct = False, ms_filter = None\<rparr>]\<rparr>"

subsection \<open>Filters as API arguments\<close>

type_synonym converted_args = "(string, filter_value) jmap"

fun isConvertibleFilter :: "filter_expression \<Rightarrow> bool" where
  "isConvertibleFilter (Condition c) = (fc_operator c = EQUALS \<and> length (or_empty (fc_values c)) = 1)"
| "isConvertibleFilter _ = False"

fun convert_filter :: "filter_expression \<Rightarrow> converted_args \<Rightarrow> converted_args" where
  "convert_filter (Condition c) args =
     (if isConvertibleFilter (Condition c)
      then (case parseMemberRef (fc_member c) of
              Some (table, column) \<Rightarrow>
                (case or_empty (fc_values c) of [v] \<Rightarrow> jm_set column v args | _ \<Rightarrow> args)
            | None \<Rightarrow> args)
      else args)"
| "convert_filter _ args = args"

definition convertFiltersToArgs :: "query \<Rightarrow> converted_args" where
  "convertFiltersToArgs q =
     (let args = [];
          args = (case q_limit q of Some l \<Rightarrow> jm_set ''limit'' (FNumber l) args | None \<Rightarrow> args);
          args = (case q_offset q of Some off \<Rightarrow> jm_set ''offset'' (FNumber off) args | None \<Rightarrow> args)
      in (case q_filters q of Some fs \<Rightarrow> fold convert_filter fs args | None \<Rightarrow> args))"

definition hasComplexFilters :: "query \<Rightarrow> bool" where
  "hasComplexFilters q =
     (case q_filters q of None \<Rightarrow> False
      | Some fs \<Rightarrow> if fs = [] then False else list_ex (\<lambda>f. \<not> isConvertibleFilter f) fs)"

definition countConvertibleFilters :: "query \<Rightarrow> nat" where
  "countConvertibleFilters q =
     (case q_filters q of None \<Rightarrow> 0 | Some fs \<Rightarrow> length (filter isConvertibleFilter fs))"

definition equals_filter :: "string \<Rightarrow> filter_value \<Rightarrow> filter_expression" where
  "equals_filter mem v = Condition (createFilterCondition mem EQUALS (Some [v]))"

text \<open>Arguments are keyed by column only: of two filters on one column name the later wins, and a column
  called \<open>limit\<close> replaces the page size.\<close>

lemma conflicting_filters_lost:
  "\<not> hasComplexFilters (empty_query\<lparr>q_filters := Some [equals_filter ''users.id'' (FNumber 1), equals_filter ''orders.id'' (FNumber 2)]\<rparr>) \<and>
   convertFiltersToArgs (empty_query\<lparr>q_filters := Some [equals_filter ''users.id'' (FNumber 1), equals_filter ''orders.id'' (FNumber 2)]\<rparr>) =
     [(''id'', FNumber 2)]"
  by (intro conjI; code_simp)

lemma limit_column_replaces_limit:
  "convertFiltersToArgs (empty_query\<lparr>q_limit := Some 10, q_filters := Some [equals_filter ''accounts.limit'' (FNumber 5000)]\<rparr>) =
     [(''limit'', FNumber 5000)]"
  by code_simp

lemma convert_filter_get:
  "isConvertibleFilter f \<Longrightarrow> f = Condition c \<Longrightarrow> parseMemberRef (fc_member c) = Some (t, col) \<Longrightarrow>
     jm_get (convert_filter f args) k = (if k = col then Some (hd (or_empty (fc_values c))) else jm_get args k)"
  by (auto simp: length_Suc_conv split: option.splits list.splits)

subsection \<open>Tables of a query\<close>

text \<open>\<open>table ? [table] : []\<close>; a parsed table name is never empty.\<close>

definition opt_table :: "string \<Rightarrow> string list" where
  "opt_table mem = (case extractTableName mem of Some t \<Rightarrow> [t] | None \<Rightarrow> [])"

definition extractTablesFromCondition :: "filter_condition \<Rightarrow> string list" where
  "extractTablesFromCondition c = opt_table (fc_member c)"

definition extractTablesFromFilterExpression :: "filter_expression \<Rightarrow> string list" where
  "extractTablesFromFilterExpression e =
     mapFilterExpression (\<lambda>c _. extractTablesFromCondition c) (\<lambda>cs _. concat cs) (\<lambda>cs _. concat cs) e 0"

definition extractFromDimensions :: "dimension_spec list \<Rightarrow> string list" where
  "extractFromDimensions ds = concat (map (\<lambda>d. opt_table (dim_member d)) ds)"

definition extractFromMeasures :: "measure_spec list \<Rightarrow> string list" where
  "extractFromMeasures ms =
     concat (map (\<lambda>m. opt_table (ms_member m) @
       (case ms_filter m of Some f \<Rightarrow> opt_table (fc_member f) | None \<Rightarrow> [])) ms)"

definition extractFromFilters :: "filter_expression list \<Rightarrow> string list" where
  "extractFromFilters fs = concat (map extractTablesFromFilterExpression fs)"

definition extractFromJoins :: "join_spec list \<Rightarrow> string list" where
  "extractFromJoins js =
     concat (map (\<lambda>j. opt_table (join_left j) @ opt_table (join_right j) @
       (case additionalConditions j of
          Some cs \<Rightarrow> concat (map (\<lambda>(l, r). opt_table l @ opt_table r) cs)
        | None \<Rightarrow> [])) js)"

definition extractFromOrderBy :: "order_by_spec list \<Rightarrow> string list" where
  "extractFromOrderBy obs = concat (map (\<lambda>x. opt_table (ob_member x)) obs)"

fun dedup :: "string list \<Rightarrow> string list \<Rightarrow> string list" where
  "dedup seen [] = []"
| "dedup seen (x # xs) = (if x \<in> set seen then dedup seen xs else x # dedup (x # seen) xs)"

definition deduplicatePreserveOrder :: "string list \<Rightarrow> string list" where
  "deduplicatePreserveOrder xs = dedup [] xs"

record table_extraction =
  te_tables :: "string list"
  te_primaryTable :: "string option"
  te_fromDimensions :: "string list"
  te_fromMeasures :: "string list"
  te_fromFilters :: "string list"
  te_fromJoins :: "string list"
  te_fromOrderBy :: "string list"
  te_hasTable :: bool
  te_hasMultipleTables :: bool

definition extractDetailed :: "query \<Rightarrow> table_extraction" where
  "extractDetailed q =
     (let fromDimensions = extractFromDimensions (or_empty (q_dimensions q));
          fromMeasures = extractFromMeasures (or_empty (q_measures q));
          fromFilters = extractFromFilters (or_empty (q_filters q));
          fromJoins = extractFromJoins (or_empty (q_joins q));
          fromOrderBy = extractFromOrderBy (or_empty (q_orderBy q));
          allTables = fromDimensions @ fromMeasures @ fromFilters @ fromJoins @ fromOrderBy;
          uniqueTables = deduplicatePreserveOrder allTables
      in \<lparr>te_tables = uniqueTables,
          te_primaryTable = (case uniqueTables of [] \<Rightarrow> None | t # _ \<Rightarrow> Some t),
          te_fromDimensions = deduplicatePreserveOrder fromDimensions,
          te_fromMeasures = deduplicatePreserveOrder fromMeasures,
          te_fromFilters = deduplicatePreserveOrder fromFilters,
          te_fromJoins = deduplicatePreserveOrder fromJoins,
          te_fromOrderBy = deduplicatePreserveOrder fromOrderBy,
          te_hasTable = uniqueTables \<noteq> [],
          te_hasMultipleTables = length uniqueTables > 1\<rparr>)"

definition extract_tables :: "query \<Rightarrow> string list" where
  "extract_tables q = te_tables (extractDetailed q)"

definition getPrimaryTable :: "query \<Rightarrow> string option" where
  "getPrimaryTable q = te_primaryTable (extractDetailed q)"

lemma set_dedup: "set (dedup seen xs) = set xs - set seen"
  by (induction seen xs rule: dedup.induct) auto

lemma distinct_dedup: "distinct (dedup seen xs)"
  by (induction seen xs rule: dedup.induct) (auto simp: set_dedup)

lemma extract_tables_distinct: "distinct (extract_tables q)"
  by (simp add: extract_tables_def extractDetailed_def deduplicatePreserveOrder_def distinct_dedup Let_def)

lemma opt_table_iff: "t \<in> set (opt_table mem) \<longleftrightarrow> extractTableName mem = Some t"
  by (auto simp: opt_table_def split: option.splits)

text \<open>Time dimensions are not looked at: a query with only time dimensions has no table.\<close>

lemma time_dimension_tables_missed:
  "extract_tables (empty_query\<lparr>q_timeDimensions :=
     Some [\<lparr>td_dimension = ''orders.created_at'', td_granularity = Some DAY, td_dateRange = None\<rparr>]\<rparr>) = []"
  by code_simp

end
