(* ===== verification/Payload_Hash.thy ===== *)
theory Payload_Hash
  imports Foundation_Prelude "HOL-Library.Word"
begin

text \<open>
  The 32-bit hash of \<open>utils/src/hash\<close> that keys the SQL compilation cache and the idempotency
  keys of mutations. Texts of hashes are equal exactly when the hashes are.
\<close>

text \<open>
  JavaScript's \<open>hash * 33\<close> is exact for a 32-bit \<open>hash\<close> and \<open>^\<close> truncates to 32 bits, so the loop is
  arithmetic on 32-bit words. The result is printed as eight hexadecimal digits.
\<close>

definition hash_word :: "string \<Rightarrow> 32 word" where
  "hash_word s = fold (\<lambda>c h. xor (h * 33) (word_of_nat (of_char c))) s 5381"

definition hash_digit :: "nat \<Rightarrow> char" where
  "hash_digit n = (if n < 10 then char_of (48 + n) else char_of (87 + n))"

fun hex_digits :: "nat \<Rightarrow> nat \<Rightarrow> string" where
  "hex_digits 0 n = []"
| "hex_digits (Suc k) n = hex_digits k (n div 16) @ [hash_digit (n mod 16)]"

definition simpleHash :: "string \<Rightarrow> string" where
  "simpleHash s = hex_digits 8 (unat (hash_word s))"

definition hashPayloadSync :: "('p \<Rightarrow> string) \<Rightarrow> 'p \<Rightarrow> string" where
  "hashPayloadSync stringify payload = simpleHash (stringify payload)"

lemma hash_digit_inject: "m < 16 \<Longrightarrow> n < 16 \<Longrightarrow> hash_digit m = hash_digit n \<Longrightarrow> m = n"
proof -
  assume "m < 16" "n < 16" "hash_digit m = hash_digit n"
  then have "of_char (hash_digit m) = (of_char (hash_digit n) :: nat)" by simp
  with \<open>m < 16\<close> \<open>n < 16\<close> show "m = n" by (auto simp: hash_digit_def split: if_splits)
qed

lemma hex_digits_inject: "m < 16 ^ k \<Longrightarrow> n < 16 ^ k \<Longrightarrow> hex_digits k m = hex_digits k n \<Longrightarrow> m = n"
proof (induction k arbitrary: m n)
  case (Suc k)
  from Suc.prems have "hex_digits k (m div 16) = hex_digits k (n div 16)" "hash_digit (m mod 16) = hash_digit (n mod 16)"
    by simp_all
  moreover from Suc.prems have "m div 16 < 16 ^ k" "n div 16 < 16 ^ k" by (simp_all add: less_mult_imp_div_less mult.commute)
  ultimately have "m div 16 = n div 16" "m mod 16 = n mod 16"
    using Suc.IH hash_digit_inject [of "m mod 16" "n mod 16"] by simp_all
  then show ?case by (metis div_mult_mod_eq)
qed simp

text \<open>The text of a hash is eight characters and determines the 32-bit value: keys collide exactly when hashes do.\<close>

lemma simpleHash_eq_iff: "simpleHash s = simpleHash t \<longleftrightarrow> hash_word s = hash_word t"
proof -
  have "unat (hash_word u) < 16 ^ 8" for u
  proof -
    have "unat (hash_word u) < 2 ^ LENGTH(32)" by (rule unsigned_less)
    then show ?thesis by simp
  qed
  then show ?thesis unfolding simpleHash_def using hex_digits_inject by (metis word_unat_eq_iff)
qed

end
