(* ===== verification/Sql_Compiler.thy ===== *)
theory Sql_Compiler
  imports Query_Model Payload_Hash
begin

text \<open>
  The SQL compiler (\<open>query-engine/src/compiler/sql-compiler.ts\<close>) and its cache, keyed by the
  hash of \<open>Payload_Hash\<close>: one definition per clause, \<open>compileInternal\<close> for the whole query, and the
  compiler object with its LRU cache. Resolving preset and relative date ranges needs the
  calendar and is an argument; \<open>JSON.stringify\<close> of a query and its options is an argument of the
  cached compiler, since it depends on the order in which the caller wrote the properties.
  Names are quoted by \<open>quoteIdentifier\<close>, which the validation cache does not change
  (\<open>qe_quoteIdentifier_eq\<close> in \<open>Sql_Text\<close>).
\<close>

subsection \<open>Filters\<close>

datatype compile_error = QueryCompilationError string | DisposedError

definition quoteMemberRef :: "string \<Rightarrow> string" where
  "quoteMemberRef mem =
     (case parseMemberRef mem of
        None \<Rightarrow> quoteIdentifier mem
      | Some (table, column) \<Rightarrow> quoteIdentifier table @ ''.'' @ quoteIdentifier column)"

text \<open>The compiler's list has parentheses around it.\<close>

definition paren_value_list :: "filter_value list \<Rightarrow> string" where
  "paren_value_list vs = ''('' @ join '', '' (map formatValue vs) @ '')''"

definition getStringFilterValue :: "filter_value \<Rightarrow> string" where
  "getStringFilterValue v =
     (case v of
        FString s \<Rightarrow> s
      | FNull \<Rightarrow> ''null''
      | FNumber n \<Rightarrow> show_int n
      | FBool b \<Rightarrow> if b then ''true'' else ''false''
      | FDate _ display \<Rightarrow> display)"

definition validateFilterValues :: "filter_condition \<Rightarrow> filter_value list \<Rightarrow> compile_error + unit" where
  "validateFilterValues c vs =
     (if \<not> operatorRequiresValues (fc_operator c) then Inr ()
      else if vs = [] then
        Inl (QueryCompilationError (''Filter operator '' @ [CHR 0x27] @ operator_text (fc_operator c) @ [CHR 0x27] @ '' on member ''
          @ [CHR 0x27] @ fc_member c @ [CHR 0x27] @ '' requires at least one value, but none were provided''))
      else if fc_operator c = BETWEEN \<and> length vs < 2 then
        Inl (QueryCompilationError (''Filter operator '' @ [CHR 0x27] @ ''between'' @ [CHR 0x27] @ '' on member ''
          @ [CHR 0x27] @ fc_member c @ [CHR 0x27] @ '' requires exactly 2 values, but '' @ show_nat (length vs) @ '' were provided''))
      else Inr ())"

definition escape_clause :: string where
  "escape_clause = '' ESCAPE '' @ [CHR 0x27, CHR 0x5C, CHR 0x27]"

definition compileFilterCondition :: "filter_condition \<Rightarrow> compile_error + string" where
  "compileFilterCondition c =
     (let memberRef = quoteMemberRef (fc_member c);
          vs = or_empty (fc_values c)
      in case validateFilterValues c vs of
           Inl e \<Rightarrow> Inl e
         | Inr () \<Rightarrow>
             (case fc_operator c of
                EQUALS \<Rightarrow> Inr (memberRef @ '' = '' @ formatValue (vs ! 0))
              | NOT_EQUALS \<Rightarrow> Inr (memberRef @ '' != '' @ formatValue (vs ! 0))
              | GT \<Rightarrow> Inr (memberRef @ '' > '' @ formatValue (vs ! 0))
              | GTE \<Rightarrow> Inr (memberRef @ '' >= '' @ formatValue (vs ! 0))
              | LT \<Rightarrow> Inr (memberRef @ '' < '' @ formatValue (vs ! 0))
              | LTE \<Rightarrow> Inr (memberRef @ '' <= '' @ formatValue (vs ! 0))
              | BETWEEN \<Rightarrow> Inr (memberRef @ '' BETWEEN '' @ formatValue (vs ! 0) @ '' AND '' @ formatValue (vs ! 1))
              | OP_IN \<Rightarrow> if vs = [] then Inr ''FALSE'' else Inr (memberRef @ '' IN '' @ paren_value_list vs)
              | NOT_IN \<Rightarrow> if vs = [] then Inr ''TRUE'' else Inr (memberRef @ '' NOT IN '' @ paren_value_list vs)
              | OP_CONTAINS \<Rightarrow>
                  Inr (memberRef @ '' LIKE '' @ buildLikePattern (getStringFilterValue (vs ! 0)) CONTAINS @ escape_clause)
              | NOT_CONTAINS \<Rightarrow>
                  Inr (memberRef @ '' NOT LIKE '' @ buildLikePattern (getStringFilterValue (vs ! 0)) CONTAINS @ escape_clause)
              | OP_STARTS_WITH \<Rightarrow>
                  Inr (memberRef @ '' LIKE '' @ buildLikePattern (getStringFilterValue (vs ! 0)) STARTS_WITH @ escape_clause)
              | OP_ENDS_WITH \<Rightarrow>
                  Inr (memberRef @ '' LIKE '' @ buildLikePattern (getStringFilterValue (vs ! 0)) ENDS_WITH @ escape_clause)
              | MATCHES \<Rightarrow> Inr (memberRef @ '' ~ '' @ formatValue (vs ! 0))
              | IS_NULL \<Rightarrow> Inr (memberRef @ '' IS NULL'')
              | IS_NOT_NULL \<Rightarrow> Inr (memberRef @ '' IS NOT NULL'')
              | ARRAY_CONTAINS \<Rightarrow> Inr (''list_contains('' @ memberRef @ '', '' @ formatValue (vs ! 0) @ '')'')
              | ARRAY_CONTAINS_ANY \<Rightarrow>
                  if vs = [] then Inr ''FALSE''
                  else Inr (''list_has_any('' @ memberRef @ '', ['' @ join '', '' (map formatValue vs) @ ''])'')
              | ARRAY_CONTAINS_ALL \<Rightarrow>
                  if vs = [] then Inr ''TRUE''
                  else Inr (''list_has_all('' @ memberRef @ '', ['' @ join '', '' (map formatValue vs) @ ''])'')
              | OTHER_OPERATOR unknownOp \<Rightarrow>
                  Inl (QueryCompilationError (''Unknown filter operator '' @ [CHR 0x27] @ unknownOp @ [CHR 0x27] @ '' on member ''
                    @ [CHR 0x27] @ fc_member c @ [CHR 0x27] @ ''. Valid operators: equals, notEquals, gt, gte, lt, lte, between, in, notIn, ''
                    @ ''contains, notContains, startsWith, endsWith, matches, isNull, isNotNull, ''
                    @ ''arrayContains, arrayContainsAny, arrayContainsAll''))))"

text \<open>A group's text from its children's; a child that throws makes the group throw.\<close>

definition compile_group :: "string \<Rightarrow> (compile_error + string) list \<Rightarrow> compile_error + string" where
  "compile_group sep results =
     (case sum_sequence results of
        Inl e \<Rightarrow> Inl e
      | Inr children \<Rightarrow>
          Inr (if length children > 1 then ''('' @ join sep children @ '')''
               else (case children of [] \<Rightarrow> ''TRUE'' | c # _ \<Rightarrow> c)))"

definition compileFilterExpression :: "filter_expression \<Rightarrow> compile_error + string" where
  "compileFilterExpression e =
     mapFilterExpression (\<lambda>c _. compileFilterCondition c) (\<lambda>cs _. compile_group '' AND '' cs)
       (\<lambda>cs _. compile_group '' OR '' cs) e 0"

subsection \<open>Clauses\<close>

text \<open>\<open>alias ?? parsed?.column ?? member\<close>.\<close>

definition compileDimensionSelect :: "dimension_spec \<Rightarrow> string" where
  "compileDimensionSelect d =
     (let memberRef = quoteMemberRef (dim_member d);
          al = (case dim_alias d of
                  Some a \<Rightarrow> a
                | None \<Rightarrow> (case parseMemberRef (dim_member d) of Some (t, c) \<Rightarrow> c | None \<Rightarrow> dim_member d))
      in memberRef @ '' AS '' @ quoteIdentifier al)"

definition compileMeasureSelect :: "measure_spec \<Rightarrow> compile_error + string" where
  "compileMeasureSelect m =
     (let memberRef = quoteMemberRef (ms_member m);
          aggFunc = getAggregationSqlFunction (ms_aggregation m);
          useDistinct = isDistinctAggregation (ms_aggregation m) \<or> ms_distinct m;
          al = (case ms_alias m of
                  Some a \<Rightarrow> a
                | None \<Rightarrow> aggregation_text (ms_aggregation m) @ ''_'' @
                    (case parseMemberRef (ms_member m) of Some (t, c) \<Rightarrow> c | None \<Rightarrow> ''value''))
      in case ms_filter m of
           Some f \<Rightarrow>
             (case compileFilterCondition f of
                Inl e \<Rightarrow> Inl e
              | Inr filterCondition \<Rightarrow>
                  Inr ((if useDistinct
                        then aggFunc @ ''(DISTINCT CASE WHEN '' @ filterCondition @ '' THEN '' @ memberRef @ '' END)''
                        else aggFunc @ ''(CASE WHEN '' @ filterCondition @ '' THEN '' @ memberRef @ '' END)'')
                       @ '' AS '' @ quoteIdentifier al))
         | None \<Rightarrow>
             Inr ((if useDistinct then aggFunc @ ''(DISTINCT '' @ memberRef @ '')'' else aggFunc @ ''('' @ memberRef @ '')'')
                  @ '' AS '' @ quoteIdentifier al))"

text \<open>The loop over the joins, with the tables joined so far.\<close>

fun join_clauses :: "join_spec list \<Rightarrow> string list \<Rightarrow> string list" where
  "join_clauses [] joined = []"
| "join_clauses (j # js) joined =
     (case (parseMemberRef (join_left j), parseMemberRef (join_right j)) of
        (Some (lt, lc), Some (rt, rc)) \<Rightarrow>
          (let tableToJoin = (if lt \<in> set joined then rt else lt);
               clause = getJoinSqlKeyword (join_kind j) @ '' '' @ quoteIdentifier tableToJoin @ '' ON ''
                 @ quoteMemberRef (join_left j) @ '' = '' @ quoteMemberRef (join_right j);
               clause = (case additionalConditions j of
                   Some cs \<Rightarrow> clause @ '' AND '' @
                     join '' AND '' (map (\<lambda>(l, r). quoteMemberRef l @ '' = '' @ quoteMemberRef r) cs)
                 | None \<Rightarrow> clause)
           in clause # join_clauses js (js_add tableToJoin joined))
      | _ \<Rightarrow> join_clauses js joined)"

definition newline :: string where
  "newline = [CHR 0x0A]"

definition compileJoinClauses :: "join_spec list \<Rightarrow> string \<Rightarrow> string" where
  "compileJoinClauses js primaryTable =
     (if js = [] then [] else join newline (join_clauses js [primaryTable]))"

fun direction_text :: "order_direction \<Rightarrow> string" where
  "direction_text ASC = ''ASC''"
| "direction_text DESC = ''DESC''"

fun nulls_text :: "nulls_handling \<Rightarrow> string" where
  "nulls_text FIRST = ''FIRST''"
| "nulls_text LAST = ''LAST''"

definition order_part :: "order_by_spec \<Rightarrow> string" where
  "order_part ob =
     quoteMemberRef (ob_member ob) @ '' '' @ direction_text (ob_direction ob) @
     (case ob_nulls ob of Some n \<Rightarrow> '' NULLS '' @ nulls_text n | None \<Rightarrow> [])"

definition compileOrderByClause :: "order_by_spec list \<Rightarrow> string" where
  "compileOrderByClause obs = (if obs = [] then [] else ''ORDER BY '' @ join '', '' (map order_part obs))"

record calendar =
  preset_range :: "preset_date_range \<Rightarrow> string \<times> string"
  relative_range :: "int \<Rightarrow> time_granularity \<Rightarrow> string \<times> string"

definition resolveDateRange :: "calendar \<Rightarrow> date_range_spec \<Rightarrow> (string \<times> string) option" where
  "resolveDateRange cal rg =
     (case rg of
        Preset p \<Rightarrow> Some (preset_range cal p)
      | Date_range a b \<Rightarrow> Some (a, b)
      | Date_tuple a b \<Rightarrow> Some (a, b)
      | Relative n u \<Rightarrow> Some (relative_range cal n u)
      | Unresolvable \<Rightarrow> None)"

definition date_trunc_text :: "time_dimension_spec \<Rightarrow> time_granularity \<Rightarrow> string" where
  "date_trunc_text td g =
     ''DATE_TRUNC('' @ [CHR 0x27] @ getDateTruncUnit g @ [CHR 0x27] @ '', '' @ quoteMemberRef (td_dimension td) @ '')''"

definition compileTimeDimensionSelect :: "time_dimension_spec \<Rightarrow> time_granularity \<Rightarrow> string" where
  "compileTimeDimensionSelect td g =
     (let truncUnit = getDateTruncUnit g;
          al = (case parseMemberRef (td_dimension td) of
                  Some (t, c) \<Rightarrow> c @ ''_'' @ truncUnit
                | None \<Rightarrow> ''time_'' @ truncUnit)
      in date_trunc_text td g @ '' AS '' @ quoteIdentifier al)"

definition compileTimeDimensionFilter :: "calendar \<Rightarrow> time_dimension_spec \<Rightarrow> date_range_spec \<Rightarrow> string option" where
  "compileTimeDimensionFilter cal td rg =
     (case resolveDateRange cal rg of
        None \<Rightarrow> None
      | Some (a, b) \<Rightarrow>
          Some (quoteMemberRef (td_dimension td) @ '' BETWEEN '' @ [CHR 0x27] @ a @ [CHR 0x27]
            @ '' AND '' @ [CHR 0x27] @ b @ [CHR 0x27]))"

subsection \<open>Statements\<close>

record compile_options =
  co_primaryTable :: "string option"
  co_pretty :: bool

record compilation_result =
  cr_sql :: string
  cr_tables :: "string list"
  cr_hasAggregations :: bool
  cr_hasJoins :: bool

text \<open>\<open>parseMemberRef(xs[0].member)?.table\<close> of the first member that has one.\<close>

definition table_of_member :: "string \<Rightarrow> string option" where
  "table_of_member mem = map_option fst (parseMemberRef mem)"

definition first_table :: "string list \<Rightarrow> string option" where
  "first_table members = (case members of [] \<Rightarrow> None | m # _ \<Rightarrow> table_of_member m)"

definition or_else :: "'a option \<Rightarrow> 'a option \<Rightarrow> 'a option" where
  "or_else x y = (case x of Some a \<Rightarrow> Some a | None \<Rightarrow> y)"

definition primary_table :: "query \<Rightarrow> compile_options option \<Rightarrow> string option" where
  "primary_table q opts =
     or_else (case opts of None \<Rightarrow> None | Some p \<Rightarrow> co_primaryTable p)
       (or_else (first_table (map dim_member (or_empty (q_dimensions q))))
         (or_else (first_table (map ms_member (or_empty (q_measures q))))
           (first_table (map td_dimension (or_empty (q_timeDimensions q))))))"

definition add_member_table :: "string \<Rightarrow> string list \<Rightarrow> string list" where
  "add_member_table mem tables = (case table_of_member mem of Some t \<Rightarrow> js_add t tables | None \<Rightarrow> tables)"

definition collect_tables :: "query \<Rightarrow> string \<Rightarrow> string list" where
  "collect_tables q primaryTable =
     fold add_member_table
       (map dim_member (or_empty (q_dimensions q)) @ map ms_member (or_empty (q_measures q)) @
        concat (map (\<lambda>j. [join_left j, join_right j]) (or_empty (q_joins q))) @
        map td_dimension (or_empty (q_timeDimensions q)))
       [primaryTable]"

text \<open>A measure whose filter throws makes the compilation throw.\<close>

definition select_parts :: "query \<Rightarrow> string \<Rightarrow> compile_error + string list" where
  "select_parts q primaryTable =
     (case sum_sequence (map compileMeasureSelect (or_empty (q_measures q))) of
        Inl e \<Rightarrow> Inl e
      | Inr measureParts \<Rightarrow>
          (let parts = map compileDimensionSelect (or_empty (q_dimensions q)) @
                 concat (map (\<lambda>td. case td_granularity td of
                     Some g \<Rightarrow> [compileTimeDimensionSelect td g] | None \<Rightarrow> []) (or_empty (q_timeDimensions q))) @
                 measureParts
           in Inr (if parts = [] then [quoteIdentifier primaryTable @ ''.*''] else parts)))"

definition range_conditions :: "calendar \<Rightarrow> query \<Rightarrow> string list" where
  "range_conditions cal q =
     concat (map (\<lambda>td. case td_dateRange td of
         None \<Rightarrow> []
       | Some rg \<Rightarrow>
           (case compileTimeDimensionFilter cal td rg of Some c \<Rightarrow> [c] | None \<Rightarrow> []))
       (or_empty (q_timeDimensions q)))"

definition where_conditions :: "calendar \<Rightarrow> query \<Rightarrow> compile_error + string list" where
  "where_conditions cal q =
     (case sum_sequence (map compileFilterExpression (or_empty (q_filters q))) of
        Inl e \<Rightarrow> Inl e
      | Inr conditions \<Rightarrow> Inr (conditions @ range_conditions cal q))"

definition group_by_parts :: "query \<Rightarrow> string list" where
  "group_by_parts q =
     (if or_empty (q_measures q) = [] then []
      else map (\<lambda>d. quoteMemberRef (dim_member d)) (or_empty (q_dimensions q)) @
        concat (map (\<lambda>td. case td_granularity td of Some g \<Rightarrow> [date_trunc_text td g] | None \<Rightarrow> [])
          (or_empty (q_timeDimensions q))))"

definition sql_clauses :: "query \<Rightarrow> string \<Rightarrow> string list \<Rightarrow> string list \<Rightarrow> string list" where
  "sql_clauses q primaryTable selectParts whereConditions =
     [''SELECT '' @ join '', '' selectParts,
      ''FROM '' @ quoteIdentifier primaryTable,
      compileJoinClauses (or_empty (q_joins q)) primaryTable,
      (if whereConditions \<noteq> [] then ''WHERE '' @ join '' AND '' whereConditions else []),
      (if group_by_parts q \<noteq> [] then ''GROUP BY '' @ join '', '' (group_by_parts q) else []),
      compileOrderByClause (or_empty (q_orderBy q)),
      (case q_limit q of Some l \<Rightarrow> ''LIMIT '' @ show_int l | None \<Rightarrow> []),
      (case q_offset q of Some n \<Rightarrow> if n > 0 then ''OFFSET '' @ show_int n else [] | None \<Rightarrow> [])]"

definition compileInternal ::
  "calendar \<Rightarrow> bool \<Rightarrow> query \<Rightarrow> compile_options option \<Rightarrow> compile_error + compilation_result" where
  "compileInternal cal prettyPrint q opts =
     (case primary_table q opts of
        None \<Rightarrow> Inl (QueryCompilationError ''Cannot determine primary table from query'')
      | Some primaryTable \<Rightarrow>
          if primaryTable = [] then Inl (QueryCompilationError ''Cannot determine primary table from query'')
          else
            (case select_parts q primaryTable of
               Inl e \<Rightarrow> Inl e
             | Inr selectParts \<Rightarrow>
                 (case where_conditions cal q of
                    Inl e \<Rightarrow> Inl e
                  | Inr whereConditions \<Rightarrow>
                      (let rawSql = join newline (filter (\<lambda>c. c \<noteq> []) (sql_clauses q primaryTable selectParts whereConditions));
                           sql = (if (case opts of Some p \<Rightarrow> co_pretty p | None \<Rightarrow> False) \<or> prettyPrint
                                  then formatSql rawSql True else rawSql)
                       in Inr \<lparr>cr_sql = sql, cr_tables = collect_tables q primaryTable,
                               cr_hasAggregations = or_empty (q_measures q) \<noteq> [],
                               cr_hasJoins = or_empty (q_joins q) \<noteq> []\<rparr>))))"

definition compileCount :: "string \<Rightarrow> string" where
  "compileCount tableName = ''SELECT COUNT(*) AS count FROM '' @ quoteIdentifier tableName"

definition compileSelectAll :: "string \<Rightarrow> int option \<Rightarrow> int option \<Rightarrow> string" where
  "compileSelectAll tableName limit offset =
     (let sql = ''SELECT * FROM '' @ quoteIdentifier tableName;
          sql = (case limit of Some l \<Rightarrow> sql @ '' LIMIT '' @ show_int l | None \<Rightarrow> sql);
          sql = (case offset of Some n \<Rightarrow> if n > 0 then sql @ '' OFFSET '' @ show_int n else sql | None \<Rightarrow> sql)
      in sql)"

subsection \<open>Compiled SQL is made of the compiler's own code and quoted tokens\<close>

text \<open>Every piece of code the compiler itself writes.\<close>

definition VOCABULARY :: "string list" where
  "VOCABULARY =
     ['' = '', '' != '', '' > '', '' >= '', '' < '', '' <= '', '' BETWEEN '', '' AND '', '' OR '', '' IN '', '' NOT IN '',
      '' LIKE '', '' NOT LIKE '', '' ESCAPE '', '' ~ '', '' IS NULL'', '' IS NOT NULL'', ''list_contains('',
      ''list_has_any('', ''list_has_all('', '', '', '', ['', ''])'', ''('', '')'', ''.'', ''.*'', '' '', ''NULL'', ''TRUE'', ''FALSE'',
      '' AS '', ''SUM'', ''COUNT'', ''AVG'', ''MIN'', ''MAX'', ''(DISTINCT CASE WHEN '', ''(CASE WHEN '', '' THEN '', '' END)'',
      ''(DISTINCT '', ''INNER JOIN'', ''LEFT OUTER JOIN'', ''RIGHT OUTER JOIN'', ''FULL OUTER JOIN'', ''CROSS JOIN'', '' ON '',
      newline, ''ORDER BY '', ''ASC'', ''DESC'', '' NULLS '', ''FIRST'', ''LAST'', ''DATE_TRUNC('', ''SELECT '', ''FROM '', ''WHERE '',
      ''GROUP BY '', ''LIMIT '', ''OFFSET '']"

definition own_code :: "string \<Rightarrow> bool" where
  "own_code s \<longleftrightarrow> s \<in> set VOCABULARY \<or> s \<noteq> [] \<and> list_all (\<lambda>c. is_digit c \<or> c = CHR ''-'') s"

fun own_piece :: "sql_piece \<Rightarrow> bool" where
  "own_piece (Code s) = own_code s"
| "own_piece (Literal v) = True"
| "own_piece (Name n) = True"

definition clean :: "string \<Rightarrow> bool" where
  "clean s \<longleftrightarrow> (\<exists>ps. s = sql_text ps \<and> well_separated ps \<and> list_all own_piece ps)"

named_theorems clean_rules \<open>compiled texts that are clean\<close>

lemma vocabulary_quote_free: "list_all (\<lambda>s. s \<noteq> [] \<and> CHR 0x22 \<notin> set s \<and> CHR 0x27 \<notin> set s) VOCABULARY"
  by code_simp

lemma own_code_quote_free: "own_code s \<Longrightarrow> s \<noteq> [] \<and> CHR 0x22 \<notin> set s \<and> CHR 0x27 \<notin> set s"
  using vocabulary_quote_free
  by (auto simp: own_code_def list_all_iff is_digit_def char_between_def)

lemma own_code_vocabulary: "s \<in> set VOCABULARY \<Longrightarrow> own_code s"
  by (simp add: own_code_def)

lemma own_code_int: "own_code (show_int n)"
  using show_int_chars [of _ n] by (auto simp: own_code_def list_all_iff show_int_def)

lemma well_separated_append:
  "well_separated ps \<Longrightarrow> well_separated qs \<Longrightarrow> own_code c \<Longrightarrow> well_separated (ps @ Code c # qs)"
  by (induction ps rule: well_separated.induct) (auto dest: own_code_quote_free)

lemma clean_Nil [clean_rules]: "clean []"
  unfolding clean_def by (intro exI [of _ "[]"]) (simp add: sql_text_def)

lemma clean_sep: "clean s \<Longrightarrow> own_code c \<Longrightarrow> clean t \<Longrightarrow> clean (s @ c @ t)"
proof -
  assume a: "clean s" "own_code c" "clean t"
  then obtain ps qs where "s = sql_text ps" "well_separated ps" "list_all own_piece ps"
    "t = sql_text qs" "well_separated qs" "list_all own_piece qs" by (auto simp: clean_def)
  with a(2) well_separated_append [of ps qs c] show ?thesis
    unfolding clean_def by (intro exI [of _ "ps @ Code c # qs"]) (simp add: sql_text_def)
qed

lemma clean_prefix: "own_code c \<Longrightarrow> clean t \<Longrightarrow> clean (c @ t)"
  using clean_sep [OF clean_Nil] by simp

lemma clean_suffix: "clean s \<Longrightarrow> own_code c \<Longrightarrow> clean (s @ c)"
  using clean_sep [OF _ _ clean_Nil] by fastforce

lemma clean_code: "own_code c \<Longrightarrow> clean c"
  using clean_prefix [OF _ clean_Nil] by fastforce

lemma clean_name [clean_rules]: "clean (quoteIdentifier n)"
  unfolding clean_def by (intro exI [of _ "[Name n]"]) (simp add: sql_text_def)

lemma clean_literal [clean_rules]: "clean (stringLiteral v)"
  unfolding clean_def by (intro exI [of _ "[Literal v]"]) (simp add: sql_text_def)

lemma clean_join: "own_code sep \<Longrightarrow> list_all clean xs \<Longrightarrow> clean (join sep xs)"
  by (induction sep xs rule: join.induct) (auto intro: clean_Nil clean_sep)

lemma clean_member [clean_rules]: "clean (quoteMemberRef m)"
  by (auto simp: quoteMemberRef_def own_code_vocabulary VOCABULARY_def split: option.split intro!: clean_rules clean_sep
      simp del: append.simps)

definition raw_literal :: "string \<Rightarrow> string" where
  "raw_literal s = [CHR 0x27] @ s @ [CHR 0x27]"

lemma clean_raw: "CHR 0x27 \<notin> set s \<Longrightarrow> clean (raw_literal s)"
proof -
  assume "CHR 0x27 \<notin> set s"
  then have "raw_literal s = stringLiteral s"
    by (simp add: raw_literal_def stringLiteral_def escapeString_def replace_char_notin)
  then show ?thesis by (simp add: clean_literal)
qed

text \<open>The vocabulary as rules, so that clauses are shown clean by chaining the three lemmas above.\<close>

lemma own_codes:
  "own_code '' = ''" "own_code '' != ''" "own_code '' > ''" "own_code '' >= ''" "own_code '' < ''" "own_code '' <= ''"
  "own_code '' BETWEEN ''" "own_code '' AND ''" "own_code '' OR ''" "own_code '' IN ''" "own_code '' NOT IN ''"
  "own_code '' LIKE ''" "own_code '' NOT LIKE ''" "own_code '' ESCAPE ''" "own_code '' ~ ''" "own_code '' IS NULL''"
  "own_code '' IS NOT NULL''" "own_code ''list_contains(''" "own_code ''list_has_any(''" "own_code ''list_has_all(''"
  "own_code '', ''" "own_code '', [''" "own_code ''])''" "own_code ''(''" "own_code '')''" "own_code ''.''" "own_code ''.*''"
  "own_code '' ''" "own_code ''NULL''" "own_code ''TRUE''" "own_code ''FALSE''" "own_code '' AS ''"
  "own_code ''(DISTINCT CASE WHEN ''" "own_code ''(CASE WHEN ''" "own_code '' THEN ''" "own_code '' END)''"
  "own_code ''(DISTINCT ''" "own_code '' ON ''" "own_code newline" "own_code ''ORDER BY ''" "own_code '' NULLS ''"
  "own_code ''DATE_TRUNC(''" "own_code ''SELECT ''" "own_code ''FROM ''" "own_code ''WHERE ''" "own_code ''GROUP BY ''"
  "own_code ''LIMIT ''" "own_code ''OFFSET ''"
  by (intro own_code_vocabulary; code_simp)+

lemma own_function: "own_code (getAggregationSqlFunction a)"
  by (cases a) (simp_all add: own_code_def VOCABULARY_def)

lemma own_join: "own_code (getJoinSqlKeyword j)"
  by (cases j) (simp_all add: own_code_def VOCABULARY_def)

lemma own_direction: "own_code (direction_text d)"
  by (cases d) (simp_all add: own_code_def VOCABULARY_def)

lemma own_nulls: "own_code (nulls_text n)"
  by (cases n) (simp_all add: own_code_def VOCABULARY_def)

definition value_ok :: "filter_value \<Rightarrow> bool" where
  "value_ok v = (case v of FDate t _ \<Rightarrow> CHR 0x27 \<notin> set t | _ \<Rightarrow> True)"

lemma clean_value: "value_ok v \<Longrightarrow> clean (formatValue v)"
proof (cases v)
  case (FString s)
  then have "formatValue v = stringLiteral s" by (simp add: formatValue_def stringLiteral_def)
  then show ?thesis by (simp add: clean_literal)
next
  case (FDate t d)
  assume "value_ok v"
  moreover from FDate have "formatValue v = raw_literal t" by (simp add: formatValue_def raw_literal_def)
  ultimately show ?thesis using FDate by (simp add: clean_raw value_ok_def)
qed (auto simp: formatValue_def intro: clean_code own_codes own_code_int)

lemma clean_values: "list_all value_ok vs \<Longrightarrow> clean (join '', '' (map formatValue vs))"
  by (intro clean_join own_codes) (simp add: list_all_iff clean_value)

lemma buildLikePattern_literal:
  "buildLikePattern v op = stringLiteral
     (case op of CONTAINS \<Rightarrow> CHR ''%'' # like_escape v @ ''%'' | STARTS_WITH \<Rightarrow> like_escape v @ ''%''
      | ENDS_WITH \<Rightarrow> CHR ''%'' # like_escape v)"
  by (cases op) (simp_all add: buildLikePattern_def stringLiteral_def escapeString_def)

lemma escape_clause_eq: "escape_clause = '' ESCAPE '' @ stringLiteral [CHR 0x5C]"
  by (simp add: escape_clause_def stringLiteral_def escapeString_def)

lemma clean_like: "clean (buildLikePattern v op @ escape_clause)"
  unfolding buildLikePattern_literal escape_clause_eq by (intro clean_sep clean_literal own_codes)

lemma clean_paren_list: "list_all value_ok vs \<Longrightarrow> clean (paren_value_list vs)"
  unfolding paren_value_list_def by (intro clean_prefix clean_suffix clean_values own_codes)

lemma clean_member_sep: "own_code c \<Longrightarrow> clean t \<Longrightarrow> clean (quoteMemberRef m @ c @ t)"
  by (intro clean_sep clean_member)

lemma clean_member_null: "clean (quoteMemberRef m @ '' IS NULL'')" "clean (quoteMemberRef m @ '' IS NOT NULL'')"
  by (intro clean_suffix clean_member own_codes)+

lemma clean_call:
  "own_code f \<Longrightarrow> own_code c \<Longrightarrow> clean t \<Longrightarrow> own_code e \<Longrightarrow> clean (f @ quoteMemberRef m @ c @ t @ e)"
  by (intro clean_prefix clean_sep clean_suffix clean_member)

definition condition_ok :: "filter_condition \<Rightarrow> bool" where
  "condition_ok c = list_all value_ok (or_empty (fc_values c))"

lemma validated_values:
  "validateFilterValues c vs = Inr u \<Longrightarrow> operatorRequiresValues (fc_operator c) \<Longrightarrow>
     vs \<noteq> [] \<and> (fc_operator c = BETWEEN \<longrightarrow> 1 < length vs)"
  by (auto simp: validateFilterValues_def split: if_splits)

lemma clean_condition:
  assumes "compileFilterCondition c = Inr s" "condition_ok c"
  shows "clean s"
proof -
  define vs where "vs = or_empty (fc_values c)"
  have all: "list_all value_ok vs" using assms(2) by (simp add: condition_ok_def vs_def)
  have u: "validateFilterValues c vs = Inr ()"
    using assms(1) by (cases "validateFilterValues c vs") (auto simp: compileFilterCondition_def vs_def)
  have v0: "operatorRequiresValues (fc_operator c) \<Longrightarrow> clean (formatValue (vs ! 0))"
    using validated_values [OF u] all by (intro clean_value) (auto simp: list_all_length)
  have v1: "fc_operator c = BETWEEN \<Longrightarrow> clean (formatValue (vs ! 1))"
    using validated_values [OF u] all
    by (intro clean_value) (auto simp: list_all_length operatorRequiresValues_def VALUELESS_FILTER_OPERATORS_def)
  note vs = vs_def [symmetric]
  note eqs = compileFilterCondition_def Let_def vs u sum.case old.unit.case filter_operator.case sum.inject
  note req = operatorRequiresValues_def VALUELESS_FILTER_OPERATORS_def
  have m0: "clean (quoteMemberRef (fc_member c) @ sep @ formatValue (vs ! 0))"
    if "own_code sep" "operatorRequiresValues (fc_operator c)" for sep
    using that v0 by (intro clean_member_sep)
  have call: "clean (f @ quoteMemberRef (fc_member c) @ '', ['' @ join '', '' (map formatValue vs) @ ''])'')"
    if "own_code f" for f
    using that clean_values [OF all] by (intro clean_call own_codes)
  note lits = clean_code [OF own_codes(30)] clean_code [OF own_codes(31)]
  show ?thesis
  proof (cases "fc_operator c")
    case BETWEEN
    then have "s = quoteMemberRef (fc_member c) @ '' BETWEEN '' @ formatValue (vs ! 0) @ '' AND '' @ formatValue (vs ! 1)"
      using assms(1) by (auto simp only: eqs)
    moreover have "clean \<dots>"
      using v0 v1 BETWEEN by (intro clean_member_sep clean_sep own_codes) (simp_all add: req)
    ultimately show ?thesis by simp
  next
    case ARRAY_CONTAINS
    then have "s = ''list_contains('' @ quoteMemberRef (fc_member c) @ '', '' @ formatValue (vs ! 0) @ '')''"
      using assms(1) by (auto simp only: eqs)
    moreover have "clean \<dots>" using v0 ARRAY_CONTAINS by (intro clean_call own_codes) (simp add: req)
    ultimately show ?thesis by simp
  next
    case OP_IN
    with assms(1) clean_member_sep [OF own_codes(10) clean_paren_list [OF all]] lits show ?thesis
      by (auto simp only: eqs split: if_splits)
  next
    case NOT_IN
    with assms(1) clean_member_sep [OF own_codes(11) clean_paren_list [OF all]] lits show ?thesis
      by (auto simp only: eqs split: if_splits)
  next
    case ARRAY_CONTAINS_ANY
    with assms(1) call [OF own_codes(19)] lits show ?thesis by (auto simp only: eqs split: if_splits)
  next
    case ARRAY_CONTAINS_ALL
    with assms(1) call [OF own_codes(20)] lits show ?thesis by (auto simp only: eqs split: if_splits)
  next
    case (OTHER_OPERATOR x)
    with assms(1) show ?thesis by (simp only: eqs sum.simps)
  qed (use assms(1) m0 clean_member_null clean_member_sep [OF _ clean_like] own_codes in \<open>auto simp only: eqs req set_simps\<close>)+
qed

definition expression_ok :: "filter_expression \<Rightarrow> bool" where
  "expression_ok e = fold_filter condition_ok (list_all id) (list_all id) e"

lemma compileFilterExpression_fold:
  "compileFilterExpression = fold_filter compileFilterCondition (compile_group '' AND '') (compile_group '' OR '')"
  by (rule ext) (simp add: compileFilterExpression_def map_filter_fold)

lemma clean_group:
  assumes "compile_group sep rs = Inr s" "own_code sep" "list_all (\<lambda>r. \<forall>t. r = Inr t \<longrightarrow> clean t) rs"
  shows "clean s"
proof -
  obtain cs where cs: "sum_sequence rs = Inr cs"
    using assms(1) by (cases "sum_sequence rs") (simp_all add: compile_group_def)
  then have "rs = map Inr cs" by (simp only: sum_sequence_Inr)
  with assms(3) have "list_all clean cs" by (simp add: list_all_iff)
  moreover have "s = (if length cs > 1 then ''('' @ join sep cs @ '')'' else (case cs of [] \<Rightarrow> ''TRUE'' | c # _ \<Rightarrow> c))"
    using assms(1) cs by (simp add: compile_group_def)
  moreover have "clean (''('' @ join sep cs @ '')'')"
    using calculation(1) assms(2) by (intro clean_prefix clean_suffix clean_join own_codes)
  ultimately show ?thesis using clean_code [OF own_codes(30)] by (cases cs) auto
qed

lemma clean_expression: "compileFilterExpression e = Inr s \<Longrightarrow> expression_ok e \<Longrightarrow> clean s"
proof (induction e arbitrary: s)
  case (Condition c)
  then show ?case by (auto simp: compileFilterExpression_fold expression_ok_def intro: clean_condition)
next
  case (AndGroup es)
  then show ?case
    by (intro clean_group [of "'' AND ''" "map compileFilterExpression es"] own_codes)
      (auto simp: compileFilterExpression_fold expression_ok_def list_all_iff)
next
  case (OrGroup es)
  then show ?case
    by (intro clean_group [of "'' OR ''" "map compileFilterExpression es"] own_codes)
      (auto simp: compileFilterExpression_fold expression_ok_def list_all_iff)
next
  case Malformed
  then show ?case
    by (intro clean_group [of "'' AND ''" "[]"] own_codes) (simp_all add: compileFilterExpression_fold)
qed

lemma clean_dimension: "clean (compileDimensionSelect d)"
  unfolding compileDimensionSelect_def Let_def by (intro clean_member_sep own_codes clean_name)

lemma clean_measure:
  assumes "compileMeasureSelect m = Inr s" "case ms_filter m of Some f \<Rightarrow> condition_ok f | None \<Rightarrow> True"
  shows "clean s"
proof -
  have 1: "clean ((if b then getAggregationSqlFunction a @ ''(DISTINCT '' @ quoteMemberRef x @ '')''
      else getAggregationSqlFunction a @ ''('' @ quoteMemberRef x @ '')'') @ '' AS '' @ quoteIdentifier n)" for b a x n
    by (cases b) (simp_all only: if_True if_False append_assoc,
      (intro clean_prefix clean_member_sep own_function own_codes clean_sep clean_name)+)
  have 2: "clean ((if b then getAggregationSqlFunction a @ ''(DISTINCT CASE WHEN '' @ t @ '' THEN '' @ quoteMemberRef x @ '' END)''
      else getAggregationSqlFunction a @ ''(CASE WHEN '' @ t @ '' THEN '' @ quoteMemberRef x @ '' END)'') @
      '' AS '' @ quoteIdentifier n)" if "clean t" for b a x n t
    using that
    by (cases b) (simp_all only: if_True if_False append_assoc,
      (intro clean_prefix own_function own_codes clean_sep [OF that] clean_member_sep clean_name)+)
  show ?thesis
  proof (cases "ms_filter m")
    case None
    with assms(1) 1 show ?thesis by (auto simp only: compileMeasureSelect_def Let_def option.case sum.inject)
  next
    case (Some f)
    with assms obtain t where t: "compileFilterCondition f = Inr t" "clean t"
      by (cases "compileFilterCondition f") (auto simp: compileMeasureSelect_def Let_def intro: clean_condition)
    with Some assms(1) 2 show ?thesis
      by (auto simp only: compileMeasureSelect_def Let_def option.case sum.case sum.inject)
  qed
qed

lemma clean_equation: "clean (quoteMemberRef l @ '' = '' @ quoteMemberRef r)"
  by (intro clean_member_sep own_codes clean_member)

lemma clean_join_clauses: "list_all clean (join_clauses js joined)"
proof (induction js arbitrary: joined)
  case (Cons j js)
  have 1: "clean (getJoinSqlKeyword k @ '' '' @ quoteIdentifier t @ '' ON '' @ quoteMemberRef l @ '' = '' @ quoteMemberRef r)"
    for k t l r
    by (intro clean_prefix own_join own_codes clean_sep [OF clean_name] clean_equation)
  have 2: "clean ((getJoinSqlKeyword k @ '' '' @ quoteIdentifier t @ '' ON '' @ quoteMemberRef l @ '' = '' @ quoteMemberRef r) @
      '' AND '' @ join '' AND '' (map (\<lambda>(l, r). quoteMemberRef l @ '' = '' @ quoteMemberRef r) cs))" for k t l r cs
    by (rule clean_sep [OF 1 own_codes(8) clean_join [OF own_codes(8)]]) (auto simp only: list_all_iff set_map clean_equation)
  show ?case using Cons.IH 1 2
    by (auto simp only: join_clauses.simps Let_def list.pred_inject option.case split: option.splits prod.splits)
qed simp

lemma clean_join_clause: "clean (compileJoinClauses js t)"
  by (auto simp: compileJoinClauses_def intro: clean_Nil clean_join own_codes clean_join_clauses)

lemma clean_order: "clean (compileOrderByClause obs)"
proof -
  have "clean (order_part ob)" for ob
    unfolding order_part_def
    by (cases "ob_nulls ob") (simp_all only: option.case append_Nil2,
      (intro clean_member_sep clean_sep clean_code own_codes own_direction own_nulls)+)
  then show ?thesis
    by (simp only: compileOrderByClause_def split: if_splits)
      (auto simp: list_all_iff simp del: append.simps intro!: clean_Nil clean_prefix clean_join own_codes)
qed

definition range_ok :: "calendar \<Rightarrow> time_dimension_spec \<Rightarrow> bool" where
  "range_ok cal td =
     (case td_dateRange td of
        None \<Rightarrow> True
      | Some rg \<Rightarrow>
          (case resolveDateRange cal rg of None \<Rightarrow> True | Some (a, b) \<Rightarrow> CHR 0x27 \<notin> set a \<and> CHR 0x27 \<notin> set b))"

lemma unit_quote_free: "CHR 0x27 \<notin> set (getDateTruncUnit g)"
  by (cases g) simp_all

lemma clean_trunc: "clean (date_trunc_text td g)"
proof -
  have "date_trunc_text td g = ''DATE_TRUNC('' @ raw_literal (getDateTruncUnit g) @ '', '' @ quoteMemberRef (td_dimension td) @ '')''"
    by (simp add: date_trunc_text_def raw_literal_def)
  moreover have "clean \<dots>"
    by (intro clean_prefix clean_sep clean_raw unit_quote_free clean_suffix clean_member own_codes)
  ultimately show ?thesis by simp
qed

lemma clean_time_select: "clean (compileTimeDimensionSelect td g)"
  unfolding compileTimeDimensionSelect_def Let_def by (intro clean_sep clean_trunc own_codes clean_name)

lemma clean_time_filter:
  assumes "compileTimeDimensionFilter cal td rg = Some c" "td_dateRange td = Some rg" "range_ok cal td"
  shows "clean c"
proof -
  from assms(1) obtain a b where r: "resolveDateRange cal rg = Some (a, b)"
    and c: "c = quoteMemberRef (td_dimension td) @ '' BETWEEN '' @ raw_literal a @ '' AND '' @ raw_literal b"
    by (auto simp: compileTimeDimensionFilter_def raw_literal_def split: option.splits)
  from r assms(2,3) have "CHR 0x27 \<notin> set a" "CHR 0x27 \<notin> set b" by (simp_all add: range_ok_def)
  then show ?thesis unfolding c by (intro clean_member_sep clean_sep clean_raw own_codes)
qed

definition dates_ok :: "calendar \<Rightarrow> query \<Rightarrow> bool" where
  "dates_ok cal q \<longleftrightarrow>
     list_all expression_ok (or_empty (q_filters q)) \<and>
     list_all (\<lambda>m. case ms_filter m of Some f \<Rightarrow> condition_ok f | None \<Rightarrow> True) (or_empty (q_measures q)) \<and>
     list_all (range_ok cal) (or_empty (q_timeDimensions q))"

lemma clean_select:
  assumes "select_parts q t = Inr ps" "dates_ok cal q"
  shows "list_all clean ps"
proof -
  from assms(1) obtain mps where mps: "map compileMeasureSelect (or_empty (q_measures q)) = map Inr mps"
    by (auto simp: select_parts_def sum_sequence_Inr split: sum.splits)
  have "clean x" if "x \<in> set mps" for x
  proof -
    from that have "Inr x \<in> set (map compileMeasureSelect (or_empty (q_measures q)))" unfolding mps by simp
    then obtain m where "m \<in> set (or_empty (q_measures q))" "compileMeasureSelect m = Inr x" by auto
    with assms(2) show ?thesis by (auto simp: dates_ok_def list_all_iff intro: clean_measure)
  qed
  moreover have "clean (quoteIdentifier t @ ''.*'')" by (intro clean_suffix clean_name own_codes)
  moreover have "sum_sequence (map compileMeasureSelect (or_empty (q_measures q))) = Inr mps" unfolding mps by simp
  ultimately show ?thesis using assms(1)
    by (auto simp: select_parts_def Let_def list_all_iff clean_dimension clean_time_select
        simp del: append.simps split: if_splits option.splits)
qed

lemma clean_where:
  assumes "where_conditions cal q = Inr cs" "dates_ok cal q"
  shows "list_all clean cs"
proof -
  from assms(1) obtain fs where fs: "map compileFilterExpression (or_empty (q_filters q)) = map Inr fs"
    and cs: "cs = fs @ range_conditions cal q"
    by (auto simp: where_conditions_def sum_sequence_Inr split: sum.splits)
  have "clean x" if "x \<in> set fs" for x
  proof -
    from that have "Inr x \<in> set (map compileFilterExpression (or_empty (q_filters q)))" unfolding fs by simp
    then obtain e where "e \<in> set (or_empty (q_filters q))" "compileFilterExpression e = Inr x" by auto
    with assms(2) show ?thesis by (auto simp: dates_ok_def list_all_iff intro: clean_expression)
  qed
  moreover have "clean x" if "x \<in> set (range_conditions cal q)" for x
    using that assms(2)
    by (auto simp: range_conditions_def dates_ok_def list_all_iff intro: clean_time_filter split: option.splits)
  ultimately show ?thesis by (auto simp: cs list_all_iff)
qed

lemma clean_group_by: "list_all clean (group_by_parts q)"
  by (auto simp: group_by_parts_def list_all_iff clean_member clean_trunc split: option.splits)

lemma clean_clauses:
  assumes "list_all clean ps" "list_all clean cs"
  shows "list_all clean (sql_clauses q t ps cs)"
proof -
  have "clean (''SELECT '' @ join '', '' ps)" using assms(1) by (intro clean_prefix clean_join own_codes)
  moreover have "clean (''FROM '' @ quoteIdentifier t)" by (intro clean_prefix clean_name own_codes)
  moreover have "clean (''WHERE '' @ join '' AND '' cs)" using assms(2) by (intro clean_prefix clean_join own_codes)
  moreover have "clean (''GROUP BY '' @ join '', '' (group_by_parts q))"
    by (intro clean_prefix clean_join clean_group_by own_codes)
  moreover have "clean (''LIMIT '' @ show_int n)" "clean (''OFFSET '' @ show_int n)" for n
    by (intro clean_prefix clean_code own_code_int own_codes)+
  ultimately show ?thesis
    by (auto simp: sql_clauses_def clean_Nil clean_join_clause clean_order simp del: append.simps split: option.split)
qed

lemma clean_statement:
  assumes "dates_ok cal q" "select_parts q t = Inr ps" "where_conditions cal q = Inr cs"
  shows "clean (join newline (filter (\<lambda>c. c \<noteq> []) (sql_clauses q t ps cs)))"
  using clean_clauses [OF clean_select [OF assms(2,1)] clean_where [OF assms(3,1)], of q t]
  by (intro clean_join own_codes) (auto simp: list_all_iff)

lemma compileInternal_raw:
  assumes "compileInternal cal False q opts = Inr r" "case opts of Some p \<Rightarrow> \<not> co_pretty p | None \<Rightarrow> True"
  obtains t ps cs where "primary_table q opts = Some t" "t \<noteq> []" "select_parts q t = Inr ps"
    "where_conditions cal q = Inr cs" "cr_sql r = join newline (filter (\<lambda>c. c \<noteq> []) (sql_clauses q t ps cs))"
    "cr_tables r = collect_tables q t"
  using assms
  by (auto simp: compileInternal_def Let_def split: option.splits if_splits sum.splits)


definition no_calendar :: calendar where
  "no_calendar = \<lparr>preset_range = \<lambda>_. ([], []), relative_range = \<lambda>_ _. ([], [])\<rparr>"

definition hostile_query :: query where
  "hostile_query =
     empty_query\<lparr>q_dimensions := Some [\<lparr>dim_member = ''users.name'', dim_alias = Some [CHR 0x22, CHR '';'']\<rparr>],
       q_filters := Some [Condition (createFilterCondition ''users.id'' EQUALS
         (Some [FString ([CHR 0x27] @ ''; DROP TABLE users; --'')]))]\<rparr>"


definition ranged_query :: "string \<Rightarrow> query" where
  "ranged_query until =
     empty_query\<lparr>q_timeDimensions := Some [\<lparr>td_dimension = ''orders.day'', td_granularity = None,
       td_dateRange = Some (Date_range ''2024-01-01'' until)\<rparr>]\<rparr>"

definition injected_pieces :: "sql_piece list" where
  "injected_pieces =
     [Code ''SELECT '', Name ''orders'', Code (''.*'' @ newline @ ''FROM ''), Name ''orders'', Code (newline @ ''WHERE ''),
      Name ''orders'', Code ''.'', Name ''day'', Code '' BETWEEN '', Literal ''2024-01-01'', Code '' AND '',
      Literal ''2024-12-31'', Code ''; DROP TABLE orders; SELECT '', Literal []]"

text \<open>Date ranges are not escaped. A range whose end contains an apostrophe closes its literal: the
  statement compiled from a query with one time dimension reads as two further statements, one of
  them DROP TABLE.\<close>

theorem date_range_injection:
  "map_sum id cr_sql (compileInternal no_calendar False
       (ranged_query (''2024-12-31'' @ [CHR 0x27] @ ''; DROP TABLE orders; SELECT '' @ [CHR 0x27])) None)
     = Inr (sql_text injected_pieces) \<and>
   well_separated injected_pieces \<and> forbidden_word (sql_code injected_pieces)"
proof (intro conjI)
  show "map_sum id cr_sql (compileInternal no_calendar False
       (ranged_query (''2024-12-31'' @ [CHR 0x27] @ ''; DROP TABLE orders; SELECT '' @ [CHR 0x27])) None)
     = Inr (sql_text injected_pieces)" by code_simp
  show "well_separated injected_pieces" by code_simp
  show "forbidden_word (sql_code injected_pieces)" by code_simp
qed

text \<open>Counting all rows of a measure \<open>*\<close> counts a column of that name, because the compiler's own
  \<open>quoteMemberRef\<close> has no case for it; and pretty-printing rewrites literals.\<close>

lemma count_star_is_quoted:
  "compileMeasureSelect \<lparr>ms_member = ''*'', ms_aggregation = AGG_COUNT, ms_alias = None, ms_distinct = False, ms_filter = None\<rparr> =
     Inr (''COUNT('' @ quoteIdentifier ''*'' @ '') AS '' @ quoteIdentifier ''count_value'')"
  by code_simp

lemma pretty_changes_literal:
  "formatSql (''SELECT '' @ stringLiteral ''the limit'') True = ''SELECT '' @ stringLiteral (''the '' @ newline @ ''LIMIT'')"
  by code_simp

lemma case_insensitive_ignored:
  "compileFilterCondition (c\<lparr>caseInsensitive := b\<rparr>) = compileFilterCondition c"
proof (cases c)
  case (fields m ope vs ci)
  show ?thesis
    unfolding fields filter_condition.update_convs compileFilterCondition_def validateFilterValues_def
      filter_condition.select_convs ..
qed

subsection \<open>What a WHERE clause says\<close>

text \<open>
  The tokens of a compiled WHERE clause, and how SQL reads them: AND binds tighter than OR. An atom is
  the text of one condition; whether it holds for a row is given by a valuation of those texts.
\<close>

datatype where_token = TAtom string | TTrue | TAnd | TOr | TOpen | TClose

fun token_text :: "where_token \<Rightarrow> string" where
  "token_text (TAtom s) = s"
| "token_text TTrue = ''TRUE''"
| "token_text TAnd = '' AND ''"
| "token_text TOr = '' OR ''"
| "token_text TOpen = ''(''"
| "token_text TClose = '')''"

definition tokens_text :: "where_token list \<Rightarrow> string" where
  "tokens_text ts = concat (map token_text ts)"

inductive reads_primary :: "(string \<Rightarrow> bool) \<Rightarrow> where_token list \<Rightarrow> bool \<Rightarrow> bool"
  and reads_conjunction :: "(string \<Rightarrow> bool) \<Rightarrow> where_token list \<Rightarrow> bool \<Rightarrow> bool"
  and reads_disjunction :: "(string \<Rightarrow> bool) \<Rightarrow> where_token list \<Rightarrow> bool \<Rightarrow> bool"
  for v where
  atom: "reads_primary v [TAtom s] (v s)"
| truth: "reads_primary v [TTrue] True"
| parens: "reads_disjunction v ts b \<Longrightarrow> reads_primary v (TOpen # ts @ [TClose]) b"
| primary: "reads_primary v ts b \<Longrightarrow> reads_conjunction v ts b"
| conjunction: "reads_primary v ts b \<Longrightarrow> reads_conjunction v us c \<Longrightarrow> reads_conjunction v (ts @ TAnd # us) (b \<and> c)"
| single: "reads_conjunction v ts b \<Longrightarrow> reads_disjunction v ts b"
| disjunction: "reads_conjunction v ts b \<Longrightarrow> reads_disjunction v us c \<Longrightarrow> reads_disjunction v (ts @ TOr # us) (b \<or> c)"

definition condition_holds :: "(string \<Rightarrow> bool) \<Rightarrow> filter_condition \<Rightarrow> bool" where
  "condition_holds v c = (case compileFilterCondition c of Inr s \<Rightarrow> v s | Inl _ \<Rightarrow> False)"

text \<open>What a filter means; an empty group of either kind always holds.\<close>

definition filter_holds :: "(string \<Rightarrow> bool) \<Rightarrow> filter_expression \<Rightarrow> bool" where
  "filter_holds v e = fold_filter (condition_holds v) (list_all id) (\<lambda>bs. bs = [] \<or> list_ex id bs) e"

definition readable :: "(string \<Rightarrow> bool) \<Rightarrow> string \<Rightarrow> bool \<Rightarrow> bool" where
  "readable v s b \<longleftrightarrow> (\<exists>ts. tokens_text ts = s \<and> reads_primary v ts b)"

lemma conjunction_list:
  "xs \<noteq> [] \<Longrightarrow> list_all (\<lambda>(s, b). readable v s b) xs \<Longrightarrow>
     \<exists>ts. tokens_text ts = join '' AND '' (map fst xs) \<and> reads_conjunction v ts (list_all snd xs)"
proof (induction xs rule: induct_list012)
  case (2 x)
  then show ?case by (auto simp: readable_def case_prod_beta intro: reads_primary_reads_conjunction_reads_disjunction.primary)
next
  case (3 x y xs)
  then obtain ts us where "tokens_text ts = fst x" "reads_primary v ts (snd x)"
    "tokens_text us = join '' AND '' (map fst (y # xs))" "reads_conjunction v us (list_all snd (y # xs))"
    by (auto simp: readable_def case_prod_beta)
  then show ?case
    using conjunction [of v ts "snd x" us "list_all snd (y # xs)"]
    by (intro exI [of _ "ts @ TAnd # us"]) (simp add: tokens_text_def)
qed simp

lemma disjunction_list:
  "xs \<noteq> [] \<Longrightarrow> list_all (\<lambda>(s, b). readable v s b) xs \<Longrightarrow>
     \<exists>ts. tokens_text ts = join '' OR '' (map fst xs) \<and> reads_disjunction v ts (list_ex snd xs)"
proof (induction xs rule: induct_list012)
  case (2 x)
  then show ?case by (auto simp: readable_def case_prod_beta intro: primary single)
next
  case (3 x y xs)
  then obtain ts us where "tokens_text ts = fst x" "reads_primary v ts (snd x)"
    "tokens_text us = join '' OR '' (map fst (y # xs))" "reads_disjunction v us (list_ex snd (y # xs))"
    by (auto simp: readable_def case_prod_beta)
  then show ?case
    using disjunction [of v ts "snd x" us "list_ex snd (y # xs)"]
    by (intro exI [of _ "ts @ TOr # us"]) (simp add: tokens_text_def primary)
qed simp

lemma readable_parens: "tokens_text ts = s \<Longrightarrow> reads_disjunction v ts b \<Longrightarrow> readable v (''('' @ s @ '')'') b"
  unfolding readable_def by (intro exI [of _ "TOpen # ts @ [TClose]"]) (auto simp: tokens_text_def intro: parens)

lemma readable_true: "readable v ''TRUE'' True"
  unfolding readable_def by (intro exI [of _ "[TTrue]"]) (auto simp: tokens_text_def intro: truth)

lemma compile_group_cases:
  assumes "compile_group sep rs = Inr s"
  obtains cs where "rs = map Inr cs"
    "s = (if length cs > 1 then ''('' @ join sep cs @ '')'' else (case cs of [] \<Rightarrow> ''TRUE'' | c # _ \<Rightarrow> c))"
  using assms by (cases "sum_sequence rs") (auto simp: compile_group_def dest: sum_sequence_InrD)

lemma readable_group:
  assumes "length cs = length bs" "list_all (\<lambda>(s, b). readable v s b) (zip cs bs)"
  shows "readable v (if length cs > 1 then ''('' @ join '' AND '' cs @ '')'' else (case cs of [] \<Rightarrow> ''TRUE'' | c # _ \<Rightarrow> c))
           (list_all id bs)"
    "readable v (if length cs > 1 then ''('' @ join '' OR '' cs @ '')'' else (case cs of [] \<Rightarrow> ''TRUE'' | c # _ \<Rightarrow> c))
           (bs = [] \<or> list_ex id bs)"
proof -
  have l: "list_all snd (zip cs bs) = list_all id bs" "list_ex snd (zip cs bs) = list_ex id bs"
    using assms(1) by (induction cs bs rule: list_induct2) auto
  show "readable v (if length cs > 1 then ''('' @ join '' AND '' cs @ '')'' else (case cs of [] \<Rightarrow> ''TRUE'' | c # _ \<Rightarrow> c))
           (list_all id bs)"
  proof (cases "length cs > 1")
    case True
    then show ?thesis
      using conjunction_list [of "zip cs bs" v] assms l by (force simp: readable_parens single simp del: append.simps)
  next
    case False
    with assms readable_true [of v] show ?thesis by (cases cs; cases bs) auto
  qed
  show "readable v (if length cs > 1 then ''('' @ join '' OR '' cs @ '')'' else (case cs of [] \<Rightarrow> ''TRUE'' | c # _ \<Rightarrow> c))
           (bs = [] \<or> list_ex id bs)"
  proof (cases "length cs > 1")
    case True
    with assms(1) have "bs \<noteq> []" by auto
    with True show ?thesis
      using disjunction_list [of "zip cs bs" v] assms l by (force simp: readable_parens simp del: append.simps)
  next
    case False
    with assms readable_true [of v] show ?thesis by (cases cs; cases bs) auto
  qed
qed

lemma filter_holds_groups:
  "filter_holds v (AndGroup es) = list_all id (map (filter_holds v) es)"
  "filter_holds v (OrGroup es) = (map (filter_holds v) es = [] \<or> list_ex id (map (filter_holds v) es))"
proof -
  have "filter_holds v = fold_filter (condition_holds v) (list_all id) (\<lambda>bs. bs = [] \<or> list_ex id bs)"
    by (rule ext) (simp add: filter_holds_def)
  then show "filter_holds v (AndGroup es) = list_all id (map (filter_holds v) es)"
    "filter_holds v (OrGroup es) = (map (filter_holds v) es = [] \<or> list_ex id (map (filter_holds v) es))" by simp_all
qed

lemma readable_expression: "compileFilterExpression e = Inr s \<Longrightarrow> readable v s (filter_holds v e)"
proof (induction e arbitrary: s)
  case (Condition c)
  then show ?case
    unfolding readable_def
    by (intro exI [of _ "[TAtom s]"])
      (auto simp: compileFilterExpression_fold filter_holds_def condition_holds_def tokens_text_def
        intro: atom [of v s, simplified])
next
  case (AndGroup es)
  then obtain cs where cs: "map compileFilterExpression es = map Inr cs"
    "s = (if length cs > 1 then ''('' @ join '' AND '' cs @ '')'' else (case cs of [] \<Rightarrow> ''TRUE'' | c # _ \<Rightarrow> c))"
    by (auto simp: compileFilterExpression_fold elim: compile_group_cases)
  from cs(1) have len: "length cs = length es" by (metis length_map)
  have "compileFilterExpression (es ! i) = Inr (cs ! i)" if "i < length es" for i
    using cs(1) that len by (metis nth_map)
  with AndGroup.IH len have "list_all (\<lambda>(s, b). readable v s b) (zip cs (map (filter_holds v) es))"
    by (simp add: list_all_length)
  with len show ?case unfolding cs(2) filter_holds_groups by (intro readable_group) simp_all
next
  case (OrGroup es)
  then obtain cs where cs: "map compileFilterExpression es = map Inr cs"
    "s = (if length cs > 1 then ''('' @ join '' OR '' cs @ '')'' else (case cs of [] \<Rightarrow> ''TRUE'' | c # _ \<Rightarrow> c))"
    by (auto simp: compileFilterExpression_fold elim: compile_group_cases)
  from cs(1) have len: "length cs = length es" by (metis length_map)
  have "compileFilterExpression (es ! i) = Inr (cs ! i)" if "i < length es" for i
    using cs(1) that len by (metis nth_map)
  with OrGroup.IH len have "list_all (\<lambda>(s, b). readable v s b) (zip cs (map (filter_holds v) es))"
    by (simp add: list_all_length)
  with len show ?case unfolding cs(2) filter_holds_groups by (intro readable_group) simp_all
next
  case Malformed
  then show ?case
    using readable_true [of v] by (simp add: compileFilterExpression_fold filter_holds_def compile_group_def)
qed


lemma readable_conditions:
  assumes "where_conditions cal q = Inr cs"
  obtains bs where "length cs = length bs" "list_all (\<lambda>(s, b). readable v s b) (zip cs bs)"
    "list_all id bs \<longleftrightarrow> list_all (filter_holds v) (or_empty (q_filters q)) \<and> list_all v (range_conditions cal q)"
proof -
  define fs where "fs = or_empty (q_filters q)"
  from assms obtain xs where xs: "map compileFilterExpression fs = map Inr xs" and cs: "cs = xs @ range_conditions cal q"
    by (auto simp: where_conditions_def fs_def sum_sequence_Inr split: sum.splits)
  from xs have len: "length xs = length fs" by (metis length_map)
  have "compileFilterExpression (fs ! i) = Inr (xs ! i)" if "i < length fs" for i
    using xs that len by (metis nth_map)
  then have "list_all (\<lambda>(s, b). readable v s b) (zip xs (map (filter_holds v) fs))"
    using len by (simp add: list_all_length readable_expression)
  moreover have "readable v s (v s)" for s
    unfolding readable_def by (intro exI [of _ "[TAtom s]"]) (simp add: tokens_text_def atom)
  then have "list_all (\<lambda>(s, b). readable v s b) (zip (range_conditions cal q) (map v (range_conditions cal q)))"
    by (simp add: list_all_length)
  ultimately show ?thesis
    using len by (intro that [of "map (filter_holds v) fs @ map v (range_conditions cal q)"])
      (simp_all add: cs fs_def list_all_iff ball_Un)
qed

text \<open>C11 The WHERE clause means the filters. Read with SQL's precedence, whatever the truth of the single
  conditions, the clause holds exactly when every filter of the query holds, an AND group being the
  conjunction and an OR group the disjunction of its members at every depth, and every date range
  does; groups without members always hold.\<close>

theorem where_clause_meaning:
  assumes "where_conditions cal q = Inr conds" "conds \<noteq> []"
  shows "\<exists>ts. tokens_text ts = join '' AND '' conds \<and>
    reads_conjunction v ts (list_all (filter_holds v) (or_empty (q_filters q)) \<and> list_all v (range_conditions cal q))"
proof -
  obtain bs where bs: "length conds = length bs" "list_all (\<lambda>(s, b). readable v s b) (zip conds bs)"
    "list_all id bs \<longleftrightarrow> list_all (filter_holds v) (or_empty (q_filters q)) \<and> list_all v (range_conditions cal q)"
    using readable_conditions [OF assms(1)] by blast
  have "list_all snd (zip conds bs) = list_all id bs"
    using bs(1) by (induction conds bs rule: list_induct2) auto
  moreover have "zip conds bs \<noteq> []" "map fst (zip conds bs) = conds" using bs(1) assms(2) by (cases conds; cases bs; simp)+
  ultimately show ?thesis using conjunction_list [of "zip conds bs" v] bs(2,3) by simp
qed

definition grouped_query :: query where
  "grouped_query =
     empty_query\<lparr>q_filters := Some
       [OrGroup [Condition (createFilterCondition ''t.a'' IS_NULL None), Condition (createFilterCondition ''t.b'' IS_NULL None)],
        Condition (createFilterCondition ''t.c'' IS_NOT_NULL None)]\<rparr>"

theorem where_clause_meaning_witness:
  "\<exists>conds ts b. where_conditions no_calendar grouped_query = Inr conds \<and> tokens_text ts = join '' AND '' conds \<and>
     reads_conjunction (\<lambda>s. s = quoteMemberRef ''t.a'' @ '' IS NULL'') ts b \<and> \<not> b"
proof -
  let ?v = "\<lambda>s. s = quoteMemberRef ''t.a'' @ '' IS NULL''"
  have "\<not> isl (where_conditions no_calendar grouped_query)" by code_simp
  then obtain conds where c: "where_conditions no_calendar grouped_query = Inr conds"
    by (cases "where_conditions no_calendar grouped_query") auto
  have "map_sum id length (where_conditions no_calendar grouped_query) = Inr 2" by code_simp
  with c have "conds \<noteq> []" by auto
  from where_clause_meaning [OF c this, of ?v] obtain ts where "tokens_text ts = join '' AND '' conds"
    "reads_conjunction ?v ts (list_all (filter_holds ?v) (or_empty (q_filters grouped_query)) \<and>
       list_all ?v (range_conditions no_calendar grouped_query))" by blast
  moreover have "\<not> list_all (filter_holds ?v) (or_empty (q_filters grouped_query))" by code_simp
  ultimately show ?thesis using c by metis
qed

text \<open>With measures, everything else that is selected is grouped by; without, nothing is.\<close>

lemma group_by_covers_selection:
  assumes "or_empty (q_measures q) \<noteq> []"
  shows "list_all2 (\<lambda>g s. prefix (g @ '' AS '') s) (group_by_parts q)
     (map compileDimensionSelect (or_empty (q_dimensions q)) @
      concat (map (\<lambda>td. case td_granularity td of Some g \<Rightarrow> [compileTimeDimensionSelect td g] | None \<Rightarrow> [])
        (or_empty (q_timeDimensions q))))"
proof -
  have d: "prefix (quoteMemberRef (dim_member d) @ '' AS '') (compileDimensionSelect d)" for d
    by (simp add: compileDimensionSelect_def Let_def prefix_def)
  have t: "prefix (date_trunc_text td g @ '' AS '') (compileTimeDimensionSelect td g)" for td g
    by (simp add: compileTimeDimensionSelect_def Let_def prefix_def)
  have "list_all2 (\<lambda>g s. prefix (g @ '' AS '') s)
      (concat (map (\<lambda>td. case td_granularity td of Some g \<Rightarrow> [date_trunc_text td g] | None \<Rightarrow> []) tds))
      (concat (map (\<lambda>td. case td_granularity td of Some g \<Rightarrow> [compileTimeDimensionSelect td g] | None \<Rightarrow> []) tds))" for tds
    using t by (induction tds) (auto split: option.split simp del: append.simps intro!: list_all2_appendI)
  moreover have "list_all2 (\<lambda>g s. prefix (g @ '' AS '') s)
      (map (\<lambda>d. quoteMemberRef (dim_member d)) ds) (map compileDimensionSelect ds)" for ds
    using d by (induction ds) (auto simp del: append.simps)
  ultimately show ?thesis
    using assms by (simp only: group_by_parts_def if_False list_all2_appendI)
qed

lemma no_measures_no_group_by: "or_empty (q_measures q) = [] \<Longrightarrow> group_by_parts q = []"
  by (simp add: group_by_parts_def)

subsection \<open>The compilation cache\<close>

type_synonym compilation_cache = "(string, compilation_result) jmap"

definition cache_get :: "string \<Rightarrow> compilation_cache \<Rightarrow> compilation_result option \<times> compilation_cache" where
  "cache_get key cache =
     (case jm_get cache key of
        None \<Rightarrow> (None, cache)
      | Some entry \<Rightarrow> (Some entry, jm_set key entry (jm_delete key cache)))"

definition cache_set :: "nat \<Rightarrow> string \<Rightarrow> compilation_result \<Rightarrow> compilation_cache \<Rightarrow> compilation_cache" where
  "cache_set maxSize key r cache =
     (let cache = (if jm_has cache key then jm_delete key cache else cache);
          cache = (if length cache \<ge> maxSize
                   then (case jm_keys cache of [] \<Rightarrow> cache | oldestKey # _ \<Rightarrow> jm_delete oldestKey cache)
                   else cache)
      in jm_set key r cache)"

record sql_compiler =
  sc_cache :: compilation_cache
  sc_maxSize :: nat
  sc_prettyPrint :: bool
  sc_isDisposed :: bool

definition new_compiler :: "nat \<Rightarrow> bool \<Rightarrow> sql_compiler" where
  "new_compiler maxSize pretty = \<lparr>sc_cache = [], sc_maxSize = maxSize, sc_prettyPrint = pretty, sc_isDisposed = False\<rparr>"

definition compiler_dispose :: "sql_compiler \<Rightarrow> sql_compiler" where
  "compiler_dispose s = (if sc_isDisposed s then s else s\<lparr>sc_isDisposed := True, sc_cache := []\<rparr>)"

definition clearCache :: "sql_compiler \<Rightarrow> sql_compiler" where
  "clearCache s = s\<lparr>sc_cache := []\<rparr>"

definition getCacheStats :: "sql_compiler \<Rightarrow> nat \<times> nat" where
  "getCacheStats s = (length (sc_cache s), sc_maxSize s)"

type_synonym stringify = "query \<times> compile_options option \<Rightarrow> string"

definition generateCacheKey :: "stringify \<Rightarrow> query \<Rightarrow> compile_options option \<Rightarrow> string" where
  "generateCacheKey json q opts = hashPayloadSync json (q, opts)"

definition sql_compile ::
  "stringify \<Rightarrow> calendar \<Rightarrow> query \<Rightarrow> compile_options option \<Rightarrow> sql_compiler \<Rightarrow>
     (compile_error + compilation_result) \<times> sql_compiler" where
  "sql_compile json cal q opts s =
     (if sc_isDisposed s then (Inl DisposedError, s)
      else
        let cacheKey = generateCacheKey json q opts
        in case cache_get cacheKey (sc_cache s) of
             (Some r, cache) \<Rightarrow> (Inr r, s\<lparr>sc_cache := cache\<rparr>)
           | (None, cache) \<Rightarrow>
               (case compileInternal cal (sc_prettyPrint s) q opts of
                  Inl e \<Rightarrow> (Inl e, s)
                | Inr r \<Rightarrow> (Inr r, s\<lparr>sc_cache := cache_set (sc_maxSize s) cacheKey r (sc_cache s)\<rparr>)))"

datatype compiler_call = Compile query "compile_options option" | Clear_cache | Dispose

fun compiler_step :: "stringify \<Rightarrow> calendar \<Rightarrow> compiler_call \<Rightarrow> sql_compiler \<Rightarrow> sql_compiler" where
  "compiler_step json cal (Compile q opts) s = snd (sql_compile json cal q opts s)"
| "compiler_step json cal Clear_cache s = clearCache s"
| "compiler_step json cal Dispose s = compiler_dispose s"

fun compiled_query :: "compiler_call \<Rightarrow> (query \<times> compile_options option) list" where
  "compiled_query (Compile q opts) = [(q, opts)]"
| "compiled_query _ = []"

text \<open>Every cached result belongs to a query that was compiled.\<close>

definition compiler_ok ::
  "stringify \<Rightarrow> calendar \<Rightarrow> (query \<times> compile_options option) set \<Rightarrow> bool \<Rightarrow> nat \<Rightarrow> sql_compiler \<Rightarrow> bool" where
  "compiler_ok json cal seen pretty maxSize s \<longleftrightarrow>
     jm_ok (sc_cache s) \<and> sc_prettyPrint s = pretty \<and> sc_maxSize s = maxSize \<and> length (sc_cache s) \<le> max 1 maxSize \<and>
     (\<forall>(k, r)\<in>set (sc_cache s). \<exists>(q, opts)\<in>seen. k = generateCacheKey json q opts \<and> compileInternal cal pretty q opts = Inr r)"

lemma cache_set_props:
  assumes "jm_ok m" "length m \<le> max 1 n"
  shows "jm_ok (cache_set n k r m) \<and> length (cache_set n k r m) \<le> max 1 n \<and> set (cache_set n k r m) \<subseteq> insert (k, r) (set m)"
proof -
  define m1 where "m1 = (if jm_has m k then jm_delete k m else m)"
  define m2 where "m2 = (if length m1 \<ge> n then (case jm_keys m1 of [] \<Rightarrow> m1 | x # _ \<Rightarrow> jm_delete x m1) else m1)"
  have e: "cache_set n k r m = jm_set k r m2" by (simp only: cache_set_def m1_def m2_def Let_def)
  have del: "set (jm_delete x l) \<subseteq> set l" "length (jm_delete x l) \<le> length l" for x and l :: compilation_cache
    by (auto simp: jm_delete_def)
  have m1: "jm_ok m1" "set m1 \<subseteq> set m" "jm_get m1 k = None"
    using assms(1) del(1) by (simp_all add: m1_def jm_has_iff)
  have m1_len: "length m1 \<le> max 1 n" using assms(2) del(2) [of k m] by (auto simp only: m1_def split: if_splits)
  have m2: "jm_ok m2" "set m2 \<subseteq> set m1" "jm_get m2 k = None"
    using m1 del(1) by (auto simp: m2_def split: list.splits)
  have "length m2 < max 1 n"
  proof (cases "length m1 \<ge> n")
    case True
    show ?thesis
    proof (cases m1)
      case Nil
      then show ?thesis by (simp add: m2_def)
    next
      case (Cons x xs)
      then have "length (jm_delete (fst x) m1) = length m1 - 1"
        using m1(1) by (subst length_jm_delete) (auto simp: jm_get_Cons)
      with True Cons m1_len show ?thesis by (simp add: m2_def)
    qed
  qed (simp add: m2_def)
  then have "length (jm_set k r m2) \<le> max 1 n" by (simp add: length_jm_set)
  with m1(2) m2 jm_ok_set [OF m2(1)] set_jm_setD [of _ k r m2] show ?thesis unfolding e by blast
qed

lemma sql_compile_ok:
  assumes "compiler_ok json cal seen pretty n s"
  shows "compiler_ok json cal (insert (q, opts) seen) pretty n (snd (sql_compile json cal q opts s))"
proof (cases "sc_isDisposed s")
  case True
  with assms show ?thesis by (fastforce simp: sql_compile_def compiler_ok_def)
next
  case False
  define key where "key = generateCacheKey json q opts"
  show ?thesis
  proof (cases "jm_get (sc_cache s) key")
    case (Some r)
    then have "(key, r) \<in> set (sc_cache s)" by (rule jm_get_Some_in)
    define c where "c = jm_set key r (jm_delete key (sc_cache s))"
    have "set c \<subseteq> set (sc_cache s)"
      using set_jm_setD [of _ key r "jm_delete key (sc_cache s)"] \<open>(key, r) \<in> set (sc_cache s)\<close>
      by (auto simp: c_def jm_delete_def)
    moreover have "jm_ok c" "length c = length (sc_cache s)"
      using assms Some by (auto simp: c_def compiler_ok_def length_jm_set length_jm_delete) (metis Suc_pred jm_get_Nil length_greater_0_conv option.distinct(1))+
    moreover have "snd (sql_compile json cal q opts s) = s\<lparr>sc_cache := c\<rparr>"
      using False Some by (simp add: sql_compile_def cache_get_def key_def c_def Let_def)
    ultimately show ?thesis using assms by (fastforce simp: compiler_ok_def)
  next
    case None
    show ?thesis
    proof (cases "compileInternal cal pretty q opts")
      case (Inl e)
      with False None assms show ?thesis by (fastforce simp: sql_compile_def cache_get_def key_def compiler_ok_def)
    next
      case (Inr r)
      define c where "c = cache_set n key r (sc_cache s)"
      have "snd (sql_compile json cal q opts s) = s\<lparr>sc_cache := c\<rparr>"
        using False None Inr assms by (simp add: sql_compile_def cache_get_def key_def c_def compiler_ok_def)
      moreover have "jm_ok c" "length c \<le> max 1 n" "set c \<subseteq> insert (key, r) (set (sc_cache s))"
        using cache_set_props [of "sc_cache s" n key r] assms by (simp_all add: c_def compiler_ok_def)
      ultimately show ?thesis using assms Inr by (fastforce simp: compiler_ok_def key_def)
    qed
  qed
qed

lemma compiler_ok_mono:
  "compiler_ok json cal seen pretty n s \<Longrightarrow> seen \<subseteq> seen' \<Longrightarrow> compiler_ok json cal seen' pretty n s"
  by (fastforce simp: compiler_ok_def)

lemma compiler_run_ok:
  "compiler_ok json cal seen pretty n s \<Longrightarrow>
     compiler_ok json cal (seen \<union> set (concat (map compiled_query calls))) pretty n (fold (compiler_step json cal) calls s)"
proof (induction calls arbitrary: s seen)
  case (Cons call calls)
  have "compiler_ok json cal (seen \<union> set (compiled_query call)) pretty n (compiler_step json cal call s)"
  proof (cases call)
    case (Compile q opts)
    with sql_compile_ok [OF Cons.prems, of q opts] show ?thesis by simp
  next
    case Clear_cache
    with Cons.prems show ?thesis by (simp add: compiler_ok_def clearCache_def)
  next
    case Dispose
    with Cons.prems show ?thesis by (simp add: compiler_ok_def compiler_dispose_def)
  qed
  from Cons.IH [OF this] show ?case by (simp add: Un_assoc)
qed simp

lemma new_compiler_ok: "compiler_ok json cal {} pretty n (new_compiler n pretty)"
  by (simp add: compiler_ok_def new_compiler_def)

lemma compiled_result:
  assumes "compiler_ok json cal seen pretty n s" "\<not> sc_isDisposed s"
    and "inj_on (\<lambda>(q, opts). generateCacheKey json q opts) (insert (q, opts) seen)"
  shows "fst (sql_compile json cal q opts s) = compileInternal cal pretty q opts"
proof (cases "jm_get (sc_cache s) (generateCacheKey json q opts)")
  case None
  with assms(1,2) show ?thesis
    by (cases "compileInternal cal pretty q opts") (simp_all add: sql_compile_def cache_get_def compiler_ok_def)
next
  case (Some r)
  from jm_get_Some_in [OF this] assms(1) obtain q' opts' where "(q', opts') \<in> seen"
    "generateCacheKey json q opts = generateCacheKey json q' opts'" "compileInternal cal pretty q' opts' = Inr r"
    by (fastforce simp: compiler_ok_def)
  with assms(3) have "(q', opts') = (q, opts)" by (auto dest: inj_onD [where x = "(q, opts)"])
  with \<open>compileInternal cal pretty q' opts' = Inr r\<close> Some assms(2) show ?thesis
    by (simp add: sql_compile_def cache_get_def Let_def)
qed



definition code_query :: "string \<Rightarrow> query" where
  "code_query v =
     empty_query\<lparr>q_dimensions := Some [\<lparr>dim_member = ''users.name'', dim_alias = None\<rparr>],
       q_filters := Some [Condition (createFilterCondition ''users.id'' EQUALS (Some [FString v]))]\<rparr>"

definition code_query_json :: "string \<Rightarrow> string" where
  "code_query_json v =
     (let q = [CHR 0x22] in
      ''{'' @ q @ ''query'' @ q @ '':{'' @ q @ ''dimensions'' @ q @ '':[{'' @ q @ ''member'' @ q @ '':'' @ q @ ''users.name'' @ q
      @ ''}],'' @ q @ ''filters'' @ q @ '':[{'' @ q @ ''member'' @ q @ '':'' @ q @ ''users.id'' @ q @ '','' @ q @ ''operator'' @ q
      @ '':'' @ q @ ''equals'' @ q @ '','' @ q @ ''values'' @ q @ '':['' @ q @ v @ q @ '']}]}}'')"

lemma code_queries_collide: "hash_word (code_query_json ''b1'') = hash_word (code_query_json ''cP'')"
  by code_simp

text \<open>Two different queries get one another's SQL. Filtering users by id \<open>b1\<close> and by id \<open>cP\<close> gives JSON
  texts with the same 32-bit hash, so a compiler that has compiled the first returns the SQL of the
  first for the second.\<close>

theorem cache_key_collision:
  assumes "json (code_query ''b1'', None) = code_query_json ''b1''" "json (code_query ''cP'', None) = code_query_json ''cP''"
  shows "let (r1, s1) = sql_compile json cal (code_query ''b1'') None (new_compiler 100 False);
             (r2, s2) = sql_compile json cal (code_query ''cP'') None s1
         in r2 = r1 \<and> \<not> isl r1 \<and> r2 \<noteq> compileInternal cal False (code_query ''cP'') None"
proof -
  define b where "b = compileInternal cal False (code_query ''b1'') None"
  have key: "generateCacheKey json (code_query ''cP'') None = generateCacheKey json (code_query ''b1'') None"
    using assms code_queries_collide by (simp add: generateCacheKey_def hashPayloadSync_def simpleHash_eq_iff)
  have "map_sum id cr_sql (compileInternal cal False (code_query ''b1'') None) \<noteq>
      map_sum id cr_sql (compileInternal cal False (code_query ''cP'') None)" by code_simp
  then have ne: "b \<noteq> compileInternal cal False (code_query ''cP'') None" unfolding b_def by metis
  have "\<not> isl b" unfolding b_def by code_simp
  then obtain r where r: "b = Inr r" by (cases b) auto
  define s1 where "s1 = (new_compiler 100 False)\<lparr>sc_cache := cache_set 100 (generateCacheKey json (code_query ''b1'') None) r []\<rparr>"
  have 1: "sql_compile json cal (code_query ''b1'') None (new_compiler 100 False) = (Inr r, s1)"
    using r by (simp add: sql_compile_def new_compiler_def cache_get_def Let_def s1_def flip: b_def)
  have "fst (sql_compile json cal (code_query ''cP'') None s1) = Inr r"
    by (simp add: sql_compile_def s1_def new_compiler_def cache_get_def cache_set_def key jm_has_iff Let_def jm_get_Cons)
  with 1 ne r show ?thesis by (simp add: case_prod_beta Let_def)
qed

definition collision_json :: stringify where
  "collision_json p = (if p = (code_query ''b1'', None) then code_query_json ''b1'' else code_query_json ''cP'')"

theorem cache_key_collision_witness:
  "let (r1, s1) = sql_compile collision_json no_calendar (code_query ''b1'') None (new_compiler 100 False)
   in fst (sql_compile collision_json no_calendar (code_query ''cP'') None s1) = r1 \<and>
      r1 \<noteq> compileInternal no_calendar False (code_query ''cP'') None"
proof -
  have "code_query ''cP'' \<noteq> code_query ''b1''" by code_simp
  then show ?thesis using cache_key_collision [of collision_json no_calendar] by (auto simp: collision_json_def case_prod_beta Let_def)
qed


end
