(* ===== verification/Decision_Engine.thy ===== *)
theory Decision_Engine
  imports Query_Model
begin

text \<open>
  The decision engine (\<open>query-engine/src/engine/decision-engine.ts\<close>, \<open>types/decision.ts\<close>), which routes a
  query to the HTTP API or to DuckDB: the context it looks at, the factors, the eight built-in rules
  in their order, first match wins, the edits of the rule list, and the two shortcuts \<open>canUseApi\<close>
  and \<open>requiresDuckDB\<close>. API references and freshness levels are represented by whether they are
  set and by their text. The locale \<open>rule_engine\<close> states what the engine relies on: a rule list with a
  catch-all at its end.
\<close>

datatype execution_path = API | DUCKDB

datatype decision_reason =
    MUTATION_USES_API | SIMPLE_QUERY_WITH_API | HAS_JOINS | HAS_MEASURES | MULTIPLE_TABLES | LOCAL_TABLE
  | NO_LIST_API | ANALYTICS_PREFERRED | FORCED_PATH | NO_MUTATION_API | NO_API_AVAILABLE | NO_DECISION

record table_api =
  api_list :: bool
  api_get :: bool
  api_create :: bool
  api_update :: bool
  api_delete :: bool

record decision_table_config =
  tc_source :: "string option"
  tc_api :: "table_api option"
  tc_freshness :: "string option"

record decision_context =
  dc_tables :: "string list"
  dc_operation :: operation
  dc_tableConfigs :: "(string, decision_table_config) jmap"
  dc_isOnline :: bool

record decision_factors =
  df_isMutation :: bool
  df_hasJoins :: bool
  df_hasMeasures :: bool
  df_tableCount :: nat
  df_allTablesApi :: bool
  df_allTablesHaveApi :: bool
  df_isOnline :: bool
  df_hasLocalTables :: bool

record decision_options =
  do_forcePath :: "execution_path option"
  do_preferAnalytics :: bool
  do_includeFactors :: bool

record decision_result =
  dr_path :: execution_path
  dr_reason :: decision_reason
  dr_confidence :: int
  dr_apiFunction :: "operation option"
  dr_tablesToLoad :: "string option list option" \<comment> \<open>\<open>tables[0]\<close> of no tables is undefined\<close>
  dr_warnings :: "string list option"
  dr_factors :: "decision_factors option"

record decision_rule =
  rule_name :: string
  rule_match :: "query \<Rightarrow> decision_context \<Rightarrow> decision_factors \<Rightarrow> decision_options option \<Rightarrow> bool"
  rule_decide :: "query \<Rightarrow> decision_context \<Rightarrow> decision_factors \<Rightarrow> decision_options option \<Rightarrow> decision_result"

subsection \<open>Factors\<close>

definition api_flag :: "(table_api \<Rightarrow> bool) \<Rightarrow> decision_table_config option \<Rightarrow> bool" where
  "api_flag f config = (case config of None \<Rightarrow> False | Some c \<Rightarrow> (case tc_api c of None \<Rightarrow> False | Some a \<Rightarrow> f a))"

text \<open>One table: \<open>allTablesApi\<close>, \<open>allTablesHaveApi\<close>, \<open>hasLocalTables\<close>.\<close>

definition factor_table :: "decision_context \<Rightarrow> string \<Rightarrow> bool \<times> bool \<times> bool \<Rightarrow> bool \<times> bool \<times> bool" where
  "factor_table ctx tableName acc =
     (case acc of (allApi, haveApi, hasLocal) \<Rightarrow>
        (case jm_get (dc_tableConfigs ctx) tableName of
           None \<Rightarrow> (False, False, hasLocal)
         | Some config \<Rightarrow>
             (let isLocal = tc_source config = Some ''local''
              in (allApi \<and> \<not> isLocal,
                  haveApi \<and> \<not> (\<not> api_flag api_list (Some config) \<and> \<not> api_flag api_get (Some config)),
                  hasLocal \<or> isLocal))))"

definition computeFactors :: "query \<Rightarrow> decision_context \<Rightarrow> decision_factors" where
  "computeFactors q ctx =
     (case fold (factor_table ctx) (dc_tables ctx) (True, True, False) of (allApi, haveApi, hasLocal) \<Rightarrow>
        \<lparr>df_isMutation = isMutationOperation (dc_operation ctx),
         df_hasJoins = length (or_empty (q_joins q)) > 0,
         df_hasMeasures = length (or_empty (q_measures q)) > 0,
         df_tableCount = length (dc_tables ctx),
         df_allTablesApi = allApi,
         df_allTablesHaveApi = haveApi,
         df_isOnline = dc_isOnline ctx,
         df_hasLocalTables = hasLocal\<rparr>)"

subsection \<open>The built-in rules\<close>

definition tables0 :: "decision_context \<Rightarrow> string option" where
  "tables0 ctx = (case dc_tables ctx of [] \<Rightarrow> None | t # _ \<Rightarrow> Some t)"

definition primary_config :: "decision_context \<Rightarrow> decision_table_config option" where
  "primary_config ctx = (case tables0 ctx of None \<Rightarrow> None | Some t \<Rightarrow> jm_get (dc_tableConfigs ctx) t)"

definition wantsGet :: "query \<Rightarrow> decision_context \<Rightarrow> bool" where
  "wantsGet q ctx \<longleftrightarrow> (case q_entityId q of None \<Rightarrow> False | Some e \<Rightarrow> e \<noteq> []) \<or> dc_operation ctx = OP_GET"

definition operation_text :: "operation \<Rightarrow> string" where
  "operation_text op = (case op of OP_GET \<Rightarrow> ''get'' | OP_LIST \<Rightarrow> ''list'' | OP_CREATE \<Rightarrow> ''create''
     | OP_UPDATE \<Rightarrow> ''update'' | OP_DELETE \<Rightarrow> ''delete'')"

definition mutationRef :: "decision_context \<Rightarrow> bool" where
  "mutationRef ctx =
     (case dc_operation ctx of
        OP_CREATE \<Rightarrow> api_flag api_create (primary_config ctx)
      | OP_UPDATE \<Rightarrow> api_flag api_update (primary_config ctx)
      | OP_DELETE \<Rightarrow> api_flag api_delete (primary_config ctx)
      | _ \<Rightarrow> False)"

definition duckdb_result :: "decision_reason \<Rightarrow> int \<Rightarrow> string option list \<Rightarrow> decision_factors \<Rightarrow> decision_result" where
  "duckdb_result reason conf tables factors =
     \<lparr>dr_path = DUCKDB, dr_reason = reason, dr_confidence = conf, dr_apiFunction = None,
      dr_tablesToLoad = Some tables, dr_warnings = None, dr_factors = Some factors\<rparr>"

definition mutationRule :: decision_rule where
  "mutationRule =
     \<lparr>rule_name = ''mutation'',
      rule_match = (\<lambda>q ctx factors opts. df_isMutation factors),
      rule_decide = (\<lambda>q ctx factors opts.
        if \<not> mutationRef ctx then
          \<lparr>dr_path = API, dr_reason = NO_MUTATION_API, dr_confidence = 0, dr_apiFunction = None, dr_tablesToLoad = None,
           dr_warnings = Some [''Cannot perform '' @ [CHR 0x27] @ operation_text (dc_operation ctx) @ [CHR 0x27] @ '' - no API defined''],
           dr_factors = Some factors\<rparr>
        else
          \<lparr>dr_path = API, dr_reason = MUTATION_USES_API, dr_confidence = 100, dr_apiFunction = Some (dc_operation ctx),
           dr_tablesToLoad = None, dr_warnings = None, dr_factors = Some factors\<rparr>)\<rparr>"

definition joinsRule :: decision_rule where
  "joinsRule =
     \<lparr>rule_name = ''has-joins'',
      rule_match = (\<lambda>q ctx factors opts. df_hasJoins factors),
      rule_decide = (\<lambda>q ctx factors opts. duckdb_result HAS_JOINS 100 (map Some (dc_tables ctx)) factors)\<rparr>"

definition measuresRule :: decision_rule where
  "measuresRule =
     \<lparr>rule_name = ''has-measures'',
      rule_match = (\<lambda>q ctx factors opts. df_hasMeasures factors),
      rule_decide = (\<lambda>q ctx factors opts. duckdb_result HAS_MEASURES 100 (map Some (dc_tables ctx)) factors)\<rparr>"

definition multipleTablesRule :: decision_rule where
  "multipleTablesRule =
     \<lparr>rule_name = ''multiple-tables'',
      rule_match = (\<lambda>q ctx factors opts. df_tableCount factors > 1),
      rule_decide = (\<lambda>q ctx factors opts. duckdb_result MULTIPLE_TABLES 100 (map Some (dc_tables ctx)) factors)\<rparr>"

definition localTableRule :: decision_rule where
  "localTableRule =
     \<lparr>rule_name = ''local-table'',
      rule_match = (\<lambda>q ctx factors opts.
        if df_hasLocalTables factors then True
        else (case primary_config ctx of None \<Rightarrow> False | Some c \<Rightarrow> tc_source c = Some ''local'')),
      rule_decide = (\<lambda>q ctx factors opts. duckdb_result LOCAL_TABLE 100 [] factors)\<rparr>"

definition noApiRule :: decision_rule where
  "noApiRule =
     \<lparr>rule_name = ''no-api'',
      rule_match = (\<lambda>q ctx factors opts.
        (let hasListApi = api_flag api_list (primary_config ctx);
             hasGetApi = api_flag api_get (primary_config ctx)
         in if \<not> wantsGet q ctx \<and> \<not> hasListApi then True
            else if wantsGet q ctx \<and> \<not> hasGetApi \<and> \<not> hasListApi then True
            else False)),
      rule_decide = (\<lambda>q ctx factors opts.
        duckdb_result (if wantsGet q ctx then NO_API_AVAILABLE else NO_LIST_API) 100 [tables0 ctx] factors)\<rparr>"

definition analyticsPreferredRule :: decision_rule where
  "analyticsPreferredRule =
     \<lparr>rule_name = ''analytics-preferred'',
      rule_match = (\<lambda>q ctx factors opts.
        if \<not> (case opts of None \<Rightarrow> False | Some p \<Rightarrow> do_preferAnalytics p) then False
        else (case primary_config ctx of None \<Rightarrow> False | Some c \<Rightarrow> tc_freshness c = Some ''eventual'')),
      rule_decide = (\<lambda>q ctx factors opts. duckdb_result ANALYTICS_PREFERRED 80 [tables0 ctx] factors)\<rparr>"

definition defaultApiRule :: decision_rule where
  "defaultApiRule =
     \<lparr>rule_name = ''default-api'',
      rule_match = (\<lambda>q ctx factors opts. True),
      rule_decide = (\<lambda>q ctx factors opts.
        \<lparr>dr_path = API, dr_reason = SIMPLE_QUERY_WITH_API, dr_confidence = 100,
         dr_apiFunction = Some (if wantsGet q ctx then OP_GET else OP_LIST), dr_tablesToLoad = None,
         dr_warnings = None, dr_factors = Some factors\<rparr>)\<rparr>"

definition DEFAULT_DECISION_RULES :: "decision_rule list" where
  "DEFAULT_DECISION_RULES =
     [mutationRule, joinsRule, measuresRule, multipleTablesRule, localTableRule, noApiRule, analyticsPreferredRule,
      defaultApiRule]"

subsection \<open>The engine\<close>

datatype engine_error = EngineDisposed

record decision_engine =
  de_rules :: "decision_rule list"
  de_isDisposed :: bool

definition new_engine :: "decision_rule list option \<Rightarrow> decision_engine" where
  "new_engine customRules =
     \<lparr>de_rules = (case customRules of Some rs \<Rightarrow> rs | None \<Rightarrow> DEFAULT_DECISION_RULES), de_isDisposed = False\<rparr>"

definition engine_dispose :: "decision_engine \<Rightarrow> decision_engine" where
  "engine_dispose e = (if de_isDisposed e then e else e\<lparr>de_isDisposed := True\<rparr>)"

text \<open>\<open>splice(i, 0, rule)\<close>; a negative start counts from the end.\<close>

definition splice_insert :: "int \<Rightarrow> 'a \<Rightarrow> 'a list \<Rightarrow> 'a list" where
  "splice_insert i x xs =
     (let n = int (length xs); j = nat (if i < 0 then max 0 (n + i) else min i n)
      in take j xs @ x # drop j xs)"

definition addRule :: "decision_rule \<Rightarrow> int option \<Rightarrow> decision_engine \<Rightarrow> decision_engine" where
  "addRule r index e =
     (let n = int (length (de_rules e))
      in case index of
           Some i \<Rightarrow>
             if i \<ge> 0 \<and> i \<le> n then e\<lparr>de_rules := splice_insert i r (de_rules e)\<rparr>
             else e\<lparr>de_rules := splice_insert (n - 1) r (de_rules e)\<rparr>
         | None \<Rightarrow> e\<lparr>de_rules := splice_insert (n - 1) r (de_rules e)\<rparr>)"

fun remove_rule_named :: "string \<Rightarrow> decision_rule list \<Rightarrow> decision_rule list option" where
  "remove_rule_named name [] = None"
| "remove_rule_named name (r # rs) =
     (if rule_name r = name then Some rs else map_option ((#) r) (remove_rule_named name rs))"

definition removeRule :: "string \<Rightarrow> decision_engine \<Rightarrow> bool \<times> decision_engine" where
  "removeRule name e =
     (case remove_rule_named name (de_rules e) of
        None \<Rightarrow> (False, e)
      | Some rs \<Rightarrow> (True, e\<lparr>de_rules := rs\<rparr>))"

fun first_match ::
  "decision_rule list \<Rightarrow> query \<Rightarrow> decision_context \<Rightarrow> decision_factors \<Rightarrow> decision_options option \<Rightarrow> decision_rule option" where
  "first_match [] q ctx factors opts = None"
| "first_match (r # rs) q ctx factors opts =
     (if rule_match r q ctx factors opts then Some r else first_match rs q ctx factors opts)"

definition includeFactors :: "decision_options option \<Rightarrow> bool" where
  "includeFactors opts = (case opts of None \<Rightarrow> False | Some p \<Rightarrow> do_includeFactors p)"

definition decide :: "query \<Rightarrow> decision_context \<Rightarrow> decision_options option \<Rightarrow> decision_engine \<Rightarrow> engine_error + decision_result" where
  "decide q ctx opts e =
     (if de_isDisposed e then Inl EngineDisposed
      else case (case opts of None \<Rightarrow> None | Some p \<Rightarrow> do_forcePath p) of
        Some path \<Rightarrow>
          Inr \<lparr>dr_path = path, dr_reason = FORCED_PATH, dr_confidence = 100, dr_apiFunction = None, dr_tablesToLoad = None,
               dr_warnings = None, dr_factors = (if includeFactors opts then Some (computeFactors q ctx) else None)\<rparr>
      | None \<Rightarrow>
          (let factors = computeFactors q ctx
           in case first_match (de_rules e) q ctx factors opts of
                Some r \<Rightarrow>
                  (let result = rule_decide r q ctx factors opts
                   in Inr (if \<not> includeFactors opts \<and> dr_factors result \<noteq> None then result\<lparr>dr_factors := None\<rparr> else result))
              | None \<Rightarrow>
                  Inr \<lparr>dr_path = API, dr_reason = NO_DECISION, dr_confidence = 0, dr_apiFunction = None, dr_tablesToLoad = None,
                       dr_warnings = None, dr_factors = (if includeFactors opts then Some factors else None)\<rparr>))"

definition canUseApi :: "query \<Rightarrow> decision_context \<Rightarrow> bool" where
  "canUseApi q ctx =
     (if length (or_empty (q_joins q)) > 0 then False
      else if length (or_empty (q_measures q)) > 0 then False
      else if length (dc_tables ctx) > 1 then False
      else case primary_config ctx of
        None \<Rightarrow> False
      | Some config \<Rightarrow>
          if tc_source config = Some ''local'' then False
          else if \<not> api_flag api_list (Some config) \<and> \<not> api_flag api_get (Some config) then False
          else True)"

definition requiresDuckDB :: "query \<Rightarrow> bool" where
  "requiresDuckDB q =
     (if length (or_empty (q_joins q)) > 0 then True
      else if length (or_empty (q_measures q)) > 0 then True
      else if length (extract_tables q) > 1 then True
      else False)"

subsection \<open>Routing\<close>

definition local_table :: "decision_context \<Rightarrow> string \<Rightarrow> bool" where
  "local_table ctx t = (case jm_get (dc_tableConfigs ctx) t of None \<Rightarrow> False | Some c \<Rightarrow> tc_source c = Some ''local'')"

definition api_missing :: "query \<Rightarrow> decision_context \<Rightarrow> bool" where
  "api_missing q ctx \<longleftrightarrow>
     \<not> api_flag api_list (primary_config ctx) \<and> \<not> (wantsGet q ctx \<and> api_flag api_get (primary_config ctx))"

definition prefers_analytics :: "decision_context \<Rightarrow> decision_options option \<Rightarrow> bool" where
  "prefers_analytics ctx opts \<longleftrightarrow>
     (case opts of None \<Rightarrow> False | Some p \<Rightarrow> do_preferAnalytics p) \<and>
     (case primary_config ctx of None \<Rightarrow> False | Some c \<Rightarrow> tc_freshness c = Some ''eventual'')"

definition needs_duckdb :: "query \<Rightarrow> decision_context \<Rightarrow> decision_options option \<Rightarrow> bool" where
  "needs_duckdb q ctx opts \<longleftrightarrow>
     or_empty (q_joins q) \<noteq> [] \<or> or_empty (q_measures q) \<noteq> [] \<or> length (dc_tables ctx) > 1 \<or>
     list_ex (local_table ctx) (dc_tables ctx) \<or> api_missing q ctx \<or> prefers_analytics ctx opts"

definition not_forced :: "decision_options option \<Rightarrow> bool" where
  "not_forced opts = (case opts of None \<Rightarrow> True | Some p \<Rightarrow> do_forcePath p = None)"

lemma factor_local: "snd (snd (factor_table ctx t acc)) = (snd (snd acc) \<or> local_table ctx t)"
  by (cases acc) (auto simp: factor_table_def local_table_def Let_def split: option.split)

lemma factor_fold: "snd (snd (fold (factor_table ctx) ts acc)) = (snd (snd acc) \<or> list_ex (local_table ctx) ts)"
  by (induction ts arbitrary: acc) (simp_all add: factor_local)

lemma computeFactors_fields:
  "df_isMutation (computeFactors q ctx) = isMutationOperation (dc_operation ctx)"
  "df_hasJoins (computeFactors q ctx) \<longleftrightarrow> or_empty (q_joins q) \<noteq> []"
  "df_hasMeasures (computeFactors q ctx) \<longleftrightarrow> or_empty (q_measures q) \<noteq> []"
  "df_tableCount (computeFactors q ctx) = length (dc_tables ctx)"
  "df_hasLocalTables (computeFactors q ctx) = list_ex (local_table ctx) (dc_tables ctx)"
  using factor_fold [of ctx "dc_tables ctx" "(True, True, False)"]
  by (auto simp: computeFactors_def case_prod_beta)

lemma primary_local:
  "(case primary_config ctx of None \<Rightarrow> False | Some c \<Rightarrow> tc_source c = Some ''local'') \<Longrightarrow>
     list_ex (local_table ctx) (dc_tables ctx)"
  by (auto simp: primary_config_def tables0_def local_table_def split: option.splits list.splits)

text \<open>An engine's rule list is total when one of its rules matches everything; then a rule always decides.\<close>

definition total_rule :: "decision_rule \<Rightarrow> bool" where
  "total_rule r \<longleftrightarrow> (\<forall>q ctx factors opts. rule_match r q ctx factors opts)"

lemma first_match_total: "r \<in> set rs \<Longrightarrow> total_rule r \<Longrightarrow> first_match rs q ctx f opts \<noteq> None"
  by (induction rs) (auto simp: total_rule_def)

lemma first_match_append:
  "first_match (xs @ ys) q ctx f opts =
     (case first_match xs q ctx f opts of Some r \<Rightarrow> Some r | None \<Rightarrow> first_match ys q ctx f opts)"
  by (induction xs) auto

lemma first_match_in: "first_match rs q ctx f opts = Some r \<Longrightarrow> r \<in> set rs \<and> rule_match r q ctx f opts"
  by (induction rs) (auto split: if_splits)

locale rule_engine =
  fixes rules :: "decision_rule list"
  assumes last_total: "rules \<noteq> []" "total_rule (last rules)"
begin

lemma decides: "first_match rules q ctx f opts \<noteq> None"
  using first_match_total last_total by (metis last_in_set)

lemma added_at_end_unreachable: "first_match (rules @ later) q ctx f opts = first_match rules q ctx f opts"
  using decides [of q ctx f opts] by (auto simp: first_match_append split: option.split)

lemma added_before_last:
  "rule_engine (take i rules @ r # drop i rules)" if "i < length rules"
  using that last_total by unfold_locales (simp_all add: last_drop)

end

lemma default_total: "total_rule defaultApiRule"
  by (simp add: total_rule_def defaultApiRule_def)

interpretation builtin: rule_engine DEFAULT_DECISION_RULES
  by unfold_locales (simp_all add: DEFAULT_DECISION_RULES_def default_total)

lemma decide_eq:
  "not_forced opts \<Longrightarrow> \<not> de_isDisposed e \<Longrightarrow> first_match (de_rules e) q ctx (computeFactors q ctx) opts = Some r \<Longrightarrow>
     \<exists>res. decide q ctx opts e = Inr res \<and>
       dr_path res = dr_path (rule_decide r q ctx (computeFactors q ctx) opts) \<and>
       dr_reason res = dr_reason (rule_decide r q ctx (computeFactors q ctx) opts)"
  by (cases opts) (auto simp: decide_def not_forced_def Let_def)

lemma default_match:
  "first_match DEFAULT_DECISION_RULES q ctx (computeFactors q ctx) opts = Some
     (if isMutationOperation (dc_operation ctx) then mutationRule
      else if or_empty (q_joins q) \<noteq> [] then joinsRule
      else if or_empty (q_measures q) \<noteq> [] then measuresRule
      else if length (dc_tables ctx) > 1 then multipleTablesRule
      else if list_ex (local_table ctx) (dc_tables ctx) then localTableRule
      else if api_missing q ctx then noApiRule
      else if prefers_analytics ctx opts then analyticsPreferredRule
      else defaultApiRule)"
proof -
  have m: "rule_match mutationRule q ctx (computeFactors q ctx) opts = isMutationOperation (dc_operation ctx)"
    "rule_match joinsRule q ctx (computeFactors q ctx) opts \<longleftrightarrow> or_empty (q_joins q) \<noteq> []"
    "rule_match measuresRule q ctx (computeFactors q ctx) opts \<longleftrightarrow> or_empty (q_measures q) \<noteq> []"
    "rule_match multipleTablesRule q ctx (computeFactors q ctx) opts \<longleftrightarrow> length (dc_tables ctx) > 1"
    by (simp_all add: mutationRule_def joinsRule_def measuresRule_def multipleTablesRule_def computeFactors_fields)
  have l: "rule_match localTableRule q ctx (computeFactors q ctx) opts = list_ex (local_table ctx) (dc_tables ctx)"
    using primary_local [of ctx] by (auto simp: localTableRule_def computeFactors_fields)
  have n: "rule_match noApiRule q ctx (computeFactors q ctx) opts = api_missing q ctx"
    "rule_match analyticsPreferredRule q ctx (computeFactors q ctx) opts = prefers_analytics ctx opts"
    "rule_match defaultApiRule q ctx (computeFactors q ctx) opts"
    by (auto simp: noApiRule_def analyticsPreferredRule_def defaultApiRule_def api_missing_def prefers_analytics_def Let_def)
  show ?thesis by (simp add: DEFAULT_DECISION_RULES_def m l n)
qed

text \<open>Routing is complete and decided by the query's needs. With the built-in rules and no forced path the
  engine always decides; mutations go to the API, and any other query goes to DuckDB exactly when it has
  joins or measures, spans several tables, involves a local table, has no API that can answer it, or
  prefers analytics on eventually consistent data. What is sent to the API as a read passes
  \<open>canUseApi\<close>, and what \<open>requiresDuckDB\<close> names for joins or measures is never read from the API.\<close>

theorem default_routing:
  assumes "not_forced opts"
  shows "\<exists>r. decide q ctx opts (new_engine None) = Inr r \<and> dr_reason r \<noteq> NO_DECISION \<and>
    (dr_path r = DUCKDB \<longleftrightarrow> \<not> isMutationOperation (dc_operation ctx) \<and> needs_duckdb q ctx opts) \<and>
    (dr_path r = API \<and> \<not> isMutationOperation (dc_operation ctx) \<longrightarrow> canUseApi q ctx \<and> dr_reason r = SIMPLE_QUERY_WITH_API)"
proof -
  let ?f = "computeFactors q ctx"
  define r where "r = the (first_match DEFAULT_DECISION_RULES q ctx ?f opts)"
  have "first_match (de_rules (new_engine None)) q ctx ?f opts = Some r"
    using default_match [of q ctx opts] by (simp add: r_def new_engine_def)
  from decide_eq [OF assms _ this] obtain res where res: "decide q ctx opts (new_engine None) = Inr res"
    "dr_path res = dr_path (rule_decide r q ctx ?f opts)" "dr_reason res = dr_reason (rule_decide r q ctx ?f opts)"
    by (auto simp: new_engine_def)
  note rules = mutationRule_def joinsRule_def measuresRule_def multipleTablesRule_def localTableRule_def noApiRule_def
    analyticsPreferredRule_def defaultApiRule_def duckdb_result_def
  have r: "r = (if isMutationOperation (dc_operation ctx) then mutationRule
      else if or_empty (q_joins q) \<noteq> [] then joinsRule
      else if or_empty (q_measures q) \<noteq> [] then measuresRule
      else if length (dc_tables ctx) > 1 then multipleTablesRule
      else if list_ex (local_table ctx) (dc_tables ctx) then localTableRule
      else if api_missing q ctx then noApiRule
      else if prefers_analytics ctx opts then analyticsPreferredRule
      else defaultApiRule)"
    using default_match [of q ctx opts] by (simp add: r_def)
  have "dr_path (rule_decide r q ctx ?f opts) = DUCKDB \<longleftrightarrow>
      \<not> isMutationOperation (dc_operation ctx) \<and> needs_duckdb q ctx opts"
    "dr_reason (rule_decide r q ctx ?f opts) \<noteq> NO_DECISION"
    unfolding r needs_duckdb_def by (simp_all add: rules)
  moreover have "canUseApi q ctx \<and> dr_reason (rule_decide r q ctx ?f opts) = SIMPLE_QUERY_WITH_API"
    if "dr_path (rule_decide r q ctx ?f opts) = API" "\<not> isMutationOperation (dc_operation ctx)"
  proof -
    from that calculation(1) have nd: "\<not> needs_duckdb q ctx opts" by auto
    then have "primary_config ctx \<noteq> None"
      by (cases "primary_config ctx") (auto simp: needs_duckdb_def api_missing_def api_flag_def)
    with nd primary_local [of ctx] have "canUseApi q ctx"
      by (auto simp: needs_duckdb_def canUseApi_def api_missing_def)
    with nd that(2) show ?thesis by (simp add: r needs_duckdb_def rules)
  qed
  ultimately show ?thesis using res by (intro exI [of _ res]) auto
qed

definition users_context :: "bool \<Rightarrow> decision_context" where
  "users_context hasList =
     \<lparr>dc_tables = [''users''], dc_operation = OP_LIST,
      dc_tableConfigs = [(''users'', \<lparr>tc_source = Some ''api'',
        tc_api = Some \<lparr>api_list = hasList, api_get = True, api_create = False, api_update = False, api_delete = False\<rparr>,
        tc_freshness = None\<rparr>)],
      dc_isOnline = True\<rparr>"

theorem default_routing_witness:
  "\<exists>r. decide empty_query (users_context True) None (new_engine None) = Inr r \<and> dr_path r = API"
proof -
  obtain r where "decide empty_query (users_context True) None (new_engine None) = Inr r"
    "dr_path r = DUCKDB \<longleftrightarrow> \<not> isMutationOperation (dc_operation (users_context True)) \<and>
       needs_duckdb empty_query (users_context True) None"
    using default_routing [of None empty_query "users_context True"] by (auto simp: not_forced_def)
  moreover have "\<not> needs_duckdb empty_query (users_context True) None" by code_simp
  ultimately show ?thesis using execution_path.exhaust by metis
qed

text \<open>The shortcut is weaker than the decision: a table with only a get API passes \<open>canUseApi\<close>, but a list
  query on it goes to DuckDB.\<close>

lemma canUseApi_too_permissive:
  "canUseApi empty_query (users_context False) \<and>
   map_sum id dr_path (decide empty_query (users_context False) None (new_engine None)) = Inr DUCKDB"
  by (intro conjI; code_simp)

text \<open>Edits of the rule list.\<close>

datatype rule_edit = Add decision_rule "int option" | Remove string

fun rule_edit_step :: "rule_edit \<Rightarrow> decision_engine \<Rightarrow> decision_engine" where
  "rule_edit_step (Add r index) e = addRule r index e"
| "rule_edit_step (Remove name) e = snd (removeRule name e)"

fun keeps_default :: "rule_edit \<Rightarrow> bool" where
  "keeps_default (Add r index) = True"
| "keeps_default (Remove name) = (name \<noteq> ''default-api'')"

lemma set_splice: "set (splice_insert i x xs) = insert x (set xs)"
proof -
  have "set (take j xs) \<union> set (drop j xs) = set xs" for j by (metis append_take_drop_id set_append)
  then show ?thesis by (auto simp: splice_insert_def Let_def)
qed

lemma set_addRule: "set (de_rules (addRule r index e)) = insert r (set (de_rules e))"
  by (simp add: addRule_def Let_def set_splice split: option.split)

lemma remove_rule_keeps: "remove_rule_named name rs = Some rs' \<Longrightarrow> r \<in> set rs \<Longrightarrow> rule_name r \<noteq> name \<Longrightarrow> r \<in> set rs'"
  by (induction rs arbitrary: rs') (auto split: if_splits)

lemma edit_keeps_default:
  "defaultApiRule \<in> set (de_rules e) \<Longrightarrow> keeps_default x \<Longrightarrow> defaultApiRule \<in> set (de_rules (rule_edit_step x e))"
  by (cases x) (auto simp: set_addRule removeRule_def defaultApiRule_def [abs_def] split: option.split
      intro: remove_rule_keeps)

lemma edits_keep_default:
  "defaultApiRule \<in> set (de_rules e) \<Longrightarrow> list_all keeps_default xs \<Longrightarrow>
     defaultApiRule \<in> set (de_rules (fold rule_edit_step xs e))"
  by (induction xs arbitrary: e) (auto intro: edit_keeps_default)

text \<open>Adding rules. As long as the built-in fallback is not removed, some rule decides every query after any
  additions and removals. On the built-in list, a rule added at index 0 decides every query it
  matches, a rule added without an index is consulted before the fallback, and a rule added at the
  end is never consulted.\<close>

theorem rule_edits:
  assumes "list_all keeps_default edits"
  shows "first_match (de_rules (fold rule_edit_step edits (new_engine None))) q ctx f opts \<noteq> None \<and>
    (rule_match r q ctx f opts \<longrightarrow> first_match (de_rules (addRule r (Some 0) (new_engine None))) q ctx f opts = Some r) \<and>
    (rule_match r q ctx f opts \<and> first_match DEFAULT_DECISION_RULES q ctx f opts = Some defaultApiRule \<longrightarrow>
       first_match (de_rules (addRule r None (new_engine None))) q ctx f opts = Some r) \<and>
    first_match (de_rules (addRule r (Some (int (length DEFAULT_DECISION_RULES))) (new_engine None))) q ctx f opts =
      first_match DEFAULT_DECISION_RULES q ctx f opts"
proof (intro conjI impI)
  have "defaultApiRule \<in> set (de_rules (new_engine None))" by (simp add: new_engine_def DEFAULT_DECISION_RULES_def)
  from edits_keep_default [OF this assms] default_total
  show "first_match (de_rules (fold rule_edit_step edits (new_engine None))) q ctx f opts \<noteq> None"
    by (rule first_match_total)
next
  show "first_match (de_rules (addRule r (Some 0) (new_engine None))) q ctx f opts = Some r" if "rule_match r q ctx f opts"
    using that by (simp add: addRule_def new_engine_def splice_insert_def Let_def)
next
  define early where "early = butlast DEFAULT_DECISION_RULES"
  have d: "DEFAULT_DECISION_RULES = early @ [defaultApiRule]" "length DEFAULT_DECISION_RULES = Suc (length early)"
    by (simp_all add: early_def DEFAULT_DECISION_RULES_def)
  have nd: "defaultApiRule \<notin> set early"
    by (auto simp: early_def DEFAULT_DECISION_RULES_def mutationRule_def joinsRule_def measuresRule_def
        multipleTablesRule_def localTableRule_def noApiRule_def analyticsPreferredRule_def defaultApiRule_def)
  show "first_match (de_rules (addRule r None (new_engine None))) q ctx f opts = Some r"
    if "rule_match r q ctx f opts \<and> first_match DEFAULT_DECISION_RULES q ctx f opts = Some defaultApiRule"
  proof -
    have "first_match early q ctx f opts = None"
      using that nd first_match_in [of early q ctx f opts] by (auto simp: d(1) first_match_append split: option.splits)
    moreover have "de_rules (addRule r None (new_engine None)) = early @ r # [defaultApiRule]"
      by (simp add: addRule_def new_engine_def splice_insert_def Let_def d)
    ultimately show ?thesis using that by (simp add: first_match_append)
  qed
next
  have "de_rules (addRule r (Some (int (length DEFAULT_DECISION_RULES))) (new_engine None)) = DEFAULT_DECISION_RULES @ [r]"
    by (simp add: addRule_def new_engine_def splice_insert_def Let_def)
  then show "first_match (de_rules (addRule r (Some (int (length DEFAULT_DECISION_RULES))) (new_engine None))) q ctx f opts =
      first_match DEFAULT_DECISION_RULES q ctx f opts"
    by (simp only: builtin.added_at_end_unreachable)
qed

theorem rule_edits_witness:
  "first_match (de_rules (fold rule_edit_step [Remove ''no-api'', Add joinsRule (Some 20)] (new_engine None)))
     empty_query (users_context False) (computeFactors empty_query (users_context False)) None \<noteq> None"
  using rule_edits [of "[Remove ''no-api'', Add joinsRule (Some 20)]"] by simp

end
