(* ===== verification/Dependency_Sort.thy ===== *)
theory Dependency_Sort
  imports Foundation_Prelude "HOL-Library.Multiset"
begin

text \<open>
  The graph utilities of \<open>utils/src/algorithm/index.ts\<close>: \<open>topologicalSort\<close> and
  \<open>hasCircularDependency\<close>, each a depth-first search whose closure \<open>visit\<close> is the recursion on
  the list of keys still to visit and whose \<open>Set\<close>s are threaded as distinct lists. The lemmas
  relate both to the edge relation of the graph: an item is pushed after every dependency that does
  not itself depend on the item, nothing is lost or duplicated, and a cycle is reported exactly
  when there is one.
\<close>

subsection \<open>The code\<close>

text \<open>\<open>new Map(items.map((item) => [getKey(item), item]))\<close>.\<close>

definition itemMap :: "('a \<Rightarrow> 'k) \<Rightarrow> 'a list \<Rightarrow> ('k, 'a) jmap" where
  "itemMap getKey items = fold (\<lambda>item m. jm_set (getKey item) item m) items []"

function topo_visits ::
  "('k, 'a) jmap \<Rightarrow> ('a \<Rightarrow> 'k list) \<Rightarrow> 'k list \<Rightarrow> 'k list \<Rightarrow> 'a list \<Rightarrow> 'k list \<times> 'a list" where
  "topo_visits m deps [] visited result = (visited, result)"
| "topo_visits m deps (k # ks) visited result =
     (if k \<in> set visited then topo_visits m deps ks visited result
      else (case jm_get m k of
              None \<Rightarrow> topo_visits m deps ks (js_add k visited) result
            | Some item \<Rightarrow>
                (let r = topo_visits m deps (deps item) (js_add k visited) result
                 in topo_visits m deps ks (fst r) (snd r @ [item]))))"
  by pat_completeness auto

text \<open>The keys of the map not yet visited never grow, and shrink when the search descends.\<close>

definition unvisited :: "('k, 'a) jmap \<Rightarrow> 'k list \<Rightarrow> nat" where
  "unvisited m visited = card (fst ` set m - set visited)"

lemma unvisited_mono: "set v \<subseteq> set w \<Longrightarrow> unvisited m w \<le> unvisited m v"
  unfolding unvisited_def by (rule card_mono) auto

lemma unvisited_descend:
  "jm_get m k = Some x \<Longrightarrow> k \<notin> set v \<Longrightarrow> unvisited m (js_add k v) < unvisited m v"
  unfolding unvisited_def
proof (rule psubset_card_mono)
  assume "jm_get m k = Some x" "k \<notin> set v"
  then have "k \<in> fst ` set m - set v" by (force simp: jm_get_def dest: map_of_SomeD)
  then show "fst ` set m - set (js_add k v) \<subset> fst ` set m - set v" by auto
qed simp

lemma topo_visits_grows_dom:
  "topo_visits_dom (m, deps, ks, v, r) \<Longrightarrow> set v \<subseteq> set (fst (topo_visits m deps ks v r))"
proof (induction rule: topo_visits.pinduct)
  case (2 m deps k ks v r)
  then show ?case
    by (fastforce simp: topo_visits.psimps Let_def split: option.splits)
qed (simp add: topo_visits.psimps)

termination topo_visits
proof (relation "measures [\<lambda>(m, deps, ks, v, r). unvisited m v, \<lambda>(m, deps, ks, v, r). length ks]", goal_cases)
  case (3 m deps k ks v r)
  have "unvisited m (js_add k v) \<le> unvisited m v" by (rule unvisited_mono) auto
  then show ?case by auto
next
  case (5 m deps k ks v r item x)
  then have "set v \<subseteq> set (fst (topo_visits m deps (deps item) (js_add k v) r))"
    using topo_visits_grows_dom [of m deps "deps item" "js_add k v" r] by auto
  with 5 unvisited_mono [OF this, of m] show ?case by auto
qed (auto dest: unvisited_descend)

definition topologicalSort :: "('a \<Rightarrow> 'k) \<Rightarrow> ('a \<Rightarrow> 'k list) \<Rightarrow> 'a list \<Rightarrow> 'a list" where
  "topologicalSort getKey deps items =
     snd (topo_visits (itemMap getKey items) deps (map getKey items) [] [])"

text \<open>
  \<open>visit\<close> of \<open>hasCircularDependency\<close>: the first component is its result; when it is true the search
  stops at once and \<open>visiting\<close> is left as it is.
\<close>

function cycle_visits ::
  "('k, 'a) jmap \<Rightarrow> ('a \<Rightarrow> 'k list) \<Rightarrow> 'k list \<Rightarrow> 'k list \<Rightarrow> 'k list \<Rightarrow> bool \<times> 'k list \<times> 'k list" where
  "cycle_visits m deps [] visiting visited = (False, visiting, visited)"
| "cycle_visits m deps (k # ks) visiting visited =
     (if k \<in> set visiting then (True, visiting, visited)
      else if k \<in> set visited then cycle_visits m deps ks visiting visited
      else (let r = cycle_visits m deps (case jm_get m k of None \<Rightarrow> [] | Some item \<Rightarrow> deps item)
                      (js_add k visiting) visited
            in if fst r then r
               else cycle_visits m deps ks (removeAll k (fst (snd r))) (js_add k (snd (snd r)))))"
  by pat_completeness auto

lemma cycle_visits_state_dom:
  "cycle_visits_dom (m, deps, ks, p, w) \<Longrightarrow> \<not> fst (cycle_visits m deps ks p w) \<Longrightarrow>
   fst (snd (cycle_visits m deps ks p w)) = p \<and> set w \<subseteq> set (snd (snd (cycle_visits m deps ks p w)))"
proof (induction rule: cycle_visits.pinduct)
  case (2 m deps k ks p w)
  show ?case
  proof (cases "k \<in> set p \<or> k \<in> set w")
    case True
    with 2 show ?thesis by (auto simp: cycle_visits.psimps split: if_splits)
  next
    case False
    define r where "r = cycle_visits m deps (case jm_get m k of None \<Rightarrow> [] | Some item \<Rightarrow> deps item) (js_add k p) w"
    have eq: "cycle_visits m deps (k # ks) p w =
        (if fst r then r else cycle_visits m deps ks (removeAll k (fst (snd r))) (js_add k (snd (snd r))))"
      using False 2(1) by (simp add: cycle_visits.psimps r_def Let_def)
    with 2(5) have nr: "\<not> fst r" by auto
    then have r: "fst (snd r) = js_add k p" "set w \<subseteq> set (snd (snd r))"
      using 2(3) False by (auto simp: r_def)
    have rem: "removeAll k (js_add k p) = p" using False by (simp add: js_add_def)
    show ?thesis
      using 2(4) [OF _ _ r_def nr] 2(5) False r eq nr rem by auto
  qed
qed (simp add: cycle_visits.psimps)

lemma cycle_visits_total: "All cycle_visits_dom"
proof (relation "measures [\<lambda>(m, deps, ks, p, w). unvisited m (p @ w), \<lambda>(m, deps, ks, p, w). length ks]", goal_cases)
  case (3 m deps k ks p w)
  show ?case
  proof (cases "jm_get m k")
    case None
    have "unvisited m (js_add k p @ w) \<le> unvisited m (p @ w)" by (rule unvisited_mono) auto
    with None show ?thesis by auto
  next
    case (Some item)
    have "unvisited m (js_add k p @ w) = unvisited m (js_add k (p @ w))" by (simp add: unvisited_def)
    with unvisited_descend [OF Some, of "p @ w"] Some 3 show ?thesis by simp
  qed
next
  case (4 m deps k ks p w r)
  then have "fst (snd r) = js_add k p \<and> set w \<subseteq> set (snd (snd r))"
    using cycle_visits_state_dom [of m deps _ "js_add k p" w] by auto
  then have "unvisited m (removeAll k (fst (snd r)) @ js_add k (snd (snd r))) \<le> unvisited m (p @ w)"
    by (intro unvisited_mono) auto
  then show ?case by auto
qed auto

termination cycle_visits
  by (rule cycle_visits_total)

lemma cycle_visits_state:
  "\<not> fst (cycle_visits m deps ks p w) \<Longrightarrow>
   fst (snd (cycle_visits m deps ks p w)) = p \<and> set w \<subseteq> set (snd (snd (cycle_visits m deps ks p w)))"
  by (rule cycle_visits_state_dom) (rule cycle_visits_total [THEN spec])

definition hasCircularDependency :: "('a \<Rightarrow> 'k) \<Rightarrow> ('a \<Rightarrow> 'k list) \<Rightarrow> 'a list \<Rightarrow> bool" where
  "hasCircularDependency getKey deps items =
     fst (cycle_visits (itemMap getKey items) deps (map getKey items) [] [])"

subsection \<open>The map of items and the edges of the graph\<close>

definition dep_edges :: "('k, 'a) jmap \<Rightarrow> ('a \<Rightarrow> 'k list) \<Rightarrow> ('k \<times> 'k) set" where
  "dep_edges m deps = {(k, d). \<exists>item. jm_get m k = Some item \<and> d \<in> set (deps item)}"

lemma dep_edgesI: "jm_get m k = Some item \<Longrightarrow> d \<in> set (deps item) \<Longrightarrow> (k, d) \<in> dep_edges m deps"
  by (auto simp: dep_edges_def)

lemma keyed_itemMap [simp]: "keyed key (itemMap key items)"
  unfolding itemMap_def by (rule fold_set_keyed) (simp add: keyed_def)

lemma itemMap_keys: "fst ` set (itemMap key items) = key ` set items"
  by (simp add: itemMap_def fold_set_keys)

lemma itemMap_has: "jm_get (itemMap key items) k \<noteq> None \<longleftrightarrow> k \<in> key ` set items"
  using jm_get_None_iff [of "itemMap key items" k] itemMap_keys [of key items] by auto

lemma itemMap_distinct: "distinct (map key items) \<Longrightarrow> itemMap key items = map (\<lambda>x. (key x, x)) items"
  using fold_set_distinct [of "[]" key items] by (simp add: itemMap_def)

lemma itemMap_get_distinct:
  "distinct (map key items) \<Longrightarrow> jm_get (itemMap key items) k = Some x \<longleftrightarrow> x \<in> set items \<and> key x = k"
  by (subst jm_get_Some_iff) (auto simp: itemMap_distinct comp_def)

subsection \<open>The depth-first order\<close>

text \<open>What one call of \<open>visit\<close> adds: exactly the items of the keys it marks, each once.\<close>

definition new_items :: "('a \<Rightarrow> 'k) \<Rightarrow> ('k, 'a) jmap \<Rightarrow> 'k set \<Rightarrow> 'a list \<Rightarrow> bool" where
  "new_items key m K new \<longleftrightarrow>
     distinct (map key new) \<and> (\<forall>x\<in>set new. jm_get m (key x) = Some x) \<and>
     key ` set new = K \<inter> fst ` set m"

lemma new_items_append:
  "new_items key m K new \<Longrightarrow> new_items key m L new' \<Longrightarrow> K \<inter> L = {} \<Longrightarrow> new_items key m (K \<union> L) (new @ new')"
  by (auto simp: new_items_def)

lemma new_items_one: "keyed key m \<Longrightarrow> jm_get m k = Some x \<Longrightarrow> new_items key m {k} [x]"
  using keyed_get [of key m k x] by (force simp: new_items_def dest: jm_get_Some_in)

lemma new_items_absent: "jm_get m k = None \<Longrightarrow> new_items key m K new \<Longrightarrow> new_items key m (insert k K) new"
  by (auto simp: new_items_def jm_get_None_iff)

lemma topo_visits_adds:
  assumes "keyed key m"
  shows "set v \<subseteq> set (fst (topo_visits m deps ks v r)) \<and> set ks \<subseteq> set (fst (topo_visits m deps ks v r)) \<and>
    (\<exists>new. snd (topo_visits m deps ks v r) = r @ new \<and>
       new_items key m (set (fst (topo_visits m deps ks v r)) - set v) new)"
  using assms
proof (induction m deps ks v r rule: topo_visits.induct)
  case (1 m deps v r)
  then show ?case by (simp add: new_items_def)
next
  case (2 m deps k ks v r)
  consider (seen) "k \<in> set v" | (absent) "k \<notin> set v" "jm_get m k = None"
    | (found) x where "k \<notin> set v" "jm_get m k = Some x"
    by (cases "k \<in> set v"; cases "jm_get m k") auto
  then show ?case
  proof cases
    case seen
    then show ?thesis using 2(1) seen 2(5) by auto
  next
    case absent
    define t where "t = topo_visits m deps ks (js_add k v) r"
    obtain new where n: "snd t = r @ new" "new_items key m (set (fst t) - set (js_add k v)) new"
        "set (js_add k v) \<subseteq> set (fst t)" "set ks \<subseteq> set (fst t)"
      using 2(2) absent 2(5) unfolding t_def by blast
    have "set (fst t) - set v = insert k (set (fst t) - set (js_add k v))"
      using n(3) absent by auto
    with n have "new_items key m (set (fst t) - set v) new"
      using new_items_absent [OF absent(2), of key] by simp
    with n absent show ?thesis by (simp add: t_def [symmetric])
  next
    case found
    define q where "q = topo_visits m deps (deps x) (js_add k v) r"
    define t where "t = topo_visits m deps ks (fst q) (snd q @ [x])"
    have eq: "topo_visits m deps (k # ks) v r = t" using found by (simp add: q_def t_def Let_def)
    obtain n1 where n1: "snd q = r @ n1" "new_items key m (set (fst q) - set (js_add k v)) n1"
        "set (js_add k v) \<subseteq> set (fst q)"
      using 2(3) [OF found 2(5)] by (auto simp: q_def)
    obtain n2 where n2: "snd t = (snd q @ [x]) @ n2" "new_items key m (set (fst t) - set (fst q)) n2"
        "set (fst q) \<subseteq> set (fst t)" "set ks \<subseteq> set (fst t)"
      using 2(4) [OF found q_def 2(5)] by (auto simp: t_def)
    have K: "set (fst t) - set v = ((set (fst q) - set (js_add k v)) \<union> {k}) \<union> (set (fst t) - set (fst q))"
      using n1(3) n2(3) found by auto
    have "new_items key m (((set (fst q) - set (js_add k v)) \<union> {k}) \<union> (set (fst t) - set (fst q))) ((n1 @ [x]) @ n2)"
      using n1 n2 new_items_one [OF 2(5) found(2)] by (intro new_items_append) auto
    with K n1 n2 show ?thesis unfolding eq by auto
  qed
qed

text \<open>
  The order: each dependency of a pushed item stands before it, unless the dependency itself leads
  back to the item.
\<close>

definition deps_first :: "('a \<Rightarrow> 'k) \<Rightarrow> ('k, 'a) jmap \<Rightarrow> ('a \<Rightarrow> 'k list) \<Rightarrow> 'a list \<Rightarrow> bool" where
  "deps_first key m deps r \<longleftrightarrow>
     (\<forall>xs x ys. r = xs @ x # ys \<longrightarrow>
        (\<forall>d\<in>set (deps x). d \<in> fst ` set m \<and> (d, key x) \<notin> (dep_edges m deps)\<^sup>* \<longrightarrow> d \<in> key ` set xs))"

lemma deps_first_snoc:
  "deps_first key m deps r \<Longrightarrow>
   (\<And>d. d \<in> set (deps x) \<Longrightarrow> d \<in> fst ` set m \<Longrightarrow> (d, key x) \<notin> (dep_edges m deps)\<^sup>* \<Longrightarrow> d \<in> key ` set r) \<Longrightarrow>
   deps_first key m deps (r @ [x])"
  unfolding deps_first_def
proof (intro allI impI, goal_cases)
  case (1 xs y ys)
  then show ?case by (cases ys rule: rev_cases) auto
qed

text \<open>
  The keys that are visited but not yet pushed are those of the current search path; every key still
  to visit can be reached from each of them.
\<close>

definition grey :: "('a \<Rightarrow> 'k) \<Rightarrow> ('k, 'a) jmap \<Rightarrow> 'k list \<Rightarrow> 'a list \<Rightarrow> 'k set" where
  "grey key m v r = set v \<inter> fst ` set m - key ` set r"

lemma grey_after:
  assumes "keyed key m"
  shows "grey key m (fst (topo_visits m deps ks v r)) (snd (topo_visits m deps ks v r)) \<subseteq> grey key m v r"
proof -
  obtain new where "snd (topo_visits m deps ks v r) = r @ new"
    and "key ` set new = (set (fst (topo_visits m deps ks v r)) - set v) \<inter> fst ` set m"
    using topo_visits_adds [OF assms, of v deps ks r] unfolding new_items_def by blast
  then show ?thesis unfolding grey_def by (simp only: set_append image_Un) blast
qed

lemma topo_visits_order:
  assumes "keyed key m" and "deps_first key m deps r"
    and "\<forall>g\<in>grey key m v r. \<forall>k\<in>set ks. (g, k) \<in> (dep_edges m deps)\<^sup>*"
  shows "deps_first key m deps (snd (topo_visits m deps ks v r))"
  using assms
proof (induction m deps ks v r rule: topo_visits.induct)
  case (2 m deps k ks v r)
  consider (seen) "k \<in> set v" | (absent) "k \<notin> set v" "jm_get m k = None"
    | (found) x where "k \<notin> set v" "jm_get m k = Some x"
    by (cases "k \<in> set v"; cases "jm_get m k") auto
  then show ?case
  proof cases
    case seen
    then show ?thesis using 2(1) [OF seen 2(5,6)] 2(7) by simp
  next
    case absent
    then have "grey key m (js_add k v) r = grey key m v r"
      by (auto simp: grey_def jm_get_None_iff)
    with absent show ?thesis using 2(2) [OF absent 2(5,6)] 2(7) by simp
  next
    case found
    define q where "q = topo_visits m deps (deps x) (js_add k v) r"
    have key: "key x = k" by (rule keyed_get [OF 2(5) found(2)])
    have down: "(g, d) \<in> (dep_edges m deps)\<^sup>*"
      if "g \<in> grey key m (js_add k v) r" "d \<in> set (deps x)" for g d
    proof -
      have "(k, d) \<in> dep_edges m deps" using dep_edgesI [of m k x d deps] found that(2) by blast
      moreover have "(g, k) \<in> (dep_edges m deps)\<^sup>*" using that(1) 2(7) by (auto simp: grey_def)
      ultimately show ?thesis by (rule rtrancl_into_rtrancl [rotated])
    qed
    have first: "deps_first key m deps (snd q)"
      unfolding q_def using 2(3) [OF found 2(5,6)] down by blast
    have pushed: "d \<in> key ` set (snd q)"
      if "d \<in> set (deps x)" "d \<in> fst ` set m" "(d, key x) \<notin> (dep_edges m deps)\<^sup>*" for d
    proof -
      have "d \<in> set (fst q)" using topo_visits_adds [OF 2(5)] that(1) unfolding q_def by blast
      moreover have "d \<notin> grey key m v r" using that(3) 2(7) key by auto
      moreover have "d \<noteq> k" using that(3) key by auto
      ultimately show ?thesis
        using grey_after [OF 2(5), of deps "deps x" "js_add k v" r] that(2)
        unfolding q_def by (auto simp: grey_def)
    qed
    have "deps_first key m deps (snd q @ [x])" by (rule deps_first_snoc [OF first pushed])
    moreover have "grey key m (fst q) (snd q @ [x]) \<subseteq> grey key m v r"
      using grey_after [OF 2(5), of deps "deps x" "js_add k v" r] key
      unfolding q_def by (auto simp: grey_def)
    ultimately show ?thesis
      using 2(4) [OF found q_def 2(5)] 2(7) found by (auto simp: q_def Let_def)
  qed
qed simp

abbreviation item_edges :: "('a \<Rightarrow> 'k) \<Rightarrow> ('a \<Rightarrow> 'k list) \<Rightarrow> 'a list \<Rightarrow> ('k \<times> 'k) set" where
  "item_edges key deps items \<equiv> dep_edges (itemMap key items) deps"

lemma topologicalSort_items:
  "distinct (map key (topologicalSort key deps items)) \<and>
   key ` set (topologicalSort key deps items) = key ` set items \<and>
   (\<forall>x\<in>set (topologicalSort key deps items). jm_get (itemMap key items) (key x) = Some x)"
  using topo_visits_adds [OF keyed_itemMap [of key items], of "[]" deps "map key items" "[]"]
  by (auto simp: topologicalSort_def new_items_def itemMap_keys)

lemma topologicalSort_deps_first: "deps_first key (itemMap key items) deps (topologicalSort key deps items)"
  unfolding topologicalSort_def
  by (rule topo_visits_order) (auto simp: deps_first_def grey_def)

lemma topologicalSort_distinct:
  assumes "distinct (map key items)"
  shows "mset (topologicalSort key deps items) = mset items"
proof -
  let ?s = "topologicalSort key deps items"
  from topologicalSort_items [of key deps items]
  have s: "distinct (map key ?s)" "key ` set ?s = key ` set items" "\<forall>x\<in>set ?s. x \<in> set items"
    using itemMap_get_distinct [OF assms] by auto
  have "set ?s = set items"
  proof
    show "set items \<subseteq> set ?s"
    proof
      fix x assume "x \<in> set items"
      with s(2) obtain y where "y \<in> set ?s" "key y = key x" by (metis image_iff)
      with s(3) assms \<open>x \<in> set items\<close> show "x \<in> set ?s" by (metis distinct_map inj_onD)
    qed
  qed (use s in auto)
  moreover have "distinct ?s" "distinct items" using s(1) assms by (auto simp: distinct_map)
  ultimately show ?thesis by (metis set_eq_iff_mset_eq_distinct)
qed

subsection \<open>Cycle detection\<close>

text \<open>Every key of the search path leads to every key still to visit.\<close>

lemma cycle_visits_sound:
  "\<forall>p\<in>set visiting. \<forall>k\<in>set ks. (p, k) \<in> (dep_edges m deps)\<^sup>+ \<Longrightarrow>
   fst (cycle_visits m deps ks visiting visited) \<Longrightarrow> \<exists>c. (c, c) \<in> (dep_edges m deps)\<^sup>+"
proof (induction m deps ks visiting visited rule: cycle_visits.induct)
  case (2 m deps k ks p w)
  show ?case
  proof (cases "k \<in> set p \<or> k \<in> set w")
    case True
    with 2 show ?thesis by (auto split: if_splits)
  next
    case False
    define ds where "ds = (case jm_get m k of None \<Rightarrow> [] | Some item \<Rightarrow> deps item)"
    define r where "r = cycle_visits m deps ds (js_add k p) w"
    have eq: "cycle_visits m deps (k # ks) p w =
        (if fst r then r else cycle_visits m deps ks (removeAll k (fst (snd r))) (js_add k (snd (snd r))))"
      using False by (simp add: r_def ds_def Let_def)
    have edge: "(k, d) \<in> dep_edges m deps" if "d \<in> set ds" for d
      using that by (cases "jm_get m k") (auto simp: ds_def dep_edges_def)
    have path: "\<forall>q\<in>set (js_add k p). \<forall>d\<in>set ds. (q, d) \<in> (dep_edges m deps)\<^sup>+"
      using 2(4) edge by (auto intro: trancl_into_trancl)
    show ?thesis
    proof (cases "fst r")
      case True
      with 2(2) False path show ?thesis by (simp add: r_def ds_def)
    next
      case nr: False
      have "fst (snd r) = js_add k p"
        using cycle_visits_state [of m deps ds "js_add k p" w] nr by (simp add: r_def)
      then have "removeAll k (fst (snd r)) = p" using False by (simp add: js_add_def)
      with 2(3) [OF _ _ r_def [unfolded ds_def] nr] 2(4,5) False eq nr show ?thesis by simp
    qed
  qed
qed simp

text \<open>
  The keys that were left without finding a cycle are closed under edges, none of them lies on a
  cycle, and none of them is on the search path.
\<close>

definition settled :: "('k \<times> 'k) set \<Rightarrow> 'k set \<Rightarrow> bool" where
  "settled E W \<longleftrightarrow> E `` W \<subseteq> W \<and> (\<forall>w\<in>W. (w, w) \<notin> E\<^sup>+)"

lemma closed_trancl: "(a, b) \<in> E\<^sup>+ \<Longrightarrow> E `` W \<subseteq> W \<Longrightarrow> a \<in> W \<Longrightarrow> b \<in> W"
  by (induction rule: trancl_induct) auto

lemma settled_insert:
  assumes "settled E W" and "E `` {k} \<subseteq> W" and "k \<notin> W"
  shows "settled E (insert k W)"
proof -
  have "(k, k) \<notin> E\<^sup>+"
  proof
    assume "(k, k) \<in> E\<^sup>+"
    then obtain d where "(k, d) \<in> E" "(d, k) \<in> E\<^sup>*" by (auto dest: tranclD)
    have "d \<in> W" using assms(2) \<open>(k, d) \<in> E\<close> by blast
    with \<open>(d, k) \<in> E\<^sup>*\<close> assms(1,3) show False
      by (metis closed_trancl rtranclD settled_def)
  qed
  with assms show ?thesis unfolding settled_def by blast
qed

lemma cycle_visits_complete:
  "\<not> fst (cycle_visits m deps ks visiting visited) \<Longrightarrow>
   settled (dep_edges m deps) (set visited) \<Longrightarrow> set visiting \<inter> set visited = {} \<Longrightarrow>
   settled (dep_edges m deps) (set (snd (snd (cycle_visits m deps ks visiting visited)))) \<and>
   set ks \<subseteq> set (snd (snd (cycle_visits m deps ks visiting visited))) \<and>
   set visiting \<inter> set (snd (snd (cycle_visits m deps ks visiting visited))) = {}"
proof (induction m deps ks visiting visited rule: cycle_visits.induct)
  case (2 m deps k ks p w)
  show ?case
  proof (cases "k \<in> set p \<or> k \<in> set w")
    case True
    with 2(4) have "k \<notin> set p" "k \<in> set w" by auto
    with 2(1) 2(4-6) cycle_visits_state [of m deps ks p w] show ?thesis by auto
  next
    case False
    define ds where "ds = (case jm_get m k of None \<Rightarrow> [] | Some item \<Rightarrow> deps item)"
    define r where "r = cycle_visits m deps ds (js_add k p) w"
    define w' where "w' = js_add k (snd (snd r))"
    have eq: "cycle_visits m deps (k # ks) p w =
        (if fst r then r else cycle_visits m deps ks (removeAll k (fst (snd r))) w')"
      using False by (simp add: r_def ds_def w'_def Let_def)
    with 2(4) have nr: "\<not> fst r" by auto
    have inner: "settled (dep_edges m deps) (set (snd (snd r)))" "set ds \<subseteq> set (snd (snd r))"
        "set (js_add k p) \<inter> set (snd (snd r)) = {}"
      using 2(2) [OF _ _] False nr 2(5,6) unfolding r_def ds_def by auto
    have "dep_edges m deps `` {k} \<subseteq> set ds" by (auto simp: ds_def dep_edges_def)
    with inner have w': "settled (dep_edges m deps) (set w')" "set p \<inter> set w' = {}"
      using settled_insert [of "dep_edges m deps" "set (snd (snd r))" k] False by (auto simp: w'_def)
    have "fst (snd r) = js_add k p" using cycle_visits_state [of m deps ds "js_add k p" w] nr by (simp add: r_def)
    then have rem: "removeAll k (fst (snd r)) = p" using False by (simp add: js_add_def)
    have "k \<in> set w'" by (simp add: w'_def)
    then show ?thesis
      using 2(3) [OF _ _ r_def [unfolded ds_def] nr] 2(4) False eq nr rem w'
        cycle_visits_state [of m deps ks p w'] by (auto simp: w'_def)
  qed
qed simp

lemma dep_edges_source: "(k, d) \<in> item_edges key deps items \<Longrightarrow> k \<in> key ` set items"
  using itemMap_has [of key items k] by (auto simp: dep_edges_def)

lemma trancl_source: "(k, d) \<in> E\<^sup>+ \<Longrightarrow> \<exists>e. (k, e) \<in> E"
  by (auto dest: tranclD)

lemma hasCircularDependency_cycle:
  "hasCircularDependency key deps items \<longleftrightarrow> (\<exists>c. (c, c) \<in> (item_edges key deps items)\<^sup>+)"
proof
  assume "hasCircularDependency key deps items"
  then show "\<exists>c. (c, c) \<in> (item_edges key deps items)\<^sup>+"
    unfolding hasCircularDependency_def by (rule cycle_visits_sound [rotated]) simp
next
  assume "\<exists>c. (c, c) \<in> (item_edges key deps items)\<^sup>+"
  then obtain c where c: "(c, c) \<in> (item_edges key deps items)\<^sup>+" by blast
  with trancl_source dep_edges_source have "c \<in> key ` set items" by metis
  with c show "hasCircularDependency key deps items"
    using cycle_visits_complete [of "itemMap key items" deps "map key items" "[]" "[]"]
    unfolding hasCircularDependency_def settled_def by auto
qed

subsection \<open>Properties\<close>

text \<open>C13 The order of mutations and views: for items with distinct keys \<open>topologicalSort\<close> returns a
permutation in which every item stands after each of its dependencies that is among the items, except
for a dependency that itself leads back to the item.\<close>

theorem topologicalSort_correct:
  assumes "distinct (map key items)"
  shows "mset (topologicalSort key deps items) = mset items \<and>
    (\<forall>xs x ys. topologicalSort key deps items = xs @ x # ys \<longrightarrow>
      (\<forall>d\<in>set (deps x). d \<in> key ` set items \<and> (d, key x) \<notin> (item_edges key deps items)\<^sup>* \<longrightarrow>
        d \<in> key ` set xs))"
  using topologicalSort_distinct [OF assms] topologicalSort_deps_first [of key items deps]
  by (simp add: deps_first_def itemMap_keys)

theorem topologicalSort_correct_witness:
  "topologicalSort fst snd [(1 :: nat, [2, 9]), (2, [3]), (3, []), (4, [1, 3])] =
     [(3, []), (2, [3]), (1, [2, 9]), (4, [1, 3])] \<and>
   mset (topologicalSort fst snd [(1 :: nat, [2, 9]), (2, [3]), (3, []), (4, [1, 3])]) =
     mset [(1, [2, 9]), (2, [3]), (3, []), (4, [1, 3])]"
proof
  show "topologicalSort fst snd [(1 :: nat, [2, 9]), (2, [3]), (3, []), (4, [1, 3])] =
      [(3, []), (2, [3]), (1, [2, 9]), (4, [1, 3])]"
    by code_simp
  show "mset (topologicalSort fst snd [(1 :: nat, [2, 9]), (2, [3]), (3, []), (4, [1, 3])]) =
      mset [(1, [2, 9]), (2, [3]), (3, []), (4, [1, 3])]"
    using topologicalSort_correct [of fst "[(1 :: nat, [2, 9]), (2, [3]), (3, []), (4, [1, 3])]" snd] by simp
qed

text \<open>\<open>hasCircularDependency\<close> decides whether the dependency graph of the items has a cycle, whatever
keys repeat or dangle; when it answers no, the sorted items have every dependency that is among
them before the item.\<close>

theorem hasCircularDependency_decides:
  "(hasCircularDependency key deps items \<longleftrightarrow> \<not> acyclic (item_edges key deps items)) \<and>
   (hasCircularDependency key deps items \<or>
     (\<forall>xs x ys. topologicalSort key deps items = xs @ x # ys \<longrightarrow>
       (\<forall>d\<in>set (deps x). d \<in> key ` set items \<longrightarrow> d \<in> key ` set xs)))"
proof (rule conjI [OF _ disjCI])
  show "hasCircularDependency key deps items \<longleftrightarrow> \<not> acyclic (item_edges key deps items)"
    by (auto simp: hasCircularDependency_cycle acyclic_def)
next
  assume "\<not> (\<forall>xs x ys. topologicalSort key deps items = xs @ x # ys \<longrightarrow>
       (\<forall>d\<in>set (deps x). d \<in> key ` set items \<longrightarrow> d \<in> key ` set xs))"
  then obtain xs x ys d where s: "topologicalSort key deps items = xs @ x # ys"
    and d: "d \<in> set (deps x)" "d \<in> key ` set items" "d \<notin> key ` set xs" by blast
  from s topologicalSort_items [of key deps items] have "jm_get (itemMap key items) (key x) = Some x" by auto
  with d(1) have "(key x, d) \<in> item_edges key deps items" by (rule dep_edgesI [rotated])
  moreover have "(d, key x) \<in> (item_edges key deps items)\<^sup>*"
    using s d topologicalSort_deps_first [of key items deps] unfolding deps_first_def itemMap_keys by blast
  ultimately show "hasCircularDependency key deps items"
    unfolding hasCircularDependency_cycle by (auto dest: rtrancl_into_trancl2)
qed

theorem hasCircularDependency_decides_witness:
  "hasCircularDependency fst snd [(1 :: nat, [2]), (2, [3]), (3, [1])] \<and>
   \<not> acyclic (item_edges fst snd [(1 :: nat, [2]), (2, [3]), (3, [1])])"
proof -
  have c: "hasCircularDependency fst snd [(1 :: nat, [2]), (2, [3]), (3, [1])]" by code_simp
  then show ?thesis
    using hasCircularDependency_decides [of fst snd "[(1 :: nat, [2]), (2, [3]), (3, [1])]"] by blast
qed

end
