(* ===== verification/Json_Values.thy ===== *)
theory Json_Values
  imports Complex_Main Foundation_Prelude
begin

text \<open>
  The values of type \<open>unknown\<close> that cross the sync engine, and the guards on them:
  \<open>isPlainObject\<close> (\<open>data-model/src/types/type-guards.ts\<close>), \<open>isJsonSerializable\<close> and
  \<open>tryToJsonSerializable\<close> (\<open>data-model/src/types/json-serializable.ts\<close>), and the replacement of
  provisional ids in payloads (\<open>data-model/src/schemas/base.schema.ts\<close>,
  \<open>sync-engine/src/core/payload-id-resolution.ts\<close>). A plain object is a list of its own properties in
  insertion order; properties inherited from \<open>Object.prototype\<close>, integer-like keys (which JavaScript
  lists first) and the property \<open>length\<close> are not distinguished from other keys. A function, symbol,
  \<open>Date\<close> or other class instance is \<open>JOpaque\<close>.
\<close>

datatype jsv =
  JUndef | JNull | JBool bool | JNum rat | JStr string | JArr "jsv list" | JObj "(string \<times> jsv) list"
| JOpaque nat

definition isPlainObject :: "jsv \<Rightarrow> bool" where
  "isPlainObject v = (case v of JObj _ \<Rightarrow> True | _ \<Rightarrow> False)"

fun isJsonSerializable :: "jsv \<Rightarrow> bool" where
  "isJsonSerializable JNull = True"
| "isJsonSerializable (JStr _) = True"
| "isJsonSerializable (JNum _) = True"
| "isJsonSerializable (JBool _) = True"
| "isJsonSerializable (JArr vs) = (\<forall>v\<in>set vs. isJsonSerializable v)"
| "isJsonSerializable (JObj es) = (\<forall>e\<in>set es. isJsonSerializable (snd e))"
| "isJsonSerializable JUndef = False"
| "isJsonSerializable (JOpaque _) = False"

text \<open>\<open>None\<close> is the \<open>null\<close> of a failed conversion.\<close>

definition tryToJsonSerializable :: "jsv \<Rightarrow> jsv option" where
  "tryToJsonSerializable v = (if isJsonSerializable v then Some v else None)"

subsection \<open>Provisional ids\<close>

definition PROVISIONAL_ID_PREFIX :: string where
  "PROVISIONAL_ID_PREFIX = ''provisional_''"

definition isProvisionalId :: "string \<Rightarrow> bool" where
  "isProvisionalId i = prefix PROVISIONAL_ID_PREFIX i"

definition generateProvisionalId :: "string \<Rightarrow> string" where
  "generateProvisionalId uuid = PROVISIONAL_ID_PREFIX @ uuid"

lemma isProvisionalId_generate [simp]: "isProvisionalId (generateProvisionalId uuid)"
  by (simp add: isProvisionalId_def generateProvisionalId_def)

fun resolveValue :: "(string \<Rightarrow> string option) \<Rightarrow> jsv \<Rightarrow> jsv" where
  "resolveValue resolveId (JStr s) =
     (if isProvisionalId s then JStr (case resolveId s of Some i \<Rightarrow> i | None \<Rightarrow> s) else JStr s)"
| "resolveValue resolveId (JArr vs) = JArr (map (resolveValue resolveId) vs)"
| "resolveValue resolveId (JObj es) = JObj (map (\<lambda>e. (fst e, resolveValue resolveId (snd e))) es)"
| "resolveValue resolveId v = v"

definition resolvePayloadProvisionalIds :: "jsv \<Rightarrow> (string \<Rightarrow> string option) \<Rightarrow> jsv" where
  "resolvePayloadProvisionalIds payload resolveId = resolveValue resolveId payload"

text \<open>The strings that occur in a value, keys of objects left out.\<close>

fun json_strings :: "jsv \<Rightarrow> string set" where
  "json_strings (JStr s) = {s}"
| "json_strings (JArr vs) = (\<Union>v\<in>set vs. json_strings v)"
| "json_strings (JObj es) = (\<Union>e\<in>set es. json_strings (snd e))"
| "json_strings v = {}"

definition resolve_string :: "(string \<Rightarrow> string option) \<Rightarrow> string \<Rightarrow> string" where
  "resolve_string f s = (if isProvisionalId s then (case f s of Some i \<Rightarrow> i | None \<Rightarrow> s) else s)"

lemma json_strings_resolveValue: "json_strings (resolveValue f v) = resolve_string f ` json_strings v"
proof (induction v)
  case (JStr s)
  have "resolveValue f (JStr s) = JStr (resolve_string f s)" by (simp add: resolve_string_def)
  then show ?case by simp
qed (auto simp: image_UN)

lemma isJsonSerializable_resolveValue [simp]: "isJsonSerializable (resolveValue f v) = isJsonSerializable v"
  by (induction f v rule: resolveValue.induct) auto

lemma resolveValue_isPlainObject [simp]: "isPlainObject (resolveValue f v) = isPlainObject v"
  by (cases v) (auto simp: isPlainObject_def)

text \<open>
  Resolving twice is resolving once when the server ids are not themselves provisional, so a payload
  that is re-queued after its ids were replaced is not changed again.
\<close>

lemma resolveValue_idem:
  "(\<And>s i. f s = Some i \<Longrightarrow> \<not> isProvisionalId i) \<Longrightarrow> resolveValue f (resolveValue f v) = resolveValue f v"
proof (induction v)
  case (JStr s)
  then show ?case by (auto split: option.splits)
qed auto

end
