(* ===== verification/Conflict_Resolution.thy ===== *)
theory Conflict_Resolution
  imports Json_Values
begin

text \<open>
  Conflict resolution of the sync engine: the strategies of \<open>sync-engine/src/conflicts/strategies.ts\<close>,
  the field-level three-way merge among them, and the resolver class of \<open>resolver.ts\<close>. The deep
  equality of \<open>react-fast-compare\<close> is the argument \<open>isEqual\<close>; where its documented behaviour matters
  the lemmas assume that it is an equivalence. Logging is left out; \<open>resolve\<close> also returns whether it
  called \<open>onConflictReview\<close>. Custom merge functions are arbitrary functions that do not throw.
\<close>

subsection \<open>Types\<close>

datatype conflict_strategy = SERVER_WINS | CLIENT_WINS | LAST_WRITE_WINS | MERGE | MANUAL

datatype conflict_winner = SERVER | CLIENT | MERGED

record 'd conflict_context =
  serverData :: 'd
  serverTimestamp :: ms
  clientData :: 'd
  clientTimestamp :: ms
  cc_tableName :: string
  cc_entityId :: string
  baseData :: "'d option"

record 'd conflict_result =
  resolvedData :: 'd
  winner :: conflict_winner
  requiresReview :: bool
  mergedFields :: "string list option"
  conflictedFields :: "string list option"

record merge_config =
  serverWinsFields :: "string list option"
  clientWinsFields :: "string list option"
  concatFields :: "string list option"
  unionFields :: "string list option"
  customMerge :: "(string, jsv \<Rightarrow> jsv \<Rightarrow> jsv \<Rightarrow> jsv) jmap option"

definition DEFAULT_MERGE_CONFIG :: merge_config where
  "DEFAULT_MERGE_CONFIG =
     \<lparr>serverWinsFields = Some [''id'', ''createdAt'', ''tenantId''], clientWinsFields = Some [],
      concatFields = Some [], unionFields = Some [], customMerge = Some []\<rparr>"

subsection \<open>Strategies\<close>

definition serverWins :: "'d conflict_context \<Rightarrow> 'd conflict_result" where
  "serverWins c = \<lparr>resolvedData = serverData c, winner = SERVER, requiresReview = False,
     mergedFields = None, conflictedFields = None\<rparr>"

definition clientWins :: "'d conflict_context \<Rightarrow> 'd conflict_result" where
  "clientWins c = \<lparr>resolvedData = clientData c, winner = CLIENT, requiresReview = False,
     mergedFields = None, conflictedFields = None\<rparr>"

definition lastWriteWins :: "'d conflict_context \<Rightarrow> 'd conflict_result" where
  "lastWriteWins c =
     (if clientTimestamp c > serverTimestamp c
      then \<lparr>resolvedData = clientData c, winner = CLIENT, requiresReview = False,
            mergedFields = None, conflictedFields = None\<rparr>
      else \<lparr>resolvedData = serverData c, winner = SERVER, requiresReview = False,
            mergedFields = None, conflictedFields = None\<rparr>)"

definition manual :: "'d conflict_context \<Rightarrow> 'd conflict_result" where
  "manual c = \<lparr>resolvedData = serverData c, winner = SERVER, requiresReview = True,
     mergedFields = None, conflictedFields = None\<rparr>"

text \<open>
  \<open>Object.keys(v)\<close>, a \<open>TypeError\<close> on \<open>null\<close> and \<open>undefined\<close>, and the property read \<open>v[key]\<close>.
\<close>

datatype conflict_error = TypeError | ResolverDisposed

definition array_props :: "jsv list \<Rightarrow> (string \<times> jsv) list" where
  "array_props vs = zip (map show_nat [0..<length vs]) vs"

fun own_props :: "jsv \<Rightarrow> (string \<times> jsv) list" where
  "own_props (JObj es) = es"
| "own_props (JArr vs) = array_props vs"
| "own_props (JStr s) = array_props (map (\<lambda>c. JStr [c]) s)"
| "own_props _ = []"

definition object_keys :: "jsv \<Rightarrow> conflict_error + string list" where
  "object_keys v = (if v \<in> {JUndef, JNull} then Inl TypeError else Inr (map fst (own_props v)))"

definition js_prop :: "jsv \<Rightarrow> string \<Rightarrow> jsv" where
  "js_prop v key = (case jm_get (own_props v) key of Some x \<Rightarrow> x | None \<Rightarrow> JUndef)"

definition js_includes :: "string list option \<Rightarrow> string \<Rightarrow> bool" where
  "js_includes fs key = (case fs of None \<Rightarrow> False | Some ks \<Rightarrow> key \<in> set ks)"

definition custom_for :: "merge_config \<Rightarrow> string \<Rightarrow> (jsv \<Rightarrow> jsv \<Rightarrow> jsv \<Rightarrow> jsv) option" where
  "custom_for cfg key = (case customMerge cfg of None \<Rightarrow> None | Some fs \<Rightarrow> jm_get fs key)"

definition isArray :: "jsv \<Rightarrow> bool" where
  "isArray v = (case v of JArr _ \<Rightarrow> True | _ \<Rightarrow> False)"

definition array_items :: "jsv \<Rightarrow> jsv list" where
  "array_items v = (case v of JArr vs \<Rightarrow> vs | _ \<Rightarrow> [])"

text \<open>The union of two arrays: client items that equal nothing gathered so far are appended.\<close>

fun union_items :: "(jsv \<Rightarrow> jsv \<Rightarrow> bool) \<Rightarrow> jsv list \<Rightarrow> jsv list \<Rightarrow> jsv list" where
  "union_items isEqual combined [] = combined"
| "union_items isEqual combined (item # items) =
     (if \<exists>existing\<in>set combined. isEqual existing item then union_items isEqual combined items
      else union_items isEqual (combined @ [item]) items)"

text \<open>The body of the loop for one key: the value stored and the list the key is pushed to.\<close>

datatype field_outcome = Plain | Pushed_merged | Pushed_conflicted

definition merge_field ::
  "(jsv \<Rightarrow> jsv \<Rightarrow> bool) \<Rightarrow> merge_config \<Rightarrow> string \<Rightarrow> jsv \<Rightarrow> jsv \<Rightarrow> jsv \<Rightarrow> jsv \<times> field_outcome" where
  "merge_field isEqual cfg key serverValue clientValue baseValue =
     (if js_includes (serverWinsFields cfg) key then (serverValue, Plain)
      else if js_includes (clientWinsFields cfg) key
      then (clientValue, if isEqual serverValue clientValue then Plain else Pushed_merged)
      else (case custom_for cfg key of
              Some f \<Rightarrow> (f serverValue clientValue baseValue, Pushed_merged)
            | None \<Rightarrow>
      if js_includes (concatFields cfg) key \<and> isArray serverValue \<and> isArray clientValue
      then (JArr (array_items serverValue @ array_items clientValue), Pushed_merged)
      else if js_includes (unionFields cfg) key \<and> isArray serverValue \<and> isArray clientValue
      then (JArr (union_items isEqual (array_items serverValue) (array_items clientValue)), Pushed_merged)
      else if isEqual serverValue clientValue then (serverValue, Plain)
      else if isEqual clientValue baseValue then (serverValue, Plain)
      else if isEqual serverValue baseValue then (clientValue, Pushed_merged)
      else (serverValue, Pushed_conflicted)))"

definition merge_step ::
  "(string \<Rightarrow> jsv \<times> field_outcome) \<Rightarrow> string \<Rightarrow>
   (string \<times> jsv) list \<times> string list \<times> string list \<Rightarrow> (string \<times> jsv) list \<times> string list \<times> string list" where
  "merge_step field key acc =
     (case acc of (resolved, merged, conflicted) \<Rightarrow>
        (case field key of (v, outcome) \<Rightarrow>
           (jm_set key v resolved,
            if outcome = Pushed_merged then merged @ [key] else merged,
            if outcome = Pushed_conflicted then conflicted @ [key] else conflicted)))"

definition merge_fields ::
  "(jsv \<Rightarrow> jsv \<Rightarrow> bool) \<Rightarrow> merge_config \<Rightarrow> jsv conflict_context \<Rightarrow> string \<Rightarrow> jsv \<times> field_outcome" where
  "merge_fields isEqual cfg c key =
     (let base = (case baseData c of None \<Rightarrow> JObj [] | Some b \<Rightarrow> if b \<in> {JUndef, JNull} then JObj [] else b)
      in merge_field isEqual cfg key (js_prop (serverData c) key) (js_prop (clientData c) key) (js_prop base key))"

definition merge ::
  "(jsv \<Rightarrow> jsv \<Rightarrow> bool) \<Rightarrow> merge_config \<Rightarrow> jsv conflict_context \<Rightarrow> conflict_error + jsv conflict_result" where
  "merge isEqual cfg c =
     (case object_keys (serverData c) of
        Inl e \<Rightarrow> Inl e
      | Inr sks \<Rightarrow>
     (case object_keys (clientData c) of
        Inl e \<Rightarrow> Inl e
      | Inr cks \<Rightarrow>
     (let allKeys = fold js_add (sks @ cks) [];
          r = fold (merge_step (merge_fields isEqual cfg c)) allKeys ([], [], [])
      in Inr \<lparr>resolvedData = JObj (fst r),
              winner = (if snd (snd r) \<noteq> [] \<or> fst (snd r) \<noteq> [] then MERGED else SERVER),
              requiresReview = (snd (snd r) \<noteq> []),
              mergedFields = Some (fst (snd r)),
              conflictedFields = Some (snd (snd r))\<rparr>)))"

definition strategyResolvers ::
  "(jsv \<Rightarrow> jsv \<Rightarrow> bool) \<Rightarrow> conflict_strategy \<Rightarrow> jsv conflict_context \<Rightarrow> merge_config \<Rightarrow>
   conflict_error + jsv conflict_result" where
  "strategyResolvers isEqual strategy c cfg =
     (case strategy of
        SERVER_WINS \<Rightarrow> Inr (serverWins c)
      | CLIENT_WINS \<Rightarrow> Inr (clientWins c)
      | LAST_WRITE_WINS \<Rightarrow> Inr (lastWriteWins c)
      | MERGE \<Rightarrow> merge isEqual cfg c
      | MANUAL \<Rightarrow> Inr (manual c))"

subsection \<open>The resolver\<close>

record resolver_config =
  defaultStrategy :: conflict_strategy
  tableStrategies :: "(string, conflict_strategy) jmap option"
  tableMergeConfigs :: "(string, merge_config) jmap option"
  cr_mergeConfig :: "merge_config option"
  hasReviewCallback :: bool \<comment> \<open>\<open>onConflictReview\<close> is given\<close>

record conflict_resolver =
  cr_config :: resolver_config
  cr_disposed :: bool

text \<open>The constructor's argument: \<open>None\<close> where the caller gives no such field.\<close>

definition new_resolver ::
  "conflict_strategy option \<Rightarrow> (string, conflict_strategy) jmap option \<Rightarrow> (string, merge_config) jmap option \<Rightarrow>
   merge_config option \<Rightarrow> bool \<Rightarrow> conflict_resolver" where
  "new_resolver strategy strategies merge_configs merge_config callback =
     \<lparr>cr_config = \<lparr>defaultStrategy = (case strategy of None \<Rightarrow> LAST_WRITE_WINS | Some s \<Rightarrow> s),
                   tableStrategies = strategies, tableMergeConfigs = merge_configs,
                   cr_mergeConfig = (case merge_config of None \<Rightarrow> Some DEFAULT_MERGE_CONFIG | Some c \<Rightarrow> Some c),
                   hasReviewCallback = callback\<rparr>,
      cr_disposed = False\<rparr>"

definition lookup_table :: "(string, 'v) jmap option \<Rightarrow> string \<Rightarrow> 'v option" where
  "lookup_table t name = (case t of None \<Rightarrow> None | Some m \<Rightarrow> jm_get m name)"

definition getStrategy :: "conflict_resolver \<Rightarrow> string \<Rightarrow> conflict_error + conflict_strategy" where
  "getStrategy r tableName =
     (if cr_disposed r then Inl ResolverDisposed
      else Inr (case lookup_table (tableStrategies (cr_config r)) tableName of
                  Some s \<Rightarrow> s | None \<Rightarrow> defaultStrategy (cr_config r)))"

definition getMergeConfig :: "conflict_resolver \<Rightarrow> string \<Rightarrow> merge_config" where
  "getMergeConfig r tableName =
     (case lookup_table (tableMergeConfigs (cr_config r)) tableName of
        Some c \<Rightarrow> c
      | None \<Rightarrow> (case cr_mergeConfig (cr_config r) of Some c \<Rightarrow> c | None \<Rightarrow> DEFAULT_MERGE_CONFIG))"

definition resolve ::
  "(jsv \<Rightarrow> jsv \<Rightarrow> bool) \<Rightarrow> conflict_resolver \<Rightarrow> jsv conflict_context \<Rightarrow>
   conflict_error + (jsv conflict_result \<times> bool)" where
  "resolve isEqual r c =
     (case getStrategy r (cc_tableName c) of
        Inl e \<Rightarrow> Inl e
      | Inr strategy \<Rightarrow>
     (case strategyResolvers isEqual strategy c (getMergeConfig r (cc_tableName c)) of
        Inl e \<Rightarrow> Inl e
      | Inr result \<Rightarrow> Inr (result, requiresReview result \<and> hasReviewCallback (cr_config r))))"

definition hasConflict ::
  "(jsv \<Rightarrow> jsv \<Rightarrow> bool) \<Rightarrow> conflict_resolver \<Rightarrow> jsv \<Rightarrow> jsv \<Rightarrow> ms \<Rightarrow> ms \<Rightarrow> conflict_error + bool" where
  "hasConflict isEqual r server client serverTime clientTime =
     (if cr_disposed r then Inl ResolverDisposed
      else if serverTime = clientTime then Inr False
      else if isEqual server client then Inr False
      else Inr (serverTime > clientTime))"

definition setTableStrategy :: "string \<Rightarrow> conflict_strategy \<Rightarrow> conflict_resolver \<Rightarrow> conflict_error + conflict_resolver" where
  "setTableStrategy tableName strategy r =
     (if cr_disposed r then Inl ResolverDisposed
      else let m = (case tableStrategies (cr_config r) of None \<Rightarrow> [] | Some m \<Rightarrow> m)
           in Inr (r\<lparr>cr_config := (cr_config r)\<lparr>tableStrategies := Some (jm_set tableName strategy m)\<rparr>\<rparr>))"

definition setTableMergeConfig :: "string \<Rightarrow> merge_config \<Rightarrow> conflict_resolver \<Rightarrow> conflict_error + conflict_resolver" where
  "setTableMergeConfig tableName cfg r =
     (if cr_disposed r then Inl ResolverDisposed
      else let m = (case tableMergeConfigs (cr_config r) of None \<Rightarrow> [] | Some m \<Rightarrow> m)
           in Inr (r\<lparr>cr_config := (cr_config r)\<lparr>tableMergeConfigs := Some (jm_set tableName cfg m)\<rparr>\<rparr>))"

definition resolver_dispose :: "conflict_resolver \<Rightarrow> conflict_resolver" where
  "resolver_dispose r = r\<lparr>cr_disposed := True\<rparr>"

subsection \<open>The merge loop\<close>

lemma merge_loop:
  "distinct keys \<Longrightarrow> set keys \<inter> fst ` set res = {} \<Longrightarrow>
   fold (merge_step f) keys (res, mrg, cnf) =
     (res @ map (\<lambda>k. (k, fst (f k))) keys,
      mrg @ filter (\<lambda>k. snd (f k) = Pushed_merged) keys,
      cnf @ filter (\<lambda>k. snd (f k) = Pushed_conflicted) keys)"
proof (induction keys arbitrary: res mrg cnf)
  case (Cons k keys)
  then have "jm_get res k = None" by (auto simp: jm_get_None_iff)
  then have step: "merge_step f k (res, mrg, cnf) =
      (res @ [(k, fst (f k))],
       if snd (f k) = Pushed_merged then mrg @ [k] else mrg,
       if snd (f k) = Pushed_conflicted then cnf @ [k] else cnf)"
    by (simp add: merge_step_def jm_set_same_snoc split: prod.splits)
  show ?case using Cons.prems by (simp add: step Cons.IH del: merge_step_def)
qed simp

definition merge_keys :: "jsv conflict_context \<Rightarrow> string list" where
  "merge_keys c = fold js_add (map fst (own_props (serverData c)) @ map fst (own_props (clientData c))) []"

lemma distinct_merge_keys [simp]: "distinct (merge_keys c)"
  by (simp add: merge_keys_def del: fold_append)

lemma set_merge_keys: "set (merge_keys c) = fst ` set (own_props (serverData c)) \<union> fst ` set (own_props (clientData c))"
  by (simp add: merge_keys_def del: fold_append)

text \<open>A successful merge, field by field.\<close>

lemma merge_eq:
  assumes "merge isEqual cfg c = Inr r"
  defines "f \<equiv> merge_fields isEqual cfg c"
  shows "resolvedData r = JObj (map (\<lambda>k. (k, fst (f k))) (merge_keys c)) \<and>
    mergedFields r = Some (filter (\<lambda>k. snd (f k) = Pushed_merged) (merge_keys c)) \<and>
    conflictedFields r = Some (filter (\<lambda>k. snd (f k) = Pushed_conflicted) (merge_keys c)) \<and>
    requiresReview r = (\<exists>k\<in>set (merge_keys c). snd (f k) = Pushed_conflicted)"
proof -
  have loop: "fold (merge_step f) (merge_keys c) ([], [], []) =
      (map (\<lambda>k. (k, fst (f k))) (merge_keys c),
       filter (\<lambda>k. snd (f k) = Pushed_merged) (merge_keys c),
       filter (\<lambda>k. snd (f k) = Pushed_conflicted) (merge_keys c))"
    using merge_loop [of "merge_keys c" "[]" f "[]" "[]"] by simp
  from assms(1) have o1: "object_keys (serverData c) = Inr (map fst (own_props (serverData c)))"
    unfolding merge_def object_keys_def by (auto split: if_splits)
  from assms(1) have o2: "object_keys (clientData c) = Inr (map fst (own_props (clientData c)))"
    unfolding merge_def object_keys_def by (auto split: if_splits sum.splits)
  have "merge isEqual cfg c = Inr \<lparr>resolvedData = JObj (map (\<lambda>k. (k, fst (f k))) (merge_keys c)),
      winner = (if filter (\<lambda>k. snd (f k) = Pushed_conflicted) (merge_keys c) \<noteq> [] \<or>
                   filter (\<lambda>k. snd (f k) = Pushed_merged) (merge_keys c) \<noteq> [] then MERGED else SERVER),
      requiresReview = (filter (\<lambda>k. snd (f k) = Pushed_conflicted) (merge_keys c) \<noteq> []),
      mergedFields = Some (filter (\<lambda>k. snd (f k) = Pushed_merged) (merge_keys c)),
      conflictedFields = Some (filter (\<lambda>k. snd (f k) = Pushed_conflicted) (merge_keys c))\<rparr>"
    by (simp only: merge_def o1 o2 sum.case Let_def merge_keys_def [symmetric] f_def [symmetric] loop fst_conv snd_conv)
  with assms(1) show ?thesis by (auto simp: filter_empty_conv)
qed

lemma jm_get_map_keys: "jm_get (map (\<lambda>k. (k, g k)) ks) k = (if k \<in> set ks then Some (g k) else None)"
  by (induction ks) (auto simp: jm_get_Cons)

lemma merged_value:
  "merge isEqual cfg c = Inr r \<Longrightarrow>
   js_prop (resolvedData r) k = (if k \<in> set (merge_keys c) then fst (merge_fields isEqual cfg c k) else JUndef)"
  using merge_eq [of isEqual cfg c r] by (simp add: js_prop_def jm_get_map_keys)

lemma js_prop_absent: "k \<notin> fst ` set (own_props v) \<Longrightarrow> js_prop v k = JUndef"
  using jm_get_None_iff [of "own_props v" k] by (simp add: js_prop_def)

definition base_value :: "jsv conflict_context \<Rightarrow> string \<Rightarrow> jsv" where
  "base_value c k = (case baseData c of None \<Rightarrow> JUndef | Some b \<Rightarrow> js_prop b k)"

lemma merge_fields_base:
  "merge_fields isEqual cfg c k =
     merge_field isEqual cfg k (js_prop (serverData c) k) (js_prop (clientData c) k) (base_value c k)"
  by (auto simp: merge_fields_def base_value_def js_prop_def jm_get_def Let_def split: option.splits)

text \<open>A field that no rule of the configuration names.\<close>

definition auto_field :: "merge_config \<Rightarrow> string \<Rightarrow> bool" where
  "auto_field cfg k \<longleftrightarrow>
     \<not> js_includes (serverWinsFields cfg) k \<and> \<not> js_includes (clientWinsFields cfg) k \<and>
     \<not> js_includes (concatFields cfg) k \<and> \<not> js_includes (unionFields cfg) k \<and> custom_for cfg k = None"

lemma merge_field_auto:
  "auto_field cfg k \<Longrightarrow> merge_field isEqual cfg k s c b =
     (if isEqual s c \<or> isEqual c b then (s, Plain)
      else if isEqual s b then (c, Pushed_merged) else (s, Pushed_conflicted))"
  by (simp add: merge_field_def auto_field_def)

lemma union_items_covers:
  "reflp isEqual \<Longrightarrow>
   (\<forall>v\<in>set xs. v \<in> set (union_items isEqual xs ys)) \<and>
   (\<forall>y\<in>set ys. \<exists>v\<in>set (union_items isEqual xs ys). isEqual v y)"
proof (induction isEqual xs ys rule: union_items.induct)
  case (2 isEqual combined item items)
  show ?case
  proof (cases "\<exists>existing\<in>set combined. isEqual existing item")
    case True
    with 2(1) [OF True 2(3)] show ?thesis by auto
  next
    case False
    with 2(2) [OF False 2(3)] reflpD [OF 2(3), of item] show ?thesis by auto
  qed
qed simp

lemma merge_conflicts:
  "merge isEqual cfg c = Inr r \<Longrightarrow>
   k \<in> set (the (conflictedFields r)) \<longleftrightarrow>
     k \<in> set (merge_keys c) \<and> snd (merge_fields isEqual cfg c k) = Pushed_conflicted"
  using merge_eq [of isEqual cfg c r] by auto

lemma requiresReview_iff: "merge isEqual cfg c = Inr r \<Longrightarrow> requiresReview r \<longleftrightarrow> the (conflictedFields r) \<noteq> []"
  using merge_eq [of isEqual cfg c r] by (auto simp: filter_empty_conv)

lemma merge_keys_present: "js_prop (serverData c) k \<noteq> JUndef \<or> js_prop (clientData c) k \<noteq> JUndef \<Longrightarrow> k \<in> set (merge_keys c)"
  using js_prop_absent [of k "serverData c"] js_prop_absent [of k "clientData c"] by (auto simp: set_merge_keys)

subsection \<open>Properties\<close>

text \<open>C14 The field-level merge is a three-way merge: on a field no rule names, a side that left the
field as in the base yields to the other side, equal changes are taken, and the field is reported as
conflicted exactly when both sides changed it differently; review is required exactly when some
field is reported.\<close>

theorem merge_three_way:
  assumes "merge isEqual cfg c = Inr r" and "auto_field cfg k"
    and "reflp isEqual" and "symp isEqual" and "transp isEqual"
  shows "(isEqual (js_prop (clientData c) k) (base_value c k) \<longrightarrow>
      isEqual (js_prop (resolvedData r) k) (js_prop (serverData c) k)) \<and>
    (isEqual (js_prop (serverData c) k) (base_value c k) \<longrightarrow>
      isEqual (js_prop (resolvedData r) k) (js_prop (clientData c) k)) \<and>
    (isEqual (js_prop (serverData c) k) (js_prop (clientData c) k) \<longrightarrow>
      isEqual (js_prop (resolvedData r) k) (js_prop (serverData c) k)) \<and>
    (k \<in> set (the (conflictedFields r)) \<longleftrightarrow>
      \<not> isEqual (js_prop (serverData c) k) (js_prop (clientData c) k) \<and>
      \<not> isEqual (js_prop (clientData c) k) (base_value c k) \<and>
      \<not> isEqual (js_prop (serverData c) k) (base_value c k)) \<and>
    (requiresReview r \<longleftrightarrow> the (conflictedFields r) \<noteq> [])"
proof -
  let ?s = "js_prop (serverData c) k" and ?c = "js_prop (clientData c) k" and ?b = "base_value c k"
  have v: "js_prop (resolvedData r) k =
      (if isEqual ?s ?c \<or> isEqual ?c ?b then ?s else if isEqual ?s ?b then ?c else ?s)"
  proof (cases "k \<in> set (merge_keys c)")
    case True
    then show ?thesis by (simp add: merged_value [OF assms(1)] merge_fields_base merge_field_auto [OF assms(2)])
  next
    case False
    then have "?s = JUndef" "?c = JUndef" using merge_keys_present [of c k] by auto
    with False show ?thesis by (simp add: merged_value [OF assms(1)])
  qed
  have conf: "k \<in> set (the (conflictedFields r)) \<longleftrightarrow> \<not> isEqual ?s ?c \<and> \<not> isEqual ?c ?b \<and> \<not> isEqual ?s ?b"
  proof (cases "k \<in> set (merge_keys c)")
    case True
    then show ?thesis
      by (simp add: merge_conflicts [OF assms(1)] merge_fields_base merge_field_auto [OF assms(2)])
  next
    case False
    then have "?s = ?c" using merge_keys_present [of c k] by metis
    with False reflpD [OF assms(3), of ?s] show ?thesis by (simp add: merge_conflicts [OF assms(1)])
  qed
  have refl: "isEqual x x" for x using assms(3) by (rule reflpD)
  have sym: "isEqual x y \<Longrightarrow> isEqual y x" for x y using assms(4) by (rule sympD)
  have trans: "isEqual x y \<Longrightarrow> isEqual y z \<Longrightarrow> isEqual x z" for x y z using assms(5) by (rule transpD)
  have both: "isEqual ?s ?b \<Longrightarrow> isEqual ?c ?b \<Longrightarrow> isEqual ?s ?c" using sym trans by blast
  show ?thesis
    using conf both requiresReview_iff [OF assms(1)] by (simp add: v refl)
qed

definition merge_example :: "jsv conflict_context" where
  "merge_example =
     \<lparr>serverData = JObj [(''id'', JNum 1), (''a'', JNum 2), (''b'', JNum 1), (''c'', JNum 5)], serverTimestamp = 20,
      clientData = JObj [(''id'', JNum 1), (''a'', JNum 1), (''b'', JNum 3), (''c'', JNum 7)], clientTimestamp = 10,
      cc_tableName = ''t'', cc_entityId = ''1'',
      baseData = Some (JObj [(''a'', JNum 1), (''b'', JNum 1), (''c'', JNum 1)])\<rparr>"

theorem merge_three_way_witness:
  "\<exists>r. merge (=) DEFAULT_MERGE_CONFIG merge_example = Inr r \<and>
     resolvedData r = JObj [(''id'', JNum 1), (''a'', JNum 2), (''b'', JNum 3), (''c'', JNum 5)] \<and>
     ''c'' \<in> set (the (conflictedFields r)) \<and> requiresReview r"
proof -
  obtain r where r: "merge (=) DEFAULT_MERGE_CONFIG merge_example = Inr r"
      "resolvedData r = JObj [(''id'', JNum 1), (''a'', JNum 2), (''b'', JNum 3), (''c'', JNum 5)]"
    by (simp add: merge_def merge_example_def object_keys_def js_add_def merge_step_def merge_fields_def
        merge_field_def DEFAULT_MERGE_CONFIG_def js_includes_def custom_for_def js_prop_def jm_get_Cons)
  have "auto_field DEFAULT_MERGE_CONFIG ''c''"
    by (simp add: auto_field_def DEFAULT_MERGE_CONFIG_def js_includes_def custom_for_def)
  from merge_three_way [OF r(1) this] have
    "''c'' \<in> set (the (conflictedFields r)) \<and> (requiresReview r \<longleftrightarrow> the (conflictedFields r) \<noteq> [])"
    by (simp add: merge_example_def js_prop_def base_value_def jm_get_Cons)
  with r show ?thesis by auto
qed

text \<open>What the resolver answers once \<open>hasConflict\<close> is true: last-write-wins, server-wins and manual all
return the server's data, client-wins the client's, a merge needs review exactly when it reports a
field, and the review callback runs exactly when the result needs review.\<close>

theorem resolution_outcome:
  assumes "hasConflict isEqual r (serverData c) (clientData c) (serverTimestamp c) (clientTimestamp c) = Inr True"
    and "getStrategy r (cc_tableName c) = Inr st" and "resolve isEqual r c = Inr (x, reviewed)"
  shows "(st \<in> {LAST_WRITE_WINS, SERVER_WINS, MANUAL} \<longrightarrow> resolvedData x = serverData c) \<and>
    (st = CLIENT_WINS \<longrightarrow> resolvedData x = clientData c) \<and>
    (requiresReview x \<longleftrightarrow> st = MANUAL \<or> st = MERGE \<and> the (conflictedFields x) \<noteq> []) \<and>
    (reviewed \<longleftrightarrow> requiresReview x \<and> hasReviewCallback (cr_config r))"
proof -
  from assms(1) have newer: "serverTimestamp c > clientTimestamp c"
    by (auto simp: hasConflict_def split: if_splits)
  from assms(2,3) have x: "strategyResolvers isEqual st c (getMergeConfig r (cc_tableName c)) = Inr x"
    and rev: "reviewed \<longleftrightarrow> requiresReview x \<and> hasReviewCallback (cr_config r)"
    by (auto simp: resolve_def split: sum.splits)
  show ?thesis
  proof (cases st)
    case MERGE
    with x have "merge isEqual (getMergeConfig r (cc_tableName c)) c = Inr x" by (simp add: strategyResolvers_def)
    from requiresReview_iff [OF this] MERGE rev show ?thesis by simp
  qed (use x rev newer in \<open>auto simp: strategyResolvers_def serverWins_def clientWins_def lastWriteWins_def manual_def\<close>)
qed

theorem resolution_outcome_witness:
  "\<exists>x. resolve (=) (new_resolver None None None None True) merge_example = Inr (x, False) \<and>
     resolvedData x = serverData merge_example"
proof -
  let ?r = "new_resolver None None None None True"
  obtain x where x: "resolve (=) ?r merge_example = Inr (x, False)"
    by (simp add: resolve_def getStrategy_def new_resolver_def lookup_table_def strategyResolvers_def
        lastWriteWins_def merge_example_def)
  have "hasConflict (=) ?r (serverData merge_example) (clientData merge_example)
      (serverTimestamp merge_example) (clientTimestamp merge_example) = Inr True"
    by (simp add: hasConflict_def new_resolver_def merge_example_def)
  moreover have "getStrategy ?r (cc_tableName merge_example) = Inr LAST_WRITE_WINS"
    by (simp add: getStrategy_def new_resolver_def lookup_table_def)
  ultimately show ?thesis using resolution_outcome [OF _ _ x] x by auto
qed

subsection \<open>Further facts\<close>

text \<open>
  With the client's own data as the base, no field counts as changed by the client: the merge
  returns the server's value of every unruled field and asks for no review.
\<close>

lemma merge_against_own_data:
  assumes "merge isEqual cfg c = Inr r" and "baseData c = Some (clientData c)"
    and "reflp isEqual" and "auto_field cfg k"
  shows "js_prop (resolvedData r) k = js_prop (serverData c) k \<and> k \<notin> set (the (conflictedFields r))"
proof -
  have b: "base_value c k = js_prop (clientData c) k" using assms(2) by (simp add: base_value_def)
  show ?thesis
  proof (cases "k \<in> set (merge_keys c)")
    case True
    with assms b reflpD [OF assms(3), of "js_prop (clientData c) k"] show ?thesis
      by (simp add: merged_value merge_conflicts merge_fields_base merge_field_auto)
  next
    case False
    with merge_keys_present [of c k] have "js_prop (serverData c) k = JUndef" by metis
    with False assms(1) show ?thesis by (simp add: merged_value merge_conflicts)
  qed
qed

text \<open>
  A field the server has dropped and the client has not touched is stored as \<open>undefined\<close>, so the
  merged object is not serializable.
\<close>

lemma merge_removed_field:
  assumes "merge isEqual cfg c = Inr r" and "auto_field cfg k"
    and "k \<in> set (map fst (own_props (clientData c)))" and "k \<notin> set (map fst (own_props (serverData c)))"
    and "isEqual (js_prop (clientData c) k) (base_value c k)"
  shows "tryToJsonSerializable (resolvedData r) = None"
proof -
  have "js_prop (serverData c) k = JUndef" using js_prop_absent [of k "serverData c"] assms(4) by simp
  then have "fst (merge_fields isEqual cfg c k) = JUndef"
    using assms(5) by (simp add: merge_fields_base merge_field_auto [OF assms(2)])
  moreover have "k \<in> set (merge_keys c)" using assms(3) by (simp add: set_merge_keys)
  ultimately have "\<not> isJsonSerializable (resolvedData r)"
    using merge_eq [OF assms(1)] by (force simp del: isJsonSerializable.simps simp: isJsonSerializable.simps(6,7))
  then show ?thesis by (simp add: tryToJsonSerializable_def)
qed

text \<open>The strategy set for a table is the one used for it, and for no other table.\<close>

lemma getStrategy_set:
  "setTableStrategy t st r = Inr r' \<Longrightarrow> getStrategy r' t' = (if t' = t then Inr st else getStrategy r t')"
  by (auto simp: setTableStrategy_def getStrategy_def lookup_table_def Let_def jm_get_Cons split: if_splits option.splits)

lemma getMergeConfig_set:
  "setTableMergeConfig t cfg r = Inr r' \<Longrightarrow> getMergeConfig r' t' = (if t' = t then cfg else getMergeConfig r t')"
  by (auto simp: setTableMergeConfig_def getMergeConfig_def lookup_table_def Let_def jm_get_Cons split: if_splits option.splits)

end
