(* ===== verification/Mutation_Queue.thy ===== *)
theory Mutation_Queue
  imports Conflict_Resolution Payload_Hash "HOL-Library.Multiset"
begin

text \<open>
  The mutation queue as it is stored: the entry type and the statuses
  (\<open>data-model/src/types/database.ts\<close>), the helpers of \<open>database/src/tables/mutation-queue.ts\<close>, the
  idempotency keys of \<open>database/src/utils/hash.ts\<close> and the service of
  \<open>database/src/services/mutation-queue.ts\<close>. The contents of the IndexedDB table are a map from the
  primary key to the entry; \<open>Array.prototype.sort\<close> on timestamps is the argument \<open>sortBy\<close>, of
  which only that it sorts is assumed. \<open>JSON.stringify\<close> is an argument. Database calls succeed, except
  that adding an existing primary key is a \<open>ConstraintError\<close>.
\<close>

subsection \<open>Entries\<close>

datatype mutation_status = PENDING | IN_PROGRESS | COMPLETED | FAILED | OFFLINE_QUEUED

datatype mutation_type = CREATE | UPDATE | DELETE

record mutation =
  m_id :: string
  m_idempotencyKey :: string
  m_timestamp :: ms
  m_status :: mutation_status
  m_type :: mutation_type
  m_tableName :: string
  m_entityId :: string
  m_payload :: jsv
  m_optimisticData :: "jsv option"
  m_previousData :: "jsv option"
  m_retryCount :: nat
  m_lastError :: "string option"
  m_serverId :: "string option"
  m_invalidateKeys :: "string list option"
  m_dependsOn :: "string list option"
  m_conflictStrategy :: "conflict_strategy option"

text \<open>\<open>CreateMutationOptions\<close>, with the idempotency key of the extended interface.\<close>

record mutation_options =
  o_type :: mutation_type
  o_tableName :: string
  o_entityId :: string
  o_payload :: jsv
  o_optimisticData :: "jsv option"
  o_previousData :: "jsv option"
  o_invalidateKeys :: "string list option"
  o_dependsOn :: "string list option"
  o_conflictStrategy :: "conflict_strategy option"
  o_idempotencyKey :: "string option"

fun mutation_type_text :: "mutation_type \<Rightarrow> string" where
  "mutation_type_text CREATE = ''create''"
| "mutation_type_text UPDATE = ''update''"
| "mutation_type_text DELETE = ''delete''"

definition generateIdempotencyKey :: "(jsv \<Rightarrow> string) \<Rightarrow> string \<Rightarrow> string \<Rightarrow> jsv \<Rightarrow> string option \<Rightarrow> string" where
  "generateIdempotencyKey stringify tableName entityId payload customKey =
     (case customKey of
        Some k \<Rightarrow> if k \<noteq> [] then k
                  else tableName @ '':'' @ entityId @ '':'' @ hashPayloadSync stringify payload
      | None \<Rightarrow> tableName @ '':'' @ entityId @ '':'' @ hashPayloadSync stringify payload)"

definition createMutationEntry :: "(jsv \<Rightarrow> string) \<Rightarrow> ms \<Rightarrow> string \<Rightarrow> mutation_options \<Rightarrow> mutation" where
  "createMutationEntry stringify now i opts =
     \<lparr>m_id = i,
      m_idempotencyKey =
        generateIdempotencyKey stringify (o_tableName opts) (o_entityId opts)
          (JObj [(''type'', JStr (mutation_type_text (o_type opts))), (''tableName'', JStr (o_tableName opts)),
                 (''entityId'', JStr (o_entityId opts)), (''payload'', o_payload opts)]) None,
      m_timestamp = now, m_status = PENDING, m_type = o_type opts, m_tableName = o_tableName opts,
      m_entityId = o_entityId opts, m_payload = o_payload opts, m_optimisticData = o_optimisticData opts,
      m_previousData = o_previousData opts, m_retryCount = 0, m_lastError = None, m_serverId = None,
      m_invalidateKeys = o_invalidateKeys opts, m_dependsOn = o_dependsOn opts,
      m_conflictStrategy = Some (case o_conflictStrategy opts of Some s \<Rightarrow> s | None \<Rightarrow> LAST_WRITE_WINS)\<rparr>"

definition deps_of :: "mutation \<Rightarrow> string list" where
  "deps_of m = (case m_dependsOn m of None \<Rightarrow> [] | Some ds \<Rightarrow> ds)"

definition canProcessMutation :: "mutation \<Rightarrow> string list \<Rightarrow> bool" where
  "canProcessMutation m completedIds =
     (case m_dependsOn m of
        None \<Rightarrow> True
      | Some ds \<Rightarrow> if ds = [] then True else (\<forall>d\<in>set ds. d \<in> set completedIds))"

definition shouldRetry :: "mutation \<Rightarrow> nat \<Rightarrow> bool" where
  "shouldRetry m maxRetries \<longleftrightarrow> m_status m = FAILED \<and> m_retryCount m < maxRetries"

definition prepareForRetry :: "mutation \<Rightarrow> string option \<Rightarrow> mutation" where
  "prepareForRetry m err = m\<lparr>m_status := PENDING, m_retryCount := m_retryCount m + 1, m_lastError := err\<rparr>"

lemma canProcessMutation_iff: "canProcessMutation m ids \<longleftrightarrow> set (deps_of m) \<subseteq> set ids"
  by (auto simp: canProcessMutation_def deps_of_def split: option.splits)

subsection \<open>The table\<close>

type_synonym mutation_table = "(string, mutation) jmap"

text \<open>Each entry is stored under its primary key, once.\<close>

definition table_ok :: "mutation_table \<Rightarrow> bool" where
  "table_ok t \<longleftrightarrow> jm_ok t \<and> (\<forall>(k, m)\<in>set t. m_id m = k)"

datatype db_error = ConstraintError | DuplicateEntryError string | ValidationError

definition t_add :: "mutation \<Rightarrow> mutation_table \<Rightarrow> db_error + mutation_table" where
  "t_add m t = (if jm_has t (m_id m) then Inl ConstraintError else Inr (jm_set (m_id m) m t))"

definition t_update :: "string \<Rightarrow> (mutation \<Rightarrow> mutation) \<Rightarrow> mutation_table \<Rightarrow> mutation_table" where
  "t_update i f t = (case jm_get t i of None \<Rightarrow> t | Some m \<Rightarrow> jm_set i (f m) t)"

definition t_where :: "(mutation \<Rightarrow> bool) \<Rightarrow> mutation_table \<Rightarrow> mutation list" where
  "t_where P t = filter P (map snd t)"

definition t_modify :: "(mutation \<Rightarrow> bool) \<Rightarrow> (mutation \<Rightarrow> mutation) \<Rightarrow> mutation_table \<Rightarrow> nat \<times> mutation_table" where
  "t_modify P f t = (length (t_where P t), map (\<lambda>(k, m). (k, if P m then f m else m)) t)"

definition t_delete_where :: "(mutation \<Rightarrow> bool) \<Rightarrow> mutation_table \<Rightarrow> nat \<times> mutation_table" where
  "t_delete_where P t = (length (t_where P t), filter (\<lambda>(k, m). \<not> P m) t)"

text \<open>What is assumed of sorting by timestamp.\<close>

definition sorts :: "(mutation list \<Rightarrow> mutation list) \<Rightarrow> bool" where
  "sorts sortBy \<longleftrightarrow> (\<forall>ms. mset (sortBy ms) = mset ms \<and> sorted (map m_timestamp (sortBy ms)))"

lemma sorts_sort_key: "sorts (sort_key m_timestamp)"
  by (simp add: sorts_def)

lemma sorts_set: "sorts sortBy \<Longrightarrow> set (sortBy ms) = set ms"
  by (metis sorts_def set_mset_mset)

lemma t_where_iff: "m \<in> set (t_where P t) \<longleftrightarrow> P m \<and> m \<in> snd ` set t"
  by (auto simp: t_where_def)

lemma table_ok_get: "table_ok t \<Longrightarrow> jm_get t i = Some m \<Longrightarrow> m_id m = i"
  by (auto simp: table_ok_def dest: jm_get_Some_in)

lemma table_ok_in: "table_ok t \<Longrightarrow> m \<in> snd ` set t \<longleftrightarrow> jm_get t (m_id m) = Some m"
proof
  assume t: "table_ok t" and "m \<in> snd ` set t"
  then obtain k where "(k, m) \<in> set t" by auto
  with t show "jm_get t (m_id m) = Some m" by (auto simp: table_ok_def jm_get_Some_iff)
next
  assume "jm_get t (m_id m) = Some m"
  then show "m \<in> snd ` set t" by (force dest: jm_get_Some_in)
qed

lemma table_ok_Nil [simp]: "table_ok []"
  by (simp add: table_ok_def)

lemma table_ok_set: "table_ok t \<Longrightarrow> m_id m = i \<Longrightarrow> table_ok (jm_set i m t)"
  by (auto simp: table_ok_def dest!: set_jm_setD)

lemma table_ok_update: "table_ok t \<Longrightarrow> (\<And>m. m_id (f m) = m_id m) \<Longrightarrow> table_ok (t_update i f t)"
  by (auto simp: t_update_def dest: table_ok_get intro!: table_ok_set split: option.split)

lemma jm_get_t_update [simp]:
  "jm_get (t_update i f t) k = (if k = i then map_option f (jm_get t i) else jm_get t k)"
  by (auto simp: t_update_def split: option.split)

lemma table_ok_filter: "table_ok t \<Longrightarrow> table_ok (filter P t)"
  by (auto simp: table_ok_def)

lemma jm_get_map_value: "jm_get (map (\<lambda>(k, m). (k, g m)) t) i = map_option g (jm_get t i)"
  by (induction t) (auto simp: jm_get_Cons)

lemma table_ok_map: "table_ok t \<Longrightarrow> (\<And>m. m_id (g m) = m_id m) \<Longrightarrow> table_ok (map (\<lambda>(k, m). (k, g m)) t)"
  by (auto simp: table_ok_def comp_def case_prod_beta)

lemma table_ok_modify: "table_ok t \<Longrightarrow> (\<And>m. m_id (f m) = m_id m) \<Longrightarrow> table_ok (snd (t_modify P f t))"
  unfolding t_modify_def snd_conv by (rule table_ok_map) auto

lemma jm_get_modify:
  "jm_get (snd (t_modify P f t)) i = map_option (\<lambda>m. if P m then f m else m) (jm_get t i)"
  by (simp add: t_modify_def jm_get_map_value)

lemma jm_get_delete_where:
  "table_ok t \<Longrightarrow> jm_get (snd (t_delete_where P t)) i =
     (case jm_get t i of Some m \<Rightarrow> if P m then None else Some m | None \<Rightarrow> None)"
  using jm_get_filter [of t "\<lambda>k m. \<not> P m" i] by (auto simp: t_delete_where_def table_ok_def split: option.split)

subsection \<open>The database service\<close>

text \<open>\<open>mutationQueueEntrySchema\<close>: the enumerations and the natural retry count hold by type.\<close>

definition valid_entry :: "mutation \<Rightarrow> bool" where
  "valid_entry m \<longleftrightarrow> m_id m \<noteq> [] \<and> m_idempotencyKey m \<noteq> [] \<and> m_timestamp m > 0 \<and>
     m_tableName m \<noteq> [] \<and> m_entityId m \<noteq> []"

definition svc_findByIdempotencyKey :: "string \<Rightarrow> mutation_table \<Rightarrow> mutation option" where
  "svc_findByIdempotencyKey key t = find (\<lambda>m. m_idempotencyKey m = key) (map snd t)"

definition insertWithIdempotencyCheck :: "mutation \<Rightarrow> bool \<Rightarrow> mutation_table \<Rightarrow> db_error + (bool \<times> mutation_table)" where
  "insertWithIdempotencyCheck m throwOnDuplicate t =
     (if \<not> valid_entry m then Inl ValidationError
      else (case svc_findByIdempotencyKey (m_idempotencyKey m) t of
              Some _ \<Rightarrow> if throwOnDuplicate then Inl (DuplicateEntryError (m_idempotencyKey m)) else Inr (False, t)
            | None \<Rightarrow> (case t_add m t of Inl e \<Rightarrow> Inl e | Inr t' \<Rightarrow> Inr (True, t'))))"

definition svc_add :: "mutation \<Rightarrow> mutation_table \<Rightarrow> db_error + mutation_table" where
  "svc_add m t = map_sum id snd (insertWithIdempotencyCheck m True t)"

definition svc_addIfNotExists :: "mutation \<Rightarrow> mutation_table \<Rightarrow> db_error + (bool \<times> mutation_table)" where
  "svc_addIfNotExists m t = insertWithIdempotencyCheck m False t"

definition svc_generateIdempotencyKey :: "(jsv \<Rightarrow> string) \<Rightarrow> mutation_options \<Rightarrow> string" where
  "svc_generateIdempotencyKey stringify opts =
     generateIdempotencyKey stringify (o_tableName opts) (o_entityId opts) (o_payload opts) (o_idempotencyKey opts)"

definition svc_updateStatus :: "string \<Rightarrow> mutation_status \<Rightarrow> (mutation \<Rightarrow> mutation) \<Rightarrow> mutation_table \<Rightarrow> mutation_table" where
  "svc_updateStatus i st updates t = t_update i (\<lambda>m. updates (m\<lparr>m_status := st\<rparr>)) t"

text \<open>Each index range comes in the order of the index \<open>[status+timestamp]\<close>; both are concatenated and sorted.\<close>

definition svc_getPending :: "(mutation list \<Rightarrow> mutation list) \<Rightarrow> mutation_table \<Rightarrow> mutation list" where
  "svc_getPending sortBy t =
     sortBy (sortBy (t_where (\<lambda>m. m_status m = PENDING) t) @ sortBy (t_where (\<lambda>m. m_status m = OFFLINE_QUEUED) t))"

definition svc_getByStatus :: "mutation_status \<Rightarrow> mutation_table \<Rightarrow> mutation list" where
  "svc_getByStatus st t = t_where (\<lambda>m. m_status m = st) t"

definition svc_deleteCompleted :: "mutation_table \<Rightarrow> nat \<times> mutation_table" where
  "svc_deleteCompleted t = t_delete_where (\<lambda>m. m_status m = COMPLETED) t"

definition svc_delete :: "string \<Rightarrow> mutation_table \<Rightarrow> mutation_table" where
  "svc_delete i t = jm_delete i t"

definition svc_countByStatus :: "mutation_status \<Rightarrow> mutation_table \<Rightarrow> nat" where
  "svc_countByStatus st t = length (t_where (\<lambda>m. m_status m = st) t)"

definition svc_markAllOfflineQueued :: "mutation_table \<Rightarrow> nat \<times> mutation_table" where
  "svc_markAllOfflineQueued t = t_modify (\<lambda>m. m_status m = PENDING) (\<lambda>m. m\<lparr>m_status := OFFLINE_QUEUED\<rparr>) t"

definition svc_bulkGet :: "string list \<Rightarrow> mutation_table \<Rightarrow> mutation option list" where
  "svc_bulkGet ids t = map (jm_get t) ids"

text \<open>
  \<open>bulkAdd\<close> validates every entry first. Outside a transaction the entries whose key is new are stored
  even when others fail.
\<close>

fun add_all :: "mutation list \<Rightarrow> mutation_table \<Rightarrow> db_error option \<times> mutation_table" where
  "add_all [] t = (None, t)"
| "add_all (m # ms) t =
     (case t_add m t of
        Inl e \<Rightarrow> (Some e, snd (add_all ms t))
      | Inr t' \<Rightarrow> add_all ms t')"

definition svc_bulkAdd :: "mutation list \<Rightarrow> mutation_table \<Rightarrow> db_error option \<times> mutation_table" where
  "svc_bulkAdd entries t =
     (if entries = [] then (None, t)
      else if \<not> (\<forall>m\<in>set entries. valid_entry m) then (Some ValidationError, t)
      else add_all entries t)"

definition svc_bulkDelete :: "string list \<Rightarrow> mutation_table \<Rightarrow> nat \<times> mutation_table" where
  "svc_bulkDelete ids t =
     (if ids = [] then (0, t)
      else (length (filter (\<lambda>m. m \<noteq> None) (svc_bulkGet ids t)), fold jm_delete ids t))"

subsection \<open>The idempotency invariant\<close>

definition keys_unique :: "mutation_table \<Rightarrow> bool" where
  "keys_unique t \<longleftrightarrow> distinct (map (m_idempotencyKey \<circ> snd) t)"

lemma findByIdempotencyKey_None:
  "svc_findByIdempotencyKey key t = None \<longleftrightarrow> key \<notin> (m_idempotencyKey \<circ> snd) ` set t"
  by (auto simp: svc_findByIdempotencyKey_def find_None_iff_all)

lemma t_add_Inr: "t_add m t = Inr t' \<Longrightarrow> t' = t @ [(m_id m, m)] \<and> jm_get t (m_id m) = None"
  by (auto simp: t_add_def jm_has_iff jm_set_same_snoc split: if_splits)

lemma insert_keys_unique:
  assumes "insertWithIdempotencyCheck m d t = Inr (b, t')" and "keys_unique t"
  shows "keys_unique t' \<and> (b \<longleftrightarrow> t' \<noteq> t) \<and> m_idempotencyKey m \<in> (m_idempotencyKey \<circ> snd) ` set t'"
  using assms findByIdempotencyKey_None [of "m_idempotencyKey m" t] t_add_Inr [of m t]
  by (auto simp: insertWithIdempotencyCheck_def keys_unique_def split: if_splits option.splits sum.splits)

lemma keys_unique_map:
  "(\<And>m. m_idempotencyKey (f m) = m_idempotencyKey m) \<Longrightarrow> keys_unique (map (\<lambda>(k, m). (k, f m)) t) = keys_unique t"
  by (simp add: keys_unique_def comp_def case_prod_beta)

lemma keys_unique_update:
  "(\<And>m. m_idempotencyKey (f m) = m_idempotencyKey m) \<Longrightarrow> jm_get t i = Some x \<Longrightarrow>
   map (m_idempotencyKey \<circ> snd) (jm_set i (f x) t) = map (m_idempotencyKey \<circ> snd) t"
  by (induction t) (auto simp: jm_get_Cons split: if_splits)

lemma keys_unique_t_update:
  "(\<And>m. m_idempotencyKey (f m) = m_idempotencyKey m) \<Longrightarrow> keys_unique (t_update i f t) = keys_unique t"
  by (auto simp: t_update_def keys_unique_def keys_unique_update split: option.split)

lemma keys_unique_filter: "keys_unique t \<Longrightarrow> keys_unique (filter P t)"
  unfolding keys_unique_def by (rule distinct_map_filter)

text \<open>Two entries with one key, added together: the bulk operation has no idempotency check.\<close>

lemma bulkAdd_duplicates:
  assumes "valid_entry m" "valid_entry m'" "m_id m \<noteq> m_id m'" "m_idempotencyKey m = m_idempotencyKey m'"
  shows "svc_bulkAdd [m, m'] [] = (None, [(m_id m, m), (m_id m', m')]) \<and> \<not> keys_unique (snd (svc_bulkAdd [m, m'] []))"
  using assms by (simp add: svc_bulkAdd_def t_add_def jm_has_iff jm_get_Cons keys_unique_def)

text \<open>
  Without a custom key the service hashes the payload alone: the key of a delete is the key of the update
  of the same entity with the same payload, so the delete is dropped as a duplicate.
\<close>

lemma svc_key_ignores_type:
  "o_idempotencyKey opts = None \<Longrightarrow>
   svc_generateIdempotencyKey stringify (opts\<lparr>o_type := ty\<rparr>) = svc_generateIdempotencyKey stringify opts"
  by (simp add: svc_generateIdempotencyKey_def generateIdempotencyKey_def)

lemma svc_getPending_mset:
  "sorts sortBy \<Longrightarrow>
   mset (svc_getPending sortBy t) = mset (t_where (\<lambda>m. m_status m \<in> {PENDING, OFFLINE_QUEUED}) t)"
proof -
  assume s: "sorts sortBy"
  have "mset (filter (\<lambda>m. m_status m = PENDING) ms) + mset (filter (\<lambda>m. m_status m = OFFLINE_QUEUED) ms) =
      mset (filter (\<lambda>m. m_status m \<in> {PENDING, OFFLINE_QUEUED}) ms)" for ms
    by (induction ms) auto
  from this [of "map snd t"] s show ?thesis unfolding sorts_def svc_getPending_def t_where_def by simp
qed

text \<open>C15 Inserting through the service is idempotent: the first entry with a key is stored and keys stay
unique; every later entry with that key is ignored by \<open>addIfNotExists\<close> and refused by \<open>add\<close>.\<close>

theorem idempotent_insert:
  assumes "table_ok t" and "keys_unique t" and "valid_entry m" and "jm_get t (m_id m) = None"
  shows "\<exists>b t'. svc_addIfNotExists m t = Inr (b, t') \<and> table_ok t' \<and> keys_unique t' \<and>
    (b \<longleftrightarrow> svc_findByIdempotencyKey (m_idempotencyKey m) t = None) \<and>
    (\<forall>m'. valid_entry m' \<and> m_idempotencyKey m' = m_idempotencyKey m \<longrightarrow>
      svc_addIfNotExists m' t' = Inr (False, t') \<and>
      svc_add m' t' = Inl (DuplicateEntryError (m_idempotencyKey m)))"
proof -
  have add: "t_add m t = Inr (jm_set (m_id m) m t)" using assms(4) by (simp add: t_add_def jm_has_iff)
  define b where "b \<longleftrightarrow> svc_findByIdempotencyKey (m_idempotencyKey m) t = None"
  define t' where "t' = (if b then jm_set (m_id m) m t else t)"
  have ins: "insertWithIdempotencyCheck m False t = Inr (b, t')"
    using assms(3) by (auto simp: insertWithIdempotencyCheck_def add b_def t'_def split: option.split)
  have "svc_findByIdempotencyKey (m_idempotencyKey m) t' \<noteq> None"
    using insert_keys_unique [OF ins assms(2)] findByIdempotencyKey_None by metis
  then have "svc_addIfNotExists m' t' = Inr (False, t') \<and> svc_add m' t' = Inl (DuplicateEntryError (m_idempotencyKey m))"
    if "valid_entry m'" "m_idempotencyKey m' = m_idempotencyKey m" for m'
    using that by (auto simp: svc_addIfNotExists_def svc_add_def insertWithIdempotencyCheck_def)
  moreover have "table_ok t'" using assms(1) by (simp add: t'_def table_ok_set)
  ultimately show ?thesis
    using ins insert_keys_unique [OF ins assms(2)] by (auto simp: svc_addIfNotExists_def b_def)
qed

definition sample_options :: mutation_options where
  "sample_options = \<lparr>o_type = UPDATE, o_tableName = ''notes'', o_entityId = ''7'', o_payload = JObj [],
     o_optimisticData = None, o_previousData = None, o_invalidateKeys = None, o_dependsOn = None,
     o_conflictStrategy = None, o_idempotencyKey = None\<rparr>"

definition sample_mutation :: mutation where
  "sample_mutation = createMutationEntry (\<lambda>v. ''{}'') 5 ''m1'' sample_options"

theorem idempotent_insert_witness:
  "\<exists>b t'. svc_addIfNotExists sample_mutation [] = Inr (b, t') \<and> keys_unique t' \<and> b \<and>
     svc_addIfNotExists (sample_mutation\<lparr>m_id := ''m2''\<rparr>) t' = Inr (False, t')"
proof -
  have v: "valid_entry sample_mutation" "valid_entry (sample_mutation\<lparr>m_id := ''m2''\<rparr>)"
    by (simp_all add: valid_entry_def sample_mutation_def createMutationEntry_def sample_options_def generateIdempotencyKey_def)
  have u: "keys_unique []" by (simp add: keys_unique_def)
  show ?thesis
    using idempotent_insert [OF table_ok_Nil u v(1)] v(2) by (fastforce simp: svc_findByIdempotencyKey_def)
qed

end
