(* ===== verification/Offline_Queue.thy ===== *)
theory Offline_Queue
  imports Mutation_Queue
begin

text \<open>
  The offline queue manager (\<open>sync-engine/src/queue/manager.ts\<close>): the mutation table it owns, and the
  provisional-to-server id mappings it keeps in memory and persists as one value of the sync-state
  store. Whether a call to that store succeeds is an argument (its failures are handled, not
  thrown), as are the clock, the generated ids and \<open>new Date(s).getTime()\<close>, which is taken to be a
  number. Calls are sequential. Logging, error callbacks and the singleton factory are left out.
\<close>

subsection \<open>State\<close>

record id_mapping =
  im_provisionalId :: string
  im_serverId :: string
  im_tableName :: string
  im_mappedAt :: string

record queue_manager =
  qm_table :: mutation_table
  qm_stored :: "jsv option" \<comment> \<open>the value stored under \<open>ID_MAPPINGS_KEY\<close>\<close>
  qm_maxRetries :: nat
  qm_maxIdMappings :: nat
  qm_idMappingTtlMs :: ms
  qm_idMappings :: "(string, id_mapping) jmap"
  qm_initialized :: bool
  qm_disposed :: bool

definition DEFAULT_MAX_RETRIES :: nat where "DEFAULT_MAX_RETRIES = 3"
definition DEFAULT_MAX_ID_MAPPINGS :: nat where "DEFAULT_MAX_ID_MAPPINGS = 1000"
definition DEFAULT_ID_MAPPING_TTL_MS :: ms where "DEFAULT_ID_MAPPING_TTL_MS = 24 * 60 * 60 * 1000"

datatype queue_error = QueueDisposed | QueueDb db_error

definition new_queue_manager ::
  "mutation_table \<Rightarrow> jsv option \<Rightarrow> nat option \<Rightarrow> nat option \<Rightarrow> ms option \<Rightarrow> queue_manager" where
  "new_queue_manager t stored retries mappings ttl =
     \<lparr>qm_table = t, qm_stored = stored,
      qm_maxRetries = (case retries of Some n \<Rightarrow> n | None \<Rightarrow> DEFAULT_MAX_RETRIES),
      qm_maxIdMappings = (case mappings of Some n \<Rightarrow> n | None \<Rightarrow> DEFAULT_MAX_ID_MAPPINGS),
      qm_idMappingTtlMs = (case ttl of Some n \<Rightarrow> n | None \<Rightarrow> DEFAULT_ID_MAPPING_TTL_MS),
      qm_idMappings = [], qm_initialized = False, qm_disposed = False\<rparr>"

definition live :: "queue_manager \<Rightarrow> 'a \<Rightarrow> queue_error + 'a" where
  "live q x = (if qm_disposed q then Inl QueueDisposed else Inr x)"

subsection \<open>Id mappings\<close>

text \<open>\<open>'k' in value && typeof value.k === 'string'\<close>.\<close>

definition string_field :: "(string \<times> jsv) list \<Rightarrow> string \<Rightarrow> string option" where
  "string_field es k = (case jm_get es k of Some (JStr s) \<Rightarrow> Some s | _ \<Rightarrow> None)"

definition idMapping_of :: "jsv \<Rightarrow> id_mapping option" where
  "idMapping_of v =
     (case v of
        JObj es \<Rightarrow>
          (case (string_field es ''provisionalId'', string_field es ''serverId'',
                 string_field es ''tableName'', string_field es ''mappedAt'') of
             (Some p, Some s, Some t, Some d) \<Rightarrow>
               Some \<lparr>im_provisionalId = p, im_serverId = s, im_tableName = t, im_mappedAt = d\<rparr>
           | _ \<Rightarrow> None)
      | _ \<Rightarrow> None)"

definition isValidIdMapping :: "jsv \<Rightarrow> bool" where
  "isValidIdMapping v = (idMapping_of v \<noteq> None)"

definition isValidIdMappingArray :: "jsv \<Rightarrow> bool" where
  "isValidIdMappingArray v = (case v of JArr vs \<Rightarrow> (\<forall>x\<in>set vs. isValidIdMapping x) | _ \<Rightarrow> False)"

definition idMapping_json :: "id_mapping \<Rightarrow> jsv" where
  "idMapping_json i =
     JObj [(''provisionalId'', JStr (im_provisionalId i)), (''serverId'', JStr (im_serverId i)),
           (''tableName'', JStr (im_tableName i)), (''mappedAt'', JStr (im_mappedAt i))]"

definition persistIdMappings :: "bool \<Rightarrow> queue_manager \<Rightarrow> queue_manager" where
  "persistIdMappings put_ok q =
     (if put_ok then q\<lparr>qm_stored := Some (JArr (map (\<lambda>e. idMapping_json (snd e)) (qm_idMappings q)))\<rparr> else q)"

definition expire_mappings ::
  "ms \<Rightarrow> ms \<Rightarrow> (string \<times> ms) list \<Rightarrow> (string, id_mapping) jmap \<Rightarrow> (string, id_mapping) jmap" where
  "expire_mappings now ttl stamps m =
     fold (\<lambda>(p, ts) m. if now - ts > ttl then jm_delete p m else m) stamps m"

definition cleanupIdMappings :: "(string \<Rightarrow> ms) \<Rightarrow> ms \<Rightarrow> bool \<Rightarrow> queue_manager \<Rightarrow> nat \<times> queue_manager" where
  "cleanupIdMappings getTime now put_ok q =
     (let stamps = map (\<lambda>(p, i). (p, getTime (im_mappedAt i))) (qm_idMappings q);
          m1 = expire_mappings now (qm_idMappingTtlMs q) stamps (qm_idMappings q);
          expired = length (filter (\<lambda>(p, ts). now - ts > qm_idMappingTtlMs q) stamps);
          remaining = sort_key snd (filter (\<lambda>(p, ts). jm_has m1 p) stamps);
          victims = (if length m1 > qm_maxIdMappings q then take (length m1 - qm_maxIdMappings q) remaining else []);
          m2 = fold (\<lambda>(p, ts). jm_delete p) victims m1;
          removedCount = expired + length victims;
          q1 = q\<lparr>qm_idMappings := m2\<rparr>
      in (removedCount, if removedCount > 0 then persistIdMappings put_ok q1 else q1))"

text \<open>A value that JavaScript counts as false; a zero is the only falsy number considered.\<close>

definition js_truthy :: "jsv \<Rightarrow> bool" where
  "js_truthy v = (v \<notin> {JUndef, JNull, JBool False, JNum 0, JStr []})"

definition load_mappings :: "jsv \<Rightarrow> (string, id_mapping) jmap \<Rightarrow> (string, id_mapping) jmap" where
  "load_mappings v m =
     (case v of
        JArr vs \<Rightarrow> fold (\<lambda>x m. case idMapping_of x of Some i \<Rightarrow> jm_set (im_provisionalId i) i m | None \<Rightarrow> m) vs m
      | _ \<Rightarrow> m)"

definition doInitialize :: "(string \<Rightarrow> ms) \<Rightarrow> ms \<Rightarrow> bool \<Rightarrow> bool \<Rightarrow> queue_manager \<Rightarrow> queue_manager" where
  "doInitialize getTime now read_ok write_ok q =
     (let q1 = (if \<not> read_ok then q
                else (case qm_stored q of
                        None \<Rightarrow> q
                      | Some v \<Rightarrow>
                          if \<not> js_truthy v then q
                          else if isValidIdMappingArray v
                          then snd (cleanupIdMappings getTime now write_ok
                                 (q\<lparr>qm_idMappings := load_mappings v (qm_idMappings q)\<rparr>))
                          else if write_ok then q\<lparr>qm_stored := None\<rparr> else q))
      in q1\<lparr>qm_initialized := True\<rparr>)"

definition queue_initialize :: "(string \<Rightarrow> ms) \<Rightarrow> ms \<Rightarrow> bool \<Rightarrow> bool \<Rightarrow> queue_manager \<Rightarrow> queue_manager" where
  "queue_initialize getTime now read_ok write_ok q =
     (if qm_initialized q then q else doInitialize getTime now read_ok write_ok q)"

definition registerIdMapping ::
  "(string \<Rightarrow> ms) \<Rightarrow> ms \<Rightarrow> bool \<Rightarrow> bool \<Rightarrow> id_mapping \<Rightarrow> queue_manager \<Rightarrow> queue_error + queue_manager" where
  "registerIdMapping getTime now read_ok write_ok mapping q =
     (if qm_disposed q then Inl QueueDisposed
      else let q1 = queue_initialize getTime now read_ok write_ok q;
               q2 = q1\<lparr>qm_idMappings := jm_set (im_provisionalId mapping) mapping (qm_idMappings q1)\<rparr>;
               q3 = (if length (qm_idMappings q2) > qm_maxIdMappings q2
                     then snd (cleanupIdMappings getTime now write_ok q2) else q2)
           in Inr (persistIdMappings write_ok q3))"

definition getServerId :: "queue_manager \<Rightarrow> string \<Rightarrow> string option" where
  "getServerId q p = map_option im_serverId (jm_get (qm_idMappings q) p)"

definition resolveId :: "queue_manager \<Rightarrow> string \<Rightarrow> string" where
  "resolveId q i =
     (if isProvisionalId i then (case getServerId q i of Some s \<Rightarrow> s | None \<Rightarrow> i) else i)"

definition getIdMappings :: "queue_manager \<Rightarrow> id_mapping list" where
  "getIdMappings q = map snd (qm_idMappings q)"

definition clearIdMappings :: "bool \<Rightarrow> queue_manager \<Rightarrow> queue_manager" where
  "clearIdMappings put_ok q = persistIdMappings put_ok (q\<lparr>qm_idMappings := []\<rparr>)"

definition resolvePayloadIds :: "queue_manager \<Rightarrow> jsv \<Rightarrow> jsv" where
  "resolvePayloadIds q payload = resolvePayloadProvisionalIds payload (getServerId q)"

subsection \<open>The queue\<close>

definition findByIdempotencyKey :: "string \<Rightarrow> queue_manager \<Rightarrow> queue_error + mutation option" where
  "findByIdempotencyKey key q = live q (svc_findByIdempotencyKey key (qm_table q))"

text \<open>\<open>enqueue\<close>, with the two ids it may generate and the time of its clock.\<close>

definition enqueueMutation ::
  "(jsv \<Rightarrow> string) \<Rightarrow> (string \<Rightarrow> ms) \<Rightarrow> ms \<Rightarrow> bool \<Rightarrow> bool \<Rightarrow> string \<Rightarrow> string \<Rightarrow> mutation_options \<Rightarrow> queue_manager \<Rightarrow>
   queue_error + (mutation \<times> queue_manager)" where
  "enqueueMutation stringify getTime now read_ok write_ok provisional uuid opts q =
     (if qm_disposed q then Inl QueueDisposed
      else let q1 = queue_initialize getTime now read_ok write_ok q;
               existing = (case o_idempotencyKey opts of
                             Some key \<Rightarrow> svc_findByIdempotencyKey key (qm_table q1) | None \<Rightarrow> None)
           in (case existing of
                 Some m \<Rightarrow> Inr (m, q1)
               | None \<Rightarrow>
                   let entityId = (if o_type opts = CREATE \<and> o_entityId opts = [] then generateProvisionalId provisional
                                   else o_entityId opts);
                       entry = createMutationEntry stringify now uuid (opts\<lparr>o_entityId := entityId\<rparr>)
                   in (case t_add entry (qm_table q1) of
                         Inl e \<Rightarrow> Inl (QueueDb e)
                       | Inr t \<Rightarrow> Inr (entry, q1\<lparr>qm_table := t\<rparr>))))"

definition getMutation :: "string \<Rightarrow> queue_manager \<Rightarrow> queue_error + mutation option" where
  "getMutation i q = live q (jm_get (qm_table q) i)"

abbreviation waiting :: "mutation \<Rightarrow> bool" where
  "waiting m \<equiv> m_status m \<in> {PENDING, OFFLINE_QUEUED}"

definition getPendingMutations :: "(mutation list \<Rightarrow> mutation list) \<Rightarrow> queue_manager \<Rightarrow> queue_error + mutation list" where
  "getPendingMutations sortBy q = live q (sortBy (t_where waiting (qm_table q)))"

definition getByStatus :: "(mutation list \<Rightarrow> mutation list) \<Rightarrow> mutation_status \<Rightarrow> queue_manager \<Rightarrow> queue_error + mutation list" where
  "getByStatus sortBy st q = live q (sortBy (t_where (\<lambda>m. m_status m = st) (qm_table q)))"

definition updateStatus :: "string \<Rightarrow> mutation_status \<Rightarrow> (mutation \<Rightarrow> mutation) \<Rightarrow> queue_manager \<Rightarrow> queue_error + queue_manager" where
  "updateStatus i st updates q =
     live q (q\<lparr>qm_table := t_update i (\<lambda>m. updates (m\<lparr>m_status := st\<rparr>)) (qm_table q)\<rparr>)"

definition markInProgress :: "string \<Rightarrow> queue_manager \<Rightarrow> queue_error + queue_manager" where
  "markInProgress i q = updateStatus i IN_PROGRESS id q"

definition markCompleted :: "string \<Rightarrow> string option \<Rightarrow> queue_manager \<Rightarrow> queue_error + queue_manager" where
  "markCompleted i serverId q = updateStatus i COMPLETED (\<lambda>m. m\<lparr>m_serverId := serverId\<rparr>) q"

definition markFailed :: "string \<Rightarrow> string \<Rightarrow> queue_manager \<Rightarrow> queue_error + queue_manager" where
  "markFailed i err q =
     (if qm_disposed q then Inl QueueDisposed
      else (case jm_get (qm_table q) i of
              None \<Rightarrow> Inr q
            | Some m \<Rightarrow>
                let n = m_retryCount m + 1;
                    st = (if n \<ge> qm_maxRetries q then FAILED else PENDING)
                in updateStatus i st (\<lambda>m. m\<lparr>m_retryCount := n, m_lastError := Some err\<rparr>) q))"

definition restatus :: "mutation_status \<Rightarrow> mutation_status \<Rightarrow> queue_manager \<Rightarrow> nat \<times> queue_manager" where
  "restatus old st q =
     (let r = t_modify (\<lambda>m. m_status m = old) (\<lambda>m. m\<lparr>m_status := st\<rparr>) (qm_table q)
      in (fst r, q\<lparr>qm_table := snd r\<rparr>))"

definition markAllOfflineQueued :: "queue_manager \<Rightarrow> queue_error + nat \<times> queue_manager" where
  "markAllOfflineQueued q = live q (restatus PENDING OFFLINE_QUEUED q)"

definition markAllPending :: "queue_manager \<Rightarrow> queue_error + nat \<times> queue_manager" where
  "markAllPending q = live q (restatus OFFLINE_QUEUED PENDING q)"

definition deleteMutation :: "string \<Rightarrow> queue_manager \<Rightarrow> queue_error + queue_manager" where
  "deleteMutation i q = live q (q\<lparr>qm_table := jm_delete i (qm_table q)\<rparr>)"

definition deleteCompleted :: "queue_manager \<Rightarrow> queue_error + nat \<times> queue_manager" where
  "deleteCompleted q =
     live q (let r = t_delete_where (\<lambda>m. m_status m = COMPLETED) (qm_table q)
             in (fst r, q\<lparr>qm_table := snd r\<rparr>))"

definition clearQueue :: "bool \<Rightarrow> queue_manager \<Rightarrow> queue_error + queue_manager" where
  "clearQueue put_ok q = live q (persistIdMappings put_ok (q\<lparr>qm_table := [], qm_idMappings := []\<rparr>))"

record queue_stats =
  qs_pending :: nat
  qs_inProgress :: nat
  qs_failed :: nat
  qs_offlineQueued :: nat
  qs_total :: nat

definition count_status :: "mutation_status \<Rightarrow> queue_manager \<Rightarrow> nat" where
  "count_status st q = length (t_where (\<lambda>m. m_status m = st) (qm_table q))"

definition getStats :: "queue_manager \<Rightarrow> queue_error + queue_stats" where
  "getStats q =
     live q \<lparr>qs_pending = count_status PENDING q, qs_inProgress = count_status IN_PROGRESS q,
             qs_failed = count_status FAILED q, qs_offlineQueued = count_status OFFLINE_QUEUED q,
             qs_total = length (qm_table q)\<rparr>"

definition hasPending :: "queue_manager \<Rightarrow> queue_error + bool" where
  "hasPending q = live q (length (t_where waiting (qm_table q)) > 0)"

definition queue_dispose :: "queue_manager \<Rightarrow> queue_manager" where
  "queue_dispose q = q\<lparr>qm_idMappings := [], qm_disposed := True\<rparr>"

subsection \<open>Eviction of id mappings\<close>

definition expired :: "(string \<Rightarrow> ms) \<Rightarrow> ms \<Rightarrow> ms \<Rightarrow> id_mapping \<Rightarrow> bool" where
  "expired getTime now ttl i \<longleftrightarrow> now - getTime (im_mappedAt i) > ttl"

definition evicted :: "(string \<Rightarrow> ms) \<Rightarrow> nat \<Rightarrow> (string, id_mapping) jmap \<Rightarrow> (string \<times> ms) list" where
  "evicted getTime limit m =
     (if length m > limit
      then take (length m - limit) (sort_key snd (map (\<lambda>(p, i). (p, getTime (im_mappedAt i))) m)) else [])"

lemma expire_mappings_eq:
  assumes "jm_ok m"
  shows "expire_mappings now ttl (map (\<lambda>(p, i). (p, getTime (im_mappedAt i))) m) m =
    filter (\<lambda>e. \<not> expired getTime now ttl (snd e)) m"
  unfolding expire_mappings_def fold_delete_if
proof (rule filter_cong [OF refl], goal_cases)
  case (1 e)
  have "getTime (im_mappedAt (snd e)) = ts" if "(fst e, ts) \<in> set (map (\<lambda>(p, i). (p, getTime (im_mappedAt i))) m)" for ts
    using that jm_ok_unique [OF assms 1] by auto
  moreover have "(fst e, getTime (im_mappedAt (snd e))) \<in> set (map (\<lambda>(p, i). (p, getTime (im_mappedAt i))) m)"
    using 1 by force
  ultimately show ?case unfolding expired_def by metis
qed

lemma cleanup_eq:
  fixes getTime now
  assumes "jm_ok (qm_idMappings q)"
  defines "m1 \<equiv> filter (\<lambda>e. \<not> expired getTime now (qm_idMappingTtlMs q) (snd e)) (qm_idMappings q)"
  shows "qm_idMappings (snd (cleanupIdMappings getTime now put_ok q)) =
      filter (\<lambda>e. fst e \<notin> fst ` set (evicted getTime (qm_maxIdMappings q) m1)) m1"
proof -
  let ?stamp = "\<lambda>(p, i). (p, getTime (im_mappedAt i))"
  let ?m = "qm_idMappings q"
  have m1: "expire_mappings now (qm_idMappingTtlMs q) (map ?stamp ?m) ?m = m1"
    unfolding m1_def by (rule expire_mappings_eq [OF assms(1)])
  have kept: "filter (\<lambda>(p, ts). jm_has m1 p) (map ?stamp ?m) = map ?stamp m1"
  proof -
    have "jm_has m1 (fst e) \<longleftrightarrow> \<not> expired getTime now (qm_idMappingTtlMs q) (snd e)" if "e \<in> set ?m" for e
      using that jm_ok_unique [OF assms(1) that] unfolding jm_has_iff jm_get_None_iff m1_def by force
    then have "filter (\<lambda>e. jm_has m1 (fst e)) ?m = m1" unfolding m1_def by (auto intro: filter_cong)
    moreover have "filter (\<lambda>(p, ts). jm_has m1 p) (map ?stamp ?m) = map ?stamp (filter (\<lambda>e. jm_has m1 (fst e)) ?m)"
      by (simp add: filter_map comp_def case_prod_beta)
    ultimately show ?thesis by simp
  qed
  show ?thesis
    by (simp add: cleanupIdMappings_def Let_def m1 kept fold_delete evicted_def persistIdMappings_def)
qed

lemma evicted_keys:
  "jm_ok m \<Longrightarrow> distinct (map fst (evicted getTime limit m)) \<and> fst ` set (evicted getTime limit m) \<subseteq> fst ` set m \<and>
   length (evicted getTime limit m) = length m - limit"
proof -
  assume ok: "jm_ok m"
  let ?s = "sort_key snd (map (\<lambda>(p, i). (p, getTime (im_mappedAt i))) m)"
  have "mset (map fst ?s) = mset (map fst m)" by (simp add: image_mset.compositionality comp_def case_prod_beta)
  with ok have d: "distinct (map fst ?s)" and s: "fst ` set ?s = fst ` set m"
    by (metis mset_eq_imp_distinct_iff, metis mset_eq_setD set_map)
  from d have "distinct (map fst (take n ?s))" for n by (metis distinct_take take_map)
  moreover have "fst ` set (take n ?s) \<subseteq> fst ` set m" for n using s set_take_subset by (metis image_mono)
  ultimately show ?thesis by (auto simp: evicted_def)
qed

text \<open>What is evicted is not newer than what stays.\<close>

lemma evicted_oldest:
  assumes "jm_ok m" and "jm_get m p = Some i" and "p \<in> fst ` set (evicted getTime limit m)"
    and "jm_get m p' = Some i'" and "p' \<notin> fst ` set (evicted getTime limit m)"
  shows "getTime (im_mappedAt i) \<le> getTime (im_mappedAt i')"
proof -
  define s where "s = sort_key snd (map (\<lambda>(p, i). (p, getTime (im_mappedAt i))) m)"
  define n where "n = length m - limit"
  from assms(3) have e: "evicted getTime limit m = take n s" by (auto simp: evicted_def s_def n_def split: if_splits)
  have stamp: "ts = getTime (im_mappedAt x)" if "(k, ts) \<in> set s" "jm_get m k = Some x" for k ts x
    using that assms(1) by (auto simp: s_def jm_get_Some_iff dest: eq_key_imp_eq_value)
  from assms(3) obtain ts where "(p, ts) \<in> set (take n s)" by (auto simp: e)
  with stamp assms(2) have 1: "(p, getTime (im_mappedAt i)) \<in> set (take n s)" by (metis in_set_takeD)
  have "(p', getTime (im_mappedAt i')) \<in> set s" using assms(4) jm_get_Some_in [of m p' i'] by (force simp: s_def)
  moreover have "(p', getTime (im_mappedAt i')) \<notin> set (take n s)" using assms(5) by (force simp: e)
  ultimately have 2: "(p', getTime (im_mappedAt i')) \<in> set (drop n s)"
    by (metis UnE append_take_drop_id set_append)
  have "sorted (map snd (take n s @ drop n s))" by (simp add: s_def)
  then have "\<forall>x\<in>set (take n s). \<forall>y\<in>set (drop n s). snd x \<le> snd y" by (simp only: map_append sorted_append) auto
  with 1 2 show ?thesis by fastforce
qed

lemma length_filter_keys:
  "jm_ok m \<Longrightarrow> distinct ks \<Longrightarrow> set ks \<subseteq> fst ` set m \<Longrightarrow>
   length (filter (\<lambda>e. fst e \<notin> set ks) m) = length m - length ks"
proof -
  assume ok: "jm_ok m" and ks: "distinct ks" "set ks \<subseteq> fst ` set m"
  have "length (filter (\<lambda>e. fst e \<notin> set ks) m) = card (fst ` set (filter (\<lambda>e. fst e \<notin> set ks) m))"
    using ok by (metis distinct_card distinct_map_filter length_map set_map)
  also have "fst ` set (filter (\<lambda>e. fst e \<notin> set ks) m) = fst ` set m - set ks" by auto
  also have "card (fst ` set m - set ks) = card (fst ` set m) - card (set ks)"
    by (rule card_Diff_subset) (use ks in auto)
  finally show ?thesis using ok ks(1) by (metis distinct_card length_map set_map)
qed

text \<open>Cleaning up the id mappings leaves at most \<open>maxIdMappings\<close>, none of them expired and all of them
unchanged, and a mapping that was evicted without being expired is not newer than any that stays.\<close>

theorem cleanup_bounds:
  assumes "jm_ok (qm_idMappings q)"
    and "q' = snd (cleanupIdMappings getTime now put_ok q)"
  shows "length (qm_idMappings q') \<le> qm_maxIdMappings q \<and>
    (\<forall>p i. jm_get (qm_idMappings q') p = Some i \<longrightarrow>
      jm_get (qm_idMappings q) p = Some i \<and> now - getTime (im_mappedAt i) \<le> qm_idMappingTtlMs q) \<and>
    (\<forall>p i p' i'. jm_get (qm_idMappings q) p = Some i \<and> now - getTime (im_mappedAt i) \<le> qm_idMappingTtlMs q \<and>
      jm_get (qm_idMappings q') p = None \<and> jm_get (qm_idMappings q') p' = Some i' \<longrightarrow>
      getTime (im_mappedAt i) \<le> getTime (im_mappedAt i'))"
proof -
  define m1 where "m1 = filter (\<lambda>e. \<not> expired getTime now (qm_idMappingTtlMs q) (snd e)) (qm_idMappings q)"
  define ev where "ev = evicted getTime (qm_maxIdMappings q) m1"
  have ok: "jm_ok m1" using assms(1) by (simp add: m1_def)
  have q': "qm_idMappings q' = filter (\<lambda>e. fst e \<notin> fst ` set ev) m1"
    unfolding assms(2) ev_def m1_def by (rule cleanup_eq [OF assms(1)])
  have get1: "jm_get m1 p = Some i \<longleftrightarrow>
      jm_get (qm_idMappings q) p = Some i \<and> now - getTime (im_mappedAt i) \<le> qm_idMappingTtlMs q" for p i
    using ok assms(1) by (auto simp: jm_get_Some_iff m1_def expired_def)
  have get': "jm_get (qm_idMappings q') p = Some i \<longleftrightarrow> jm_get m1 p = Some i \<and> p \<notin> fst ` set ev" for p i
    using ok by (auto simp: jm_get_Some_iff q')
  have "length (qm_idMappings q') \<le> qm_maxIdMappings q"
    using length_filter_keys [OF ok, of "map fst ev"] evicted_keys [OF ok, of getTime "qm_maxIdMappings q"]
    by (simp add: q' ev_def [symmetric])
  moreover have "getTime (im_mappedAt i) \<le> getTime (im_mappedAt i')"
    if "jm_get (qm_idMappings q) p = Some i" "now - getTime (im_mappedAt i) \<le> qm_idMappingTtlMs q"
      "jm_get (qm_idMappings q') p = None" "jm_get (qm_idMappings q') p' = Some i'" for p i p' i'
  proof (rule evicted_oldest [OF ok])
    show "jm_get m1 p = Some i" using that(1,2) get1 by blast
    then show "p \<in> fst ` set (evicted getTime (qm_maxIdMappings q) m1)"
      using that(3) get' [of p i] unfolding ev_def [symmetric] by (metis option.distinct(1))
    show "jm_get m1 p' = Some i'" "p' \<notin> fst ` set (evicted getTime (qm_maxIdMappings q) m1)"
      using that(4) get' by (auto simp: ev_def [symmetric])
  qed
  ultimately show ?thesis using get1 get' by blast
qed

definition map_of_age :: "string \<Rightarrow> string \<Rightarrow> id_mapping" where
  "map_of_age p t = \<lparr>im_provisionalId = p, im_serverId = ''s'' @ p, im_tableName = ''notes'', im_mappedAt = t\<rparr>"

definition three_mappings :: queue_manager where
  "three_mappings = (new_queue_manager [] None None (Some 1) (Some 100))
     \<lparr>qm_idMappings := [(''a'', map_of_age ''a'' ''30''), (''b'', map_of_age ''b'' ''5''), (''c'', map_of_age ''c'' ''20'')]\<rparr>"

theorem cleanup_bounds_witness:
  "map fst (qm_idMappings (snd (cleanupIdMappings (\<lambda>s. int (read_nat s)) 110 True three_mappings))) = [''a''] \<and>
   length (qm_idMappings (snd (cleanupIdMappings (\<lambda>s. int (read_nat s)) 110 True three_mappings))) \<le> 1"
proof
  show "map fst (qm_idMappings (snd (cleanupIdMappings (\<lambda>s. int (read_nat s)) 110 True three_mappings))) = [''a'']"
    by code_simp
  have "jm_ok (qm_idMappings three_mappings)" by (simp add: three_mappings_def)
  from cleanup_bounds [OF this refl, of "\<lambda>s. int (read_nat s)" 110 True]
  show "length (qm_idMappings (snd (cleanupIdMappings (\<lambda>s. int (read_nat s)) 110 True three_mappings))) \<le> 1"
    by (simp add: three_mappings_def new_queue_manager_def)
qed

subsection \<open>Persistence of id mappings\<close>

lemma idMapping_of_json [simp]: "idMapping_of (idMapping_json i) = Some i"
  by (simp add: idMapping_of_def idMapping_json_def string_field_def jm_get_Cons)

lemma fold_load_json:
  "fold (\<lambda>x m. case idMapping_of x of Some i \<Rightarrow> jm_set (im_provisionalId i) i m | None \<Rightarrow> m) (map idMapping_json is) m =
   fold (\<lambda>i m. jm_set (im_provisionalId i) i m) is m"
  by (induction "is" arbitrary: m) auto

lemma load_persisted:
  "keyed im_provisionalId m \<Longrightarrow> load_mappings (JArr (map (\<lambda>e. idMapping_json (snd e)) m)) [] = m"
  using keyed_refill [of im_provisionalId m] fold_load_json [of "map snd m" "[]"]
  by (simp add: load_mappings_def comp_def)

lemma cleanup_nothing:
  "jm_ok (qm_idMappings q) \<Longrightarrow> length (qm_idMappings q) \<le> qm_maxIdMappings q \<Longrightarrow>
   \<forall>i\<in>snd ` set (qm_idMappings q). \<not> expired getTime now (qm_idMappingTtlMs q) i \<Longrightarrow>
   qm_idMappings (snd (cleanupIdMappings getTime now put_ok q)) = qm_idMappings q"
  by (subst cleanup_eq) (simp_all add: evicted_def filter_id_conv)

text \<open>Id mappings survive a restart: what one manager persists, a new manager on the same store loads
unchanged, as long as the mappings are within the limit and have not expired by then.\<close>

theorem id_mappings_survive_restart:
  assumes "keyed im_provisionalId (qm_idMappings q)" and "length (qm_idMappings q) \<le> qm_maxIdMappings q'"
    and "\<forall>i\<in>snd ` set (qm_idMappings q). now - getTime (im_mappedAt i) \<le> qm_idMappingTtlMs q'"
    and "qm_stored q' = qm_stored (persistIdMappings True q)"
    and "qm_idMappings q' = []" and "\<not> qm_initialized q'"
  shows "qm_idMappings (queue_initialize getTime now True write_ok q') = qm_idMappings q \<and>
    (\<forall>i. resolveId (queue_initialize getTime now True write_ok q') i = resolveId q i)"
proof -
  let ?v = "JArr (map (\<lambda>e. idMapping_json (snd e)) (qm_idMappings q))"
  have v: "qm_stored q' = Some ?v" "js_truthy ?v" "isValidIdMappingArray ?v"
    using assms(4) by (auto simp: persistIdMappings_def js_truthy_def isValidIdMappingArray_def isValidIdMapping_def)
  have "qm_idMappings (snd (cleanupIdMappings getTime now write_ok (q'\<lparr>qm_idMappings := qm_idMappings q\<rparr>))) = qm_idMappings q"
    using cleanup_nothing [of "q'\<lparr>qm_idMappings := qm_idMappings q\<rparr>" getTime now write_ok] assms(1-3)
    by (auto simp: expired_def keyed_def not_less)
  then have "qm_idMappings (queue_initialize getTime now True write_ok q') = qm_idMappings q"
    using v load_persisted [OF assms(1)] assms(5,6)
    by (simp add: queue_initialize_def doInitialize_def)
  then show ?thesis by (simp add: resolveId_def getServerId_def)
qed

theorem id_mappings_survive_restart_witness:
  "resolveId (queue_initialize (\<lambda>s. int (read_nat s)) 40 True True
      (new_queue_manager [] (qm_stored (persistIdMappings True
        (three_mappings\<lparr>qm_idMappings := [(''provisional_1'', map_of_age ''provisional_1'' ''30'')]\<rparr>))) None None None))
      ''provisional_1'' = ''sprovisional_1''"
proof -
  let ?q = "three_mappings\<lparr>qm_idMappings := [(''provisional_1'', map_of_age ''provisional_1'' ''30'')]\<rparr>"
  let ?q' = "new_queue_manager [] (qm_stored (persistIdMappings True ?q)) None None None"
  have "resolveId (queue_initialize (\<lambda>s. int (read_nat s)) 40 True True ?q') ''provisional_1'' = resolveId ?q ''provisional_1''"
    using id_mappings_survive_restart [of ?q ?q' 40 "\<lambda>s. int (read_nat s)" True]
    by (simp add: keyed_def map_of_age_def new_queue_manager_def DEFAULT_MAX_ID_MAPPINGS_def
        DEFAULT_ID_MAPPING_TTL_MS_def)
  also have "\<dots> = ''sprovisional_1''" by code_simp
  finally show ?thesis .
qed

subsection \<open>The life of an entry\<close>

text \<open>The calls that change the queue, with their clock and generated values.\<close>

datatype queue_call =
  Call_enqueue ms string string mutation_options
| Call_in_progress string
| Call_completed string "string option"
| Call_failed string string
| Call_offline
| Call_online
| Call_delete string
| Call_delete_completed
| Call_clear bool
| Call_dispose

definition run_call ::
  "(jsv \<Rightarrow> string) \<Rightarrow> (string \<Rightarrow> ms) \<Rightarrow> queue_manager \<Rightarrow> queue_call \<Rightarrow> queue_error + queue_manager" where
  "run_call stringify getTime q c =
     (case c of
        Call_enqueue now p u opts \<Rightarrow> map_sum id snd (enqueueMutation stringify getTime now True True p u opts q)
      | Call_in_progress i \<Rightarrow> markInProgress i q
      | Call_completed i s \<Rightarrow> markCompleted i s q
      | Call_failed i e \<Rightarrow> markFailed i e q
      | Call_offline \<Rightarrow> map_sum id snd (markAllOfflineQueued q)
      | Call_online \<Rightarrow> map_sum id snd (markAllPending q)
      | Call_delete i \<Rightarrow> deleteMutation i q
      | Call_delete_completed \<Rightarrow> map_sum id snd (deleteCompleted q)
      | Call_clear ok \<Rightarrow> clearQueue ok q
      | Call_dispose \<Rightarrow> Inr (queue_dispose q))"

text \<open>A call that throws leaves the manager as it was.\<close>

definition run_calls ::
  "(jsv \<Rightarrow> string) \<Rightarrow> (string \<Rightarrow> ms) \<Rightarrow> queue_call list \<Rightarrow> queue_manager \<Rightarrow> queue_manager" where
  "run_calls stringify getTime cs q =
     foldl (\<lambda>q c. case run_call stringify getTime q c of Inl e \<Rightarrow> q | Inr q' \<Rightarrow> q') q cs"

text \<open>Entries sit under their ids, and one that waits has an attempt left.\<close>

definition queue_ok :: "queue_manager \<Rightarrow> bool" where
  "queue_ok q \<longleftrightarrow> table_ok (qm_table q) \<and> qm_maxRetries q > 0 \<and>
     (\<forall>i m. jm_get (qm_table q) i = Some m \<longrightarrow> waiting m \<longrightarrow> m_retryCount m < qm_maxRetries q)"

lemma queue_ok_table:
  "queue_ok q \<Longrightarrow> table_ok t \<Longrightarrow>
   (\<And>i m. jm_get t i = Some m \<Longrightarrow> waiting m \<Longrightarrow> m_retryCount m < qm_maxRetries q) \<Longrightarrow>
   queue_ok (q\<lparr>qm_table := t\<rparr>)"
  unfolding queue_ok_def by simp

lemma queue_initialize_table [simp]:
  "qm_table (queue_initialize getTime now r w q) = qm_table q"
  "qm_maxRetries (queue_initialize getTime now r w q) = qm_maxRetries q"
  "qm_disposed (queue_initialize getTime now r w q) = qm_disposed q"
  by (simp_all add: queue_initialize_def doInitialize_def cleanupIdMappings_def persistIdMappings_def Let_def
      split: option.split)

lemma queue_ok_initialize [simp]: "queue_ok (queue_initialize getTime now r w q) = queue_ok q"
  by (simp add: queue_ok_def)

lemma createMutationEntry_fresh [simp]:
  "m_id (createMutationEntry stringify now i opts) = i"
  "m_status (createMutationEntry stringify now i opts) = PENDING"
  "m_retryCount (createMutationEntry stringify now i opts) = 0"
  by (simp_all add: createMutationEntry_def)

lemma queue_ok_enqueue:
  assumes "queue_ok q" and "enqueueMutation stringify getTime now r w p u opts q = Inr (m, q')"
  shows "queue_ok q'"
proof -
  have add: "queue_ok (q1\<lparr>qm_table := t\<rparr>)"
    if "queue_ok q1" "t_add (createMutationEntry stringify now u opts') (qm_table q1) = Inr t" for q1 t opts'
    using that by (auto simp: queue_ok_def t_add_def table_ok_set split: if_splits)
  have "queue_ok (queue_initialize getTime now r w q)" using assms(1) by simp
  with assms(2) show ?thesis
    by (auto simp: enqueueMutation_def Let_def split: if_splits option.splits sum.splits intro: add)
qed

lemma queue_ok_update:
  assumes "queue_ok q" and "updateStatus i st f q = Inr q'"
    and "\<And>m. m_id (f m) = m_id m" and "\<And>m. m_status (f m) = m_status m"
    and "\<And>m. st \<in> {PENDING, OFFLINE_QUEUED} \<Longrightarrow> m_retryCount (f m) < qm_maxRetries q"
  shows "queue_ok q'"
proof -
  have "q' = q\<lparr>qm_table := t_update i (\<lambda>m. f (m\<lparr>m_status := st\<rparr>)) (qm_table q)\<rparr>"
    using assms(2) by (auto simp: updateStatus_def live_def split: if_splits)
  then show ?thesis
    using assms(1,3-5) by (auto simp: queue_ok_def table_ok_update split: if_splits)
qed

lemma queue_ok_markFailed: "queue_ok q \<Longrightarrow> markFailed i e q = Inr q' \<Longrightarrow> queue_ok q'"
  by (auto simp: markFailed_def Let_def split: if_splits option.splits elim!: queue_ok_update)

lemma queue_ok_restatus:
  assumes "queue_ok q" and "old \<in> {PENDING, OFFLINE_QUEUED}"
  shows "queue_ok (snd (restatus old st q))"
  using assms by (auto simp: queue_ok_def restatus_def Let_def table_ok_modify jm_get_modify split: if_splits)

lemma queue_ok_delete_where: "queue_ok q \<Longrightarrow> queue_ok (q\<lparr>qm_table := snd (t_delete_where P (qm_table q))\<rparr>)"
  by (auto simp: queue_ok_def jm_get_delete_where split: option.splits if_splits)
    (simp add: t_delete_where_def table_ok_filter)

lemma queue_ok_call:
  assumes "queue_ok q" and "run_call stringify getTime q c = Inr q'"
  shows "queue_ok q'"
proof (cases c)
  case (Call_enqueue now p u opts)
  with assms show ?thesis by (auto simp: run_call_def map_sum_def split: sum.splits intro: queue_ok_enqueue)
next
  case (Call_in_progress i)
  with assms show ?thesis by (auto simp: run_call_def markInProgress_def elim!: queue_ok_update)
next
  case (Call_completed i s)
  with assms show ?thesis by (auto simp: run_call_def markCompleted_def elim!: queue_ok_update)
next
  case (Call_failed i e)
  with assms show ?thesis by (auto simp: run_call_def intro: queue_ok_markFailed)
next
  case Call_offline
  with assms queue_ok_restatus [of q PENDING OFFLINE_QUEUED] show ?thesis
    by (auto simp: run_call_def markAllOfflineQueued_def live_def split: if_splits)
next
  case Call_online
  with assms queue_ok_restatus [of q OFFLINE_QUEUED PENDING] show ?thesis
    by (auto simp: run_call_def markAllPending_def live_def split: if_splits)
next
  case (Call_delete i)
  with assms show ?thesis
    by (auto simp: run_call_def deleteMutation_def live_def queue_ok_def jm_delete_def [symmetric] split: if_splits)
      (simp add: jm_delete_def table_ok_filter)
next
  case Call_delete_completed
  with assms queue_ok_delete_where show ?thesis
    by (auto simp: run_call_def deleteCompleted_def live_def Let_def split: if_splits)
next
  case (Call_clear ok)
  with assms show ?thesis
    by (auto simp: run_call_def clearQueue_def live_def persistIdMappings_def queue_ok_def split: if_splits)
next
  case Call_dispose
  with assms show ?thesis by (auto simp: run_call_def queue_dispose_def queue_ok_def)
qed

lemma queue_ok_calls: "queue_ok q \<Longrightarrow> queue_ok (run_calls stringify getTime cs q)"
  unfolding run_calls_def
  by (induction cs arbitrary: q) (auto split: sum.split dest: queue_ok_call)

lemma waiting_table:
  assumes "table_ok t" and "sorts sortBy"
  shows "distinct (map m_id (sortBy (t_where P t)))"
proof -
  have "map m_id (map snd t) = map fst t" using assms(1) by (auto simp: table_ok_def)
  with assms(1) have "distinct (map m_id (map snd t))" by (simp only: table_ok_def)
  then have "distinct (map m_id (t_where P t))" unfolding t_where_def by (rule distinct_map_filter)
  moreover have "mset (map m_id (sortBy (t_where P t))) = mset (map m_id (t_where P t))"
    using assms(2) by (simp add: sorts_def)
  ultimately show ?thesis by (metis mset_eq_imp_distinct_iff)
qed


definition two_calls :: "queue_call list" where
  "two_calls = [Call_enqueue 9 ''p'' ''u1'' sample_options, Call_enqueue 8 ''p'' ''u2'' sample_options,
     Call_failed ''u1'' ''timeout'']"


subsection \<open>Further facts\<close>

text \<open>
  The caller's idempotency key is looked up but never stored: with a key that is not the computed
  hash of the entry, a repeated call adds a second entry.
\<close>

lemma custom_key_not_stored:
  assumes "enqueueMutation stringify getTime now r w p u opts q = Inr (m, q')"
    and "o_idempotencyKey opts = Some key"
    and "svc_findByIdempotencyKey key (qm_table q) = None" and "m_idempotencyKey m \<noteq> key"
    and "u' \<noteq> u" and "jm_get (qm_table q) u' = None"
  shows "\<exists>m' q''. enqueueMutation stringify getTime now' r w p' u' opts q' = Inr (m', q'') \<and> m_id m' = u' \<and>
    jm_get (qm_table q'') u = Some m"
proof -
  have nd: "\<not> qm_disposed q" using assms(1) by (auto simp: enqueueMutation_def)
  have find: "svc_findByIdempotencyKey k t = None \<longleftrightarrow> (\<forall>e\<in>set t. m_idempotencyKey (snd e) \<noteq> k)" for k t
    by (auto simp: svc_findByIdempotencyKey_def find_None_iff_all)
  have q': "m_id m = u" "qm_table q' = qm_table q @ [(u, m)]" "jm_get (qm_table q) u = None" "\<not> qm_disposed q'"
    using assms(1-3) nd t_add_Inr [of m "qm_table q"]
    by (auto simp: enqueueMutation_def Let_def dest: t_add_Inr split: sum.splits)
  have get: "jm_get (t @ [(u, m)]) k = (case jm_get t k of Some x \<Rightarrow> Some x | None \<Rightarrow> if k = u then Some m else None)" for t k
    by (induction t) (auto simp: jm_get_Cons)
  from q' assms(3,4) have "svc_findByIdempotencyKey key (qm_table q') = None" by (auto simp: find)
  moreover have "jm_get (qm_table q') u' = None" using q' assms(5,6) by (simp add: get)
  ultimately show ?thesis
    using q' assms(2,5) get by (auto simp: enqueueMutation_def Let_def t_add_def jm_has_iff)
qed

text \<open>
  When reading the store fails at initialization the manager counts as initialized without mappings, and
  the next registration overwrites everything that was stored.
\<close>

lemma failed_read_overwrites:
  assumes "\<not> qm_disposed q" and "\<not> qm_initialized q" and "qm_idMappings q = []" and "qm_maxIdMappings q > 0"
  shows "\<exists>q'. registerIdMapping getTime now False True i q = Inr q' \<and>
    qm_stored q' = Some (JArr [idMapping_json i])"
  using assms by (simp add: registerIdMapping_def queue_initialize_def doInitialize_def persistIdMappings_def Let_def)

text \<open>An entry left in progress is not pending, whatever happens to other entries.\<close>

lemma in_progress_not_pending:
  "sorts sortBy \<Longrightarrow> table_ok (qm_table q) \<Longrightarrow> jm_get (qm_table q) i = Some m \<Longrightarrow> m_status m = IN_PROGRESS \<Longrightarrow>
   getPendingMutations sortBy q = Inr ms \<Longrightarrow> i \<notin> m_id ` set ms"
  by (auto simp: getPendingMutations_def live_def sorts_set t_where_iff table_ok_in split: if_splits)

end
