(* ===== verification/Queue_Processor.thy ===== *)
theory Queue_Processor
  imports Offline_Queue Dependency_Sort Async_Mutex
begin

text \<open>
  The queue processor (\<open>sync-engine/src/queue/processor.ts\<close>): one run of \<open>process\<close> over the queue of
  \<open>Offline_Queue\<close>, in the order of \<open>Dependency_Sort\<close>, with retries and the conflict resolution of
  \<open>Conflict_Resolution\<close>, guarded by the mutex of \<open>Async_Mutex\<close>. The executor, the moments at which \<open>stop\<close> has been called,
  clocks and random numbers are functions of a counter that advances at every call of the
  executor, every test of \<open>shouldStop\<close> and every sleep, so they are arbitrary over a run. The run is the
  only writer of the queue, and database calls succeed. Callbacks and logging are left out; the trace records the
  calls of the executor, the completions and the sleeps.
\<close>

subsection \<open>Environment and state\<close>

record exec_result =
  er_success :: bool
  er_serverId :: "string option"
  er_serverTimestamp :: "ms option"
  er_error :: "string option"
  er_serverData :: jsv

datatype exec_outcome = Returned exec_result | Threw string

record processor_env =
  pe_exec :: "nat \<Rightarrow> mutation \<Rightarrow> exec_outcome"
  pe_stop :: "nat \<Rightarrow> bool"
  pe_now :: "nat \<Rightarrow> ms"
  pe_iso :: "nat \<Rightarrow> string"
  pe_random :: "nat \<Rightarrow> rat"
  pe_store_ok :: "nat \<Rightarrow> bool"
  pe_getTime :: "string \<Rightarrow> ms"
  pe_sortBy :: "mutation list \<Rightarrow> mutation list"
  pe_isEqual :: "jsv \<Rightarrow> jsv \<Rightarrow> bool"
  pe_errorText :: "conflict_error \<Rightarrow> string"

record queue_retry_config =
  rc_maxAttempts :: nat
  rc_initialDelayMs :: rat
  rc_maxDelayMs :: rat
  rc_backoffMultiplier :: rat
  rc_jitter :: bool
  rc_isRetryable :: "string \<Rightarrow> bool"

definition DEFAULT_QUEUE_RETRY_CONFIG :: queue_retry_config where
  "DEFAULT_QUEUE_RETRY_CONFIG =
     \<lparr>rc_maxAttempts = 3, rc_initialDelayMs = 1000, rc_maxDelayMs = 30000, rc_backoffMultiplier = 2,
      rc_jitter = True, rc_isRetryable = (\<lambda>e. True)\<rparr>"

record processor_config =
  pc_batchSize :: nat
  pc_baseDelay :: rat
  pc_autoCleanup :: bool
  pc_retry :: queue_retry_config

definition DEFAULT_BATCH_SIZE :: nat where "DEFAULT_BATCH_SIZE = 10"
definition DEFAULT_DELAY_BETWEEN_MUTATIONS_MS :: rat where "DEFAULT_DELAY_BETWEEN_MUTATIONS_MS = 100"

definition default_processor_config :: processor_config where
  "default_processor_config =
     \<lparr>pc_batchSize = DEFAULT_BATCH_SIZE, pc_baseDelay = DEFAULT_DELAY_BETWEEN_MUTATIONS_MS,
      pc_autoCleanup = True, pc_retry = DEFAULT_QUEUE_RETRY_CONFIG\<rparr>"

record processing_result =
  pr_processed :: nat
  pr_succeeded :: nat
  pr_failed :: nat
  pr_skipped :: nat
  pr_idMappings :: "id_mapping list"

definition empty_result :: processing_result where
  "empty_result = \<lparr>pr_processed = 0, pr_succeeded = 0, pr_failed = 0, pr_skipped = 0, pr_idMappings = []\<rparr>"

datatype proc_event = Called mutation | Completed string | Slept int

record proc_state =
  ps_queue :: queue_manager
  ps_resolver :: conflict_resolver
  ps_result :: processing_result
  ps_clock :: nat
  ps_trace :: "proc_event list"

subsection \<open>State updates\<close>

definition tick :: "proc_state \<Rightarrow> proc_state" where
  "tick st = st\<lparr>ps_clock := ps_clock st + 1\<rparr>"

definition emit :: "proc_event \<Rightarrow> proc_state \<Rightarrow> proc_state" where
  "emit e st = st\<lparr>ps_trace := ps_trace st @ [e]\<rparr>"

definition count_result :: "(processing_result \<Rightarrow> processing_result) \<Rightarrow> proc_state \<Rightarrow> proc_state" where
  "count_result f st = st\<lparr>ps_result := f (ps_result st)\<rparr>"

text \<open>An awaited queue operation; it throws only on a disposed manager, which a run does not start on.\<close>

definition queue_do :: "(queue_manager \<Rightarrow> queue_error + queue_manager) \<Rightarrow> proc_state \<Rightarrow> proc_state" where
  "queue_do f st = (case f (ps_queue st) of Inl e \<Rightarrow> st | Inr q \<Rightarrow> st\<lparr>ps_queue := q\<rparr>)"

definition sleep_for :: "int \<Rightarrow> proc_state \<Rightarrow> proc_state" where
  "sleep_for d st = tick (emit (Slept d) st)"

subsection \<open>Delays\<close>

definition calculateBackoffDelay :: "nat \<Rightarrow> rat \<Rightarrow> rat \<Rightarrow> rat \<Rightarrow> bool \<Rightarrow> rat \<Rightarrow> int" where
  "calculateBackoffDelay attempt initialDelay maxDelay multiplier jitter random =
     (let cappedDelay = min (initialDelay * multiplier ^ attempt) maxDelay
      in if jitter then \<lfloor>cappedDelay + cappedDelay * (1/2) * random\<rfloor> else \<lfloor>cappedDelay\<rfloor>)"

definition retry_delay :: "processor_env \<Rightarrow> processor_config \<Rightarrow> nat \<Rightarrow> proc_state \<Rightarrow> int" where
  "retry_delay env cfg attempt st =
     calculateBackoffDelay attempt (rc_initialDelayMs (pc_retry cfg)) (rc_maxDelayMs (pc_retry cfg))
       (rc_backoffMultiplier (pc_retry cfg)) (rc_jitter (pc_retry cfg)) (pe_random env (ps_clock st))"

definition calculateDelay :: "processor_config \<Rightarrow> nat \<Rightarrow> rat \<Rightarrow> rat" where
  "calculateDelay cfg retryCount random =
     (if retryCount = 0 then pc_baseDelay cfg
      else of_int (calculateBackoffDelay (retryCount - 1) (pc_baseDelay cfg) (rc_maxDelayMs (pc_retry cfg))
             (rc_backoffMultiplier (pc_retry cfg)) (rc_jitter (pc_retry cfg)) random))"

subsection \<open>One mutation\<close>

definition conflict_of :: "mutation \<Rightarrow> jsv \<Rightarrow> ms \<Rightarrow> jsv conflict_context" where
  "conflict_of m data time =
     \<lparr>serverData = data, serverTimestamp = time, clientData = m_payload m, clientTimestamp = m_timestamp m,
      cc_tableName = m_tableName m, cc_entityId = m_entityId m, baseData = m_optimisticData m\<rparr>"

definition detectAndResolveConflict ::
  "processor_env \<Rightarrow> conflict_resolver \<Rightarrow> mutation \<Rightarrow> jsv \<Rightarrow> ms \<Rightarrow> conflict_error + jsv conflict_result option" where
  "detectAndResolveConflict env r m data time =
     (case hasConflict (pe_isEqual env) r data (m_payload m) time (m_timestamp m) of
        Inl e \<Rightarrow> Inl e
      | Inr False \<Rightarrow> Inr None
      | Inr True \<Rightarrow>
          (case resolve (pe_isEqual env) r (conflict_of m data time) of
             Inl e \<Rightarrow> Inl e
           | Inr (result, reviewed) \<Rightarrow> Inr (Some result)))"

fun winner_text :: "conflict_winner \<Rightarrow> string" where
  "winner_text SERVER = ''server''"
| "winner_text CLIENT = ''client''"
| "winner_text MERGED = ''merged''"

definition fail_mutation :: "mutation \<Rightarrow> string \<Rightarrow> proc_state \<Rightarrow> proc_state" where
  "fail_mutation m err st =
     count_result (\<lambda>r. r\<lparr>pr_failed := pr_failed r + 1\<rparr>) (queue_do (markFailed (m_id m) err) st)"

definition apply_resolution :: "mutation \<Rightarrow> jsv conflict_result \<Rightarrow> proc_state \<Rightarrow> proc_state" where
  "apply_resolution m resolution st =
     (if \<not> isPlainObject (resolvedData resolution)
      then fail_mutation m ''Conflict resolution produced non-record payload'' st
      else (case tryToJsonSerializable (resolvedData resolution) of
              None \<Rightarrow> fail_mutation m ''Conflict resolution produced non-serializable payload'' st
            | Some payload \<Rightarrow>
                queue_do (updateStatus (m_id m) PENDING
                  (\<lambda>e. e\<lparr>m_payload := payload, m_retryCount := m_retryCount m + 1,
                       m_lastError := Some (''Conflict resolved (winner: '' @ winner_text (winner resolution) @ '')'')\<rparr>)) st))"

definition complete_mutation :: "processor_env \<Rightarrow> mutation \<Rightarrow> exec_result \<Rightarrow> proc_state \<Rightarrow> proc_state" where
  "complete_mutation env m r st =
     (let st1 = (case er_serverId r of
            Some s \<Rightarrow>
              if m_type m = CREATE \<and> isProvisionalId (m_entityId m) \<and> s \<noteq> []
              then let mapping = \<lparr>im_provisionalId = m_entityId m, im_serverId = s,
                                  im_tableName = m_tableName m, im_mappedAt = pe_iso env (ps_clock st)\<rparr>
                   in count_result (\<lambda>p. p\<lparr>pr_idMappings := pr_idMappings p @ [mapping]\<rparr>)
                        (queue_do (registerIdMapping (pe_getTime env) (pe_now env (ps_clock st)) True
                           (pe_store_ok env (ps_clock st)) mapping) st)
              else st
          | None \<Rightarrow> st)
      in emit (Completed (m_id m))
           (count_result (\<lambda>p. p\<lparr>pr_succeeded := pr_succeeded p + 1\<rparr>)
              (queue_do (markCompleted (m_id m) (er_serverId r)) st1)))"

definition resolved_mutation :: "queue_manager \<Rightarrow> mutation \<Rightarrow> mutation" where
  "resolved_mutation q m =
     m\<lparr>m_entityId := resolveId q (m_entityId m),
       m_payload := (if isPlainObject (m_payload m) then resolvePayloadIds q (m_payload m) else m_payload m)\<rparr>"

text \<open>\<open>Inl\<close> is a thrown error, \<open>Inr\<close> the boolean result.\<close>

definition processMutation :: "processor_env \<Rightarrow> mutation \<Rightarrow> proc_state \<Rightarrow> (string + bool) \<times> proc_state" where
  "processMutation env m st =
     (let st1 = queue_do (markInProgress (m_id m)) st;
          m' = resolved_mutation (ps_queue st1) m;
          outcome = pe_exec env (ps_clock st1) m';
          st2 = tick (emit (Called m') st1);
          failed = (\<lambda>err. (Inr False, fail_mutation m (case err of Some e \<Rightarrow> e | None \<Rightarrow> ''Unknown error'') st2))
      in (case outcome of
            Threw e \<Rightarrow> (Inl e, st2)
          | Returned r \<Rightarrow>
              if er_success r then (Inr True, complete_mutation env m r st2)
              else if js_truthy (er_serverData r) \<and> m_type m = UPDATE
              then (case detectAndResolveConflict env (ps_resolver st2) m (er_serverData r)
                           (case er_serverTimestamp r of Some t \<Rightarrow> t | None \<Rightarrow> pe_now env (ps_clock st2)) of
                      Inl e \<Rightarrow> (Inl (pe_errorText env e), st2)
                    | Inr (Some resolution) \<Rightarrow> (Inr False, apply_resolution m resolution st2)
                    | Inr None \<Rightarrow> failed (er_error r))
              else failed (er_error r)))"

text \<open>The retry loop: \<open>left\<close> attempts remain, the current one has index \<open>attempt\<close>.\<close>

fun processMutationWithRetry ::
  "processor_env \<Rightarrow> processor_config \<Rightarrow> mutation \<Rightarrow> nat \<Rightarrow> nat \<Rightarrow> proc_state \<Rightarrow> bool \<times> proc_state" where
  "processMutationWithRetry env cfg m attempt 0 st = (False, st)"
| "processMutationWithRetry env cfg m attempt (Suc left) st =
     (if pe_stop env (ps_clock st) then (False, tick st)
      else (case processMutation env m (tick st) of
              (Inr b, st1) \<Rightarrow> (b, st1)
            | (Inl e, st1) \<Rightarrow>
                if \<not> rc_isRetryable (pc_retry cfg) e \<or> attempt + 1 \<ge> rc_maxAttempts (pc_retry cfg)
                then (False, fail_mutation m e st1)
                else processMutationWithRetry env cfg m (attempt + 1) left
                       (sleep_for (retry_delay env cfg attempt st1) st1)))"

subsection \<open>The run\<close>

text \<open>The loop over a batch: the completed ids, how many mutations were processable, and the state.\<close>

fun process_batch ::
  "processor_env \<Rightarrow> processor_config \<Rightarrow> mutation list \<Rightarrow> string list \<Rightarrow> nat \<Rightarrow> proc_state \<Rightarrow> string list \<times> nat \<times> proc_state" where
  "process_batch env cfg [] completedIds processable st = (completedIds, processable, st)"
| "process_batch env cfg (m # ms) completedIds processable st =
     (if pe_stop env (ps_clock st) then (completedIds, processable, tick st)
      else if \<not> canProcessMutation m completedIds
      then process_batch env cfg ms completedIds processable
             (count_result (\<lambda>r. r\<lparr>pr_skipped := pr_skipped r + 1\<rparr>) (tick st))
      else let r = processMutationWithRetry env cfg m 0 (rc_maxAttempts (pc_retry cfg)) (tick st);
               st1 = count_result (\<lambda>p. p\<lparr>pr_processed := pr_processed p + 1\<rparr>) (snd r);
               delay = calculateDelay cfg (m_retryCount m) (pe_random env (ps_clock st1))
           in process_batch env cfg ms (if fst r then js_add (m_id m) completedIds else completedIds) (processable + 1)
                (if delay > 0 then sleep_for \<lfloor>delay\<rfloor> st1 else st1))"

definition unprocessable_reason :: "mutation list \<Rightarrow> string" where
  "unprocessable_reason pending =
     (if hasCircularDependency m_id deps_of pending then ''Cyclic mutation dependencies detected''
      else ''Unresolvable mutation dependencies detected'')"

definition fail_unprocessable :: "string \<Rightarrow> mutation \<Rightarrow> proc_state \<Rightarrow> proc_state" where
  "fail_unprocessable reason m st =
     count_result (\<lambda>r. r\<lparr>pr_failed := pr_failed r + 1, pr_processed := pr_processed r + 1\<rparr>)
       (queue_do (updateStatus (m_id m) FAILED (\<lambda>e. e\<lparr>m_lastError := Some reason\<rparr>)) st)"

definition failUnprocessableMutations :: "mutation list \<Rightarrow> proc_state \<Rightarrow> proc_state" where
  "failUnprocessableMutations pending st = fold (fail_unprocessable (unprocessable_reason pending)) pending st"

definition pending_of :: "processor_env \<Rightarrow> proc_state \<Rightarrow> mutation list" where
  "pending_of env st =
     (case getPendingMutations (pe_sortBy env) (ps_queue st) of Inl e \<Rightarrow> [] | Inr ms \<Rightarrow> ms)"

text \<open>The \<open>while\<close> loop; \<open>None\<close> when the fuel is used up before the loop ends.\<close>

fun process_loop ::
  "nat \<Rightarrow> processor_env \<Rightarrow> processor_config \<Rightarrow> mutation list \<Rightarrow> string list \<Rightarrow> proc_state \<Rightarrow> proc_state option" where
  "process_loop 0 env cfg pending completedIds st = None"
| "process_loop (Suc n) env cfg pending completedIds st =
     (if pending = [] then Some st
      else if pe_stop env (ps_clock st) then Some (tick st)
      else let batch = take (pc_batchSize cfg) (topologicalSort m_id deps_of pending);
               r = process_batch env cfg batch completedIds 0 (tick st);
               st1 = snd (snd r);
               pending' = pending_of env st1
           in if \<not> pe_stop env (ps_clock st1) \<and> pending' \<noteq> [] \<and> fst (snd r) = 0
              then Some (failUnprocessableMutations pending' (tick st1))
              else process_loop n env cfg pending' (fst r) (tick st1))"

definition cleanupCompleted :: "proc_state \<Rightarrow> proc_state" where
  "cleanupCompleted st = queue_do (\<lambda>q. map_sum id snd (deleteCompleted q)) st"

record queue_processor =
  qp_mutex :: mutex
  qp_isProcessing :: bool
  qp_disposed :: bool

definition new_processor :: queue_processor where
  "new_processor = \<lparr>qp_mutex = new_mutex, qp_isProcessing = False, qp_disposed = False\<rparr>"

datatype processor_error = ProcessorDisposed | ProcessorQueue queue_error

text \<open>
  \<open>process\<close>: outside the option, fuel; the left half is a thrown error. The \<open>finally\<close> block releases
  the mutex in every case.
\<close>

definition process ::
  "nat \<Rightarrow> processor_env \<Rightarrow> processor_config \<Rightarrow> queue_processor \<Rightarrow> proc_state \<Rightarrow>
   ((processor_error + processing_result) \<times> queue_processor \<times> proc_state) option" where
  "process n env cfg p st =
     (if qp_disposed p then Some (Inl ProcessorDisposed, p, st)
      else (case mx_tryAcquire (qp_mutex p) of
              (False, mx) \<Rightarrow> Some (Inr empty_result, p\<lparr>qp_mutex := mx\<rparr>, st)
            | (True, mx) \<Rightarrow>
                let p' = p\<lparr>qp_mutex := snd (mx_release mx), qp_isProcessing := False\<rparr>;
                    st1 = st\<lparr>ps_result := empty_result,
                             ps_queue := queue_initialize (pe_getTime env) (pe_now env (ps_clock st)) True
                               (pe_store_ok env (ps_clock st)) (ps_queue st)\<rparr>
                in (case getPendingMutations (pe_sortBy env) (ps_queue st1) of
                      Inl e \<Rightarrow> Some (Inl (ProcessorQueue e), p', st1)
                    | Inr pending \<Rightarrow>
                        (case process_loop n env cfg pending [] st1 of
                           None \<Rightarrow> None
                         | Some st2 \<Rightarrow>
                             let st3 = (if pc_autoCleanup cfg \<and> pr_succeeded (ps_result st2) > 0
                                        then cleanupCompleted st2 else st2)
                             in Some (Inr (ps_result st3), p', st3)))))"

subsection \<open>What one step may change\<close>

abbreviation tab :: "proc_state \<Rightarrow> mutation_table" where
  "tab st \<equiv> qm_table (ps_queue st)"

named_theorems proc_simps \<open>fields of a state after the elementary updates\<close>

lemma tick_fields [simp, proc_simps]:
  "ps_queue (tick st) = ps_queue st" "ps_resolver (tick st) = ps_resolver st"
  "ps_result (tick st) = ps_result st" "ps_trace (tick st) = ps_trace st"
  by (simp_all add: tick_def)

lemma emit_fields [simp, proc_simps]:
  "ps_queue (emit e st) = ps_queue st" "ps_resolver (emit e st) = ps_resolver st"
  "ps_result (emit e st) = ps_result st" "ps_trace (emit e st) = ps_trace st @ [e]"
  by (simp_all add: emit_def)

lemma count_result_fields [simp, proc_simps]:
  "ps_queue (count_result f st) = ps_queue st" "ps_resolver (count_result f st) = ps_resolver st"
  "ps_result (count_result f st) = f (ps_result st)" "ps_trace (count_result f st) = ps_trace st"
  by (simp_all add: count_result_def)

lemma queue_do_fields [simp, proc_simps]:
  "ps_resolver (queue_do f st) = ps_resolver st" "ps_result (queue_do f st) = ps_result st"
  "ps_trace (queue_do f st) = ps_trace st"
  by (simp_all add: queue_do_def split: sum.split)

lemma sleep_for_fields [simp, proc_simps]:
  "ps_queue (sleep_for d st) = ps_queue st" "ps_resolver (sleep_for d st) = ps_resolver st"
  "ps_result (sleep_for d st) = ps_result st" "ps_trace (sleep_for d st) = ps_trace st @ [Slept d]"
  by (simp_all add: sleep_for_def)

text \<open>What stays the same of an entry over its whole life in the queue.\<close>

definition same_mutation :: "mutation \<Rightarrow> mutation \<Rightarrow> bool" where
  "same_mutation m m' \<longleftrightarrow> m_id m' = m_id m \<and> m_type m' = m_type m \<and> m_tableName m' = m_tableName m \<and>
     m_entityId m' = m_entityId m \<and> m_dependsOn m' = m_dependsOn m \<and> m_timestamp m' = m_timestamp m"

lemma same_mutation_refl [simp]: "same_mutation m m"
  by (simp add: same_mutation_def)

lemma same_mutation_trans: "same_mutation m m' \<Longrightarrow> same_mutation m' m'' \<Longrightarrow> same_mutation m m''"
  by (simp add: same_mutation_def)

text \<open>A step on entry \<open>i\<close>: other entries are untouched, no entry appears or disappears.\<close>

definition frame :: "string set \<Rightarrow> proc_state \<Rightarrow> proc_state \<Rightarrow> bool" where
  "frame I st st' \<longleftrightarrow>
     (\<forall>j. j \<notin> I \<longrightarrow> jm_get (tab st') j = jm_get (tab st) j) \<and>
     (\<forall>j. rel_option same_mutation (jm_get (tab st) j) (jm_get (tab st') j)) \<and>
     (table_ok (tab st) \<longrightarrow> table_ok (tab st')) \<and>
     qm_maxRetries (ps_queue st') = qm_maxRetries (ps_queue st) \<and>
     qm_disposed (ps_queue st') = qm_disposed (ps_queue st) \<and> ps_resolver st' = ps_resolver st"

lemma frame_refl: "frame I st st"
  by (simp add: frame_def option.rel_refl)

lemma same_option_trans:
  "rel_option same_mutation a b \<Longrightarrow> rel_option same_mutation b c \<Longrightarrow> rel_option same_mutation a c"
  by (cases a; cases b; cases c) (auto intro: same_mutation_trans)

lemma frame_trans:
  assumes "frame I st st'" and "frame J st' st''"
  shows "frame (I \<union> J) st st''"
proof -
  have "rel_option same_mutation (jm_get (tab st) j) (jm_get (tab st'') j)" for j
    using assms same_option_trans unfolding frame_def by blast
  with assms show ?thesis unfolding frame_def by simp
qed

lemma frame_trans1: "frame I st st' \<Longrightarrow> frame I st' st'' \<Longrightarrow> frame I st st''"
  using frame_trans [of I st st' I st''] by simp

lemma frame_queue: "ps_queue st' = ps_queue st \<Longrightarrow> ps_resolver st' = ps_resolver st \<Longrightarrow> frame I st st'"
  by (simp add: frame_def option.rel_refl)

lemma frame_mono: "frame I st st' \<Longrightarrow> I \<subseteq> J \<Longrightarrow> frame J st st'"
  by (auto simp: frame_def)

lemma frame_updateStatus:
  assumes "\<And>m. same_mutation m (f (m\<lparr>m_status := s\<rparr>))"
  shows "frame {i} st (queue_do (updateStatus i s f) st)"
proof -
  have i: "m_id (f (m\<lparr>m_status := s\<rparr>)) = m_id m" for m using assms [of m] by (simp add: same_mutation_def)
  show ?thesis
    using assms table_ok_update [of "tab st" "\<lambda>m. f (m\<lparr>m_status := s\<rparr>)" i] i
    by (auto simp: frame_def queue_do_def updateStatus_def live_def option.rel_refl option_rel_Some1 rel_option_iff
        split: option.split)
qed

lemma frame_markFailed: "frame {i} st (queue_do (markFailed i err) st)"
proof (cases "qm_disposed (ps_queue st) \<or> jm_get (tab st) i = None")
  case True
  then have "queue_do (markFailed i err) st = st" by (auto simp: queue_do_def markFailed_def)
  then show ?thesis by (simp add: frame_refl)
next
  case False
  then obtain m where m: "\<not> qm_disposed (ps_queue st)" "jm_get (tab st) i = Some m" by auto
  then have "queue_do (markFailed i err) st =
      queue_do (updateStatus i (if m_retryCount m + 1 \<ge> qm_maxRetries (ps_queue st) then FAILED else PENDING)
        (\<lambda>e. e\<lparr>m_retryCount := m_retryCount m + 1, m_lastError := Some err\<rparr>)) st"
    by (simp add: queue_do_def markFailed_def Let_def)
  then show ?thesis by (simp add: frame_updateStatus same_mutation_def)
qed

lemma registerIdMapping_table:
  "registerIdMapping getTime now r w i q = Inr q' \<Longrightarrow>
   qm_table q' = qm_table q \<and> qm_maxRetries q' = qm_maxRetries q \<and> qm_disposed q' = qm_disposed q"
  by (auto simp: registerIdMapping_def Let_def persistIdMappings_def cleanupIdMappings_def split: if_splits)

lemma frame_register: "frame I st (queue_do (registerIdMapping getTime now r w i) st)"
  by (auto simp: frame_def queue_do_def option.rel_refl dest: registerIdMapping_table split: sum.split)

lemma frame_fail_mutation: "frame {m_id m} st (fail_mutation m err st)"
  unfolding fail_mutation_def by (rule frame_trans1 [OF frame_markFailed frame_queue]) simp_all

lemma frame_apply_resolution: "frame {m_id m} st (apply_resolution m r st)"
  unfolding apply_resolution_def
  by (auto simp: frame_fail_mutation same_mutation_def intro!: frame_updateStatus split: option.split)

lemma frame_complete_mutation: "frame {m_id m} st (complete_mutation env m r st)"
proof -
  have last_step: "frame {m_id m} st1 (emit (Completed (m_id m))
      (count_result f (queue_do (markCompleted (m_id m) s) st1)))" for st1 f s
    unfolding markCompleted_def
    by (rule frame_trans1 [OF frame_updateStatus frame_queue]) (simp_all add: same_mutation_def)
  show ?thesis
    unfolding complete_mutation_def Let_def
    by (rule frame_trans1 [OF _ last_step], cases "er_serverId r")
      (auto intro: frame_refl frame_trans1 [OF frame_register frame_queue])
qed

lemma frame_processMutation: "frame {m_id m} st (snd (processMutation env m st))"
proof -
  define st1 where "st1 = queue_do (markInProgress (m_id m)) st"
  define m' where "m' = resolved_mutation (ps_queue st1) m"
  define st2 where "st2 = tick (emit (Called m') st1)"
  have "frame {m_id m} st st1"
    unfolding st1_def markInProgress_def by (rule frame_updateStatus) (simp add: same_mutation_def)
  then have 2: "frame {m_id m} st st2"
    by (rule frame_trans1 [OF _ frame_queue]) (simp_all add: st2_def)
  have "frame {m_id m} st2 (snd (processMutation env m st))"
    unfolding processMutation_def Let_def st1_def [symmetric] m'_def [symmetric] st2_def [symmetric]
    by (auto split: exec_outcome.split sum.split option.split
        intro: frame_refl frame_fail_mutation frame_apply_resolution frame_complete_mutation)
  with 2 show ?thesis by (rule frame_trans1)
qed

text \<open>The four ways through the body of the retry loop.\<close>

lemma retry_cases:
  fixes env cfg m attempt left st
  defines "res \<equiv> processMutationWithRetry env cfg m attempt (Suc left) st"
  obtains (stop) "pe_stop env (ps_clock st)" "res = (False, tick st)"
  | (result) b st1 where "\<not> pe_stop env (ps_clock st)" "processMutation env m (tick st) = (Inr b, st1)" "res = (b, st1)"
  | (final) e st1 where "\<not> pe_stop env (ps_clock st)" "processMutation env m (tick st) = (Inl e, st1)"
      "\<not> rc_isRetryable (pc_retry cfg) e \<or> attempt + 1 \<ge> rc_maxAttempts (pc_retry cfg)"
      "res = (False, fail_mutation m e st1)"
  | (again) e st1 where "\<not> pe_stop env (ps_clock st)" "processMutation env m (tick st) = (Inl e, st1)"
      "attempt + 1 < rc_maxAttempts (pc_retry cfg)"
      "res = processMutationWithRetry env cfg m (attempt + 1) left (sleep_for (retry_delay env cfg attempt st1) st1)"
proof (cases "pe_stop env (ps_clock st)")
  case True
  then show ?thesis by (intro stop) (simp_all add: res_def)
next
  case False
  obtain r st1 where p: "processMutation env m (tick st) = (r, st1)" by fastforce
  show ?thesis
  proof (cases r)
    case (Inl e)
    then show ?thesis
      using False p final [of e st1] again [of e st1]
      by (cases "\<not> rc_isRetryable (pc_retry cfg) e \<or> attempt + 1 \<ge> rc_maxAttempts (pc_retry cfg)")
        (auto simp: res_def)
  next
    case (Inr b)
    then show ?thesis using False p result [of b st1] by (auto simp: res_def)
  qed
qed

lemma frame_retry: "frame {m_id m} st (snd (processMutationWithRetry env cfg m attempt left st))"
proof (induction left arbitrary: attempt st)
  case (Suc left)
  have p: "frame {m_id m} st (snd (processMutation env m (tick st)))"
    by (rule frame_trans1 [OF frame_queue frame_processMutation]) simp_all
  show ?case
  proof (cases rule: retry_cases [of env st cfg m attempt left])
    case stop
    then show ?thesis by (simp add: frame_queue)
  next
    case (result b st1)
    with p show ?thesis by simp
  next
    case (final e st1)
    with frame_trans1 [OF p frame_fail_mutation] show ?thesis by simp
  next
    case (again e st1)
    have "frame {m_id m} st (sleep_for (retry_delay env cfg attempt st1) st1)"
      by (rule frame_trans1 [OF p frame_queue]) (simp_all add: again(2))
    then show ?thesis unfolding again(4) by (rule frame_trans1 [OF _ Suc.IH])
  qed
qed (simp add: frame_refl)

subsection \<open>Sample runs\<close>

definition entry :: "string \<Rightarrow> ms \<Rightarrow> mutation_status \<Rightarrow> string list \<Rightarrow> mutation" where
  "entry i time st deps =
     \<lparr>m_id = i, m_idempotencyKey = i, m_timestamp = time, m_status = st, m_type = UPDATE,
      m_tableName = ''notes'', m_entityId = ''7'', m_payload = JObj [(''a'', JNum 1)],
      m_optimisticData = None, m_previousData = None, m_retryCount = 0, m_lastError = None, m_serverId = None,
      m_invalidateKeys = None, m_dependsOn = Some deps, m_conflictStrategy = None\<rparr>"

definition sample_result :: "bool \<Rightarrow> jsv \<Rightarrow> exec_result" where
  "sample_result ok server =
     \<lparr>er_success = ok, er_serverId = None, er_serverTimestamp = Some 1000, er_error = None, er_serverData = server\<rparr>"

definition sample_env :: "exec_outcome \<Rightarrow> processor_env" where
  "sample_env answer =
     \<lparr>pe_exec = (\<lambda>t m. answer), pe_stop = (\<lambda>t. False), pe_now = (\<lambda>t. 0), pe_iso = (\<lambda>t. []),
      pe_random = (\<lambda>t. 0), pe_store_ok = (\<lambda>t. True), pe_getTime = (\<lambda>s. 0),
      pe_sortBy = sort_key m_timestamp, pe_isEqual = (=), pe_errorText = (\<lambda>e. [])\<rparr>"

definition sample_config :: "nat \<Rightarrow> processor_config" where
  "sample_config batch = default_processor_config\<lparr>pc_batchSize := batch, pc_baseDelay := 0\<rparr>"

definition sample_state :: "mutation list \<Rightarrow> proc_state" where
  "sample_state ms =
     \<lparr>ps_queue = new_queue_manager (map (\<lambda>m. (m_id m, m)) ms) None None None None,
      ps_resolver = new_resolver None None None None False, ps_result = empty_result, ps_clock = 0, ps_trace = []\<rparr>"

definition called :: "proc_event list \<Rightarrow> string list" where
  "called tr = concat (map (\<lambda>e. case e of Called m \<Rightarrow> [m_id m] | _ \<Rightarrow> []) tr)"

text \<open>What is observed of a run: its result, the calls, and what is left in the table.\<close>

definition observe ::
  "((processor_error + processing_result) \<times> queue_processor \<times> proc_state) option \<Rightarrow>
   (bool \<times> string list \<times> (string \<times> mutation_status) list) option" where
  "observe r = map_option (\<lambda>(r, p, st). (\<not> isl r, called (ps_trace st),
     map (\<lambda>(k, m). (k, m_status m)) (tab st))) r"

subsection \<open>The trace and the counters\<close>

definition completions :: "proc_event list \<Rightarrow> string list" where
  "completions tr = concat (map (\<lambda>e. case e of Completed i \<Rightarrow> [i] | _ \<Rightarrow> []) tr)"

lemma completions_append [simp]: "completions (xs @ ys) = completions xs @ completions ys"
  by (simp add: completions_def)

lemma completions_simps [simp]:
  "completions [] = []" "completions (Called m # tr) = completions tr"
  "completions (Completed i # tr) = i # completions tr" "completions (Slept d # tr) = completions tr"
  by (simp_all add: completions_def)

definition only_calls :: "mutation \<Rightarrow> proc_event list \<Rightarrow> bool" where
  "only_calls m tr \<longleftrightarrow> (\<forall>m'. Called m' \<in> set tr \<longrightarrow> m_id m' = m_id m \<and> m_dependsOn m' = m_dependsOn m)"

lemma only_calls_simps [simp]:
  "only_calls m []" "only_calls m (xs @ ys) \<longleftrightarrow> only_calls m xs \<and> only_calls m ys"
  "only_calls m (Completed i # tr) \<longleftrightarrow> only_calls m tr" "only_calls m (Slept d # tr) \<longleftrightarrow> only_calls m tr"
  "only_calls m (Called m' # tr) \<longleftrightarrow> m_id m' = m_id m \<and> m_dependsOn m' = m_dependsOn m \<and> only_calls m tr"
  by (auto simp: only_calls_def)

text \<open>
  What an attempt at \<open>m\<close> does to the trace and the counters, by its result: \<open>None\<close> for a thrown
  error that is still to be handled.
\<close>

definition attempt_effect :: "mutation \<Rightarrow> bool option \<Rightarrow> proc_state \<Rightarrow> proc_state \<Rightarrow> bool" where
  "attempt_effect m r st st' \<longleftrightarrow>
     (\<exists>tr. ps_trace st' = ps_trace st @ tr \<and> only_calls m tr \<and>
        completions tr = (if r = Some True then [m_id m] else [])) \<and>
     pr_succeeded (ps_result st') = pr_succeeded (ps_result st) + (if r = Some True then 1 else 0) \<and>
     pr_failed (ps_result st') \<le> pr_failed (ps_result st) + (if r = Some False then 1 else 0) \<and>
     pr_processed (ps_result st') = pr_processed (ps_result st)"

lemma attempt_effect_trans: "attempt_effect m None st st' \<Longrightarrow> attempt_effect m r st' st'' \<Longrightarrow> attempt_effect m r st st''"
  unfolding attempt_effect_def by fastforce

lemma attempt_effect_same:
  "ps_trace st' = ps_trace st \<Longrightarrow> ps_result st' = ps_result st \<Longrightarrow> attempt_effect m (Some False) st st'"
  "ps_trace st' = ps_trace st \<Longrightarrow> ps_result st' = ps_result st \<Longrightarrow> attempt_effect m None st st'"
  by (auto simp: attempt_effect_def)

lemma attempt_effect_fail: "attempt_effect m (Some False) st (fail_mutation m e st)"
  by (auto simp: attempt_effect_def fail_mutation_def)

lemma attempt_effect_apply: "attempt_effect m (Some False) st (apply_resolution m r st)"
  by (auto simp: apply_resolution_def attempt_effect_fail intro: attempt_effect_same split: option.split)

lemma attempt_effect_complete: "attempt_effect m (Some True) st (complete_mutation env m r st)"
  by (auto simp: attempt_effect_def complete_mutation_def Let_def split: option.split)

lemma attempt_effect_process:
  "attempt_effect m (case fst (processMutation env m st) of Inl e \<Rightarrow> None | Inr b \<Rightarrow> Some b)
     st (snd (processMutation env m st))"
proof -
  define st1 where "st1 = queue_do (markInProgress (m_id m)) st"
  define m' where "m' = resolved_mutation (ps_queue st1) m"
  define st2 where "st2 = tick (emit (Called m') st1)"
  have 2: "attempt_effect m None st st2"
    by (auto simp: attempt_effect_def st2_def st1_def m'_def resolved_mutation_def)
  have "attempt_effect m (case fst (processMutation env m st) of Inl e \<Rightarrow> None | Inr b \<Rightarrow> Some b)
      st2 (snd (processMutation env m st))"
    unfolding processMutation_def Let_def st1_def [symmetric] m'_def [symmetric] st2_def [symmetric]
    by (auto split: exec_outcome.split sum.split option.split
        intro: attempt_effect_same attempt_effect_fail attempt_effect_apply attempt_effect_complete)
  with 2 show ?thesis by (rule attempt_effect_trans)
qed

lemma attempt_effect_retry:
  "attempt_effect m (Some (fst (processMutationWithRetry env cfg m attempt left st))) st
     (snd (processMutationWithRetry env cfg m attempt left st))"
proof (induction left arbitrary: attempt st)
  case (Suc left)
  have t: "attempt_effect m None st (tick st)" by (rule attempt_effect_same) simp_all
  note p = attempt_effect_trans [OF t attempt_effect_process [of m env "tick st"]]
  show ?case
  proof (cases rule: retry_cases [of env st cfg m attempt left])
    case stop
    then show ?thesis by (simp add: attempt_effect_same)
  next
    case (result b st1)
    with p show ?thesis by simp
  next
    case (final e st1)
    with attempt_effect_trans [OF _ attempt_effect_fail] p show ?thesis by simp
  next
    case (again e st1)
    have "attempt_effect m None st1 (sleep_for d st1)" for d by (simp add: attempt_effect_def)
    with p again(2) have "attempt_effect m None st (sleep_for (retry_delay env cfg attempt st1) st1)"
      by (auto intro: attempt_effect_trans)
    then show ?thesis unfolding again(4) by (rule attempt_effect_trans [OF _ Suc.IH])
  qed
qed (simp add: attempt_effect_same)

subsection \<open>The run keeps its promises\<close>

text \<open>The executor is called only on mutations whose dependencies have all completed before in the run.\<close>

definition deps_before :: "proc_event list \<Rightarrow> bool" where
  "deps_before tr \<longleftrightarrow>
     (\<forall>xs m ys. tr = xs @ Called m # ys \<longrightarrow> set (deps_of m) \<subseteq> set (completions xs))"

lemma deps_before_Nil [simp]: "deps_before []"
  by (simp add: deps_before_def)

lemma deps_before_append:
  assumes "deps_before tr" and "only_calls m tr'" and "set (deps_of m) \<subseteq> set (completions tr)"
  shows "deps_before (tr @ tr')"
  unfolding deps_before_def
proof (intro allI impI)
  fix xs m' ys assume eq: "tr @ tr' = xs @ Called m' # ys"
  then consider us where "tr = xs @ us" "us @ tr' = Called m' # ys" | us where "xs = tr @ us" "tr' = us @ Called m' # ys"
    by (auto simp: append_eq_append_conv2)
  then show "set (deps_of m') \<subseteq> set (completions xs)"
  proof cases
    case (1 us)
    show ?thesis
    proof (cases us)
      case Nil
      with 1 have "Called m' \<in> set tr'" "xs = tr" by auto
      with assms(2,3) show ?thesis by (auto simp: only_calls_def deps_of_def)
    next
      case (Cons u us')
      with 1 have "tr = xs @ Called m' # us'" by simp
      with assms(1) show ?thesis by (auto simp: deps_before_def)
    qed
  next
    case (2 us)
    then have "Called m' \<in> set tr'" by simp
    with assms(2,3) 2(1) show ?thesis by (auto simp: only_calls_def deps_of_def)
  qed
qed

definition run_ok :: "string list \<Rightarrow> proc_state \<Rightarrow> bool" where
  "run_ok completedIds st \<longleftrightarrow>
     deps_before (ps_trace st) \<and> set completedIds \<subseteq> set (completions (ps_trace st)) \<and>
     pr_succeeded (ps_result st) = length (completions (ps_trace st)) \<and>
     pr_succeeded (ps_result st) + pr_failed (ps_result st) \<le> pr_processed (ps_result st)"

lemma run_ok_quiet:
  "run_ok ids st \<Longrightarrow> deps_before (ps_trace st') = deps_before (ps_trace st) \<Longrightarrow>
   completions (ps_trace st') = completions (ps_trace st) \<Longrightarrow>
   pr_succeeded (ps_result st') = pr_succeeded (ps_result st) \<Longrightarrow>
   pr_failed (ps_result st') = pr_failed (ps_result st) \<Longrightarrow>
   pr_processed (ps_result st') = pr_processed (ps_result st) \<Longrightarrow> run_ok ids st'"
  by (simp add: run_ok_def)

lemma run_ok_tick [simp]: "run_ok ids (tick st) = run_ok ids st"
  by (simp add: run_ok_def)

lemma deps_before_slept [simp]: "deps_before (tr @ [Slept d]) = deps_before tr"
proof
  show "deps_before (tr @ [Slept d]) \<Longrightarrow> deps_before tr"
    unfolding deps_before_def by (metis append.assoc append_Cons)
  show "deps_before tr \<Longrightarrow> deps_before (tr @ [Slept d])"
    unfolding deps_before_def by (auto simp: append_eq_append_conv2 append_eq_Cons_conv Cons_eq_append_conv)
qed

lemma run_ok_sleep [simp]: "run_ok ids (sleep_for d st) = run_ok ids st"
  by (simp add: run_ok_def)

lemma run_ok_batch:
  "run_ok ids st \<Longrightarrow> run_ok (fst (process_batch env cfg ms ids k st)) (snd (snd (process_batch env cfg ms ids k st)))"
proof (induction env cfg ms ids k st rule: process_batch.induct)
  case (2 env cfg m ms ids k st)
  show ?case
  proof (cases "pe_stop env (ps_clock st)")
    case True
    with 2(3) show ?thesis by simp
  next
    case go: False
    show ?thesis
    proof (cases "canProcessMutation m ids")
      case False
      have "run_ok ids (count_result (\<lambda>r. r\<lparr>pr_skipped := pr_skipped r + 1\<rparr>) (tick st))"
        by (rule run_ok_quiet [OF 2(3)]) simp_all
      with 2(1) [OF go] False go show ?thesis by simp
    next
      case True
      define r where "r = processMutationWithRetry env cfg m 0 (rc_maxAttempts (pc_retry cfg)) (tick st)"
      define st1 where "st1 = count_result (\<lambda>p. p\<lparr>pr_processed := pr_processed p + 1\<rparr>) (snd r)"
      define d where "d = calculateDelay cfg (m_retryCount m) (pe_random env (ps_clock st1))"
      define ids' where "ids' = (if fst r then js_add (m_id m) ids else ids)"
      define st2 where "st2 = (if d > 0 then sleep_for \<lfloor>d\<rfloor> st1 else st1)"
      have eq: "process_batch env cfg (m # ms) ids k st = process_batch env cfg ms ids' (k + 1) st2"
        using go True by (simp add: r_def st1_def d_def ids'_def st2_def Let_def)
      obtain tr where tr: "ps_trace (snd r) = ps_trace st @ tr" "only_calls m tr"
          "completions tr = (if fst r then [m_id m] else [])"
        and n: "pr_succeeded (ps_result (snd r)) = pr_succeeded (ps_result st) + (if fst r then 1 else 0)"
          "pr_failed (ps_result (snd r)) \<le> pr_failed (ps_result st) + (if fst r then 0 else 1)"
          "pr_processed (ps_result (snd r)) = pr_processed (ps_result st)"
        using attempt_effect_retry [of m env cfg 0 "rc_maxAttempts (pc_retry cfg)" "tick st"]
        unfolding r_def [symmetric] attempt_effect_def by (auto split: if_splits)
      have "set (deps_of m) \<subseteq> set (completions (ps_trace st))"
        using True 2(3) by (auto simp: canProcessMutation_iff run_ok_def)
      with 2(3) tr(2) have "deps_before (ps_trace st @ tr)" by (auto simp: run_ok_def intro: deps_before_append)
      then have "run_ok ids' st1" using 2(3) tr n by (auto simp: run_ok_def st1_def ids'_def)
      then have "run_ok ids' st2" by (simp add: st2_def)
      then show ?thesis
        unfolding eq using 2(2) [OF go _ r_def st1_def d_def] True by (simp add: ids'_def st2_def)
    qed
  qed
qed simp

lemma run_ok_fail_unprocessable: "run_ok ids st \<Longrightarrow> run_ok ids (fail_unprocessable reason m st)"
  by (simp add: run_ok_def fail_unprocessable_def)

lemma run_ok_failUnprocessable: "run_ok ids st \<Longrightarrow> run_ok ids (failUnprocessableMutations pending st)"
proof -
  have "run_ok ids st \<Longrightarrow> run_ok ids (fold (fail_unprocessable reason) ms st)" for reason ms
    by (induction ms arbitrary: st) (simp_all add: run_ok_fail_unprocessable)
  then show "run_ok ids st \<Longrightarrow> run_ok ids (failUnprocessableMutations pending st)"
    by (simp add: failUnprocessableMutations_def)
qed

lemma process_loop_step:
  assumes "pending \<noteq> []" and "\<not> pe_stop env (ps_clock st)"
    and "r = process_batch env cfg (take (pc_batchSize cfg) (topologicalSort m_id deps_of pending)) ids 0 (tick st)"
  shows "process_loop (Suc n) env cfg pending ids st =
    (if \<not> pe_stop env (ps_clock (snd (snd r))) \<and> pending_of env (snd (snd r)) \<noteq> [] \<and> fst (snd r) = 0
     then Some (failUnprocessableMutations (pending_of env (snd (snd r))) (tick (snd (snd r))))
     else process_loop n env cfg (pending_of env (snd (snd r))) (fst r) (tick (snd (snd r))))"
  using assms by (simp add: Let_def)

lemma if_Some_cases: "(if c then Some x else y) = Some z \<Longrightarrow> c \<and> x = z \<or> \<not> c \<and> y = Some z"
  by (cases c) auto

text \<open>The ways a round of the \<open>while\<close> loop ends, when the run returns.\<close>

lemma process_loop_cases:
  assumes "process_loop (Suc n) env cfg pending ids st = Some st'"
  obtains (ended) "pending = []" "st' = st"
  | (stopped) "pe_stop env (ps_clock st)" "st' = tick st"
  | (stuck) r where "pending \<noteq> []" "\<not> pe_stop env (ps_clock st)"
      "r = process_batch env cfg (take (pc_batchSize cfg) (topologicalSort m_id deps_of pending)) ids 0 (tick st)"
      "fst (snd r) = 0" "st' = failUnprocessableMutations (pending_of env (snd (snd r))) (tick (snd (snd r)))"
  | (again) r where "pending \<noteq> []" "\<not> pe_stop env (ps_clock st)"
      "r = process_batch env cfg (take (pc_batchSize cfg) (topologicalSort m_id deps_of pending)) ids 0 (tick st)"
      "process_loop n env cfg (pending_of env (snd (snd r))) (fst r) (tick (snd (snd r))) = Some st'"
proof (cases "pending = [] \<or> pe_stop env (ps_clock st)")
  case True
  show ?thesis
  proof (cases "pending = []")
    case True
    with assms have "st' = st" by simp
    with True show ?thesis by (rule ended)
  next
    case False
    with True have stop: "pe_stop env (ps_clock st)" by simp
    with assms False have "st' = tick st" by simp
    with stop show ?thesis by (rule stopped)
  qed
next
  case False
  define r where "r = process_batch env cfg (take (pc_batchSize cfg) (topologicalSort m_id deps_of pending)) ids 0 (tick st)"
  have "pending \<noteq> []" "\<not> pe_stop env (ps_clock st)" using False by simp_all
  note step = process_loop_step [OF this r_def, of n]
  from if_Some_cases [OF trans [OF step [symmetric] assms]] show ?thesis
  proof (elim disjE conjE)
    assume "failUnprocessableMutations (pending_of env (snd (snd r))) (tick (snd (snd r))) = st'" "fst (snd r) = 0"
    with False show ?thesis by (intro stuck [OF _ _ r_def]) simp_all
  next
    assume "process_loop n env cfg (pending_of env (snd (snd r))) (fst r) (tick (snd (snd r))) = Some st'"
    with False show ?thesis by (intro again [OF _ _ r_def]) simp_all
  qed
qed

lemma run_ok_loop:
  "run_ok ids st \<Longrightarrow> process_loop n env cfg pending ids st = Some st' \<Longrightarrow> \<exists>ids'. run_ok ids' st'"
proof (induction n arbitrary: pending ids st)
  case (Suc n)
  note batch = run_ok_batch [of ids "tick st" env cfg "take (pc_batchSize cfg) (topologicalSort m_id deps_of pending)" 0]
  from Suc.prems(2) show ?case
  proof (cases rule: process_loop_cases)
    case (stuck r)
    with batch Suc.prems(1) have "run_ok (fst r) (tick (snd (snd r)))" by simp
    then show ?thesis unfolding stuck(5) using run_ok_failUnprocessable by blast
  next
    case (again r)
    with batch Suc.prems(1) have "run_ok (fst r) (tick (snd (snd r)))" by simp
    from Suc.IH [OF this again(4)] show ?thesis .
  qed (use Suc.prems(1) in auto)
qed simp

lemma process_cases:
  assumes "process n env cfg p st = Some (Inr res, p', st')" and "\<not> mx_locked (qp_mutex p)"
  obtains st1 st2 pending where "ps_trace st1 = ps_trace st" "ps_result st1 = empty_result" "ps_clock st1 = ps_clock st"
    "ps_queue st1 = queue_initialize (pe_getTime env) (pe_now env (ps_clock st)) True
       (pe_store_ok env (ps_clock st)) (ps_queue st)"
    "getPendingMutations (pe_sortBy env) (ps_queue st1) = Inr pending"
    "process_loop n env cfg pending [] st1 = Some st2"
    "st' = (if pc_autoCleanup cfg \<and> pr_succeeded (ps_result st2) > 0 then cleanupCompleted st2 else st2)"
    "res = ps_result st'"
proof -
  have nd: "\<not> qp_disposed p" using assms(1) by (auto simp: process_def)
  have mx: "fst (mx_tryAcquire (qp_mutex p))" using assms(2) by (simp add: mx_tryAcquire_def)
  define st1 where "st1 = st\<lparr>ps_result := empty_result,
      ps_queue := queue_initialize (pe_getTime env) (pe_now env (ps_clock st)) True (pe_store_ok env (ps_clock st)) (ps_queue st)\<rparr>"
  from assms(1) nd mx obtain pending st2 where "getPendingMutations (pe_sortBy env) (ps_queue st1) = Inr pending"
    "process_loop n env cfg pending [] st1 = Some st2"
    "st' = (if pc_autoCleanup cfg \<and> pr_succeeded (ps_result st2) > 0 then cleanupCompleted st2 else st2)"
    "res = ps_result st'"
    unfolding process_def Let_def st1_def [symmetric]
    by (auto split: bool.splits prod.splits sum.splits option.splits if_splits)
  then show ?thesis by (intro that [of st1 pending st2]) (simp_all add: st1_def)
qed

lemma cleanupCompleted_fields [simp]:
  "ps_trace (cleanupCompleted st) = ps_trace st" "ps_result (cleanupCompleted st) = ps_result st"
  by (simp_all add: cleanupCompleted_def)



subsection \<open>Progress\<close>

text \<open>
  Without \<open>stop\<close> and without answers that carry newer server data, an attempt either settles the entry
  or costs it one of its retries.
\<close>

definition calm :: "processor_env \<Rightarrow> bool" where
  "calm env \<longleftrightarrow> sorts (pe_sortBy env) \<and> (\<forall>t. \<not> pe_stop env t) \<and>
     (\<forall>t m r. pe_exec env t m = Returned r \<longrightarrow> er_success r \<or> \<not> js_truthy (er_serverData r))"

definition settled_entry :: "nat \<Rightarrow> nat \<Rightarrow> mutation \<Rightarrow> bool" where
  "settled_entry maxRetries n e \<longleftrightarrow>
     m_status e \<in> {mutation_status.COMPLETED, FAILED} \<or>
     m_status e = PENDING \<and> m_retryCount e = n + 1 \<and> n + 1 < maxRetries"

lemma get_updateStatus:
  "\<not> qm_disposed (ps_queue st) \<Longrightarrow> jm_get (tab (queue_do (updateStatus i s f) st)) j =
     (if j = i then map_option (\<lambda>m. f (m\<lparr>m_status := s\<rparr>)) (jm_get (tab st) i) else jm_get (tab st) j)"
  by (simp add: queue_do_def updateStatus_def live_def)

lemma settled_fail:
  assumes "\<not> qm_disposed (ps_queue st)" and "jm_get (tab st) (m_id m) = Some e"
  shows "\<exists>e'. jm_get (tab (fail_mutation m err st)) (m_id m) = Some e' \<and>
    settled_entry (qm_maxRetries (ps_queue st)) (m_retryCount e) e'"
proof -
  have "queue_do (markFailed (m_id m) err) st =
      queue_do (updateStatus (m_id m) (if m_retryCount e + 1 \<ge> qm_maxRetries (ps_queue st) then FAILED else PENDING)
        (\<lambda>x. x\<lparr>m_retryCount := m_retryCount e + 1, m_lastError := Some err\<rparr>)) st"
    using assms by (simp add: queue_do_def markFailed_def Let_def)
  with assms show ?thesis
    by (simp add: fail_mutation_def get_updateStatus settled_entry_def)
qed

lemma settled_complete:
  assumes "\<not> qm_disposed (ps_queue st)" and "jm_get (tab st) (m_id m) = Some e"
  shows "\<exists>e'. jm_get (tab (complete_mutation env m r st)) (m_id m) = Some e' \<and> m_status e' = mutation_status.COMPLETED"
proof -
  define st1 where "st1 = (case er_serverId r of
            Some s \<Rightarrow>
              if m_type m = CREATE \<and> isProvisionalId (m_entityId m) \<and> s \<noteq> []
              then let mapping = \<lparr>im_provisionalId = m_entityId m, im_serverId = s,
                                  im_tableName = m_tableName m, im_mappedAt = pe_iso env (ps_clock st)\<rparr>
                   in count_result (\<lambda>p. p\<lparr>pr_idMappings := pr_idMappings p @ [mapping]\<rparr>)
                        (queue_do (registerIdMapping (pe_getTime env) (pe_now env (ps_clock st)) True
                           (pe_store_ok env (ps_clock st)) mapping) st)
              else st
          | None \<Rightarrow> st)"
  have "frame {} st st1"
    unfolding st1_def Let_def
    by (cases "er_serverId r") (auto intro: frame_refl frame_trans1 [OF frame_register frame_queue])
  then have "\<not> qm_disposed (ps_queue st1)" "jm_get (tab st1) (m_id m) = Some e"
    using assms by (simp_all add: frame_def)
  then show ?thesis
    by (simp add: complete_mutation_def st1_def [symmetric] markCompleted_def [abs_def] get_updateStatus)
qed

lemma processMutation_calm:
  assumes "calm env" and "\<not> qm_disposed (ps_queue st)" and "jm_get (tab st) (m_id m) = Some e"
  shows "\<exists>e'. jm_get (tab (snd (processMutation env m st))) (m_id m) = Some e' \<and>
    (case fst (processMutation env m st) of
       Inl _ \<Rightarrow> m_retryCount e' = m_retryCount e
     | Inr _ \<Rightarrow> settled_entry (qm_maxRetries (ps_queue st)) (m_retryCount e) e')"
proof -
  define st1 where "st1 = queue_do (markInProgress (m_id m)) st"
  define m' where "m' = resolved_mutation (ps_queue st1) m"
  define st2 where "st2 = tick (emit (Called m') st1)"
  have nd: "\<not> qm_disposed (ps_queue st2)" "qm_maxRetries (ps_queue st2) = qm_maxRetries (ps_queue st)"
    and e: "jm_get (tab st2) (m_id m) = Some (e\<lparr>m_status := IN_PROGRESS\<rparr>)"
    using assms(2,3) by (simp_all add: st2_def st1_def markInProgress_def [abs_def] get_updateStatus)
      (simp_all add: queue_do_def updateStatus_def live_def)
  note fail = settled_fail [OF nd(1) e] and complete = settled_complete [OF nd(1) e]
  show ?thesis
  proof (cases "pe_exec env (ps_clock st1) m'")
    case (Threw err)
    then have "processMutation env m st = (Inl err, st2)"
      unfolding processMutation_def Let_def st1_def [symmetric] m'_def [symmetric] st2_def [symmetric] by simp
    with e show ?thesis by simp
  next
    case (Returned r)
    show ?thesis
    proof (cases "er_success r")
      case True
      with Returned have "processMutation env m st = (Inr True, complete_mutation env m r st2)"
        unfolding processMutation_def Let_def st1_def [symmetric] m'_def [symmetric] st2_def [symmetric] by simp
      with complete [of env r] show ?thesis by (auto simp: settled_entry_def)
    next
      case False
      with assms(1) Returned have "\<not> js_truthy (er_serverData r)" by (auto simp: calm_def)
      with False Returned have "processMutation env m st = (Inr False,
          fail_mutation m (case er_error r of Some e \<Rightarrow> e | None \<Rightarrow> ''Unknown error'') st2)"
        unfolding processMutation_def Let_def st1_def [symmetric] m'_def [symmetric] st2_def [symmetric] by simp
      then obtain err where "processMutation env m st = (Inr False, fail_mutation m err st2)" by blast
      with fail [of err] nd(2) show ?thesis by simp
    qed
  qed
qed

lemma retry_calm:
  assumes "calm env"
  shows "\<not> qm_disposed (ps_queue st) \<Longrightarrow> jm_get (tab st) (m_id m) = Some e \<Longrightarrow>
    attempt + left = rc_maxAttempts (pc_retry cfg) \<Longrightarrow> left > 0 \<Longrightarrow>
    \<exists>e'. jm_get (tab (snd (processMutationWithRetry env cfg m attempt left st))) (m_id m) = Some e' \<and>
      settled_entry (qm_maxRetries (ps_queue st)) (m_retryCount e) e'"
proof (induction left arbitrary: attempt st e)
  case (Suc left)
  define p where "p = processMutation env m (tick st)"
  have pf: "frame {m_id m} (tick st) (snd p)" unfolding p_def by (rule frame_processMutation)
  then have nd: "\<not> qm_disposed (ps_queue (snd p))" "qm_maxRetries (ps_queue (snd p)) = qm_maxRetries (ps_queue st)"
    using Suc.prems(1) by (simp_all add: frame_def)
  obtain e1 where e1: "jm_get (tab (snd p)) (m_id m) = Some e1"
    "case fst p of Inl _ \<Rightarrow> m_retryCount e1 = m_retryCount e
     | Inr _ \<Rightarrow> settled_entry (qm_maxRetries (ps_queue st)) (m_retryCount e) e1"
    using processMutation_calm [OF assms, of "tick st" m e] Suc.prems(1,2) unfolding p_def tick_fields by blast
  show ?case
  proof (cases rule: retry_cases [of env st cfg m attempt left])
    case stop
    with assms show ?thesis by (simp add: calm_def)
  next
    case (result b st1)
    with e1 show ?thesis by (simp add: p_def)
  next
    case (final err st1)
    with e1 have "m_retryCount e1 = m_retryCount e" by (simp add: p_def)
    with settled_fail [OF nd(1) e1(1), of err] final nd(2) show ?thesis by (simp add: p_def)
  next
    case (again err st1)
    let ?st2 = "sleep_for (retry_delay env cfg attempt st1) st1"
    have "jm_get (tab ?st2) (m_id m) = Some e1" "m_retryCount e1 = m_retryCount e" "\<not> qm_disposed (ps_queue ?st2)"
      "qm_maxRetries (ps_queue ?st2) = qm_maxRetries (ps_queue st)"
      using again(2) e1 nd by (simp_all add: p_def)
    moreover have "attempt + 1 + left = rc_maxAttempts (pc_retry cfg)" "left > 0" using again(3) Suc.prems(3) by simp_all
    ultimately show ?thesis unfolding again(4) using Suc.IH [of ?st2 e1 "attempt + 1"] by simp
  qed
qed simp

text \<open>The attempts left in the queue.\<close>

definition attempts_left :: "nat \<Rightarrow> mutation option \<Rightarrow> nat" where
  "attempts_left maxRetries e =
     (case e of Some m \<Rightarrow> if waiting m then maxRetries - m_retryCount m else 0 | None \<Rightarrow> 0)"

definition retry_budget :: "queue_manager \<Rightarrow> nat" where
  "retry_budget q = (\<Sum>i\<in>fst ` set (qm_table q). attempts_left (qm_maxRetries q) (jm_get (qm_table q) i))"

definition running :: "proc_state \<Rightarrow> bool" where
  "running st \<longleftrightarrow> queue_ok (ps_queue st) \<and> \<not> qm_disposed (ps_queue st)"

lemma running_get: "running st \<Longrightarrow> jm_get (tab st) i = Some m \<Longrightarrow> waiting m \<Longrightarrow>
    m_id m = i \<and> m_retryCount m < qm_maxRetries (ps_queue st)"
  by (auto simp: running_def queue_ok_def dest: table_ok_get)

lemma frame_keys: "frame I st st' \<Longrightarrow> fst ` set (tab st') = fst ` set (tab st)"
proof -
  assume f: "frame I st st'"
  have "i \<in> fst ` set (tab st') \<longleftrightarrow> i \<in> fst ` set (tab st)" for i
  proof -
    have "rel_option same_mutation (jm_get (tab st) i) (jm_get (tab st') i)" using f by (simp add: frame_def)
    then have "jm_get (tab st) i = None \<longleftrightarrow> jm_get (tab st') i = None" by (metis rel_option_None1 rel_option_None2)
    then show ?thesis using jm_get_None_iff [of "tab st" i] jm_get_None_iff [of "tab st'" i] by auto
  qed
  then show ?thesis by blast
qed

text \<open>One settled attempt lowers the budget and keeps the queue in order.\<close>

lemma settled_step:
  assumes "running st" and "frame {i} st st'" and "jm_get (tab st) i = Some e" and "waiting e"
    and "jm_get (tab st') i = Some e'" and "settled_entry (qm_maxRetries (ps_queue st)) (m_retryCount e) e'"
  shows "running st' \<and> retry_budget (ps_queue st') < retry_budget (ps_queue st)"
proof -
  let ?R = "qm_maxRetries (ps_queue st)"
  have R: "qm_maxRetries (ps_queue st') = ?R" and other: "\<And>j. j \<noteq> i \<Longrightarrow> jm_get (tab st') j = jm_get (tab st) j"
    and ok: "table_ok (tab st')" "\<not> qm_disposed (ps_queue st')"
    using assms(1,2) by (auto simp: frame_def running_def queue_ok_def)
  have "m_retryCount m < ?R" if "jm_get (tab st') j = Some m" "waiting m" for j m
  proof (cases "j = i")
    case True
    with that assms(5,6) show ?thesis by (auto simp: settled_entry_def)
  next
    case False
    with that other assms(1) show ?thesis by (auto simp: running_def queue_ok_def)
  qed
  with ok assms(1) have run: "running st'" by (auto simp: running_def queue_ok_def R)
  have less: "attempts_left ?R (jm_get (tab st') i) < attempts_left ?R (jm_get (tab st) i)"
    using running_get [OF assms(1,3,4)] assms(3-6) by (auto simp: attempts_left_def settled_entry_def)
  have "i \<in> fst ` set (tab st)" using assms(3) jm_get_Some_in [of "tab st" i e] by force
  with less have "(\<Sum>j\<in>fst ` set (tab st). attempts_left ?R (jm_get (tab st') j)) <
      (\<Sum>j\<in>fst ` set (tab st). attempts_left ?R (jm_get (tab st) j))"
  proof (intro sum_strict_mono_ex1 ballI)
    fix j
    show "attempts_left ?R (jm_get (tab st') j) \<le> attempts_left ?R (jm_get (tab st) j)"
      using less other [of j] by (cases "j = i") auto
  qed (use less in auto)
  with run show ?thesis by (simp add: retry_budget_def R frame_keys [OF assms(2)])
qed

lemma process_batch_calm:
  assumes "calm env" and "rc_maxAttempts (pc_retry cfg) > 0"
  shows "running st \<Longrightarrow> distinct (map m_id ms) \<Longrightarrow>
    \<forall>m\<in>set ms. \<exists>e. jm_get (tab st) (m_id m) = Some e \<and> waiting e \<Longrightarrow>
    running (snd (snd (process_batch env cfg ms ids k st))) \<and>
    retry_budget (ps_queue (snd (snd (process_batch env cfg ms ids k st)))) + fst (snd (process_batch env cfg ms ids k st))
      \<le> retry_budget (ps_queue st) + k"
proof (induction ms arbitrary: ids k st)
  case (Cons m ms)
  have go: "\<not> pe_stop env t" for t using assms(1) by (simp add: calm_def)
  show ?case
  proof (cases "canProcessMutation m ids")
    case False
    let ?st = "count_result (\<lambda>r. r\<lparr>pr_skipped := pr_skipped r + 1\<rparr>) (tick st)"
    have "running ?st" "\<forall>m\<in>set ms. \<exists>e. jm_get (tab ?st) (m_id m) = Some e \<and> waiting e" "ps_queue ?st = ps_queue st"
      using Cons.prems(1,3) by (auto simp: running_def)
    with Cons.IH [of ?st ids k] Cons.prems(2) False go show ?thesis by simp
  next
    case True
    define r where "r = processMutationWithRetry env cfg m 0 (rc_maxAttempts (pc_retry cfg)) (tick st)"
    define st1 where "st1 = count_result (\<lambda>p. p\<lparr>pr_processed := pr_processed p + 1\<rparr>) (snd r)"
    define d where "d = calculateDelay cfg (m_retryCount m) (pe_random env (ps_clock st1))"
    define ids' where "ids' = (if fst r then js_add (m_id m) ids else ids)"
    define st2 where "st2 = (if d > 0 then sleep_for \<lfloor>d\<rfloor> st1 else st1)"
    have eq: "process_batch env cfg (m # ms) ids k st = process_batch env cfg ms ids' (k + 1) st2"
      using go True by (simp add: r_def st1_def d_def ids'_def st2_def Let_def)
    have q2: "ps_queue st2 = ps_queue (snd r)" by (simp add: st2_def st1_def)
    have "frame {m_id m} (tick st) (snd r)" unfolding r_def by (rule frame_retry)
    then have f: "frame {m_id m} st (snd r)" by (simp add: frame_def)
    obtain e where e: "jm_get (tab st) (m_id m) = Some e" "waiting e" using Cons.prems(3) by auto
    have nd: "\<not> qm_disposed (ps_queue (tick st))" "jm_get (tab (tick st)) (m_id m) = Some e"
      using Cons.prems(1) e by (simp_all add: running_def)
    obtain e' where e': "jm_get (tab (snd r)) (m_id m) = Some e'"
        "settled_entry (qm_maxRetries (ps_queue st)) (m_retryCount e) e'"
      using retry_calm [OF assms(1) nd _ assms(2), of 0 cfg] by (auto simp: r_def)
    from settled_step [OF Cons.prems(1) f e e'] q2
    have run: "running st2" "retry_budget (ps_queue st2) < retry_budget (ps_queue st)" by (simp_all add: running_def)
    have "\<forall>m'\<in>set ms. \<exists>e. jm_get (tab st2) (m_id m') = Some e \<and> waiting e"
    proof
      fix m' assume m': "m' \<in> set ms"
      with Cons.prems(2) have "m_id m' \<noteq> m_id m" by (metis distinct.simps(2) image_eqI list.simps(9) set_map)
      with f have "jm_get (tab st2) (m_id m') = jm_get (tab st) (m_id m')" by (simp add: frame_def q2)
      with Cons.prems(3) m' show "\<exists>e. jm_get (tab st2) (m_id m') = Some e \<and> waiting e" by auto
    qed
    from Cons.IH [OF run(1) _ this, of ids' "k + 1"] Cons.prems(2) run(2) show ?thesis unfolding eq by auto
  qed
qed simp

lemma pending_of_calm:
  assumes "calm env" and "running st"
  shows "distinct (map m_id (pending_of env st)) \<and>
    (\<forall>m. m \<in> set (pending_of env st) \<longleftrightarrow> jm_get (tab st) (m_id m) = Some m \<and> waiting m)"
proof -
  have t: "table_ok (tab st)" and s: "sorts (pe_sortBy env)" using assms by (auto simp: calm_def running_def queue_ok_def)
  have "pending_of env st = pe_sortBy env (t_where waiting (tab st))"
    using assms(2) by (simp add: pending_of_def getPendingMutations_def live_def running_def)
  then show ?thesis
    using waiting_table [OF t s, of waiting] by (simp add: sorts_set [OF s] t_where_iff table_ok_in [OF t] conj_commute)
qed

lemma pending_of_empty:
  assumes "calm env" and "running st" and "pending_of env st = []" and "jm_get (tab st) i = Some m"
  shows "\<not> waiting m"
proof
  assume w: "waiting m"
  with running_get [OF assms(2,4)] assms(4) have "jm_get (tab st) (m_id m) = Some m" by blast
  with w pending_of_calm [OF assms(1,2)] have "m \<in> set (pending_of env st)" by blast
  with assms(3) show False by simp
qed

lemma get_failUnprocessable:
  "\<not> qm_disposed (ps_queue st) \<Longrightarrow>
   jm_get (tab (fold (fail_unprocessable reason) ms st)) j =
     map_option (\<lambda>e. if j \<in> m_id ` set ms then e\<lparr>m_status := FAILED, m_lastError := Some reason\<rparr> else e) (jm_get (tab st) j) \<and>
   \<not> qm_disposed (ps_queue (fold (fail_unprocessable reason) ms st))"
proof (induction ms arbitrary: st)
  case (Cons m ms)
  let ?st = "fail_unprocessable reason m st"
  have nd: "\<not> qm_disposed (ps_queue ?st)"
    using Cons.prems by (simp add: fail_unprocessable_def queue_do_def updateStatus_def live_def)
  have "jm_get (tab ?st) i = map_option (\<lambda>e. if i = m_id m then e\<lparr>m_status := FAILED, m_lastError := Some reason\<rparr> else e) (jm_get (tab st) i)" for i
    using Cons.prems by (simp add: fail_unprocessable_def get_updateStatus option.map_ident)
  with Cons.IH [OF nd] show ?case
    by (cases "jm_get (tab st) j") auto
qed (simp add: option.map_ident)

lemma failUnprocessable_settles:
  assumes "calm env" and "running st" and "jm_get (tab (failUnprocessableMutations (pending_of env st) (tick st))) i = Some m"
  shows "\<not> waiting m"
proof -
  have nd: "\<not> qm_disposed (ps_queue (tick st))" using assms(2) by (simp add: running_def)
  obtain e where e: "jm_get (tab st) i = Some e"
    "m = (if i \<in> m_id ` set (pending_of env st) then e\<lparr>m_status := FAILED, m_lastError := Some (unprocessable_reason (pending_of env st))\<rparr> else e)"
    using assms(3) get_failUnprocessable [OF nd, of _ "pending_of env st" i] by (auto simp: failUnprocessableMutations_def)
  show ?thesis
  proof (cases "waiting e")
    case True
    with e(1) running_get [OF assms(2)] pending_of_calm [OF assms(1,2)] have "i \<in> m_id ` set (pending_of env st)" by force
    with e(2) show ?thesis by simp
  qed (use e in auto)
qed

lemma running_tick [simp]: "running (tick st) = running st"
  by (simp add: running_def)

lemma retry_budget_pos:
  assumes "running st" and "jm_get (tab st) i = Some m" and "waiting m"
  shows "retry_budget (ps_queue st) > 0"
proof -
  have "i \<in> fst ` set (tab st)" using assms(2) jm_get_Some_in [of "tab st" i m] by force
  moreover have "attempts_left (qm_maxRetries (ps_queue st)) (jm_get (tab st) i) > 0"
    using running_get [OF assms] assms(2,3) by (auto simp: attempts_left_def)
  ultimately show ?thesis unfolding retry_budget_def by (intro sum_pos2 [of _ i]) auto
qed

lemma process_loop_calm:
  assumes "calm env" and "rc_maxAttempts (pc_retry cfg) > 0"
  shows "running st \<Longrightarrow> pending = pending_of env st \<Longrightarrow> retry_budget (ps_queue st) < n \<Longrightarrow>
    \<exists>st'. process_loop n env cfg pending ids st = Some st' \<and> (\<forall>i m. jm_get (tab st') i = Some m \<longrightarrow> \<not> waiting m)"
proof (induction n arbitrary: pending ids st)
  case (Suc n)
  note pending = pending_of_calm [OF assms(1) Suc.prems(1), folded Suc.prems(2)]
  show ?case
  proof (cases "pending = []")
    case True
    with pending_of_empty [OF assms(1) Suc.prems(1)] Suc.prems(2) show ?thesis by simp
  next
    case False
    let ?b = "take (pc_batchSize cfg) (topologicalSort m_id deps_of pending)"
    define r where "r = process_batch env cfg ?b ids 0 (tick st)"
    have perm: "mset (topologicalSort m_id deps_of pending) = mset pending" using pending by (simp add: topologicalSort_distinct)
    have "distinct (map m_id (topologicalSort m_id deps_of pending))"
      using pending topologicalSort_items [of m_id deps_of pending] by blast
    then have d: "distinct (map m_id ?b)" by (metis distinct_take take_map)
    have "set ?b \<subseteq> set pending" using perm by (metis mset_eq_setD set_take_subset)
    then have w: "\<forall>m\<in>set ?b. \<exists>e. jm_get (tab (tick st)) (m_id m) = Some e \<and> waiting e" using pending by auto
    have run: "running (snd (snd r))" and budget: "retry_budget (ps_queue (snd (snd r))) + fst (snd r) \<le> retry_budget (ps_queue st)"
      using process_batch_calm [OF assms _ d w, of ids 0] Suc.prems(1) by (simp_all add: r_def)
    have go: "\<not> pe_stop env t" for t using assms(1) by (simp add: calm_def)
    note step = process_loop_step [OF False go r_def, of n]
    have pos: "retry_budget (ps_queue st) > 0"
    proof -
      obtain m ms where "pending = m # ms" using False by (cases pending) auto
      then have "m \<in> set pending" by simp
      with pending have "jm_get (tab st) (m_id m) = Some m" "waiting m" by blast+
      then show ?thesis by (rule retry_budget_pos [OF Suc.prems(1)])
    qed
    show ?thesis
    proof (cases "pending_of env (snd (snd r)) \<noteq> [] \<and> fst (snd r) = 0")
      case True
      with step go failUnprocessable_settles [OF assms(1) run] show ?thesis by auto
    next
      case cont: False
      then have eq: "process_loop (Suc n) env cfg pending ids st =
          process_loop n env cfg (pending_of env (snd (snd r))) (fst r) (tick (snd (snd r)))"
        using step by auto
      have "retry_budget (ps_queue (snd (snd r))) < n"
      proof (cases "fst (snd r) = 0")
        case True
        with cont have p: "pending_of env (snd (snd r)) = []" by simp
        have "attempts_left (qm_maxRetries (ps_queue (snd (snd r)))) (jm_get (tab (snd (snd r))) i) = 0" for i
          using pending_of_empty [OF assms(1) run p, of i] by (auto simp: attempts_left_def split: option.split)
        then have "retry_budget (ps_queue (snd (snd r))) = 0" by (simp add: retry_budget_def)
        with pos Suc.prems(3) show ?thesis by simp
      qed (use budget Suc.prems(3) in simp)
      then show ?thesis
        unfolding eq using run by (intro Suc.IH) (simp_all add: pending_of_def)
    qed
  qed
qed simp

subsection \<open>Nothing is lost\<close>

text \<open>
  A relation between states that contains every elementary step of a run and is closed under
  composition contains the run.
\<close>

locale run_relation =
  fixes R :: "proc_state \<Rightarrow> proc_state \<Rightarrow> bool"
  assumes quiet: "ps_queue st' = ps_queue st \<Longrightarrow> ps_resolver st' = ps_resolver st \<Longrightarrow>
      completions (ps_trace st') = completions (ps_trace st) \<Longrightarrow> R st st'"
    and compose: "R st st' \<Longrightarrow> R st' st'' \<Longrightarrow> R st st''"
    and attempt: "R st (snd (processMutation env m st))"
    and failed: "R st (fail_mutation m err st)"
    and unprocessable: "R st (fail_unprocessable reason m st)"
begin

lemma refl: "R st st" and tick: "R st (tick st)" and sleep: "R st (sleep_for d st)"
  by (simp_all add: quiet)

lemma retry: "R st (snd (processMutationWithRetry env cfg m attempt left st))"
proof (induction left arbitrary: attempt st)
  case (Suc left)
  have p: "R st (snd (processMutation env m (tick st)))" by (rule compose [OF tick attempt])
  show ?case
  proof (cases rule: retry_cases [of env st cfg m attempt left])
    case stop
    then show ?thesis by (simp add: tick)
  next
    case (result b st1)
    with p show ?thesis by simp
  next
    case (final e st1)
    with compose [OF p failed] show ?thesis by simp
  next
    case (again e st1)
    from p again(2) have "R st (sleep_for (retry_delay env cfg attempt st1) st1)" using compose [OF _ sleep] by simp
    then show ?thesis unfolding again(4) by (rule compose [OF _ Suc.IH])
  qed
qed (simp add: refl)

lemma batch: "R st (snd (snd (process_batch env cfg ms ids k st)))"
proof (induction env cfg ms ids k st rule: process_batch.induct)
  case (2 env cfg m ms ids k st)
  show ?case
  proof (cases "pe_stop env (ps_clock st)")
    case True
    then show ?thesis by (simp add: tick)
  next
    case go: False
    show ?thesis
    proof (cases "canProcessMutation m ids")
      case False
      have "R st (count_result (\<lambda>r. r\<lparr>pr_skipped := pr_skipped r + 1\<rparr>) (tick st))" by (simp add: quiet)
      from compose [OF this 2(1) [OF go False]] go False show ?thesis by simp
    next
      case True
      define r where "r = processMutationWithRetry env cfg m 0 (rc_maxAttempts (pc_retry cfg)) (tick st)"
      define st1 where "st1 = count_result (\<lambda>p. p\<lparr>pr_processed := pr_processed p + 1\<rparr>) (snd r)"
      define d where "d = calculateDelay cfg (m_retryCount m) (pe_random env (ps_clock st1))"
      define st2 where "st2 = (if d > 0 then sleep_for \<lfloor>d\<rfloor> st1 else st1)"
      have "R st (snd r)" unfolding r_def by (rule compose [OF tick retry])
      moreover have "R (snd r) st2" by (rule quiet) (simp_all add: st2_def st1_def)
      ultimately have "R st st2" by (rule compose)
      moreover have "process_batch env cfg (m # ms) ids k st =
          process_batch env cfg ms (if fst r then js_add (m_id m) ids else ids) (k + 1) st2"
        using go True by (simp add: r_def st1_def d_def st2_def Let_def)
      ultimately show ?thesis
        using 2(2) [OF go _ r_def st1_def d_def] True by (auto simp: st2_def [symmetric] intro: compose)
    qed
  qed
qed (simp add: refl)

lemma all_unprocessable: "R st (failUnprocessableMutations ms st)"
proof -
  have "R st (fold (fail_unprocessable reason) ms st)" for reason
    by (induction ms arbitrary: st) (auto intro: refl compose [OF unprocessable])
  then show ?thesis by (simp add: failUnprocessableMutations_def)
qed

lemma loop: "process_loop n env cfg pending ids st = Some st' \<Longrightarrow> R st st'"
proof (induction n arbitrary: pending ids st)
  case (Suc n)
  from Suc.prems show ?case
  proof (cases rule: process_loop_cases)
    case ended
    then show ?thesis by (simp add: refl)
  next
    case stopped
    then show ?thesis by (simp add: tick)
  next
    case (stuck r)
    have "R st (snd (snd r))" unfolding stuck(3) by (rule compose [OF tick batch])
    with stuck(5) show ?thesis by (metis all_unprocessable compose tick)
  next
    case (again r)
    have "R st (snd (snd r))" unfolding again(3) by (rule compose [OF tick batch])
    with Suc.IH [OF again(4)] show ?thesis by (metis compose tick)
  qed
qed simp

end

lemma frame_UNIV: "frame I st st' \<Longrightarrow> frame UNIV st st'"
  by (rule frame_mono) simp_all

interpretation run_frame: run_relation "frame UNIV"
proof unfold_locales
  fix st reason m
  show "frame UNIV st (fail_unprocessable reason m st)"
    unfolding fail_unprocessable_def
    by (rule frame_trans1 [OF frame_UNIV [OF frame_updateStatus] frame_queue]) (simp_all add: same_mutation_def)
qed (auto intro: frame_queue frame_trans1 frame_UNIV [OF frame_processMutation] frame_UNIV [OF frame_fail_mutation])

text \<open>No entry counts as completed unless it did before or its completion is in the trace.\<close>

definition honest :: "proc_state \<Rightarrow> proc_state \<Rightarrow> bool" where
  "honest st st' \<longleftrightarrow>
     set (completions (ps_trace st)) \<subseteq> set (completions (ps_trace st')) \<and>
     (\<forall>i m'. jm_get (tab st') i = Some m' \<and> m_status m' = mutation_status.COMPLETED \<longrightarrow>
        i \<in> set (completions (ps_trace st')) \<or>
        (\<exists>m. jm_get (tab st) i = Some m \<and> m_status m = mutation_status.COMPLETED))"

lemma honest_quiet:
  "tab st' = tab st \<Longrightarrow> completions (ps_trace st') = completions (ps_trace st) \<Longrightarrow> honest st st'"
  by (simp add: honest_def)

lemma honest_trans: "honest st st' \<Longrightarrow> honest st' st'' \<Longrightarrow> honest st st''"
  unfolding honest_def by blast

lemma honest_count: "honest st st' \<Longrightarrow> honest st (count_result f st')"
  by (simp add: honest_def)

lemma honest_update:
  assumes "\<And>m. m_status (f m) = m_status m" and "s \<noteq> mutation_status.COMPLETED"
  shows "honest st (queue_do (updateStatus i s f) st)"
  using assms by (auto simp: honest_def queue_do_def updateStatus_def live_def split: if_splits)

lemma honest_fail_mutation: "honest st (fail_mutation m err st)"
proof -
  have "honest st (queue_do (markFailed i err) st)" for i
    by (auto simp: honest_def queue_do_def markFailed_def updateStatus_def live_def Let_def split: option.split if_splits)
  then show ?thesis unfolding fail_mutation_def by (rule honest_count)
qed

lemma honest_complete: "honest st (complete_mutation env m r st)"
proof -
  have last_step: "honest st1 (emit (Completed (m_id m)) (count_result f (queue_do (markCompleted (m_id m) s) st1)))" for st1 f s
    by (auto simp: honest_def queue_do_def markCompleted_def updateStatus_def live_def split: if_splits)
  have "honest st (count_result g (queue_do (registerIdMapping getTime now r w i) st))" for g getTime now r w i
    by (auto simp: honest_def queue_do_def dest: registerIdMapping_table split: sum.split)
  then show ?thesis
    unfolding complete_mutation_def Let_def
    by (intro honest_trans [OF _ last_step], cases "er_serverId r") (auto intro: honest_quiet)
qed

lemma honest_apply: "honest st (apply_resolution m r st)"
  unfolding apply_resolution_def
  by (auto simp: honest_fail_mutation intro!: honest_update split: option.split)

lemma honest_process: "honest st (snd (processMutation env m st))"
proof -
  define st1 where "st1 = queue_do (markInProgress (m_id m)) st"
  define m' where "m' = resolved_mutation (ps_queue st1) m"
  define st2 where "st2 = tick (emit (Called m') st1)"
  have "honest st st1" unfolding st1_def markInProgress_def by (rule honest_update) simp_all
  then have 2: "honest st st2" by (rule honest_trans) (simp add: honest_quiet st2_def)
  have "honest st2 (snd (processMutation env m st))"
    unfolding processMutation_def Let_def st1_def [symmetric] m'_def [symmetric] st2_def [symmetric]
    by (auto split: exec_outcome.split sum.split option.split
        intro: honest_quiet honest_fail_mutation honest_apply honest_complete)
  with 2 show ?thesis by (rule honest_trans)
qed

interpretation run_honest: run_relation honest
proof unfold_locales
  fix st reason m
  show "honest st (fail_unprocessable reason m st)"
    unfolding fail_unprocessable_def by (rule honest_count [OF honest_update]) simp_all
next
  fix st st' st''
  show "honest st st' \<Longrightarrow> honest st' st'' \<Longrightarrow> honest st st''"
    by (rule honest_trans)
qed (simp_all add: honest_quiet honest_process honest_fail_mutation)

lemma get_cleanupCompleted:
  assumes "table_ok (tab st)" and "\<not> qm_disposed (ps_queue st)"
  shows "jm_get (tab (cleanupCompleted st)) i =
    (case jm_get (tab st) i of
       Some m \<Rightarrow> if m_status m = mutation_status.COMPLETED then None else Some m | None \<Rightarrow> None)"
  using assms by (auto simp: cleanupCompleted_def queue_do_def deleteCompleted_def live_def Let_def jm_get_delete_where)



text \<open>C18 A run always ends, within as many rounds of its loop as there are attempts left in the queue, and leaves no
entry waiting: without \<open>stop\<close> and without conflicts every mutation is completed or failed for good.
The lock is free again afterwards.\<close>

theorem process_settles:
  assumes "calm env" and "rc_maxAttempts (pc_retry cfg) > 0"
    and "queue_ok (ps_queue st)" and "\<not> qm_disposed (ps_queue st)"
    and "\<not> qp_disposed p" and "qp_mutex p = new_mutex"
    and "n > retry_budget (ps_queue st)"
  shows "\<exists>res p' st'. process n env cfg p st = Some (Inr res, p', st') \<and> qp_mutex p' = new_mutex \<and>
    (\<forall>i m. jm_get (qm_table (ps_queue st')) i = Some m \<longrightarrow> m_status m \<notin> {PENDING, OFFLINE_QUEUED})"
proof -
  define st1 where "st1 = st\<lparr>ps_result := empty_result,
      ps_queue := queue_initialize (pe_getTime env) (pe_now env (ps_clock st)) True (pe_store_ok env (ps_clock st)) (ps_queue st)\<rparr>"
  have run: "running st1" using assms(3,4) by (simp add: running_def st1_def)
  have "retry_budget (ps_queue st1) < n" using assms(7) by (simp add: retry_budget_def st1_def)
  with process_loop_calm [OF assms(1,2) run refl] obtain st2 where
    loop: "process_loop n env cfg (pending_of env st1) [] st1 = Some st2"
    and quiet: "\<forall>i m. jm_get (tab st2) i = Some m \<longrightarrow> \<not> waiting m" by blast
  have pend: "getPendingMutations (pe_sortBy env) (ps_queue st1) = Inr (pending_of env st1)"
    using run by (simp add: pending_of_def getPendingMutations_def live_def running_def)
  define st3 where "st3 = (if pc_autoCleanup cfg \<and> pr_succeeded (ps_result st2) > 0 then cleanupCompleted st2 else st2)"
  have mx: "mx_tryAcquire new_mutex = (True, \<lparr>mx_locked = True, mx_queue = []\<rparr>)"
    "snd (mx_release \<lparr>mx_locked = True, mx_queue = []\<rparr>) = new_mutex"
    by (simp_all add: mx_tryAcquire_def mx_release_def new_mutex_def)
  have "process n env cfg p st = Some (Inr (ps_result st3),
      p\<lparr>qp_mutex := new_mutex, qp_isProcessing := False\<rparr>, st3)"
    using assms(5,6) mx pend loop unfolding process_def Let_def st1_def [symmetric] by (simp add: st3_def)
  moreover have "\<not> waiting m" if "jm_get (tab st3) i = Some m" for i m
  proof (cases "pc_autoCleanup cfg \<and> pr_succeeded (ps_result st2) > 0")
    case True
    have "table_ok (tab st2)" "\<not> qm_disposed (ps_queue st2)"
      using run_frame.loop [OF loop] run by (auto simp: frame_def running_def queue_ok_def)
    from get_cleanupCompleted [OF this] True that quiet show ?thesis
      by (auto simp: st3_def split: option.splits if_splits)
  next
    case False
    with that quiet show ?thesis by (simp add: st3_def)
  qed
  ultimately show ?thesis by auto
qed
theorem process_settles_witness:
  "\<exists>res p' st'. process 20 (sample_env (Threw ''offline'')) (sample_config 1) new_processor
       (sample_state [entry ''a'' 1 PENDING [''b''], entry ''b'' 2 PENDING []]) = Some (Inr res, p', st') \<and>
     qp_mutex p' = new_mutex \<and>
     (\<forall>i m. jm_get (qm_table (ps_queue st')) i = Some m \<longrightarrow> m_status m \<notin> {PENDING, OFFLINE_QUEUED})"
proof (rule process_settles)
  let ?st = "sample_state [entry ''a'' 1 PENDING [''b''], entry ''b'' 2 PENDING []]"
  show "calm (sample_env (Threw ''offline''))" by (simp add: calm_def sample_env_def sorts_sort_key)
  show "rc_maxAttempts (pc_retry (sample_config 1)) > 0"
    by (simp add: sample_config_def default_processor_config_def DEFAULT_QUEUE_RETRY_CONFIG_def)
  show "queue_ok (ps_queue ?st)"
    by (auto simp: queue_ok_def table_ok_def sample_state_def new_queue_manager_def DEFAULT_MAX_RETRIES_def entry_def
        jm_get_Cons split: if_splits)
  show "\<not> qm_disposed (ps_queue ?st)" by (simp add: sample_state_def new_queue_manager_def)
  show "\<not> qp_disposed new_processor" "qp_mutex new_processor = new_mutex" by (simp_all add: new_processor_def)
  have "retry_budget (ps_queue ?st) = 6" by code_simp
  then show "retry_budget (ps_queue ?st) < 20" by simp
qed

subsection \<open>Behaviours worth knowing\<close>

text \<open>
  When a full batch of blocked mutations stands first, every pending mutation is marked failed, also those
  behind it that have no dependencies and were never tried.
\<close>

lemma blocked_batch_fails_all:
  "observe (process 5 (sample_env (Returned (sample_result True JNull))) (sample_config 1) new_processor
     (sample_state [entry ''a'' 1 PENDING [''gone''], entry ''b'' 2 PENDING []])) =
   Some (True, [], [(''a'', FAILED), (''b'', FAILED)])"
  by code_simp

text \<open>
  Only completions of the same run count: a mutation that depends on one completed by an earlier run
  fails without being tried, although its dependency is met.
\<close>

lemma earlier_completion_ignored:
  "observe (process 5 (sample_env (Returned (sample_result True JNull))) (sample_config 10) new_processor
     (sample_state [entry ''a'' 1 PENDING [''b''], entry ''b'' 0 mutation_status.COMPLETED []])) =
   Some (True, [], [(''a'', FAILED), (''b'', mutation_status.COMPLETED)])"
  by code_simp

text \<open>
  Stopped between two attempts at a mutation, the run leaves it in progress; no later run takes it up again.
\<close>

lemma stop_strands_mutation:
  "observe (process 5 ((sample_env (Threw ''offline''))\<lparr>pe_stop := (\<lambda>t. t \<ge> 4)\<rparr>) (sample_config 10) new_processor
     (sample_state [entry ''a'' 1 PENDING []])) = Some (True, [''a''], [(''a'', IN_PROGRESS)]) \<and>
   observe (process 5 (sample_env (Returned (sample_result True JNull))) (sample_config 10) new_processor
     (sample_state [entry ''a'' 1 IN_PROGRESS []])) = Some (True, [], [(''a'', IN_PROGRESS)])"
  by code_simp

text \<open>
  A conflict under the manual strategy is marked for review, but the processor ignores the mark: it
  replaces the queued payload by the server's data and queues the mutation again.
\<close>

lemma manual_conflict_overwrites:
  assumes "\<not> qm_disposed (ps_queue st)" and "jm_get (tab st) (m_id m) = Some e"
    and "serverData c = JObj es" and "isJsonSerializable (JObj es)"
  shows "\<exists>e'. jm_get (tab (apply_resolution m (manual c) st)) (m_id m) = Some e' \<and>
    m_status e' = PENDING \<and> m_payload e' = JObj es"
  using assms by (simp add: apply_resolution_def manual_def isPlainObject_def tryToJsonSerializable_def get_updateStatus
      del: isJsonSerializable.simps)

text \<open>
  With the client-wins strategy and a server that keeps reporting its newer version, a conflicting
  update is queued again after every attempt, whatever its retry count: the run never ends.
\<close>

definition stale :: "proc_state \<Rightarrow> mutation \<Rightarrow> bool" where
  "stale st e \<longleftrightarrow> tab st = [(''a'', e)] \<and> \<not> qm_disposed (ps_queue st) \<and>
     ps_resolver st = new_resolver (Some CLIENT_WINS) None None None False \<and> m_status e = PENDING \<and>
     (\<exists>n err. e = (entry ''a'' 1 PENDING [])\<lparr>m_retryCount := n, m_lastError := err\<rparr>)"

definition newer_server :: exec_outcome where
  "newer_server = Returned (sample_result False (JObj [(''a'', JNum 2)]))"

lemma stale_attempt:
  assumes "stale st e"
  shows "\<exists>e'. stale (snd (processMutation (sample_env newer_server) e st)) e' \<and>
    fst (processMutation (sample_env newer_server) e st) = Inr False"
proof -
  obtain n err where e: "e = (entry ''a'' 1 PENDING [])\<lparr>m_retryCount := n, m_lastError := err\<rparr>"
    using assms by (auto simp: stale_def)
  define st1 where "st1 = queue_do (markInProgress (m_id e)) st"
  define m' where "m' = resolved_mutation (ps_queue st1) e"
  define st2 where "st2 = tick (emit (Called m') st1)"
  have st2: "tab st2 = [(''a'', e\<lparr>m_status := IN_PROGRESS\<rparr>)]" "\<not> qm_disposed (ps_queue st2)"
      "ps_resolver st2 = new_resolver (Some CLIENT_WINS) None None None False"
    using assms e by (simp_all add: st2_def st1_def stale_def queue_do_def markInProgress_def updateStatus_def live_def
        t_update_def jm_get_Cons entry_def)
  have res: "detectAndResolveConflict (sample_env newer_server) (ps_resolver st2) e (JObj [(''a'', JNum 2)]) 1000 =
      Inr (Some (clientWins (conflict_of e (JObj [(''a'', JNum 2)]) 1000)))"
    by (simp add: st2 detectAndResolveConflict_def hasConflict_def resolve_def getStrategy_def new_resolver_def
        lookup_table_def strategyResolvers_def sample_env_def conflict_of_def e entry_def)
  have "processMutation (sample_env newer_server) e st =
      (Inr False, apply_resolution e (clientWins (conflict_of e (JObj [(''a'', JNum 2)]) 1000)) st2)"
    unfolding processMutation_def Let_def st1_def [symmetric] m'_def [symmetric] st2_def [symmetric]
    using res by (simp add: sample_env_def newer_server_def sample_result_def js_truthy_def e entry_def)
  moreover have "stale (apply_resolution e (clientWins (conflict_of e (JObj [(''a'', JNum 2)]) 1000)) st2)
      (e\<lparr>m_retryCount := n + 1, m_lastError := Some ''Conflict resolved (winner: client)''\<rparr>)"
    using st2 by (simp add: apply_resolution_def clientWins_def conflict_of_def isPlainObject_def
        tryToJsonSerializable_def stale_def queue_do_def updateStatus_def live_def t_update_def jm_get_Cons e entry_def)
  ultimately show ?thesis by auto
qed

lemma stale_tick [simp]: "stale (tick st) e = stale st e"
  by (simp add: stale_def)

lemma stale_count [simp]: "stale (count_result f st) e = stale st e"
  by (simp add: stale_def)

lemma stale_sleep [simp]: "stale (sleep_for d st) e = stale st e"
  by (simp add: stale_def)

lemma topologicalSort_single: "deps_of m = [] \<Longrightarrow> topologicalSort m_id deps_of [m] = [m]"
  by (simp add: topologicalSort_def itemMap_def jm_get_Cons Let_def)

lemma stale_never_ends: "stale st e \<Longrightarrow> process_loop n (sample_env newer_server) (sample_config 10) [e] ids st = None"
proof (induction n arbitrary: e ids st)
  case (Suc n)
  let ?env = "sample_env newer_server" and ?cfg = "sample_config 10"
  obtain k err where e: "e = (entry ''a'' 1 PENDING [])\<lparr>m_retryCount := k, m_lastError := err\<rparr>"
    using Suc.prems by (auto simp: stale_def)
  have go: "\<not> pe_stop ?env t" for t by (simp add: sample_env_def)
  have deps: "deps_of e = []" by (simp add: e entry_def deps_of_def)
  have can: "canProcessMutation e ids" using deps by (simp add: canProcessMutation_iff)
  obtain left where attempts: "rc_maxAttempts (pc_retry ?cfg) = Suc left"
    by (simp add: sample_config_def default_processor_config_def DEFAULT_QUEUE_RETRY_CONFIG_def)
  define x where "x = processMutation ?env e (tick (tick (tick st)))"
  obtain e' where x: "stale (snd x) e'" "fst x = Inr False"
    using stale_attempt [of "tick (tick (tick st))" e] Suc.prems by (auto simp: x_def)
  have retry: "processMutationWithRetry ?env ?cfg e 0 (Suc left) (tick (tick st)) = (False, snd x)"
    using go x(2) by (cases x) (simp add: x_def [symmetric])
  define r where "r = process_batch ?env ?cfg [e] ids 0 (tick st)"
  have "\<exists>d. r = (ids, 1, d) \<and> stale d e'"
    using go can x(1) by (simp add: r_def attempts retry Let_def del: processMutationWithRetry.simps)
  then obtain d where d: "r = (ids, 1, d)" "stale d e'" by blast
  have "take (pc_batchSize ?cfg) (topologicalSort m_id deps_of [e]) = [e]"
    by (simp add: topologicalSort_single [OF deps] sample_config_def)
  with r_def have r_eq: "r = process_batch ?env ?cfg (take (pc_batchSize ?cfg) (topologicalSort m_id deps_of [e])) ids 0 (tick st)"
    by simp
  have "pending_of ?env d = [e']"
    using d(2) by (simp add: pending_of_def getPendingMutations_def live_def t_where_def stale_def sample_env_def)
  with process_loop_step [OF _ go r_eq, of n] d have
    "process_loop (Suc n) ?env ?cfg [e] ids st = process_loop n ?env ?cfg [e'] ids (tick d)" by simp
  with Suc.IH [of "tick d" e' ids] d(2) show ?case by simp
qed simp

lemma conflict_livelock:
  "process n (sample_env newer_server) (sample_config 10) new_processor
     ((sample_state [entry ''a'' 1 PENDING []])\<lparr>ps_resolver := new_resolver (Some CLIENT_WINS) None None None False\<rparr>) = None"
proof -
  let ?e = "entry ''a'' 1 PENDING []"
  let ?st = "(sample_state [?e])\<lparr>ps_resolver := new_resolver (Some CLIENT_WINS) None None None False\<rparr>"
  define st1 where "st1 = ?st\<lparr>ps_result := empty_result,
      ps_queue := queue_initialize (pe_getTime (sample_env newer_server)) (pe_now (sample_env newer_server) (ps_clock ?st)) True
        (pe_store_ok (sample_env newer_server) (ps_clock ?st)) (ps_queue ?st)\<rparr>"
  have e: "?e = ?e\<lparr>m_retryCount := 0, m_lastError := None\<rparr>" by (simp add: entry_def)
  have "stale st1 ?e"
    unfolding stale_def st1_def using e
    by (auto simp: sample_state_def new_queue_manager_def entry_def)
  moreover have "getPendingMutations (pe_sortBy (sample_env newer_server)) (ps_queue st1) = Inr [?e]"
    by (simp add: st1_def sample_state_def new_queue_manager_def getPendingMutations_def live_def t_where_def sample_env_def entry_def)
  ultimately show ?thesis
    unfolding process_def Let_def st1_def [symmetric]
    by (simp add: stale_never_ends new_processor_def new_mutex_def mx_tryAcquire_def)
qed

end
