(* ===== verification/Safe_Timer.thy ===== *)
theory Safe_Timer
  imports Foundation_Prelude
begin

text \<open>
  The disposable timer \<open>SafeTimer\<close> (\<open>libs/foundation/utils/src/timer/safe-timer.ts\<close>) with the part
  of the host it runs on: \<open>Date.now\<close>, \<open>setTimeout\<close> and \<open>clearTimeout\<close> of the event loop. The
  record \<open>event_loop\<close> holds the clock and the armed handles of the object; the classes extend it.
  The callback is an argument of the definitions that run it and acts on the whole object and
  on whatever extends it, so it may call the timer again. The locale \<open>disposable_object\<close> states
  what \<open>Disposable\<close> promises to its clients, and is shared by the three timer classes.
\<close>

named_theorems timer_defs \<open>definitions of the timer operations\<close>

subsection \<open>The event loop\<close>

record event_loop =
  el_clock :: ms
  el_next :: nat
  el_timeouts :: "(nat, ms) jmap"
  el_intervals :: "(nat, ms \<times> ms) jmap"

definition setTimeout :: "ms \<Rightarrow> 'a event_loop_scheme \<Rightarrow> nat \<times> 'a event_loop_scheme" where
  "setTimeout d l =
     (el_next l, l\<lparr>el_next := Suc (el_next l),
                   el_timeouts := el_timeouts l @ [(el_next l, el_clock l + max 0 d)]\<rparr>)"


definition clearTimeout :: "nat \<Rightarrow> 'a event_loop_scheme \<Rightarrow> 'a event_loop_scheme" where
  "clearTimeout h l = l\<lparr>el_timeouts := jm_delete h (el_timeouts l)\<rparr>"

definition setInterval :: "ms \<Rightarrow> 'a event_loop_scheme \<Rightarrow> nat \<times> 'a event_loop_scheme" where
  "setInterval d l =
     (el_next l, l\<lparr>el_next := Suc (el_next l),
                   el_intervals := el_intervals l @ [(el_next l, (el_clock l + max 0 d, max 0 d))]\<rparr>)"

definition clearInterval :: "nat \<Rightarrow> 'a event_loop_scheme \<Rightarrow> 'a event_loop_scheme" where
  "clearInterval h l = l\<lparr>el_intervals := jm_delete h (el_intervals l)\<rparr>"

definition pass_time :: "ms \<Rightarrow> 'a event_loop_scheme \<Rightarrow> 'a event_loop_scheme" where
  "pass_time d l = l\<lparr>el_clock := el_clock l + max 0 d\<rparr>"

definition empty_loop :: "ms \<Rightarrow> event_loop" where
  "empty_loop c = \<lparr>el_clock = c, el_next = 0, el_timeouts = [], el_intervals = []\<rparr>"

lemmas loop_defs = setTimeout_def clearTimeout_def setInterval_def clearInterval_def pass_time_def

subsection \<open>The disposable base class and the state the timer classes share\<close>

datatype disposed_error = DisposedError string

datatype timer_state = IDLE | RUNNING | PAUSED | COMPLETED | DISPOSED

record timer_stats =
  startCount :: nat
  executionCount :: nat
  cancelCount :: nat
  restartCount :: nat
  lastExecutionAt :: "ms option"

definition zero_stats :: timer_stats where
  "zero_stats = \<lparr>startCount = 0, executionCount = 0, cancelCount = 0, restartCount = 0, lastExecutionAt = None\<rparr>"

text \<open>
  \<open>tm_signal\<close> is \<open>None\<close> when no \<open>AbortSignal\<close> was given, otherwise whether it has aborted;
  \<open>tm_abortHandler\<close> is whether the listener is registered.
\<close>

record timer_base = event_loop +
  tm_timerId :: "nat option"
  tm_state :: timer_state
  tm_signal :: "bool option"
  tm_abortHandler :: bool
  tm_stats :: timer_stats
  tm_isDisposed :: bool

abbreviation aborted :: "'a timer_base_scheme \<Rightarrow> bool" where
  "aborted t \<equiv> tm_signal t = Some True"

definition ensureNotDisposed :: "string \<Rightarrow> 'a timer_base_scheme \<Rightarrow> disposed_error + unit" where
  "ensureNotDisposed cls t = (if tm_isDisposed t then Inl (DisposedError cls) else Inr ())"

definition clearTimer :: "'a timer_base_scheme \<Rightarrow> 'a timer_base_scheme" where
  "clearTimer t = (case tm_timerId t of None \<Rightarrow> t | Some h \<Rightarrow> (clearTimeout h t)\<lparr>tm_timerId := None\<rparr>)"

definition note_start :: "'a timer_base_scheme \<Rightarrow> 'a timer_base_scheme" where
  "note_start t = t\<lparr>tm_stats := (tm_stats t)\<lparr>startCount := startCount (tm_stats t) + 1\<rparr>\<rparr>"

definition note_cancel :: "'a timer_base_scheme \<Rightarrow> 'a timer_base_scheme" where
  "note_cancel t = t\<lparr>tm_stats := (tm_stats t)\<lparr>cancelCount := cancelCount (tm_stats t) + 1\<rparr>\<rparr>"

definition note_restart :: "'a timer_base_scheme \<Rightarrow> 'a timer_base_scheme" where
  "note_restart t = t\<lparr>tm_stats := (tm_stats t)\<lparr>restartCount := restartCount (tm_stats t) + 1\<rparr>\<rparr>"

definition note_execution :: "'a timer_base_scheme \<Rightarrow> 'a timer_base_scheme" where
  "note_execution t =
     t\<lparr>tm_stats := (tm_stats t)\<lparr>executionCount := executionCount (tm_stats t) + 1,
                                lastExecutionAt := Some (el_clock t)\<rparr>\<rparr>"

subsection \<open>\<open>SafeTimer\<close>\<close>

record safe_timer = timer_base +
  st_delay :: ms

definition st_isActive :: "'a safe_timer_scheme \<Rightarrow> bool" where
  "st_isActive t = (tm_state t = RUNNING)"

definition st_start :: "'a safe_timer_scheme \<Rightarrow> disposed_error + 'a safe_timer_scheme" where
  "st_start t =
     (case ensureNotDisposed ''SafeTimer'' t of
        Inl e \<Rightarrow> Inl e
      | Inr _ \<Rightarrow>
          Inr (if aborted t then t
               else if tm_state t = RUNNING then t
               else (let t1 = note_start ((clearTimer t)\<lparr>tm_state := RUNNING\<rparr>);
                         (h, t2) = setTimeout (st_delay t1) t1
                     in t2\<lparr>tm_timerId := Some h\<rparr>)))"

definition st_cancel :: "'a safe_timer_scheme \<Rightarrow> 'a safe_timer_scheme" where
  "st_cancel t =
     (if tm_state t \<noteq> RUNNING then t
      else note_cancel ((clearTimer t)\<lparr>tm_state := IDLE\<rparr>))"

definition st_restart :: "'a safe_timer_scheme \<Rightarrow> disposed_error + 'a safe_timer_scheme" where
  "st_restart t =
     (case ensureNotDisposed ''SafeTimer'' t of
        Inl e \<Rightarrow> Inl e
      | Inr _ \<Rightarrow> st_start (if tm_state t = RUNNING then note_restart (clearTimer t) else t))"

definition st_executeCallback ::
  "('a safe_timer_scheme \<Rightarrow> 'a safe_timer_scheme) \<Rightarrow> 'a safe_timer_scheme \<Rightarrow> 'a safe_timer_scheme" where
  "st_executeCallback callback t =
     (if tm_isDisposed t then t
      else if aborted t then t
      else callback (note_execution (t\<lparr>tm_state := COMPLETED, tm_timerId := None\<rparr>)))"

definition st_flush ::
  "('a safe_timer_scheme \<Rightarrow> 'a safe_timer_scheme) \<Rightarrow> 'a safe_timer_scheme \<Rightarrow> disposed_error + 'a safe_timer_scheme" where
  "st_flush callback t =
     (case ensureNotDisposed ''SafeTimer'' t of
        Inl e \<Rightarrow> Inl e
      | Inr _ \<Rightarrow> Inr (if tm_state t \<noteq> RUNNING then t else st_executeCallback callback (clearTimer t)))"

definition st_handleAbort :: "'a safe_timer_scheme \<Rightarrow> 'a safe_timer_scheme" where
  "st_handleAbort t = (st_cancel t)\<lparr>tm_state := DISPOSED\<rparr>"

definition st_onDispose :: "'a safe_timer_scheme \<Rightarrow> 'a safe_timer_scheme" where
  "st_onDispose t =
     (let t1 = (clearTimer t)\<lparr>tm_state := DISPOSED\<rparr>
      in (if tm_signal t1 \<noteq> None \<and> tm_abortHandler t1 then t1\<lparr>tm_abortHandler := False\<rparr> else t1))"

definition st_dispose :: "'a safe_timer_scheme \<Rightarrow> 'a safe_timer_scheme" where
  "st_dispose t = (if tm_isDisposed t then t else st_onDispose (t\<lparr>tm_isDisposed := True\<rparr>))"

definition new_SafeTimer :: "ms \<Rightarrow> ms \<Rightarrow> bool option \<Rightarrow> bool \<Rightarrow> safe_timer" where
  "new_SafeTimer now delay signal autoStart =
     (let t = event_loop.extend (empty_loop now)
                \<lparr>tm_timerId = None, tm_state = IDLE, tm_signal = signal, tm_abortHandler = (signal \<noteq> None),
                 tm_stats = zero_stats, tm_isDisposed = False, st_delay = delay\<rparr>
      in (if autoStart then (case st_start t of Inr t' \<Rightarrow> t' | Inl _ \<Rightarrow> t) else t))"

subsection \<open>Events of a timer and the contract of a disposable object\<close>

text \<open>A call that throws leaves the object as it was.\<close>

definition after_call :: "'s \<Rightarrow> 'e + 's \<Rightarrow> 's" where
  "after_call s r = (case r of Inl _ \<Rightarrow> s | Inr s' \<Rightarrow> s')"

lemma after_call_simps [simp]: "after_call s (Inl e) = s" "after_call s (Inr s') = s'"
  by (simp_all add: after_call_def)

definition st_abort :: "'a safe_timer_scheme \<Rightarrow> 'a safe_timer_scheme" where
  "st_abort t =
     (if tm_signal t = Some False
      then (let t1 = t\<lparr>tm_signal := Some True\<rparr> in if tm_abortHandler t1 then st_handleAbort t1 else t1)
      else t)"

text \<open>The host takes an expired handle off the list and runs the function given to \<open>setTimeout\<close>.\<close>

definition st_fire ::
  "('a safe_timer_scheme \<Rightarrow> 'a safe_timer_scheme) \<Rightarrow> nat \<Rightarrow> 'a safe_timer_scheme \<Rightarrow> 'a safe_timer_scheme" where
  "st_fire callback h t =
     (case jm_get (el_timeouts t) h of
        None \<Rightarrow> t
      | Some due \<Rightarrow> if due \<le> el_clock t then st_executeCallback callback (clearTimeout h t) else t)"

datatype st_event = StStart | StCancel | StRestart | StFlush | StAbort | StDispose | StPass ms | StFire nat

fun st_step ::
  "('a safe_timer_scheme \<Rightarrow> 'a safe_timer_scheme) \<Rightarrow> st_event \<Rightarrow> 'a safe_timer_scheme \<Rightarrow> 'a safe_timer_scheme" where
  "st_step cb StStart t = after_call t (st_start t)"
| "st_step cb StCancel t = st_cancel t"
| "st_step cb StRestart t = after_call t (st_restart t)"
| "st_step cb StFlush t = after_call t (st_flush cb t)"
| "st_step cb StAbort t = st_abort t"
| "st_step cb StDispose t = st_dispose t"
| "st_step cb (StPass d) t = pass_time d t"
| "st_step cb (StFire h) t = st_fire cb h t"

lemmas st_defs = st_start_def st_cancel_def st_restart_def st_executeCallback_def st_flush_def st_handleAbort_def
  st_onDispose_def st_dispose_def st_abort_def st_fire_def st_isActive_def clearTimer_def ensureNotDisposed_def
  note_start_def note_cancel_def note_restart_def note_execution_def loop_defs Let_def

text \<open>What \<open>Disposable\<close> promises: disposing is idempotent and final, and nothing runs any more.\<close>

locale disposable_object =
  fixes step :: "'e \<Rightarrow> 's \<Rightarrow> 's"
    and dispose :: "'s \<Rightarrow> 's"
    and disposed :: "'s \<Rightarrow> bool"
    and runs :: "'s \<Rightarrow> nat"
  assumes dispose_disposed: "disposed (dispose s)"
    and dispose_idem: "disposed s \<Longrightarrow> dispose s = s"
    and dispose_runs: "runs (dispose s) = runs s"
    and disposed_stays: "disposed s \<Longrightarrow> disposed (step e s)"
    and disposed_silent: "disposed s \<Longrightarrow> runs (step e s) = runs s"
begin

lemma disposed_final: "disposed s \<Longrightarrow> disposed (fold step es s) \<and> runs (fold step es s) = runs s"
  by (induction es arbitrary: s) (auto simp: disposed_stays disposed_silent)

lemma silent_after_dispose: "runs (fold step es (dispose s)) = runs s"
  using disposed_final [of "dispose s" es] by (simp add: dispose_disposed dispose_runs)

lemma dispose_twice: "dispose (dispose s) = dispose s"
  by (simp add: dispose_idem dispose_disposed)

end

abbreviation executions :: "'a timer_base_scheme \<Rightarrow> nat" where
  "executions t \<equiv> executionCount (tm_stats t)"

lemma st_disposed_step:
  "tm_isDisposed t \<Longrightarrow> tm_isDisposed (st_step cb e t) \<and> executions (st_step cb e t) = executions t"
  by (cases e) (auto simp: st_defs split: option.splits)

interpretation st: disposable_object "st_step cb" st_dispose tm_isDisposed executions for cb
proof unfold_locales
  fix t :: "'a safe_timer_scheme"
  show "tm_isDisposed (st_dispose t)" "executions (st_dispose t) = executions t"
    by (auto simp: st_defs split: option.splits)
qed (auto simp: st_disposed_step st_dispose_def)

subsection \<open>Invariant\<close>

definition st_ok :: "'a safe_timer_scheme \<Rightarrow> bool" where
  "st_ok t \<longleftrightarrow>
     (case tm_timerId t of
        None \<Rightarrow> el_timeouts t = []
      | Some h \<Rightarrow> map fst (el_timeouts t) = [h] \<and> h < el_next t \<and> tm_state t = RUNNING \<and> \<not> aborted t \<and> \<not> tm_isDisposed t) \<and>
     (tm_signal t = Some False \<and> \<not> tm_isDisposed t \<longrightarrow> tm_abortHandler t)"

definition st_live :: "'a safe_timer_scheme \<Rightarrow> bool" where
  "st_live t \<longleftrightarrow> (tm_state t = RUNNING \<longrightarrow> tm_timerId t \<noteq> None)"

lemma st_ok_timeouts:
  assumes "st_ok t" "jm_get (el_timeouts t) h = Some due"
  shows "tm_timerId t = Some h \<and> el_timeouts t = [(h, due)]"
  using assms by (auto simp: st_ok_def jm_get_def split: option.splits if_splits)

text \<open>The object as the callback finds it.\<close>

definition st_called :: "'a safe_timer_scheme \<Rightarrow> 'a safe_timer_scheme" where
  "st_called t = note_execution (t\<lparr>el_timeouts := [], tm_state := COMPLETED, tm_timerId := None\<rparr>)"

text \<open>An event runs the callback on that object, or it is one of the operations, without it.\<close>

lemma keep_timeouts: "el_timeouts t = [] \<Longrightarrow> t\<lparr>el_timeouts := []\<rparr> = t"
  by (cases t) simp

lemma st_flush_cases:
  assumes "st_ok t"
  shows "after_call t (st_flush cb t)
         = (if tm_state t = RUNNING \<and> \<not> aborted t \<and> \<not> tm_isDisposed t then cb (st_called t) else t)"
proof (cases "tm_timerId t")
  case None
  with assms have "el_timeouts t = []" by (simp add: st_ok_def)
  from keep_timeouts [OF this] None show ?thesis
    by (auto simp: st_flush_def ensureNotDisposed_def st_executeCallback_def clearTimer_def st_called_def)
next
  case (Some h)
  with assms show ?thesis
    by (auto simp: st_flush_def ensureNotDisposed_def st_executeCallback_def clearTimer_def clearTimeout_def st_called_def
        st_ok_def jm_delete_def)
qed

lemma st_fire_cases:
  assumes "st_ok t"
  shows "st_fire cb h t = (if \<exists>due. el_timeouts t = [(h, due)] \<and> due \<le> el_clock t then cb (st_called t) else t)"
proof (cases "jm_get (el_timeouts t) h")
  case None
  then show ?thesis by (auto simp: st_fire_def jm_get_def)
next
  case (Some due)
  from st_ok_timeouts [OF assms this] assms have "tm_timerId t = Some h" "el_timeouts t = [(h, due)]" "\<not> aborted t" "\<not> tm_isDisposed t"
    by (auto simp: st_ok_def)
  then show ?thesis
    by (simp add: st_fire_def jm_get_def st_executeCallback_def clearTimeout_def st_called_def jm_delete_def)
qed

lemma st_step_cases:
  assumes "st_ok t"
  obtains (call) "tm_state t = RUNNING" "\<not> tm_isDisposed t" "\<not> aborted t" "\<And>cb. st_step cb e t = cb (st_called t)"
    | (keep) "\<And>cb. st_step cb e t = t"
    | (plain) "\<And>h. e \<noteq> StFire h" "e \<noteq> StFlush" "\<And>cb. st_step cb e t = st_step (\<lambda>u. u) e t"
proof (cases e)
  case StFlush
  with st_flush_cases [OF assms] that(1,2) show ?thesis
    by (cases "tm_state t = RUNNING \<and> \<not> aborted t \<and> \<not> tm_isDisposed t") (simp_all del: de_Morgan_conj)
next
  case (StFire h)
  show ?thesis
  proof (cases "\<exists>due. el_timeouts t = [(h, due)] \<and> due \<le> el_clock t")
    case True
    with assms have "tm_timerId t \<noteq> None" by (auto simp: st_ok_def split: option.splits)
    with assms have "tm_state t = RUNNING" "\<not> tm_isDisposed t" "\<not> aborted t" by (auto simp: st_ok_def)
    with True StFire st_fire_cases [OF assms] that(1) show ?thesis by simp
  next
    case False
    with StFire st_fire_cases [OF assms] that(2) show ?thesis by simp
  qed
qed (use that(3) in simp_all)

lemma st_ok_called: "st_ok t \<Longrightarrow> st_ok (st_called t)"
  by (simp add: st_ok_def st_called_def note_execution_def)

lemma st_ok_step:
  assumes "st_ok t" "\<And>u. st_ok u \<Longrightarrow> st_ok (cb u)"
  shows "st_ok (st_step cb e t)"
  using assms(1)
proof (cases rule: st_step_cases [where e = e])
  case call
  with assms show ?thesis by (simp add: st_ok_called)
next
  case plain
  with assms(1) show ?thesis
    by (cases e) (auto simp: st_defs st_ok_def jm_delete_def split: option.splits)
qed (simp add: assms(1))

lemma st_ok_run:
  assumes "st_ok t" "\<And>u. st_ok u \<Longrightarrow> st_ok (cb u)"
  shows "st_ok (fold (st_step cb) es t)"
  using assms(1) by (induction es arbitrary: t) (auto intro: st_ok_step assms(2))

lemma st_ok_new: "st_ok (new_SafeTimer now d signal auto)"
  by (auto simp: new_SafeTimer_def st_defs st_ok_def empty_loop_def event_loop.extend_def)

text \<open>Except by a restart while running, a running timer keeps an armed handle.\<close>

lemma st_live_step:
  assumes "st_ok t" "st_live t" "e = StRestart \<longrightarrow> tm_state t \<noteq> RUNNING" "\<And>u. st_ok u \<Longrightarrow> st_live u \<Longrightarrow> st_live (cb u)"
  shows "st_live (st_step cb e t)"
  using assms(1)
proof (cases rule: st_step_cases [where e = e])
  case call
  have "st_live (st_called t)" by (simp add: st_live_def st_called_def note_execution_def)
  with call st_ok_called [OF assms(1)] assms(4) show ?thesis by simp
next
  case plain
  with assms show ?thesis
    by (cases e) (auto simp: st_defs st_live_def split: option.splits)
qed (simp add: assms(2))

subsection \<open>Accounting\<close>

definition st_accounted :: "'a safe_timer_scheme \<Rightarrow> bool" where
  "st_accounted t \<longleftrightarrow>
     executions t + cancelCount (tm_stats t) + (if st_isActive t then 1 else 0) \<le> startCount (tm_stats t)"

lemma st_accounted_step:
  assumes "st_ok t" "st_accounted t" "\<And>u. st_ok u \<Longrightarrow> st_accounted u \<Longrightarrow> st_accounted (cb u)"
  shows "st_accounted (st_step cb e t)"
  using assms(1)
proof (cases rule: st_step_cases [where e = e])
  case call
  with assms(2) have "st_accounted (st_called t)"
    by (simp add: st_accounted_def st_isActive_def st_called_def note_execution_def)
  with call st_ok_called [OF assms(1)] assms(3) show ?thesis by simp
next
  case plain
  with assms(2) show ?thesis
    by (cases e) (auto simp: st_defs st_accounted_def split: option.splits)
qed (simp add: assms(2))

lemma st_run_accounted:
  assumes "st_ok t" "st_accounted t"
    and "\<And>u. st_ok u \<Longrightarrow> st_accounted u \<Longrightarrow> st_ok (cb u) \<and> st_accounted (cb u)"
    and "\<And>u. st_ok u \<Longrightarrow> st_ok (cb u)"
  shows "st_accounted (fold (st_step cb) es t)"
  using assms(1,2)
proof (induction es arbitrary: t)
  case (Cons e es)
  then have "st_ok (st_step cb e t)" "st_accounted (st_step cb e t)"
    using st_ok_step [of t cb e] st_accounted_step [of t cb e] assms(3,4) by blast+
  with Cons.IH show ?case by simp
qed simp

text \<open>In any run of a timer, whatever is called on it, from outside or by its own callback, each start
  leads to at most one execution of the callback: executions and cancellations together never exceed the starts.
\<close>

theorem timer_runs_at_most_once_per_start:
  assumes "set script \<subseteq> {StStart, StCancel, StRestart, StAbort, StDispose}"
  shows "let t = fold (st_step (fold (st_step (\<lambda>u. u)) script)) es (new_SafeTimer now delay signal auto)
         in executions t + cancelCount (tm_stats t) \<le> startCount (tm_stats t)"
proof -
  define cb where "cb = fold (st_step (\<lambda>u :: safe_timer. u)) script"
  have cb: "st_ok (cb u) \<and> (st_accounted u \<longrightarrow> st_accounted (cb u))" if "st_ok u" for u
    using that assms unfolding cb_def
  proof (induction script arbitrary: u)
    case (Cons e es)
    have ok: "st_ok (st_step (\<lambda>u. u) e u)" using Cons.prems(1) by (simp add: st_ok_step)
    have "st_accounted u \<longrightarrow> st_accounted (st_step (\<lambda>u. u) e u)"
      using Cons.prems(1) by (simp add: st_accounted_step)
    with Cons.IH [OF ok] Cons.prems(2) show ?case by simp
  qed simp
  have "st_accounted (new_SafeTimer now delay signal auto)"
    by (auto simp: new_SafeTimer_def st_defs st_accounted_def empty_loop_def event_loop.extend_def zero_stats_def)
  with st_ok_new cb have "st_accounted (fold (st_step cb) es (new_SafeTimer now delay signal auto))"
    by (intro st_run_accounted) auto
  then show ?thesis by (simp add: st_accounted_def cb_def Let_def)
qed

lemma timer_runs_at_most_once_per_start_witness:
  "set [StStart] \<subseteq> {StStart, StCancel, StRestart, StAbort, StDispose} \<and>
   (let t = fold (st_step (fold (st_step (\<lambda>u. u)) [StStart])) [StPass 5, StFire 0, StPass 5, StFire 1] (new_SafeTimer 0 5 None True)
    in executions t = 2 \<and> startCount (tm_stats t) = 3 \<and> executions t + cancelCount (tm_stats t) \<le> startCount (tm_stats t))"
proof -
  have "(let t = fold (st_step (fold (st_step (\<lambda>u. u)) [StStart])) [StPass 5, StFire 0, StPass 5, StFire 1] (new_SafeTimer 0 5 None True)
    in executions t = 2 \<and> startCount (tm_stats t) = 3)" by code_simp
  with timer_runs_at_most_once_per_start [of "[StStart]" "[StPass 5, StFire 0, StPass 5, StFire 1]" 0 5 None True]
  show ?thesis by (simp add: Let_def)
qed

text \<open>
  A started timer is armed, and the host runs its callback exactly when the delay has passed: not
  before, and once.
\<close>

theorem started_timer_fires_when_due:
  assumes "st_ok t" and "st_start t = Inr t'" and "\<not> aborted t" and "\<not> st_isActive t" and "0 \<le> st_delay t" and "0 \<le> d"
  shows "\<exists>h. tm_timerId t' = Some h \<and> st_isActive t' \<and>
    st_fire cb h (pass_time d t') = (if d < st_delay t then pass_time d t' else cb (st_called (pass_time d t'))) \<and>
    (\<forall>h' u. st_fire cb h' (st_called u) = st_called u)"
proof -
  define t0 where "t0 = note_start ((clearTimer t)\<lparr>tm_state := RUNNING\<rparr>)"
  have e0: "el_timeouts t0 = []" "st_delay t0 = st_delay t" "el_clock t0 = el_clock t" "tm_state t0 = RUNNING"
    "tm_isDisposed t0 = tm_isDisposed t" "tm_signal t0 = tm_signal t"
    using assms(1) unfolding t0_def
    by (auto simp: note_start_def clearTimer_def clearTimeout_def st_ok_def jm_delete_def split: option.splits)
  have nd: "\<not> tm_isDisposed t" and t': "t' = (snd (setTimeout (st_delay t0) t0))\<lparr>tm_timerId := Some (el_next t0)\<rparr>"
    using assms(2-4) by (auto simp: st_start_def ensureNotDisposed_def st_isActive_def t0_def setTimeout_def Let_def split: if_splits)
  have to: "el_timeouts t' = [(el_next t0, el_clock t + st_delay t)]" "tm_timerId t' = Some (el_next t0)" "st_isActive t'"
    "el_clock t' = el_clock t"
    using assms(5) by (simp_all add: t' setTimeout_def e0 st_isActive_def)
  have ok: "st_ok (pass_time d t')"
  proof -
    have "t' = st_step (\<lambda>u. u) StStart t" by (simp add: assms(2))
    then have "st_ok t'" using st_ok_step [OF assms(1), of "\<lambda>u. u" StStart] by simp
    then show ?thesis using st_ok_step [of t' "\<lambda>u. u" "StPass d"] by simp
  qed
  have "st_fire cb (el_next t0) (pass_time d t') = (if d < st_delay t then pass_time d t' else cb (st_called (pass_time d t')))"
    using assms(6) st_fire_cases [OF ok, of cb "el_next t0"] to by (simp add: pass_time_def)
  moreover have "st_fire cb h' (st_called u) = st_called u" for h' u
    by (simp add: st_fire_def st_called_def note_execution_def)
  ultimately show ?thesis using to by blast
qed

lemma started_timer_fires_when_due_witness:
  "\<exists>h. st_fire (\<lambda>u. u) h (pass_time 5 (new_SafeTimer 0 5 None True)) = st_called (pass_time 5 (new_SafeTimer 0 5 None True))"
  using started_timer_fires_when_due
    [of "new_SafeTimer 0 5 None False" "new_SafeTimer 0 5 None True" 5 "\<lambda>u. u", OF st_ok_new]
  by (auto simp: new_SafeTimer_def st_defs empty_loop_def event_loop.extend_def)

text \<open>
  \<open>restart\<close> of a running timer takes the pending timeout away and does not arm a new one, because the
  state is still \<open>RUNNING\<close> when it calls \<open>start\<close>. The timer reports that it is active, and however often
  it is started or restarted again and however long one waits, its callback never runs.
\<close>

lemma lost_timer_step:
  assumes "tm_state t = RUNNING" "el_timeouts t = []" "tm_timerId t = None" "e \<in> {StStart, StRestart, StPass d, StFire h}"
  shows "tm_state (st_step cb e t) = RUNNING \<and> el_timeouts (st_step cb e t) = [] \<and> tm_timerId (st_step cb e t) = None
    \<and> executions (st_step cb e t) = executions t"
  using assms by (auto simp: st_defs)

theorem restarted_timer_never_fires:
  assumes "st_ok t" and "st_isActive t" and "\<not> tm_isDisposed t"
    and "\<forall>e\<in>set es. e = StStart \<or> e = StRestart \<or> (\<exists>d. e = StPass d) \<or> (\<exists>h. e = StFire h)"
  shows "let u = fold (st_step cb) (StRestart # es) t in st_isActive u \<and> executions u = executions t"
proof -
  have "tm_state t' = RUNNING \<and> el_timeouts t' = [] \<and> tm_timerId t' = None \<Longrightarrow>
     tm_state (fold (st_step cb) es t') = RUNNING \<and> executions (fold (st_step cb) es t') = executions t'" for t'
    using assms(4)
  proof (induction es arbitrary: t')
    case (Cons e es)
    from Cons.prems(2) obtain d h where e: "e \<in> {StStart, StRestart, StPass d, StFire h}" by auto
    with Cons.prems(1) lost_timer_step [of t' e d h cb] Cons.IH [of "st_step cb e t'"] Cons.prems(2) show ?case by auto
  qed simp
  moreover have "tm_state (st_step cb StRestart t) = RUNNING \<and> el_timeouts (st_step cb StRestart t) = []
    \<and> tm_timerId (st_step cb StRestart t) = None \<and> executions (st_step cb StRestart t) = executions t"
    using assms(1-3) by (auto simp: st_defs st_ok_def jm_delete_def split: option.splits)
  ultimately show ?thesis by (simp add: st_isActive_def Let_def)
qed

lemma restarted_timer_never_fires_witness:
  "let u = fold (st_step (\<lambda>u. u)) [StRestart, StPass 100, StFire 0, StRestart, StFire 1] (new_SafeTimer 0 5 None True)
   in st_isActive u \<and> executions u = 0"
proof -
  have "st_isActive (new_SafeTimer 0 5 None True)" "\<not> tm_isDisposed (new_SafeTimer 0 5 None True)"
    "executions (new_SafeTimer 0 5 None True) = 0" by code_simp+
  with restarted_timer_never_fires [of "new_SafeTimer 0 5 None True" "[StPass 100, StFire 0, StRestart, StFire 1]" "\<lambda>u. u", OF st_ok_new]
  show ?thesis by simp
qed

text \<open>A disposed timer never runs its callback again.\<close>

lemma timer_silent_after_dispose: "executions (fold (st_step cb) es (st_dispose t)) = executions t"
  by (rule st.silent_after_dispose)

text \<open>\<open>createOneShotTimer\<close>: the callback is followed by the disposal of the timer.\<close>

definition createOneShotTimer ::
  "ms \<Rightarrow> ms \<Rightarrow> bool option \<Rightarrow> (safe_timer \<Rightarrow> safe_timer) \<Rightarrow> (safe_timer \<Rightarrow> safe_timer) \<times> safe_timer" where
  "createOneShotTimer now delay signal callback = (\<lambda>t. st_dispose (callback t), new_SafeTimer now delay signal True)"

lemma one_shot_runs_once:
  assumes "createOneShotTimer now delay signal (\<lambda>u. u) = (cb, t)"
  shows "executions (fold (st_step cb) es t) \<le> 1"
proof -
  have cb: "cb = st_dispose" and t: "t = new_SafeTimer now delay signal True"
    using assms by (auto simp: createOneShotTimer_def)
  have step: "executions (st_step cb e u) \<le> Suc (executions u)
    \<and> (executions (st_step cb e u) \<noteq> executions u \<longrightarrow> tm_isDisposed (st_step cb e u))" if "st_ok u" for u :: safe_timer and e
    using that
  proof (cases rule: st_step_cases [where e = e])
    case call
    from call(4) [of cb] have "st_step cb e u = st_dispose (st_called u)" by (simp add: cb)
    then show ?thesis by (simp add: st.dispose_runs st.dispose_disposed) (simp add: st_called_def note_execution_def)
  next
    case plain
    then show ?thesis by (cases e) (auto simp: st_defs split: option.splits)
  qed simp_all
  have "st_ok u \<Longrightarrow> executions (fold (st_step cb) es u) \<le> Suc (executions u)" for u :: safe_timer
  proof (induction es arbitrary: u)
    case (Cons e es)
    have "st_ok v \<Longrightarrow> st_ok (cb v)" for v
      using st_ok_step [of v "\<lambda>u. u" StDispose] by (simp add: cb)
    with st_ok_step [OF Cons.prems, of cb e] have ok: "st_ok (st_step cb e u)" by blast
    show ?case
    proof (cases "executions (st_step cb e u) = executions u")
      case True
      with Cons.IH [OF ok] show ?thesis by simp
    next
      case False
      with step [OF Cons.prems] st.disposed_final [of "st_step cb e u" cb es] show ?thesis by auto
    qed
  qed simp
  moreover have "executions (new_SafeTimer now delay signal True) = 0"
    by (simp add: new_SafeTimer_def st_defs empty_loop_def event_loop.extend_def zero_stats_def)
  ultimately show ?thesis using st_ok_new [of now delay signal True] unfolding t by (metis One_nat_def)
qed

end
