(* ===== verification/Managed_Interval.thy ===== *)
theory Managed_Interval
  imports Safe_Timer
begin

text \<open>
  The disposable interval \<open>ManagedInterval\<close> (\<open>libs/foundation/utils/src/timer/managed-interval.ts\<close>).
  \<open>executeCallback\<close> is asynchronous: \<open>mi_executeCallback\<close> is its part up to the \<open>await\<close> of the callback,
  \<open>mi_resume\<close> the part after it, which the host runs later; \<open>mi_awaiting\<close> counts the callbacks in between.
  An absent iteration limit is \<open>None\<close>.
\<close>

record managed_interval = timer_base +
  mi_interval :: ms
  mi_maxIterations :: "nat option"
  mi_immediate :: bool
  mi_currentIteration :: nat
  mi_completedNaturally :: bool
  mi_awaiting :: nat

definition mi_isActive :: "'a managed_interval_scheme \<Rightarrow> bool" where
  "mi_isActive t = (tm_state t = RUNNING)"

definition mi_remainingIterations :: "'a managed_interval_scheme \<Rightarrow> nat option" where
  "mi_remainingIterations t =
     (case mi_maxIterations t of None \<Rightarrow> None | Some n \<Rightarrow> Some (n - mi_currentIteration t))"

definition mi_reached :: "'a managed_interval_scheme \<Rightarrow> bool" where
  "mi_reached t = (case mi_maxIterations t of None \<Rightarrow> False | Some n \<Rightarrow> n \<le> mi_currentIteration t)"

definition mi_clearInterval :: "'a managed_interval_scheme \<Rightarrow> 'a managed_interval_scheme" where
  "mi_clearInterval t = (case tm_timerId t of None \<Rightarrow> t | Some h \<Rightarrow> (clearInterval h t)\<lparr>tm_timerId := None\<rparr>)"

definition mi_cancel :: "'a managed_interval_scheme \<Rightarrow> 'a managed_interval_scheme" where
  "mi_cancel t =
     (if tm_state t \<noteq> RUNNING then t
      else note_cancel ((mi_clearInterval t)\<lparr>tm_state := IDLE\<rparr>))"

definition mi_stop :: "'a managed_interval_scheme \<Rightarrow> 'a managed_interval_scheme" where
  "mi_stop t = mi_cancel t"

definition mi_complete :: "'a managed_interval_scheme \<Rightarrow> 'a managed_interval_scheme" where
  "mi_complete t = (mi_stop (t\<lparr>mi_completedNaturally := True\<rparr>))\<lparr>tm_state := COMPLETED\<rparr>"

definition mi_executeCallback ::
  "('a managed_interval_scheme \<Rightarrow> 'a managed_interval_scheme) \<Rightarrow> 'a managed_interval_scheme \<Rightarrow> 'a managed_interval_scheme" where
  "mi_executeCallback callback t =
     (if tm_isDisposed t then t
      else if aborted t then t
      else if mi_reached t then mi_complete t
      else (let t1 = callback (note_execution (t\<lparr>mi_currentIteration := mi_currentIteration t + 1\<rparr>))
            in t1\<lparr>mi_awaiting := mi_awaiting t1 + 1\<rparr>))"

definition mi_resume :: "'a managed_interval_scheme \<Rightarrow> 'a managed_interval_scheme" where
  "mi_resume t =
     (if mi_awaiting t = 0 then t
      else (let t1 = t\<lparr>mi_awaiting := mi_awaiting t - 1\<rparr>
            in (if mi_reached t1 then mi_complete t1 else t1)))"

definition mi_start ::
  "('a managed_interval_scheme \<Rightarrow> 'a managed_interval_scheme) \<Rightarrow> 'a managed_interval_scheme
     \<Rightarrow> disposed_error + 'a managed_interval_scheme" where
  "mi_start callback t =
     (case ensureNotDisposed ''ManagedInterval'' t of
        Inl e \<Rightarrow> Inl e
      | Inr _ \<Rightarrow>
          Inr (if aborted t then t
               else if tm_state t = RUNNING then t
               else (let t1 = note_start ((mi_clearInterval t)\<lparr>tm_state := RUNNING\<rparr>);
                         t2 = (if mi_immediate t1 then mi_executeCallback callback t1 else t1);
                         (h, t3) = setInterval (mi_interval t2) t2
                     in t3\<lparr>tm_timerId := Some h\<rparr>)))"

definition mi_restart ::
  "('a managed_interval_scheme \<Rightarrow> 'a managed_interval_scheme) \<Rightarrow> 'a managed_interval_scheme
     \<Rightarrow> disposed_error + 'a managed_interval_scheme" where
  "mi_restart callback t =
     (case ensureNotDisposed ''ManagedInterval'' t of
        Inl e \<Rightarrow> Inl e
      | Inr _ \<Rightarrow>
          (let t1 = (if tm_state t = RUNNING then note_restart (mi_clearInterval t) else t)
           in mi_start callback (t1\<lparr>mi_currentIteration := 0, mi_completedNaturally := False\<rparr>)))"

definition mi_resetIterations :: "'a managed_interval_scheme \<Rightarrow> 'a managed_interval_scheme" where
  "mi_resetIterations t = t\<lparr>mi_currentIteration := 0, mi_completedNaturally := False\<rparr>"

definition mi_handleAbort :: "'a managed_interval_scheme \<Rightarrow> 'a managed_interval_scheme" where
  "mi_handleAbort t = (mi_stop t)\<lparr>tm_state := DISPOSED\<rparr>"

definition mi_onDispose :: "'a managed_interval_scheme \<Rightarrow> 'a managed_interval_scheme" where
  "mi_onDispose t =
     (let t1 = (mi_clearInterval t)\<lparr>tm_state := DISPOSED\<rparr>
      in (if tm_signal t1 \<noteq> None \<and> tm_abortHandler t1 then t1\<lparr>tm_abortHandler := False\<rparr> else t1))"

definition mi_dispose :: "'a managed_interval_scheme \<Rightarrow> 'a managed_interval_scheme" where
  "mi_dispose t = (if tm_isDisposed t then t else mi_onDispose (t\<lparr>tm_isDisposed := True\<rparr>))"

definition new_ManagedInterval ::
  "(managed_interval \<Rightarrow> managed_interval) \<Rightarrow> ms \<Rightarrow> ms \<Rightarrow> nat option \<Rightarrow> bool option \<Rightarrow> bool option \<Rightarrow> bool \<Rightarrow> managed_interval" where
  "new_ManagedInterval callback now interval maxIterations signal immediate autoStart =
     (let t = event_loop.extend (empty_loop now)
                \<lparr>tm_timerId = None, tm_state = IDLE, tm_signal = signal, tm_abortHandler = (signal \<noteq> None),
                 tm_stats = zero_stats, tm_isDisposed = False, mi_interval = interval,
                 mi_maxIterations = maxIterations, mi_immediate = (case immediate of Some b \<Rightarrow> b | None \<Rightarrow> False),
                 mi_currentIteration = 0, mi_completedNaturally = False, mi_awaiting = 0\<rparr>
      in (if autoStart then after_call t (mi_start callback t) else t))"

subsection \<open>Events\<close>

definition mi_abort :: "'a managed_interval_scheme \<Rightarrow> 'a managed_interval_scheme" where
  "mi_abort t =
     (if tm_signal t = Some False
      then (let t1 = t\<lparr>tm_signal := Some True\<rparr> in if tm_abortHandler t1 then mi_handleAbort t1 else t1)
      else t)"

text \<open>The host runs the function of an armed interval whose time has come and arms it for the next period.\<close>

definition mi_fire ::
  "('a managed_interval_scheme \<Rightarrow> 'a managed_interval_scheme) \<Rightarrow> nat \<Rightarrow> 'a managed_interval_scheme
     \<Rightarrow> 'a managed_interval_scheme" where
  "mi_fire callback h t =
     (case jm_get (el_intervals t) h of
        None \<Rightarrow> t
      | Some (due, period) \<Rightarrow>
          if due \<le> el_clock t
          then mi_executeCallback callback (t\<lparr>el_intervals := jm_set h (el_clock t + period, period) (el_intervals t)\<rparr>)
          else t)"

datatype mi_event = MiStart | MiCancel | MiRestart | MiReset | MiAbort | MiDispose | MiPass ms | MiFire nat | MiResume

fun mi_step ::
  "('a managed_interval_scheme \<Rightarrow> 'a managed_interval_scheme) \<Rightarrow> mi_event \<Rightarrow> 'a managed_interval_scheme
     \<Rightarrow> 'a managed_interval_scheme" where
  "mi_step cb MiStart t = after_call t (mi_start cb t)"
| "mi_step cb MiCancel t = mi_cancel t"
| "mi_step cb MiRestart t = after_call t (mi_restart cb t)"
| "mi_step cb MiReset t = mi_resetIterations t"
| "mi_step cb MiAbort t = mi_abort t"
| "mi_step cb MiDispose t = mi_dispose t"
| "mi_step cb (MiPass d) t = pass_time d t"
| "mi_step cb (MiFire h) t = mi_fire cb h t"
| "mi_step cb MiResume t = mi_resume t"

lemmas mi_stop_defs = mi_cancel_def mi_stop_def mi_complete_def mi_clearInterval_def mi_reached_def
  ensureNotDisposed_def note_start_def note_cancel_def note_restart_def note_execution_def loop_defs Let_def

lemmas mi_defs = mi_start_def mi_restart_def mi_resetIterations_def mi_executeCallback_def mi_resume_def
  mi_handleAbort_def mi_onDispose_def mi_dispose_def mi_abort_def mi_fire_def mi_isActive_def mi_stop_defs

lemma mi_disposed_step:
  "tm_isDisposed t \<Longrightarrow> tm_isDisposed (mi_step cb e t) \<and> executions (mi_step cb e t) = executions t"
  by (cases e) (auto simp: mi_defs split: option.splits)

interpretation mi: disposable_object "mi_step cb" mi_dispose tm_isDisposed executions for cb
proof unfold_locales
  fix t :: "'a managed_interval_scheme"
  show "tm_isDisposed (mi_dispose t)" "executions (mi_dispose t) = executions t"
    by (auto simp: mi_defs split: option.splits)
qed (auto simp: mi_disposed_step mi_dispose_def)

subsection \<open>An interval without immediate execution is armed only while it runs\<close>

definition mi_ok :: "'a managed_interval_scheme \<Rightarrow> bool" where
  "mi_ok t \<longleftrightarrow>
     (case tm_timerId t of
        None \<Rightarrow> el_intervals t = []
      | Some h \<Rightarrow> map fst (el_intervals t) = [h] \<and> tm_state t = RUNNING \<and> \<not> aborted t \<and> \<not> tm_isDisposed t) \<and>
     (tm_signal t = Some False \<and> \<not> tm_isDisposed t \<longrightarrow> tm_abortHandler t) \<and> \<not> mi_immediate t"

lemma mi_ok_complete: "mi_ok t \<Longrightarrow> mi_ok (mi_complete t)"
  by (auto simp: mi_ok_def mi_stop_defs jm_delete_def split: option.splits)

lemma mi_ok_execute:
  assumes "mi_ok t" "\<And>u. mi_ok u \<Longrightarrow> mi_ok (cb u)"
  shows "mi_ok (mi_executeCallback cb t)"
proof -
  have "mi_ok (note_execution (t\<lparr>mi_currentIteration := mi_currentIteration t + 1\<rparr>))"
    using assms(1) by (auto simp: mi_ok_def note_execution_def split: option.splits)
  from assms(2) [OF this] have "mi_ok (u\<lparr>mi_awaiting := n\<rparr>)"
    if "u = cb (note_execution (t\<lparr>mi_currentIteration := mi_currentIteration t + 1\<rparr>))" for u n
    using that by (auto simp: mi_ok_def split: option.splits)
  with assms(1) mi_ok_complete [OF assms(1)] show ?thesis by (simp add: mi_executeCallback_def Let_def)
qed

lemma mi_ok_armed:
  assumes "mi_ok t" "jm_get (el_intervals t) h = Some (due, period)"
  shows "tm_timerId t = Some h \<and> el_intervals t = [(h, (due, period))]"
  using assms by (auto simp: mi_ok_def jm_get_def split: option.splits if_splits)

lemma mi_ok_fire:
  assumes "mi_ok t" "\<And>u. mi_ok u \<Longrightarrow> mi_ok (cb u)"
  shows "mi_ok (mi_fire cb h t)"
proof (cases "jm_get (el_intervals t) h")
  case (Some e)
  obtain due period where e: "e = (due, period)" by force
  from mi_ok_armed [OF assms(1) Some [unfolded e]] assms(1)
  have "mi_ok (t\<lparr>el_intervals := jm_set h (el_clock t + period, period) (el_intervals t)\<rparr>)"
    by (simp add: mi_ok_def)
  from mi_ok_execute [OF this assms(2)] assms(1) show ?thesis by (simp add: mi_fire_def Some e)
qed (simp add: mi_fire_def assms(1))

lemma mi_ok_resume: "mi_ok t \<Longrightarrow> mi_ok (mi_resume t)"
proof -
  assume "mi_ok t"
  then have "mi_ok (t\<lparr>mi_awaiting := n\<rparr>)" for n by (auto simp: mi_ok_def split: option.splits)
  with \<open>mi_ok t\<close> show ?thesis by (simp add: mi_resume_def Let_def mi_ok_complete)
qed

lemma mi_ok_start: "mi_ok t \<Longrightarrow> mi_ok (after_call t (mi_start cb t))"
  by (auto simp: mi_start_def mi_ok_def mi_stop_defs jm_delete_def split: option.splits)

lemma mi_ok_restart:
  assumes "mi_ok t"
  shows "mi_ok (after_call t (mi_restart cb t))"
proof (cases "tm_isDisposed t")
  case False
  define u where "u = (if tm_state t = RUNNING then note_restart (mi_clearInterval t) else t)\<lparr>mi_currentIteration := 0, mi_completedNaturally := False\<rparr>"
  have "mi_ok u" "\<not> tm_isDisposed u"
    using assms False by (auto simp: u_def mi_ok_def note_restart_def mi_clearInterval_def clearInterval_def jm_delete_def split: option.splits)
  from mi_ok_start [OF this(1), of cb] this(2) have "mi_ok (after_call t (mi_start cb u))"
    by (simp add: mi_start_def ensureNotDisposed_def)
  then show ?thesis using False by (simp add: mi_restart_def ensureNotDisposed_def u_def Let_def)
qed (use assms in \<open>simp add: mi_restart_def ensureNotDisposed_def\<close>)

lemma mi_ok_step:
  assumes "mi_ok t" "\<And>u. mi_ok u \<Longrightarrow> mi_ok (cb u)"
  shows "mi_ok (mi_step cb e t)"
proof (cases e)
  case (MiFire h)
  then show ?thesis using mi_ok_fire [OF assms] by simp
next
  case MiStart
  then show ?thesis using mi_ok_start [OF assms(1)] by simp
next
  case MiRestart
  then show ?thesis using mi_ok_restart [OF assms(1)] by simp
next
  case MiResume
  then show ?thesis using mi_ok_resume [OF assms(1)] by simp
qed (use assms(1) in \<open>auto simp: mi_resetIterations_def mi_handleAbort_def mi_onDispose_def mi_dispose_def mi_abort_def
       mi_stop_defs mi_ok_def jm_delete_def split: option.splits\<close>)

lemma mi_ok_new: "mi_ok (new_ManagedInterval cb now p n signal None False)"
  by (auto simp: new_ManagedInterval_def mi_ok_def empty_loop_def event_loop.extend_def)

lemma mi_fire_idle:
  assumes "mi_ok t" "\<not> mi_isActive t"
  shows "mi_fire cb h t = t"
proof -
  have "el_intervals t = []" using assms by (auto simp: mi_ok_def mi_isActive_def split: option.splits)
  then show ?thesis by (simp add: mi_fire_def)
qed

text \<open>
  Stopping works: after \<open>cancel\<close> (or an abort) the callback of an interval without
  \<open>immediate\<close> is not run again, whatever happens, until it is started again; this holds in every
  state a run of the interval can reach, callbacks that stop or dispose the interval included.
\<close>

lemma mi_idle_step:
  assumes "mi_ok t" "\<not> mi_isActive t" "e \<noteq> MiStart" "e \<noteq> MiRestart"
  shows "\<not> mi_isActive (mi_step cb e t) \<and> executions (mi_step cb e t) = executions t"
proof (cases e)
  case (MiFire h)
  with mi_fire_idle [OF assms(1,2)] assms(2) show ?thesis by simp
qed (use assms(2-4) in \<open>auto simp: mi_resume_def mi_resetIterations_def mi_handleAbort_def mi_onDispose_def mi_dispose_def
       mi_abort_def mi_isActive_def mi_stop_defs split: option.splits\<close>)

theorem stopped_interval_is_silent:
  assumes "\<And>u. mi_ok u \<Longrightarrow> mi_ok (cb u)"
    and "t = fold (mi_step cb) es (new_ManagedInterval cb now p n signal None False)"
    and "MiStart \<notin> set es'" and "MiRestart \<notin> set es'"
  shows "executions (fold (mi_step cb) es' (mi_cancel t)) = executions t"
proof -
  have run: "mi_ok u \<Longrightarrow> mi_ok (fold (mi_step cb) es u)" for u es
    by (induction es arbitrary: u) (auto intro: mi_ok_step assms(1))
  have ok: "mi_ok t" unfolding assms(2) by (rule run [OF mi_ok_new])
  then have "mi_ok (mi_cancel t)" using mi_ok_step [of t cb MiCancel] assms(1) by simp
  moreover have "\<not> mi_isActive (mi_cancel t)" "executions (mi_cancel t) = executions t"
    by (auto simp: mi_isActive_def mi_stop_defs split: option.splits)
  moreover have "mi_ok u \<Longrightarrow> \<not> mi_isActive u \<Longrightarrow> executions (fold (mi_step cb) es' u) = executions u" for u
    using assms(3,4)
  proof (induction es' arbitrary: u)
    case (Cons e es')
    from Cons.prems have "e \<noteq> MiStart" "e \<noteq> MiRestart" by auto
    from mi_idle_step [OF Cons.prems(1,2) this, of cb] mi_ok_step [OF Cons.prems(1) assms(1), where e = e] Cons.IH Cons.prems(3,4)
    show ?case by simp
  qed simp
  ultimately show ?thesis by simp
qed

lemma stopped_interval_is_silent_witness:
  "executions (fold (mi_step (\<lambda>u. u)) [MiPass 50, MiFire 0]
     (mi_cancel (fold (mi_step (\<lambda>u. u)) [MiStart, MiPass 10, MiFire 0] (new_ManagedInterval (\<lambda>u. u) 0 10 None None None False)))) = 1"
proof -
  have "executions (fold (mi_step (\<lambda>u. u)) [MiStart, MiPass 10, MiFire 0] (new_ManagedInterval (\<lambda>u. u) 0 10 None None None False)) = 1"
    by code_simp
  then show ?thesis
    using stopped_interval_is_silent [of "\<lambda>u. u" _ "[MiStart, MiPass 10, MiFire 0]" 0 10 None None "[MiPass 50, MiFire 0]"] by simp
qed

text \<open>
  With \<open>immediate\<close> it does not: a callback that stops the interval is run by \<open>start\<close> before the
  interval is armed, so the interval is armed although it was stopped, \<open>isActive\<close> is false, and
  \<open>cancel\<close> does nothing any more.
\<close>

lemma immediate_stop_ignored:
  assumes "mi_immediate t" "\<not> mi_isActive t" "\<not> aborted t" "\<not> tm_isDisposed t" "\<not> mi_reached t"
  shows "\<exists>t'. mi_start mi_cancel t = Inr t' \<and> \<not> mi_isActive t' \<and> el_intervals t' \<noteq> [] \<and> mi_cancel t' = t'"
proof -
  define t1 where "t1 = note_start ((mi_clearInterval t)\<lparr>tm_state := RUNNING\<rparr>)"
  define t2 where "t2 = mi_executeCallback mi_cancel t1"
  have t1: "mi_immediate t1" "\<not> mi_reached t1" "\<not> tm_isDisposed t1" "\<not> aborted t1" "tm_state t1 = RUNNING"
    using assms by (auto simp: t1_def note_start_def mi_clearInterval_def clearInterval_def mi_reached_def split: option.splits)
  have "tm_state t2 = IDLE"
    using t1 by (simp add: t2_def mi_executeCallback_def mi_cancel_def note_cancel_def note_execution_def Let_def)
  moreover have "mi_start mi_cancel t = Inr ((snd (setInterval (mi_interval t2) t2))\<lparr>tm_timerId := Some (el_next t2)\<rparr>)"
    using assms t1(1) by (simp add: mi_start_def ensureNotDisposed_def mi_isActive_def t1_def [symmetric] t2_def [symmetric]
        Let_def setInterval_def)
  ultimately show ?thesis by (simp add: mi_isActive_def setInterval_def mi_cancel_def)
qed

lemma immediate_stop_ignored_run:
  "executions (fold (mi_step mi_cancel) [MiStart, MiPass 10, MiFire 0, MiResume, MiCancel, MiPass 10, MiFire 0]
     (new_ManagedInterval mi_cancel 0 10 None None (Some True) False)) = 3"
  by code_simp

text \<open>As for the timer, a restart while running disarms the interval for good.\<close>

lemma lost_interval_step:
  assumes "tm_state t = RUNNING" "el_intervals t = []" "tm_timerId t = None" "e \<in> {MiStart, MiRestart, MiReset, MiPass d, MiFire h}"
  shows "tm_state (mi_step cb e t) = RUNNING \<and> el_intervals (mi_step cb e t) = [] \<and> tm_timerId (mi_step cb e t) = None
    \<and> executions (mi_step cb e t) = executions t"
  using assms
  by (auto simp: mi_start_def mi_restart_def mi_clearInterval_def mi_resetIterations_def mi_fire_def ensureNotDisposed_def note_restart_def pass_time_def Let_def)

lemma restarted_interval_lost:
  assumes "mi_ok t" "mi_isActive t" "\<not> tm_isDisposed t"
  shows "mi_isActive (mi_step cb MiRestart t) \<and> el_intervals (mi_step cb MiRestart t) = [] \<and> tm_timerId (mi_step cb MiRestart t) = None"
  using assms
  by (auto simp: mi_restart_def mi_start_def mi_isActive_def mi_clearInterval_def clearInterval_def ensureNotDisposed_def
      note_restart_def mi_ok_def jm_delete_def Let_def split: option.splits)

subsection \<open>The iteration limit\<close>

text \<open>With \<open>m\<close> iterations allowed and \<open>k\<close> resets so far.\<close>

definition mi_bounded :: "nat \<Rightarrow> nat \<Rightarrow> 'a managed_interval_scheme \<Rightarrow> bool" where
  "mi_bounded m k t \<longleftrightarrow>
     mi_maxIterations t = Some m \<and> mi_currentIteration t \<le> m \<and> executions t \<le> m * k + mi_currentIteration t"

definition keeps_counters :: "('a managed_interval_scheme \<Rightarrow> 'a managed_interval_scheme) \<Rightarrow> bool" where
  "keeps_counters cb \<longleftrightarrow>
     (\<forall>u. mi_maxIterations (cb u) = mi_maxIterations u \<and> mi_currentIteration (cb u) = mi_currentIteration u
        \<and> executions (cb u) = executions u)"

lemma keeps_cancel: "keeps_counters mi_cancel"
  by (auto simp: keeps_counters_def mi_stop_defs split: option.splits)

lemma keeps_dispose: "keeps_counters mi_dispose"
  by (auto simp: keeps_counters_def mi_dispose_def mi_onDispose_def mi_stop_defs split: option.splits)

lemma bounded_complete: "mi_bounded m k (mi_complete t) = mi_bounded m k t"
  by (auto simp: mi_bounded_def mi_stop_defs split: option.splits)

lemma bounded_execute:
  assumes "keeps_counters cb" "mi_bounded m k t"
  shows "mi_bounded m k (mi_executeCallback cb t)"
proof (cases "mi_reached t")
  case True
  with assms(2) bounded_complete [of m k t] show ?thesis by (simp add: mi_executeCallback_def)
next
  case False
  with assms show ?thesis
    by (auto simp: mi_executeCallback_def mi_bounded_def mi_reached_def keeps_counters_def note_execution_def Let_def)
qed

lemma bounded_start:
  assumes "keeps_counters cb" "mi_bounded m k t"
  shows "mi_bounded m k (after_call t (mi_start cb t))"
proof -
  define t1 where "t1 = note_start ((mi_clearInterval t)\<lparr>tm_state := RUNNING\<rparr>)"
  define t2 where "t2 = (if mi_immediate t1 then mi_executeCallback cb t1 else t1)"
  have "mi_bounded m k t1"
    using assms(2) by (auto simp: t1_def mi_bounded_def note_start_def mi_clearInterval_def clearInterval_def split: option.splits)
  then have "mi_bounded m k t2" using bounded_execute [OF assms(1), of m k t1] by (simp add: t2_def)
  then have "mi_bounded m k ((snd (setInterval (mi_interval t2) t2))\<lparr>tm_timerId := Some h\<rparr>)" for h
    by (simp add: mi_bounded_def setInterval_def)
  with assms(2) show ?thesis
    by (simp add: mi_start_def ensureNotDisposed_def t1_def [symmetric] t2_def [symmetric] Let_def split_beta)
qed

lemma bounded_reset: "mi_bounded m k t \<Longrightarrow> mi_bounded m (Suc k) (t\<lparr>mi_currentIteration := 0, mi_completedNaturally := b\<rparr>)"
  by (simp add: mi_bounded_def)

lemma bounded_restart:
  assumes "keeps_counters cb" "mi_bounded m k t"
  shows "mi_bounded m (Suc k) (after_call t (mi_restart cb t))"
proof (cases "tm_isDisposed t")
  case False
  define u where "u = (if tm_state t = RUNNING then note_restart (mi_clearInterval t) else t)"
  have u: "mi_bounded m k u" "\<not> tm_isDisposed u"
    using assms False by (auto simp: u_def mi_bounded_def note_restart_def mi_clearInterval_def clearInterval_def split: option.splits)
  from bounded_start [OF assms(1) bounded_reset [OF u(1)], of False] u(2)
  have "mi_bounded m (Suc k) (after_call t (mi_start cb (u\<lparr>mi_currentIteration := 0, mi_completedNaturally := False\<rparr>)))"
    by (simp add: mi_start_def ensureNotDisposed_def)
  then show ?thesis using False by (simp add: mi_restart_def ensureNotDisposed_def u_def Let_def)
next
  case True
  with assms(2) show ?thesis by (simp add: mi_restart_def ensureNotDisposed_def mi_bounded_def)
qed

lemma bounded_step:
  assumes "keeps_counters cb" "mi_bounded m k t"
  shows "mi_bounded m (k + (if e = MiRestart \<or> e = MiReset then 1 else 0)) (mi_step cb e t)"
proof (cases e)
  case MiStart
  with bounded_start [OF assms] show ?thesis by simp
next
  case MiRestart
  with bounded_restart [OF assms] show ?thesis by simp
next
  case MiReset
  with bounded_reset [OF assms(2), of False] show ?thesis by (simp add: mi_resetIterations_def)
next
  case (MiFire h)
  have "mi_bounded m k (t\<lparr>el_intervals := x\<rparr>)" for x using assms(2) by (simp add: mi_bounded_def)
  with MiFire bounded_execute [OF assms(1)] assms(2) show ?thesis by (auto simp: mi_fire_def split: option.splits)
next
  case MiResume
  have "mi_bounded m k (t\<lparr>mi_awaiting := x\<rparr>)" for x using assms(2) by (simp add: mi_bounded_def)
  with MiResume assms(2) show ?thesis by (simp add: mi_resume_def bounded_complete Let_def)
qed (use assms(2) in \<open>auto simp: mi_handleAbort_def mi_onDispose_def mi_dispose_def mi_abort_def mi_bounded_def
       mi_stop_defs split: option.splits\<close>)

text \<open>An interval with \<open>maxIterations = m\<close> runs its callback at most \<open>m\<close> times, and at most \<open>m\<close> more
  times for every \<open>restart\<close> or \<open>resetIterations\<close>, with or without immediate execution, however the
  callbacks overlap, and also when the callback itself stops or disposes the interval.
\<close>

theorem interval_iterations_bounded:
  assumes "keeps_counters cb"
  shows "executions (fold (mi_step cb) es (new_ManagedInterval cb now p (Some m) signal immediate auto))
         \<le> m * (length (filter (\<lambda>e. e = MiRestart \<or> e = MiReset) es) + 1)"
proof -
  define t0 where "t0 = new_ManagedInterval cb now p (Some m) signal immediate False"
  have "mi_bounded m 0 t0"
    by (simp add: t0_def new_ManagedInterval_def mi_bounded_def event_loop.extend_def empty_loop_def zero_stats_def)
  then have "mi_bounded m 0 (new_ManagedInterval cb now p (Some m) signal immediate auto)"
    using bounded_start [OF assms, of m 0 t0] by (simp add: t0_def new_ManagedInterval_def Let_def)
  moreover have "mi_bounded m k t \<Longrightarrow>
      mi_bounded m (k + length (filter (\<lambda>e. e = MiRestart \<or> e = MiReset) es)) (fold (mi_step cb) es t)" for k t
  proof (induction es arbitrary: k t)
    case (Cons e es)
    from Cons.IH [OF bounded_step [OF assms Cons.prems, of e]] show ?case by (cases e) simp_all
  qed simp
  ultimately have "mi_bounded m (length (filter (\<lambda>e. e = MiRestart \<or> e = MiReset) es))
      (fold (mi_step cb) es (new_ManagedInterval cb now p (Some m) signal immediate auto))" by fastforce
  then show ?thesis by (auto simp: mi_bounded_def)
qed

lemma interval_iterations_bounded_witness:
  "keeps_counters mi_cancel \<and>
   executions (fold (mi_step mi_cancel) [MiPass 5, MiFire 0, MiReset, MiStart, MiPass 5, MiFire 1]
     (new_ManagedInterval mi_cancel 0 5 (Some 1) None None True)) \<le> 2"
  using interval_iterations_bounded [OF keeps_cancel, of "[MiPass 5, MiFire 0, MiReset, MiStart, MiPass 5, MiFire 1]" 0 5 1 None None True]
  by (simp add: keeps_cancel)

subsection \<open>An undisturbed interval completes\<close>

lemma tick_before_limit:
  assumes "tm_timerId t = Some h" "el_intervals t = [(h, (due, p))]" "due \<le> el_clock t + p" "0 \<le> p"
    and "mi_maxIterations t = Some m" "mi_currentIteration t < m" "\<not> tm_isDisposed t" "\<not> aborted t" "tm_state t = RUNNING"
    and "mi_awaiting t = 0"
  shows "let u = fold (mi_step (\<lambda>u. u)) [MiPass p, MiFire h, MiResume] t
         in mi_currentIteration u = Suc (mi_currentIteration t) \<and> executions u = Suc (executions t)
            \<and> mi_maxIterations u = Some m \<and> \<not> tm_isDisposed u \<and> \<not> aborted u \<and> mi_awaiting u = 0
            \<and> (if Suc (mi_currentIteration t) < m
               then tm_state u = RUNNING \<and> tm_timerId u = Some h \<and> el_intervals u = [(h, (el_clock t + p + p, p))]
                    \<and> el_clock u = el_clock t + p
               else tm_state u = COMPLETED \<and> tm_timerId u = None \<and> el_intervals u = [] \<and> mi_completedNaturally u)"
  using assms
  by (simp add: pass_time_def mi_fire_def jm_get_def mi_executeCallback_def mi_reached_def note_execution_def mi_resume_def
      mi_complete_def mi_stop_def mi_cancel_def mi_clearInterval_def clearInterval_def note_cancel_def jm_delete_def Let_def)

lemma ticks_to_limit:
  assumes "tm_timerId t = Some h" "el_intervals t = [(h, (due, p))]" "due \<le> el_clock t + p" "0 \<le> p"
    and "mi_maxIterations t = Some m" "mi_currentIteration t + Suc k = m" "\<not> tm_isDisposed t" "\<not> aborted t" "tm_state t = RUNNING"
    and "mi_awaiting t = 0"
  shows "let u = fold (mi_step (\<lambda>u. u)) (concat (replicate (Suc k) [MiPass p, MiFire h, MiResume])) t
         in tm_state u = COMPLETED \<and> mi_completedNaturally u \<and> el_intervals u = [] \<and> executions u = executions t + Suc k"
  using assms
proof (induction k arbitrary: t due)
  case 0
  then have "mi_currentIteration t < m" by simp
  from tick_before_limit [OF 0(1-5) this 0(7-10)] 0 show ?case by (simp add: Let_def)
next
  case (Suc k)
  define u where "u = fold (mi_step (\<lambda>u. u)) [MiPass p, MiFire h, MiResume] t"
  from Suc.prems have lt: "mi_currentIteration t < m" "Suc (mi_currentIteration t) < m" by simp_all
  from tick_before_limit [OF Suc.prems(1-5) lt(1) Suc.prems(7-10)] lt(2)
  have u: "tm_timerId u = Some h" "el_intervals u = [(h, (el_clock t + p + p, p))]" "el_clock u = el_clock t + p"
    "mi_maxIterations u = Some m" "mi_currentIteration u = Suc (mi_currentIteration t)" "\<not> tm_isDisposed u" "\<not> aborted u"
    "tm_state u = RUNNING" "mi_awaiting u = 0" "executions u = Suc (executions t)"
    unfolding u_def [symmetric] by (simp_all add: Let_def)
  then have "el_clock t + p + p \<le> el_clock u + p" "mi_currentIteration u + Suc k = m" using Suc.prems(6) by simp_all
  from Suc.IH [OF u(1,2) this(1) Suc.prems(4) u(4) this(2) u(6-9)] u(10) show ?case
    by (simp add: u_def Let_def)
qed

text \<open>
  An interval with a limit of \<open>m > 0\<close> iterations, started without immediate execution and left alone, runs its
  callback once per period, exactly \<open>m\<close> times, and then completes: nothing stays armed.
\<close>

theorem interval_completes:
  assumes "0 < m" and "0 \<le> p"
  shows "let u = fold (mi_step (\<lambda>u. u)) (concat (replicate m [MiPass p, MiFire 0, MiResume]))
                   (new_ManagedInterval (\<lambda>u. u) now p (Some m) None (Some False) True)
         in tm_state u = COMPLETED \<and> mi_completedNaturally u \<and> el_intervals u = [] \<and> executions u = m"
proof -
  define t where "t = new_ManagedInterval (\<lambda>u. u) now p (Some m) None (Some False) True"
  from assms(1) obtain k where m: "m = Suc k" using gr0_conv_Suc by blast
  have "tm_timerId t = Some 0 \<and> el_intervals t = [(0, (now + p, p))] \<and> el_clock t = now \<and> mi_maxIterations t = Some m
    \<and> mi_currentIteration t = 0 \<and> \<not> tm_isDisposed t \<and> \<not> aborted t \<and> tm_state t = RUNNING \<and> mi_awaiting t = 0 \<and> executions t = 0"
    using assms(2)
    by (simp add: t_def new_ManagedInterval_def event_loop.extend_def empty_loop_def mi_start_def ensureNotDisposed_def
        mi_clearInterval_def note_start_def setInterval_def zero_stats_def)
  with ticks_to_limit [of t 0 "now + p" p m k] assms(2) show ?thesis unfolding t_def [symmetric] by (simp add: m Let_def)
qed

lemma interval_completes_witness:
  "(0 :: nat) < 3 \<and> (let u = fold (mi_step (\<lambda>u. u)) (concat (replicate 3 [MiPass 10, MiFire 0, MiResume]))
                   (new_ManagedInterval (\<lambda>u. u) 0 10 (Some 3) None (Some False) True)
         in tm_state u = COMPLETED \<and> mi_completedNaturally u \<and> el_intervals u = [] \<and> executions u = 3)"
  using interval_completes [of 3 10 0] by simp

end
