(* ===== verification/Safe_Debounce.thy ===== *)
theory Safe_Debounce
  imports Safe_Timer
begin

text \<open>
  The disposable debounce \<open>SafeDebounce\<close> (\<open>libs/foundation/utils/src/timer/safe-debounce.ts\<close>) with leading
  and trailing edge and maximum wait. The functions it gives to \<open>setTimeout\<close> are closures; the field
  \<open>sd_closures\<close> holds the closure behind each handle, a trailing closure with the value of \<open>isFirstCall\<close>
  it captured. The last sections state the reference behaviour of a trailing debounce
  and prove that the class refines it in its default configuration.
\<close>

datatype sd_closure = MaxWaitElapsed | TrailingElapsed bool

record 'a safe_debounce = timer_base +
  sd_delay :: ms
  sd_leading :: bool
  sd_trailing :: bool
  sd_maxWait :: "ms option"
  sd_maxWaitTimerId :: "nat option"
  sd_lastArgs :: "'a option"
  sd_lastCallTime :: "ms option"
  sd_leadingExecuted :: bool
  sd_debouncedCount :: nat
  sd_forcedExecutionCount :: nat
  sd_flushCount :: nat
  sd_closures :: "(nat, sd_closure) jmap"

definition sd_isPending :: "('a, 'm) safe_debounce_scheme \<Rightarrow> bool" where
  "sd_isPending t = (tm_timerId t \<noteq> None)"

definition sd_isActive :: "('a, 'm) safe_debounce_scheme \<Rightarrow> bool" where
  "sd_isActive t = sd_isPending t"

definition sd_executeCallback ::
  "('a \<Rightarrow> ('a, 'm) safe_debounce_scheme \<Rightarrow> ('a, 'm) safe_debounce_scheme) \<Rightarrow> 'a \<Rightarrow> ('a, 'm) safe_debounce_scheme
     \<Rightarrow> ('a, 'm) safe_debounce_scheme" where
  "sd_executeCallback callback args t =
     (if tm_isDisposed t then t else if aborted t then t else callback args (note_execution t))"

definition sd_reset :: "('a, 'm) safe_debounce_scheme \<Rightarrow> ('a, 'm) safe_debounce_scheme" where
  "sd_reset t = t\<lparr>sd_lastArgs := None, sd_lastCallTime := None, sd_leadingExecuted := False, tm_state := IDLE\<rparr>"

definition clearMaxWaitTimer :: "('a, 'm) safe_debounce_scheme \<Rightarrow> ('a, 'm) safe_debounce_scheme" where
  "clearMaxWaitTimer t =
     (case sd_maxWaitTimerId t of None \<Rightarrow> t | Some h \<Rightarrow> (clearTimeout h t)\<lparr>sd_maxWaitTimerId := None\<rparr>)"

text \<open>The parts of \<open>call\<close>: the leading edge, the maximum wait and the trailing edge.\<close>

definition sd_lead ::
  "('a \<Rightarrow> ('a, 'm) safe_debounce_scheme \<Rightarrow> ('a, 'm) safe_debounce_scheme) \<Rightarrow> 'a \<Rightarrow> bool \<Rightarrow> ('a, 'm) safe_debounce_scheme
     \<Rightarrow> ('a, 'm) safe_debounce_scheme" where
  "sd_lead callback args isFirstCall t =
     (if sd_leading t \<and> isFirstCall \<and> \<not> sd_leadingExecuted t
      then (sd_executeCallback callback args (t\<lparr>sd_leadingExecuted := True\<rparr>))\<lparr>tm_state := RUNNING\<rparr>
      else if tm_timerId t \<noteq> None then t\<lparr>sd_debouncedCount := sd_debouncedCount t + 1\<rparr>
      else t)"

definition sd_armMaxWait :: "('a, 'm) safe_debounce_scheme \<Rightarrow> ('a, 'm) safe_debounce_scheme" where
  "sd_armMaxWait t =
     (case sd_maxWait t of
        Some w \<Rightarrow>
          (if sd_maxWaitTimerId t = None
           then (let (h, t1) = setTimeout w t
                 in t1\<lparr>sd_maxWaitTimerId := Some h, sd_closures := jm_set h MaxWaitElapsed (sd_closures t1)\<rparr>)
           else t)
      | None \<Rightarrow> t)"

definition sd_armTrailing :: "bool \<Rightarrow> ('a, 'm) safe_debounce_scheme \<Rightarrow> ('a, 'm) safe_debounce_scheme" where
  "sd_armTrailing isFirstCall t =
     (if sd_trailing t
      then (let (h, t1) = setTimeout (sd_delay t) (t\<lparr>tm_state := RUNNING\<rparr>)
            in t1\<lparr>tm_timerId := Some h, sd_closures := jm_set h (TrailingElapsed isFirstCall) (sd_closures t1)\<rparr>)
      else t)"

definition sd_call ::
  "('a \<Rightarrow> ('a, 'm) safe_debounce_scheme \<Rightarrow> ('a, 'm) safe_debounce_scheme) \<Rightarrow> 'a \<Rightarrow> ('a, 'm) safe_debounce_scheme
     \<Rightarrow> disposed_error + ('a, 'm) safe_debounce_scheme" where
  "sd_call callback args t =
     (case ensureNotDisposed ''SafeDebounce'' t of
        Inl e \<Rightarrow> Inl e
      | Inr _ \<Rightarrow>
          Inr (if aborted t then t
               else (let isFirstCall = (sd_lastCallTime t = None);
                         t1 = note_start (t\<lparr>sd_lastCallTime := Some (el_clock t), sd_lastArgs := Some args\<rparr>);
                         t2 = clearTimer (sd_lead callback args isFirstCall t1)
                     in sd_armTrailing isFirstCall (sd_armMaxWait t2))))"

definition sd_cancel :: "('a, 'm) safe_debounce_scheme \<Rightarrow> ('a, 'm) safe_debounce_scheme" where
  "sd_cancel t =
     (if tm_timerId t = None \<and> sd_maxWaitTimerId t = None then t
      else note_cancel (sd_reset (clearMaxWaitTimer (clearTimer t))))"

definition sd_flush ::
  "('a \<Rightarrow> ('a, 'm) safe_debounce_scheme \<Rightarrow> ('a, 'm) safe_debounce_scheme) \<Rightarrow> ('a, 'm) safe_debounce_scheme
     \<Rightarrow> disposed_error + ('a, 'm) safe_debounce_scheme" where
  "sd_flush callback t =
     (case ensureNotDisposed ''SafeDebounce'' t of
        Inl e \<Rightarrow> Inl e
      | Inr _ \<Rightarrow>
          Inr (case sd_lastArgs t of
                 None \<Rightarrow> t
               | Some args \<Rightarrow>
                   (let t1 = clearMaxWaitTimer (clearTimer t);
                        t2 = t1\<lparr>sd_flushCount := sd_flushCount t1 + 1\<rparr>
                    in sd_reset (sd_executeCallback callback args t2))))"

definition sd_handleAbort :: "('a, 'm) safe_debounce_scheme \<Rightarrow> ('a, 'm) safe_debounce_scheme" where
  "sd_handleAbort t = (sd_cancel t)\<lparr>tm_state := DISPOSED\<rparr>"

definition sd_onDispose :: "('a, 'm) safe_debounce_scheme \<Rightarrow> ('a, 'm) safe_debounce_scheme" where
  "sd_onDispose t =
     (let t1 = (clearMaxWaitTimer (clearTimer t))\<lparr>tm_state := DISPOSED, sd_lastArgs := None\<rparr>
      in (if tm_signal t1 \<noteq> None \<and> tm_abortHandler t1 then t1\<lparr>tm_abortHandler := False\<rparr> else t1))"

definition sd_dispose :: "('a, 'm) safe_debounce_scheme \<Rightarrow> ('a, 'm) safe_debounce_scheme" where
  "sd_dispose t = (if tm_isDisposed t then t else sd_onDispose (t\<lparr>tm_isDisposed := True\<rparr>))"

text \<open>The two closures.\<close>

definition sd_maxWaitElapsed ::
  "('a \<Rightarrow> ('a, 'm) safe_debounce_scheme \<Rightarrow> ('a, 'm) safe_debounce_scheme) \<Rightarrow> ('a, 'm) safe_debounce_scheme
     \<Rightarrow> ('a, 'm) safe_debounce_scheme" where
  "sd_maxWaitElapsed callback t =
     (let t1 = t\<lparr>sd_maxWaitTimerId := None\<rparr>
      in (case sd_lastArgs t1 of
            None \<Rightarrow> t1
          | Some args \<Rightarrow>
              if tm_isDisposed t1 then t1
              else sd_reset (sd_executeCallback callback args
                     (t1\<lparr>sd_forcedExecutionCount := sd_forcedExecutionCount t1 + 1\<rparr>))))"

definition sd_trailingElapsed ::
  "('a \<Rightarrow> ('a, 'm) safe_debounce_scheme \<Rightarrow> ('a, 'm) safe_debounce_scheme) \<Rightarrow> bool \<Rightarrow> ('a, 'm) safe_debounce_scheme
     \<Rightarrow> ('a, 'm) safe_debounce_scheme" where
  "sd_trailingElapsed callback isFirstCall t =
     (let t1 = t\<lparr>tm_timerId := None\<rparr>
      in (case sd_lastArgs t1 of
            None \<Rightarrow> t1
          | Some args \<Rightarrow>
              if tm_isDisposed t1 then t1
              else sd_reset
                     (if \<not> (sd_leading t1 \<and> sd_leadingExecuted t1 \<and> isFirstCall)
                      then sd_executeCallback callback args t1 else t1)))"

definition new_SafeDebounce ::
  "ms \<Rightarrow> ms \<Rightarrow> bool option \<Rightarrow> bool option \<Rightarrow> bool option \<Rightarrow> ms option \<Rightarrow> 'a safe_debounce" where
  "new_SafeDebounce now delay signal leading trailing maxWait =
     event_loop.extend (empty_loop now)
       \<lparr>tm_timerId = None, tm_state = IDLE, tm_signal = signal, tm_abortHandler = (signal \<noteq> None),
        tm_stats = zero_stats, tm_isDisposed = False, sd_delay = delay,
        sd_leading = (case leading of Some b \<Rightarrow> b | None \<Rightarrow> False),
        sd_trailing = (case trailing of Some b \<Rightarrow> b | None \<Rightarrow> True), sd_maxWait = maxWait,
        sd_maxWaitTimerId = None, sd_lastArgs = None, sd_lastCallTime = None, sd_leadingExecuted = False,
        sd_debouncedCount = 0, sd_forcedExecutionCount = 0, sd_flushCount = 0, sd_closures = []\<rparr>"

subsection \<open>Events\<close>

definition sd_abort :: "('a, 'm) safe_debounce_scheme \<Rightarrow> ('a, 'm) safe_debounce_scheme" where
  "sd_abort t =
     (if tm_signal t = Some False
      then (let t1 = t\<lparr>tm_signal := Some True\<rparr> in if tm_abortHandler t1 then sd_handleAbort t1 else t1)
      else t)"

definition sd_fire ::
  "('a \<Rightarrow> ('a, 'm) safe_debounce_scheme \<Rightarrow> ('a, 'm) safe_debounce_scheme) \<Rightarrow> nat \<Rightarrow> ('a, 'm) safe_debounce_scheme
     \<Rightarrow> ('a, 'm) safe_debounce_scheme" where
  "sd_fire callback h t =
     (case (jm_get (el_timeouts t) h, jm_get (sd_closures t) h) of
        (Some due, Some closure) \<Rightarrow>
          if due \<le> el_clock t
          then (case closure of
                  MaxWaitElapsed \<Rightarrow> sd_maxWaitElapsed callback (clearTimeout h t)
                | TrailingElapsed isFirstCall \<Rightarrow> sd_trailingElapsed callback isFirstCall (clearTimeout h t))
          else t
      | _ \<Rightarrow> t)"

datatype 'a sd_event = SdCall 'a | SdCancel | SdFlush | SdAbort | SdDispose | SdPass ms | SdFire nat

fun sd_step ::
  "('a \<Rightarrow> ('a, 'm) safe_debounce_scheme \<Rightarrow> ('a, 'm) safe_debounce_scheme) \<Rightarrow> 'a sd_event
     \<Rightarrow> ('a, 'm) safe_debounce_scheme \<Rightarrow> ('a, 'm) safe_debounce_scheme" where
  "sd_step cb (SdCall a) t = after_call t (sd_call cb a t)"
| "sd_step cb SdCancel t = sd_cancel t"
| "sd_step cb SdFlush t = after_call t (sd_flush cb t)"
| "sd_step cb SdAbort t = sd_abort t"
| "sd_step cb SdDispose t = sd_dispose t"
| "sd_step cb (SdPass d) t = pass_time d t"
| "sd_step cb (SdFire h) t = sd_fire cb h t"

lemmas sd_clear_defs = clearTimer_def clearMaxWaitTimer_def clearTimeout_def note_cancel_def

lemma sd_clear_simps [simp]:
  "tm_isDisposed (clearTimer t) = tm_isDisposed t" "tm_isDisposed (clearMaxWaitTimer d) = tm_isDisposed d"
  "tm_stats (clearTimer t) = tm_stats t" "tm_stats (clearMaxWaitTimer d) = tm_stats d"
  "tm_isDisposed (sd_reset d) = tm_isDisposed d" "tm_stats (sd_reset d) = tm_stats d"
  by (auto simp: sd_clear_defs sd_reset_def split: option.splits)

lemma sd_disposed_step:
  "tm_isDisposed t \<Longrightarrow> tm_isDisposed (sd_step cb e t) \<and> executions (sd_step cb e t) = executions t"
  by (cases e)
    (auto simp: sd_call_def sd_cancel_def sd_flush_def sd_abort_def sd_handleAbort_def sd_dispose_def pass_time_def sd_fire_def
      sd_maxWaitElapsed_def sd_trailingElapsed_def ensureNotDisposed_def note_cancel_def clearTimeout_def Let_def
      split: option.splits sd_closure.splits)

interpretation sd: disposable_object "sd_step cb" sd_dispose tm_isDisposed executions for cb
proof unfold_locales
  fix t :: "('a, 'm) safe_debounce_scheme"
  show "tm_isDisposed (sd_dispose t)" "executions (sd_dispose t) = executions t"
    by (auto simp: sd_dispose_def sd_onDispose_def Let_def)
qed (auto simp: sd_disposed_step sd_dispose_def)

subsection \<open>The reference behaviour of a trailing debounce\<close>

text \<open>
  At most one call is pending, the last one, and is due a fixed time after it was made. It is run when due or when
  demanded at once, and dropped when cancelled. A closed debounce ignores calls.
\<close>

record 'a burst =
  bu_clock :: ms
  bu_pending :: "('a \<times> ms) option"
  bu_ran :: "('a \<times> ms) list"
  bu_closed :: bool

datatype 'a burst_event = Demand 'a | Drop | Now | Close | Wait ms | Elapse

definition burst_run :: "'a burst \<Rightarrow> 'a burst" where
  "burst_run b =
     (case bu_pending b of None \<Rightarrow> b | Some (a, due) \<Rightarrow> b\<lparr>bu_pending := None, bu_ran := bu_ran b @ [(a, bu_clock b)]\<rparr>)"

fun burst_step :: "ms \<Rightarrow> 'a burst_event \<Rightarrow> 'a burst \<Rightarrow> 'a burst" where
  "burst_step delay (Demand a) b = (if bu_closed b then b else b\<lparr>bu_pending := Some (a, bu_clock b + max 0 delay)\<rparr>)"
| "burst_step delay Drop b = b\<lparr>bu_pending := None\<rparr>"
| "burst_step delay Now b = burst_run b"
| "burst_step delay Close b = b\<lparr>bu_closed := True, bu_pending := None\<rparr>"
| "burst_step delay (Wait d) b = b\<lparr>bu_clock := bu_clock b + max 0 d\<rparr>"
| "burst_step delay Elapse b = (case bu_pending b of Some (a, due) \<Rightarrow> if due \<le> bu_clock b then burst_run b else b | None \<Rightarrow> b)"

text \<open>The object with a record of the executions, kept by the callback.\<close>

record 'a logged_debounce = "'a safe_debounce" +
  lg_ran :: "('a \<times> ms) list"

definition log_run :: "'a \<Rightarrow> 'a logged_debounce \<Rightarrow> 'a logged_debounce" where
  "log_run a t = t\<lparr>lg_ran := lg_ran t @ [(a, el_clock t)]\<rparr>"

definition new_logged :: "ms \<Rightarrow> ms \<Rightarrow> bool option \<Rightarrow> bool option \<Rightarrow> bool option \<Rightarrow> ms option \<Rightarrow> 'a logged_debounce" where
  "new_logged now delay signal leading trailing maxWait =
     safe_debounce.extend (new_SafeDebounce now delay signal leading trailing maxWait) \<lparr>lg_ran = []\<rparr>"

definition sd_abs :: "'a logged_debounce \<Rightarrow> 'a burst" where
  "sd_abs t =
     \<lparr>bu_clock = el_clock t,
      bu_pending = (case (sd_lastArgs t, el_timeouts t) of (Some a, e # es) \<Rightarrow> Some (a, snd e) | _ \<Rightarrow> None),
      bu_ran = lg_ran t, bu_closed = (tm_isDisposed t \<or> aborted t)\<rparr>"

definition sd_abs_event :: "'a logged_debounce \<Rightarrow> 'a sd_event \<Rightarrow> 'a burst_event" where
  "sd_abs_event t e =
     (case e of
        SdCall a \<Rightarrow> Demand a | SdCancel \<Rightarrow> Drop | SdFlush \<Rightarrow> Now | SdDispose \<Rightarrow> Close | SdPass d \<Rightarrow> Wait d
      | SdAbort \<Rightarrow> (if tm_signal t = Some False then Close else Wait 0)
      | SdFire h \<Rightarrow> (if tm_timerId t = Some h then Elapse else Wait 0))"

definition sd_plain :: "ms \<Rightarrow> 'a logged_debounce \<Rightarrow> bool" where
  "sd_plain delay t \<longleftrightarrow>
     sd_delay t = delay \<and> \<not> sd_leading t \<and> sd_trailing t \<and> sd_maxWait t = None \<and> sd_maxWaitTimerId t = None \<and>
     (case tm_timerId t of
        None \<Rightarrow> el_timeouts t = [] \<and> sd_lastArgs t = None
      | Some h \<Rightarrow> map fst (el_timeouts t) = [h] \<and> (\<exists>b. jm_get (sd_closures t) h = Some (TrailingElapsed b)) \<and>
          sd_lastArgs t \<noteq> None \<and> \<not> aborted t \<and> \<not> tm_isDisposed t) \<and>
     (tm_signal t = Some False \<and> \<not> tm_isDisposed t \<longrightarrow> tm_abortHandler t)"

lemma sd_plain_cases:
  assumes "sd_plain delay t"
  obtains (idle) "tm_timerId t = None" "el_timeouts t = []" "sd_lastArgs t = None"
    | (pending) h due b a where "tm_timerId t = Some h" "el_timeouts t = [(h, due)]"
      "jm_get (sd_closures t) h = Some (TrailingElapsed b)" "sd_lastArgs t = Some a" "\<not> aborted t" "\<not> tm_isDisposed t"
proof (cases "tm_timerId t")
  case None
  with assms idle show ?thesis by (simp add: sd_plain_def)
next
  case (Some h)
  with assms have "\<exists>due b a. el_timeouts t = [(h, due)] \<and> jm_get (sd_closures t) h = Some (TrailingElapsed b) \<and>
      sd_lastArgs t = Some a \<and> \<not> aborted t \<and> \<not> tm_isDisposed t"
    unfolding sd_plain_def by (cases "el_timeouts t") auto
  with Some pending show ?thesis by blast
qed

lemma sd_plain_config:
  "sd_plain delay t \<Longrightarrow> sd_delay t = delay \<and> \<not> sd_leading t \<and> sd_trailing t \<and> sd_maxWait t = None \<and> sd_maxWaitTimerId t = None"
  by (simp add: sd_plain_def)

lemmas sd_quiet_defs = sd_cancel_def sd_flush_def sd_abort_def sd_handleAbort_def sd_dispose_def sd_onDispose_def
  sd_executeCallback_def sd_reset_def sd_clear_defs ensureNotDisposed_def note_execution_def log_run_def Let_def

lemma sd_refines_call:
  assumes "sd_plain delay t"
  shows "sd_plain delay (sd_step log_run (SdCall a) t) \<and>
         sd_abs (sd_step log_run (SdCall a) t) = burst_step delay (Demand a) (sd_abs t)"
  using assms
proof (cases rule: sd_plain_cases)
  case idle
  with assms show ?thesis
    by (auto simp: sd_plain_def sd_abs_def sd_call_def sd_lead_def sd_armMaxWait_def sd_armTrailing_def ensureNotDisposed_def
        note_start_def sd_clear_defs setTimeout_def Let_def)
next
  case (pending h due b a)
  with assms show ?thesis
    by (auto simp: sd_plain_def sd_abs_def sd_call_def sd_lead_def sd_armMaxWait_def sd_armTrailing_def ensureNotDisposed_def
        note_start_def sd_clear_defs setTimeout_def jm_delete_def Let_def)
qed

lemma sd_refines_fire:
  assumes "sd_plain delay t"
  shows "sd_plain delay (sd_step log_run (SdFire h) t) \<and>
         sd_abs (sd_step log_run (SdFire h) t) = burst_step delay (sd_abs_event t (SdFire h)) (sd_abs t)"
  using assms
proof (cases rule: sd_plain_cases)
  case idle
  with assms show ?thesis by (simp add: sd_fire_def sd_abs_event_def sd_abs_def)
next
  case (pending k due b a)
  show ?thesis
  proof (cases "h = k")
    case True
    with pending assms show ?thesis
      by (auto simp: sd_fire_def jm_get_def sd_trailingElapsed_def sd_executeCallback_def note_execution_def log_run_def
          sd_reset_def clearTimeout_def jm_delete_def sd_plain_def sd_abs_def sd_abs_event_def burst_run_def Let_def)
  next
    case False
    with pending assms show ?thesis by (simp add: sd_fire_def jm_get_def sd_abs_event_def sd_abs_def)
  qed
qed

lemma sd_refines_quiet:
  assumes "sd_plain delay t" "\<And>a. e \<noteq> SdCall a" "\<And>h. e \<noteq> SdFire h"
  shows "sd_plain delay (sd_step log_run e t) \<and>
         sd_abs (sd_step log_run e t) = burst_step delay (sd_abs_event t e) (sd_abs t)"
  using assms(1)
proof (cases rule: sd_plain_cases)
  case idle
  with assms show ?thesis
    by (cases e) (auto simp: sd_quiet_defs pass_time_def sd_plain_def sd_abs_def sd_abs_event_def burst_run_def)
next
  case (pending h due b a)
  with assms show ?thesis
    by (cases e) (auto simp: sd_quiet_defs pass_time_def jm_delete_def sd_plain_def sd_abs_def sd_abs_event_def burst_run_def)
qed

lemma sd_refines_step:
  assumes "sd_plain delay t"
  shows "sd_plain delay (sd_step log_run e t) \<and>
         sd_abs (sd_step log_run e t) = burst_step delay (sd_abs_event t e) (sd_abs t)"
proof (cases e)
  case (SdCall a)
  with sd_refines_call [OF assms] show ?thesis by (simp add: sd_abs_event_def)
next
  case (SdFire h)
  with sd_refines_fire [OF assms] show ?thesis by simp
qed (use sd_refines_quiet [OF assms, of e] in auto)

fun sd_abs_events :: "'a logged_debounce \<Rightarrow> 'a sd_event list \<Rightarrow> 'a burst_event list" where
  "sd_abs_events t [] = []"
| "sd_abs_events t (e # es) = sd_abs_event t e # sd_abs_events (sd_step log_run e t) es"

lemma sd_plain_new: "sd_plain delay (new_logged now delay signal None None None)"
  by (auto simp: sd_plain_def new_logged_def new_SafeDebounce_def empty_loop_def event_loop.extend_def safe_debounce.extend_def)

text \<open>C20 In its default configuration (trailing edge, no leading edge, no maximum wait) a debounce is the reference: every
  run of calls, cancellations, flushes, aborts, disposals and timer events does to it what the corresponding run does to the
  reference, so it runs exactly the last call of a burst, when the delay since that call has passed, and nothing else.
\<close>

theorem debounce_refines_burst:
  "let t = new_logged now delay signal None None None
   in sd_abs (fold (sd_step log_run) es t) = fold (burst_step delay) (sd_abs_events t es) (sd_abs t)"
proof -
  have "sd_plain delay t \<Longrightarrow>
      sd_abs (fold (sd_step log_run) es t) = fold (burst_step delay) (sd_abs_events t es) (sd_abs t)" for t :: "'a logged_debounce"
  proof (induction es arbitrary: t)
    case (Cons e es)
    with sd_refines_step [OF Cons.prems, of e] show ?case by simp
  qed simp
  from this [OF sd_plain_new] show ?thesis by (simp add: Let_def)
qed

lemma burst_round:
  assumes "sd_plain delay t" "\<not> bu_closed (sd_abs t)" "0 \<le> gap" "gap < delay"
  shows "let u = fold (sd_step log_run) [SdCall a, SdPass gap, SdFire h] t
         in sd_plain delay u \<and> \<not> bu_closed (sd_abs u) \<and> lg_ran u = lg_ran t \<and>
            bu_pending (sd_abs u) = Some (a, el_clock t + delay) \<and> el_clock u = el_clock t + gap"
proof -
  define t1 where "t1 = sd_step log_run (SdCall a) t"
  define t2 where "t2 = sd_step log_run (SdPass gap) t1"
  define u where "u = sd_step log_run (SdFire h) t2"
  have sel: "el_clock x = bu_clock (sd_abs x)" "lg_ran x = bu_ran (sd_abs x)" for x :: "'a logged_debounce"
    by (simp_all add: sd_abs_def)
  have 1: "sd_plain delay t1" "sd_abs t1 = burst_step delay (Demand a) (sd_abs t)"
    using sd_refines_step [OF assms(1), of "SdCall a"] by (simp_all add: t1_def sd_abs_event_def)
  have 2: "sd_plain delay t2" "sd_abs t2 = burst_step delay (Wait gap) (sd_abs t1)"
    using sd_refines_step [OF 1(1), of "SdPass gap"] by (simp_all add: t2_def sd_abs_event_def)
  have 3: "sd_plain delay u" "sd_abs u = burst_step delay (sd_abs_event t2 (SdFire h)) (sd_abs t2)"
    using sd_refines_step [OF 2(1), of "SdFire h"] by (simp_all add: u_def)
  have "sd_abs u = sd_abs t2" using 1(2) 2(2) 3(2) assms(2-4) by (auto simp: sd_abs_event_def)
  with 1(2) 2(2) 3(1) assms(2-4)
  have "sd_plain delay u \<and> \<not> bu_closed (sd_abs u) \<and> lg_ran u = lg_ran t \<and>
      bu_pending (sd_abs u) = Some (a, el_clock t + delay) \<and> el_clock u = el_clock t + gap"
    by (simp add: sel)
  then show ?thesis by (simp add: Let_def u_def t1_def t2_def)
qed

text \<open>
  A burst of calls less than \<open>delay\<close> apart runs nothing while it lasts, whichever timers the host fires; when
  the delay has passed after it, its last call is run, alone.
\<close>

theorem debounce_runs_last_call:
  assumes "calls \<noteq> []" and "\<forall>(a, gap, h) \<in> set calls. 0 \<le> gap \<and> gap < delay"
  shows "let t = fold (sd_step log_run) (concat (map (\<lambda>(a, gap, h). [SdCall a, SdPass gap, SdFire h]) calls))
                   (new_logged now delay None None None None)
         in lg_ran t = [] \<and> (\<exists>h. tm_timerId t = Some h \<and>
              (let u = fold (sd_step log_run) [SdPass delay, SdFire h] t
               in lg_ran u = [(fst (List.last calls), el_clock u)] \<and> \<not> sd_isPending u))"
proof -
  let ?burst = "\<lambda>calls. fold (sd_step log_run) (concat (map (\<lambda>(a, gap, h). [SdCall a, SdPass gap, SdFire h]) calls))"
  have burst: "lg_ran (?burst calls t) = lg_ran t \<and> sd_plain delay (?burst calls t) \<and> \<not> bu_closed (sd_abs (?burst calls t)) \<and>
      (\<exists>due. bu_pending (sd_abs (?burst calls t)) = Some (fst (List.last calls), due) \<and> due \<le> el_clock (?burst calls t) + delay)"
    if "sd_plain delay t" "\<not> bu_closed (sd_abs t)" for t
    using that assms
  proof (induction calls arbitrary: t)
    case (Cons c calls)
    obtain a gap h where c: "c = (a, gap, h)" by (cases c) auto
    define u where "u = fold (sd_step log_run) [SdCall a, SdPass gap, SdFire h] t"
    have gap: "0 \<le> gap" "gap < delay" using Cons.prems(4) by (simp_all add: c)
    have u: "sd_plain delay u" "\<not> bu_closed (sd_abs u)" "lg_ran u = lg_ran t"
      "bu_pending (sd_abs u) = Some (a, el_clock t + delay)" "el_clock u = el_clock t + gap"
      using burst_round [OF Cons.prems(1,2) gap, of a h] by (simp_all add: Let_def u_def)
    have split: "?burst (c # calls) t = ?burst calls u" by (simp add: c u_def)
    show ?case
    proof (cases "calls = []")
      case True
      with u gap split show ?thesis by (simp add: c)
    next
      case False
      with Cons.IH [OF u(1,2) False] Cons.prems(4) u(3) split show ?thesis by simp
    qed
  qed simp
  define t where "t = ?burst calls (new_logged now delay None None None None)"
  have "\<not> bu_closed (sd_abs (new_logged now delay None None None None))" "lg_ran (new_logged now delay None None None None) = []"
    by (simp_all add: sd_abs_def new_logged_def new_SafeDebounce_def empty_loop_def event_loop.extend_def safe_debounce.extend_def)
  from burst [OF sd_plain_new this(1)] this(2) obtain due where t: "lg_ran t = []" "sd_plain delay t" "\<not> bu_closed (sd_abs t)"
    "bu_pending (sd_abs t) = Some (fst (List.last calls), due)" "due \<le> el_clock t + delay"
    unfolding t_def by auto
  from assms obtain c where "c \<in> set calls" by (cases calls) auto
  with assms(2) have "0 \<le> delay" by (cases c) force
  from t(2) t(4) obtain h where h: "tm_timerId t = Some h"
    by (cases rule: sd_plain_cases) (auto simp: sd_abs_def)
  define t1 where "t1 = sd_step log_run (SdPass delay) t"
  define u where "u = sd_step log_run (SdFire h) t1"
  have 1: "sd_plain delay t1" "sd_abs t1 = burst_step delay (Wait delay) (sd_abs t)" "tm_timerId t1 = Some h"
    using sd_refines_step [OF t(2), of "SdPass delay"] h by (simp_all add: t1_def sd_abs_event_def pass_time_def)
  have 2: "sd_plain delay u" "sd_abs u = burst_step delay Elapse (sd_abs t1)"
    using sd_refines_step [OF 1(1), of "SdFire h"] 1(3) by (simp_all add: u_def sd_abs_event_def)
  have sel: "el_clock x = bu_clock (sd_abs x)" "lg_ran x = bu_ran (sd_abs x)" for x :: "'a logged_debounce"
    by (simp_all add: sd_abs_def)
  have abs_u: "sd_abs u = burst_run (sd_abs t1)" "bu_pending (sd_abs t1) = Some (fst (List.last calls), due)"
    using 1(2) 2(2) t(4,5) \<open>0 \<le> delay\<close> by (simp_all add: sel)
  have "lg_ran u = [(fst (List.last calls), el_clock u)]" "bu_pending (sd_abs u) = None"
    using abs_u t(1) 1(2) by (simp_all add: sel burst_run_def)
  moreover from 2(1) this(2) have "\<not> sd_isPending u"
    by (cases rule: sd_plain_cases) (auto simp: sd_abs_def sd_isPending_def)
  ultimately show ?thesis
    using t(1) h unfolding t_def [symmetric] by (simp add: Let_def u_def t1_def)
qed

lemma debounce_runs_last_call_witness:
  "lg_ran (fold (sd_step log_run) [SdCall ''a'', SdPass 40, SdFire 0, SdCall ''b'', SdPass 99, SdFire 1]
     (new_logged 0 100 None None None None)) = []"
  using debounce_runs_last_call [of "[(''a'', 40, 0), (''b'', 99, 1)]" 100 0] by (simp add: Let_def)

subsection \<open>Other configurations\<close>

text \<open>With only the leading edge the first call is run and no call after it, because no timer ever resets the state.\<close>

lemma leading_only_runs_once:
  "map fst (lg_ran (fold (sd_step log_run) [SdCall ''a'', SdPass 1000, SdCall ''b'', SdPass 1000, SdCall ''c'']
     (new_logged 0 100 None (Some True) (Some False) None))) = [''a'']"
  by code_simp

text \<open>
  The maximum-wait timer survives the trailing execution: it was armed by a first burst, and runs a call of the next
  burst 20 ms after it was made, with a delay of 100.
\<close>

lemma stale_max_wait:
  "lg_ran (fold (sd_step log_run) [SdCall ''a'', SdPass 100, SdFire 1, SdPass 180, SdCall ''b'', SdPass 20, SdFire 0]
     (new_logged 0 100 None None None (Some 300))) = [(''a'', 100), (''b'', 300)]"
  by code_simp

text \<open>A single call with leading edge and maximum wait is run twice, at the leading edge and when the maximum wait is over.\<close>

lemma leading_max_wait_runs_twice:
  "lg_ran (fold (sd_step log_run) [SdCall ''a'', SdPass 50, SdFire 0]
     (new_logged 0 100 None (Some True) None (Some 50))) = [(''a'', 0), (''a'', 50)]"
  by code_simp

text \<open>A call made by the callback is dropped: the state is reset after the callback has returned.\<close>

definition calls_again :: "string \<Rightarrow> string logged_debounce \<Rightarrow> string logged_debounce" where
  "calls_again a t = (if a = ''a'' then after_call t (sd_call log_run ''b'' (log_run a t)) else log_run a t)"

lemma nested_call_dropped:
  "map fst (lg_ran (fold (sd_step calls_again) [SdCall ''a'', SdPass 100, SdFire 0, SdPass 100, SdFire 1]
     (new_logged 0 100 None None None None))) = [''a'']"
  by code_simp

end
