(* ===== verification/Disposables.thy ===== *)
theory Disposables
  imports Safe_Timer "HOL-Library.Multiset"
begin

text \<open>
  The rest of \<open>libs/foundation/utils/src/disposable/disposable.ts\<close>: \<open>CompositeDisposable\<close>,
  \<open>createDisposable\<close> and \<open>using\<close>. A managed resource is a number; what its \<open>dispose\<close> does to the
  state of the client, and whether it throws, is an argument. Resources that call the composite again while it disposes them
  are not covered.
\<close>

record composite =
  cd_disposables :: "nat list"
  cd_isDisposed :: bool

definition new_composite :: composite where
  "new_composite = \<lparr>cd_disposables = [], cd_isDisposed = False\<rparr>"

text \<open>The flag says whether the resource threw, and \<open>add\<close> with it.\<close>

definition cd_add :: "(nat \<Rightarrow> 'w \<Rightarrow> 'w \<times> bool) \<Rightarrow> nat \<Rightarrow> composite \<times> 'w \<Rightarrow> (composite \<times> 'w) \<times> bool" where
  "cd_add dsp d = (\<lambda>(c, w).
     (if cd_isDisposed c then (let (w', threw) = dsp d w in ((c, w'), threw))
      else ((c\<lparr>cd_disposables := cd_disposables c @ [d]\<rparr>, w), False)))"

definition cd_remove :: "nat \<Rightarrow> composite \<Rightarrow> bool \<times> composite" where
  "cd_remove d c =
     (case remove_first (\<lambda>x. x = d) (cd_disposables c) of
        Some (_, ds) \<Rightarrow> (True, c\<lparr>cd_disposables := ds\<rparr>)
      | None \<Rightarrow> (False, c))"

text \<open>The loop of \<open>dispose\<close>, from the last resource to the first; what a resource throws is caught.\<close>

fun cd_dispose_from :: "(nat \<Rightarrow> 'w \<Rightarrow> 'w \<times> bool) \<Rightarrow> nat list \<Rightarrow> nat \<Rightarrow> 'w \<Rightarrow> 'w" where
  "cd_dispose_from dsp ds 0 w = w"
| "cd_dispose_from dsp ds (Suc i) w = cd_dispose_from dsp ds i (fst (dsp (ds ! i) w))"

definition cd_dispose :: "(nat \<Rightarrow> 'w \<Rightarrow> 'w \<times> bool) \<Rightarrow> composite \<times> 'w \<Rightarrow> composite \<times> 'w" where
  "cd_dispose dsp = (\<lambda>(c, w).
     (if cd_isDisposed c then (c, w)
      else (let c1 = c\<lparr>cd_isDisposed := True\<rparr>;
                w1 = cd_dispose_from dsp (cd_disposables c1) (length (cd_disposables c1)) w
            in (c1\<lparr>cd_disposables := []\<rparr>, w1))))"

definition cd_count :: "composite \<Rightarrow> nat" where
  "cd_count c = length (cd_disposables c)"

text \<open>\<open>createDisposable\<close>: the flag of the closure, and the cleanup it runs at most once.\<close>

definition disposable_dispose :: "('w \<Rightarrow> 'w) \<Rightarrow> bool \<times> 'w \<Rightarrow> bool \<times> 'w" where
  "disposable_dispose cleanup = (\<lambda>(disposed, w). if disposed then (disposed, w) else (True, cleanup w))"

text \<open>\<open>using\<close>: whatever the function does, the resource is disposed after it, and its result or exception passes on.\<close>

definition using_resource :: "('w \<Rightarrow> 'w) \<Rightarrow> ('w \<Rightarrow> ('e + 'r) \<times> 'w) \<Rightarrow> 'w \<Rightarrow> ('e + 'r) \<times> 'w" where
  "using_resource dsp fn w = (let (r, w1) = fn w in (r, dsp w1))"

lemma dispose_from_rev:
  "i \<le> length ds \<Longrightarrow> cd_dispose_from dsp ds i w = fold (\<lambda>d w. fst (dsp d w)) (rev (take i ds)) w"
  by (induction i arbitrary: w) (simp_all add: take_Suc_conv_app_nth)

lemma createDisposable_once:
  "disposable_dispose cleanup (disposable_dispose cleanup s) = disposable_dispose cleanup s"
  by (cases s) (simp add: disposable_dispose_def)

subsection \<open>Runs of a composite\<close>

datatype cd_event = CdAdd nat | CdRemove nat | CdDispose

fun cd_step :: "(nat \<Rightarrow> 'w \<Rightarrow> 'w \<times> bool) \<Rightarrow> cd_event \<Rightarrow> composite \<times> 'w \<Rightarrow> composite \<times> 'w" where
  "cd_step dsp (CdAdd d) s = fst (cd_add dsp d s)"
| "cd_step dsp (CdRemove d) s = (snd (cd_remove d (fst s)), snd s)"
| "cd_step dsp CdDispose s = cd_dispose dsp s"

text \<open>Resources that note their disposal, some of which throw.\<close>

definition noting :: "nat set \<Rightarrow> nat \<Rightarrow> nat list \<Rightarrow> nat list \<times> bool" where
  "noting throwing d w = (w @ [d], d \<in> throwing)"

fun added :: "cd_event list \<Rightarrow> nat list" where
  "added [] = []"
| "added (CdAdd d # es) = d # added es"
| "added (e # es) = added es"

fun removed :: "composite \<times> nat list \<Rightarrow> cd_event list \<Rightarrow> nat list" where
  "removed s [] = []"
| "removed s (e # es) =
     (case e of CdRemove d \<Rightarrow> (if fst (cd_remove d (fst s)) then [d] else []) | _ \<Rightarrow> []) @ removed (cd_step (noting {}) e s) es"

lemma noting_any: "cd_step (noting T) e s = cd_step (noting {}) e s"
proof -
  have "cd_dispose_from (noting T) ds i w = cd_dispose_from (noting {}) ds i w" for ds i w
    by (induction i arbitrary: w) (simp_all add: noting_def)
  then show ?thesis by (cases e; cases s) (simp_all add: cd_add_def cd_dispose_def noting_def)
qed

lemma fold_noting: "fold (\<lambda>d w. fst (noting T d w)) ds w = w @ ds"
  by (induction ds arbitrary: w) (simp_all add: noting_def)

lemma dispose_noting: "cd_dispose (noting T) (c, w) = (if cd_isDisposed c then (c, w)
   else (c\<lparr>cd_isDisposed := True, cd_disposables := []\<rparr>, w @ rev (cd_disposables c)))"
  by (simp add: cd_dispose_def dispose_from_rev fold_noting)

lemma remove_mset:
  "cd_remove d c = (b, c') \<Longrightarrow> mset (cd_disposables c) = mset (cd_disposables c') + (if b then {#d#} else {#})
     \<and> cd_isDisposed c' = cd_isDisposed c \<and> (cd_disposables c = [] \<longrightarrow> cd_disposables c' = [])"
  by (auto simp: cd_remove_def remove_first_None split: option.splits dest!: remove_first_Some)

lemma cd_step_accounts:
  assumes "s = (c, w)" "cd_step (noting {}) e s = (c', w')" "cd_isDisposed c \<longrightarrow> cd_disposables c = []"
  shows "mset w' + mset (cd_disposables c') + mset (removed s [e]) = mset w + mset (cd_disposables c) + mset (added [e])
    \<and> (cd_isDisposed c' \<longrightarrow> cd_disposables c' = [])"
proof (cases e)
  case (CdRemove d)
  obtain b c1 where "cd_remove d c = (b, c1)" by force
  with CdRemove assms remove_mset [OF this] show ?thesis by auto
next
  case (CdAdd d)
  with assms show ?thesis by (auto simp: cd_add_def noting_def split: if_splits)
next
  case CdDispose
  with assms show ?thesis by (auto simp: dispose_noting split: if_splits)
qed

lemma account_trans:
  fixes x y z :: "'a multiset"
  assumes "x + r2 = y + a2" "y + r1 = z + a1"
  shows "x + (r1 + r2) = z + (a1 + a2)"
proof -
  have "x + (r1 + r2) = (x + r2) + r1" by (simp add: ac_simps)
  also have "\<dots> = (y + a2) + r1" by (simp only: assms(1))
  also have "\<dots> = (y + r1) + a2" by (simp add: ac_simps)
  also have "\<dots> = (z + a1) + a2" by (simp only: assms(2))
  finally show ?thesis by (simp add: ac_simps)
qed

text \<open>
  Nothing is disposed twice and nothing is forgotten: in any run of additions, removals and disposals, with resources that may
  throw, the resources disposed so far, those managed and those taken out again are together the ones that were added; a disposed
  composite manages none, and disposing goes from the newest to the oldest.
\<close>

theorem composite_accounts_for_resources:
  assumes "fold (cd_step (noting T)) es (new_composite, []) = (c, w)"
  shows "mset w + mset (cd_disposables c) + mset (removed (new_composite, []) es) = mset (added es) \<and>
         (cd_isDisposed c \<longrightarrow> cd_disposables c = []) \<and>
         snd (cd_dispose (noting T) (c, w)) = w @ rev (cd_disposables c)"
proof -
  have add_Cons: "added (e # es) = added [e] @ added es" for e es by (cases e) simp_all
  have rem_Cons: "removed s (e # es) = removed s [e] @ removed (cd_step (noting {}) e s) es" for s e es by simp
  have run: "mset w' + mset (cd_disposables c') + mset (removed (c0, w0) es) = mset w0 + mset (cd_disposables c0) + mset (added es)
      \<and> (cd_isDisposed c' \<longrightarrow> cd_disposables c' = [])"
    if "fold (cd_step (noting {})) es (c0, w0) = (c', w')" "cd_isDisposed c0 \<longrightarrow> cd_disposables c0 = []" for c0 w0 c' w'
    using that
  proof (induction es arbitrary: c0 w0)
    case (Cons e es)
    obtain c1 w1 where 1: "cd_step (noting {}) e (c0, w0) = (c1, w1)" by force
    from cd_step_accounts [OF refl 1 Cons.prems(2)]
    have acc: "mset w1 + mset (cd_disposables c1) + mset (removed (c0, w0) [e]) = mset w0 + mset (cd_disposables c0) + mset (added [e])"
      and ok: "cd_isDisposed c1 \<longrightarrow> cd_disposables c1 = []" by blast+
    from Cons.prems(1) 1 have "fold (cd_step (noting {})) es (c1, w1) = (c', w')" by simp
    note IH = Cons.IH [OF this ok]
    from account_trans [OF conjunct1 [OF IH] acc] IH show ?case
      unfolding add_Cons [of e es] rem_Cons [of "(c0, w0)" e es] 1 mset_append by blast
  qed simp
  have "cd_step (noting T) = cd_step (noting {})" using noting_any by (intro ext)
  with assms run [of new_composite "[]" c w] show ?thesis
    by (simp add: new_composite_def dispose_noting)
qed

lemma composite_accounts_for_resources_witness:
  "snd (cd_dispose (noting {2}) (fold (cd_step (noting {2})) [CdAdd 1, CdAdd 2, CdAdd 3, CdRemove 1] (new_composite, []))) = [3, 2]"
proof -
  have "fold (cd_step (noting {2})) [CdAdd 1, CdAdd 2, CdAdd 3, CdRemove 1] (new_composite, [])
      = (\<lparr>cd_disposables = [2, 3], cd_isDisposed = False\<rparr>, [])"
    by (simp add: cd_add_def new_composite_def cd_remove_def)
  from composite_accounts_for_resources [OF this] this show ?thesis by simp
qed

end
