(* ===== verification/Leader_Election.thy ===== *)
theory Leader_Election
  imports Complex_Main Payload_Hash Safe_Timer
begin

text \<open>
  The cross-tab manager (\<open>libs/foundation/sync-engine/src/cross-tab/manager.ts\<close>): subscriptions,
  broadcasts, and the leader election between the tabs of a browser. A tab is a record with the fields of the class. A
  \<open>SafeTimer\<close> that is armed is its due time, \<open>None\<close> a timer that is absent, disposed or has run
  (theory \<open>Safe_Timer\<close> shows that this is all there is to a timer created with \<open>autoStart\<close>). The
  fields \<open>ct_sent\<close> and \<open>ct_notified\<close> collect what is posted to the channel and which handler is called with which
  message. \<open>now\<close> is \<open>Date.now()\<close>. Validation by Zod is an argument, the message it
  returns if it accepts the value; the type \<open>'d\<close> stands for the payload data the manager only passes on.
\<close>

subsection \<open>Messages\<close>

datatype cross_tab_message_type =
    INVALIDATE | MUTATION_COMPLETED | ONLINE | OFFLINE | SYNC_STARTED | SYNC_COMPLETED | CACHE_UPDATED
  | LEADER_ELECTED | LEADER_HEARTBEAT | LEADER_RESIGN | LEADER_CANDIDATE
  | REALTIME_STATE | REALTIME_EVENT | REALTIME_RESYNC | REALTIME_SUBSCRIPTION_STATE

record 'd cross_tab_payload =
  pl_queryKeys :: "'d list option"
  pl_tableName :: "string option"
  pl_entityId :: "string option"
  pl_mutationId :: "string option"
  pl_data :: "'d option"
  pl_leaderId :: "string option"
  pl_term :: "int option"
  pl_realtimeConnection :: "'d option"
  pl_realtimeMessage :: "'d option"
  pl_realtimeSubscription :: "'d option"
  pl_topic :: "string option"
  pl_reason :: "string option"

definition no_payload :: "'d cross_tab_payload" where
  "no_payload =
     \<lparr>pl_queryKeys = None, pl_tableName = None, pl_entityId = None, pl_mutationId = None, pl_data = None, pl_leaderId = None,
      pl_term = None, pl_realtimeConnection = None, pl_realtimeMessage = None, pl_realtimeSubscription = None,
      pl_topic = None, pl_reason = None\<rparr>"

record 'd cross_tab_message =
  cm_type :: cross_tab_message_type
  cm_tabId :: string
  cm_timestamp :: ms
  cm_payload :: "'d cross_tab_payload option"

definition extractLeaderPayload :: "'d cross_tab_payload option \<Rightarrow> string option \<times> int" where
  "extractLeaderPayload payload =
     (case payload of
        None \<Rightarrow> (None, 0)
      | Some p \<Rightarrow> (pl_leaderId p, case pl_term p of Some t \<Rightarrow> t | None \<Rightarrow> 0))"

text \<open>JavaScript truth of an optional string: \<open>null\<close>, \<open>undefined\<close> and the empty string are false.\<close>

definition truthy :: "string option \<Rightarrow> bool" where
  "truthy s = (case s of None \<Rightarrow> False | Some t \<Rightarrow> t \<noteq> '''')"

definition leader_payload :: "string \<Rightarrow> int \<Rightarrow> 'd cross_tab_payload" where
  "leader_payload leaderId term = no_payload\<lparr>pl_leaderId := Some leaderId, pl_term := Some term\<rparr>"

subsection \<open>The state of a tab\<close>

definition DEFAULT_LEADER_HEARTBEAT_INTERVAL_MS :: int where "DEFAULT_LEADER_HEARTBEAT_INTERVAL_MS = 2000"
definition DEFAULT_LEADER_TIMEOUT_MS :: int where "DEFAULT_LEADER_TIMEOUT_MS = 5000"
definition DEFAULT_INITIAL_ELECTION_BASE_DELAY_MS :: int where "DEFAULT_INITIAL_ELECTION_BASE_DELAY_MS = 100"
definition DEFAULT_INITIAL_ELECTION_DELAY_RANGE_MS :: int where "DEFAULT_INITIAL_ELECTION_DELAY_RANGE_MS = 400"
definition DEFAULT_ELECTION_TIMEOUT_MS :: int where "DEFAULT_ELECTION_TIMEOUT_MS = 300"
definition DEFAULT_RESIGN_ELECTION_BASE_DELAY_MS :: int where "DEFAULT_RESIGN_ELECTION_BASE_DELAY_MS = 50"
definition DEFAULT_RESIGN_ELECTION_DELAY_RANGE_MS :: int where "DEFAULT_RESIGN_ELECTION_DELAY_RANGE_MS = 200"

lemmas election_defaults = DEFAULT_LEADER_HEARTBEAT_INTERVAL_MS_def DEFAULT_LEADER_TIMEOUT_MS_def
  DEFAULT_INITIAL_ELECTION_BASE_DELAY_MS_def DEFAULT_INITIAL_ELECTION_DELAY_RANGE_MS_def DEFAULT_ELECTION_TIMEOUT_MS_def
  DEFAULT_RESIGN_ELECTION_BASE_DELAY_MS_def DEFAULT_RESIGN_ELECTION_DELAY_RANGE_MS_def

record cross_tab_config =
  cc_leaderHeartbeatInterval :: int
  cc_leaderTimeout :: int

definition cross_tab_defaults :: cross_tab_config where
  "cross_tab_defaults =
     \<lparr>cc_leaderHeartbeatInterval = DEFAULT_LEADER_HEARTBEAT_INTERVAL_MS, cc_leaderTimeout = DEFAULT_LEADER_TIMEOUT_MS\<rparr>"

text \<open>
  A handler is a number. \<open>ct_handlers\<close> maps a message type to its \<open>Set\<close> object, \<open>ct_sets\<close> holds the
  contents of every \<open>Set\<close> object ever made: the unsubscribe closures keep the objects alive.
\<close>

record 'd tab =
  ct_config :: cross_tab_config
  ct_tabId :: string
  ct_channel :: bool
  ct_handlers :: "(cross_tab_message_type, nat) jmap"
  ct_sets :: "nat list list"
  ct_started :: bool
  ct_isDisposed :: bool
  ct_isLeader :: bool
  ct_currentLeaderId :: "string option"
  ct_lastLeaderHeartbeat :: ms
  ct_leaderHeartbeatTimer :: "ms option"
  ct_leaderCheckInterval :: "ms option"
  ct_initialElectionTimer :: "ms option"
  ct_electionTimer :: "ms option"
  ct_resignElectionTimer :: "ms option"
  ct_electionTerm :: int
  ct_currentLeaderTerm :: int
  ct_isElectionInProgress :: bool
  ct_currentHeartbeatInterval :: rat
  ct_consecutiveQuietHeartbeats :: nat
  ct_sent :: "'d cross_tab_message list"
  ct_notified :: "(nat \<times> 'd cross_tab_message) list"

definition createCrossTabManager :: "cross_tab_config \<Rightarrow> string \<Rightarrow> 'd tab" where
  "createCrossTabManager config uuid =
     \<lparr>ct_config = config, ct_tabId = uuid, ct_channel = False, ct_handlers = [], ct_sets = [], ct_started = False,
      ct_isDisposed = False, ct_isLeader = False, ct_currentLeaderId = None, ct_lastLeaderHeartbeat = 0,
      ct_leaderHeartbeatTimer = None, ct_leaderCheckInterval = None, ct_initialElectionTimer = None,
      ct_electionTimer = None, ct_resignElectionTimer = None, ct_electionTerm = 0, ct_currentLeaderTerm = 0,
      ct_isElectionInProgress = False, ct_currentHeartbeatInterval = 0, ct_consecutiveQuietHeartbeats = 0,
      ct_sent = [], ct_notified = []\<rparr>"

subsection \<open>Subscriptions and broadcasts\<close>

text \<open>\<open>subscribe\<close> returns the closure for unsubscribing: the type, the \<open>Set\<close> it captured and the handler.\<close>

definition handler_set :: "nat \<Rightarrow> 'd tab \<Rightarrow> nat list" where
  "handler_set i s = (if i < length (ct_sets s) then ct_sets s ! i else [])"

definition subscribe ::
  "cross_tab_message_type \<Rightarrow> nat \<Rightarrow> 'd tab \<Rightarrow> disposed_error + (cross_tab_message_type \<times> nat \<times> nat) \<times> 'd tab" where
  "subscribe type handler s =
     (if ct_isDisposed s then Inl (DisposedError ''CrossTabManager'')
      else (let (i, s1) = (case jm_get (ct_handlers s) type of
                             Some i \<Rightarrow> (i, s)
                           | None \<Rightarrow> (length (ct_sets s), s\<lparr>ct_sets := ct_sets s @ [[]],
                                       ct_handlers := jm_set type (length (ct_sets s)) (ct_handlers s)\<rparr>))
            in Inr ((type, i, handler), s1\<lparr>ct_sets := (ct_sets s1)[i := js_add handler (handler_set i s1)]\<rparr>)))"

definition unsubscribe :: "cross_tab_message_type \<times> nat \<times> nat \<Rightarrow> 'd tab \<Rightarrow> 'd tab" where
  "unsubscribe = (\<lambda>(type, i, handler) s.
     (let s1 = s\<lparr>ct_sets := (ct_sets s)[i := filter (\<lambda>x. x \<noteq> handler) (handler_set i s)]\<rparr>
      in (if handler_set i s1 = [] then s1\<lparr>ct_handlers := jm_delete type (ct_handlers s1)\<rparr> else s1)))"

definition getSubscriptionCount :: "'d tab \<Rightarrow> nat" where
  "getSubscriptionCount s = fold (\<lambda>(_, i) count. count + length (handler_set i s)) (ct_handlers s) 0"

definition broadcast ::
  "ms \<Rightarrow> cross_tab_message_type \<Rightarrow> 'd cross_tab_payload option \<Rightarrow> 'd tab \<Rightarrow> 'd tab" where
  "broadcast now type payload s =
     (if ct_isDisposed s then s
      else if \<not> ct_channel s then s
      else s\<lparr>ct_sent := ct_sent s @ [\<lparr>cm_type = type, cm_tabId = ct_tabId s, cm_timestamp = now, cm_payload = payload\<rparr>]\<rparr>)"

definition invalidateQueries :: "ms \<Rightarrow> 'd list \<Rightarrow> 'd tab \<Rightarrow> 'd tab" where
  "invalidateQueries now queryKeys = broadcast now INVALIDATE (Some (no_payload\<lparr>pl_queryKeys := Some queryKeys\<rparr>))"

definition notifyMutationCompleted :: "ms \<Rightarrow> string \<Rightarrow> string \<Rightarrow> string \<Rightarrow> 'd option \<Rightarrow> 'd tab \<Rightarrow> 'd tab" where
  "notifyMutationCompleted now tableName entityId mutationId data =
     broadcast now MUTATION_COMPLETED
       (Some (no_payload\<lparr>pl_tableName := Some tableName, pl_entityId := Some entityId, pl_mutationId := Some mutationId,
                         pl_data := data\<rparr>))"

definition notifyOnline :: "ms \<Rightarrow> 'd tab \<Rightarrow> 'd tab" where "notifyOnline now = broadcast now ONLINE None"
definition notifyOffline :: "ms \<Rightarrow> 'd tab \<Rightarrow> 'd tab" where "notifyOffline now = broadcast now OFFLINE None"
definition notifySyncStarted :: "ms \<Rightarrow> 'd tab \<Rightarrow> 'd tab" where "notifySyncStarted now = broadcast now SYNC_STARTED None"
definition notifySyncCompleted :: "ms \<Rightarrow> 'd tab \<Rightarrow> 'd tab" where
  "notifySyncCompleted now = broadcast now SYNC_COMPLETED None"

definition notifyRealtimeState :: "ms \<Rightarrow> 'd \<Rightarrow> 'd tab \<Rightarrow> 'd tab" where
  "notifyRealtimeState now snapshot =
     broadcast now REALTIME_STATE (Some (no_payload\<lparr>pl_realtimeConnection := Some snapshot\<rparr>))"

text \<open>The topic and the table of a server message, where it has them.\<close>

definition notifyRealtimeEvent :: "ms \<Rightarrow> 'd \<Rightarrow> string option \<Rightarrow> string option \<Rightarrow> 'd tab \<Rightarrow> 'd tab" where
  "notifyRealtimeEvent now message topic tableName =
     broadcast now REALTIME_EVENT
       (Some (no_payload\<lparr>pl_realtimeMessage := Some message, pl_topic := topic, pl_tableName := tableName\<rparr>))"

definition notifyRealtimeSubscriptionState :: "ms \<Rightarrow> 'd \<Rightarrow> string \<Rightarrow> string \<Rightarrow> 'd tab \<Rightarrow> 'd tab" where
  "notifyRealtimeSubscriptionState now snapshot topic tableName =
     broadcast now REALTIME_SUBSCRIPTION_STATE
       (Some (no_payload\<lparr>pl_realtimeSubscription := Some snapshot, pl_topic := Some topic, pl_tableName := Some tableName\<rparr>))"

definition notifyRealtimeResync :: "ms \<Rightarrow> string \<Rightarrow> string \<Rightarrow> string \<Rightarrow> 'd tab \<Rightarrow> 'd tab" where
  "notifyRealtimeResync now topic tableName reason =
     broadcast now REALTIME_RESYNC
       (Some (no_payload\<lparr>pl_topic := Some topic, pl_tableName := Some tableName, pl_reason := Some reason\<rparr>))"

definition notifyCacheUpdated :: "ms \<Rightarrow> string \<Rightarrow> 'd list \<Rightarrow> 'd tab \<Rightarrow> 'd tab" where
  "notifyCacheUpdated now tableName queryKeys =
     broadcast now CACHE_UPDATED (Some (no_payload\<lparr>pl_tableName := Some tableName, pl_queryKeys := Some queryKeys\<rparr>))"

text \<open>Calling the handlers of a type. What they throw is caught.\<close>

definition call_handlers :: "'d cross_tab_message \<Rightarrow> 'd tab \<Rightarrow> 'd tab" where
  "call_handlers m s =
     (case jm_get (ct_handlers s) (cm_type m) of
        None \<Rightarrow> s
      | Some i \<Rightarrow> s\<lparr>ct_notified := ct_notified s @ map (\<lambda>h. (h, m)) (handler_set i s)\<rparr>)"

subsection \<open>Election and heartbeat\<close>

text \<open>\<open>parseInt(text, 16)\<close> of a text of hexadecimal digits.\<close>

definition hash_value :: "char \<Rightarrow> nat" where
  "hash_value c = (if of_char c < (97 :: nat) then of_char c - 48 else of_char c - 87)"

definition parseInt16 :: "string \<Rightarrow> nat" where
  "parseInt16 text = fold (\<lambda>c n. 16 * n + hash_value c) text 0"

text \<open>\<open>JSON.stringify\<close> of a tab id: the characters of a UUID need no escapes.\<close>

definition stringify_id :: "string \<Rightarrow> string" where
  "stringify_id tabId = [CHR 34] @ tabId @ [CHR 34]"

definition calculateTabIdBasedDelay :: "int \<Rightarrow> int \<Rightarrow> 'd tab \<Rightarrow> int" where
  "calculateTabIdBasedDelay baseDelay rng s =
     (let hashValue = int (parseInt16 (hashPayloadSync stringify_id (ct_tabId s))) in baseDelay + hashValue mod rng)"

definition stopLeaderHeartbeat :: "'d tab \<Rightarrow> 'd tab" where
  "stopLeaderHeartbeat s =
     s\<lparr>ct_leaderHeartbeatTimer := None, ct_currentHeartbeatInterval := of_int (cc_leaderHeartbeatInterval (ct_config s)),
       ct_consecutiveQuietHeartbeats := 0\<rparr>"

definition resetHeartbeatInterval :: "'d tab \<Rightarrow> 'd tab" where
  "resetHeartbeatInterval s =
     s\<lparr>ct_currentHeartbeatInterval := of_int (cc_leaderHeartbeatInterval (ct_config s)), ct_consecutiveQuietHeartbeats := 0\<rparr>"

text \<open>The host cuts the delay off to whole milliseconds.\<close>

definition scheduleNextHeartbeat :: "ms \<Rightarrow> 'd tab \<Rightarrow> 'd tab" where
  "scheduleNextHeartbeat now s =
     (if ct_isDisposed s \<or> \<not> ct_isLeader s then s
      else s\<lparr>ct_leaderHeartbeatTimer := Some (now + \<lfloor>ct_currentHeartbeatInterval s\<rfloor>)\<rparr>)"

definition startLeaderHeartbeat :: "ms \<Rightarrow> 'd tab \<Rightarrow> 'd tab" where
  "startLeaderHeartbeat now s =
     (if ct_leaderHeartbeatTimer s \<noteq> None then s
      else scheduleNextHeartbeat now (resetHeartbeatInterval s))"

text \<open>The callback of the heartbeat timer.\<close>

definition quiet_heartbeat :: "'d tab \<Rightarrow> 'd tab" where
  "quiet_heartbeat s =
     (let s1 = s\<lparr>ct_consecutiveQuietHeartbeats := ct_consecutiveQuietHeartbeats s + 1\<rparr>
      in (if ct_consecutiveQuietHeartbeats s1 > 3
          then s1\<lparr>ct_currentHeartbeatInterval :=
                    min (ct_currentHeartbeatInterval s1 * (3 / 2)) (of_int (cc_leaderHeartbeatInterval (ct_config s1) * 4))\<rparr>
          else s1))"

definition heartbeat_elapsed :: "ms \<Rightarrow> 'd tab \<Rightarrow> 'd tab" where
  "heartbeat_elapsed now s0 =
     (let s = s0\<lparr>ct_leaderHeartbeatTimer := None\<rparr>
      in (if ct_isLeader s \<and> \<not> ct_isDisposed s
          then scheduleNextHeartbeat now
                 (quiet_heartbeat
                   (broadcast now LEADER_HEARTBEAT (Some (leader_payload (ct_tabId s) (ct_currentLeaderTerm s))) s))
          else s))"

definition becomeLeader :: "ms \<Rightarrow> int \<Rightarrow> 'd tab \<Rightarrow> 'd tab" where
  "becomeLeader now term s =
     (if ct_isDisposed s then s
      else (let s1 = s\<lparr>ct_isLeader := True, ct_currentLeaderId := Some (ct_tabId s), ct_currentLeaderTerm := term,
                       ct_lastLeaderHeartbeat := now\<rparr>;
                s2 = broadcast now LEADER_ELECTED (Some (leader_payload (ct_tabId s1) term)) s1;
                s3 = startLeaderHeartbeat now s2
            in call_handlers \<lparr>cm_type = LEADER_ELECTED, cm_tabId = ct_tabId s3, cm_timestamp = now,
                              cm_payload = Some (leader_payload (ct_tabId s3) term)\<rparr> s3))"

definition initiateElection :: "ms \<Rightarrow> 'd tab \<Rightarrow> 'd tab" where
  "initiateElection now s =
     (if ct_isLeader s \<or> ct_isDisposed s \<or> ct_isElectionInProgress s then s
      else (let s1 = s\<lparr>ct_isElectionInProgress := True,
                       ct_electionTerm := max (ct_electionTerm s) (ct_currentLeaderTerm s) + 1\<rparr>;
                s2 = broadcast now LEADER_CANDIDATE (Some (leader_payload (ct_tabId s1) (ct_electionTerm s1))) s1
            in s2\<lparr>ct_electionTimer := Some (now + DEFAULT_ELECTION_TIMEOUT_MS)\<rparr>))"

definition tryBecomeLeader :: "ms \<Rightarrow> 'd tab \<Rightarrow> 'd tab" where
  "tryBecomeLeader now s = initiateElection now s"

text \<open>The callback of the election timer.\<close>

definition election_elapsed :: "ms \<Rightarrow> 'd tab \<Rightarrow> 'd tab" where
  "election_elapsed now s0 =
     (let s = s0\<lparr>ct_electionTimer := None\<rparr>
      in (if ct_isDisposed s \<or> \<not> ct_isElectionInProgress s then s
          else (let s1 = (if \<not> truthy (ct_currentLeaderId s) \<or> ct_electionTerm s > ct_currentLeaderTerm s
                          then becomeLeader now (ct_electionTerm s) s else s)
                in s1\<lparr>ct_isElectionInProgress := False\<rparr>)))"

text \<open>The callbacks of the initial and the resign timer.\<close>

definition initial_elapsed :: "ms \<Rightarrow> 'd tab \<Rightarrow> 'd tab" where
  "initial_elapsed now s0 =
     (let s = s0\<lparr>ct_initialElectionTimer := None\<rparr>
      in (if \<not> truthy (ct_currentLeaderId s) \<and> \<not> ct_isDisposed s then initiateElection now s else s))"

definition resign_elapsed :: "ms \<Rightarrow> 'd tab \<Rightarrow> 'd tab" where
  "resign_elapsed now s0 =
     (let s = s0\<lparr>ct_resignElectionTimer := None\<rparr>
      in (if \<not> truthy (ct_currentLeaderId s) \<and> \<not> ct_isDisposed s then initiateElection now s else s))"

definition startLeaderCheck :: "ms \<Rightarrow> 'd tab \<Rightarrow> 'd tab" where
  "startLeaderCheck now s =
     (if ct_leaderCheckInterval s \<noteq> None then s
      else s\<lparr>ct_leaderCheckInterval := Some (now + cc_leaderHeartbeatInterval (ct_config s))\<rparr>)"

definition stopLeaderCheck :: "'d tab \<Rightarrow> 'd tab" where
  "stopLeaderCheck s = s\<lparr>ct_leaderCheckInterval := None\<rparr>"

text \<open>The callback of the check interval, which is armed again for the next period.\<close>

definition check_elapsed :: "ms \<Rightarrow> 'd tab \<Rightarrow> 'd tab" where
  "check_elapsed now s0 =
     (let s = s0\<lparr>ct_leaderCheckInterval := Some (now + cc_leaderHeartbeatInterval (ct_config s0))\<rparr>
      in (if ct_isDisposed s then s
          else if ct_isLeader s then s
          else if truthy (ct_currentLeaderId s) \<and> now - ct_lastLeaderHeartbeat s > cc_leaderTimeout (ct_config s)
          then tryBecomeLeader now (s\<lparr>ct_currentLeaderId := None\<rparr>)
          else s))"

definition startLeaderElection :: "ms \<Rightarrow> 'd tab \<Rightarrow> 'd tab" where
  "startLeaderElection now s =
     (let s1 = startLeaderCheck now s;
          delay = calculateTabIdBasedDelay DEFAULT_INITIAL_ELECTION_BASE_DELAY_MS DEFAULT_INITIAL_ELECTION_DELAY_RANGE_MS s1
      in s1\<lparr>ct_initialElectionTimer := Some (now + delay)\<rparr>)"

text \<open>\<open>supported\<close>: whether the environment has \<open>BroadcastChannel\<close>.\<close>

definition ct_start :: "bool \<Rightarrow> ms \<Rightarrow> 'd tab \<Rightarrow> disposed_error + 'd tab" where
  "ct_start supported now s =
     (if ct_isDisposed s then Inl (DisposedError ''CrossTabManager'')
      else Inr (if ct_started s then s
                else if \<not> supported then s\<lparr>ct_isLeader := True, ct_started := True\<rparr>
                else startLeaderElection now (s\<lparr>ct_channel := True, ct_started := True\<rparr>)))"

definition ct_stop :: "ms \<Rightarrow> 'd tab \<Rightarrow> 'd tab" where
  "ct_stop now s =
     (if \<not> ct_started s then s
      else (let s1 = (if ct_isLeader s
                      then (broadcast now LEADER_RESIGN (Some (no_payload\<lparr>pl_leaderId := Some (ct_tabId s)\<rparr>)) s)\<lparr>ct_isLeader := False\<rparr>
                      else s);
                s2 = stopLeaderCheck (stopLeaderHeartbeat s1)
            in s2\<lparr>ct_initialElectionTimer := None, ct_electionTimer := None, ct_resignElectionTimer := None,
                  ct_channel := False, ct_started := False\<rparr>))"

definition ct_onDispose :: "ms \<Rightarrow> 'd tab \<Rightarrow> 'd tab" where
  "ct_onDispose now s = (ct_stop now s)\<lparr>ct_handlers := []\<rparr>"

definition ct_dispose :: "ms \<Rightarrow> 'd tab \<Rightarrow> 'd tab" where
  "ct_dispose now s = (if ct_isDisposed s then s else ct_onDispose now (s\<lparr>ct_isDisposed := True\<rparr>))"

subsection \<open>Incoming messages\<close>

definition on_candidate :: "ms \<Rightarrow> 'd cross_tab_message \<Rightarrow> 'd tab \<Rightarrow> 'd tab" where
  "on_candidate now m s =
     (let (_, candidateTerm) = extractLeaderPayload (cm_payload m)
      in (if ct_isLeader s \<and> ct_currentLeaderTerm s \<ge> candidateTerm
          then broadcast now LEADER_HEARTBEAT (Some (leader_payload (ct_tabId s) (ct_currentLeaderTerm s))) s
          else if candidateTerm > ct_currentLeaderTerm s
          then (let s1 = s\<lparr>ct_currentLeaderTerm := candidateTerm\<rparr>
                in (if ct_isLeader s1 then stopLeaderHeartbeat (s1\<lparr>ct_isLeader := False\<rparr>) else s1))
          else s))"

text \<open>\<open>break\<close> leaves the case without accepting the leader.\<close>

definition on_elected :: "ms \<Rightarrow> 'd cross_tab_message \<Rightarrow> 'd tab \<Rightarrow> 'd tab" where
  "on_elected now m s =
     (let (newLeaderId, newTerm) = extractLeaderPayload (cm_payload m);
          accept = (\<lambda>s1. s1\<lparr>ct_currentLeaderId := newLeaderId, ct_currentLeaderTerm := newTerm, ct_lastLeaderHeartbeat := now,
                            ct_isElectionInProgress := False\<rparr>)
      in (if \<not> truthy newLeaderId then s
          else if newTerm \<ge> ct_currentLeaderTerm s
          then (if ct_isLeader s
                then (if newTerm > ct_currentLeaderTerm s \<or> (newTerm = ct_currentLeaderTerm s \<and> cm_tabId m < ct_tabId s)
                      then accept (stopLeaderHeartbeat (s\<lparr>ct_isLeader := False\<rparr>))
                      else broadcast now LEADER_HEARTBEAT (Some (leader_payload (ct_tabId s) (ct_currentLeaderTerm s))) s)
                else accept s)
          else s))"

definition on_heartbeat :: "ms \<Rightarrow> 'd cross_tab_message \<Rightarrow> 'd tab \<Rightarrow> 'd tab" where
  "on_heartbeat now m s =
     (let (heartbeatLeaderId, heartbeatTerm) = extractLeaderPayload (cm_payload m)
      in (if heartbeatTerm \<ge> ct_currentLeaderTerm s
          then (let previousLeaderTerm = ct_currentLeaderTerm s;
                    s1 = s\<lparr>ct_currentLeaderId := heartbeatLeaderId, ct_currentLeaderTerm := heartbeatTerm,
                           ct_lastLeaderHeartbeat := now, ct_isElectionInProgress := False\<rparr>
                in (if ct_isLeader s1 \<and> truthy heartbeatLeaderId \<and> heartbeatLeaderId \<noteq> Some (ct_tabId s1)
                    then (if heartbeatTerm > previousLeaderTerm
                             \<or> (heartbeatTerm = previousLeaderTerm \<and> cm_tabId m < ct_tabId s1)
                          then stopLeaderHeartbeat (s1\<lparr>ct_isLeader := False\<rparr>) else s1)
                    else s1))
          else s))"

definition on_resign :: "ms \<Rightarrow> 'd cross_tab_message \<Rightarrow> 'd tab \<Rightarrow> 'd tab" where
  "on_resign now m s =
     (if Option.bind (cm_payload m) pl_leaderId = ct_currentLeaderId s
         \<and> \<not> (ct_currentLeaderId s = None)
      then (let s1 = s\<lparr>ct_currentLeaderId := None, ct_isElectionInProgress := False\<rparr>;
                delay = calculateTabIdBasedDelay DEFAULT_RESIGN_ELECTION_BASE_DELAY_MS DEFAULT_RESIGN_ELECTION_DELAY_RANGE_MS s1
            in s1\<lparr>ct_resignElectionTimer := Some (now + delay)\<rparr>)
      else s)"

text \<open>
  In \<open>on_resign\<close> a message without leader id gives \<open>undefined\<close>, which is not identical to the \<open>null\<close> of a tab
  without leader.
\<close>

definition handle_election :: "ms \<Rightarrow> 'd cross_tab_message \<Rightarrow> 'd tab \<Rightarrow> 'd tab" where
  "handle_election now m s =
     (case cm_type m of
        LEADER_CANDIDATE \<Rightarrow> on_candidate now m s
      | LEADER_ELECTED \<Rightarrow> on_elected now m s
      | LEADER_HEARTBEAT \<Rightarrow> on_heartbeat now m s
      | LEADER_RESIGN \<Rightarrow> on_resign now m s
      | _ \<Rightarrow> s)"

definition handleMessage :: "('u \<Rightarrow> 'd cross_tab_message option) \<Rightarrow> ms \<Rightarrow> 'u \<Rightarrow> 'd tab \<Rightarrow> 'd tab" where
  "handleMessage parseAndValidate now data s =
     (if ct_isDisposed s then s
      else (case parseAndValidate data of
              None \<Rightarrow> s
            | Some m \<Rightarrow> (if cm_tabId m = ct_tabId s then s else call_handlers m (handle_election now m s))))"

subsection \<open>Invariant of a tab\<close>

lemmas election_defs = initiateElection_def tryBecomeLeader_def becomeLeader_def election_elapsed_def initial_elapsed_def
  resign_elapsed_def check_elapsed_def heartbeat_elapsed_def quiet_heartbeat_def startLeaderHeartbeat_def
  scheduleNextHeartbeat_def stopLeaderHeartbeat_def resetHeartbeatInterval_def

text \<open>
  A running tab that neither leads nor knows a leader has an election ahead of it: one of the timers that start
  an election, or the election itself. A leader has its heartbeat armed, at most four times the configured interval apart.
\<close>

definition election_ahead :: "'d tab \<Rightarrow> bool" where
  "election_ahead s \<longleftrightarrow>
     ct_initialElectionTimer s \<noteq> None \<or> ct_resignElectionTimer s \<noteq> None \<or>
     (ct_isElectionInProgress s \<and> ct_electionTimer s \<noteq> None)"

definition interval_ok :: "'d tab \<Rightarrow> bool" where
  "interval_ok s \<longleftrightarrow>
     of_int (cc_leaderHeartbeatInterval (ct_config s)) \<le> ct_currentHeartbeatInterval s \<and>
     ct_currentHeartbeatInterval s \<le> of_int (4 * cc_leaderHeartbeatInterval (ct_config s))"

definition tab_base :: "'d tab \<Rightarrow> bool" where
  "tab_base s \<longleftrightarrow>
     ct_started s \<and> ct_channel s \<and> \<not> ct_isDisposed s \<and> ct_tabId s \<noteq> '''' \<and>
     0 \<le> cc_leaderHeartbeatInterval (ct_config s) \<and> ct_leaderCheckInterval s \<noteq> None \<and>
     (ct_isElectionInProgress s \<longrightarrow> ct_electionTimer s \<noteq> None) \<and>
     (if ct_isLeader s then truthy (ct_currentLeaderId s) \<and> ct_leaderHeartbeatTimer s \<noteq> None \<and> interval_ok s
      else ct_leaderHeartbeatTimer s = None)"

definition tab_ok :: "'d tab \<Rightarrow> bool" where
  "tab_ok s \<longleftrightarrow> tab_base s \<and> (\<not> ct_isLeader s \<and> \<not> truthy (ct_currentLeaderId s) \<longrightarrow> election_ahead s)"

lemmas tab_ok_defs = tab_ok_def tab_base_def election_ahead_def interval_ok_def

lemma truthy_simps [simp]: "\<not> truthy None" "truthy (Some t) \<longleftrightarrow> t \<noteq> ''''"
  by (simp_all add: truthy_def)

lemma tab_ok_call_handlers [simp]: "tab_ok (call_handlers m s) = tab_ok s"
  by (simp add: call_handlers_def tab_ok_defs split: option.split)

lemma tab_base_call_handlers [simp]: "tab_base (call_handlers m s) = tab_base s"
  by (simp add: call_handlers_def tab_ok_defs split: option.split)

lemma tab_ok_broadcast [simp]: "tab_ok (broadcast now t p s) = tab_ok s" "tab_base (broadcast now t p s) = tab_base s"
  by (simp_all add: broadcast_def tab_ok_defs)

text \<open>Starting an election and winning it, from a tab that may have no election ahead of it any more.\<close>

lemma initiate_ok: "tab_base s \<Longrightarrow> tab_ok (initiateElection now s)"
  by (auto simp: initiateElection_def broadcast_def tab_ok_defs Let_def)

lemma startLeaderHeartbeat_ok:
  assumes "ct_isLeader s" "\<not> ct_isDisposed s" "ct_leaderHeartbeatTimer s \<noteq> None \<longrightarrow> interval_ok s"
    and "0 \<le> cc_leaderHeartbeatInterval (ct_config s)"
  shows "ct_leaderHeartbeatTimer (startLeaderHeartbeat now s) \<noteq> None \<and> interval_ok (startLeaderHeartbeat now s)"
  using assms by (auto simp: startLeaderHeartbeat_def scheduleNextHeartbeat_def resetHeartbeatInterval_def interval_ok_def)

lemma startLeaderHeartbeat_frame [simp]:
  "ct_started (startLeaderHeartbeat now s) = ct_started s" "ct_channel (startLeaderHeartbeat now s) = ct_channel s"
  "ct_isDisposed (startLeaderHeartbeat now s) = ct_isDisposed s" "ct_tabId (startLeaderHeartbeat now s) = ct_tabId s"
  "ct_config (startLeaderHeartbeat now s) = ct_config s"
  "ct_leaderCheckInterval (startLeaderHeartbeat now s) = ct_leaderCheckInterval s"
  "ct_isLeader (startLeaderHeartbeat now s) = ct_isLeader s"
  "ct_isElectionInProgress (startLeaderHeartbeat now s) = ct_isElectionInProgress s"
  "ct_electionTimer (startLeaderHeartbeat now s) = ct_electionTimer s"
  "ct_currentLeaderId (startLeaderHeartbeat now s) = ct_currentLeaderId s"
  "ct_currentLeaderTerm (startLeaderHeartbeat now s) = ct_currentLeaderTerm s"
  by (simp_all add: startLeaderHeartbeat_def scheduleNextHeartbeat_def resetHeartbeatInterval_def)

lemma becomeLeader_ok:
  assumes "ct_started s" "ct_channel s" "\<not> ct_isDisposed s" "ct_tabId s \<noteq> ''''" "0 \<le> cc_leaderHeartbeatInterval (ct_config s)"
    and "ct_leaderCheckInterval s \<noteq> None" "ct_leaderHeartbeatTimer s \<noteq> None \<longrightarrow> interval_ok s"
  shows "tab_ok ((becomeLeader now t s)\<lparr>ct_isElectionInProgress := False\<rparr>) \<and> ct_isLeader (becomeLeader now t s)"
proof -
  define s1 where "s1 = broadcast now LEADER_ELECTED (Some (leader_payload (ct_tabId s) t))
      (s\<lparr>ct_isLeader := True, ct_currentLeaderId := Some (ct_tabId s), ct_currentLeaderTerm := t, ct_lastLeaderHeartbeat := now\<rparr>)"
  define s2 where "s2 = startLeaderHeartbeat now s1"
  have s1: "ct_started s1" "ct_channel s1" "\<not> ct_isDisposed s1" "ct_tabId s1 \<noteq> ''''" "0 \<le> cc_leaderHeartbeatInterval (ct_config s1)"
    "ct_leaderCheckInterval s1 \<noteq> None" "ct_leaderHeartbeatTimer s1 \<noteq> None \<longrightarrow> interval_ok s1" "ct_isLeader s1"
    "ct_currentLeaderId s1 = Some (ct_tabId s1)"
    using assms by (simp_all add: s1_def broadcast_def interval_ok_def)
  from startLeaderHeartbeat_ok [OF s1(8,3,7,5), of now] s1
  have "tab_ok (s2\<lparr>ct_isElectionInProgress := False\<rparr>)" "ct_isLeader s2"
    by (simp_all add: s2_def tab_ok_defs)
  moreover have "(call_handlers m s2)\<lparr>ct_isElectionInProgress := False\<rparr> = call_handlers m (s2\<lparr>ct_isElectionInProgress := False\<rparr>)" for m
    by (simp add: call_handlers_def handler_set_def split: option.split)
  moreover have "ct_isLeader (call_handlers m s2) = ct_isLeader s2" for m
    by (simp add: call_handlers_def split: option.split)
  ultimately show ?thesis
    using assms(3) by (simp add: becomeLeader_def s1_def [symmetric] s2_def [symmetric] Let_def)
qed

lemma election_elapsed_ok:
  assumes "tab_ok s"
  shows "tab_ok (election_elapsed now s)"
proof -
  define u where "u = s\<lparr>ct_electionTimer := None\<rparr>"
  have e: "election_elapsed now s =
      (if \<not> ct_isElectionInProgress u then u
       else if \<not> truthy (ct_currentLeaderId u) \<or> ct_electionTerm u > ct_currentLeaderTerm u
       then (becomeLeader now (ct_electionTerm u) u)\<lparr>ct_isElectionInProgress := False\<rparr>
       else u\<lparr>ct_isElectionInProgress := False\<rparr>)"
    using assms by (simp add: election_elapsed_def u_def tab_ok_defs Let_def)
  have "\<not> ct_isElectionInProgress u \<Longrightarrow> tab_ok u"
    using assms by (auto simp: u_def tab_ok_defs)
  moreover have "truthy (ct_currentLeaderId u) \<Longrightarrow> tab_ok (u\<lparr>ct_isElectionInProgress := False\<rparr>)"
    using assms by (auto simp: u_def tab_ok_defs)
  moreover have "tab_ok ((becomeLeader now t u)\<lparr>ct_isElectionInProgress := False\<rparr>)" for t
    using becomeLeader_ok [of u now t] assms by (auto simp: u_def tab_ok_defs split: if_splits)
  ultimately show ?thesis unfolding e by simp
qed

lemma initial_elapsed_ok: "tab_ok s \<Longrightarrow> tab_ok (initial_elapsed now s)"
  using initiate_ok [of "s\<lparr>ct_initialElectionTimer := None\<rparr>" now]
  by (auto simp: initial_elapsed_def tab_ok_defs Let_def split: if_splits)

lemma resign_elapsed_ok: "tab_ok s \<Longrightarrow> tab_ok (resign_elapsed now s)"
  using initiate_ok [of "s\<lparr>ct_resignElectionTimer := None\<rparr>" now]
  by (auto simp: resign_elapsed_def tab_ok_defs Let_def split: if_splits)

lemma check_elapsed_ok: "tab_ok s \<Longrightarrow> tab_ok (check_elapsed now s)"
  using initiate_ok [of "s\<lparr>ct_leaderCheckInterval := Some (now + cc_leaderHeartbeatInterval (ct_config s)), ct_currentLeaderId := None\<rparr>" now]
  by (auto simp: check_elapsed_def tryBecomeLeader_def tab_ok_defs Let_def split: if_splits)

lemma heartbeat_elapsed_ok: "tab_ok s \<Longrightarrow> tab_ok (heartbeat_elapsed now s)"
  by (auto simp: heartbeat_elapsed_def quiet_heartbeat_def scheduleNextHeartbeat_def broadcast_def tab_ok_defs Let_def
      split: if_splits)

subsection \<open>Steps of a tab among its peers\<close>

text \<open>
  What a peer sends: an elected leader and a heartbeat name a leader. A leader announces its resignation only when it stops.
\<close>

definition peer_message :: "'d cross_tab_message \<Rightarrow> bool" where
  "peer_message m \<longleftrightarrow>
     (cm_type m = LEADER_ELECTED \<or> cm_type m = LEADER_HEARTBEAT \<longrightarrow> truthy (fst (extractLeaderPayload (cm_payload m))))"

lemma on_candidate_ok: "tab_ok s \<Longrightarrow> tab_ok (on_candidate now m s)"
  by (auto simp: on_candidate_def stopLeaderHeartbeat_def broadcast_def tab_ok_defs Let_def split: if_splits prod.splits)

lemma on_elected_ok: "tab_ok s \<Longrightarrow> tab_ok (on_elected now m s)"
  by (auto simp: on_elected_def stopLeaderHeartbeat_def broadcast_def tab_ok_defs Let_def split: if_splits prod.splits)

lemma on_heartbeat_ok: "tab_ok s \<Longrightarrow> truthy (fst (extractLeaderPayload (cm_payload m))) \<Longrightarrow> tab_ok (on_heartbeat now m s)"
  by (auto simp: on_heartbeat_def stopLeaderHeartbeat_def tab_ok_defs Let_def split: if_splits prod.splits)

lemma on_resign_ok: "tab_ok s \<Longrightarrow> \<not> ct_isLeader s \<Longrightarrow> tab_ok (on_resign now m s)"
  by (auto simp: on_resign_def tab_ok_defs Let_def split: if_splits)

lemma handle_election_ok:
  assumes "tab_ok s" "peer_message m" "cm_type m = LEADER_RESIGN \<longrightarrow> \<not> ct_isLeader s"
  shows "tab_ok (handle_election now m s)"
  using assms
  by (cases "cm_type m") (simp_all add: handle_election_def peer_message_def on_candidate_ok on_elected_ok on_heartbeat_ok on_resign_ok)

text \<open>Whatever accepts the data, a message acts as itself, and data that is not accepted does nothing.\<close>

lemma handleMessage_parsed:
  "handleMessage parse now data s = (case parse data of Some m \<Rightarrow> handleMessage Some now m s | None \<Rightarrow> s)"
  by (auto simp: handleMessage_def split: option.splits)

inductive tab_step :: "'d tab \<Rightarrow> 'd tab \<Rightarrow> bool" where
  initial: "ct_initialElectionTimer s = Some due \<Longrightarrow> due \<le> now \<Longrightarrow> tab_step s (initial_elapsed now s)"
| election: "ct_electionTimer s = Some due \<Longrightarrow> due \<le> now \<Longrightarrow> tab_step s (election_elapsed now s)"
| resign: "ct_resignElectionTimer s = Some due \<Longrightarrow> due \<le> now \<Longrightarrow> tab_step s (resign_elapsed now s)"
| heartbeat: "ct_leaderHeartbeatTimer s = Some due \<Longrightarrow> due \<le> now \<Longrightarrow> tab_step s (heartbeat_elapsed now s)"
| check: "ct_leaderCheckInterval s = Some due \<Longrightarrow> due \<le> now \<Longrightarrow> tab_step s (check_elapsed now s)"
| receive: "peer_message m \<Longrightarrow> cm_type m = LEADER_RESIGN \<longrightarrow> \<not> ct_isLeader s
    \<Longrightarrow> tab_step s (handleMessage Some now m s)"
| send: "tab_step s (broadcast now type payload s)"
| subscribe: "subscribe type handler s = Inr (u, s') \<Longrightarrow> tab_step s s'"
| unsubscribe: "tab_step s (unsubscribe u s)"
| reset: "tab_step s (resetHeartbeatInterval s)"
| start_again: "ct_start supported now s = Inr s' \<Longrightarrow> tab_step s s'"

lemma tab_ok_subscribe: "subscribe type handler s = Inr (u, s') \<Longrightarrow> tab_ok s \<Longrightarrow> tab_ok s'"
  by (auto simp: subscribe_def tab_ok_defs Let_def split: if_splits option.splits)

lemma tab_ok_unsubscribe: "tab_ok s \<Longrightarrow> tab_ok (unsubscribe u s)"
  by (cases u) (auto simp: unsubscribe_def tab_ok_defs Let_def)

lemma tab_ok_reset: "tab_ok s \<Longrightarrow> tab_ok (resetHeartbeatInterval s)"
  by (auto simp: resetHeartbeatInterval_def tab_ok_defs)

lemma tab_ok_receive:
  assumes "tab_ok s" "peer_message m" "cm_type m = LEADER_RESIGN \<longrightarrow> \<not> ct_isLeader s"
  shows "tab_ok (handleMessage Some now m s)"
  using assms(1) handle_election_ok [OF assms] by (simp add: handleMessage_def)

lemma tab_step_ok: "tab_step s s' \<Longrightarrow> tab_ok s \<Longrightarrow> tab_ok s'"
proof (induction rule: tab_step.induct)
  case (start_again supported now s s')
  then have "s' = s" by (auto simp: ct_start_def tab_ok_def tab_base_def)
  with start_again show ?case by simp
qed (simp_all add: initial_elapsed_ok election_elapsed_ok resign_elapsed_ok heartbeat_elapsed_ok check_elapsed_ok
      tab_ok_receive tab_ok_subscribe tab_ok_unsubscribe tab_ok_reset)

definition reachable_tab :: "cross_tab_config \<Rightarrow> string \<Rightarrow> 'd tab \<Rightarrow> bool" where
  "reachable_tab config uuid s \<longleftrightarrow>
     (\<exists>now s0. ct_start True now (createCrossTabManager config uuid) = Inr s0 \<and> tab_step\<^sup>*\<^sup>* s0 s)"

lemma started_ok:
  assumes "ct_start True now (createCrossTabManager config uuid) = Inr s" "uuid \<noteq> ''''" "0 \<le> cc_leaderHeartbeatInterval config"
  shows "tab_ok s"
proof -
  have "s = startLeaderElection now ((createCrossTabManager config uuid)\<lparr>ct_channel := True, ct_started := True\<rparr>)"
    using assms(1) by (simp add: ct_start_def createCrossTabManager_def)
  with assms(2,3) show ?thesis
    by (simp add: createCrossTabManager_def startLeaderElection_def startLeaderCheck_def tab_ok_defs Let_def)
qed

lemma reachable_ok:
  assumes "reachable_tab config uuid s" "uuid \<noteq> ''''" "0 \<le> cc_leaderHeartbeatInterval config"
  shows "tab_ok s"
proof -
  obtain now s0 where s0: "ct_start True now (createCrossTabManager config uuid) = Inr s0" "tab_step\<^sup>*\<^sup>* s0 s"
    using assms(1) by (auto simp: reachable_tab_def)
  from s0(2) started_ok [OF s0(1) assms(2,3)] show ?thesis
    by (induction rule: rtranclp_induct) (auto intro: tab_step_ok)
qed


definition sample_tab :: "string \<Rightarrow> unit tab" where
  "sample_tab uuid = after_call (createCrossTabManager cross_tab_defaults uuid)
     (ct_start True 0 (createCrossTabManager cross_tab_defaults uuid))"

lemma sample_start: "ct_start True 0 (createCrossTabManager cross_tab_defaults uuid) = Inr (sample_tab uuid)"
  by (simp add: sample_tab_def ct_start_def createCrossTabManager_def)

lemma sample_reachable: "reachable_tab cross_tab_defaults uuid (sample_tab uuid)"
  unfolding reachable_tab_def using sample_start by blast


subsection \<open>Liveness\<close>

text \<open>The timers of a tab that can start or finish an election run one after another, with nothing in between.\<close>

definition run_pending :: "ms \<Rightarrow> ms \<Rightarrow> ms \<Rightarrow> 'd tab \<Rightarrow> 'd tab" where
  "run_pending t1 t2 t3 s =
     (let s1 = (if ct_initialElectionTimer s \<noteq> None then initial_elapsed t1 s else s);
          s2 = (if ct_resignElectionTimer s1 \<noteq> None then resign_elapsed t2 s1 else s1)
      in (if ct_electionTimer s2 \<noteq> None then election_elapsed t3 s2 else s2))"

definition candidate :: "'d tab \<Rightarrow> bool" where
  "candidate s \<longleftrightarrow> tab_base s \<and> \<not> ct_isLeader s \<and> \<not> truthy (ct_currentLeaderId s) \<and> ct_isElectionInProgress s"

lemma initiate_candidate:
  "tab_base s \<Longrightarrow> \<not> ct_isLeader s \<Longrightarrow> \<not> truthy (ct_currentLeaderId s) \<Longrightarrow>
   candidate (initiateElection now s) \<and> ct_resignElectionTimer (initiateElection now s) = ct_resignElectionTimer s"
  by (auto simp: initiateElection_def broadcast_def candidate_def tab_base_def Let_def)

lemma candidate_keeps:
  "candidate s \<Longrightarrow> candidate (resign_elapsed now s)"
  using initiate_candidate [of "s\<lparr>ct_resignElectionTimer := None\<rparr>" now]
  by (auto simp: resign_elapsed_def candidate_def tab_base_def Let_def)

lemma candidate_wins:
  assumes "candidate s"
  shows "ct_electionTimer s \<noteq> None \<and> ct_isLeader (election_elapsed now s)"
proof -
  define u where "u = s\<lparr>ct_electionTimer := None\<rparr>"
  have "ct_isLeader (becomeLeader now t u)" for t
    using becomeLeader_ok [of u now t] assms by (auto simp: candidate_def tab_base_def u_def)
  with assms show ?thesis by (auto simp: candidate_def tab_base_def election_elapsed_def u_def Let_def)
qed



text \<open>A leader that has gone silent is replaced: at the first check after the timeout the tab starts an election, which, if
  nobody answers, it wins.
\<close>

theorem silent_leader_replaced:
  assumes "reachable_tab config uuid s" and "uuid \<noteq> ''''" and "0 \<le> cc_leaderHeartbeatInterval config"
    and "\<not> ct_isLeader s" and "now - ct_lastLeaderHeartbeat s > cc_leaderTimeout (ct_config s)"
    and "truthy (ct_currentLeaderId s)"
  shows "ct_electionTimer (check_elapsed now s) \<noteq> None \<and> ct_isLeader (election_elapsed later (check_elapsed now s))"
proof -
  have ok: "tab_base s" using reachable_ok [OF assms(1-3)] by (simp add: tab_ok_def)
  let ?u = "s\<lparr>ct_leaderCheckInterval := Some (now + cc_leaderHeartbeatInterval (ct_config s)), ct_currentLeaderId := None\<rparr>"
  have "check_elapsed now s = initiateElection now ?u"
    using ok assms(4-6) by (simp add: check_elapsed_def tryBecomeLeader_def tab_base_def Let_def)
  moreover have "candidate (initiateElection now ?u)"
    using ok assms(4) by (intro conjunct1 [OF initiate_candidate]) (auto simp: tab_base_def)
  ultimately show ?thesis using candidate_wins by metis
qed

definition elected_by :: "string \<Rightarrow> int \<Rightarrow> unit cross_tab_message" where
  "elected_by tabId term = \<lparr>cm_type = LEADER_ELECTED, cm_tabId = tabId, cm_timestamp = 0, cm_payload = Some (leader_payload tabId term)\<rparr>"

lemma silent_leader_replaced_witness:
  "let s = handleMessage Some 400 (elected_by ''b'' 1) (sample_tab ''a'') in
     ct_currentLeaderId s = Some ''b'' \<and> ct_isLeader (election_elapsed 6300 (check_elapsed 6000 s))"
proof -
  let ?s = "handleMessage Some 400 (elected_by ''b'' 1) (sample_tab ''a'')"
  have eq: "ct_currentLeaderId ?s = Some ''b'' \<and> \<not> ct_isLeader ?s \<and> ct_lastLeaderHeartbeat ?s = 400 \<and> ct_config ?s = cross_tab_defaults"
    by (simp add: sample_tab_def ct_start_def createCrossTabManager_def startLeaderElection_def startLeaderCheck_def Let_def
        handleMessage_def elected_by_def handle_election_def on_elected_def extractLeaderPayload_def leader_payload_def
        no_payload_def call_handlers_def)
  have "tab_step (sample_tab ''a'') ?s"
    by (rule tab_step.receive) (simp_all add: peer_message_def elected_by_def extractLeaderPayload_def leader_payload_def no_payload_def)
  with sample_reachable [of "''a''"] have "reachable_tab cross_tab_defaults ''a'' ?s"
    unfolding reachable_tab_def by (meson rtranclp.rtrancl_into_rtrancl)
  from silent_leader_replaced [OF this, of 6000 6300] eq show ?thesis
    by (simp add: cross_tab_defaults_def election_defaults)
qed

subsection \<open>Agreement\<close>

text \<open>The leader of a higher term, or of the same term and a smaller id, has precedence.\<close>

definition outranks :: "int \<Rightarrow> string \<Rightarrow> int \<Rightarrow> string \<Rightarrow> bool" where
  "outranks t i t' i' \<longleftrightarrow> t > t' \<or> (t = t' \<and> i < i')"

definition heartbeat_of :: "ms \<Rightarrow> 'd tab \<Rightarrow> 'd cross_tab_message" where
  "heartbeat_of now s = \<lparr>cm_type = LEADER_HEARTBEAT, cm_tabId = ct_tabId s, cm_timestamp = now,
     cm_payload = Some (leader_payload (ct_tabId s) (ct_currentLeaderTerm s))\<rparr>"

lemma heartbeat_elapsed_sends:
  assumes "ct_isLeader s" "\<not> ct_isDisposed s" "ct_channel s"
  shows "ct_sent (heartbeat_elapsed now s) = ct_sent s @ [heartbeat_of now s]"
  using assms by (simp add: heartbeat_elapsed_def quiet_heartbeat_def scheduleNextHeartbeat_def broadcast_def heartbeat_of_def Let_def)

lemma receive_heartbeat:
  fixes s x :: "'d tab" and now t :: ms
  assumes "\<not> ct_isDisposed s" "ct_tabId x \<noteq> ct_tabId s" "ct_tabId x \<noteq> ''''"
  defines "s' \<equiv> handleMessage Some now (heartbeat_of t x) s"
  shows "ct_isLeader s' \<longleftrightarrow> ct_isLeader s \<and> \<not> outranks (ct_currentLeaderTerm x) (ct_tabId x) (ct_currentLeaderTerm s) (ct_tabId s)"
    and "\<not> ct_isDisposed s'" and "ct_tabId s' = ct_tabId s"
    and "ct_currentLeaderTerm s' = max (ct_currentLeaderTerm s) (ct_currentLeaderTerm x)"
    and "ct_currentLeaderTerm s \<le> ct_currentLeaderTerm x \<Longrightarrow> ct_currentLeaderId s' = Some (ct_tabId x)"
  using assms(1-3) unfolding s'_def
  by (auto simp: handleMessage_def heartbeat_of_def handle_election_def on_heartbeat_def extractLeaderPayload_def
      leader_payload_def no_payload_def call_handlers_def stopLeaderHeartbeat_def outranks_def Let_def split: option.splits)

text \<open>A tab receives the heartbeats of several leaders, as they were when they sent them, one after the other.\<close>

definition hear :: "ms \<Rightarrow> 'd tab list \<Rightarrow> 'd tab \<Rightarrow> 'd tab" where
  "hear now leaders s = fold (\<lambda>x. handleMessage Some now (heartbeat_of now x)) leaders s"

lemma hear_leaders:
  assumes "\<not> ct_isDisposed s" "\<forall>x\<in>set leaders. ct_tabId x \<noteq> ct_tabId s \<and> ct_tabId x \<noteq> ''''"
  shows "(ct_isLeader (hear now leaders s) \<longleftrightarrow> ct_isLeader s \<and>
      (\<forall>x\<in>set leaders. \<not> outranks (ct_currentLeaderTerm x) (ct_tabId x) (ct_currentLeaderTerm s) (ct_tabId s)))
    \<and> \<not> ct_isDisposed (hear now leaders s) \<and> ct_tabId (hear now leaders s) = ct_tabId s
    \<and> (\<forall>t. ct_currentLeaderTerm s \<le> t \<longrightarrow> (\<forall>x\<in>set leaders. ct_currentLeaderTerm x \<le> t) \<longrightarrow> ct_currentLeaderTerm (hear now leaders s) \<le> t)
    \<and> ct_currentLeaderTerm s \<le> ct_currentLeaderTerm (hear now leaders s)"
  using assms
proof (induction leaders arbitrary: s)
  case (Cons x leaders)
  define s1 where "s1 = handleMessage Some now (heartbeat_of now x) s"
  have x: "ct_tabId x \<noteq> ct_tabId s" "ct_tabId x \<noteq> ''''" using Cons.prems(2) by simp_all
  note r = receive_heartbeat [OF Cons.prems(1) x, of now now, folded s1_def]
  have h: "hear now (x # leaders) s = hear now leaders s1" by (simp add: hear_def s1_def)
  have p: "\<not> ct_isDisposed s1" "\<forall>x\<in>set leaders. ct_tabId x \<noteq> ct_tabId s1 \<and> ct_tabId x \<noteq> ''''"
    using r(2,3) Cons.prems(2) by simp_all
  note IH = Cons.IH [OF p]
  have a: "ct_isLeader (hear now leaders s1) \<longleftrightarrow> ct_isLeader s \<and>
      (\<forall>x\<in>set (x # leaders). \<not> outranks (ct_currentLeaderTerm x) (ct_tabId x) (ct_currentLeaderTerm s) (ct_tabId s))"
  proof (cases "ct_isLeader s1")
    case True
    with r(1) have "ct_currentLeaderTerm x \<le> ct_currentLeaderTerm s" by (auto simp: outranks_def)
    with r(4) have "ct_currentLeaderTerm s1 = ct_currentLeaderTerm s" by simp
    with True r(1,3) IH show ?thesis by simp
  next
    case False
    with r(1) IH show ?thesis by auto
  qed
  have b: "ct_currentLeaderTerm (hear now leaders s1) \<le> t"
    if "ct_currentLeaderTerm s \<le> t" "\<forall>y\<in>set (x # leaders). ct_currentLeaderTerm y \<le> t" for t
    using IH that r(4) by simp
  have c: "ct_currentLeaderTerm s \<le> ct_currentLeaderTerm (hear now leaders s1)" using IH r(4) by linarith
  have d: "\<not> ct_isDisposed (hear now leaders s1)" "ct_tabId (hear now leaders s1) = ct_tabId s" using IH r(3) by simp_all
  show ?case unfolding h by (intro conjI allI impI a b c d)
qed (simp add: hear_def)

lemma highest_leader:
  assumes "finite L" "L \<noteq> {}" "inj_on ct_tabId L"
  shows "\<exists>w\<in>L. \<forall>x\<in>L. x \<noteq> w \<longrightarrow> outranks (ct_currentLeaderTerm w) (ct_tabId w) (ct_currentLeaderTerm x) (ct_tabId x)"
proof -
  define t where "t = Max (ct_currentLeaderTerm ` L)"
  define T where "T = {x \<in> L. ct_currentLeaderTerm x = t}"
  have "t \<in> ct_currentLeaderTerm ` L" using assms(1,2) unfolding t_def by (intro Max_in) auto
  then have T: "finite T" "T \<noteq> {}" using assms(1) by (auto simp: T_def)
  then have "Min (ct_tabId ` T) \<in> ct_tabId ` T" by (intro Min_in) auto
  then obtain w where w: "w \<in> T" "ct_tabId w = Min (ct_tabId ` T)" by auto
  have "outranks (ct_currentLeaderTerm w) (ct_tabId w) (ct_currentLeaderTerm x) (ct_tabId x)" if "x \<in> L" "x \<noteq> w" for x
  proof (cases "x \<in> T")
    case True
    with T(1) w(2) have "ct_tabId w \<le> ct_tabId x" by simp
    moreover have "ct_tabId w \<noteq> ct_tabId x" using assms(3) that w(1) by (auto simp: T_def inj_on_def)
    ultimately show ?thesis using True w(1) by (auto simp: outranks_def T_def)
  next
    case False
    with that(1) assms(1) have "ct_currentLeaderTerm x \<noteq> t" "ct_currentLeaderTerm x \<le> t" by (auto simp: T_def t_def)
    with w(1) show ?thesis by (auto simp: outranks_def T_def)
  qed
  with w(1) show ?thesis by (auto simp: T_def)
qed


definition sample_leader :: "string \<Rightarrow> int \<Rightarrow> unit tab" where
  "sample_leader uuid term = (createCrossTabManager cross_tab_defaults uuid)
     \<lparr>ct_started := True, ct_channel := True, ct_leaderCheckInterval := Some 2000, ct_isLeader := True,
      ct_currentLeaderId := Some uuid, ct_currentLeaderTerm := term, ct_electionTerm := term,
      ct_leaderHeartbeatTimer := Some 2000, ct_currentHeartbeatInterval := 2000\<rparr>"


subsection \<open>Delays\<close>

lemma hash_value_digit: "n < 16 \<Longrightarrow> hash_value (hash_digit n) = n"
proof -
  assume "n < 16"
  then have "n \<in> {0, 1, 2, 3, 4, 5, 6, 7, 8, 9, 10, 11, 12, 13, 14, 15}" unfolding insert_iff empty_iff by presburger
  then show ?thesis by (auto simp: hash_value_def hash_digit_def)
qed

lemma parseInt16_snoc: "parseInt16 (s @ [c]) = 16 * parseInt16 s + hash_value c"
  by (simp add: parseInt16_def)

lemma parseInt16_digits: "n < 16 ^ k \<Longrightarrow> parseInt16 (hex_digits k n) = n"
proof (induction k arbitrary: n)
  case (Suc k)
  then have "n div 16 < 16 ^ k" by (simp add: less_mult_imp_div_less mult.commute)
  with Suc.IH show ?case by (simp add: parseInt16_snoc hash_value_digit)
qed (simp add: parseInt16_def)

text \<open>Printing the hash and reading it back loses nothing: the delay is taken from all 32 bits of the hash.\<close>

lemma parseInt16_simpleHash: "parseInt16 (simpleHash s) = unat (hash_word s)"
proof -
  have "unat (hash_word s) < 2 ^ LENGTH(32)" by (rule unsigned_less)
  then show ?thesis by (simp add: simpleHash_def parseInt16_digits)
qed

lemma delay_bounds:
  "0 < rng \<Longrightarrow> base \<le> calculateTabIdBasedDelay base rng s \<and> calculateTabIdBasedDelay base rng s < base + rng"
  by (simp add: calculateTabIdBasedDelay_def)

text \<open>
  A started tab that hears nothing leads after less than 800 ms: its first election starts after 100 to 499 ms and takes 300.
\<close>

theorem first_election_bounds:
  assumes "ct_start True now (createCrossTabManager config uuid) = Inr s"
  shows "\<exists>t. ct_initialElectionTimer s = Some t \<and> now + 100 \<le> t \<and> t < now + 500 \<and>
           ct_electionTimer (initial_elapsed t s) = Some (t + 300) \<and> ct_isLeader (election_elapsed (t + 300) (initial_elapsed t s))"
proof -
  define t where "t = now + calculateTabIdBasedDelay 100 400 s"
  have s: "s = startLeaderElection now ((createCrossTabManager config uuid)\<lparr>ct_channel := True, ct_started := True\<rparr>)"
    using assms by (simp add: ct_start_def createCrossTabManager_def)
  then have "ct_tabId s = uuid" by (simp add: startLeaderElection_def startLeaderCheck_def createCrossTabManager_def Let_def)
  with s have t: "ct_initialElectionTimer s = Some t" "\<not> ct_isLeader s" "\<not> ct_isDisposed s" "\<not> ct_isElectionInProgress s"
    "ct_currentLeaderId s = None"
    by (simp_all add: startLeaderElection_def startLeaderCheck_def createCrossTabManager_def election_defaults
        calculateTabIdBasedDelay_def t_def Let_def)
  define u where "u = initiateElection t (s\<lparr>ct_initialElectionTimer := None\<rparr>)"
  have u: "initial_elapsed t s = u" "ct_electionTimer u = Some (t + 300)" "\<not> ct_isDisposed u" "ct_isElectionInProgress u"
    "ct_currentLeaderId u = None"
    using t(2-5) by (simp_all add: initial_elapsed_def u_def initiateElection_def broadcast_def election_defaults Let_def)
  have lead: "ct_isLeader (becomeLeader m k v)" if "\<not> ct_isDisposed v" for m k and v :: "'a tab"
    using that by (simp add: becomeLeader_def broadcast_def call_handlers_def Let_def split: option.split)
  have "ct_isLeader (election_elapsed (t + 300) u)"
    using u(3-5) lead by (simp add: election_elapsed_def Let_def)
  moreover have "now + 100 \<le> t" "t < now + 500" using delay_bounds [of 400 100 s] by (auto simp: t_def)
  ultimately show ?thesis using t(1) u(1,2) by metis
qed

lemma first_election_bounds_witness:
  "\<exists>t. ct_initialElectionTimer (sample_tab ''a'') = Some t \<and> t < 500 \<and>
       ct_isLeader (election_elapsed (t + 300) (initial_elapsed t (sample_tab ''a'')))"
  using first_election_bounds [OF sample_start [of "''a''"]] by auto

subsection \<open>Where the election fails\<close>

text \<open>
  \<open>stop\<close> leaves \<open>isElectionInProgress\<close> set. A tab that is stopped during its election and started again
  never starts another one: whatever timers run, it does not lead, until some other tab is elected.
\<close>

definition stuck :: "'d tab \<Rightarrow> bool" where
  "stuck s \<longleftrightarrow> ct_isElectionInProgress s \<and> ct_electionTimer s = None \<and> \<not> ct_isLeader s \<and> ct_currentLeaderId s = None"

inductive timer_step :: "'d tab \<Rightarrow> 'd tab \<Rightarrow> bool" where
  "ct_initialElectionTimer s = Some due \<Longrightarrow> due \<le> now \<Longrightarrow> timer_step s (initial_elapsed now s)"
| "ct_electionTimer s = Some due \<Longrightarrow> due \<le> now \<Longrightarrow> timer_step s (election_elapsed now s)"
| "ct_resignElectionTimer s = Some due \<Longrightarrow> due \<le> now \<Longrightarrow> timer_step s (resign_elapsed now s)"
| "ct_leaderHeartbeatTimer s = Some due \<Longrightarrow> due \<le> now \<Longrightarrow> timer_step s (heartbeat_elapsed now s)"
| "ct_leaderCheckInterval s = Some due \<Longrightarrow> due \<le> now \<Longrightarrow> timer_step s (check_elapsed now s)"

lemma stuck_step: "timer_step s s' \<Longrightarrow> stuck s \<Longrightarrow> stuck s'"
  by (induction rule: timer_step.induct)
    (auto simp: stuck_def initial_elapsed_def resign_elapsed_def heartbeat_elapsed_def check_elapsed_def initiateElection_def Let_def)

theorem stopped_election_blocks_restart:
  assumes "ct_started s" and "ct_isElectionInProgress s" and "\<not> ct_isLeader s" and "ct_currentLeaderId s = None"
    and "ct_start True now (ct_stop now s) = Inr s1" and "timer_step\<^sup>*\<^sup>* s1 s2"
  shows "\<not> ct_isLeader s2 \<and> ct_currentLeaderId s2 = None"
proof -
  have "stuck (ct_stop now s)" "\<not> ct_started (ct_stop now s)"
    using assms(1-4) by (simp_all add: stuck_def ct_stop_def stopLeaderCheck_def stopLeaderHeartbeat_def Let_def)
  with assms(5) have "stuck s1"
    by (auto simp: ct_start_def startLeaderElection_def startLeaderCheck_def stuck_def Let_def split: if_splits)
  with assms(6) have "stuck s2" by (induction rule: rtranclp_induct) (auto intro: stuck_step)
  then show ?thesis by (simp add: stuck_def)
qed

lemma stopped_election_blocks_restart_witness:
  "\<exists>s1. ct_start True 600 (ct_stop 600 (initial_elapsed 500 (sample_tab ''a''))) = Inr s1 \<and>
        \<not> ct_isLeader s1 \<and> ct_currentLeaderId s1 = None"
proof -
  let ?s = "initial_elapsed 500 (sample_tab ''a'')"
  have s: "ct_started ?s" "ct_isElectionInProgress ?s" "\<not> ct_isLeader ?s" "ct_currentLeaderId ?s = None" "\<not> ct_isDisposed (ct_stop 600 ?s)"
    by (simp_all add: sample_tab_def ct_start_def createCrossTabManager_def startLeaderElection_def startLeaderCheck_def
        initial_elapsed_def initiateElection_def broadcast_def ct_stop_def stopLeaderCheck_def stopLeaderHeartbeat_def Let_def)
  then obtain s1 where "ct_start True 600 (ct_stop 600 ?s) = Inr s1" by (auto simp: ct_start_def)
  with stopped_election_blocks_restart [OF s(1-4) this, of s1] show ?thesis by blast
qed

text \<open>\<open>dispose\<close> never announces the resignation: the object counts as disposed before \<open>stop\<close> broadcasts.\<close>

lemma dispose_resigns_silently: "\<not> ct_isDisposed s \<Longrightarrow> ct_sent (ct_dispose now s) = ct_sent s"
  by (simp add: ct_dispose_def ct_onDispose_def ct_stop_def broadcast_def stopLeaderCheck_def stopLeaderHeartbeat_def Let_def)

text \<open>
  The pauses between the heartbeats of an idle leader grow to 3, 4.5, 6.75 and 8 s, beyond the timeout of 5 s,
  and nothing ever resets them: a tab that got every heartbeat deposes the leader at its check 6.5 s
  after the last one.
\<close>

definition beat :: "ms \<Rightarrow> unit tab \<times> unit tab \<Rightarrow> unit tab \<times> unit tab" where
  "beat now = (\<lambda>(leader, follower). (heartbeat_elapsed now leader, handleMessage Some now (heartbeat_of now leader) follower))"

definition idle_follower :: "unit tab" where
  "idle_follower = (createCrossTabManager cross_tab_defaults ''b'')
     \<lparr>ct_started := True, ct_channel := True, ct_leaderCheckInterval := Some 2000, ct_currentLeaderId := Some ''a'', ct_currentLeaderTerm := 1\<rparr>"

lemma idle_leader_deposed:
  "let (leader, follower) = fold beat [2000, 4000, 6000, 8000, 11000, 15500] (sample_leader ''a'' 1, idle_follower);
       challenger = check_elapsed 22000 follower;
       deposed = handleMessage Some 22000 (List.last (ct_sent challenger)) leader
   in ct_leaderHeartbeatTimer leader = Some 22250 \<and> ct_lastLeaderHeartbeat follower = 15500 \<and>
      ct_isLeader leader \<and> \<not> ct_isLeader deposed \<and> ct_isLeader (election_elapsed 22300 challenger)"
  by (simp add: beat_def sample_leader_def idle_follower_def createCrossTabManager_def cross_tab_defaults_def election_defaults
      heartbeat_elapsed_def quiet_heartbeat_def scheduleNextHeartbeat_def broadcast_def heartbeat_of_def handleMessage_def
      handle_election_def on_heartbeat_def extractLeaderPayload_def leader_payload_def no_payload_def call_handlers_def
      check_elapsed_def tryBecomeLeader_def initiateElection_def on_candidate_def stopLeaderHeartbeat_def
      election_elapsed_def becomeLeader_def startLeaderHeartbeat_def resetHeartbeatInterval_def Let_def)

text \<open>A heartbeat without leader id, which the schema accepts, leaves a tab without leader and without election.\<close>

lemma anonymous_heartbeat_strands:
  assumes "m = \<lparr>cm_type = LEADER_HEARTBEAT, cm_tabId = ''x'', cm_timestamp = 0, cm_payload = None\<rparr>"
    and "s = createCrossTabManager cross_tab_defaults ''b''"
  shows "let s' = handleMessage Some 1000 m (idle_follower\<lparr>ct_currentLeaderTerm := 0\<rparr>)
         in \<not> ct_isLeader s' \<and> ct_currentLeaderId s' = None \<and> \<not> election_ahead s'"
  by (simp add: assms idle_follower_def createCrossTabManager_def handleMessage_def handle_election_def on_heartbeat_def
      extractLeaderPayload_def call_handlers_def election_ahead_def Let_def)

text \<open>
  Calling an old closure a second time after its \<open>Set\<close> was emptied removes the handlers subscribed since.
\<close>

lemma stale_unsubscribe:
  "let s0 = sample_leader ''a'' 1;
       (u, s1) = (case subscribe ONLINE 1 s0 of Inr r \<Rightarrow> r | Inl _ \<Rightarrow> ((ONLINE, 0, 0), s0));
       s2 = unsubscribe u s1;
       s3 = (case subscribe ONLINE 2 s2 of Inr (_, s) \<Rightarrow> s | Inl _ \<Rightarrow> s2)
   in getSubscriptionCount s3 = 1 \<and> getSubscriptionCount (unsubscribe u s3) = 0"
  by (simp add: sample_leader_def createCrossTabManager_def subscribe_def unsubscribe_def getSubscriptionCount_def handler_set_def
      js_add_def jm_delete_def jm_get_def Let_def)

end
