(* ===== verification/Realtime_Messages.thy ===== *)
theory Realtime_Messages
  imports Foundation_Prelude
begin

text \<open>
  The messages of the realtime protocol and the snapshots of its client
  (\<open>libs/foundation/data-model/src/types/realtime.ts\<close>): what a value has become after the schema accepted
  it. Versions and sequence numbers are numbers, the payload of an event is of any type \<open>'p\<close>.
\<close>

datatype rt_ownership = OWN_UNKNOWN | OWN_LEADER | OWN_FOLLOWER | OWN_STANDALONE

datatype rt_connection_state =
  RT_IDLE | RT_CONNECTING | RT_HANDSHAKING | RT_READY | RT_RECONNECTING | RT_CLOSED | RT_ERROR

datatype rt_subscription_state = SUB_PENDING | SUB_SUBSCRIBED | SUB_UNSUBSCRIBED | SUB_ERROR | SUB_RESYNC_REQUIRED

datatype rt_data_kind = KIND_CREATED | KIND_UPDATED | KIND_DELETED | KIND_SNAPSHOT

record rt_topic =
  tp_topic :: string
  tp_table :: string

record rt_cursor =
  cu_topic :: string
  cu_table :: string
  cu_seq :: nat
  cu_version :: "int option"
  cu_occurredAt :: ms
  cu_updatedAt :: ms

record rt_connection =
  cn_state :: rt_connection_state
  cn_ownership :: rt_ownership
  cn_protocolVersion :: "string option"
  cn_negotiatedProtocolVersion :: "string option"
  cn_connectionId :: "string option"
  cn_leaderTabId :: "string option"
  cn_heartbeatIntervalMs :: "ms option"
  cn_lastConnectedAt :: "ms option"
  cn_lastReadyAt :: "ms option"
  cn_updatedAt :: ms
  cn_lastErrorCode :: "string option"
  cn_lastErrorMessage :: "string option"

record rt_subscription =
  sb_topic :: string
  sb_table :: string
  sb_state :: rt_subscription_state
  sb_lastSeq :: "nat option"
  sb_lastVersion :: "int option"
  sb_updatedAt :: ms
  sb_errorCode :: "string option"
  sb_errorMessage :: "string option"

text \<open>Messages of the client. \<open>UnsubscribeMsg\<close> names topics, \<open>SubscribeMsg\<close> describes them.\<close>

datatype client_message =
    HelloMsg string "string option" string string "string list" "rt_cursor list"
  | ResumeMsg string "string option" "rt_cursor list"
  | SubscribeMsg string "string option" "rt_topic list"
  | UnsubscribeMsg string "string option" "string list"
  | AckMsg string "string option" string ms
  | PingMsg string "string option" ms
  | PongMsg string "string option" "string option" ms

fun client_requestId :: "client_message \<Rightarrow> string option" where
  "client_requestId (HelloMsg _ r _ _ _ _) = r"
| "client_requestId (ResumeMsg _ r _) = r"
| "client_requestId (SubscribeMsg _ r _) = r"
| "client_requestId (UnsubscribeMsg _ r _) = r"
| "client_requestId (AckMsg _ r _ _) = r"
| "client_requestId (PingMsg _ r _) = r"
| "client_requestId (PongMsg _ r _ _) = r"

text \<open>An event or a snapshot; \<open>dm_isSnapshot\<close> tells which.\<close>

record 'p data_message =
  dm_isSnapshot :: bool
  dm_messageId :: string
  dm_topic :: string
  dm_table :: string
  dm_entityId :: "string option"
  dm_seq :: nat
  dm_occurredAt :: ms
  dm_version :: "int option"
  dm_kind :: rt_data_kind
  dm_payload :: "'p option"

record hello_ack =
  ha_messageId :: string
  ha_requestId :: "string option"
  ha_connectionId :: string
  ha_protocolVersion :: string
  ha_negotiatedProtocolVersion :: string
  ha_heartbeatIntervalMs :: ms
  ha_capabilities :: "string list"
  ha_resumeAccepted :: bool
  ha_serverTime :: ms

record subscribed_message =
  sd_messageId :: string
  sd_requestId :: "string option"
  sd_topic :: string
  sd_table :: string
  sd_cursor :: "rt_cursor option"

record resync_message =
  ry_messageId :: string
  ry_requestId :: "string option"
  ry_topic :: string
  ry_table :: string
  ry_expectedSeq :: "nat option"
  ry_actualSeq :: "nat option"
  ry_reason :: string

record error_message =
  er_messageId :: string
  er_requestId :: "string option"
  er_code :: string
  er_message :: string
  er_recoverable :: bool
  er_topic :: "string option"
  er_table :: "string option"

datatype 'p server_message =
    HelloAck hello_ack
  | Subscribed subscribed_message
  | Unsubscribed string "string option" string string
  | Data "'p data_message"
  | ResyncRequired resync_message
  | ErrorMessage error_message
  | ServerPing string "string option" ms
  | ServerPong string "string option" "string option" ms

subsection \<open>Schemas\<close>

text \<open>What the Zod schemas require beyond the types of the records.\<close>

definition nonEmptyString :: "string \<Rightarrow> bool" where
  "nonEmptyString s = (s \<noteq> '''')"

definition optional :: "('a \<Rightarrow> bool) \<Rightarrow> 'a option \<Rightarrow> bool" where
  "optional P x = (case x of None \<Rightarrow> True | Some v \<Rightarrow> P v)"

definition nonNegativeNumber :: "ms \<Rightarrow> bool" where
  "nonNegativeNumber n = (0 \<le> n)"

definition topicDescriptorSchema :: "rt_topic \<Rightarrow> bool" where
  "topicDescriptorSchema t = (nonEmptyString (tp_topic t) \<and> nonEmptyString (tp_table t))"

definition topicCursorSchema :: "rt_cursor \<Rightarrow> bool" where
  "topicCursorSchema c =
     (nonEmptyString (cu_topic c) \<and> nonEmptyString (cu_table c) \<and> nonNegativeNumber (cu_occurredAt c) \<and>
      nonNegativeNumber (cu_updatedAt c))"

fun clientMessageSchema :: "client_message \<Rightarrow> bool" where
  "clientMessageSchema (HelloMsg mid r version instance capabilities cursors) =
     (nonEmptyString mid \<and> optional nonEmptyString r \<and> nonEmptyString version \<and> nonEmptyString instance \<and>
      list_all nonEmptyString capabilities \<and> list_all topicCursorSchema cursors)"
| "clientMessageSchema (ResumeMsg mid r cursors) =
     (nonEmptyString mid \<and> optional nonEmptyString r \<and> list_all topicCursorSchema cursors)"
| "clientMessageSchema (SubscribeMsg mid r topics) =
     (nonEmptyString mid \<and> optional nonEmptyString r \<and> list_all topicDescriptorSchema topics \<and> topics \<noteq> [])"
| "clientMessageSchema (UnsubscribeMsg mid r topics) =
     (nonEmptyString mid \<and> optional nonEmptyString r \<and> list_all nonEmptyString topics \<and> topics \<noteq> [])"
| "clientMessageSchema (AckMsg mid r received receivedAt) =
     (nonEmptyString mid \<and> optional nonEmptyString r \<and> nonEmptyString received \<and> nonNegativeNumber receivedAt)"
| "clientMessageSchema (PingMsg mid r sentAt) =
     (nonEmptyString mid \<and> optional nonEmptyString r \<and> nonNegativeNumber sentAt)"
| "clientMessageSchema (PongMsg mid r replyingTo sentAt) =
     (nonEmptyString mid \<and> optional nonEmptyString r \<and> optional nonEmptyString replyingTo \<and> nonNegativeNumber sentAt)"

definition dataMessageSchema :: "'p data_message \<Rightarrow> bool" where
  "dataMessageSchema m =
     (nonEmptyString (dm_messageId m) \<and> nonEmptyString (dm_topic m) \<and> nonEmptyString (dm_table m) \<and>
      nonNegativeNumber (dm_occurredAt m) \<and>
      (if dm_isSnapshot m then dm_entityId m = None \<and> dm_kind m = KIND_SNAPSHOT
       else optional nonEmptyString (dm_entityId m) \<and> dm_kind m \<noteq> KIND_SNAPSHOT))"

definition helloAckSchema :: "hello_ack \<Rightarrow> bool" where
  "helloAckSchema a =
     (nonEmptyString (ha_messageId a) \<and> optional nonEmptyString (ha_requestId a) \<and> nonEmptyString (ha_connectionId a) \<and>
      nonEmptyString (ha_protocolVersion a) \<and> nonEmptyString (ha_negotiatedProtocolVersion a) \<and> 0 < ha_heartbeatIntervalMs a \<and>
      list_all nonEmptyString (ha_capabilities a) \<and> nonNegativeNumber (ha_serverTime a))"

definition subscribedSchema :: "subscribed_message \<Rightarrow> bool" where
  "subscribedSchema m =
     (nonEmptyString (sd_messageId m) \<and> optional nonEmptyString (sd_requestId m) \<and> nonEmptyString (sd_topic m) \<and>
      nonEmptyString (sd_table m) \<and> optional topicCursorSchema (sd_cursor m))"

definition resyncSchema :: "resync_message \<Rightarrow> bool" where
  "resyncSchema m =
     (nonEmptyString (ry_messageId m) \<and> optional nonEmptyString (ry_requestId m) \<and> nonEmptyString (ry_topic m) \<and>
      nonEmptyString (ry_table m) \<and> nonEmptyString (ry_reason m))"

definition errorSchema :: "error_message \<Rightarrow> bool" where
  "errorSchema m =
     (nonEmptyString (er_messageId m) \<and> optional nonEmptyString (er_requestId m) \<and> nonEmptyString (er_code m) \<and>
      nonEmptyString (er_message m) \<and> optional nonEmptyString (er_topic m) \<and> optional nonEmptyString (er_table m))"

fun serverMessageSchema :: "'p server_message \<Rightarrow> bool" where
  "serverMessageSchema (HelloAck a) = helloAckSchema a"
| "serverMessageSchema (Subscribed a) = subscribedSchema a"
| "serverMessageSchema (Unsubscribed mid r topic table) =
     (nonEmptyString mid \<and> optional nonEmptyString r \<and> nonEmptyString topic \<and> nonEmptyString table)"
| "serverMessageSchema (Data d) = dataMessageSchema d"
| "serverMessageSchema (ResyncRequired a) = resyncSchema a"
| "serverMessageSchema (ErrorMessage a) = errorSchema a"
| "serverMessageSchema (ServerPing mid r sentAt) =
     (nonEmptyString mid \<and> optional nonEmptyString r \<and> nonNegativeNumber sentAt)"
| "serverMessageSchema (ServerPong mid r replyingTo sentAt) =
     (nonEmptyString mid \<and> optional nonEmptyString r \<and> optional nonEmptyString replyingTo \<and> nonNegativeNumber sentAt)"

fun isRealtimeAckServerMessage :: "'p server_message \<Rightarrow> bool" where
  "isRealtimeAckServerMessage (HelloAck _) = True"
| "isRealtimeAckServerMessage (Subscribed _) = True"
| "isRealtimeAckServerMessage (Unsubscribed _ _ _ _) = True"
| "isRealtimeAckServerMessage (ServerPong _ _ _ _) = True"
| "isRealtimeAckServerMessage (ErrorMessage _) = True"
| "isRealtimeAckServerMessage _ = False"

fun isRealtimeDataServerMessage :: "'p server_message \<Rightarrow> bool" where
  "isRealtimeDataServerMessage (Data _) = True"
| "isRealtimeDataServerMessage _ = False"

end
