(* ===== verification/Realtime_Socket.thy ===== *)
theory Realtime_Socket
  imports Realtime_Messages Safe_Timer
begin

text \<open>
  The realtime socket client (\<open>libs/foundation/data-layer/src/realtime/socket-client.ts\<close>): connecting with a
  ticket, the handshake, subscriptions, the order of data messages, acknowledgements with timeouts, heartbeat and reconnection.
  The client is a record with the fields of the class; each event of the host (a promise that settles, a socket event, a
  timer) and each call of a method is a function on it. WebSockets are numbered objects whose
  listeners are those of the handshake, those attached when it is over, or none. Promises:
  \<open>rs_phase\<close> is where \<open>doConnect\<close> waits, a pending request remembers what its promise
  continues with, and what follows a settled promise runs when the event that settled it is over (\<open>rs_microtasks\<close>).
  Timers are due times (theory \<open>Safe_Timer\<close>), except the heartbeat timeout, which is restarted and therefore a
  \<open>SafeTimer\<close> object. Validated messages, tickets, ids (\<open>crypto.randomUUID\<close>) and the clock are arguments.
\<close>

subsection \<open>Configuration\<close>

record reconnect_config =
  rc_enabled :: "bool option"
  rc_maxAttempts :: "nat option"
  rc_initialDelayMs :: "ms option"
  rc_maxDelayMs :: "ms option"

record heartbeat_config =
  hb_enabled :: "bool option"
  hb_intervalMs :: "ms option"
  hb_timeoutMs :: "ms option"

record resume_config =
  rz_enabled :: "bool option"
  rz_persistCursors :: "bool option"

record rt_ticket =
  tk_ticket :: string
  tk_queryParam :: "string option"
  tk_url :: "string option"
  tk_protocols :: "string list option"

datatype ticket_value = TicketString string | TicketObject rt_ticket

record ticket_auth =
  ta_mode :: string
  ta_queryParam :: "string option"

record socket_config =
  sc_url :: string
  sc_protocols :: "string list option"
  sc_protocolVersion :: "string option"
  sc_auth :: "ticket_auth option"
  sc_heartbeat :: "heartbeat_config option"
  sc_reconnect :: "reconnect_config option"
  sc_resume :: "resume_config option"
  sc_standalone :: bool
  sc_requestTimeoutMs :: "ms option"

definition REQUEST_TIMEOUT_MS :: ms where "REQUEST_TIMEOUT_MS = 10000"
definition HEARTBEAT_INTERVAL_MS :: ms where "HEARTBEAT_INTERVAL_MS = 15000"
definition HEARTBEAT_TIMEOUT_MS :: ms where "HEARTBEAT_TIMEOUT_MS = 45000"
definition RESUME_QUERY_PARAM :: string where "RESUME_QUERY_PARAM = ''ticket''"

text \<open>JavaScript's \<open>a ?? b\<close> on options.\<close>

definition nullish :: "'a option \<Rightarrow> 'a \<Rightarrow> 'a" where
  "nullish x d = (case x of Some v \<Rightarrow> v | None \<Rightarrow> d)"

definition nullish_opt :: "'a option \<Rightarrow> 'a option \<Rightarrow> 'a option" where
  "nullish_opt x y = (case x of Some v \<Rightarrow> Some v | None \<Rightarrow> y)"

definition resolveTopicKey :: "string \<Rightarrow> string \<Rightarrow> string" where
  "resolveTopicKey topic table = table @ ''::'' @ topic"

definition buildCursorFromMessage :: "ms \<Rightarrow> 'p data_message \<Rightarrow> rt_cursor" where
  "buildCursorFromMessage now m =
     \<lparr>cu_topic = dm_topic m, cu_table = dm_table m, cu_seq = dm_seq m, cu_version = dm_version m,
      cu_occurredAt = dm_occurredAt m, cu_updatedAt = now\<rparr>"

definition createInitialConnectionSnapshot :: "ms \<Rightarrow> socket_config \<Rightarrow> rt_connection" where
  "createInitialConnectionSnapshot now config =
     \<lparr>cn_state = RT_IDLE, cn_ownership = (if sc_standalone config then OWN_STANDALONE else OWN_UNKNOWN),
      cn_protocolVersion = Some (nullish (sc_protocolVersion config) ''1.0''), cn_negotiatedProtocolVersion = None,
      cn_connectionId = None, cn_leaderTabId = None, cn_heartbeatIntervalMs = None, cn_lastConnectedAt = None,
      cn_lastReadyAt = None, cn_updatedAt = now, cn_lastErrorCode = None, cn_lastErrorMessage = None\<rparr>"

text \<open>
  \<open>got\<close> is what \<open>getTicket\<close> returned, \<open>fetched\<close> what the endpoint returned where there is one. An empty ticket string is
  not nullish, but false.
\<close>

definition resolveTicket :: "socket_config \<Rightarrow> ticket_value option \<Rightarrow> ticket_value option \<Rightarrow> string + rt_ticket" where
  "resolveTicket config got fetched =
     (case sc_auth config of
        None \<Rightarrow> Inl ''Realtime websocket auth is required and must use ticket mode.''
      | Some auth \<Rightarrow>
          if ta_mode auth \<noteq> ''ticket'' then Inl ''Realtime websocket auth supports only ticket mode.''
          else (case nullish_opt got fetched of
                  None \<Rightarrow> Inl ''Realtime websocket ticket auth requires getTicket or ticketEndpoint to return a ticket.''
                | Some (TicketString t) \<Rightarrow>
                    if t = '''' then Inl ''Realtime websocket ticket auth requires getTicket or ticketEndpoint to return a ticket.''
                    else Inr \<lparr>tk_ticket = t, tk_queryParam = Some (nullish (ta_queryParam auth) RESUME_QUERY_PARAM),
                              tk_url = None, tk_protocols = None\<rparr>
                | Some (TicketObject v) \<Rightarrow>
                    Inr (v\<lparr>tk_queryParam := Some (nullish (tk_queryParam v) (nullish (ta_queryParam auth) RESUME_QUERY_PARAM))\<rparr>)))"

text \<open>\<open>setParam base name value\<close> stands for \<open>URL\<close> and \<open>searchParams.set\<close>.\<close>

definition resolveSocketUrl ::
  "(string \<Rightarrow> string \<Rightarrow> string \<Rightarrow> string) \<Rightarrow> socket_config \<Rightarrow> ticket_value option \<Rightarrow> ticket_value option
     \<Rightarrow> string + string \<times> string list option" where
  "resolveSocketUrl setParam config got fetched =
     (case resolveTicket config got fetched of
        Inl e \<Rightarrow> Inl e
      | Inr ticket \<Rightarrow>
          Inr (setParam (nullish (tk_url ticket) (sc_url config)) (nullish (tk_queryParam ticket) RESUME_QUERY_PARAM) (tk_ticket ticket),
               nullish_opt (tk_protocols ticket) (sc_protocols config)))"

definition createSubscriptionSnapshot :: "ms \<Rightarrow> string \<Rightarrow> string \<Rightarrow> rt_subscription_state \<Rightarrow> rt_subscription" where
  "createSubscriptionSnapshot now topic table st =
     \<lparr>sb_topic = topic, sb_table = table, sb_state = st, sb_lastSeq = None, sb_lastVersion = None, sb_updatedAt = now,
      sb_errorCode = None, sb_errorMessage = None\<rparr>"

subsection \<open>State\<close>

datatype ready_state = WS_CONNECTING | WS_OPEN | WS_CLOSING | WS_CLOSED

datatype socket_listeners = HandshakeListeners | ReadyListeners | NoListeners

record web_socket =
  ws_readyState :: ready_state
  ws_listeners :: socket_listeners
  ws_url :: string
  ws_protocols :: "string list option"
  ws_sent :: "client_message list"

text \<open>What the promise of a request continues with.\<close>

datatype continuation = ThenHello nat | ThenSubscribed nat | ThenPing | ThenClient

text \<open>\<open>rq_due\<close> is the due time of the request's timer while that is armed.\<close>

record rt_request =
  rq_id :: string
  rq_due :: "ms option"
  rq_cont :: continuation

datatype connect_phase = LoadingCursors | ResolvingTicket | Handshaking nat

datatype 'p listener_call =
    ConnectionCall nat rt_connection
  | SubscriptionCall nat "(string, rt_subscription) jmap"
  | MessageCall nat "'p server_message"

record 'p rt_client =
  rs_config :: socket_config
  rs_clientInstanceId :: string
  rs_socket :: "nat option"
  rs_sockets :: "web_socket list"
  rs_connection :: rt_connection
  rs_subscriptions :: "(string, rt_subscription) jmap"
  rs_cursors :: "(string, rt_cursor) jmap"
  rs_stored :: "(string, rt_cursor) jmap option"
  rs_lastMessage :: "'p server_message option"
  rs_connectionListeners :: "nat list"
  rs_subscriptionListeners :: "nat list"
  rs_messageListeners :: "nat list"
  rs_calls :: "'p listener_call list"
  rs_requests :: "rt_request list"
  rs_pending :: "(string, nat) jmap"
  rs_settled :: "(nat \<times> (string + 'p server_message)) list"
  rs_microtasks :: "(continuation \<times> (string + 'p server_message)) list"
  rs_desiredTopics :: "(string, rt_topic) jmap"
  rs_reconnectAttempts :: nat
  rs_reconnectTimer :: "ms option"
  rs_pingTimer :: "(ms \<times> ms) option"
  rs_heartbeatTimeout :: "safe_timer option"
  rs_phase :: "connect_phase option"
  rs_awaitedAcks :: nat
  rs_connects :: "string option list"
  rs_manuallyClosed :: bool
  rs_uuids :: nat

definition new_client :: "ms \<Rightarrow> socket_config \<Rightarrow> string \<Rightarrow> 'p rt_client" where
  "new_client now config instanceId =
     \<lparr>rs_config = config, rs_clientInstanceId = instanceId, rs_socket = None, rs_sockets = [],
      rs_connection = createInitialConnectionSnapshot now config, rs_subscriptions = [], rs_cursors = [], rs_stored = None,
      rs_lastMessage = None, rs_connectionListeners = [], rs_subscriptionListeners = [], rs_messageListeners = [],
      rs_calls = [], rs_requests = [], rs_pending = [], rs_settled = [], rs_microtasks = [], rs_desiredTopics = [], rs_reconnectAttempts = 0,
      rs_reconnectTimer = None, rs_pingTimer = None, rs_heartbeatTimeout = None, rs_phase = None, rs_awaitedAcks = 0,
      rs_connects = [], rs_manuallyClosed = False, rs_uuids = 0\<rparr>"

subsection \<open>Listeners and snapshots\<close>

definition notifyConnectionListeners :: "'p rt_client \<Rightarrow> 'p rt_client" where
  "notifyConnectionListeners s =
     s\<lparr>rs_calls := rs_calls s @ map (\<lambda>l. ConnectionCall l (rs_connection s)) (rs_connectionListeners s)\<rparr>"

definition notifySubscriptionListeners :: "'p rt_client \<Rightarrow> 'p rt_client" where
  "notifySubscriptionListeners s =
     s\<lparr>rs_calls := rs_calls s @ map (\<lambda>l. SubscriptionCall l (rs_subscriptions s)) (rs_subscriptionListeners s)\<rparr>"

definition notifyMessageListeners :: "'p server_message \<Rightarrow> 'p rt_client \<Rightarrow> 'p rt_client" where
  "notifyMessageListeners m s = s\<lparr>rs_calls := rs_calls s @ map (\<lambda>l. MessageCall l m) (rs_messageListeners s)\<rparr>"

definition updateConnectionSnapshot :: "ms \<Rightarrow> (rt_connection \<Rightarrow> rt_connection) \<Rightarrow> 'p rt_client \<Rightarrow> 'p rt_client" where
  "updateConnectionSnapshot now partial s =
     notifyConnectionListeners (s\<lparr>rs_connection := (partial (rs_connection s))\<lparr>cn_updatedAt := now\<rparr>\<rparr>)"

definition set_subscription :: "string \<Rightarrow> rt_subscription \<Rightarrow> 'p rt_client \<Rightarrow> 'p rt_client" where
  "set_subscription key snapshot s =
     notifySubscriptionListeners (s\<lparr>rs_subscriptions := jm_set key snapshot (rs_subscriptions s)\<rparr>)"

definition getStatus :: "'p rt_client \<Rightarrow> rt_connection_state" where
  "getStatus s = cn_state (rs_connection s)"

definition clearResumeState :: "'p rt_client \<Rightarrow> 'p rt_client" where
  "clearResumeState s = s\<lparr>rs_cursors := [], rs_stored := Some []\<rparr>"

definition subscribeConnection :: "nat \<Rightarrow> 'p rt_client \<Rightarrow> 'p rt_client" where
  "subscribeConnection l s =
     (let s1 = s\<lparr>rs_connectionListeners := js_add l (rs_connectionListeners s)\<rparr>
      in s1\<lparr>rs_calls := rs_calls s1 @ [ConnectionCall l (rs_connection s1)]\<rparr>)"

definition subscribeSubscriptions :: "nat \<Rightarrow> 'p rt_client \<Rightarrow> 'p rt_client" where
  "subscribeSubscriptions l s =
     (let s1 = s\<lparr>rs_subscriptionListeners := js_add l (rs_subscriptionListeners s)\<rparr>
      in s1\<lparr>rs_calls := rs_calls s1 @ [SubscriptionCall l (rs_subscriptions s1)]\<rparr>)"

definition subscribeMessages :: "nat \<Rightarrow> 'p rt_client \<Rightarrow> 'p rt_client" where
  "subscribeMessages l s = s\<lparr>rs_messageListeners := js_add l (rs_messageListeners s)\<rparr>"

definition setOwnership :: "ms \<Rightarrow> rt_ownership \<Rightarrow> string option \<Rightarrow> 'p rt_client \<Rightarrow> 'p rt_client" where
  "setOwnership now ownership leaderTabId =
     updateConnectionSnapshot now (\<lambda>c. c\<lparr>cn_ownership := ownership, cn_leaderTabId := leaderTabId\<rparr>)"

definition ingestConnectionSnapshot :: "rt_connection \<Rightarrow> 'p rt_client \<Rightarrow> 'p rt_client" where
  "ingestConnectionSnapshot snapshot s = notifyConnectionListeners (s\<lparr>rs_connection := snapshot\<rparr>)"

definition ingestSubscriptionSnapshot :: "rt_subscription \<Rightarrow> 'p rt_client \<Rightarrow> 'p rt_client" where
  "ingestSubscriptionSnapshot snapshot = set_subscription (resolveTopicKey (sb_topic snapshot) (sb_table snapshot)) snapshot"

definition register_topic :: "ms \<Rightarrow> rt_topic \<Rightarrow> 'p rt_client \<Rightarrow> 'p rt_client" where
  "register_topic now t s =
     (let key = resolveTopicKey (tp_topic t) (tp_table t);
          s1 = s\<lparr>rs_desiredTopics := jm_set key t (rs_desiredTopics s)\<rparr>
      in (if jm_has (rs_subscriptions s1) key then s1
          else s1\<lparr>rs_subscriptions :=
                    jm_set key (createSubscriptionSnapshot now (tp_topic t) (tp_table t) SUB_UNSUBSCRIBED) (rs_subscriptions s1)\<rparr>))"

definition registerTopics :: "ms \<Rightarrow> rt_topic list \<Rightarrow> 'p rt_client \<Rightarrow> 'p rt_client" where
  "registerTopics now topics s =
     notifySubscriptionListeners (fold (register_topic now) topics (s\<lparr>rs_desiredTopics := []\<rparr>))"

subsection \<open>Sockets and requests\<close>

definition the_socket :: "nat \<Rightarrow> 'p rt_client \<Rightarrow> web_socket option" where
  "the_socket i s = (if i < length (rs_sockets s) then Some (rs_sockets s ! i) else None)"

definition upd_socket :: "nat \<Rightarrow> (web_socket \<Rightarrow> web_socket) \<Rightarrow> 'p rt_client \<Rightarrow> 'p rt_client" where
  "upd_socket i f s = (if i < length (rs_sockets s) then s\<lparr>rs_sockets := (rs_sockets s)[i := f (rs_sockets s ! i)]\<rparr> else s)"

definition socket_state :: "'p rt_client \<Rightarrow> ready_state option" where
  "socket_state s = Option.bind (rs_socket s) (\<lambda>i. map_option ws_readyState (the_socket i s))"

definition socket_open :: "'p rt_client \<Rightarrow> bool" where
  "socket_open s = (socket_state s = Some WS_OPEN)"

text \<open>\<open>WebSocket.close\<close>; the close event follows later.\<close>

definition close_ws :: "web_socket \<Rightarrow> web_socket" where
  "close_ws w = (if ws_readyState w = WS_CLOSED then w else w\<lparr>ws_readyState := WS_CLOSING\<rparr>)"

definition close_socket :: "'p rt_client \<Rightarrow> 'p rt_client" where
  "close_socket s = (case rs_socket s of None \<Rightarrow> s | Some i \<Rightarrow> upd_socket i close_ws s)"

definition ws_send :: "client_message \<Rightarrow> 'p rt_client \<Rightarrow> 'p rt_client" where
  "ws_send m s =
     (case rs_socket s of None \<Rightarrow> s | Some i \<Rightarrow> upd_socket i (\<lambda>w. w\<lparr>ws_sent := ws_sent w @ [m]\<rparr>) s)"

definition fresh_uuid :: "(nat \<Rightarrow> string) \<Rightarrow> 'p rt_client \<Rightarrow> string \<times> 'p rt_client" where
  "fresh_uuid gen s = (gen (rs_uuids s), s\<lparr>rs_uuids := Suc (rs_uuids s)\<rparr>)"

definition handleProtocolError :: "ms \<Rightarrow> string \<Rightarrow> string \<Rightarrow> 'p rt_client \<Rightarrow> 'p rt_client" where
  "handleProtocolError now code message s =
     close_socket (updateConnectionSnapshot now
       (\<lambda>c. c\<lparr>cn_state := RT_ERROR, cn_lastErrorCode := Some code, cn_lastErrorMessage := Some message\<rparr>) s)"

definition sendWithAck ::
  "ms \<Rightarrow> continuation \<Rightarrow> client_message \<Rightarrow> 'p rt_client \<Rightarrow> string + 'p rt_client" where
  "sendWithAck now k m s =
     (case client_requestId m of
        None \<Rightarrow> Inl ''requestId is required for sendWithAck''
      | Some requestId \<Rightarrow>
          if requestId = '''' then Inl ''requestId is required for sendWithAck''
          else if \<not> socket_open s then Inl ''Realtime socket is not open''
          else Inr (ws_send m
                 (s\<lparr>rs_requests := rs_requests s @
                       [\<lparr>rq_id = requestId, rq_due = Some (now + nullish (sc_requestTimeoutMs (rs_config s)) REQUEST_TIMEOUT_MS),
                         rq_cont = k\<rparr>],
                    rs_pending := jm_set requestId (length (rs_requests s)) (rs_pending s)\<rparr>)))"

text \<open>\<open>valid\<close> stands for \<open>safeParseRealtimeClientMessage\<close>.\<close>

definition sendFireAndForget :: "(client_message \<Rightarrow> bool) \<Rightarrow> client_message \<Rightarrow> 'p rt_client \<Rightarrow> string + 'p rt_client" where
  "sendFireAndForget valid m s =
     (if \<not> valid m then Inl ''invalid message''
      else if \<not> socket_open s then Inl ''Realtime socket is not open''
      else Inr (ws_send m s))"

definition rt_send :: "ms \<Rightarrow> (client_message \<Rightarrow> bool) \<Rightarrow> client_message \<Rightarrow> 'p rt_client \<Rightarrow> string + 'p rt_client" where
  "rt_send now valid m s =
     (if \<not> valid m then Inl ''invalid message''
      else (case client_requestId m of
              None \<Rightarrow> Inl ''Realtime message requires requestId for send()''
            | Some r \<Rightarrow> if r = '''' then Inl ''Realtime message requires requestId for send()''
                else sendWithAck now ThenClient m s))"

text \<open>The promise of request \<open>n\<close> settles: its timer is over, and what waits for it runs later.\<close>

definition settle :: "nat \<Rightarrow> string + 'p server_message \<Rightarrow> 'p rt_client \<Rightarrow> 'p rt_client" where
  "settle n result s =
     s\<lparr>rs_requests := (rs_requests s)[n := (rs_requests s ! n)\<lparr>rq_due := None\<rparr>],
       rs_settled := rs_settled s @ [(n, result)],
       rs_microtasks := rs_microtasks s @ [(rq_cont (rs_requests s ! n), result)]\<rparr>"

definition resolvePendingRequest :: "string option \<Rightarrow> 'p server_message \<Rightarrow> 'p rt_client \<Rightarrow> 'p rt_client" where
  "resolvePendingRequest requestId m s =
     (case requestId of
        None \<Rightarrow> s
      | Some r \<Rightarrow>
          if r = '''' then s
          else (case jm_get (rs_pending s) r of
                  None \<Rightarrow> s
                | Some n \<Rightarrow> settle n (Inr m) (s\<lparr>rs_pending := jm_delete r (rs_pending s)\<rparr>)))"

definition reject_pending :: "string \<Rightarrow> string \<times> nat \<Rightarrow> 'p rt_client \<Rightarrow> 'p rt_client" where
  "reject_pending err = (\<lambda>(r, n) s. settle n (Inl err) (s\<lparr>rs_pending := jm_delete r (rs_pending s)\<rparr>))"

definition rejectPendingRequests :: "string \<Rightarrow> 'p rt_client \<Rightarrow> 'p rt_client" where
  "rejectPendingRequests err s = fold (reject_pending err) (rs_pending s) s"

subsection \<open>Heartbeat and reconnection\<close>

definition clearHeartbeatTimers :: "'p rt_client \<Rightarrow> 'p rt_client" where
  "clearHeartbeatTimers s = s\<lparr>rs_pingTimer := None, rs_heartbeatTimeout := None\<rparr>"

definition clearReconnectTimer :: "'p rt_client \<Rightarrow> 'p rt_client" where
  "clearReconnectTimer s = s\<lparr>rs_reconnectTimer := None\<rparr>"

definition startHeartbeat :: "ms \<Rightarrow> ms \<Rightarrow> 'p rt_client \<Rightarrow> 'p rt_client" where
  "startHeartbeat now serverIntervalMs s0 =
     (let s = clearHeartbeatTimers s0;
          hb = sc_heartbeat (rs_config s)
      in (if Option.bind hb hb_enabled = Some False then s
          else (let intervalMs = nullish (Option.bind hb hb_intervalMs) serverIntervalMs;
                    timeoutMs = nullish (Option.bind hb hb_timeoutMs) HEARTBEAT_TIMEOUT_MS
                in s\<lparr>rs_heartbeatTimeout := Some (new_SafeTimer now timeoutMs None True),
                     rs_pingTimer := Some (now + intervalMs, intervalMs)\<rparr>)))"

text \<open>The clock of the timer object is brought to the present before it is used.\<close>

definition at_time :: "ms \<Rightarrow> safe_timer \<Rightarrow> safe_timer" where
  "at_time now t = pass_time (now - el_clock t) t"

definition resetHeartbeatTimeout :: "ms \<Rightarrow> 'p rt_client \<Rightarrow> 'p rt_client" where
  "resetHeartbeatTimeout now s =
     (case rs_heartbeatTimeout s of
        None \<Rightarrow> s
      | Some t \<Rightarrow> s\<lparr>rs_heartbeatTimeout := Some (after_call t (st_restart (at_time now t)))\<rparr>)"

definition reconnect_delay :: "socket_config \<Rightarrow> nat \<Rightarrow> ms" where
  "reconnect_delay config attempts =
     (let initialDelayMs = nullish (Option.bind (sc_reconnect config) rc_initialDelayMs) 1000;
          maxDelayMs = nullish (Option.bind (sc_reconnect config) rc_maxDelayMs) 30000
      in min (initialDelayMs * 2 ^ attempts) maxDelayMs)"

definition scheduleReconnect :: "ms \<Rightarrow> 'p rt_client \<Rightarrow> 'p rt_client" where
  "scheduleReconnect now s =
     (let reconnect = sc_reconnect (rs_config s)
      in (if Option.bind reconnect rc_enabled = Some False then s
          else if (case Option.bind reconnect rc_maxAttempts of Some n \<Rightarrow> n \<le> rs_reconnectAttempts s | None \<Rightarrow> False) then s
          else (let delay = reconnect_delay (rs_config s) (rs_reconnectAttempts s);
                    s1 = s\<lparr>rs_reconnectAttempts := rs_reconnectAttempts s + 1\<rparr>;
                    s2 = updateConnectionSnapshot now (\<lambda>c. c\<lparr>cn_state := RT_RECONNECTING\<rparr>) s1
                in s2\<lparr>rs_reconnectTimer := Some (now + delay)\<rparr>)))"

subsection \<open>Server messages\<close>

definition last_seq :: "string \<Rightarrow> 'p rt_client \<Rightarrow> nat option" where
  "last_seq key s = Option.bind (jm_get (rs_subscriptions s) key) sb_lastSeq"

definition last_version :: "string \<Rightarrow> 'p rt_client \<Rightarrow> int option" where
  "last_version key s = Option.bind (jm_get (rs_subscriptions s) key) sb_lastVersion"

definition recordCursor :: "ms \<Rightarrow> 'p data_message \<Rightarrow> 'p rt_client \<Rightarrow> 'p rt_client" where
  "recordCursor now m s =
     (let key = resolveTopicKey (dm_topic m) (dm_table m)
      in (if (case jm_get (rs_cursors s) key of Some p \<Rightarrow> cu_seq p \<ge> dm_seq m | None \<Rightarrow> False) then s
          else (let cursor = buildCursorFromMessage now m;
                    s1 = s\<lparr>rs_cursors := jm_set key cursor (rs_cursors s)\<rparr>;
                    s2 = (case jm_get (rs_subscriptions s1) key of
                            None \<Rightarrow> s1
                          | Some c \<Rightarrow> set_subscription key
                              (c\<lparr>sb_lastSeq := Some (cu_seq cursor), sb_lastVersion := cu_version cursor, sb_updatedAt := now\<rparr>) s1)
                in (if Option.bind (sc_resume (rs_config s2)) rz_persistCursors = Some False then s2
                    else s2\<lparr>rs_stored := Some (rs_cursors s2)\<rparr>))))"

text \<open>\<open>gapReason\<close> is the text with the sequence number.\<close>

definition gapReason :: "nat \<Rightarrow> string" where
  "gapReason n = ''Gap detected in realtime stream at sequence '' @ show_nat n"

definition report_gap :: "ms \<Rightarrow> (nat \<Rightarrow> string) \<Rightarrow> rt_cursor \<Rightarrow> 'p data_message \<Rightarrow> 'p rt_client \<Rightarrow> 'p rt_client" where
  "report_gap now gen previous m s =
     (let key = resolveTopicKey (dm_topic m) (dm_table m);
          s1 = set_subscription key
                 \<lparr>sb_topic = dm_topic m, sb_table = dm_table m, sb_state = SUB_RESYNC_REQUIRED, sb_lastSeq = Some (cu_seq previous),
                  sb_lastVersion = cu_version previous, sb_updatedAt = now, sb_errorCode = Some ''REALTIME_RESYNC_REQUIRED'',
                  sb_errorMessage = Some (gapReason (dm_seq m))\<rparr> s;
          (u, s2) = fresh_uuid gen s1;
          resync = ResyncRequired \<lparr>ry_messageId = ''gap-'' @ u, ry_requestId = None, ry_topic = dm_topic m, ry_table = dm_table m,
                     ry_expectedSeq = Some (cu_seq previous + 1), ry_actualSeq = Some (dm_seq m), ry_reason = gapReason (dm_seq m)\<rparr>
      in notifyMessageListeners resync (s2\<lparr>rs_lastMessage := Some resync\<rparr>))"

text \<open>Whether the message is to be dropped, and the state.\<close>

definition handleDataMessageOrdering ::
  "ms \<Rightarrow> (nat \<Rightarrow> string) \<Rightarrow> 'p data_message \<Rightarrow> 'p rt_client \<Rightarrow> bool \<times> 'p rt_client" where
  "handleDataMessageOrdering now gen m s =
     (case jm_get (rs_cursors s) (resolveTopicKey (dm_topic m) (dm_table m)) of
        None \<Rightarrow> (False, s)
      | Some previous \<Rightarrow>
          if dm_seq m \<le> cu_seq previous then (True, s)
          else if dm_seq m > cu_seq previous + 1 then (True, report_gap now gen previous m s)
          else (False, s))"

definition applyErrorMessage :: "ms \<Rightarrow> error_message \<Rightarrow> 'p rt_client \<Rightarrow> 'p rt_client" where
  "applyErrorMessage now e s =
     (let s1 = (case (er_topic e, er_table e) of
                  (Some topic, Some table) \<Rightarrow>
                    if topic = '''' \<or> table = '''' then s
                    else (let key = resolveTopicKey topic table
                          in set_subscription key
                               \<lparr>sb_topic = topic, sb_table = table, sb_state = SUB_ERROR, sb_lastSeq = last_seq key s,
                                sb_lastVersion = last_version key s, sb_updatedAt = now, sb_errorCode = Some (er_code e),
                                sb_errorMessage = Some (er_message e)\<rparr> s)
                | _ \<Rightarrow> s)
      in updateConnectionSnapshot now (\<lambda>c. c\<lparr>cn_lastErrorCode := Some (er_code e), cn_lastErrorMessage := Some (er_message e)\<rparr>) s1)"

definition on_hello_ack :: "ms \<Rightarrow> hello_ack \<Rightarrow> 'p rt_client \<Rightarrow> 'p rt_client" where
  "on_hello_ack now a s =
     resolvePendingRequest (ha_requestId a) (HelloAck a)
       (updateConnectionSnapshot now
          (\<lambda>c. c\<lparr>cn_state := RT_READY, cn_connectionId := Some (ha_connectionId a),
                 cn_negotiatedProtocolVersion := Some (ha_negotiatedProtocolVersion a),
                 cn_heartbeatIntervalMs := Some (ha_heartbeatIntervalMs a), cn_lastReadyAt := Some now,
                 cn_lastErrorCode := None, cn_lastErrorMessage := None\<rparr>) s)"

definition on_subscribed :: "ms \<Rightarrow> subscribed_message \<Rightarrow> 'p rt_client \<Rightarrow> 'p rt_client" where
  "on_subscribed now m s =
     (let key = resolveTopicKey (sd_topic m) (sd_table m)
      in resolvePendingRequest (sd_requestId m) (Subscribed m)
           (set_subscription key
              \<lparr>sb_topic = sd_topic m, sb_table = sd_table m, sb_state = SUB_SUBSCRIBED,
               sb_lastSeq = nullish_opt (map_option cu_seq (sd_cursor m)) (last_seq key s),
               sb_lastVersion = nullish_opt (Option.bind (sd_cursor m) cu_version) (last_version key s),
               sb_updatedAt = now, sb_errorCode = None, sb_errorMessage = None\<rparr> s))"

definition on_unsubscribed :: "ms \<Rightarrow> string \<Rightarrow> string option \<Rightarrow> string \<Rightarrow> string \<Rightarrow> 'p rt_client \<Rightarrow> 'p rt_client" where
  "on_unsubscribed now mid requestId topic table s =
     (let key = resolveTopicKey topic table
      in resolvePendingRequest requestId (Unsubscribed mid requestId topic table)
           (set_subscription key
              \<lparr>sb_topic = topic, sb_table = table, sb_state = SUB_UNSUBSCRIBED, sb_lastSeq = last_seq key s,
               sb_lastVersion = last_version key s, sb_updatedAt = now, sb_errorCode = None, sb_errorMessage = None\<rparr> s))"

definition on_resync :: "ms \<Rightarrow> resync_message \<Rightarrow> 'p rt_client \<Rightarrow> 'p rt_client" where
  "on_resync now m s =
     (let key = resolveTopicKey (ry_topic m) (ry_table m)
      in set_subscription key
           \<lparr>sb_topic = ry_topic m, sb_table = ry_table m, sb_state = SUB_RESYNC_REQUIRED, sb_lastSeq = last_seq key s,
            sb_lastVersion = last_version key s, sb_updatedAt = now, sb_errorCode = Some ''REALTIME_RESYNC_REQUIRED'',
            sb_errorMessage = Some (ry_reason m)\<rparr> s)"

text \<open>The \<open>switch\<close> of \<open>handleIncomingMessage\<close>: an error it throws, or whether the listeners are called, and the state.\<close>

definition on_data ::
  "ms \<Rightarrow> (nat \<Rightarrow> string) \<Rightarrow> (client_message \<Rightarrow> bool) \<Rightarrow> bool \<Rightarrow> 'p data_message \<Rightarrow> 'p rt_client \<Rightarrow> (string \<times> 'p rt_client) + bool \<times> 'p rt_client" where
  "on_data now gen valid fromSocket m s =
     (let (drop_it, s1) = handleDataMessageOrdering now gen m s
      in (if drop_it then Inr (False, s1)
          else (let s2 = recordCursor now m s1
                in (if fromSocket
                    then (let (u, s3) = fresh_uuid gen s2
                          in (case sendFireAndForget valid (AckMsg u None (dm_messageId m) now) s3 of
                                Inl e \<Rightarrow> Inl (e, s3)
                              | Inr s4 \<Rightarrow> Inr (True, s4)))
                    else Inr (True, s2)))))"

definition on_message ::
  "ms \<Rightarrow> (nat \<Rightarrow> string) \<Rightarrow> (client_message \<Rightarrow> bool) \<Rightarrow> bool \<Rightarrow> 'p server_message \<Rightarrow> 'p rt_client
     \<Rightarrow> (string \<times> 'p rt_client) + bool \<times> 'p rt_client" where
  "on_message now gen valid fromSocket m s =
     (case m of
        HelloAck a \<Rightarrow> Inr (True, on_hello_ack now a s)
      | Subscribed a \<Rightarrow> Inr (True, on_subscribed now a s)
      | Unsubscribed mid r topic table \<Rightarrow> Inr (True, on_unsubscribed now mid r topic table s)
      | Data d \<Rightarrow> on_data now gen valid fromSocket d s
      | ResyncRequired r \<Rightarrow> Inr (True, on_resync now r s)
      | ErrorMessage e \<Rightarrow> Inr (True, resolvePendingRequest (er_requestId e) m (applyErrorMessage now e s))
      | ServerPing mid r sentAt \<Rightarrow>
          if fromSocket
          then (let (u, s1) = fresh_uuid gen s
                in (case sendFireAndForget valid (PongMsg u r (Some mid) now) s1 of
                      Inl e \<Rightarrow> Inl (e, s1)
                    | Inr s2 \<Rightarrow> Inr (True, s2)))
          else Inr (True, s)
      | ServerPong mid r replyingTo sentAt \<Rightarrow> Inr (True, resolvePendingRequest r m s))"

text \<open>What it throws is reported by the host, and the listeners are not called.\<close>

definition handleIncomingMessage ::
  "ms \<Rightarrow> (nat \<Rightarrow> string) \<Rightarrow> (client_message \<Rightarrow> bool) \<Rightarrow> 'p server_message \<Rightarrow> bool \<Rightarrow> 'p rt_client \<Rightarrow> 'p rt_client" where
  "handleIncomingMessage now gen valid m fromSocket s =
     (let s1 = (if fromSocket then resetHeartbeatTimeout now s else s);
          s2 = s1\<lparr>rs_lastMessage := Some m\<rparr>
      in (case on_message now gen valid fromSocket m s2 of
            Inl (e, s3) \<Rightarrow> s3
          | Inr (notify, s3) \<Rightarrow> if notify then notifyMessageListeners m s3 else s3))"

subsection \<open>Connecting\<close>

definition subscribe_one ::
  "ms \<Rightarrow> (nat \<Rightarrow> string) \<Rightarrow> continuation \<Rightarrow> rt_topic \<Rightarrow> 'p rt_client \<Rightarrow> string option \<times> 'p rt_client" where
  "subscribe_one now gen k t s =
     (let (mid, s1) = fresh_uuid gen s; (r, s2) = fresh_uuid gen s1
      in (case sendWithAck now k (SubscribeMsg mid (Some r) [t]) s2 of Inl e \<Rightarrow> (Some e, s2) | Inr s3 \<Rightarrow> (None, s3)))"

fun subscribe_all ::
  "ms \<Rightarrow> (nat \<Rightarrow> string) \<Rightarrow> continuation \<Rightarrow> rt_topic list \<Rightarrow> 'p rt_client \<Rightarrow> string option \<times> 'p rt_client" where
  "subscribe_all now gen k [] s = (None, s)"
| "subscribe_all now gen k (t # ts) s =
     (case subscribe_one now gen k t s of (Some e, s1) \<Rightarrow> (Some e, s1) | (None, s1) \<Rightarrow> subscribe_all now gen k ts s1)"

text \<open>
  \<open>ensureSubscriptions\<close> up to its \<open>await\<close>: an error, or whether requests were sent, which is when the client is ready.
\<close>

definition ensureSubscriptions ::
  "ms \<Rightarrow> (nat \<Rightarrow> string) \<Rightarrow> continuation \<Rightarrow> rt_topic list \<Rightarrow> 'p rt_client \<Rightarrow> (string + bool) \<times> 'p rt_client" where
  "ensureSubscriptions now gen k topics s =
     (let s1 = registerTopics now topics s
      in (if cn_state (rs_connection s1) \<noteq> RT_READY then (Inr False, s1)
          else (case subscribe_all now gen k topics s1 of (Some e, s2) \<Rightarrow> (Inl e, s2) | (None, s2) \<Rightarrow> (Inr True, s2))))"

text \<open>The promise of \<open>doConnect\<close> settles.\<close>

definition connect_settles :: "string option \<Rightarrow> 'p rt_client \<Rightarrow> 'p rt_client" where
  "connect_settles result s = s\<lparr>rs_phase := None, rs_connects := rs_connects s @ [result]\<rparr>"

definition handshake_over :: "nat \<Rightarrow> string option \<Rightarrow> 'p rt_client \<Rightarrow> 'p rt_client" where
  "handshake_over i result s =
     (let s1 = upd_socket i (\<lambda>w. w\<lparr>ws_listeners :=
                 (if result = None then ReadyListeners
                  else if ws_listeners w = HandshakeListeners then NoListeners else ws_listeners w)\<rparr>) s
      in (if rs_phase s1 = Some (Handshaking i) then connect_settles result s1 else s1))"

definition rt_connect :: "'p rt_client \<Rightarrow> 'p rt_client" where
  "rt_connect s =
     (if socket_state s = Some WS_OPEN \<or> socket_state s = Some WS_CONNECTING
      then (if rs_phase s = None then s\<lparr>rs_connects := rs_connects s @ [None]\<rparr> else s)
      else if rs_phase s \<noteq> None then s
      else s\<lparr>rs_manuallyClosed := False, rs_phase := Some LoadingCursors\<rparr>)"

text \<open>The rest of \<open>doConnect\<close>, resumed by the cursors, by the ticket and by the events of the socket.\<close>

definition cursors_loaded :: "ms \<Rightarrow> string + (string, rt_cursor) jmap option \<Rightarrow> 'p rt_client \<Rightarrow> 'p rt_client" where
  "cursors_loaded now result s =
     (if rs_phase s \<noteq> Some LoadingCursors then s
      else (case result of
              Inl e \<Rightarrow> connect_settles (Some e) s
            | Inr stored \<Rightarrow>
                (let s1 = s\<lparr>rs_cursors := nullish stored []\<rparr>;
                     st = (if cn_state (rs_connection s1) = RT_READY \<or> cn_state (rs_connection s1) = RT_RECONNECTING
                           then RT_RECONNECTING else RT_CONNECTING)
                 in (updateConnectionSnapshot now (\<lambda>c. c\<lparr>cn_state := st, cn_lastErrorCode := None, cn_lastErrorMessage := None\<rparr>) s1)
                      \<lparr>rs_phase := Some ResolvingTicket\<rparr>)))"

definition ticket_resolved :: "string + string \<times> string list option \<Rightarrow> 'p rt_client \<Rightarrow> 'p rt_client" where
  "ticket_resolved result s =
     (if rs_phase s \<noteq> Some ResolvingTicket then s
      else (case result of
              Inl e \<Rightarrow> connect_settles (Some e) s
            | Inr (url, protocols) \<Rightarrow>
                s\<lparr>rs_sockets := rs_sockets s @ [\<lparr>ws_readyState = WS_CONNECTING, ws_listeners = HandshakeListeners, ws_url = url,
                                                ws_protocols = protocols, ws_sent = []\<rparr>],
                  rs_socket := Some (length (rs_sockets s)), rs_phase := Some (Handshaking (length (rs_sockets s)))\<rparr>))"

text \<open>\<open>sendHello\<close> up to the answer; it rejects when the request cannot be sent.\<close>

definition send_hello :: "ms \<Rightarrow> (nat \<Rightarrow> string) \<Rightarrow> nat \<Rightarrow> 'p rt_client \<Rightarrow> 'p rt_client" where
  "send_hello now gen i s =
     (let (mid, s1) = fresh_uuid gen s; (r, s2) = fresh_uuid gen s1
      in (case sendWithAck now (ThenHello i)
                 (HelloMsg mid (Some r) (nullish (sc_protocolVersion (rs_config s2)) ''1.0'') (rs_clientInstanceId s2)
                    [''resume'', ''heartbeat'', ''subscriptions''] (map snd (rs_cursors s2))) s2 of
            Inl e \<Rightarrow> handshake_over i (Some e) s2
          | Inr s3 \<Rightarrow> s3))"

definition on_open :: "ms \<Rightarrow> (nat \<Rightarrow> string) \<Rightarrow> nat \<Rightarrow> 'p rt_client \<Rightarrow> 'p rt_client" where
  "on_open now gen i s =
     send_hello now gen i
       (updateConnectionSnapshot now (\<lambda>c. c\<lparr>cn_state := RT_HANDSHAKING, cn_lastConnectedAt := Some now\<rparr>)
          (s\<lparr>rs_reconnectAttempts := 0\<rparr>))"

text \<open>\<open>sendHello\<close> from the answer on.\<close>

definition send_resume :: "(nat \<Rightarrow> string) \<Rightarrow> (client_message \<Rightarrow> bool) \<Rightarrow> hello_ack \<Rightarrow> 'p rt_client \<Rightarrow> string + 'p rt_client" where
  "send_resume gen valid a s =
     (if Option.bind (sc_resume (rs_config s)) rz_enabled \<noteq> Some False \<and> ha_resumeAccepted a \<and> rs_cursors s \<noteq> []
      then (let (mid, s1) = fresh_uuid gen s; (r, s2) = fresh_uuid gen s1
            in sendFireAndForget valid (ResumeMsg mid (Some r) (map snd (rs_cursors s2))) s2)
      else Inr s)"

definition hello_answered ::
  "ms \<Rightarrow> (nat \<Rightarrow> string) \<Rightarrow> (client_message \<Rightarrow> bool) \<Rightarrow> nat \<Rightarrow> 'p server_message \<Rightarrow> 'p rt_client \<Rightarrow> 'p rt_client" where
  "hello_answered now gen valid i m s =
     (case m of
        ErrorMessage e \<Rightarrow> handshake_over i (Some (er_message e)) s
      | HelloAck a \<Rightarrow>
          (case send_resume gen valid a s of
             Inl e \<Rightarrow> handshake_over i (Some e) s
           | Inr s1 \<Rightarrow>
               (let s2 = startHeartbeat now (ha_heartbeatIntervalMs a) s1
                in (if rs_desiredTopics s2 = [] then handshake_over i None s2
                    else (case ensureSubscriptions now gen (ThenSubscribed i) (map snd (rs_desiredTopics s2)) s2 of
                            (Inl e, s3) \<Rightarrow> handshake_over i (Some e) s3
                          | (Inr False, s3) \<Rightarrow> handshake_over i None s3
                          | (Inr True, s3) \<Rightarrow> s3\<lparr>rs_awaitedAcks := length (rs_desiredTopics s2)\<rparr>))))
      | _ \<Rightarrow> handshake_over i (Some ''Unexpected hello response'') s)"

definition subscription_answered :: "nat \<Rightarrow> 'p rt_client \<Rightarrow> 'p rt_client" where
  "subscription_answered i s =
     (if rs_phase s \<noteq> Some (Handshaking i) then s
      else (let s1 = s\<lparr>rs_awaitedAcks := rs_awaitedAcks s - 1\<rparr>
            in (if rs_awaitedAcks s1 = 0 then handshake_over i None s1 else s1)))"

definition continue_with ::
  "ms \<Rightarrow> (nat \<Rightarrow> string) \<Rightarrow> (client_message \<Rightarrow> bool) \<Rightarrow> continuation \<times> (string + 'p server_message) \<Rightarrow> 'p rt_client \<Rightarrow> 'p rt_client" where
  "continue_with now gen valid = (\<lambda>(k, result) s.
     (case (k, result) of
        (ThenHello i, Inr m) \<Rightarrow> hello_answered now gen valid i m s
      | (ThenHello i, Inl e) \<Rightarrow> handshake_over i (Some e) s
      | (ThenSubscribed i, Inr m) \<Rightarrow> subscription_answered i s
      | (ThenSubscribed i, Inl e) \<Rightarrow> handshake_over i (Some e) s
      | (ThenPing, Inl e) \<Rightarrow> handleProtocolError now ''REALTIME_HEARTBEAT_TIMEOUT'' e s
      | (ThenPing, Inr m) \<Rightarrow> s
      | (ThenClient, _) \<Rightarrow> s))"

definition run_microtasks :: "ms \<Rightarrow> (nat \<Rightarrow> string) \<Rightarrow> (client_message \<Rightarrow> bool) \<Rightarrow> 'p rt_client \<Rightarrow> 'p rt_client" where
  "run_microtasks now gen valid s = fold (continue_with now gen valid) (rs_microtasks s) (s\<lparr>rs_microtasks := []\<rparr>)"

definition rt_disconnect :: "ms \<Rightarrow> 'p rt_client \<Rightarrow> 'p rt_client" where
  "rt_disconnect now s =
     (let s1 = clearHeartbeatTimers (clearReconnectTimer (s\<lparr>rs_manuallyClosed := True\<rparr>));
          s2 = close_socket (rejectPendingRequests ''Realtime socket disconnected'' s1)
      in updateConnectionSnapshot now
           (\<lambda>c. c\<lparr>cn_state := RT_CLOSED, cn_connectionId := None, cn_lastErrorCode := None, cn_lastErrorMessage := None\<rparr>)
           (s2\<lparr>rs_socket := None\<rparr>))"

subsection \<open>Events of the host\<close>

text \<open>
  A message arrives: validated, or the error of \<open>parseIncomingRealtimeMessage\<close>. The host delivers messages to open sockets only
  and the close event once.
\<close>

definition on_socket_message ::
  "ms \<Rightarrow> (nat \<Rightarrow> string) \<Rightarrow> (client_message \<Rightarrow> bool) \<Rightarrow> nat \<Rightarrow> string + 'p server_message \<Rightarrow> 'p rt_client \<Rightarrow> 'p rt_client" where
  "on_socket_message now gen valid i parsed s =
     (case Option.bind (the_socket i s) (\<lambda>w. if ws_readyState w = WS_OPEN then Some (ws_listeners w) else None) of
        Some HandshakeListeners \<Rightarrow>
          (case parsed of
             Inl e \<Rightarrow> handshake_over i (Some e) (handleProtocolError now ''REALTIME_PROTOCOL_VALIDATION_FAILED'' e s)
           | Inr m \<Rightarrow> handleIncomingMessage now gen valid m True s)
      | Some ReadyListeners \<Rightarrow>
          (case parsed of
             Inl e \<Rightarrow> handleProtocolError now ''REALTIME_PROTOCOL_VALIDATION_FAILED'' e s
           | Inr m \<Rightarrow> handleIncomingMessage now gen valid m True s)
      | _ \<Rightarrow> s)"

definition on_socket_error :: "ms \<Rightarrow> nat \<Rightarrow> 'p rt_client \<Rightarrow> 'p rt_client" where
  "on_socket_error now i s =
     (case map_option ws_listeners (the_socket i s) of
        Some HandshakeListeners \<Rightarrow> handshake_over i (Some ''Realtime socket handshake failed'') s
      | Some ReadyListeners \<Rightarrow>
          updateConnectionSnapshot now
            (\<lambda>c. c\<lparr>cn_state := RT_ERROR, cn_lastErrorCode := Some ''REALTIME_PROTOCOL_VALIDATION_FAILED'',
                   cn_lastErrorMessage := Some ''Realtime socket encountered an error''\<rparr>) s
      | _ \<Rightarrow> s)"

definition on_ready_close :: "ms \<Rightarrow> 'p rt_client \<Rightarrow> 'p rt_client" where
  "on_ready_close now s =
     (let s1 = rejectPendingRequests ''Realtime socket closed'' (clearHeartbeatTimers (s\<lparr>rs_socket := None\<rparr>));
          s2 = updateConnectionSnapshot now (\<lambda>c. c\<lparr>cn_state := RT_CLOSED, cn_connectionId := None\<rparr>) s1
      in (if rs_manuallyClosed s2 then s2 else scheduleReconnect now s2))"

definition on_socket_close :: "ms \<Rightarrow> nat \<Rightarrow> 'p rt_client \<Rightarrow> 'p rt_client" where
  "on_socket_close now i s0 =
     (let s = upd_socket i (\<lambda>w. w\<lparr>ws_readyState := WS_CLOSED\<rparr>) s0
      in (case Option.bind (the_socket i s0) (\<lambda>w. if ws_readyState w = WS_CLOSED then None else Some (ws_listeners w)) of
            Some HandshakeListeners \<Rightarrow> handshake_over i (Some ''Realtime socket closed before ready'') s
          | Some ReadyListeners \<Rightarrow> on_ready_close now s
          | _ \<Rightarrow> s))"

definition on_socket_open :: "ms \<Rightarrow> (nat \<Rightarrow> string) \<Rightarrow> nat \<Rightarrow> 'p rt_client \<Rightarrow> 'p rt_client" where
  "on_socket_open now gen i s =
     (case the_socket i s of
        Some w \<Rightarrow>
          if ws_readyState w = WS_CONNECTING
          then (let s1 = upd_socket i (\<lambda>w. w\<lparr>ws_readyState := WS_OPEN\<rparr>) s
                in (if ws_listeners w = HandshakeListeners then on_open now gen i s1 else s1))
          else s
      | None \<Rightarrow> s)"

text \<open>The timers.\<close>

definition request_timed_out :: "nat \<Rightarrow> 'p rt_client \<Rightarrow> 'p rt_client" where
  "request_timed_out n s =
     settle n (Inl ''Realtime request timed out'') (s\<lparr>rs_pending := jm_delete (rq_id (rs_requests s ! n)) (rs_pending s)\<rparr>)"

definition ping_elapsed :: "ms \<Rightarrow> (nat \<Rightarrow> string) \<Rightarrow> 'p rt_client \<Rightarrow> 'p rt_client" where
  "ping_elapsed now gen s0 =
     (case rs_pingTimer s0 of
        None \<Rightarrow> s0
      | Some (due, intervalMs) \<Rightarrow>
          (let s = s0\<lparr>rs_pingTimer := None\<rparr>
           in (if \<not> socket_open s then s
               else (let (mid, s1) = fresh_uuid gen s; (r, s2) = fresh_uuid gen s1
                     in (case sendWithAck now ThenPing (PingMsg mid (Some r) now) s2 of
                           Inl e \<Rightarrow> s2
                         | Inr s3 \<Rightarrow> s3\<lparr>rs_pingTimer := Some (now + intervalMs, intervalMs)\<rparr>)))))"

text \<open>The heartbeat timeout fires when the host runs one of the handles its timer has armed.\<close>

definition heartbeat_elapsed_at :: "ms \<Rightarrow> nat \<Rightarrow> 'p rt_client \<Rightarrow> 'p rt_client" where
  "heartbeat_elapsed_at now h s =
     (case rs_heartbeatTimeout s of
        None \<Rightarrow> s
      | Some t \<Rightarrow>
          (let t1 = at_time now t; t2 = st_fire (\<lambda>u. u) h t1
           in (if executions t2 = executions t1 then s
               else handleProtocolError now ''REALTIME_HEARTBEAT_TIMEOUT'' ''Realtime heartbeat timed out''
                      (s\<lparr>rs_heartbeatTimeout := Some t2\<rparr>))))"

definition reconnect_elapsed :: "'p rt_client \<Rightarrow> 'p rt_client" where
  "reconnect_elapsed s = rt_connect (s\<lparr>rs_reconnectTimer := None\<rparr>)"

datatype 'p rt_event =
    Connect | Disconnect | Send client_message | EnsureSubscriptions "rt_topic list" | ClearResumeState
  | Ingest "'p server_message"
  | CursorsLoaded "string + (string, rt_cursor) jmap option"
  | TicketResolved "string + string \<times> string list option"
  | SocketOpen nat | SocketMessage nat "string + 'p server_message" | SocketError nat | SocketClose nat
  | RequestTimeout nat | PingElapsed | HeartbeatElapsed nat | ReconnectElapsed

fun rt_handle ::
  "(nat \<Rightarrow> string) \<Rightarrow> (client_message \<Rightarrow> bool) \<Rightarrow> ms \<Rightarrow> 'p rt_event \<Rightarrow> 'p rt_client \<Rightarrow> 'p rt_client" where
  "rt_handle gen valid now Connect s = rt_connect s"
| "rt_handle gen valid now Disconnect s = rt_disconnect now s"
| "rt_handle gen valid now (Send m) s = after_call s (rt_send now valid m s)"
| "rt_handle gen valid now (EnsureSubscriptions ts) s = snd (ensureSubscriptions now gen ThenClient ts s)"
| "rt_handle gen valid now ClearResumeState s = clearResumeState s"
| "rt_handle gen valid now (Ingest m) s = handleIncomingMessage now gen valid m False s"
| "rt_handle gen valid now (CursorsLoaded r) s = cursors_loaded now r s"
| "rt_handle gen valid now (TicketResolved r) s = ticket_resolved r s"
| "rt_handle gen valid now (SocketOpen i) s = on_socket_open now gen i s"
| "rt_handle gen valid now (SocketMessage i m) s = on_socket_message now gen valid i m s"
| "rt_handle gen valid now (SocketError i) s = on_socket_error now i s"
| "rt_handle gen valid now (SocketClose i) s = on_socket_close now i s"
| "rt_handle gen valid now (RequestTimeout n) s =
     (if n < length (rs_requests s)
      then (case rq_due (rs_requests s ! n) of Some due \<Rightarrow> if due \<le> now then request_timed_out n s else s | None \<Rightarrow> s)
      else s)"
| "rt_handle gen valid now PingElapsed s =
     (case rs_pingTimer s of Some (due, n) \<Rightarrow> if due \<le> now then ping_elapsed now gen s else s | None \<Rightarrow> s)"
| "rt_handle gen valid now (HeartbeatElapsed h) s = heartbeat_elapsed_at now h s"
| "rt_handle gen valid now ReconnectElapsed s =
     (case rs_reconnectTimer s of Some due \<Rightarrow> if due \<le> now then reconnect_elapsed s else s | None \<Rightarrow> s)"

definition rt_step ::
  "(nat \<Rightarrow> string) \<Rightarrow> (client_message \<Rightarrow> bool) \<Rightarrow> ms \<times> 'p rt_event \<Rightarrow> 'p rt_client \<Rightarrow> 'p rt_client" where
  "rt_step gen valid = (\<lambda>(now, e) s. run_microtasks now gen valid (rt_handle gen valid now e s))"

end
