(* ===== verification/Realtime_Frames.thy ===== *)
theory Realtime_Frames
  imports Realtime_Socket
begin

text \<open>
  Preorders on the states of the realtime client that its operations respect. The locale names what such a relation has to
  satisfy for the few operations that touch the cursors, the listener calls or the requests; the same then holds of every
  other operation of the client, since it is built from these. It is interpreted for the relation
  ``delivers no data'' (theory \<open>Realtime_Order\<close>) and for the preservation of the requests' invariant (theory \<open>Realtime_Lifecycle\<close>).
\<close>

named_theorems frame_ops \<open>operations that respect a frame relation\<close>

definition same_core :: "'p rt_client \<Rightarrow> 'p rt_client \<Rightarrow> bool" where
  "same_core s s' \<longleftrightarrow> rs_cursors s' = rs_cursors s \<and> rs_messageListeners s' = rs_messageListeners s \<and> rs_calls s' = rs_calls s \<and>
     rs_requests s' = rs_requests s \<and> rs_pending s' = rs_pending s \<and> rs_settled s' = rs_settled s"

locale rt_frame =
  fixes R :: "'p rt_client \<Rightarrow> 'p rt_client \<Rightarrow> bool"
  assumes core: "same_core s s' \<Longrightarrow> R s s'"
    and trans: "R s t \<Longrightarrow> R t u \<Longrightarrow> R s u"
    and notifyConnection [frame_ops]: "R s (notifyConnectionListeners s)"
    and notifySubscription [frame_ops]: "R s (notifySubscriptionListeners s)"
    and notifyMessage: "(\<And>d. m \<noteq> Data d) \<Longrightarrow> R s (notifyMessageListeners m s)"
    and sendWithAck: "sendWithAck now k c s = Inr s' \<Longrightarrow> R s s'"
    and resolve [frame_ops]: "R s (resolvePendingRequest r m s)"
    and reject [frame_ops]: "R s (rejectPendingRequests err s)"
    and timeout: "rt_handle gen valid now (RequestTimeout n) s = s' \<Longrightarrow> R s s'"
begin

lemma silent:
  "rs_cursors s' = rs_cursors s \<Longrightarrow> rs_messageListeners s' = rs_messageListeners s \<Longrightarrow> rs_calls s' = rs_calls s \<Longrightarrow>
   rs_requests s' = rs_requests s \<Longrightarrow> rs_pending s' = rs_pending s \<Longrightarrow> rs_settled s' = rs_settled s \<Longrightarrow> R s s'"
  by (rule core) (simp add: same_core_def)

lemma refl [simp]: "R s s"
  by (simp add: silent)

lemma keep_updateConnection [frame_ops]: "R s (updateConnectionSnapshot now f s)"
  unfolding updateConnectionSnapshot_def
  by (rule trans [OF _ notifyConnection]) (simp add: silent)

lemma keep_set_subscription [frame_ops]: "R s (set_subscription key v s)"
  unfolding set_subscription_def by (rule trans [OF _ notifySubscription]) (simp add: silent)

lemma keep_upd_socket [frame_ops]: "R s (upd_socket i f s)"
  by (simp add: silent upd_socket_def)

lemma keep_close_socket [frame_ops]: "R s (close_socket s)"
  by (simp add: close_socket_def keep_upd_socket split: option.split)

lemma keep_ws_send [frame_ops]: "R s (ws_send m s)"
  by (simp add: ws_send_def keep_upd_socket split: option.split)

lemma keep_fresh [frame_ops]: "R s (snd (fresh_uuid gen s))"
  by (simp add: silent fresh_uuid_def)

lemma keep_protocolError [frame_ops]: "R s (handleProtocolError now code m s)"
  unfolding handleProtocolError_def by (rule trans [OF keep_updateConnection keep_close_socket])

lemma keep_sendFireAndForget: "sendFireAndForget valid m s = Inr s' \<Longrightarrow> R s s'"
  by (auto simp: sendFireAndForget_def keep_ws_send split: if_splits)

lemma keep_send: "R s (after_call s (rt_send now valid m s))"
proof (cases "rt_send now valid m s")
  case (Inr s')
  then have "sendWithAck now ThenClient m s = Inr s'"
    by (simp add: rt_send_def split: if_splits option.splits)
  then show ?thesis
    by (simp add: Inr sendWithAck)
qed simp

lemma keep_fold: "(\<And>x s. R s (f x s)) \<Longrightarrow> R s (fold f xs s)"
  by (induction xs arbitrary: s) (simp_all, metis trans)

lemma keep_clearTimers [frame_ops]: "R s (clearHeartbeatTimers s)" "R s (clearReconnectTimer s)"
  by (simp_all add: silent clearHeartbeatTimers_def clearReconnectTimer_def)

lemma keep_startHeartbeat [frame_ops]: "R s (startHeartbeat now n s)"
  by (simp add: silent startHeartbeat_def clearHeartbeatTimers_def Let_def)

lemma keep_resetHeartbeat [frame_ops]: "R s (resetHeartbeatTimeout now s)"
  by (simp add: silent resetHeartbeatTimeout_def split: option.split)

lemma keep_scheduleReconnect [frame_ops]: "R s (scheduleReconnect now s)"
proof -
  have u: "R s ((updateConnectionSnapshot now f (s\<lparr>rs_reconnectAttempts := n\<rparr>))\<lparr>rs_reconnectTimer := r\<rparr>)" for f n r
  proof (rule trans)
    show "R s (updateConnectionSnapshot now f (s\<lparr>rs_reconnectAttempts := n\<rparr>))"
      by (rule trans [OF _ keep_updateConnection]) (simp add: silent)
  qed (simp add: silent)
  show ?thesis
    by (simp add: scheduleReconnect_def Let_def u)
qed

lemma keep_register_topic: "R s (register_topic now t s)"
  by (simp add: register_topic_def Let_def silent)

lemma keep_registerTopics [frame_ops]: "R s (registerTopics now ts s)"
  unfolding registerTopics_def
  by (rule trans [OF _ notifySubscription], rule trans [OF _ keep_fold])
    (simp_all add: silent keep_register_topic)

lemma keep_subscribe_one: "R s (snd (subscribe_one now gen k t s))"
proof -
  obtain mid s1 where 1: "fresh_uuid gen s = (mid, s1)" by fastforce
  obtain r s2 where 2: "fresh_uuid gen s1 = (r, s2)" by fastforce
  have q: "R s s2"
    using trans [OF keep_fresh [of s gen] keep_fresh [of "snd (fresh_uuid gen s)" gen]] 1 2 by simp
  show ?thesis
    by (auto simp: subscribe_one_def 1 2 q split: sum.split intro: trans [OF q] sendWithAck)
qed

lemma keep_subscribe_all: "R s (snd (subscribe_all now gen k ts s))"
proof (induction ts arbitrary: s)
  case (Cons t ts)
  show ?case
    using keep_subscribe_one [of s now gen k t] Cons
    by (auto split: prod.split option.split) (metis trans snd_conv)+
qed simp

lemma keep_ensureSubscriptions [frame_ops]: "R s (snd (ensureSubscriptions now gen k ts s))"
proof -
  let ?s1 = "registerTopics now ts s"
  have "R ?s1 (snd (ensureSubscriptions now gen k ts s))"
    using keep_subscribe_all [of ?s1 now gen k ts]
    by (auto simp: ensureSubscriptions_def Let_def split: prod.split option.split)
  then show ?thesis
    by (rule trans [OF keep_registerTopics])
qed

lemma keep_connect_settles [frame_ops]: "R s (connect_settles r s)"
  by (simp add: silent connect_settles_def)

lemma keep_handshake_over [frame_ops]: "R s (handshake_over i r s)"
  unfolding handshake_over_def Let_def
  by (auto intro: keep_upd_socket trans [OF keep_upd_socket keep_connect_settles])

lemma keep_connect [frame_ops]: "R s (rt_connect s)"
  by (simp add: silent rt_connect_def)

lemma keep_send_hello [frame_ops]: "R s (send_hello now gen i s)"
proof -
  obtain mid s1 where 1: "fresh_uuid gen s = (mid, s1)" by fastforce
  obtain r s2 where 2: "fresh_uuid gen s1 = (r, s2)" by fastforce
  have q: "R s s2"
    using trans [OF keep_fresh [of s gen] keep_fresh [of "snd (fresh_uuid gen s)" gen]] 1 2 by simp
  show ?thesis
    by (auto simp: send_hello_def 1 2 split: sum.split
        intro: trans [OF q] sendWithAck trans [OF q keep_handshake_over])
qed

lemma keep_ticket [frame_ops]: "R s (ticket_resolved r s)"
  by (auto simp: ticket_resolved_def keep_connect_settles silent split: sum.split)

lemma keep_on_open [frame_ops]: "R s (on_open now gen i s)"
  unfolding on_open_def
  by (rule trans [OF _ keep_send_hello], rule trans [OF _ keep_updateConnection]) (simp add: silent)

lemma keep_send_resume: "send_resume gen valid a s = Inr s' \<Longrightarrow> R s s'"
proof -
  assume *: "send_resume gen valid a s = Inr s'"
  obtain mid s1 where 1: "fresh_uuid gen s = (mid, s1)" by fastforce
  obtain r s2 where 2: "fresh_uuid gen s1 = (r, s2)" by fastforce
  have q: "R s s2"
    using trans [OF keep_fresh [of s gen] keep_fresh [of "snd (fresh_uuid gen s)" gen]] 1 2 by simp
  show ?thesis
    using * by (auto simp: send_resume_def 1 2 split: if_splits intro: trans [OF q] keep_sendFireAndForget)
qed

lemma keep_hello_answered [frame_ops]: "R s (hello_answered now gen valid i m s)"
proof (cases m)
  case (HelloAck a)
  show ?thesis
  proof (cases "send_resume gen valid a s")
    case (Inl e)
    then show ?thesis
      by (simp add: hello_answered_def HelloAck keep_handshake_over)
  next
    case (Inr s1)
    let ?s2 = "startHeartbeat now (ha_heartbeatIntervalMs a) s1"
    have q2: "R s ?s2"
      by (rule trans [OF keep_send_resume [OF Inr] keep_startHeartbeat])
    obtain r s3 where 3: "ensureSubscriptions now gen (ThenSubscribed i) (map snd (rs_desiredTopics ?s2)) ?s2 = (r, s3)"
      by fastforce
    have q3: "R s s3"
      using trans [OF q2 keep_ensureSubscriptions] 3 by (metis snd_conv)
    have fin: "R s (s3\<lparr>rs_awaitedAcks := n\<rparr>)" for n
      by (rule trans [OF q3]) (simp add: silent)
    show ?thesis
      using trans [OF q2 keep_handshake_over] trans [OF q3 keep_handshake_over] fin
      by (auto simp: hello_answered_def HelloAck Inr Let_def 3 split: sum.split bool.split)
  qed
qed (simp_all add: hello_answered_def keep_handshake_over)

lemma keep_subscription_answered [frame_ops]: "R s (subscription_answered i s)"
  unfolding subscription_answered_def Let_def
  by (auto intro!: trans [OF _ keep_handshake_over] silent)

lemma keep_continue: "R s (continue_with now gen valid c s)"
  unfolding continue_with_def
  by (cases c) (auto simp: frame_ops split: continuation.split sum.split)

lemma keep_microtasks [frame_ops]: "R s (run_microtasks now gen valid s)"
  unfolding run_microtasks_def
  by (rule trans [OF _ keep_fold]) (simp_all add: silent keep_continue)

lemma keep_disconnect [frame_ops]: "R s (rt_disconnect now s)"
proof -
  let ?s1 = "clearHeartbeatTimers (clearReconnectTimer (s\<lparr>rs_manuallyClosed := True\<rparr>))"
  let ?s2 = "close_socket (rejectPendingRequests ''Realtime socket disconnected'' ?s1)"
  have "R s ?s1"
    by (simp add: silent clearHeartbeatTimers_def clearReconnectTimer_def)
  then have "R s ?s2"
    by (rule trans [OF trans [OF _ reject] keep_close_socket])
  then have "R s (?s2\<lparr>rs_socket := None\<rparr>)"
    by (rule trans) (simp add: silent)
  then show ?thesis
    unfolding rt_disconnect_def Let_def by (rule trans [OF _ keep_updateConnection])
qed

lemma keep_error [frame_ops]: "R s (on_socket_error now i s)"
  by (auto simp: on_socket_error_def frame_ops split: option.split socket_listeners.split)

lemma keep_ready_close [frame_ops]: "R s (on_ready_close now s)"
proof -
  let ?s1 = "rejectPendingRequests ''Realtime socket closed'' (clearHeartbeatTimers (s\<lparr>rs_socket := None\<rparr>))"
  let ?s2 = "updateConnectionSnapshot now (\<lambda>c. c\<lparr>cn_state := RT_CLOSED, cn_connectionId := None\<rparr>) ?s1"
  have "R s (clearHeartbeatTimers (s\<lparr>rs_socket := None\<rparr>))"
    by (simp add: silent clearHeartbeatTimers_def)
  then have "R s ?s2"
    by (rule trans [OF trans [OF _ reject] keep_updateConnection])
  then show ?thesis
    unfolding on_ready_close_def Let_def by (auto intro: trans [OF _ keep_scheduleReconnect])
qed

lemma keep_close [frame_ops]: "R s (on_socket_close now i s)"
  by (auto simp: on_socket_close_def Let_def split: option.split socket_listeners.split
      intro: keep_upd_socket trans [OF keep_upd_socket keep_handshake_over]
        trans [OF keep_upd_socket keep_ready_close])

lemma keep_open [frame_ops]: "R s (on_socket_open now gen i s)"
  by (auto simp: on_socket_open_def Let_def split: option.split
      intro: keep_upd_socket trans [OF keep_upd_socket keep_on_open])

lemma keep_ping: "R s (ping_elapsed now gen s)"
proof (cases "rs_pingTimer s")
  case (Some x)
  obtain due n where x: "x = (due, n)" by fastforce
  let ?s = "s\<lparr>rs_pingTimer := None\<rparr>"
  obtain mid s1 where 1: "fresh_uuid gen ?s = (mid, s1)" by fastforce
  obtain r s2 where 2: "fresh_uuid gen s1 = (r, s2)" by fastforce
  have q0: "R s ?s" by (simp add: silent)
  have q: "R s s2"
    using trans [OF trans [OF q0 keep_fresh] keep_fresh] 1 2 by (metis snd_conv)
  have fin: "R s (s3\<lparr>rs_pingTimer := p\<rparr>)" if "sendWithAck now k m s2 = Inr s3" for k m s3 p
    by (rule trans [OF trans [OF q sendWithAck [OF that]]]) (simp add: silent)
  show ?thesis
    by (auto simp: ping_elapsed_def Some x 1 2 q q0 fin Let_def split: sum.split)
qed (simp add: ping_elapsed_def)

lemma keep_heartbeat: "R s (heartbeat_elapsed_at now h s)"
  by (auto simp: heartbeat_elapsed_at_def Let_def silent split: option.split
      intro!: trans [OF _ keep_protocolError])

lemma keep_reconnect: "R s (reconnect_elapsed s)"
  unfolding reconnect_elapsed_def by (rule trans [OF _ keep_connect]) (simp add: silent)

lemma keep_applyError [frame_ops]: "R s (applyErrorMessage now e s)"
proof -
  have "R s (case (er_topic e, er_table e) of
                  (Some topic, Some table) \<Rightarrow>
                    if topic = '''' \<or> table = '''' then s
                    else (let key = resolveTopicKey topic table
                          in set_subscription key
                               \<lparr>sb_topic = topic, sb_table = table, sb_state = SUB_ERROR, sb_lastSeq = last_seq key s,
                                sb_lastVersion = last_version key s, sb_updatedAt = now, sb_errorCode = Some (er_code e),
                                sb_errorMessage = Some (er_message e)\<rparr> s)
                | _ \<Rightarrow> s)"
    by (auto simp: Let_def keep_set_subscription split: option.split)
  then show ?thesis
    unfolding applyErrorMessage_def Let_def by (rule trans [OF _ keep_updateConnection])
qed

lemma keep_messages:
  "R s (on_hello_ack now a s)" "R s (on_subscribed now b s)" "R s (on_unsubscribed now mid r topic table s)"
  "R s (on_resync now c s)"
  unfolding on_hello_ack_def on_subscribed_def on_unsubscribed_def on_resync_def Let_def
  by (rule trans [OF keep_updateConnection resolve] trans [OF keep_set_subscription resolve]
      keep_set_subscription)+

lemma keep_incoming:
  assumes "\<And>d. m \<noteq> Data d"
  shows "R s (handleIncomingMessage now gen valid m fromSocket s)"
proof -
  define s2 where "s2 = (if fromSocket then resetHeartbeatTimeout now s else s)\<lparr>rs_lastMessage := Some m\<rparr>"
  have q: "R s s2"
    unfolding s2_def by (rule trans [of _ "if fromSocket then resetHeartbeatTimeout now s else s"])
      (auto simp: silent keep_resetHeartbeat)
  have pong: "R s2 t" if "sendFireAndForget valid c (snd (fresh_uuid gen s2)) = Inr t" for c t
    by (rule trans [OF keep_fresh keep_sendFireAndForget [OF that]])
  have "R s2 (case on_message now gen valid fromSocket m s2 of Inl (e, t) \<Rightarrow> t | Inr (notify, t) \<Rightarrow> t)"
    using assms pong keep_fresh [of s2 gen]
    by (cases m) (auto simp: on_message_def fresh_uuid_def Let_def keep_messages resolve split: sum.split
        intro: trans [OF keep_applyError resolve])
  then have "R s2 (case on_message now gen valid fromSocket m s2 of
               Inl (e, t) \<Rightarrow> t | Inr (notify, t) \<Rightarrow> if notify then notifyMessageListeners m t else t)"
    using assms by (auto split: sum.splits prod.splits if_splits intro: trans [OF _ notifyMessage])
  then show ?thesis
    using trans [OF q] by (simp add: handleIncomingMessage_def Let_def s2_def [symmetric])
qed

text \<open>The events that do not hand a message to \<open>handleIncomingMessage\<close> nor replace the cursors.\<close>

lemma keep_handle:
  assumes "\<And>m. e \<noteq> Ingest m" "\<And>i r. e \<noteq> SocketMessage i r" "\<And>r. e \<noteq> CursorsLoaded r" "e \<noteq> ClearResumeState"
  shows "R s (rt_handle gen valid now e s)"
proof (cases e)
  case (RequestTimeout n)
  then show ?thesis using timeout [OF HOL.refl] by simp
qed (use assms in \<open>auto simp: frame_ops keep_send keep_ping keep_heartbeat keep_reconnect split: option.split\<close>)

end

end
