(* ===== verification/Realtime_Order.thy ===== *)
theory Realtime_Order
  imports Realtime_Frames
begin

text \<open>
  What the listeners of the realtime client are given: the data messages of a topic reach a listener in the order of
  their sequence numbers, each at most once, however the events of the host are interleaved. A frame relation
  (\<open>quiet\<close>) covers the operations that neither move a cursor nor deliver data; the relation \<open>ordered_step\<close> covers the
  rest and is closed under composition.
\<close>

text \<open>The sequence numbers of the data messages of a topic among the calls of a listener.\<close>

fun delivered :: "nat \<Rightarrow> string \<Rightarrow> 'p listener_call list \<Rightarrow> nat list" where
  "delivered l key [] = []"
| "delivered l key (MessageCall l' (Data m) # cs) =
     (if l' = l \<and> resolveTopicKey (dm_topic m) (dm_table m) = key then dm_seq m # delivered l key cs else delivered l key cs)"
| "delivered l key (_ # cs) = delivered l key cs"

definition cursor_seq :: "string \<Rightarrow> 'p rt_client \<Rightarrow> nat option" where
  "cursor_seq key s = map_option cu_seq (jm_get (rs_cursors s) key)"

lemma delivered_append [simp]: "delivered l key (xs @ ys) = delivered l key xs @ delivered l key ys"
  by (induction l key xs rule: delivered.induct) auto

lemma delivered_connection [simp]: "delivered l key (map (\<lambda>x. ConnectionCall x c) ls) = []"
  by (induction ls) auto

lemma delivered_subscription [simp]: "delivered l key (map (\<lambda>x. SubscriptionCall x c) ls) = []"
  by (induction ls) auto

lemma delivered_other [simp]:
  "(\<And>d. m \<noteq> Data d) \<Longrightarrow> delivered l key (map (\<lambda>x. MessageCall x m) ls) = []"
  by (induction ls) (cases m; auto)+

lemma delivered_data:
  "distinct ls \<Longrightarrow>
   delivered l key (map (\<lambda>x. MessageCall x (Data d)) ls) =
     (if l \<in> set ls \<and> resolveTopicKey (dm_topic d) (dm_table d) = key then [dm_seq d] else [])"
  by (induction ls) auto

subsection \<open>Operations that deliver no data\<close>

definition quiet :: "'p rt_client \<Rightarrow> 'p rt_client \<Rightarrow> bool" where
  "quiet s s' \<longleftrightarrow> rs_cursors s' = rs_cursors s \<and> rs_messageListeners s' = rs_messageListeners s \<and>
     (\<exists>cs. rs_calls s' = rs_calls s @ cs \<and> (\<forall>l key. delivered l key cs = []))"

lemma quiet_refl [simp]: "quiet s s"
  by (simp add: quiet_def)

lemma quiet_trans: "quiet s t \<Longrightarrow> quiet t u \<Longrightarrow> quiet s u"
  by (force simp: quiet_def)

lemma quietI:
  "rs_cursors s' = rs_cursors s \<Longrightarrow> rs_messageListeners s' = rs_messageListeners s \<Longrightarrow> rs_calls s' = rs_calls s @ cs \<Longrightarrow>
   (\<And>l key. delivered l key cs = []) \<Longrightarrow> quiet s s'"
  by (auto simp: quiet_def)

lemma quiet_silent:
  "rs_cursors s' = rs_cursors s \<Longrightarrow> rs_messageListeners s' = rs_messageListeners s \<Longrightarrow> rs_calls s' = rs_calls s \<Longrightarrow> quiet s s'"
  by (rule quietI[of _ _ "[]"]) simp_all

lemma quiet_notifyConnection: "quiet s (notifyConnectionListeners s)"
  by (rule quietI, (simp add: notifyConnectionListeners_def)+)

lemma quiet_notifySubscription: "quiet s (notifySubscriptionListeners s)"
  by (rule quietI, (simp add: notifySubscriptionListeners_def)+)

lemma quiet_notifyMessage: "(\<And>d. m \<noteq> Data d) \<Longrightarrow> quiet s (notifyMessageListeners m s)"
  by (rule quietI, (simp add: notifyMessageListeners_def)+)

lemma quiet_sendWithAck: "sendWithAck now k m s = Inr s' \<Longrightarrow> quiet s s'"
  by (auto simp: sendWithAck_def ws_send_def upd_socket_def quiet_silent split: option.splits if_splits)

lemma quiet_settle: "quiet s (settle n r (s\<lparr>rs_pending := p\<rparr>))"
  by (simp add: quiet_silent settle_def)

lemma quiet_fold: "(\<And>x s. quiet s (f x s)) \<Longrightarrow> quiet s (fold f xs s)"
  by (induction xs arbitrary: s) (simp_all, metis quiet_trans)

interpretation quiet: rt_frame quiet
proof unfold_locales
  show "quiet s (rejectPendingRequests err s)" for s :: "'p rt_client" and err
    unfolding rejectPendingRequests_def by (rule quiet_fold) (simp add: reject_pending_def quiet_settle split: prod.split)
  show "quiet s (resolvePendingRequest r m s)" for s :: "'p rt_client" and r m
    by (simp add: resolvePendingRequest_def quiet_settle split: option.split)
  show "quiet s s'" if "rt_handle gen valid now (RequestTimeout n) s = s'" for s s' :: "'p rt_client" and gen valid now n
    using that by (auto simp: request_timed_out_def quiet_settle split: if_splits option.splits)
qed (auto simp: same_core_def quiet_silent quiet_notifyConnection quiet_notifySubscription quiet_notifyMessage quiet_sendWithAck
    intro: quiet_trans)

subsection \<open>Operations that may deliver data\<close>

fun above :: "nat option \<Rightarrow> nat \<Rightarrow> bool" where
  "above None x = True"
| "above (Some k) x = (k < x)"

fun covers :: "nat option \<Rightarrow> nat \<Rightarrow> bool" where
  "covers None x = False"
| "covers (Some k) x = (x \<le> k)"

definition ordered_step :: "nat \<Rightarrow> string \<Rightarrow> 'p rt_client \<Rightarrow> 'p rt_client \<Rightarrow> bool" where
  "ordered_step l key s s' \<longleftrightarrow> rs_messageListeners s' = rs_messageListeners s \<and>
     (\<forall>k. cursor_seq key s = Some k \<longrightarrow> covers (cursor_seq key s') k) \<and>
     (\<exists>cs. rs_calls s' = rs_calls s @ cs \<and> sorted_wrt (<) (delivered l key cs) \<and>
        (\<forall>x\<in>set (delivered l key cs). above (cursor_seq key s) x \<and> covers (cursor_seq key s') x))"

lemma quiet_cursor: "quiet s s' \<Longrightarrow> cursor_seq key s' = cursor_seq key s"
  by (simp add: quiet_def cursor_seq_def)

lemma ordered_quiet: "quiet s s' \<Longrightarrow> ordered_step l key s s'"
  by (frule quiet_cursor [of _ _ key]) (auto simp: ordered_step_def quiet_def)

lemma covers_trans: "covers c x \<Longrightarrow> (\<And>k. c = Some k \<Longrightarrow> covers c' k) \<Longrightarrow> covers c' x"
  by (cases c; cases c') auto

lemma covers_above: "covers c x \<Longrightarrow> above c y \<Longrightarrow> x < y"
  by (cases c) auto

lemma above_later: "above c y \<Longrightarrow> (\<And>k. c0 = Some k \<Longrightarrow> covers c k) \<Longrightarrow> above c0 y"
  by (cases c0; cases c) force+

lemma ordered_trans:
  assumes 1: "ordered_step l key s t" and 2: "ordered_step l key t u"
  shows "ordered_step l key s u"
proof -
  obtain cs where cs: "rs_calls t = rs_calls s @ cs" "sorted_wrt (<) (delivered l key cs)"
      "\<And>x. x \<in> set (delivered l key cs) \<Longrightarrow> above (cursor_seq key s) x \<and> covers (cursor_seq key t) x"
    and g1: "\<And>k. cursor_seq key s = Some k \<Longrightarrow> covers (cursor_seq key t) k"
    and l1: "rs_messageListeners t = rs_messageListeners s"
    using 1 by (auto simp: ordered_step_def)
  obtain ds where ds: "rs_calls u = rs_calls t @ ds" "sorted_wrt (<) (delivered l key ds)"
      "\<And>x. x \<in> set (delivered l key ds) \<Longrightarrow> above (cursor_seq key t) x \<and> covers (cursor_seq key u) x"
    and g2: "\<And>k. cursor_seq key t = Some k \<Longrightarrow> covers (cursor_seq key u) k"
    and l2: "rs_messageListeners u = rs_messageListeners t"
    using 2 by (auto simp: ordered_step_def)
  have "sorted_wrt (<) (delivered l key (cs @ ds))"
    using cs(2,3) ds(2,3) covers_above by (force simp: sorted_wrt_append)
  moreover have "above (cursor_seq key s) x \<and> covers (cursor_seq key u) x" if "x \<in> set (delivered l key (cs @ ds))" for x
    using that cs(3) ds(3) covers_trans [OF _ g2] above_later [OF _ g1] by auto
  moreover have "covers (cursor_seq key u) k" if "cursor_seq key s = Some k" for k
    using covers_trans [OF g1 [OF that] g2] .
  ultimately show ?thesis
    unfolding ordered_step_def using cs(1) ds(1) l1 l2 by (metis append.assoc)
qed

lemma quiet_report_gap: "quiet s (report_gap now gen p m s)"
proof -
  have q: "quiet s (notifyMessageListeners (ResyncRequired r) ((set_subscription k v s)\<lparr>rs_uuids := n, rs_lastMessage := l\<rparr>))" for k v n l r
    by (rule quiet_trans [OF quiet_trans [OF quiet.keep_set_subscription [of s k v]] quiet_notifyMessage]) (simp_all add: quiet_silent)
  show ?thesis
    by (simp add: report_gap_def Let_def fresh_uuid_def q)
qed

lemma quiet_ordering: "quiet s (snd (handleDataMessageOrdering now gen m s))"
  by (auto simp: handleDataMessageOrdering_def quiet_report_gap split: option.split)

lemma recordCursor_quiet:
  assumes "\<And>p. jm_get (rs_cursors s) (resolveTopicKey (dm_topic m) (dm_table m)) = Some p \<Longrightarrow> cu_seq p < dm_seq m"
  shows "quiet (s\<lparr>rs_cursors := jm_set (resolveTopicKey (dm_topic m) (dm_table m)) (buildCursorFromMessage now m) (rs_cursors s)\<rparr>)
           (recordCursor now m s)" (is "quiet ?s _")
proof -
  have "\<not> (case jm_get (rs_cursors s) (resolveTopicKey (dm_topic m) (dm_table m)) of Some p \<Rightarrow> cu_seq p \<ge> dm_seq m | None \<Rightarrow> False)"
    using assms by (auto split: option.split)
  moreover have q: "quiet ?s (case x of None \<Rightarrow> ?s | Some c \<Rightarrow> set_subscription k (f c) ?s)" for x k f
    by (simp add: quiet.keep_set_subscription split: option.split)
  moreover have "quiet ?s ((case x of None \<Rightarrow> ?s | Some c \<Rightarrow> set_subscription k (f c) ?s)\<lparr>rs_stored := r\<rparr>)" for x k f r
    by (cases x) (simp_all add: quiet_silent quiet_trans [OF quiet.keep_set_subscription [of "?s" k "f (the x)"]])
  ultimately show ?thesis
    by (auto simp: recordCursor_def Let_def)
qed

text \<open>A data message that is not dropped extends the cursor of its topic and reaches each listener once.\<close>

lemma accepted_cursor:
  assumes "handleDataMessageOrdering now gen m s = (False, s1)"
  shows "s1 = s" "cursor_seq (resolveTopicKey (dm_topic m) (dm_table m)) s \<in> {None, Some (dm_seq m - 1)}"
    "jm_get (rs_cursors s) (resolveTopicKey (dm_topic m) (dm_table m)) = Some p \<Longrightarrow> cu_seq p < dm_seq m"
  using assms by (auto simp: handleDataMessageOrdering_def cursor_seq_def split: option.splits if_splits)

lemma recorded_cursor_seq:
  assumes "handleDataMessageOrdering now gen m s = (False, s)"
  shows "cursor_seq key (recordCursor now m s) =
           (if key = resolveTopicKey (dm_topic m) (dm_table m) then Some (dm_seq m) else cursor_seq key s)"
  using quiet_cursor [OF recordCursor_quiet [where s = s and m = m and now = now], of key] accepted_cursor(3) [OF assms]
  by (auto simp: cursor_seq_def buildCursorFromMessage_def)

lemma recorded_calls:
  assumes "handleDataMessageOrdering now gen m s = (False, s)"
  shows "rs_messageListeners (recordCursor now m s) = rs_messageListeners s \<and>
    (\<exists>cs. rs_calls (recordCursor now m s) = rs_calls s @ cs \<and> (\<forall>l key. delivered l key cs = []))"
  using recordCursor_quiet [where s = s and m = m and now = now] accepted_cursor(3) [OF assms]
  by (auto simp: quiet_def)

text \<open>What happens between recording and the listeners is quiet.\<close>

lemma ordered_accept:
  assumes "handleDataMessageOrdering now gen m s = (False, s)" "quiet (recordCursor now m s) t" "distinct (rs_messageListeners s)"
  shows "ordered_step l key s t" "ordered_step l key s (notifyMessageListeners (Data m) t)"
proof -
  let ?k = "resolveTopicKey (dm_topic m) (dm_table m)"
  obtain cs where cs: "rs_calls t = rs_calls s @ cs" "\<And>l key. delivered l key cs = []"
      and ls: "rs_messageListeners t = rs_messageListeners s"
    using recorded_calls [OF assms(1)] assms(2) by (auto simp: quiet_def)
  have c: "cursor_seq key t = (if key = ?k then Some (dm_seq m) else cursor_seq key s)"
    using quiet_cursor [OF assms(2)] recorded_cursor_seq [OF assms(1)] by simp
  have lt: "k < dm_seq m" if "cursor_seq ?k s = Some k" for k
    using that accepted_cursor(3) [OF assms(1)] by (auto simp: cursor_seq_def)
  have g: "covers (cursor_seq key t) k" if "cursor_seq key s = Some k" for k
    using that lt c by (cases "key = ?k") (auto simp: less_imp_le)
  show "ordered_step l key s t"
    unfolding ordered_step_def using cs ls g by auto
  have a: "above (cursor_seq ?k s) (dm_seq m)"
    using lt by (cases "cursor_seq ?k s") auto
  let ?n = "notifyMessageListeners (Data m) t"
  define ds where "ds = cs @ map (\<lambda>l. MessageCall l (Data m)) (rs_messageListeners s)"
  have d: "delivered l key ds = (if l \<in> set (rs_messageListeners s) \<and> ?k = key then [dm_seq m] else [])"
    by (simp add: ds_def cs(2) delivered_data [OF assms(3)])
  have n: "rs_calls ?n = rs_calls s @ ds" "rs_messageListeners ?n = rs_messageListeners s" "cursor_seq key ?n = cursor_seq key t"
    by (simp_all add: notifyMessageListeners_def ds_def cs(1) ls cursor_seq_def)
  show "ordered_step l key s ?n"
    unfolding ordered_step_def n using d a c g by (intro conjI exI [of _ ds]) auto
qed

lemma ordered_data:
  assumes "distinct (rs_messageListeners s)"
  shows "ordered_step l key s (case on_data now gen valid fromSocket m s of
           Inl (e, t) \<Rightarrow> t | Inr (notify, t) \<Rightarrow> if notify then notifyMessageListeners (Data m) t else t)"
proof -
  obtain drop_it s1 where o: "handleDataMessageOrdering now gen m s = (drop_it, s1)"
    by fastforce
  show ?thesis
  proof (cases drop_it)
    case True
    then show ?thesis
      using ordered_quiet [OF quiet_ordering [of s now gen m]] by (simp add: on_data_def o)
  next
    case False
    then have s1: "s1 = s" and o': "handleDataMessageOrdering now gen m s = (False, s)"
      using accepted_cursor(1) o by auto
    let ?s2 = "recordCursor now m s"
    obtain u s3 where f: "fresh_uuid gen ?s2 = (u, s3)"
      by fastforce
    have q3: "quiet ?s2 s3"
      using quiet.keep_fresh [of ?s2 gen] f by simp
    show ?thesis
      using ordered_accept [OF o' quiet_refl assms] ordered_accept [OF o' q3 assms]
        ordered_accept(2) [OF o' quiet_trans [OF q3 quiet.keep_sendFireAndForget] assms]
      by (cases "sendFireAndForget valid (AckMsg u None (dm_messageId m) now) s3")
        (auto simp: on_data_def o False s1 f Let_def)
  qed
qed

text \<open>A message of another kind is quiet; a data message is handled after a quiet prologue.\<close>

lemma incoming_data:
  "\<exists>s2. quiet s s2 \<and> handleIncomingMessage now gen valid (Data m) fromSocket s =
     (case on_data now gen valid fromSocket m s2 of
        Inl (e, t) \<Rightarrow> t | Inr (notify, t) \<Rightarrow> if notify then notifyMessageListeners (Data m) t else t)"
proof (intro exI conjI)
  let ?s1 = "if fromSocket then resetHeartbeatTimeout now s else s"
  show "quiet s (?s1\<lparr>rs_lastMessage := Some (Data m)\<rparr>)"
    by (rule quiet_trans [of _ ?s1]) (auto simp: quiet_silent quiet.keep_resetHeartbeat)
qed (simp add: handleIncomingMessage_def on_message_def Let_def)

lemma ordered_incoming:
  assumes "distinct (rs_messageListeners s)"
  shows "ordered_step l key s (handleIncomingMessage now gen valid m fromSocket s)"
proof (cases "\<exists>d. m = Data d")
  case True
  then obtain d where m: "m = Data d" by auto
  obtain s2 where q: "quiet s s2" and h: "handleIncomingMessage now gen valid m fromSocket s =
     (case on_data now gen valid fromSocket d s2 of
        Inl (e, t) \<Rightarrow> t | Inr (notify, t) \<Rightarrow> if notify then notifyMessageListeners (Data d) t else t)"
    using incoming_data m by blast
  have "distinct (rs_messageListeners s2)"
    using assms q by (simp add: quiet_def)
  then show ?thesis
    unfolding h using ordered_trans [OF ordered_quiet [OF q] ordered_data] by blast
qed (simp add: ordered_quiet quiet.keep_incoming)

subsection \<open>Runs\<close>

text \<open>
  A run keeps the cursors when nobody clears them and what is loaded on connecting is what the client had, which
  is so when every change was stored.
\<close>

definition keeps_cursors_event :: "'p rt_event \<Rightarrow> 'p rt_client \<Rightarrow> bool" where
  "keeps_cursors_event e s =
     (case e of CursorsLoaded (Inr st) \<Rightarrow> rs_phase s \<noteq> Some LoadingCursors \<or> nullish st [] = rs_cursors s
              | ClearResumeState \<Rightarrow> False | _ \<Rightarrow> True)"

fun keeps_cursors ::
  "(nat \<Rightarrow> string) \<Rightarrow> (client_message \<Rightarrow> bool) \<Rightarrow> (ms \<times> 'p rt_event) list \<Rightarrow> 'p rt_client \<Rightarrow> bool" where
  "keeps_cursors gen valid [] s = True"
| "keeps_cursors gen valid (e # es) s = (keeps_cursors_event (snd e) s \<and> keeps_cursors gen valid es (rt_step gen valid e s))"

lemma quiet_cursors_loaded:
  assumes "keeps_cursors_event (CursorsLoaded r) s"
  shows "quiet s (cursors_loaded now r s)"
proof -
  have q: "quiet s ((updateConnectionSnapshot now f (s\<lparr>rs_cursors := rs_cursors s\<rparr>))\<lparr>rs_phase := p\<rparr>)" for f p
    by (rule quiet_trans [of _ "updateConnectionSnapshot now f (s\<lparr>rs_cursors := rs_cursors s\<rparr>)"],
        rule quiet_trans [OF _ quiet.keep_updateConnection]) (simp_all add: quiet_silent)
  show ?thesis
    using assms q unfolding cursors_loaded_def Let_def
    by (auto simp: keeps_cursors_event_def quiet.keep_connect_settles split: sum.split)
qed

lemma ordered_message:
  assumes "distinct (rs_messageListeners s)"
  shows "ordered_step l key s (on_socket_message now gen valid i r s)"
  using ordered_incoming [OF assms]
  by (auto simp: on_socket_message_def ordered_quiet quiet.keep_protocolError split: option.split socket_listeners.split sum.split
      intro!: ordered_quiet quiet_trans [OF quiet.keep_protocolError quiet.keep_handshake_over])

lemma ordered_handle:
  assumes "distinct (rs_messageListeners s)" "keeps_cursors_event e s"
  shows "ordered_step l key s (rt_handle gen valid now e s)"
proof (cases e)
  case (CursorsLoaded r)
  then show ?thesis using assms(2) by (simp add: ordered_quiet quiet_cursors_loaded)
next
  case ClearResumeState
  then show ?thesis using assms(2) by (simp add: keeps_cursors_event_def)
next
  case (Ingest m)
  then show ?thesis using ordered_incoming [OF assms(1)] by simp
next
  case (SocketMessage i r)
  then show ?thesis using ordered_message [OF assms(1)] by simp
qed (auto intro!: ordered_quiet quiet.keep_handle simp del: rt_handle.simps)

lemma ordered_event:
  assumes "distinct (rs_messageListeners s)" "keeps_cursors_event (snd e) s"
  shows "ordered_step l key s (rt_step gen valid e s)"
  using ordered_trans [OF ordered_handle [OF assms] ordered_quiet [OF quiet.keep_microtasks]]
  by (cases e) (simp add: rt_step_def)

lemma ordered_run:
  assumes "distinct (rs_messageListeners s)" "keeps_cursors gen valid es s"
  shows "ordered_step l key s (fold (rt_step gen valid) es s)"
  using assms
proof (induction es arbitrary: s)
  case Nil
  then show ?case by (simp add: ordered_quiet)
next
  case (Cons e es)
  have 1: "ordered_step l key s (rt_step gen valid e s)"
    using Cons.prems by (simp add: ordered_event)
  then have "distinct (rs_messageListeners (rt_step gen valid e s))"
    using Cons.prems by (simp add: ordered_step_def)
  then show ?case
    using ordered_trans [OF 1 Cons.IH] Cons.prems by simp
qed

text \<open>C24 Whatever the host does (messages of several sockets, ingested messages, reconnections, timeouts), the data messages of a topic
  that reach a listener have strictly increasing sequence numbers, all above the cursor at the beginning: none is delivered twice
  or out of order.
\<close>

theorem data_delivered_in_order:
  assumes "distinct (rs_messageListeners s)" "keeps_cursors gen valid es s"
  shows "\<exists>cs. rs_calls (fold (rt_step gen valid) es s) = rs_calls s @ cs \<and>
           sorted_wrt (<) (delivered l key cs) \<and> (\<forall>x\<in>set (delivered l key cs). above (cursor_seq key s) x)"
  using ordered_run [OF assms, of l key] unfolding ordered_step_def by blast

definition sample_config :: socket_config where
  "sample_config = \<lparr>sc_url = ''wss://x'', sc_protocols = None, sc_protocolVersion = None,
     sc_auth = Some \<lparr>ta_mode = ''ticket'', ta_queryParam = None\<rparr>, sc_heartbeat = None, sc_reconnect = None, sc_resume = None,
     sc_standalone = False, sc_requestTimeoutMs = None\<rparr>"

definition sample_uuid :: "nat \<Rightarrow> string" where
  "sample_uuid n = ''u'' @ show_nat n"

definition sample_hello :: "nat \<Rightarrow> hello_ack" where
  "sample_hello n = \<lparr>ha_messageId = ''h'', ha_requestId = Some (sample_uuid n), ha_connectionId = ''c'', ha_protocolVersion = ''1.0'',
     ha_negotiatedProtocolVersion = ''1.0'', ha_heartbeatIntervalMs = 15000, ha_capabilities = [], ha_resumeAccepted = True,
     ha_serverTime = 0\<rparr>"

definition sample_data :: "bool \<Rightarrow> nat \<Rightarrow> nat data_message" where
  "sample_data snapshot n = \<lparr>dm_isSnapshot = snapshot, dm_messageId = ''m'', dm_topic = ''t'', dm_table = ''orders'', dm_entityId = None,
     dm_seq = n, dm_occurredAt = 0, dm_version = None, dm_kind = (if snapshot then KIND_SNAPSHOT else KIND_UPDATED), dm_payload = Some n\<rparr>"

definition sample_connect :: "(ms \<times> nat rt_event) list" where
  "sample_connect = [(1, Connect), (1, CursorsLoaded (Inr None)), (1, TicketResolved (Inr (''wss://x?ticket=1'', None))),
     (2, SocketOpen 0), (3, SocketMessage 0 (Inr (HelloAck (sample_hello 1))))]"

definition sample_client :: "nat rt_client" where
  "sample_client = subscribeMessages 0 (new_client 0 sample_config ''me'')"

definition sample_messages :: "nat list \<Rightarrow> (ms \<times> nat rt_event) list" where
  "sample_messages ns = map (\<lambda>n. (4, SocketMessage 0 (Inr (Data (sample_data False n))))) ns"

lemma data_delivered_in_order_witness:
  "\<exists>cs. rs_calls (fold (rt_step sample_uuid (\<lambda>_. True)) (sample_connect @ sample_messages [5, 5, 7, 6, 7])
            sample_client) =
          rs_calls sample_client @ cs \<and>
        sorted_wrt (<) (delivered 0 ''orders::t'' cs) \<and>
        (\<forall>x\<in>set (delivered 0 ''orders::t'' cs). above (cursor_seq ''orders::t'' sample_client) x)"
proof (rule data_delivered_in_order)
  show "distinct (rs_messageListeners sample_client)"
    by code_simp
  show "keeps_cursors sample_uuid (\<lambda>_. True) (sample_connect @ sample_messages [5, 5, 7, 6, 7])
          sample_client"
    by code_simp
qed

lemma delivered_in_order_example:
  "delivered 0 ''orders::t'' (rs_calls (fold (rt_step sample_uuid (\<lambda>_. True)) (sample_connect @ sample_messages [5, 5, 7, 6, 7])
     sample_client)) = [5, 6, 7]"
  by code_simp

subsection \<open>After a gap\<close>

definition event_data :: "'p rt_event \<Rightarrow> 'p data_message option" where
  "event_data e =
     (case e of Ingest (Data d) \<Rightarrow> Some d | SocketMessage i (Inr (Data d)) \<Rightarrow> Some d | _ \<Rightarrow> None)"

definition brings :: "string \<Rightarrow> nat \<Rightarrow> 'p rt_event \<Rightarrow> bool" where
  "brings key n e =
     (case event_data e of None \<Rightarrow> False | Some d \<Rightarrow> resolveTopicKey (dm_topic d) (dm_table d) = key \<and> dm_seq d = n)"

definition blocked :: "string \<Rightarrow> 'p rt_client \<Rightarrow> 'p rt_client \<Rightarrow> bool" where
  "blocked key s s' \<longleftrightarrow> cursor_seq key s' = cursor_seq key s \<and>
     (\<exists>cs. rs_calls s' = rs_calls s @ cs \<and> (\<forall>l. delivered l key cs = []))"

lemma blocked_quiet: "quiet s s' \<Longrightarrow> blocked key s s'"
  by (frule quiet_cursor [of _ _ key]) (auto simp: blocked_def quiet_def)

lemma blocked_trans: "blocked key s t \<Longrightarrow> blocked key t u \<Longrightarrow> blocked key s u"
  by (force simp: blocked_def)

lemma delivered_other_topic:
  "resolveTopicKey (dm_topic d) (dm_table d) \<noteq> key \<Longrightarrow> delivered l key (map (\<lambda>x. MessageCall x (Data d)) ls) = []"
  by (induction ls) auto

lemma blocked_notify:
  assumes "blocked key s t" "resolveTopicKey (dm_topic d) (dm_table d) \<noteq> key"
  shows "blocked key s (notifyMessageListeners (Data d) t)"
  using assms by (auto simp: blocked_def notifyMessageListeners_def cursor_seq_def delivered_other_topic)

lemma blocked_data:
  assumes "cursor_seq key s = Some k" "resolveTopicKey (dm_topic m) (dm_table m) = key \<Longrightarrow> dm_seq m \<noteq> Suc k"
  shows "blocked key s (case on_data now gen valid fromSocket m s of
           Inl (e, t) \<Rightarrow> t | Inr (notify, t) \<Rightarrow> if notify then notifyMessageListeners (Data m) t else t)"
proof -
  obtain drop_it s1 where o: "handleDataMessageOrdering now gen m s = (drop_it, s1)"
    by fastforce
  show ?thesis
  proof (cases drop_it)
    case True
    then show ?thesis
      using blocked_quiet [OF quiet_ordering [of s now gen m]] by (simp add: on_data_def o)
  next
    case False
    then have s1: "s1 = s" and o': "handleDataMessageOrdering now gen m s = (False, s)"
      using accepted_cursor(1) o by auto
    have other: "resolveTopicKey (dm_topic m) (dm_table m) \<noteq> key"
      using o' assms by (auto simp: handleDataMessageOrdering_def cursor_seq_def split: option.splits if_splits)
    let ?s2 = "recordCursor now m s"
    have b2: "blocked key s ?s2"
      using recorded_cursor_seq [OF o', of key] recorded_calls [OF o'] other by (auto simp: blocked_def)
    obtain u s3 where f: "fresh_uuid gen ?s2 = (u, s3)"
      by fastforce
    have b3: "blocked key s s3"
      using blocked_trans [OF b2 blocked_quiet [OF quiet.keep_fresh [of ?s2 gen]]] f by simp
    have b4: "blocked key s t" if "sendFireAndForget valid c s3 = Inr t" for c t
      by (rule blocked_trans [OF b3 blocked_quiet [OF quiet.keep_sendFireAndForget [OF that]]])
    show ?thesis
      using b2 b3 b4 blocked_notify [OF _ other]
      by (cases "sendFireAndForget valid (AckMsg u None (dm_messageId m) now) s3")
        (auto simp: on_data_def o False s1 f Let_def)
  qed
qed

lemma blocked_incoming:
  assumes "cursor_seq key s = Some k" "\<And>d. m = Data d \<Longrightarrow> resolveTopicKey (dm_topic d) (dm_table d) = key \<Longrightarrow> dm_seq d \<noteq> Suc k"
  shows "blocked key s (handleIncomingMessage now gen valid m fromSocket s)"
proof (cases "\<exists>d. m = Data d")
  case True
  then obtain d where m: "m = Data d" by auto
  obtain s2 where q: "quiet s s2" and h: "handleIncomingMessage now gen valid m fromSocket s =
     (case on_data now gen valid fromSocket d s2 of
        Inl (e, t) \<Rightarrow> t | Inr (notify, t) \<Rightarrow> if notify then notifyMessageListeners (Data d) t else t)"
    using incoming_data m by blast
  have c2: "cursor_seq key s2 = Some k"
    using quiet_cursor [OF q] assms(1) by simp
  show ?thesis
    unfolding h by (rule blocked_trans [OF blocked_quiet [OF q] blocked_data [OF c2]]) (use assms(2) m in blast)
qed (simp add: blocked_quiet quiet.keep_incoming)

lemma blocked_event:
  assumes "cursor_seq key s = Some k" "keeps_cursors_event (snd e) s" "\<not> brings key (Suc k) (snd e)"
  shows "blocked key s (rt_step gen valid e s)"
proof -
  obtain now ev where e: "e = (now, ev)" by fastforce
  have "blocked key s (rt_handle gen valid now ev s)"
  proof (cases ev)
    case (CursorsLoaded r)
    then show ?thesis using assms(2) e by (simp add: blocked_quiet quiet_cursors_loaded)
  next
    case ClearResumeState
    then show ?thesis using assms(2) e by (simp add: keeps_cursors_event_def)
  next
    case (Ingest m)
    then have "blocked key s (handleIncomingMessage now gen valid m False s)"
      using assms e by (intro blocked_incoming) (auto simp: brings_def event_data_def)
    then show ?thesis by (simp add: Ingest)
  next
    case (SocketMessage i r)
    have "blocked key s (handleIncomingMessage now gen valid m True s)" if "r = Inr m" for m
      using assms e that SocketMessage by (intro blocked_incoming) (auto simp: brings_def event_data_def)
    then have "blocked key s (on_socket_message now gen valid i r s)"
      by (auto simp: on_socket_message_def blocked_quiet quiet.keep_protocolError split: option.split socket_listeners.split sum.split
          intro!: blocked_quiet quiet_trans [OF quiet.keep_protocolError quiet.keep_handshake_over])
    then show ?thesis by (simp add: SocketMessage)
  qed (auto intro!: blocked_quiet quiet.keep_handle simp del: rt_handle.simps)
  then show ?thesis
    using blocked_trans [OF _ blocked_quiet [OF quiet.keep_microtasks]] by (simp add: rt_step_def e)
qed

lemma blocked_run:
  assumes "cursor_seq key s = Some k" "keeps_cursors gen valid es s" "\<not> list_ex (\<lambda>e. brings key (Suc k) (snd e)) es"
  shows "blocked key s (fold (rt_step gen valid) es s)"
  using assms
proof (induction es arbitrary: s)
  case Nil
  then show ?case by (simp add: blocked_quiet)
next
  case (Cons e es)
  have 1: "blocked key s (rt_step gen valid e s)"
    using Cons.prems by (intro blocked_event [of key s k]) auto
  then have "cursor_seq key (rt_step gen valid e s) = Some k"
    using Cons.prems by (simp add: blocked_def)
  then show ?case
    using blocked_trans [OF 1 Cons.IH] Cons.prems by simp
qed

text \<open>Once a topic's cursor is \<open>k\<close>, only the message numbered \<open>k + 1\<close> moves it: as long as that one does not come, whatever else the
  server sends for the topic, snapshots included, and however often the client reconnects, nothing of the topic is delivered.
\<close>

theorem gap_blocks_topic:
  assumes "cursor_seq key s = Some k" "keeps_cursors gen valid es s" "\<not> list_ex (\<lambda>e. brings key (Suc k) (snd e)) es"
  shows "cursor_seq key (fold (rt_step gen valid) es s) = Some k \<and>
    (\<exists>cs. rs_calls (fold (rt_step gen valid) es s) = rs_calls s @ cs \<and> delivered l key cs = [])"
  using blocked_run [OF assms] assms(1) by (auto simp: blocked_def)

definition after_five :: "nat rt_client" where
  "after_five = fold (rt_step sample_uuid (\<lambda>_. True)) (sample_connect @ sample_messages [5]) sample_client"

lemma gap_blocks_topic_witness:
  "cursor_seq ''orders::t'' (fold (rt_step sample_uuid (\<lambda>_. True))
      (sample_messages [7, 8] @ [(5, SocketMessage 0 (Inr (Data (sample_data True 9))))]) after_five) = Some 5 \<and>
    (\<exists>cs. rs_calls (fold (rt_step sample_uuid (\<lambda>_. True))
      (sample_messages [7, 8] @ [(5, SocketMessage 0 (Inr (Data (sample_data True 9))))]) after_five) = rs_calls after_five @ cs \<and>
      delivered 0 ''orders::t'' cs = [])"
proof (rule gap_blocks_topic)
  show "cursor_seq ''orders::t'' after_five = Some 5"
    by code_simp
  show "keeps_cursors sample_uuid (\<lambda>_. True) (sample_messages [7, 8] @ [(5, SocketMessage 0 (Inr (Data (sample_data True 9))))]) after_five"
    by code_simp
  show "\<not> list_ex (\<lambda>e. brings ''orders::t'' (Suc 5) (snd e)) (sample_messages [7, 8] @ [(5, SocketMessage 0 (Inr (Data (sample_data True 9))))])"
    by code_simp
qed

end
