(* ===== verification/Realtime_Lifecycle.thy ===== *)
theory Realtime_Lifecycle
  imports Realtime_Order
begin

text \<open>
  Requests and connections of the realtime client. Requests: an invariant on the request table from which no request is
  forgotten and none is answered twice. Connections: the handshake as a whole, the bounds of the reconnection delay, and
  runs in which the client ends in a state that does not agree with its socket.
\<close>

subsection \<open>Requests\<close>

definition unsettled :: "'p rt_client \<Rightarrow> nat \<Rightarrow> bool" where
  "unsettled s n \<longleftrightarrow> n < length (rs_requests s) \<and> rq_due (rs_requests s ! n) \<noteq> None"

definition requests_ok :: "'p rt_client \<Rightarrow> bool" where
  "requests_ok s \<longleftrightarrow> distinct (map fst (rs_settled s)) \<and>
     (\<forall>n. n \<in> fst ` set (rs_settled s) \<longleftrightarrow> n < length (rs_requests s) \<and> \<not> unsettled s n) \<and>
     (\<forall>(r, n)\<in>set (rs_pending s). unsettled s n \<and> rq_id (rs_requests s ! n) = r) \<and> jm_ok (rs_pending s)"

lemma requests_okD:
  assumes "requests_ok s"
  shows "distinct (map fst (rs_settled s))" "n \<in> fst ` set (rs_settled s) \<longleftrightarrow> n < length (rs_requests s) \<and> \<not> unsettled s n"
    "(r, n) \<in> set (rs_pending s) \<Longrightarrow> unsettled s n" "(r, n) \<in> set (rs_pending s) \<Longrightarrow> rq_id (rs_requests s ! n) = r"
    "jm_ok (rs_pending s)"
  using assms by (auto simp: requests_ok_def)

lemma unsettled_settle:
  "n < length (rs_requests s) \<Longrightarrow> unsettled (settle n r s) i \<longleftrightarrow> unsettled s i \<and> i \<noteq> n"
  by (auto simp: unsettled_def settle_def nth_list_update)

lemma settle_fields [simp]:
  "length (rs_requests (settle n r s)) = length (rs_requests s)" "rs_settled (settle n r s) = rs_settled s @ [(n, r)]"
  "rs_pending (settle n r s) = rs_pending s"
  by (simp_all add: settle_def)

lemma rq_id_settle [simp]: "n < length (rs_requests s) \<Longrightarrow> rq_id (rs_requests (settle n r s) ! i) = rq_id (rs_requests s ! i)"
  by (simp add: settle_def nth_list_update)

lemma unsettled_pending [simp]: "unsettled (s\<lparr>rs_pending := p\<rparr>) n = unsettled s n"
  by (simp add: unsettled_def)

text \<open>Settling an unsettled request keeps the invariant once its id is out of the map.\<close>

lemma settle_ok:
  assumes ok: "requests_ok s" and n: "unsettled s n"
  shows "requests_ok (settle n r (s\<lparr>rs_pending := jm_delete (rq_id (rs_requests s ! n)) (rs_pending s)\<rparr>))"
proof -
  let ?t = "s\<lparr>rs_pending := jm_delete (rq_id (rs_requests s ! n)) (rs_pending s)\<rparr>"
  have l: "n < length (rs_requests ?t)"
    using n by (simp add: unsettled_def)
  have fresh: "n \<notin> fst ` set (rs_settled s)"
    using requests_okD(2) [OF ok] n by blast
  have "i \<in> fst ` set (rs_settled (settle n r ?t)) \<longleftrightarrow> i < length (rs_requests (settle n r ?t)) \<and> \<not> unsettled (settle n r ?t) i" for i
    using requests_okD(2) [OF ok, of i] l by (auto simp: unsettled_settle [OF l])
  moreover have "unsettled (settle n r ?t) i \<and> rq_id (rs_requests (settle n r ?t) ! i) = k"
    if "(k, i) \<in> set (rs_pending (settle n r ?t))" for k i
  proof -
    have "(k, i) \<in> set (rs_pending s)" "k \<noteq> rq_id (rs_requests s ! n)"
      using that by (auto simp: jm_delete_def)
    then show ?thesis
      using requests_okD(3,4) [OF ok] rq_id_settle [OF l] by (auto simp: unsettled_settle [OF l])
  qed
  moreover have "distinct (map fst (rs_settled (settle n r ?t)))"
    using requests_okD(1) [OF ok] fresh by simp
  moreover have "jm_ok (rs_pending (settle n r ?t))"
    using requests_okD(5) [OF ok] by simp
  ultimately show ?thesis
    unfolding requests_ok_def by blast
qed

lemma settle_pending_ok:
  assumes "requests_ok s" "(k, n) \<in> set (rs_pending s)"
  shows "requests_ok (settle n r (s\<lparr>rs_pending := jm_delete k (rs_pending s)\<rparr>))"
  using settle_ok [OF assms(1) requests_okD(3) [OF assms], of r] requests_okD(4) [OF assms] by simp

lemma resolve_ok: "requests_ok s \<Longrightarrow> requests_ok (resolvePendingRequest r m s)"
  by (auto simp: resolvePendingRequest_def intro: settle_pending_ok jm_get_Some_in split: option.split)

lemma reject_fold_ok:
  "requests_ok s \<Longrightarrow> set xs \<subseteq> set (rs_pending s) \<Longrightarrow> distinct (map fst xs) \<Longrightarrow> requests_ok (fold (reject_pending err) xs s)"
proof (induction xs arbitrary: s)
  case (Cons x xs)
  obtain k n where x: "x = (k, n)" by fastforce
  have "set xs \<subseteq> set (rs_pending (reject_pending err x s))"
    using Cons.prems by (auto simp: x reject_pending_def jm_delete_def image_iff)
  moreover have "requests_ok (reject_pending err x s)"
    using Cons.prems by (simp add: x reject_pending_def settle_pending_ok)
  ultimately show ?case
    using Cons by simp
qed simp

lemma reject_ok: "requests_ok s \<Longrightarrow> requests_ok (rejectPendingRequests err s)"
  unfolding rejectPendingRequests_def using requests_okD(5) by (auto intro: reject_fold_ok)

lemma timed_out_ok: "requests_ok s \<Longrightarrow> unsettled s n \<Longrightarrow> requests_ok (request_timed_out n s)"
  unfolding request_timed_out_def by (rule settle_ok)

lemma sendWithAck_requests:
  assumes "sendWithAck now k m s = Inr s'"
  obtains r d where "rs_requests s' = rs_requests s @ [\<lparr>rq_id = r, rq_due = Some d, rq_cont = k\<rparr>]"
    "rs_pending s' = jm_set r (length (rs_requests s)) (rs_pending s)" "rs_settled s' = rs_settled s"
  using assms that by (auto simp: sendWithAck_def ws_send_def upd_socket_def split: option.splits if_splits)

lemma jm_set_mem: "x \<in> set (jm_set k v m) \<Longrightarrow> x = (k, v) \<or> x \<in> set m"
  by (induction m rule: jm_set.induct [of _ k v]) (auto split: if_splits)

lemma sendWithAck_ok:
  assumes ok: "requests_ok s" and send: "sendWithAck now k m s = Inr s'"
  shows "requests_ok s'"
proof -
  obtain r d where s': "rs_requests s' = rs_requests s @ [\<lparr>rq_id = r, rq_due = Some d, rq_cont = k\<rparr>]"
    "rs_pending s' = jm_set r (length (rs_requests s)) (rs_pending s)" "rs_settled s' = rs_settled s"
    using send by (rule sendWithAck_requests)
  have u: "unsettled s' i \<longleftrightarrow> unsettled s i \<or> i = length (rs_requests s)" for i
    by (auto simp: unsettled_def s' nth_append)
  have "i \<in> fst ` set (rs_settled s') \<longleftrightarrow> i < length (rs_requests s') \<and> \<not> unsettled s' i" for i
    using requests_okD(2) [OF ok, of i] by (auto simp: s' u)
  moreover have "unsettled s' i \<and> rq_id (rs_requests s' ! i) = q" if "(q, i) \<in> set (rs_pending s')" for q i
    using jm_set_mem [of "(q, i)" r "length (rs_requests s)" "rs_pending s"] that requests_okD(3,4) [OF ok, of q i]
    by (auto simp: u s' nth_append unsettled_def)
  moreover have "distinct (map fst (rs_settled s'))" "jm_ok (rs_pending s')"
    using requests_okD(1,5) [OF ok] by (simp_all add: s')
  ultimately show ?thesis
    unfolding requests_ok_def by blast
qed

lemma requests_ok_same:
  "rs_requests s' = rs_requests s \<Longrightarrow> rs_pending s' = rs_pending s \<Longrightarrow> rs_settled s' = rs_settled s \<Longrightarrow>
   requests_ok s \<Longrightarrow> requests_ok s'"
  by (simp add: requests_ok_def unsettled_def)

definition keeps_requests :: "'p rt_client \<Rightarrow> 'p rt_client \<Rightarrow> bool" where
  "keeps_requests s s' \<longleftrightarrow> (requests_ok s \<longrightarrow> requests_ok s')"

interpretation rq: rt_frame keeps_requests
proof unfold_locales
  show "keeps_requests s s'" if "rt_handle gen valid now (RequestTimeout n) s = s'" for s s' :: "'p rt_client" and gen valid now n
    using that timed_out_ok [of s n] by (auto simp: keeps_requests_def unsettled_def split: if_splits option.splits)
qed (auto simp: keeps_requests_def same_core_def resolve_ok reject_ok sendWithAck_ok
    notifyConnectionListeners_def notifySubscriptionListeners_def notifyMessageListeners_def intro: requests_ok_same)

lemma requests_data: "requests_ok s \<Longrightarrow> requests_ok (notifyMessageListeners m s)" "requests_ok s \<Longrightarrow> requests_ok (recordCursor now d s)"
  by (auto simp: notifyMessageListeners_def recordCursor_def set_subscription_def notifySubscriptionListeners_def Let_def
      intro: requests_ok_same split: option.split)

lemma requests_on_data:
  assumes "requests_ok s"
  shows "requests_ok (case on_data now gen valid fromSocket m s of
           Inl (e, t) \<Rightarrow> t | Inr (notify, t) \<Rightarrow> if notify then notifyMessageListeners (Data m) t else t)"
proof -
  obtain drop_it s1 where o: "handleDataMessageOrdering now gen m s = (drop_it, s1)"
    by fastforce
  have "keeps_requests s (report_gap now gen p m s)" for p
    by (simp add: report_gap_def Let_def fresh_uuid_def keeps_requests_def notifyMessageListeners_def set_subscription_def
        notifySubscriptionListeners_def requests_ok_def unsettled_def)
  then have ok1: "requests_ok s1"
    using o assms by (auto simp: handleDataMessageOrdering_def keeps_requests_def split: option.splits if_splits)
  let ?s2 = "recordCursor now m s1"
  obtain u s3 where f: "fresh_uuid gen ?s2 = (u, s3)"
    by fastforce
  have ok3: "requests_ok s3"
    using rq.keep_fresh [of ?s2 gen] requests_data(2) [OF ok1] f by (simp add: keeps_requests_def)
  have ok4: "requests_ok t" if "sendFireAndForget valid c s3 = Inr t" for c t
    using rq.keep_sendFireAndForget [OF that] ok3 by (simp add: keeps_requests_def)
  show ?thesis
    using ok1 requests_data(2) [OF ok1] ok3 ok4
    by (cases "sendFireAndForget valid (AckMsg u None (dm_messageId m) now) s3")
      (auto simp: on_data_def o f Let_def intro: requests_data(1))
qed

lemma requests_incoming: "requests_ok s \<Longrightarrow> requests_ok (handleIncomingMessage now gen valid m fromSocket s)"
proof (cases "\<exists>d. m = Data d")
  case True
  assume ok: "requests_ok s"
  obtain d where m: "m = Data d" using True by auto
  let ?s1 = "(if fromSocket then resetHeartbeatTimeout now s else s)\<lparr>rs_lastMessage := Some m\<rparr>"
  have "requests_ok ?s1"
    using rq.keep_resetHeartbeat [of s now] ok
    by (auto simp: keeps_requests_def intro: requests_ok_same [of _ s] requests_ok_same [of _ "resetHeartbeatTimeout now s"])
  then show ?thesis
    using requests_on_data [of ?s1]
    by (simp add: handleIncomingMessage_def on_message_def m Let_def split: sum.splits)
next
  case False
  then have "keeps_requests s (handleIncomingMessage now gen valid m fromSocket s)"
    by (intro rq.keep_incoming) blast
  then show "requests_ok s \<Longrightarrow> ?thesis"
    by (simp add: keeps_requests_def)
qed

lemma requests_message: "requests_ok s \<Longrightarrow> requests_ok (on_socket_message now gen valid i r s)"
  using rq.keep_protocolError [of s] rq.trans [OF rq.keep_protocolError rq.keep_handshake_over, of s]
  by (auto simp: on_socket_message_def keeps_requests_def split: option.split socket_listeners.split sum.split
      intro: requests_incoming)

lemma requests_event: "requests_ok s \<Longrightarrow> requests_ok (rt_step gen valid e s)"
proof -
  assume ok: "requests_ok s"
  obtain now ev where e: "e = (now, ev)" by fastforce
  have "requests_ok (rt_handle gen valid now ev s)"
  proof (cases ev)
    case (CursorsLoaded r)
    have "requests_ok (updateConnectionSnapshot now f (s\<lparr>rs_cursors := c\<rparr>))" for f c
      using rq.keep_updateConnection [of "s\<lparr>rs_cursors := c\<rparr>" now f] ok requests_ok_same [of "s\<lparr>rs_cursors := c\<rparr>" s]
      by (simp add: keeps_requests_def)
    then show ?thesis
      using ok by (auto simp: CursorsLoaded cursors_loaded_def connect_settles_def Let_def requests_ok_def unsettled_def
          split: sum.split)
  next
    case ClearResumeState
    then show ?thesis using ok by (simp add: clearResumeState_def requests_ok_same [of _ s])
  next
    case (Ingest m)
    then show ?thesis using ok by (simp add: requests_incoming)
  next
    case (SocketMessage i r)
    then show ?thesis using ok by (simp add: requests_message)
  qed (use ok rq.keep_handle [of ev s] in \<open>simp_all add: keeps_requests_def del: rt_handle.simps\<close>)
  then show ?thesis
    using rq.keep_microtasks by (auto simp: rt_step_def e keeps_requests_def)
qed

lemma requests_run: "requests_ok s \<Longrightarrow> requests_ok (fold (rt_step gen valid) es s)"
  by (induction es arbitrary: s) (simp_all add: requests_event)

lemma requests_new: "requests_ok (new_client now config me)"
  by (simp add: requests_ok_def new_client_def unsettled_def)

text \<open>What is settled stays so.\<close>

definition settled_grows :: "'p rt_client \<Rightarrow> 'p rt_client \<Rightarrow> bool" where
  "settled_grows s s' \<longleftrightarrow> fst ` set (rs_settled s) \<subseteq> fst ` set (rs_settled s')"

lemma settled_fold: "(\<And>x s. settled_grows s (f x s)) \<Longrightarrow> settled_grows s (fold f xs s)"
  unfolding settled_grows_def by (induction xs arbitrary: s) (simp_all, meson order_trans)

interpretation grow: rt_frame settled_grows
proof unfold_locales
  show "settled_grows s (rejectPendingRequests err s)" for s :: "'p rt_client" and err
    unfolding rejectPendingRequests_def
    by (rule settled_fold) (auto simp: settled_grows_def reject_pending_def split: prod.split)
  show "settled_grows s s'" if "sendWithAck now k c s = Inr s'" for s s' :: "'p rt_client" and now k c
    using that by (rule sendWithAck_requests) (simp add: settled_grows_def)
qed (auto simp: settled_grows_def same_core_def resolvePendingRequest_def request_timed_out_def
    notifyConnectionListeners_def notifySubscriptionListeners_def notifyMessageListeners_def split: option.split)

text \<open>C25 A request sent to the server (hello, subscriptions, pings and the callers' own) settles exactly once: in every state the client
  can reach no promise has settled twice, and each request that has not settled has an armed timer, which settles it when
  it is run. This holds also when callers use a request id twice.
\<close>

theorem requests_settle_once:
  "let s = fold (rt_step gen valid) es (new_client t config me)
   in distinct (map fst (rs_settled s)) \<and> fst ` set (rs_settled s) \<subseteq> {..<length (rs_requests s)} \<and>
      (\<forall>n\<in>{..<length (rs_requests s)} - fst ` set (rs_settled s).
         \<exists>due. rq_due (rs_requests s ! n) = Some due \<and>
           (\<forall>now\<in>{due..}. n \<in> fst ` set (rs_settled (rt_step gen valid (now, RequestTimeout n) s))))"
proof -
  define s where "s = fold (rt_step gen valid) es (new_client t config me)"
  have ok: "requests_ok s"
    unfolding s_def by (rule requests_run [OF requests_new])
  have "\<exists>due. rq_due (rs_requests s ! n) = Some due \<and>
      (\<forall>now\<in>{due..}. n \<in> fst ` set (rs_settled (rt_step gen valid (now, RequestTimeout n) s)))"
    if n: "n < length (rs_requests s)" "n \<notin> fst ` set (rs_settled s)" for n
  proof -
    obtain due where due: "rq_due (rs_requests s ! n) = Some due"
      using requests_okD(2) [OF ok, of n] n by (auto simp: unsettled_def)
    have "n \<in> fst ` set (rs_settled (rt_step gen valid (now, RequestTimeout n) s))" if "due \<le> now" for now
      using grow.keep_microtasks [of "request_timed_out n s" now gen valid] that n due
      by (auto simp: rt_step_def settled_grows_def request_timed_out_def)
    then show ?thesis
      using due by auto
  qed
  then show ?thesis
    unfolding s_def [symmetric] Let_def using requests_okD(1,2) [OF ok] by auto
qed

text \<open>The hello request is open, and its timer settles it.\<close>

lemma requests_settle_once_witness:
  "let s = fold (rt_step sample_uuid (\<lambda>_. True)) (take 4 sample_connect) (new_client 0 sample_config ''me'')
   in distinct (map fst (rs_settled s)) \<and> fst ` set (rs_settled s) \<subseteq> {..<length (rs_requests s)} \<and>
      (\<forall>n\<in>{..<length (rs_requests s)} - fst ` set (rs_settled s).
         \<exists>due. rq_due (rs_requests s ! n) = Some due \<and>
           (\<forall>now\<in>{due..}. n \<in> fst ` set (rs_settled (rt_step sample_uuid (\<lambda>_. True) (now, RequestTimeout n) s)))) \<and>
      0 \<in> {..<length (rs_requests s)} - fst ` set (rs_settled s)"
proof -
  let ?s = "fold (rt_step sample_uuid (\<lambda>_. True)) (take 4 sample_connect) (new_client 0 sample_config ''me'')"
  have "length (rs_requests ?s) = 1 \<and> rs_settled ?s = []"
    by code_simp
  then show ?thesis
    using requests_settle_once [of sample_uuid "\<lambda>_. True" "take 4 sample_connect" 0 sample_config "''me''"]
    by (auto simp: Let_def)
qed

end
