(* ===== verification/Realtime_Reconnect.thy ===== *)
theory Realtime_Reconnect
  imports Realtime_Order
begin

text \<open>
  Reconnection of the realtime client: the bounds of its delay, what a failed attempt leaves behind, and calls of
  \<open>disconnect\<close> while an attempt is under way.
\<close>

text \<open>
  The reconnection delay lies between the smaller of the two configured delays and the maximal one, does not decrease with the number of
  attempts and, when the initial delay is positive, reaches the maximum.
\<close>

theorem reconnect_delay_bounds:
  fixes config :: socket_config
  defines "initial \<equiv> nullish (Option.bind (sc_reconnect config) rc_initialDelayMs) 1000"
    and "cap \<equiv> nullish (Option.bind (sc_reconnect config) rc_maxDelayMs) 30000"
  assumes "0 < initial" "m \<le> n"
  shows "min initial cap \<le> reconnect_delay config m \<and> reconnect_delay config m \<le> reconnect_delay config n \<and>
    reconnect_delay config n \<le> cap \<and> reconnect_delay config (nat cap) = cap"
proof -
  have 1: "initial * 1 \<le> initial * 2 ^ k" for k :: nat
    using assms(3) by (intro mult_left_mono) simp_all
  have 2: "initial * 2 ^ m \<le> initial * 2 ^ n"
    using assms(3,4) by (intro mult_left_mono) (simp_all add: power_increasing)
  have "int (nat cap) \<le> 2 ^ nat cap"
    using of_nat_mono [OF less_imp_le [OF less_exp [of "nat cap"]], where 'a = int] by simp
  moreover have "1 * 2 ^ nat cap \<le> initial * 2 ^ nat cap"
    using assms(3) by (intro mult_right_mono) simp_all
  ultimately have 3: "cap \<le> initial * 2 ^ nat cap"
    by linarith
  show ?thesis
    using 1 [of m] 2 3 unfolding reconnect_delay_def Let_def initial_def [symmetric] cap_def [symmetric] by auto
qed

lemma reconnect_delay_bounds_witness:
  "min (nullish (Option.bind (sc_reconnect sample_config) rc_initialDelayMs) 1000)
       (nullish (Option.bind (sc_reconnect sample_config) rc_maxDelayMs) 30000) \<le> reconnect_delay sample_config 2 \<and>
   reconnect_delay sample_config 2 \<le> reconnect_delay sample_config 7 \<and>
   reconnect_delay sample_config 7 \<le> nullish (Option.bind (sc_reconnect sample_config) rc_maxDelayMs) 30000 \<and>
   reconnect_delay sample_config (nat (nullish (Option.bind (sc_reconnect sample_config) rc_maxDelayMs) 30000)) =
     nullish (Option.bind (sc_reconnect sample_config) rc_maxDelayMs) 30000"
  by (rule reconnect_delay_bounds) (simp_all add: sample_config_def nullish_def)

subsection \<open>A failed attempt\<close>

definition idle_ws :: "web_socket \<Rightarrow> bool" where
  "idle_ws w \<longleftrightarrow> ws_listeners w = NoListeners \<or> ws_readyState w = WS_CLOSED"

definition abandoned :: "'p rt_client \<Rightarrow> bool" where
  "abandoned s \<longleftrightarrow> rs_phase s = None \<and> rs_reconnectTimer s = None \<and> rs_microtasks s = [] \<and> list_all idle_ws (rs_sockets s)"

text \<open>The relation of the operations that neither connect nor attach listeners, and settle promises by errors only.\<close>

definition calm :: "'p rt_client \<Rightarrow> 'p rt_client \<Rightarrow> bool" where
  "calm s s' \<longleftrightarrow> rs_phase s' = rs_phase s \<and> rs_reconnectTimer s' = rs_reconnectTimer s \<and>
     length (rs_sockets s') = length (rs_sockets s) \<and> (list_all idle_ws (rs_sockets s) \<longrightarrow> list_all idle_ws (rs_sockets s')) \<and>
     (\<exists>xs. rs_microtasks s' = rs_microtasks s @ xs \<and> list_all (\<lambda>x. isl (snd x)) xs)"

lemma calm_trans: "calm s t \<Longrightarrow> calm t u \<Longrightarrow> calm s u"
  by (fastforce simp: calm_def)

lemma calm_same:
  "rs_phase s' = rs_phase s \<Longrightarrow> rs_reconnectTimer s' = rs_reconnectTimer s \<Longrightarrow> rs_sockets s' = rs_sockets s \<Longrightarrow>
   rs_microtasks s' = rs_microtasks s \<Longrightarrow> calm s s'"
  by (simp add: calm_def)

lemma calm_refl [simp]: "calm s s"
  by (simp add: calm_same)

lemma calm_upd_socket: "(\<And>w. idle_ws w \<Longrightarrow> idle_ws (f w)) \<Longrightarrow> calm s (upd_socket i f s)"
  by (auto simp: calm_def upd_socket_def list_all_length nth_list_update)

lemma calm_settle: "calm s (settle n (Inl e) (s\<lparr>rs_pending := p\<rparr>))"
  by (simp add: calm_def settle_def)

lemma calm_notify:
  "calm s (updateConnectionSnapshot now f s)" "calm s (set_subscription key v s)" "calm s (notifySubscriptionListeners s)"
  by (simp_all add: calm_same updateConnectionSnapshot_def notifyConnectionListeners_def set_subscription_def
      notifySubscriptionListeners_def)

lemma calm_close_socket: "calm s (close_socket s)"
  by (auto simp: close_socket_def close_ws_def idle_ws_def split: option.split intro!: calm_upd_socket)

lemma calm_protocolError: "calm s (handleProtocolError now code m s)"
  unfolding handleProtocolError_def by (rule calm_trans [OF calm_notify(1) calm_close_socket])

lemma calm_ws_send: "calm s (ws_send m s)"
  by (auto simp: ws_send_def idle_ws_def split: option.split intro!: calm_upd_socket)

lemma calm_sendWithAck: "sendWithAck now k m s = Inr s' \<Longrightarrow> calm s s'"
  by (auto simp: sendWithAck_def split: option.splits if_splits intro!: calm_trans [OF _ calm_ws_send] calm_same)

lemma calm_fold: "(\<And>x s. calm s (f x s)) \<Longrightarrow> calm s (fold f xs s)"
  by (induction xs arbitrary: s) (simp_all, metis calm_trans)

lemma calm_reject: "calm s (rejectPendingRequests err s)"
  unfolding rejectPendingRequests_def by (rule calm_fold) (simp add: reject_pending_def calm_settle split: prod.split)

lemma calm_registerTopics: "calm s (registerTopics now ts s)"
  unfolding registerTopics_def
  by (rule calm_trans [OF _ calm_notify(3)], rule calm_trans [OF _ calm_fold])
    (simp_all add: calm_same register_topic_def Let_def)

lemma calm_subscribe_all: "calm s (snd (subscribe_all now gen k ts s))"
proof (induction ts arbitrary: s)
  case (Cons t ts)
  have "calm s s2" if "sendWithAck now k m (s\<lparr>rs_uuids := n\<rparr>) = Inr s2" for m n s2
    by (rule calm_trans [OF _ calm_sendWithAck [OF that]]) (simp add: calm_same)
  then have "calm s (snd (subscribe_one now gen k t s))"
    by (auto simp: subscribe_one_def fresh_uuid_def Let_def calm_same split: sum.split)
  then show ?case
    using Cons by (auto split: prod.split option.split) (metis calm_trans snd_conv)+
qed simp

lemma calm_ensureSubscriptions: "calm s (snd (ensureSubscriptions now gen k ts s))"
proof -
  obtain r t where a: "subscribe_all now gen k ts (registerTopics now ts s) = (r, t)"
    by fastforce
  have "calm s t"
    using calm_trans [OF calm_registerTopics calm_subscribe_all] a by (metis snd_conv)
  then show ?thesis
    using calm_registerTopics [of s now ts] by (auto simp: ensureSubscriptions_def Let_def a split: option.split)
qed

lemma calm_send: "calm s (after_call s (rt_send now valid m s))"
proof (cases "rt_send now valid m s")
  case (Inr s')
  then have "sendWithAck now ThenClient m s = Inr s'"
    by (simp add: rt_send_def split: if_splits option.splits)
  then show ?thesis
    by (simp add: Inr calm_sendWithAck)
qed simp

lemma calm_ping: "calm s (ping_elapsed now gen s)"
proof -
  have "calm s (s3\<lparr>rs_pingTimer := p\<rparr>)" if "sendWithAck now k m (s\<lparr>rs_pingTimer := q, rs_uuids := n\<rparr>) = Inr s3" for s3 k m p q n
    by (rule calm_trans [OF calm_trans [OF _ calm_sendWithAck [OF that]]]) (simp_all add: calm_same)
  then show ?thesis
    by (auto simp: ping_elapsed_def fresh_uuid_def Let_def calm_same split: option.split sum.split)
qed

lemma calm_heartbeat: "calm s (heartbeat_elapsed_at now h s)"
  by (auto simp: heartbeat_elapsed_at_def Let_def calm_same split: option.split intro!: calm_trans [OF _ calm_protocolError])

lemma calm_disconnect: "rs_reconnectTimer s = None \<Longrightarrow> calm s (rt_disconnect now s)"
proof -
  assume n: "rs_reconnectTimer s = None"
  let ?s1 = "clearHeartbeatTimers (clearReconnectTimer (s\<lparr>rs_manuallyClosed := True\<rparr>))"
  let ?s2 = "close_socket (rejectPendingRequests ''Realtime socket disconnected'' ?s1)"
  have "calm s ?s1"
    using n by (simp add: calm_same clearHeartbeatTimers_def clearReconnectTimer_def)
  then have "calm s ?s2"
    by (rule calm_trans [OF calm_trans [OF _ calm_reject] calm_close_socket])
  then have "calm s (?s2\<lparr>rs_socket := None\<rparr>)"
    by (rule calm_trans) (simp add: calm_same)
  then show ?thesis
    unfolding rt_disconnect_def Let_def by (rule calm_trans [OF _ calm_notify(1)])
qed

lemma calm_handshake_over: "rs_phase s = None \<Longrightarrow> calm s (handshake_over i (Some e) s)"
  by (simp add: handshake_over_def Let_def upd_socket_def calm_def list_all_length nth_list_update idle_ws_def)

text \<open>The events of the host and the calls other than \<open>connect\<close> and \<open>ingestServerMessage\<close>.\<close>

fun unasked :: "'p rt_event \<Rightarrow> bool" where
  "unasked Connect = False"
| "unasked (Ingest m) = False"
| "unasked _ = True"

lemma calm_handle:
  assumes a: "abandoned s" and p: "unasked e"
  shows "calm s (rt_handle gen valid now e s)"
proof (cases e)
  case (SocketOpen i)
  have "calm s (upd_socket i (\<lambda>w. w\<lparr>ws_readyState := WS_OPEN\<rparr>) s)"
    if "ws_listeners (rs_sockets s ! i) = NoListeners" "i < length (rs_sockets s)"
    using that by (auto simp: calm_def upd_socket_def list_all_length nth_list_update idle_ws_def)
  moreover have "ws_listeners (rs_sockets s ! i) = NoListeners"
    if "i < length (rs_sockets s)" "ws_readyState (rs_sockets s ! i) = WS_CONNECTING"
    using a that by (auto simp: abandoned_def list_all_length idle_ws_def)
  ultimately show ?thesis
    by (auto simp: SocketOpen on_socket_open_def the_socket_def Let_def)
next
  case (SocketMessage i r)
  have "ws_listeners (rs_sockets s ! i) = NoListeners" if "i < length (rs_sockets s)" "ws_readyState (rs_sockets s ! i) = WS_OPEN"
    using a that by (auto simp: abandoned_def list_all_length idle_ws_def)
  then show ?thesis
    by (auto simp: SocketMessage on_socket_message_def the_socket_def)
next
  case (SocketError i)
  then show ?thesis
    using a by (auto simp: on_socket_error_def abandoned_def calm_handshake_over calm_notify split: option.split socket_listeners.split)
next
  case (SocketClose i)
  have "ws_listeners (rs_sockets s ! i) = NoListeners" if "i < length (rs_sockets s)" "ws_readyState (rs_sockets s ! i) \<noteq> WS_CLOSED"
    using a that by (auto simp: abandoned_def list_all_length idle_ws_def)
  moreover have "calm s (upd_socket i (\<lambda>w. w\<lparr>ws_readyState := WS_CLOSED\<rparr>) s)"
    by (rule calm_upd_socket) (simp add: idle_ws_def)
  ultimately show ?thesis
    by (auto simp: SocketClose on_socket_close_def the_socket_def Let_def)
next
  case (RequestTimeout n)
  then show ?thesis
    by (auto simp: request_timed_out_def calm_settle split: option.split)
qed (use a p in \<open>auto simp: abandoned_def calm_disconnect calm_send calm_ensureSubscriptions calm_ping calm_heartbeat
      clearResumeState_def calm_same cursors_loaded_def ticket_resolved_def split: option.split\<close>)

text \<open>What then follows the rejected promises.\<close>

lemma failure_continues:
  assumes "rs_phase s = None" "isl (snd c)"
  shows "calm s (continue_with now gen valid c s) \<and> rs_microtasks (continue_with now gen valid c s) = rs_microtasks s"
proof -
  obtain k e where c: "c = (k, Inl e)"
    using assms(2) by (cases c; cases "snd c") auto
  have "calm s (continue_with now gen valid c s)"
    using assms(1) by (cases k) (auto simp: c continue_with_def calm_handshake_over calm_protocolError)
  moreover have "rs_microtasks (continue_with now gen valid c s) = rs_microtasks s"
    using assms(1)
    by (cases k) (auto simp: c continue_with_def handshake_over_def Let_def upd_socket_def
        handleProtocolError_def close_socket_def updateConnectionSnapshot_def notifyConnectionListeners_def split: option.split)
  ultimately show ?thesis
    by simp
qed

lemma failures_continue:
  "rs_phase s = None \<Longrightarrow> list_all (\<lambda>c. isl (snd c)) cs \<Longrightarrow>
   calm s (fold (continue_with now gen valid) cs s) \<and> rs_microtasks (fold (continue_with now gen valid) cs s) = rs_microtasks s"
proof (induction cs arbitrary: s)
  case (Cons c cs)
  let ?t = "continue_with now gen valid c s"
  have 1: "calm s ?t" "rs_microtasks ?t = rs_microtasks s"
    using failure_continues [of s c now gen valid] Cons.prems by simp_all
  then have "rs_phase ?t = None"
    using Cons.prems by (simp add: calm_def)
  then show ?case
    using Cons.IH [of ?t] Cons.prems 1 by (auto intro: calm_trans)
qed simp

lemma abandoned_step:
  assumes "abandoned s" "unasked (snd e)"
  shows "abandoned (rt_step gen valid e s) \<and> length (rs_sockets (rt_step gen valid e s)) = length (rs_sockets s)"
proof -
  obtain now ev where e: "e = (now, ev)" by fastforce
  let ?t = "rt_handle gen valid now ev s"
  let ?u = "?t\<lparr>rs_microtasks := []\<rparr>"
  have c: "calm s ?t"
    using calm_handle [OF assms(1)] assms(2) e by simp
  then have m: "list_all (\<lambda>c. isl (snd c)) (rs_microtasks ?t)" and t: "rs_phase ?u = None" "rs_reconnectTimer ?u = None"
      "list_all idle_ws (rs_sockets ?u)" "length (rs_sockets ?u) = length (rs_sockets s)"
    using assms(1) by (auto simp: calm_def abandoned_def)
  show ?thesis
    using failures_continue [OF t(1) m, of now gen valid] t
    unfolding rt_step_def e run_microtasks_def by (auto simp: calm_def abandoned_def)
qed

text \<open>When an attempt to connect fails before there is a socket (here: no ticket), the client gives up, whatever its
  reconnection settings: however long it waits, and whatever the host and its users do short of calling \<open>connect\<close>, it opens no socket again.
\<close>

theorem failed_attempt_is_final:
  assumes "rs_phase s = Some ResolvingTicket" "rs_reconnectTimer s = None" "rs_microtasks s = []" "list_all idle_ws (rs_sockets s)"
    and "list_all (\<lambda>e. unasked (snd e)) es"
  shows "let t = fold (rt_step gen valid) es (rt_step gen valid (now, TicketResolved (Inl err)) s)
         in length (rs_sockets t) = length (rs_sockets s) \<and> rs_phase t = None \<and> rs_reconnectTimer t = None"
proof -
  let ?s1 = "rt_step gen valid (now, TicketResolved (Inl err)) s"
  have 1: "abandoned ?s1" "length (rs_sockets ?s1) = length (rs_sockets s)"
    using assms(1-4) by (simp_all add: rt_step_def ticket_resolved_def connect_settles_def run_microtasks_def abandoned_def)
  have "abandoned (fold (rt_step gen valid) es t) \<and> length (rs_sockets (fold (rt_step gen valid) es t)) = length (rs_sockets t)"
    if "abandoned t" for t :: "'a rt_client"
    using that assms(5)
  proof (induction es arbitrary: t)
    case (Cons e es)
    then show ?case
      using abandoned_step [of t e gen valid] Cons.IH [of "rt_step gen valid e t"] by simp
  qed simp
  from this [OF 1(1)] show ?thesis
    using 1(2) by (simp add: Let_def abandoned_def)
qed

text \<open>A connection is lost, the client waits its second, and the ticket service is not there.\<close>

definition lost_connection :: "nat rt_client" where
  "lost_connection = fold (rt_step sample_uuid (\<lambda>_. True))
     (sample_connect @ [(10, SocketClose 0), (1010, ReconnectElapsed), (1010, CursorsLoaded (Inr None))]) sample_client"

lemma failed_attempt_is_final_witness:
  "let t = fold (rt_step sample_uuid (\<lambda>_. True)) [(5000, ReconnectElapsed), (60000, PingElapsed), (90000, Disconnect)]
             (rt_step sample_uuid (\<lambda>_. True) (1011, TicketResolved (Inl ''503'')) lost_connection)
   in length (rs_sockets t) = length (rs_sockets lost_connection) \<and> rs_phase t = None \<and> rs_reconnectTimer t = None"
proof (rule failed_attempt_is_final)
  show "rs_phase lost_connection = Some ResolvingTicket" "rs_reconnectTimer lost_connection = None"
    "rs_microtasks lost_connection = []" "list_all idle_ws (rs_sockets lost_connection)"
    by code_simp+
qed simp

subsection \<open>Disconnecting\<close>

lemma reject_fold_fields:
  "rs_phase (fold (reject_pending err) xs u) = rs_phase u \<and> rs_sockets (fold (reject_pending err) xs u) = rs_sockets u \<and>
   rs_socket (fold (reject_pending err) xs u) = rs_socket u \<and> rs_config (fold (reject_pending err) xs u) = rs_config u \<and>
   rs_manuallyClosed (fold (reject_pending err) xs u) = rs_manuallyClosed u \<and>
   rs_reconnectAttempts (fold (reject_pending err) xs u) = rs_reconnectAttempts u"
  by (induction xs arbitrary: u) (simp_all add: reject_pending_def settle_def split: prod.split)

lemma reject_fold_pending:
  "rs_pending (fold (reject_pending err) xs u) = filter (\<lambda>e. fst e \<notin> fst ` set xs) (rs_pending u)"
proof (induction xs arbitrary: u)
  case (Cons x xs)
  show ?case
    unfolding fold_simps Cons
    by (cases x) (simp add: reject_pending_def settle_def jm_delete_def conj_commute)
qed simp

lemma reject_fields [simp]:
  "rs_phase (rejectPendingRequests err u) = rs_phase u" "rs_sockets (rejectPendingRequests err u) = rs_sockets u"
  "rs_socket (rejectPendingRequests err u) = rs_socket u" "rs_config (rejectPendingRequests err u) = rs_config u"
  "rs_manuallyClosed (rejectPendingRequests err u) = rs_manuallyClosed u"
  "rs_reconnectAttempts (rejectPendingRequests err u) = rs_reconnectAttempts u"
  "rs_pending (rejectPendingRequests err u) = []"
  by (simp_all add: rejectPendingRequests_def reject_fold_fields reject_fold_pending filter_empty_conv)

text \<open>\<open>disconnect\<close> does not stop an attempt that waits for its ticket: when the ticket comes, the client opens a socket all the same, and
  the handshake goes on, although the client has been closed by its user.
\<close>

theorem disconnect_does_not_stop_connecting:
  assumes "rs_phase s = Some ResolvingTicket"
  shows "let t = ticket_resolved (Inr (url, protocols)) (rt_disconnect now s); i = length (rs_sockets s)
         in rs_manuallyClosed t \<and> getStatus t = RT_CLOSED \<and> rs_socket t = Some i \<and> rs_phase t = Some (Handshaking i) \<and>
            the_socket i t = Some \<lparr>ws_readyState = WS_CONNECTING, ws_listeners = HandshakeListeners, ws_url = url,
                                   ws_protocols = protocols, ws_sent = []\<rparr>"
proof -
  let ?t = "rt_disconnect now s"
  have "rs_phase ?t = rs_phase s \<and> length (rs_sockets ?t) = length (rs_sockets s) \<and> rs_manuallyClosed ?t \<and> getStatus ?t = RT_CLOSED"
    by (simp add: rt_disconnect_def Let_def updateConnectionSnapshot_def notifyConnectionListeners_def getStatus_def
        close_socket_def upd_socket_def clearHeartbeatTimers_def clearReconnectTimer_def split: option.split)
  then show ?thesis
    using assms by (auto simp: ticket_resolved_def Let_def the_socket_def getStatus_def nth_append)
qed

lemma disconnect_does_not_stop_connecting_witness:
  "let t = ticket_resolved (Inr (''wss://x'', None)) (rt_disconnect 1012 lost_connection); i = length (rs_sockets lost_connection)
   in rs_manuallyClosed t \<and> getStatus t = RT_CLOSED \<and> rs_socket t = Some i \<and> rs_phase t = Some (Handshaking i) \<and>
      the_socket i t = Some \<lparr>ws_readyState = WS_CONNECTING, ws_listeners = HandshakeListeners, ws_url = ''wss://x'',
                             ws_protocols = None, ws_sent = []\<rparr>"
  by (rule disconnect_does_not_stop_connecting) code_simp

text \<open>
  The close event of a socket that has been replaced is taken for that of the current one: after \<open>disconnect\<close> and \<open>connect\<close>, the late close
  of the old socket drops the new one, rejects its pending requests and schedules a reconnection.
\<close>

theorem stale_close_drops_connection:
  assumes "the_socket i s = Some w" "ws_listeners w = ReadyListeners" "ws_readyState w = WS_CLOSING"
    and "rs_socket s = Some j" "j \<noteq> i" "\<not> rs_manuallyClosed s" "sc_reconnect (rs_config s) = None"
  shows "rs_socket (on_socket_close now i s) = None \<and> rs_pending (on_socket_close now i s) = [] \<and>
    getStatus (on_socket_close now i s) = RT_RECONNECTING \<and>
    rs_reconnectTimer (on_socket_close now i s) = Some (now + reconnect_delay (rs_config s) (rs_reconnectAttempts s)) \<and>
    the_socket j (on_socket_close now i s) = the_socket j s"
proof -
  have i: "i < length (rs_sockets s)" "rs_sockets s ! i = w"
    using assms(1) by (simp_all add: the_socket_def split: if_splits)
  let ?u = "upd_socket i (\<lambda>w. w\<lparr>ws_readyState := WS_CLOSED\<rparr>) s"
  have c: "on_socket_close now i s = on_ready_close now ?u"
    using assms(1-3) by (simp add: on_socket_close_def Let_def)
  have u: "rs_manuallyClosed ?u = rs_manuallyClosed s" "rs_config ?u = rs_config s"
      "rs_reconnectAttempts ?u = rs_reconnectAttempts s" "the_socket j ?u = the_socket j s"
    using i assms(5) by (simp_all add: upd_socket_def the_socket_def)
  define v where "v = updateConnectionSnapshot now (\<lambda>c. c\<lparr>cn_state := RT_CLOSED, cn_connectionId := None\<rparr>)
      (rejectPendingRequests ''Realtime socket closed'' (clearHeartbeatTimers (?u\<lparr>rs_socket := None\<rparr>)))"
  have v: "rs_socket v = None" "rs_pending v = []" "rs_config v = rs_config s" "rs_reconnectAttempts v = rs_reconnectAttempts s"
      "rs_sockets v = rs_sockets ?u" "rs_manuallyClosed v = rs_manuallyClosed s"
    by (simp_all add: v_def updateConnectionSnapshot_def notifyConnectionListeners_def clearHeartbeatTimers_def u)
  have "on_ready_close now ?u = scheduleReconnect now v"
    using assms(6) v(6) by (simp add: on_ready_close_def Let_def v_def [symmetric])
  moreover have "the_socket j (scheduleReconnect now v) = the_socket j v"
    by (simp add: scheduleReconnect_def Let_def updateConnectionSnapshot_def notifyConnectionListeners_def the_socket_def)
  moreover have "the_socket j v = the_socket j s"
    using u(4) unfolding the_socket_def v(5) .
  moreover have "rs_socket (scheduleReconnect now v) = None \<and> rs_pending (scheduleReconnect now v) = [] \<and>
      getStatus (scheduleReconnect now v) = RT_RECONNECTING \<and>
      rs_reconnectTimer (scheduleReconnect now v) = Some (now + reconnect_delay (rs_config s) (rs_reconnectAttempts s))"
    using assms(7) v(1-4)
    by (simp add: scheduleReconnect_def Let_def updateConnectionSnapshot_def notifyConnectionListeners_def getStatus_def)
  ultimately show ?thesis
    unfolding c by simp
qed

text \<open>The old socket is closing, the user has connected again, and the new socket is in its handshake.\<close>

definition replaced_connection :: "nat rt_client" where
  "replaced_connection = fold (rt_step sample_uuid (\<lambda>_. True))
     (sample_connect @ [(10, Disconnect), (10, Connect), (10, CursorsLoaded (Inr None)), (11, TicketResolved (Inr (''wss://x'', None))),
        (12, SocketOpen 1)]) sample_client"

lemma stale_close_drops_connection_witness:
  "rs_socket (on_socket_close 13 0 replaced_connection) = None \<and> rs_pending (on_socket_close 13 0 replaced_connection) = [] \<and>
    getStatus (on_socket_close 13 0 replaced_connection) = RT_RECONNECTING \<and>
    rs_reconnectTimer (on_socket_close 13 0 replaced_connection) =
      Some (13 + reconnect_delay (rs_config replaced_connection) (rs_reconnectAttempts replaced_connection)) \<and>
    the_socket 1 (on_socket_close 13 0 replaced_connection) = the_socket 1 replaced_connection"
proof (rule stale_close_drops_connection)
  show "the_socket 0 replaced_connection =
    Some \<lparr>ws_readyState = WS_CLOSING, ws_listeners = ReadyListeners, ws_url = ''wss://x?ticket=1'', ws_protocols = None,
          ws_sent = [HelloMsg ''u0'' (Some ''u1'') ''1.0'' ''me'' [''resume'', ''heartbeat'', ''subscriptions''] []]\<rparr>"
    by code_simp
  show "rs_socket replaced_connection = Some 1" "\<not> rs_manuallyClosed replaced_connection"
    "sc_reconnect (rs_config replaced_connection) = None"
    by code_simp+
qed simp_all

subsection \<open>Cursors and keys\<close>

text \<open>
  \<open>doConnect\<close> replaces the cursors by the stored ones. Without a store (or with \<open>persistCursors\<close> off) they are gone after every
  reconnection: nothing is resumed, and a message may be delivered again.
\<close>

lemma reconnection_forgets_cursors:
  "delivered 0 ''orders::t'' (rs_calls (fold (rt_step sample_uuid (\<lambda>_. True))
     (sample_connect @ sample_messages [5, 6] @
      [(10, SocketClose 0), (1010, ReconnectElapsed), (1010, CursorsLoaded (Inr None)), (1011, TicketResolved (Inr (''wss://x'', None))),
       (1012, SocketOpen 1), (1013, SocketMessage 1 (Inr (HelloAck (sample_hello 5)))),
       (1014, SocketMessage 1 (Inr (Data (sample_data False 5))))]) sample_client)) = [5, 6, 5]"
  by code_simp

text \<open>Keys of different topics may be the same.\<close>

lemma topic_key_collision:
  "resolveTopicKey (b @ ''::'' @ c) a = resolveTopicKey c (a @ ''::'' @ b)"
  by (simp add: resolveTopicKey_def)

end
