(* ===== verification/Realtime_Types.thy ===== *)
theory Realtime_Types
  imports Realtime_Order
begin

text \<open>
  The messages the realtime client sends conform to the schema of the protocol. Only \<open>sendFireAndForget\<close> and the
  public \<open>send\<close> validate; hello, subscriptions and pings are built and sent as they are. The invariant below is what
  makes them conform.
\<close>

definition messages_ok :: "web_socket \<Rightarrow> bool" where
  "messages_ok w = list_all clientMessageSchema (ws_sent w)"

definition well_typed :: "'p rt_client \<Rightarrow> bool" where
  "well_typed s \<longleftrightarrow> list_all messages_ok (rs_sockets s) \<and> list_all (\<lambda>(k, c). topicCursorSchema c) (rs_cursors s) \<and>
     list_all (\<lambda>(k, t). topicDescriptorSchema t) (rs_desiredTopics s) \<and> nonEmptyString (rs_clientInstanceId s) \<and>
     nonEmptyString (nullish (sc_protocolVersion (rs_config s)) ''1.0'')"

definition nonempty_ids :: "(nat \<Rightarrow> string) \<Rightarrow> bool" where
  "nonempty_ids gen \<longleftrightarrow> (\<forall>n. nonEmptyString (gen n))"

text \<open>The relation of the operations that keep this, for arguments that conform.\<close>

definition keeps_types :: "'p rt_client \<Rightarrow> 'p rt_client \<Rightarrow> bool" where
  "keeps_types s s' \<longleftrightarrow> (well_typed s \<longrightarrow> well_typed s')"

lemma types_trans: "keeps_types s t \<Longrightarrow> keeps_types t u \<Longrightarrow> keeps_types s u"
  by (simp add: keeps_types_def)

lemma types_same:
  "rs_sockets s' = rs_sockets s \<Longrightarrow> rs_cursors s' = rs_cursors s \<Longrightarrow> rs_desiredTopics s' = rs_desiredTopics s \<Longrightarrow>
   rs_clientInstanceId s' = rs_clientInstanceId s \<Longrightarrow> rs_config s' = rs_config s \<Longrightarrow> keeps_types s s'"
  by (simp add: keeps_types_def well_typed_def)

lemma types_refl [simp]: "keeps_types s s"
  by (simp add: keeps_types_def)

lemma types_upd_socket: "(\<And>w. messages_ok w \<Longrightarrow> messages_ok (f w)) \<Longrightarrow> keeps_types s (upd_socket i f s)"
  by (auto simp: keeps_types_def well_typed_def upd_socket_def list_all_length nth_list_update)

lemma types_notify:
  "keeps_types s (updateConnectionSnapshot now f s)" "keeps_types s (set_subscription key v s)"
  "keeps_types s (notifySubscriptionListeners s)" "keeps_types s (notifyMessageListeners m s)"
  by (simp_all add: types_same updateConnectionSnapshot_def notifyConnectionListeners_def set_subscription_def
      notifySubscriptionListeners_def notifyMessageListeners_def)

lemma types_settle: "keeps_types s (settle n r (s\<lparr>rs_pending := p\<rparr>))"
  by (simp add: types_same settle_def)

lemma types_fold: "(\<And>x s. keeps_types s (f x s)) \<Longrightarrow> keeps_types s (fold f xs s)"
  by (induction xs arbitrary: s) (simp_all, metis types_trans)

lemma types_requests: "keeps_types s (resolvePendingRequest r m s)" "keeps_types s (rejectPendingRequests err s)"
    "keeps_types s (request_timed_out n s)"
proof -
  show "keeps_types s (rejectPendingRequests err s)"
    unfolding rejectPendingRequests_def by (rule types_fold) (simp add: reject_pending_def types_settle split: prod.split)
qed (simp_all add: resolvePendingRequest_def request_timed_out_def types_settle split: option.split)

lemma types_close_socket: "keeps_types s (close_socket s)"
  by (auto simp: close_socket_def close_ws_def messages_ok_def split: option.split intro!: types_upd_socket)

lemma types_protocolError: "keeps_types s (handleProtocolError now code m s)"
  unfolding handleProtocolError_def by (rule types_trans [OF types_notify(1) types_close_socket])

lemma types_ws_send: "clientMessageSchema m \<Longrightarrow> keeps_types s (ws_send m s)"
  by (auto simp: ws_send_def messages_ok_def split: option.split intro!: types_upd_socket)

lemma types_sendWithAck: "clientMessageSchema m \<Longrightarrow> sendWithAck now k m s = Inr s' \<Longrightarrow> keeps_types s s'"
  by (auto simp: sendWithAck_def split: option.splits if_splits intro!: types_trans [OF _ types_ws_send] types_same)

lemma types_sendFireAndForget: "sendFireAndForget clientMessageSchema m s = Inr s' \<Longrightarrow> keeps_types s s'"
  by (auto simp: sendFireAndForget_def types_ws_send split: if_splits)

lemma types_send: "keeps_types s (after_call s (rt_send now clientMessageSchema m s))"
proof (cases "rt_send now clientMessageSchema m s")
  case (Inr s')
  then have "sendWithAck now ThenClient m s = Inr s'" "clientMessageSchema m"
    by (simp_all add: rt_send_def split: if_splits option.splits)
  then show ?thesis
    by (simp add: Inr types_sendWithAck)
qed simp

lemma types_field: "keeps_types s (s\<lparr>rs_uuids := n\<rparr>)" "keeps_types s (s\<lparr>rs_stored := st\<rparr>)" "keeps_types s (s\<lparr>rs_phase := p\<rparr>)"
  by (simp_all add: types_same)

lemmas types_uuid = types_field(1)

lemma jm_set_all: "list_all (\<lambda>(k, v). P v) m \<Longrightarrow> P v \<Longrightarrow> list_all (\<lambda>(k, v). P v) (jm_set k v m)"
  by (induction m rule: jm_set.induct [of _ k v]) auto

lemma types_registerTopics:
  assumes "list_all topicDescriptorSchema ts"
  shows "keeps_types s (registerTopics now ts s)"
proof -
  have one: "keeps_types s (register_topic now t s)" if "topicDescriptorSchema t" for t and s :: "'a rt_client"
    using that by (simp add: keeps_types_def well_typed_def register_topic_def Let_def jm_set_all)
  have "keeps_types s (fold (register_topic now) ts s)" for s :: "'a rt_client"
    using assms by (induction ts arbitrary: s) (auto intro: types_trans [OF one])
  moreover have "keeps_types s (s\<lparr>rs_desiredTopics := []\<rparr>)"
    by (simp add: keeps_types_def well_typed_def)
  ultimately show ?thesis
    unfolding registerTopics_def by (meson types_trans types_notify(3))
qed

lemma types_subscribe_all:
  assumes "nonempty_ids gen" "list_all topicDescriptorSchema ts"
  shows "keeps_types s (snd (subscribe_all now gen k ts s))"
  using assms(2)
proof (induction ts arbitrary: s)
  case (Cons t ts)
  have "keeps_types s s2"
    if "sendWithAck now k (SubscribeMsg (gen i) (Some (gen j)) [t]) (s\<lparr>rs_uuids := n\<rparr>) = Inr s2" for i j n s2
    by (rule types_trans [OF types_uuid types_sendWithAck [OF _ that]]) (use Cons.prems assms(1) in \<open>simp add: optional_def nonempty_ids_def\<close>)
  then have "keeps_types s (snd (subscribe_one now gen k t s))"
    by (auto simp: subscribe_one_def fresh_uuid_def Let_def types_uuid split: sum.split)
  then show ?case
    using Cons by (auto split: prod.split option.split) (metis types_trans snd_conv)+
qed simp

lemma types_ensureSubscriptions:
  assumes "nonempty_ids gen" "list_all topicDescriptorSchema ts"
  shows "keeps_types s (snd (ensureSubscriptions now gen k ts s))"
proof -
  obtain r t where a: "subscribe_all now gen k ts (registerTopics now ts s) = (r, t)"
    by fastforce
  have "keeps_types (registerTopics now ts s) (snd (subscribe_all now gen k ts (registerTopics now ts s)))"
    by (rule types_subscribe_all [OF assms])
  then have "keeps_types s t"
    using types_trans [OF types_registerTopics [OF assms(2), of s now]] a by simp
  then show ?thesis
    using types_registerTopics [OF assms(2), of s now] by (auto simp: ensureSubscriptions_def Let_def a split: option.split)
qed

lemma types_handshake_over: "keeps_types s (handshake_over i r s)"
proof -
  have 1: "keeps_types s (upd_socket i (\<lambda>w. w\<lparr>ws_listeners := f w\<rparr>) s)" for f
    by (rule types_upd_socket) (simp add: messages_ok_def)
  have 2: "keeps_types u (connect_settles r u)" for u :: "'a rt_client"
    by (simp add: types_same connect_settles_def)
  show ?thesis
    using 1 types_trans [OF 1 2] by (simp add: handshake_over_def Let_def)
qed

lemma types_send_hello:
  assumes "nonempty_ids gen"
  shows "keeps_types s (send_hello now gen i s)"
proof -
  have "keeps_types s s2"
    if send: "sendWithAck now (ThenHello i)
                 (HelloMsg (gen n) (Some (gen m)) (nullish (sc_protocolVersion (rs_config s)) ''1.0'') (rs_clientInstanceId s)
                    [''resume'', ''heartbeat'', ''subscriptions''] (map snd (rs_cursors s))) (s\<lparr>rs_uuids := l\<rparr>) = Inr s2" for n m l s2
  proof (cases "well_typed s")
    case True
    have "keeps_types s s2"
      by (rule types_trans [OF types_uuid types_sendWithAck [OF _ send]])
        (use True assms in \<open>auto simp: well_typed_def optional_def list_all_iff nonEmptyString_def nonempty_ids_def\<close>)
    then show ?thesis .
  qed (simp add: keeps_types_def)
  moreover have "keeps_types s (handshake_over i r (s\<lparr>rs_uuids := l\<rparr>))" for r l
    by (rule types_trans [OF types_uuid types_handshake_over])
  ultimately show ?thesis
    by (auto simp: send_hello_def fresh_uuid_def Let_def split: sum.split)
qed

lemma types_on_open:
  assumes "nonempty_ids gen"
  shows "keeps_types s (on_open now gen i s)"
  unfolding on_open_def
  by (rule types_trans [OF types_trans [OF _ types_notify(1)] types_send_hello [OF assms]]) (simp add: types_same)

lemma types_socket_open:
  assumes "nonempty_ids gen"
  shows "keeps_types s (on_socket_open now gen i s)"
proof -
  have "keeps_types s (upd_socket i (\<lambda>w. w\<lparr>ws_readyState := WS_OPEN\<rparr>) s)"
    by (rule types_upd_socket) (simp add: messages_ok_def)
  then show ?thesis
    using types_trans [OF _ types_on_open [OF assms]]
    by (auto simp: on_socket_open_def Let_def split: option.split)
qed

lemma types_startHeartbeat: "keeps_types s (startHeartbeat now n s)"
  by (simp add: types_same startHeartbeat_def clearHeartbeatTimers_def Let_def)

lemma types_send_resume: "send_resume gen clientMessageSchema a s = Inr s' \<Longrightarrow> keeps_types s s'"
  by (auto simp: send_resume_def fresh_uuid_def Let_def split: if_splits intro: types_trans [OF types_uuid types_sendFireAndForget])

lemma types_hello_answered:
  assumes "nonempty_ids gen"
  shows "keeps_types s (hello_answered now gen clientMessageSchema i m s)"
proof (cases m)
  case (HelloAck a)
  show ?thesis
  proof (cases "send_resume gen clientMessageSchema a s")
    case (Inl e)
    then show ?thesis
      by (simp add: hello_answered_def HelloAck types_handshake_over)
  next
    case (Inr s1)
    let ?s2 = "startHeartbeat now (ha_heartbeatIntervalMs a) s1"
    have q2: "keeps_types s ?s2"
      by (rule types_trans [OF types_send_resume [OF Inr] types_startHeartbeat])
    obtain r s3 where 3: "ensureSubscriptions now gen (ThenSubscribed i) (map snd (rs_desiredTopics ?s2)) ?s2 = (r, s3)"
      by fastforce
    have "keeps_types s s3"
    proof (cases "well_typed s")
      case True
      then have "list_all topicDescriptorSchema (map snd (rs_desiredTopics ?s2))"
        using q2 by (auto simp: keeps_types_def well_typed_def list_all_iff)
      then have "keeps_types ?s2 (snd (ensureSubscriptions now gen (ThenSubscribed i) (map snd (rs_desiredTopics ?s2)) ?s2))"
        by (rule types_ensureSubscriptions [OF assms])
      then show ?thesis
        using types_trans [OF q2] 3 by simp
    qed (simp add: keeps_types_def)
    moreover from this have "keeps_types s (s3\<lparr>rs_awaitedAcks := n\<rparr>)" for n
      by (rule types_trans) (simp add: types_same)
    ultimately show ?thesis
      using types_trans [OF q2 types_handshake_over] types_trans [OF _ types_handshake_over]
      by (auto simp: hello_answered_def HelloAck Inr Let_def 3 split: sum.split bool.split)
  qed
qed (simp_all add: hello_answered_def types_handshake_over)

lemma types_continue:
  assumes "nonempty_ids gen"
  shows "keeps_types s (continue_with now gen clientMessageSchema c s)"
proof -
  have "keeps_types s (subscription_answered i s)" for i
    unfolding subscription_answered_def Let_def by (auto intro!: types_trans [OF _ types_handshake_over] types_same)
  then show ?thesis
    using types_hello_answered [OF assms]
    by (cases c) (auto simp: continue_with_def types_handshake_over types_protocolError split: continuation.split sum.split)
qed

lemma types_microtasks:
  assumes "nonempty_ids gen"
  shows "keeps_types s (run_microtasks now gen clientMessageSchema s)"
  unfolding run_microtasks_def by (rule types_trans [OF _ types_fold [OF types_continue [OF assms]]]) (simp add: types_same)

lemma types_disconnect: "keeps_types s (rt_disconnect now s)"
proof -
  let ?s1 = "clearHeartbeatTimers (clearReconnectTimer (s\<lparr>rs_manuallyClosed := True\<rparr>))"
  let ?s2 = "close_socket (rejectPendingRequests ''Realtime socket disconnected'' ?s1)"
  have "keeps_types s ?s1"
    by (simp add: types_same clearHeartbeatTimers_def clearReconnectTimer_def)
  then have "keeps_types s ?s2"
    by (rule types_trans [OF types_trans [OF _ types_requests(2)] types_close_socket])
  then have "keeps_types s (?s2\<lparr>rs_socket := None\<rparr>)"
    by (rule types_trans) (simp add: types_same)
  then show ?thesis
    unfolding rt_disconnect_def Let_def by (rule types_trans [OF _ types_notify(1)])
qed

lemma types_ready_close: "keeps_types s (on_ready_close now s)"
proof -
  let ?s1 = "rejectPendingRequests ''Realtime socket closed'' (clearHeartbeatTimers (s\<lparr>rs_socket := None\<rparr>))"
  let ?s2 = "updateConnectionSnapshot now (\<lambda>c. c\<lparr>cn_state := RT_CLOSED, cn_connectionId := None\<rparr>) ?s1"
  have "keeps_types s (clearHeartbeatTimers (s\<lparr>rs_socket := None\<rparr>))"
    by (simp add: types_same clearHeartbeatTimers_def)
  then have "keeps_types s ?s2"
    by (rule types_trans [OF types_trans [OF _ types_requests(2)] types_notify(1)])
  moreover have "keeps_types u (scheduleReconnect now u)" for u :: "'a rt_client"
    by (auto simp: scheduleReconnect_def Let_def updateConnectionSnapshot_def notifyConnectionListeners_def intro: types_same)
  ultimately show ?thesis
    unfolding on_ready_close_def Let_def by (auto intro: types_trans)
qed

lemma types_socket_close: "keeps_types s (on_socket_close now i s)"
proof -
  have "keeps_types s (upd_socket i (\<lambda>w. w\<lparr>ws_readyState := WS_CLOSED\<rparr>) s)"
    by (rule types_upd_socket) (simp add: messages_ok_def)
  then show ?thesis
    using types_trans [OF _ types_handshake_over] types_trans [OF _ types_ready_close]
    by (auto simp: on_socket_close_def Let_def split: option.split socket_listeners.split)
qed

lemma types_ping:
  assumes "nonempty_ids gen" "nonNegativeNumber now"
  shows "keeps_types s (ping_elapsed now gen s)"
proof -
  have "keeps_types s (s3\<lparr>rs_pingTimer := p\<rparr>)"
    if send: "sendWithAck now ThenPing (PingMsg (gen i) (Some (gen j)) now) (s\<lparr>rs_pingTimer := q, rs_uuids := n\<rparr>) = Inr s3" for s3 i j p q n
    by (rule types_trans [OF types_trans [OF _ types_sendWithAck [OF _ send]]]) (use assms in \<open>simp_all add: types_same optional_def nonempty_ids_def\<close>)
  then show ?thesis
    by (auto simp: ping_elapsed_def fresh_uuid_def Let_def types_same split: option.split sum.split)
qed

subsection \<open>Incoming messages\<close>

lemma types_ordering: "keeps_types s (snd (handleDataMessageOrdering now gen m s))"
proof -
  have "keeps_types s (report_gap now gen p m s)" for p
    by (simp add: report_gap_def Let_def fresh_uuid_def types_same notifyMessageListeners_def set_subscription_def
        notifySubscriptionListeners_def)
  then show ?thesis
    by (auto simp: handleDataMessageOrdering_def split: option.split)
qed

lemma types_recordCursor:
  assumes "dataMessageSchema m" "nonNegativeNumber now"
  shows "keeps_types s (recordCursor now m s)"
proof -
  let ?k = "resolveTopicKey (dm_topic m) (dm_table m)"
  let ?s1 = "s\<lparr>rs_cursors := jm_set ?k (buildCursorFromMessage now m) (rs_cursors s)\<rparr>"
  have c: "topicCursorSchema (buildCursorFromMessage now m)"
    using assms by (simp add: topicCursorSchema_def buildCursorFromMessage_def dataMessageSchema_def)
  have 1: "keeps_types s ?s1"
    using jm_set_all [of topicCursorSchema "rs_cursors s", OF _ c] by (simp add: keeps_types_def well_typed_def)
  have 2: "keeps_types s (set_subscription k v ?s1)" for k v
    by (rule types_trans [OF 1 types_notify(2)])
  have 3: "keeps_types s (?s1\<lparr>rs_stored := r\<rparr>)" "keeps_types s (set_subscription k v ?s1\<lparr>rs_stored := r\<rparr>)" for k v r
    by (rule types_trans [OF 1 types_field(2)], rule types_trans [OF 2 types_field(2)])
  show ?thesis
    using 1 2 3 by (cases "jm_get (rs_subscriptions s) ?k") (simp_all add: recordCursor_def Let_def)
qed

lemma types_on_data:
  assumes "dataMessageSchema m" "nonNegativeNumber now"
  shows "keeps_types s (case on_data now gen clientMessageSchema fromSocket m s of
           Inl (e, t) \<Rightarrow> t | Inr (notify, t) \<Rightarrow> if notify then notifyMessageListeners (Data m) t else t)"
proof -
  obtain drop_it s1 where o: "handleDataMessageOrdering now gen m s = (drop_it, s1)"
    by fastforce
  have 1: "keeps_types s s1"
    using types_ordering [of s now gen m] o by simp
  let ?s2 = "recordCursor now m s1"
  have 2: "keeps_types s ?s2"
    by (rule types_trans [OF 1 types_recordCursor [OF assms]])
  obtain u s3 where f: "fresh_uuid gen ?s2 = (u, s3)"
    by fastforce
  have 3: "keeps_types s s3"
    using types_trans [OF 2 types_uuid] f by (auto simp: fresh_uuid_def)
  have 4: "keeps_types s t" if "sendFireAndForget clientMessageSchema c s3 = Inr t" for c t
    by (rule types_trans [OF 3 types_sendFireAndForget [OF that]])
  show ?thesis
    using 1 2 3 4 types_trans [OF 2 types_notify(4)]
    by (cases "sendFireAndForget clientMessageSchema (AckMsg u None (dm_messageId m) now) s3")
      (auto simp: on_data_def o f Let_def intro: types_trans [OF 4 types_notify(4)])
qed

lemma types_applyError: "keeps_types s (applyErrorMessage now e s)"
  unfolding applyErrorMessage_def Let_def
  by (rule types_trans [OF _ types_notify(1)]) (simp add: types_notify split: option.split)

lemma types_incoming:
  assumes "serverMessageSchema m" "nonNegativeNumber now"
  shows "keeps_types s (handleIncomingMessage now gen clientMessageSchema m fromSocket s)"
proof -
  define s2 where "s2 = (if fromSocket then resetHeartbeatTimeout now s else s)\<lparr>rs_lastMessage := Some m\<rparr>"
  have q: "keeps_types s s2"
    by (simp add: s2_def types_same resetHeartbeatTimeout_def split: option.split)
  have pong: "keeps_types s2 t" if "sendFireAndForget clientMessageSchema c (s2\<lparr>rs_uuids := n\<rparr>) = Inr t" for c t n
    by (rule types_trans [OF types_uuid types_sendFireAndForget [OF that]])
  define after where "after = (case on_message now gen clientMessageSchema fromSocket m s2 of
           Inl (e, t) \<Rightarrow> t | Inr (notify, t) \<Rightarrow> if notify then notifyMessageListeners m t else t)"
  have h: "handleIncomingMessage now gen clientMessageSchema m fromSocket s = after"
    by (simp add: handleIncomingMessage_def Let_def s2_def [symmetric] after_def)
  have "keeps_types s2 after"
  proof (cases "\<exists>d. m = Data d")
    case True
    then show ?thesis
      using types_on_data assms by (auto simp: after_def on_message_def)
  next
    case False
    have simple: "keeps_types s2 (on_hello_ack now a s2)" "keeps_types s2 (on_subscribed now b s2)"
        "keeps_types s2 (on_unsubscribed now mid r topic table s2)" "keeps_types s2 (on_resync now c s2)" for a b mid r topic table c
      unfolding on_hello_ack_def on_subscribed_def on_unsubscribed_def on_resync_def Let_def
      by (rule types_trans [OF types_notify(1) types_requests(1)] types_trans [OF types_notify(2) types_requests(1)] types_notify)+
    have "keeps_types s2 (case on_message now gen clientMessageSchema fromSocket m s2 of Inl (e, t) \<Rightarrow> t | Inr (notify, t) \<Rightarrow> t)"
      using False pong simple types_trans [OF types_applyError types_requests(1)] types_uuid
      by (cases m) (auto simp: on_message_def fresh_uuid_def Let_def types_requests split: sum.split)
    then show ?thesis
      unfolding after_def by (auto split: sum.splits prod.splits if_splits intro: types_trans [OF _ types_notify(4)])
  qed
  then show ?thesis
    unfolding h by (rule types_trans [OF q])
qed

lemma types_message:
  assumes "\<And>m. r = Inr m \<Longrightarrow> serverMessageSchema m" "nonNegativeNumber now"
  shows "keeps_types s (on_socket_message now gen clientMessageSchema i r s)"
  using types_incoming [OF assms(1) assms(2)] types_trans [OF types_protocolError types_handshake_over]
  by (auto simp: on_socket_message_def types_protocolError split: option.split socket_listeners.split sum.split)

subsection \<open>Runs\<close>

text \<open>What reaches the client from outside conforms: parsed messages, loaded cursors, the topics of the callers, the clock.\<close>

fun conforming :: "ms \<times> 'p rt_event \<Rightarrow> bool" where
  "conforming (now, EnsureSubscriptions ts) = (nonNegativeNumber now \<and> list_all topicDescriptorSchema ts)"
| "conforming (now, Ingest m) = (nonNegativeNumber now \<and> serverMessageSchema m)"
| "conforming (now, SocketMessage i (Inr m)) = (nonNegativeNumber now \<and> serverMessageSchema m)"
| "conforming (now, CursorsLoaded (Inr (Some cs))) = (nonNegativeNumber now \<and> list_all (\<lambda>(k, c). topicCursorSchema c) cs)"
| "conforming (now, _) = nonNegativeNumber now"

lemma types_cursors_loaded:
  assumes "\<And>cs. r = Inr (Some cs) \<Longrightarrow> list_all (\<lambda>(k, c). topicCursorSchema c) cs"
  shows "keeps_types s (cursors_loaded now r s)"
proof -
  have 1: "keeps_types s (s\<lparr>rs_cursors := nullish st []\<rparr>)" if "r = Inr st" for st
    using assms that by (cases st) (auto simp: keeps_types_def well_typed_def nullish_def)
  have 2: "keeps_types s ((updateConnectionSnapshot now f (s\<lparr>rs_cursors := nullish st []\<rparr>))\<lparr>rs_phase := p\<rparr>)" if "r = Inr st" for st f p
    by (rule types_trans [OF types_trans [OF 1 [OF that] types_notify(1)] types_field(3)])
  have 3: "keeps_types s (connect_settles e s)" for e
    by (simp add: types_same connect_settles_def)
  show ?thesis
    using 2 3 by (auto simp: cursors_loaded_def Let_def split: sum.split)
qed

lemma types_handle:
  assumes g: "nonempty_ids gen" and c: "conforming (now, e)"
  shows "keeps_types s (rt_handle gen clientMessageSchema now e s)"
proof (cases e)
  case (EnsureSubscriptions ts)
  then show ?thesis using c by (simp add: types_ensureSubscriptions [OF g])
next
  case (CursorsLoaded r)
  then have "list_all (\<lambda>(k, c). topicCursorSchema c) cs" if "r = Inr (Some cs)" for cs
    using c that by simp
  then show ?thesis unfolding CursorsLoaded rt_handle.simps by (rule types_cursors_loaded)
next
  case (TicketResolved r)
  then show ?thesis
    by (auto simp: ticket_resolved_def connect_settles_def keeps_types_def well_typed_def messages_ok_def split: sum.split)
next
  case (SocketOpen i)
  then show ?thesis using types_socket_open [OF g] by simp
next
  case (Ingest m)
  then show ?thesis using c by (simp add: types_incoming)
next
  case (SocketMessage i r)
  then have "serverMessageSchema m" if "r = Inr m" for m
    using c that by simp
  moreover have "nonNegativeNumber now"
    using c by (cases r) (simp_all add: SocketMessage)
  ultimately show ?thesis
    unfolding SocketMessage rt_handle.simps by (rule types_message)
next
  case (SocketError i)
  then show ?thesis
    by (auto simp: on_socket_error_def types_handshake_over types_notify split: option.split socket_listeners.split)
next
  case PingElapsed
  then show ?thesis using c by (auto simp: types_ping [OF g] split: option.split)
next
  case (HeartbeatElapsed h)
  then show ?thesis
    by (auto simp: heartbeat_elapsed_at_def Let_def types_same split: option.split intro!: types_trans [OF _ types_protocolError])
next
  case Connect
  then show ?thesis by (simp add: rt_connect_def types_same)
next
  case ReconnectElapsed
  then show ?thesis by (simp add: reconnect_elapsed_def rt_connect_def types_same split: option.split)
next
  case ClearResumeState
  then show ?thesis by (simp add: clearResumeState_def keeps_types_def well_typed_def)
qed (simp_all add: types_disconnect types_send types_socket_close types_requests split: option.split)

lemma types_event:
  assumes "nonempty_ids gen" "conforming e"
  shows "keeps_types s (rt_step gen clientMessageSchema e s)"
proof -
  obtain now ev where e: "e = (now, ev)" by fastforce
  show ?thesis
    unfolding rt_step_def e prod.case
    by (rule types_trans [OF types_handle [OF assms(1)] types_microtasks [OF assms(1)]]) (use assms(2) e in simp)
qed

lemma types_run:
  assumes "nonempty_ids gen" "list_all conforming es"
  shows "keeps_types s (fold (rt_step gen clientMessageSchema) es s)"
  using assms(2)
proof (induction es arbitrary: s)
  case (Cons e es)
  have "keeps_types s (rt_step gen clientMessageSchema e s)"
    by (rule types_event [OF assms(1)]) (use Cons.prems in simp)
  then show ?case
    using types_trans [OF _ Cons.IH] Cons.prems by simp
qed simp

lemma types_new:
  assumes "nonEmptyString me" "nonEmptyString (nullish (sc_protocolVersion config) ''1.0'')"
  shows "well_typed (new_client t config me)"
  using assms by (simp add: well_typed_def new_client_def)

text \<open>C26 Every message the client sends, on any socket and in any run, conforms to the schema of client messages, provided that what
  comes from outside conforms (parsed server messages, loaded cursors, topics, clock) and ids are not empty, although hello,
  subscriptions and pings are sent without validation.
\<close>

theorem sent_messages_conform:
  fixes es :: "(ms \<times> 'p rt_event) list"
  assumes "nonempty_ids gen" "nonEmptyString me" "nonEmptyString (nullish (sc_protocolVersion config) ''1.0'')"
    and "list_all conforming es"
  shows "list_all (\<lambda>w. list_all clientMessageSchema (ws_sent w))
           (rs_sockets (fold (rt_step gen clientMessageSchema) es (new_client t config me)))"
proof -
  have "well_typed (fold (rt_step gen clientMessageSchema) es (new_client t config me))"
    using types_run [OF assms(1,4)] types_new [OF assms(2,3)] unfolding keeps_types_def by blast
  then show ?thesis
    by (simp add: well_typed_def messages_ok_def [abs_def])
qed

lemma sent_messages_conform_witness:
  "list_all (\<lambda>w. list_all clientMessageSchema (ws_sent w))
     (rs_sockets (fold (rt_step sample_uuid clientMessageSchema)
        ((0, EnsureSubscriptions [\<lparr>tp_topic = ''t'', tp_table = ''orders''\<rparr>]) # sample_connect @ sample_messages [5, 6])
        (new_client 0 sample_config ''me'')))"
proof (rule sent_messages_conform)
  show "nonempty_ids sample_uuid"
    by (simp add: nonempty_ids_def sample_uuid_def nonEmptyString_def)
  show "nonEmptyString (nullish (sc_protocolVersion sample_config) ''1.0'')" "nonEmptyString ''me''"
    by (simp_all add: sample_config_def nullish_def nonEmptyString_def)
  show "list_all conforming ((0, EnsureSubscriptions [\<lparr>tp_topic = ''t'', tp_table = ''orders''\<rparr>]) # sample_connect @ sample_messages [5, 6])"
    by code_simp
qed

end
