(* ===== verification/Worker_Instance.thy ===== *)
theory Worker_Instance
  imports Foundation_Prelude "HOL-Library.Sublist"
begin

text \<open>
  One worker of the DuckDB pool (\<open>libs/foundation/bridge/src/wasm/pool/worker-instance.ts\<close>): its queue, the loop that runs one
  query at a time, cancellation and shutdown. A query is a number (its deferred promise) with an id that callers may
  use twice. \<open>processQueue\<close> is split at its \<open>await\<close>: \<open>wk_loop\<close> holds the query the loop waits for and whether its
  \<open>executeQuery\<close> has returned. The database answers by an event; the conversion of its result is the identity here, timing is left out.
  Whether the signal of a query is aborted is asked of an argument.
\<close>

datatype worker_status = INITIALIZING | IDLE | BUSY | WORKER_ERROR | SHUTDOWN

datatype 'r query_outcome =
    Resolved 'r
  | Cancelled string
  | ExecutionFailed string
  | WorkerFailed string

record queued_query =
  qq_no :: nat
  qq_id :: string

record 'r worker =
  wk_status :: worker_status
  wk_connected :: bool
  wk_queue :: "queued_query list"
  wk_current :: "queued_query option"
  wk_isProcessing :: bool
  wk_loop :: "(queued_query \<times> bool) option"
  wk_executed :: nat
  wk_lastActivityAt :: ms
  wk_lastError :: "string option"
  wk_settled :: "(nat, 'r query_outcome) jmap"
  wk_asked :: "nat list"

definition new_worker :: "ms \<Rightarrow> 'r worker" where
  "new_worker now =
     \<lparr>wk_status = INITIALIZING, wk_connected = False, wk_queue = [], wk_current = None, wk_isProcessing = False, wk_loop = None,
      wk_executed = 0, wk_lastActivityAt = now, wk_lastError = None, wk_settled = [], wk_asked = []\<rparr>"

definition wk_queueLength :: "'r worker \<Rightarrow> nat" where
  "wk_queueLength w = length (wk_queue w) + (if wk_current w = None then 0 else 1)"

record worker_info =
  wi_status :: worker_status
  wi_queueLength :: nat
  wi_currentQueryId :: "string option"
  wi_totalExecuted :: nat
  wi_lastActivityAt :: ms
  wi_lastError :: "string option"

definition wk_getInfo :: "'r worker \<Rightarrow> worker_info" where
  "wk_getInfo w =
     \<lparr>wi_status = wk_status w, wi_queueLength = wk_queueLength w, wi_currentQueryId = map_option qq_id (wk_current w),
      wi_totalExecuted = wk_executed w, wi_lastActivityAt = wk_lastActivityAt w, wi_lastError = wk_lastError w\<rparr>"

text \<open>A deferred promise settles once.\<close>

definition settle_once :: "nat \<Rightarrow> 'o \<Rightarrow> (nat, 'o) jmap \<Rightarrow> (nat, 'o) jmap" where
  "settle_once n r m = (if jm_has m n then m else m @ [(n, r)])"

definition wk_settle :: "nat \<Rightarrow> 'r query_outcome \<Rightarrow> 'r worker \<Rightarrow> 'r worker" where
  "wk_settle n r w = w\<lparr>wk_settled := settle_once n r (wk_settled w)\<rparr>"

text \<open>\<open>initialize\<close>, with the answer of \<open>createDuckDBInstance\<close>; it throws unless the worker is new.\<close>

definition wk_initialize :: "ms \<Rightarrow> string + unit \<Rightarrow> 'r worker \<Rightarrow> string option \<times> 'r worker" where
  "wk_initialize now result w =
     (if wk_status w \<noteq> INITIALIZING then (Some ''Cannot initialize worker'', w)
      else (case result of
              Inr _ \<Rightarrow> (None, w\<lparr>wk_connected := True, wk_status := IDLE, wk_lastActivityAt := now\<rparr>)
            | Inl e \<Rightarrow> (Some e, w\<lparr>wk_status := WORKER_ERROR, wk_lastError := Some e\<rparr>)))"

text \<open>\<open>executeQuery\<close> up to its \<open>await\<close> of the database.\<close>

definition start_query :: "(nat \<Rightarrow> bool) \<Rightarrow> queued_query \<Rightarrow> 'r worker \<Rightarrow> 'r worker" where
  "start_query aborted q w =
     (if aborted (qq_no q) then (wk_settle (qq_no q) (Cancelled ''user'') w)\<lparr>wk_loop := Some (q, True)\<rparr>
      else if \<not> wk_connected w then (wk_settle (qq_no q) (WorkerFailed ''No database connection'') w)\<lparr>wk_loop := Some (q, True)\<rparr>
      else w\<lparr>wk_asked := wk_asked w @ [qq_no q], wk_loop := Some (q, False)\<rparr>)"

text \<open>The head of the loop of \<open>processQueue\<close>.\<close>

definition loop_head :: "ms \<Rightarrow> (nat \<Rightarrow> bool) \<Rightarrow> 'r worker \<Rightarrow> 'r worker" where
  "loop_head now aborted w =
     (case wk_queue w of
        q # qs \<Rightarrow>
          if wk_status w = SHUTDOWN
          then w\<lparr>wk_status := SHUTDOWN, wk_isProcessing := False, wk_loop := None, wk_lastActivityAt := now\<rparr>
          else start_query aborted q
                 (w\<lparr>wk_queue := qs, wk_current := Some q, wk_status := BUSY, wk_lastActivityAt := now\<rparr>)
      | [] \<Rightarrow> w\<lparr>wk_status := (if wk_status w = SHUTDOWN then SHUTDOWN else IDLE), wk_isProcessing := False, wk_loop := None,
               wk_lastActivityAt := now\<rparr>)"

definition processQueue :: "ms \<Rightarrow> (nat \<Rightarrow> bool) \<Rightarrow> 'r worker \<Rightarrow> 'r worker" where
  "processQueue now aborted w =
     (if wk_isProcessing w then w
      else if wk_queue w = [] then w
      else if wk_status w \<noteq> IDLE \<and> wk_status w \<noteq> BUSY then w
      else loop_head now aborted (w\<lparr>wk_isProcessing := True\<rparr>))"

text \<open>The rest of the loop body, when \<open>executeQuery\<close> has returned.\<close>

definition wk_resume :: "ms \<Rightarrow> (nat \<Rightarrow> bool) \<Rightarrow> 'r worker \<Rightarrow> 'r worker" where
  "wk_resume now aborted w =
     (case wk_loop w of
        Some (q, True) \<Rightarrow> loop_head now aborted (w\<lparr>wk_current := None, wk_executed := wk_executed w + 1\<rparr>)
      | _ \<Rightarrow> w)"

text \<open>The rest of \<open>executeQuery\<close>: the database has answered.\<close>

definition db_answers :: "(nat \<Rightarrow> bool) \<Rightarrow> string + 'r \<Rightarrow> 'r worker \<Rightarrow> 'r worker" where
  "db_answers aborted result w =
     (case wk_loop w of
        Some (q, False) \<Rightarrow>
          (wk_settle (qq_no q)
             (case result of
                Inl e \<Rightarrow> ExecutionFailed e
              | Inr r \<Rightarrow> if aborted (qq_no q) then Cancelled ''user'' else Resolved r) w)\<lparr>wk_loop := Some (q, True)\<rparr>
      | _ \<Rightarrow> w)"

definition wk_execute :: "ms \<Rightarrow> (nat \<Rightarrow> bool) \<Rightarrow> queued_query \<Rightarrow> 'r worker \<Rightarrow> 'r worker" where
  "wk_execute now aborted q w =
     (if wk_status w = SHUTDOWN then wk_settle (qq_no q) (WorkerFailed ''Worker is shut down'') w
      else if wk_status w = WORKER_ERROR then wk_settle (qq_no q) (WorkerFailed ''Worker is in error state'') w
      else processQueue now aborted (w\<lparr>wk_queue := wk_queue w @ [q]\<rparr>))"

text \<open>Removing the first queued query with an id, which rejects its promise.\<close>

fun remove_query :: "string \<Rightarrow> queued_query list \<Rightarrow> (queued_query \<times> queued_query list) option" where
  "remove_query i [] = None"
| "remove_query i (q # qs) =
     (if qq_id q = i then Some (q, qs) else map_option (\<lambda>(x, ys). (x, q # ys)) (remove_query i qs))"

definition wk_cancel :: "string \<Rightarrow> 'r worker \<Rightarrow> bool \<times> 'r worker" where
  "wk_cancel i w =
     (case remove_query i (wk_queue w) of
        Some (q, qs) \<Rightarrow> (True, wk_settle (qq_no q) (Cancelled ''user'') (w\<lparr>wk_queue := qs\<rparr>))
      | None \<Rightarrow> (map_option qq_id (wk_current w) = Some i, w))"

definition wk_handleAbort :: "string \<Rightarrow> 'r worker \<Rightarrow> 'r worker" where
  "wk_handleAbort i w =
     (case remove_query i (wk_queue w) of
        Some (q, qs) \<Rightarrow> wk_settle (qq_no q) (Cancelled ''user'') (w\<lparr>wk_queue := qs\<rparr>)
      | None \<Rightarrow> w)"

definition settle_all :: "'r query_outcome \<Rightarrow> queued_query list \<Rightarrow> 'r worker \<Rightarrow> 'r worker" where
  "settle_all r qs w = fold (\<lambda>q. wk_settle (qq_no q) r) qs w"

definition wk_shutdown :: "'r worker \<Rightarrow> 'r worker" where
  "wk_shutdown w =
     (let w1 = (settle_all (Cancelled ''shutdown'') (wk_queue w) (w\<lparr>wk_status := SHUTDOWN\<rparr>))\<lparr>wk_queue := []\<rparr>;
          w2 = (case wk_current w1 of
                  None \<Rightarrow> w1
                | Some q \<Rightarrow> (wk_settle (qq_no q) (Cancelled ''shutdown'') w1)\<lparr>wk_current := None\<rparr>)
      in w2\<lparr>wk_connected := False\<rparr>)"

subsection \<open>Events\<close>

datatype 'r worker_event =
    WInit "string + unit" | WExecute queued_query | WCancel string | WAbort string | WAnswer "string + 'r" | WResume | WShutdown

fun wk_step :: "ms \<times> (nat \<Rightarrow> bool) \<times> 'r worker_event \<Rightarrow> 'r worker \<Rightarrow> 'r worker" where
  "wk_step (now, aborted, WInit r) w = snd (wk_initialize now r w)"
| "wk_step (now, aborted, WExecute q) w = wk_execute now aborted q w"
| "wk_step (now, aborted, WCancel i) w = snd (wk_cancel i w)"
| "wk_step (now, aborted, WAbort i) w = wk_handleAbort i w"
| "wk_step (now, aborted, WAnswer r) w = db_answers aborted r w"
| "wk_step (now, aborted, WResume) w = wk_resume now aborted w"
| "wk_step (now, aborted, WShutdown) w = wk_shutdown w"

fun submitted :: "(ms \<times> (nat \<Rightarrow> bool) \<times> 'r worker_event) list \<Rightarrow> nat list" where
  "submitted [] = []"
| "submitted ((now, aborted, WExecute q) # es) = qq_no q # submitted es"
| "submitted (_ # es) = submitted es"

subsection \<open>Every query is accounted for\<close>

text \<open>
  A relation between the promises that have settled, the queue, the query before the database, what the database was
  asked and what was submitted. The lemmas say how each part of an operation keeps it.
\<close>

definition accounted :: "(nat, 'o) jmap \<Rightarrow> nat list \<Rightarrow> nat set \<Rightarrow> nat list \<Rightarrow> nat list \<Rightarrow> bool" where
  "accounted settled queue running asked subs \<longleftrightarrow>
     jm_ok settled \<and> set (jm_keys settled) \<union> set queue \<union> running = set subs \<and> subseq (asked @ queue) subs \<and>
     set asked \<subseteq> set (jm_keys settled) \<union> running"

lemma keys_settle_once [simp]: "fst ` set (settle_once n r m) = insert n (fst ` set m)"
  by (auto simp: settle_once_def jm_has_def map_of_eq_None_iff)

lemma settle_once_ok [simp]: "jm_ok m \<Longrightarrow> jm_ok (settle_once n r m)"
  by (simp add: settle_once_def jm_has_def map_of_eq_None_iff)

lemma subseq_queue: "subseq (xs @ ys) zs \<Longrightarrow> subseq ys' ys \<Longrightarrow> subseq (xs @ ys') zs"
  by (meson list_emb_append_mono subseq_order.order_refl subseq_order.order_trans)

lemma subseq_more: "subseq xs ys \<Longrightarrow> subseq xs (ys @ zs)"
  by (meson prefixI prefix_imp_subseq subseq_order.order_trans)

lemma accounted_remove:
  "accounted m que run asked subs \<Longrightarrow> set que = insert n (set que') \<Longrightarrow> subseq que' que \<Longrightarrow>
   accounted (settle_once n r m) que' run asked subs"
  by (auto simp: accounted_def intro: subseq_queue)

lemma accounted_head: "accounted m (n # que) run asked subs \<Longrightarrow> accounted (settle_once n r m) que run asked subs"
  by (erule accounted_remove) (auto intro: list_emb_Cons)

lemma accounted_ask: "accounted m (n # que) {} asked subs \<Longrightarrow> accounted m que {n} (asked @ [n]) subs"
  by (auto simp: accounted_def)

lemma accounted_answer: "accounted m que {n} asked subs \<Longrightarrow> accounted (settle_once n r m) que {} asked subs"
  by (auto simp: accounted_def)

lemma accounted_submit: "accounted m que run asked subs \<Longrightarrow> accounted m (que @ [n]) run asked (subs @ [n])"
  by (auto simp: accounted_def subseq_append simp flip: append_assoc)

lemma accounted_reject: "accounted m que run asked subs \<Longrightarrow> accounted (settle_once n r m) que run asked (subs @ [n])"
  by (auto simp: accounted_def intro: subseq_more)

lemma accounted_known: "accounted m que run asked subs \<Longrightarrow> n \<in> set subs \<Longrightarrow> accounted (settle_once n r m) que run asked subs"
  by (auto simp: accounted_def)

definition queued_nos :: "'r worker \<Rightarrow> nat list" where
  "queued_nos w = map qq_no (wk_queue w)"

definition settled_nos :: "'r worker \<Rightarrow> nat set" where
  "settled_nos w = set (jm_keys (wk_settled w))"

fun before_db :: "(queued_query \<times> bool) option \<Rightarrow> nat set" where
  "before_db (Some (q, False)) = {qq_no q}"
| "before_db _ = {}"

definition running_nos :: "'r worker \<Rightarrow> nat set" where
  "running_nos w = before_db (wk_loop w)"

text \<open>The control state: the loop runs exactly when the worker is busy, or shut down with a query before the database.\<close>

definition control :: "worker_status \<Rightarrow> bool \<Rightarrow> (queued_query \<times> bool) option \<Rightarrow> queued_query option \<Rightarrow> queued_query list \<Rightarrow> bool" where
  "control status processing loop current queue \<longleftrightarrow>
     (processing \<longleftrightarrow> loop \<noteq> None) \<and> (status = IDLE \<longrightarrow> loop = None) \<and> (status = BUSY \<longrightarrow> loop \<noteq> None) \<and>
     (loop \<noteq> None \<longrightarrow> status = BUSY \<or> status = SHUTDOWN) \<and> (\<forall>q. current = Some q \<longrightarrow> map_option fst loop = Some q) \<and>
     (status = SHUTDOWN \<longrightarrow> queue = [] \<and> current = None)"

definition worker_ok :: "'r worker \<Rightarrow> nat list \<Rightarrow> bool" where
  "worker_ok w subs \<longleftrightarrow>
     accounted (wk_settled w) (map qq_no (wk_queue w)) (before_db (wk_loop w)) (wk_asked w) subs \<and>
     control (wk_status w) (wk_isProcessing w) (wk_loop w) (wk_current w) (wk_queue w) \<and>
     (\<forall>q. wk_loop w = Some (q, True) \<longrightarrow> qq_no q \<in> set subs)"

lemma control_queue: "control st p l c q \<Longrightarrow> st \<noteq> SHUTDOWN \<Longrightarrow> control st p l c q'"
  unfolding control_def by blast

lemma control_shutdown: "control st p l c q \<Longrightarrow> q \<noteq> [] \<Longrightarrow> st \<noteq> SHUTDOWN"
  unfolding control_def by blast

lemma loop_head_ok:
  assumes a: "accounted (wk_settled w) (map qq_no (wk_queue w)) {} (wk_asked w) subs"
    and d: "wk_status w = SHUTDOWN \<longrightarrow> wk_queue w = []" and n: "wk_current w = None" and p: "wk_isProcessing w"
  shows "worker_ok (loop_head now aborted w) subs"
proof (cases "wk_queue w")
  case Nil
  then show ?thesis
    using a n by (simp add: loop_head_def worker_ok_def control_def)
next
  case (Cons q qs)
  then have s: "accounted (wk_settled w) (qq_no q # map qq_no qs) {} (wk_asked w) subs"
    using a by simp
  then have k: "qq_no q \<in> set subs"
    by (auto simp: accounted_def)
  show ?thesis
    using Cons d k p accounted_head [OF s] accounted_ask [OF s]
    by (auto simp: loop_head_def start_query_def wk_settle_def worker_ok_def control_def)
qed

lemma execute_ok:
  assumes "worker_ok w subs"
  shows "worker_ok (wk_execute now aborted q w) (subs @ [qq_no q])"
proof -
  have a: "accounted (wk_settled w) (map qq_no (wk_queue w)) (before_db (wk_loop w)) (wk_asked w) subs"
    and c: "control (wk_status w) (wk_isProcessing w) (wk_loop w) (wk_current w) (wk_queue w)"
    and k: "\<forall>q. wk_loop w = Some (q, True) \<longrightarrow> qq_no q \<in> set subs"
    using assms by (simp_all add: worker_ok_def)
  have rej: "worker_ok (wk_settle (qq_no q) r w) (subs @ [qq_no q])" for r
    using accounted_reject [OF a, of "qq_no q" r] c k by (auto simp: worker_ok_def wk_settle_def)
  let ?w = "w\<lparr>wk_queue := wk_queue w @ [q]\<rparr>"
  have run: "worker_ok (processQueue now aborted ?w) (subs @ [qq_no q])" if sd: "wk_status w \<noteq> SHUTDOWN"
  proof (cases "wk_isProcessing w \<or> wk_status w \<noteq> IDLE \<and> wk_status w \<noteq> BUSY")
    case True
    have "worker_ok ?w (subs @ [qq_no q])"
      using accounted_submit [OF a, of "qq_no q"] control_queue [OF c sd] k by (simp add: worker_ok_def)
    then show ?thesis using True by (auto simp: processQueue_def)
  next
    case False
    then have l: "wk_loop w = None" "wk_current w = None"
      using c by (auto simp: control_def)
    have "worker_ok (loop_head now aborted (?w\<lparr>wk_isProcessing := True\<rparr>)) (subs @ [qq_no q])"
      using accounted_submit [OF a, of "qq_no q"] l sd by (intro loop_head_ok) simp_all
    then show ?thesis using False by (auto simp: processQueue_def)
  qed
  show ?thesis
    using rej run by (simp add: wk_execute_def)
qed

lemma resume_ok:
  assumes "worker_ok w subs"
  shows "worker_ok (wk_resume now aborted w) subs"
proof (cases "\<exists>q. wk_loop w = Some (q, True)")
  case True
  then obtain q where l: "wk_loop w = Some (q, True)" by auto
  have "worker_ok (loop_head now aborted (w\<lparr>wk_current := None, wk_executed := wk_executed w + 1\<rparr>)) subs"
    using assms l by (intro loop_head_ok) (auto simp: worker_ok_def control_def)
  then show ?thesis
    by (simp add: wk_resume_def l)
qed (use assms in \<open>auto simp: wk_resume_def split: option.split bool.split\<close>)

lemma remove_first_mem:
  "remove_query i qs = Some (q, rest) \<Longrightarrow>
   set (map qq_no qs) = insert (qq_no q) (set (map qq_no rest)) \<and> subseq (map qq_no rest) (map qq_no qs)"
proof (induction i qs arbitrary: rest rule: remove_query.induct)
  case (2 i x xs)
  show ?case
  proof (cases "qq_id x = i")
    case True
    then show ?thesis using 2(2) by (auto intro: list_emb_Cons)
  next
    case False
    then obtain ys where "remove_query i xs = Some (q, ys)" "rest = x # ys"
      using 2(2) by (auto split: if_splits)
    then show ?thesis using 2(1) [OF False, of ys] by auto
  qed
qed simp

lemma removed_ok:
  assumes "worker_ok w subs" "remove_query i (wk_queue w) = Some (q, qs)"
  shows "worker_ok (wk_settle (qq_no q) r (w\<lparr>wk_queue := qs\<rparr>)) subs"
proof -
  have "accounted (settle_once (qq_no q) r (wk_settled w)) (map qq_no qs) (before_db (wk_loop w)) (wk_asked w) subs"
    using assms(1) remove_first_mem [OF assms(2)] by (intro accounted_remove) (auto simp: worker_ok_def)
  moreover have c: "control (wk_status w) (wk_isProcessing w) (wk_loop w) (wk_current w) (wk_queue w)"
    using assms(1) by (simp add: worker_ok_def)
  moreover have "wk_queue w \<noteq> []"
    using assms(2) by auto
  ultimately show ?thesis
    using assms(1) control_queue [OF c control_shutdown [OF c]] by (simp add: worker_ok_def wk_settle_def)
qed

lemma answer_ok:
  assumes "worker_ok w subs"
  shows "worker_ok (db_answers aborted r w) subs"
proof (cases "\<exists>q. wk_loop w = Some (q, False)")
  case True
  then obtain q where l: "wk_loop w = Some (q, False)" by auto
  then have a: "accounted (wk_settled w) (map qq_no (wk_queue w)) {qq_no q} (wk_asked w) subs"
    and c: "control (wk_status w) (wk_isProcessing w) (Some (q, False)) (wk_current w) (wk_queue w)"
    using assms by (simp_all add: worker_ok_def)
  then have k: "qq_no q \<in> set subs"
    by (auto simp: accounted_def)
  show ?thesis
    using accounted_answer [OF a] c k by (simp add: db_answers_def l worker_ok_def wk_settle_def control_def)
qed (use assms in \<open>auto simp: db_answers_def split: option.split bool.split\<close>)

lemma settle_all_fields:
  "wk_queue (settle_all r qs w) = wk_queue w \<and> wk_loop (settle_all r qs w) = wk_loop w \<and>
   wk_asked (settle_all r qs w) = wk_asked w \<and> wk_status (settle_all r qs w) = wk_status w \<and>
   wk_isProcessing (settle_all r qs w) = wk_isProcessing w \<and> wk_current (settle_all r qs w) = wk_current w"
  unfolding settle_all_def by (induction qs arbitrary: w) (simp_all add: wk_settle_def)

lemma settle_all_accounted:
  "accounted (wk_settled w) (map qq_no qs) run asked subs \<Longrightarrow> accounted (wk_settled (settle_all r qs w)) [] run asked subs"
  unfolding settle_all_def
  by (induction qs arbitrary: w) (auto simp: wk_settle_def dest!: accounted_head [where r = r])

lemma shutdown_ok:
  assumes "worker_ok w subs"
  shows "worker_ok (wk_shutdown w) subs"
proof -
  let ?w = "settle_all (Cancelled ''shutdown'') (wk_queue w) (w\<lparr>wk_status := SHUTDOWN\<rparr>)"
  have a: "accounted (wk_settled ?w) [] (before_db (wk_loop w)) (wk_asked w) subs"
    using assms by (intro settle_all_accounted) (simp add: worker_ok_def)
  have c: "control (wk_status w) (wk_isProcessing w) (wk_loop w) (wk_current w) (wk_queue w)"
    and k: "\<forall>q. wk_loop w = Some (q, True) \<longrightarrow> qq_no q \<in> set subs"
    using assms by (simp_all add: worker_ok_def)
  note f = settle_all_fields [of "Cancelled ''shutdown''" "wk_queue w" "w\<lparr>wk_status := SHUTDOWN\<rparr>"]
  show ?thesis
  proof (cases "wk_current w")
    case None
    then show ?thesis
      using a c k f by (simp add: wk_shutdown_def Let_def worker_ok_def control_def)
  next
    case (Some q)
    then obtain b where l: "wk_loop w = Some (q, b)"
      using c by (auto simp: control_def)
    have "qq_no q \<in> set subs"
      using a k l by (cases b) (auto simp: accounted_def)
    then show ?thesis
      using accounted_known [OF a] c k f Some by (simp add: wk_shutdown_def Let_def worker_ok_def control_def wk_settle_def)
  qed
qed

lemma worker_step_ok:
  assumes "worker_ok w subs"
  shows "worker_ok (wk_step e w) (subs @ submitted [e])"
proof -
  obtain now ab ev where e: "e = (now, ab, ev)"
    by (cases e) auto
  show ?thesis
  proof (cases ev)
    case (WInit r)
    then show ?thesis
      using assms by (cases r) (auto simp: e wk_initialize_def worker_ok_def control_def)
  next
    case (WExecute q)
    then show ?thesis using execute_ok [OF assms] by (simp add: e)
  next
    case (WCancel i)
    then show ?thesis using assms by (auto simp: e wk_cancel_def removed_ok split: option.split)
  next
    case (WAbort i)
    then show ?thesis using assms by (auto simp: e wk_handleAbort_def removed_ok split: option.split)
  next
    case (WAnswer r)
    then show ?thesis using answer_ok [OF assms] by (simp add: e)
  next
    case WResume
    then show ?thesis using resume_ok [OF assms] by (simp add: e)
  next
    case WShutdown
    then show ?thesis using shutdown_ok [OF assms] by (simp add: e)
  qed
qed

lemma submitted_append: "submitted (es @ fs) = submitted es @ submitted fs"
  by (induction es rule: submitted.induct) auto

lemma submitted_Cons: "submitted (e # es) = submitted [e] @ submitted es"
  using submitted_append [of "[e]" es] by simp

lemma worker_run_ok: "worker_ok w subs \<Longrightarrow> worker_ok (fold wk_step es w) (subs @ submitted es)"
proof (induction es arbitrary: w subs)
  case (Cons e es)
  show ?case
    using Cons.IH [OF worker_step_ok [OF Cons.prems, of e]] submitted_Cons [of e es] by simp
qed simp

lemma worker_new_ok: "worker_ok (new_worker t) []"
  by (simp add: new_worker_def worker_ok_def control_def accounted_def)

lemmas worker_reachable_ok = worker_run_ok [OF worker_new_ok, simplified]


definition sample_worker_run :: "(ms \<times> (nat \<Rightarrow> bool) \<times> nat worker_event) list" where
  "sample_worker_run =
     map (\<lambda>e. (1, (\<lambda>n. n = 3), e))
       [WInit (Inr ()), WExecute \<lparr>qq_no = 1, qq_id = ''a''\<rparr>, WExecute \<lparr>qq_no = 2, qq_id = ''b''\<rparr>, WExecute \<lparr>qq_no = 3, qq_id = ''c''\<rparr>,
        WExecute \<lparr>qq_no = 4, qq_id = ''d''\<rparr>, WCancel ''b'', WAnswer (Inr 7), WResume, WResume]"


lemma worker_run_example:
  "(let w = fold wk_step sample_worker_run (new_worker 0) in (wk_settled w, wk_asked w, wk_status w, wk_executed w)) =
     ([(2, Cancelled ''user''), (1, Resolved 7), (3, Cancelled ''user'')], [1, 4], BUSY, 2)"
  by code_simp

text \<open>
  The database is asked in the order of submission, one query at a time: what it has been asked and what waits is a
  subsequence of what was submitted, and all it was asked but the query it runs has been settled.
\<close>

theorem worker_runs_in_order:
  "let w = fold wk_step es (new_worker t)
   in subseq (wk_asked w @ queued_nos w) (submitted es) \<and> set (wk_asked w) - running_nos w \<subseteq> settled_nos w"
  using worker_reachable_ok [of es t] by (auto simp: Let_def worker_ok_def accounted_def running_nos_def queued_nos_def settled_nos_def)

text \<open>
  Cancelling the query that runs says it will be cancelled, but nothing is noted: when the database answers, the
  promise is resolved all the same.
\<close>

lemma cancelled_query_resolves:
  assumes "wk_loop w = Some (q, False)" "wk_current w = Some q" "remove_query (qq_id q) (wk_queue w) = None"
    and "\<not> aborted (qq_no q)" "\<not> jm_has (wk_settled w) (qq_no q)"
  shows "fst (wk_cancel (qq_id q) w) \<and>
    (qq_no q, Resolved r) \<in> set (wk_settled (db_answers aborted (Inr r) (snd (wk_cancel (qq_id q) w))))"
  using assms by (simp add: wk_cancel_def db_answers_def wk_settle_def settle_once_def)

end
