(* ===== verification/Worker_Pool.thy ===== *)
theory Worker_Pool
  imports Worker_Instance
begin

text \<open>
  The worker pool (\<open>libs/foundation/bridge/src/wasm/pool/worker-pool.ts\<close>): the map of workers, adding, removing and restarting
  them, and the choice of the least busy one. Methods are split at their \<open>await\<close>s: \<open>begin_addWorker\<close> and \<open>end_addWorker\<close>, and so on.
  Worker ids are the numbers they are made from. The configuration is that of \<open>types/pool.ts\<close> with the
  defaults of \<open>utils/validation.ts\<close>.
\<close>

record pool_options =
  po_workerCount :: "nat option"
  po_maxQueuePerWorker :: "nat option"
  po_maxActiveQueries :: "nat option"
  po_maxOverflowQueueSize :: "nat option"
  po_defaultQueryTimeout :: "ms option"
  po_workerInitTimeout :: "ms option"
  po_enableTableLocking :: "bool option"
  po_restartFailedWorkers :: "bool option"
  po_workerIdleTimeout :: "ms option"

record pool_config =
  pc_workerCount :: nat
  pc_maxQueuePerWorker :: nat
  pc_maxActiveQueries :: nat
  pc_maxOverflowQueueSize :: nat
  pc_defaultQueryTimeout :: ms
  pc_workerInitTimeout :: ms
  pc_enableTableLocking :: bool
  pc_restartFailedWorkers :: bool

text \<open>\<open>hardware\<close> is \<open>navigator.hardwareConcurrency\<close>, absent outside a browser.\<close>

definition default_worker_count :: "nat option \<Rightarrow> nat" where
  "default_worker_count hardware = (case hardware of Some n \<Rightarrow> min (if n = 0 then 2 else n) 8 | None \<Rightarrow> 2)"

definition or_default :: "'a option \<Rightarrow> 'a \<Rightarrow> 'a" where
  "or_default x d = (case x of Some v \<Rightarrow> v | None \<Rightarrow> d)"

definition resolvePoolConfig :: "nat option \<Rightarrow> pool_options \<Rightarrow> pool_config" where
  "resolvePoolConfig hardware c =
     \<lparr>pc_workerCount = or_default (po_workerCount c) (default_worker_count hardware),
      pc_maxQueuePerWorker = or_default (po_maxQueuePerWorker c) 10,
      pc_maxActiveQueries = or_default (po_maxActiveQueries c) 1000,
      pc_maxOverflowQueueSize = or_default (po_maxOverflowQueueSize c) 500,
      pc_defaultQueryTimeout = or_default (po_defaultQueryTimeout c) 30000,
      pc_workerInitTimeout = or_default (po_workerInitTimeout c) 10000,
      pc_enableTableLocking = or_default (po_enableTableLocking c) True,
      pc_restartFailedWorkers = or_default (po_restartFailedWorkers c) True\<rparr>"

text \<open>
  \<open>validatePoolConfig\<close> collects the complaints; counts are natural numbers here, so "not an integer" does not arise. The router's
  configuration has the same form.
\<close>

definition complaint :: "bool \<Rightarrow> string \<Rightarrow> string list" where
  "complaint b e = (if b then [e] else [])"

definition check_count :: "string \<Rightarrow> nat \<Rightarrow> string \<Rightarrow> nat option \<Rightarrow> string list" where
  "check_count f limit too_big v =
     (case v of None \<Rightarrow> [] | Some n \<Rightarrow> complaint (n < 1) (f @ '' must be a positive integer'') @ complaint (n > limit) too_big)"

definition validatePoolConfig :: "pool_options \<Rightarrow> string list" where
  "validatePoolConfig c =
     check_count ''workerCount'' 16 ''workerCount should not exceed 16 (diminishing returns with more workers)'' (po_workerCount c) @
     check_count ''maxQueuePerWorker'' 100 ''maxQueuePerWorker should not exceed 100'' (po_maxQueuePerWorker c) @
     check_count ''maxActiveQueries'' 10000 ''maxActiveQueries should not exceed 10000'' (po_maxActiveQueries c) @
     check_count ''maxOverflowQueueSize'' 10000 ''maxOverflowQueueSize should not exceed 10000'' (po_maxOverflowQueueSize c) @
     (case po_defaultQueryTimeout c of
        None \<Rightarrow> []
      | Some t \<Rightarrow> complaint (t < 0) ''defaultQueryTimeout must be non-negative'' @
                  complaint (t > 300000) ''defaultQueryTimeout should not exceed 300000ms (5 minutes)'') @
     (case po_workerInitTimeout c of
        None \<Rightarrow> []
      | Some t \<Rightarrow> complaint (t < 1000) ''workerInitTimeout should be at least 1000ms'' @
                  complaint (t > 60000) ''workerInitTimeout should not exceed 60000ms'') @
     (case po_workerIdleTimeout c of None \<Rightarrow> [] | Some t \<Rightarrow> complaint (t < 0) ''workerIdleTimeout must be non-negative'')"

datatype bridge_type = WASM | NATIVE | OtherBridge string

definition validateRouterConfig :: "bridge_type option \<Rightarrow> ms option \<Rightarrow> string list" where
  "validateRouterConfig forceBridgeType idleTimeout =
     (case forceBridgeType of
        Some (OtherBridge b) \<Rightarrow> [''forceBridgeType must be \"wasm\" or \"native\"'']
      | _ \<Rightarrow> []) @
     (case idleTimeout of
        None \<Rightarrow> []
      | Some t \<Rightarrow> complaint (t < 0) ''idleTimeout must be non-negative'' @
                  complaint (t > 3600000) ''idleTimeout should not exceed 3600000ms (1 hour)'')"

lemma check_count_ok: "check_count f limit e v = [] \<longleftrightarrow> (\<forall>n. v = Some n \<longrightarrow> 0 < n \<and> n \<le> limit)"
  by (cases v) (auto simp: check_count_def complaint_def)

lemma resolved_options_valid:
  assumes "validatePoolConfig c = []"
  shows "0 < pc_workerCount (resolvePoolConfig hardware c) \<and> pc_workerCount (resolvePoolConfig hardware c) \<le> 16 \<and>
    0 < pc_maxQueuePerWorker (resolvePoolConfig hardware c) \<and> 0 < pc_maxActiveQueries (resolvePoolConfig hardware c) \<and>
    0 < pc_maxOverflowQueueSize (resolvePoolConfig hardware c)"
proof -
  have d: "0 < default_worker_count hardware \<and> default_worker_count hardware \<le> 16"
    by (auto simp: default_worker_count_def split: option.split)
  have "(\<forall>n. po_workerCount c = Some n \<longrightarrow> 0 < n \<and> n \<le> 16) \<and> (\<forall>n. po_maxQueuePerWorker c = Some n \<longrightarrow> 0 < n \<and> n \<le> 100) \<and>
      (\<forall>n. po_maxActiveQueries c = Some n \<longrightarrow> 0 < n \<and> n \<le> 10000) \<and> (\<forall>n. po_maxOverflowQueueSize c = Some n \<longrightarrow> 0 < n \<and> n \<le> 10000)"
    using assms unfolding validatePoolConfig_def append_is_Nil_conv check_count_ok by (elim conjE) (intro conjI)
  then show ?thesis
    using d by (simp add: resolvePoolConfig_def or_default_def split: option.split)
qed

definition MAX_WORKER_RESTARTS :: nat where "MAX_WORKER_RESTARTS = 3"
definition RESTART_WINDOW_MS :: ms where "RESTART_WINDOW_MS = 60000"

record 'r pool =
  wp_config :: pool_config
  wp_workers :: "(nat, 'r worker) jmap"
  wp_restartHistory :: "(nat, ms list) jmap"
  wp_workerIdCounter :: nat
  wp_initializing :: bool
  wp_initialized :: bool
  wp_shuttingDown :: bool

definition new_pool :: "pool_config \<Rightarrow> 'r pool" where
  "new_pool config =
     \<lparr>wp_config = config, wp_workers = [], wp_restartHistory = [], wp_workerIdCounter = 0, wp_initializing = False,
      wp_initialized = False, wp_shuttingDown = False\<rparr>"

definition pool_isReady :: "'r pool \<Rightarrow> bool" where
  "pool_isReady p = (wp_initialized p \<and> \<not> wp_shuttingDown p)"

definition upd_worker :: "nat \<Rightarrow> ('r worker \<Rightarrow> 'r worker) \<Rightarrow> 'r pool \<Rightarrow> 'r pool" where
  "upd_worker i f p =
     (case jm_get (wp_workers p) i of None \<Rightarrow> p | Some w \<Rightarrow> p\<lparr>wp_workers := jm_set i (f w) (wp_workers p)\<rparr>)"

subsection \<open>Workers come and go\<close>

definition begin_addWorker :: "ms \<Rightarrow> 'r pool \<Rightarrow> nat \<times> 'r pool" where
  "begin_addWorker now p =
     (let i = wp_workerIdCounter p + 1
      in (i, p\<lparr>wp_workerIdCounter := i, wp_workers := jm_set i (new_worker now) (wp_workers p)\<rparr>))"

text \<open>The database of worker \<open>i\<close> is there, or has failed; the error that is thrown.\<close>

definition end_addWorker :: "ms \<Rightarrow> nat \<Rightarrow> string + unit \<Rightarrow> 'r pool \<Rightarrow> string option \<times> 'r pool" where
  "end_addWorker now i result p =
     (case jm_get (wp_workers p) i of
        None \<Rightarrow> (None, p)
      | Some w \<Rightarrow>
          (case wk_initialize now result w of
             (Some e, w') \<Rightarrow> (Some e, p\<lparr>wp_workers := jm_delete i (wp_workers p)\<rparr>)
           | (None, w') \<Rightarrow> (None, p\<lparr>wp_workers := jm_set i w' (wp_workers p)\<rparr>)))"

definition removeWorker :: "nat \<Rightarrow> 'r pool \<Rightarrow> 'r pool" where
  "removeWorker i p =
     (case jm_get (wp_workers p) i of None \<Rightarrow> p | Some w \<Rightarrow> p\<lparr>wp_workers := jm_delete i (wp_workers p)\<rparr>)"

definition pool_shutdown :: "'r pool \<Rightarrow> 'r pool" where
  "pool_shutdown p =
     (if wp_shuttingDown p then p
      else p\<lparr>wp_shuttingDown := True, wp_workers := [], wp_initialized := False\<rparr>)"

fun add_workers :: "nat \<Rightarrow> ms \<Rightarrow> 'r pool \<Rightarrow> 'r pool" where
  "add_workers 0 now p = p"
| "add_workers (Suc n) now p = add_workers n now (snd (begin_addWorker now p))"

definition begin_initialize :: "ms \<Rightarrow> 'r pool \<Rightarrow> 'r pool" where
  "begin_initialize now p =
     (if wp_initialized p \<or> wp_initializing p then p
      else add_workers (pc_workerCount (wp_config p)) now (p\<lparr>wp_initializing := True\<rparr>))"

text \<open>All workers are there, or one has failed, or the time is up.\<close>

definition end_initialize :: "bool \<Rightarrow> 'r pool \<Rightarrow> 'r pool" where
  "end_initialize success p =
     (if success then p\<lparr>wp_initialized := True, wp_initializing := False\<rparr> else (pool_shutdown p)\<lparr>wp_initializing := False\<rparr>)"

subsection \<open>Restarts\<close>

definition recent_restarts :: "ms \<Rightarrow> nat \<Rightarrow> 'r pool \<Rightarrow> ms list" where
  "recent_restarts now i p = filter (\<lambda>t. now - t < RESTART_WINDOW_MS) (or_default (jm_get (wp_restartHistory p) i) [])"

definition isRestartAllowed :: "ms \<Rightarrow> nat \<Rightarrow> 'r pool \<Rightarrow> bool \<times> 'r pool" where
  "isRestartAllowed now i p =
     (let recent = recent_restarts now i p
      in (length recent < MAX_WORKER_RESTARTS, p\<lparr>wp_restartHistory := jm_set i recent (wp_restartHistory p)\<rparr>))"

definition recordRestart :: "ms \<Rightarrow> nat \<Rightarrow> 'r pool \<Rightarrow> 'r pool" where
  "recordRestart now i p =
     p\<lparr>wp_restartHistory := jm_set i (or_default (jm_get (wp_restartHistory p) i) [] @ [now]) (wp_restartHistory p)\<rparr>"

text \<open>\<open>restartWorker\<close> up to the initialization of the new worker, with its id.\<close>

definition restartWorker :: "ms \<Rightarrow> nat \<Rightarrow> 'r pool \<Rightarrow> nat option \<times> 'r pool" where
  "restartWorker now i p =
     (if \<not> pc_restartFailedWorkers (wp_config p) then (None, p)
      else (case jm_get (wp_workers p) i of
              None \<Rightarrow> (None, p)
            | Some w \<Rightarrow>
                if wk_status w \<noteq> WORKER_ERROR then (None, p)
                else (case isRestartAllowed now i p of
                        (False, p1) \<Rightarrow> (None, p1)
                      | (True, p1) \<Rightarrow>
                          (let (j, p2) = begin_addWorker now (removeWorker i (recordRestart now i p1)) in (Some j, p2)))))"

definition failedWorkerIds :: "'r pool \<Rightarrow> nat list" where
  "failedWorkerIds p = map fst (filter (\<lambda>(i, w). wk_status w = WORKER_ERROR) (wp_workers p))"

definition checkAndRestartFailedWorkers :: "ms \<Rightarrow> 'r pool \<Rightarrow> 'r pool" where
  "checkAndRestartFailedWorkers now p = fold (\<lambda>i p. snd (restartWorker now i p)) (failedWorkerIds p) p"

subsection \<open>The choice of a worker\<close>

definition eligible :: "'r worker \<Rightarrow> bool" where
  "eligible w = (wk_status w = IDLE \<or> wk_status w = BUSY)"

definition better :: "nat \<times> 'r worker \<Rightarrow> (nat \<times> nat) option \<Rightarrow> (nat \<times> nat) option" where
  "better = (\<lambda>(i, w) best.
     (case best of
        None \<Rightarrow> Some (i, wk_queueLength w)
      | Some (j, minQueue) \<Rightarrow> if wk_queueLength w < minQueue then Some (i, wk_queueLength w) else best))"

definition getLeastBusyWorker :: "'r pool \<Rightarrow> nat option" where
  "getLeastBusyWorker p =
     map_option fst (fold (\<lambda>(i, w) best.
       (if \<not> eligible w then best
        else if pc_maxQueuePerWorker (wp_config p) \<le> wk_queueLength w then best
        else better (i, w) best)) (wp_workers p) None)"

definition getAnyWorker :: "'r pool \<Rightarrow> nat option" where
  "getAnyWorker p =
     map_option fst (fold (\<lambda>(i, w) best. (if \<not> eligible w then best else better (i, w) best)) (wp_workers p) None)"

definition getWorkerIds :: "'r pool \<Rightarrow> nat list" where
  "getWorkerIds p = map fst (wp_workers p)"

definition getWorkerStatus :: "'r pool \<Rightarrow> worker_info list" where
  "getWorkerStatus p = map (\<lambda>(i, w). wk_getInfo w) (wp_workers p)"

definition activeWorkerCount :: "'r pool \<Rightarrow> nat" where
  "activeWorkerCount p = length (filter (\<lambda>(i, w). eligible w) (wp_workers p))"

definition totalQueueLength :: "'r pool \<Rightarrow> nat" where
  "totalQueueLength p = sum_list (map (\<lambda>(i, w). wk_queueLength w) (wp_workers p))"

definition isAtCapacity :: "'r pool \<Rightarrow> bool" where
  "isAtCapacity p = list_all (\<lambda>(i, w). eligible w \<longrightarrow> \<not> wk_queueLength w < pc_maxQueuePerWorker (wp_config p)) (wp_workers p)"

subsection \<open>The least busy worker\<close>

text \<open>Both searches are one fold over the workers that satisfy a condition.\<close>

lemma search_spec:
  "case fold (\<lambda>(i, w) best. if P w then better (i, w) best else best) ws best of
     None \<Rightarrow> best = None \<and> (\<forall>(i, w)\<in>set ws. \<not> P w)
   | Some (j, n) \<Rightarrow>
       (best = Some (j, n) \<or> (\<exists>w. (j, w) \<in> set ws \<and> P w \<and> wk_queueLength w = n)) \<and>
       (\<forall>(i, w)\<in>set ws. P w \<longrightarrow> n \<le> wk_queueLength w) \<and> (case best of None \<Rightarrow> True | Some (k, m) \<Rightarrow> n \<le> m)"
proof (induction ws arbitrary: best)
  case (Cons x ws)
  obtain i w where x: "x = (i, w)" by fastforce
  show ?case
    using Cons.IH [of "if P w then better (i, w) best else best"]
    by (auto simp: x better_def split: option.splits prod.splits if_splits)
qed (auto split: option.split)

lemma search_cong:
  fixes p :: "'r pool"
  shows "getLeastBusyWorker p = map_option fst (fold (\<lambda>(i, w) best.
     if eligible w \<and> wk_queueLength w < pc_maxQueuePerWorker (wp_config p) then better (i, w) best else best) (wp_workers p) None)"
proof -
  have "(\<lambda>(i, w :: 'r worker) best. if \<not> eligible w then best
          else if pc_maxQueuePerWorker (wp_config p) \<le> wk_queueLength w then best else better (i, w) best) =
        (\<lambda>(i, w) best. if eligible w \<and> wk_queueLength w < pc_maxQueuePerWorker (wp_config p) then better (i, w) best else best)"
    by (auto simp: fun_eq_iff)
  then show ?thesis
    by (simp only: getLeastBusyWorker_def)
qed

text \<open>The worker that is chosen is ready, below the limit and has the shortest queue of those that are; there is none exactly when
  \<open>isAtCapacity\<close> says so.
\<close>

theorem least_busy_worker:
  assumes "jm_ok (wp_workers p)"
  shows "(getLeastBusyWorker p = None \<longleftrightarrow> isAtCapacity p) \<and>
    (case getLeastBusyWorker p of None \<Rightarrow> True
     | Some i \<Rightarrow> (case jm_get (wp_workers p) i of
         None \<Rightarrow> False
       | Some w \<Rightarrow> eligible w \<and> wk_queueLength w < pc_maxQueuePerWorker (wp_config p) \<and>
           list_all (\<lambda>(j, v). eligible v \<longrightarrow> wk_queueLength w \<le> wk_queueLength v) (wp_workers p)))"
proof -
  let ?P = "\<lambda>w. eligible w \<and> wk_queueLength w < pc_maxQueuePerWorker (wp_config p)"
  define r where "r = fold (\<lambda>(i, w) best. if ?P w then better (i, w) best else best) (wp_workers p) None"
  have g: "getLeastBusyWorker p = map_option fst r"
    by (simp add: search_cong r_def)
  note s = search_spec [where P = ?P and ws = "wp_workers p" and best = None, folded r_def]
  show ?thesis
  proof (cases r)
    case None
    then show ?thesis
      using s by (auto simp: g isAtCapacity_def list_all_iff)
  next
    case (Some x)
    obtain j n where x: "x = (j, n)" by fastforce
    then obtain w where w: "(j, w) \<in> set (wp_workers p)" "?P w" "wk_queueLength w = n"
      and m: "\<And>i v. (i, v) \<in> set (wp_workers p) \<Longrightarrow> ?P v \<Longrightarrow> n \<le> wk_queueLength v"
      using s Some by auto
    have "jm_get (wp_workers p) j = Some w"
      using w(1) assms by (simp add: jm_get_Some_iff)
    moreover have "wk_queueLength w \<le> wk_queueLength v" if "(i, v) \<in> set (wp_workers p)" "eligible v" for i v
      using m [OF that(1)] that(2) w(2,3) by (cases "?P v") auto
    ultimately show ?thesis
      using w Some x by (auto simp: g isAtCapacity_def list_all_iff)
  qed
qed

definition sample_pool :: "nat pool" where
  "sample_pool = snd (end_addWorker 2 2 (Inr ()) (snd (end_addWorker 2 1 (Inr ()) (begin_initialize 1
     (new_pool (resolvePoolConfig None
        \<lparr>po_workerCount = Some 2, po_maxQueuePerWorker = Some 2, po_maxActiveQueries = None, po_maxOverflowQueueSize = None,
         po_defaultQueryTimeout = None, po_workerInitTimeout = None, po_enableTableLocking = None, po_restartFailedWorkers = None, po_workerIdleTimeout = None\<rparr>))))))"

lemma least_busy_worker_witness:
  "(getLeastBusyWorker sample_pool = None \<longleftrightarrow> isAtCapacity sample_pool) \<and>
    (case getLeastBusyWorker sample_pool of None \<Rightarrow> True
     | Some i \<Rightarrow> (case jm_get (wp_workers sample_pool) i of
         None \<Rightarrow> False
       | Some w \<Rightarrow> eligible w \<and> wk_queueLength w < pc_maxQueuePerWorker (wp_config sample_pool) \<and>
           list_all (\<lambda>(j, v). eligible v \<longrightarrow> wk_queueLength w \<le> wk_queueLength v) (wp_workers sample_pool)))"
  by (rule least_busy_worker) code_simp

lemma least_busy_example: "getLeastBusyWorker sample_pool = Some 1"
  by code_simp

subsection \<open>No worker is ever restarted\<close>

datatype 'r pool_event =
    PInit | PInitDone bool | PAdd | PAdded nat "string + unit" | PRemove nat | PShutdown | PRestart nat | PCheck
  | PWorker nat "nat \<Rightarrow> bool" "'r worker_event"

fun pool_step :: "ms \<times> 'r pool_event \<Rightarrow> 'r pool \<Rightarrow> 'r pool" where
  "pool_step (now, PInit) p = begin_initialize now p"
| "pool_step (now, PInitDone b) p = end_initialize b p"
| "pool_step (now, PAdd) p = snd (begin_addWorker now p)"
| "pool_step (now, PAdded i r) p = snd (end_addWorker now i r p)"
| "pool_step (now, PRemove i) p = removeWorker i p"
| "pool_step (now, PShutdown) p = pool_shutdown p"
| "pool_step (now, PRestart i) p = snd (restartWorker now i p)"
| "pool_step (now, PCheck) p = checkAndRestartFailedWorkers now p"
| "pool_step (now, PWorker i aborted (WInit r)) p = snd (end_addWorker now i r p)"
| "pool_step (now, PWorker i aborted e) p = upd_worker i (wk_step (now, aborted, e)) p"

definition healthy :: "'r pool \<Rightarrow> bool" where
  "healthy p \<longleftrightarrow> (\<forall>i w. jm_get (wp_workers p) i = Some w \<longrightarrow> wk_status w \<noteq> WORKER_ERROR)"

lemma settle_all_status: "wk_status (settle_all r qs w) = wk_status w"
  by (simp add: settle_all_fields)

lemma loop_head_status: "wk_status (loop_head now aborted w) \<noteq> WORKER_ERROR"
  by (simp add: loop_head_def start_query_def wk_settle_def split: list.split)

lemma worker_step_status:
  assumes "wk_status w \<noteq> WORKER_ERROR" "\<And>r. e \<noteq> WInit r"
  shows "wk_status (wk_step (now, aborted, e) w) \<noteq> WORKER_ERROR"
proof (cases e)
  case WShutdown
  then show ?thesis
    by (simp add: wk_shutdown_def Let_def settle_all_status wk_settle_def split: option.split)
qed (use assms in \<open>simp_all add: wk_execute_def processQueue_def wk_cancel_def wk_handleAbort_def db_answers_def wk_resume_def
      wk_settle_def loop_head_status split: option.split bool.split prod.split\<close>)

lemma healthy_add: "healthy p \<Longrightarrow> healthy (snd (begin_addWorker now p))"
  by (simp add: healthy_def begin_addWorker_def Let_def new_worker_def)

lemma healthy_add_workers: "healthy p \<Longrightarrow> healthy (add_workers n now p)"
  by (induction n now p rule: add_workers.induct) (simp_all add: healthy_add)

lemma healthy_end_add: "healthy p \<Longrightarrow> healthy (snd (end_addWorker now i r p))"
  by (auto simp: healthy_def end_addWorker_def wk_initialize_def split: option.splits sum.splits if_splits)

lemma healthy_restart: "healthy p \<Longrightarrow> restartWorker now i p = (None, p)"
  by (auto simp: healthy_def restartWorker_def split: option.split)

lemma healthy_check: "healthy p \<Longrightarrow> checkAndRestartFailedWorkers now p = p"
proof -
  assume h: "healthy p"
  have "fold (\<lambda>i p. snd (restartWorker now i p)) is p = p" for "is"
    by (induction "is") (simp_all add: healthy_restart [OF h])
  then show ?thesis
    by (simp add: checkAndRestartFailedWorkers_def)
qed

lemma healthy_upd: "healthy p \<Longrightarrow> (\<And>w. wk_status w \<noteq> WORKER_ERROR \<Longrightarrow> wk_status (f w) \<noteq> WORKER_ERROR) \<Longrightarrow> healthy (upd_worker i f p)"
  by (auto simp: healthy_def upd_worker_def split: option.split)

lemma healthy_step:
  assumes h: "healthy p"
  shows "healthy (pool_step e p)"
proof -
  obtain now ev where e: "e = (now, ev)" by fastforce
  show ?thesis
  proof (cases ev)
    case PInit
    have "healthy (p\<lparr>wp_initializing := True\<rparr>)"
      using h by (simp add: healthy_def)
    then show ?thesis
      using h by (simp add: e PInit begin_initialize_def healthy_add_workers)
  next
    case (PWorker i ab we)
    show ?thesis
    proof (cases "\<exists>r. we = WInit r")
      case True
      then show ?thesis using h by (auto simp: e PWorker healthy_end_add)
    next
      case False
      then have "pool_step e p = upd_worker i (wk_step (now, ab, we)) p"
        by (cases we) (simp_all add: e PWorker)
      then show ?thesis
        using False by (simp add: healthy_upd [OF h] worker_step_status del: wk_step.simps)
    qed
  next
    case PAdd
    then show ?thesis using h by (simp add: e healthy_add)
  next
    case (PAdded i r)
    then show ?thesis using h by (simp add: e healthy_end_add)
  qed (use h in \<open>auto simp: e healthy_restart healthy_check
      healthy_def end_initialize_def pool_shutdown_def removeWorker_def split: option.splits if_splits\<close>)
qed

lemma healthy_run: "healthy p \<Longrightarrow> healthy (fold pool_step es p)"
  by (induction es arbitrary: p) (simp_all add: healthy_step)

text \<open>
  A worker is in error only when its initialization has failed, and then it is not in the pool: whatever happens to a pool,
  checking for failed workers changes nothing and no restart is ever recorded.
\<close>

theorem restarts_never_happen:
  "let p = fold pool_step es (new_pool config)
   in checkAndRestartFailedWorkers now p = p \<and> restartWorker now i p = (None, p)"
proof -
  let ?p = "fold pool_step es (new_pool config)"
  have h: "healthy ?p"
    by (rule healthy_run) (simp add: healthy_def new_pool_def)
  then show ?thesis
    using h by (simp add: Let_def healthy_check healthy_restart)
qed

end
