(* ===== verification/Query_Coordinator.thy ===== *)
theory Query_Coordinator
  imports Worker_Pool Priority_Queue Table_Locks
begin

text \<open>
  The query coordinator (\<open>libs/foundation/bridge/src/wasm/pool/query-coordinator.ts\<close>), which puts the priority queue, the table locks and
  the worker pool together: admission, table locks, routing, the overflow queue, cancellation, timeouts and
  shutdown. A call of \<open>query\<close> is a number; its item remembers where the asynchronous functions that serve it
  wait. Continuations of promises are microtasks; the hops between the \<open>await\<close>s of one chain are one microtask.
  Events of the host (calls, timers, aborted signals, answers of the database) are the other steps.
\<close>

record query_request =
  qr_id :: "string option"
  qr_sql :: string
  qr_tables :: "string list"
  qr_mode :: "lock_mode option"
  qr_priority :: "priority_level option"
  qr_timeoutMs :: "ms option"

datatype 'r pool_result =
    PoolResult 'r nat ms ms
  | QueryCancelled string
  | QueryTimeout ms
  | QueryFailed string
  | PoolCapacity nat nat
  | PoolShutdown

text \<open>Where a query is; \<open>AwaitLocks\<close> and \<open>OnWorker\<close> name the worker that was chosen.\<close>

datatype query_phase = Starting | Overflowed | AwaitLocks nat | OnWorker nat | Over

record query_item =
  it_id :: string
  it_request :: query_request
  it_submittedAt :: ms
  it_startTime :: ms
  it_phase :: query_phase
  it_viaOverflow :: bool
  it_due :: "ms option"
  it_listening :: bool

datatype 'r microtask =
    StartQuery nat
  | LocksHeld nat
  | WorkerSettled nat "'r query_outcome"
  | ResumeWorker nat
  | ProcessOverflow

record 'r coordinator =
  co_pool :: "'r pool"
  co_locks :: lock_sys
  co_overflow :: "nat pqueue"
  co_initialized :: bool
  co_shuttingDown :: bool
  co_totalExecuted :: nat
  co_active :: "(string, nat) jmap"
  co_queries :: "query_item list"
  co_results :: "(nat, 'r pool_result) jmap"
  co_microtasks :: "'r microtask list"
  co_aborted :: "nat list"
  co_waiting :: "nat list"

definition new_coordinator :: "pool_config \<Rightarrow> 'r coordinator" where
  "new_coordinator config =
     \<lparr>co_pool = new_pool config, co_locks = sys_init, co_overflow = pq_empty, co_initialized = False, co_shuttingDown = False,
      co_totalExecuted = 0, co_active = [], co_queries = [], co_results = [], co_microtasks = [], co_aborted = [], co_waiting = []\<rparr>"

abbreviation co_config :: "'r coordinator \<Rightarrow> pool_config" where
  "co_config c \<equiv> wp_config (co_pool c)"

definition co_isReady :: "'r coordinator \<Rightarrow> bool" where
  "co_isReady c = (co_initialized c \<and> \<not> co_shuttingDown c)"

definition the_item :: "nat \<Rightarrow> 'r coordinator \<Rightarrow> query_item" where
  "the_item n c = co_queries c ! n"

definition upd_item :: "nat \<Rightarrow> (query_item \<Rightarrow> query_item) \<Rightarrow> 'r coordinator \<Rightarrow> 'r coordinator" where
  "upd_item n f c = c\<lparr>co_queries := (co_queries c)[n := f (co_queries c ! n)]\<rparr>"

definition set_phase :: "nat \<Rightarrow> query_phase \<Rightarrow> 'r coordinator \<Rightarrow> 'r coordinator" where
  "set_phase n ph = upd_item n (\<lambda>i. i\<lparr>it_phase := ph\<rparr>)"

definition item_mode :: "query_item \<Rightarrow> lock_mode" where
  "item_mode i = or_default (qr_mode (it_request i)) READ"

definition is_aborted :: "'r coordinator \<Rightarrow> nat \<Rightarrow> bool" where
  "is_aborted c n = (n \<in> set (co_aborted c))"

definition later :: "'r microtask list \<Rightarrow> 'r coordinator \<Rightarrow> 'r coordinator" where
  "later ts c = c\<lparr>co_microtasks := co_microtasks c @ ts\<rparr>"

text \<open>The promise of the caller settles once.\<close>

definition settle_query :: "nat \<Rightarrow> 'r pool_result \<Rightarrow> 'r coordinator \<Rightarrow> 'r coordinator" where
  "settle_query n r c = c\<lparr>co_results := settle_once n r (co_results c)\<rparr>"

definition cleanupActiveQuery :: "string \<Rightarrow> 'r coordinator \<Rightarrow> 'r coordinator" where
  "cleanupActiveQuery i c =
     (case jm_get (co_active c) i of
        None \<Rightarrow> c
      | Some n \<Rightarrow> (upd_item n (\<lambda>i. i\<lparr>it_due := None, it_listening := False\<rparr>) c)\<lparr>co_active := jm_delete i (co_active c)\<rparr>)"

text \<open>\<open>resolve\<close> and \<open>reject\<close> of the query item.\<close>

definition settle_item :: "nat \<Rightarrow> 'r pool_result \<Rightarrow> 'r coordinator \<Rightarrow> 'r coordinator" where
  "settle_item n r c = settle_query n r (cleanupActiveQuery (it_id (the_item n c)) c)"

subsection \<open>Workers and locks\<close>

text \<open>An operation on a worker; promises it settles and a loop it makes ready to go on become microtasks.\<close>

definition newly_settled :: "'r worker \<Rightarrow> 'r worker \<Rightarrow> (nat \<times> 'r query_outcome) list" where
  "newly_settled w w' = filter (\<lambda>(n, r). \<not> jm_has (wk_settled w) n) (wk_settled w')"

definition loop_ready :: "'r worker \<Rightarrow> 'r worker \<Rightarrow> bool" where
  "loop_ready w w' = (wk_loop w' \<noteq> wk_loop w \<and> map_option snd (wk_loop w') = Some True)"

definition worker_op :: "nat \<Rightarrow> ('r worker \<Rightarrow> 'r worker) \<Rightarrow> 'r coordinator \<Rightarrow> 'r coordinator" where
  "worker_op i f c =
     (case jm_get (wp_workers (co_pool c)) i of
        None \<Rightarrow> c
      | Some w \<Rightarrow>
          later (map (\<lambda>(n, r). WorkerSettled n r) (newly_settled w (f w)) @ (if loop_ready w (f w) then [ResumeWorker i] else []))
            (c\<lparr>co_pool := upd_worker i f (co_pool c)\<rparr>))"

text \<open>\<open>releaseLocks\<close>; a request that now has all its locks goes on.\<close>

definition release_locks :: "nat \<Rightarrow> 'r coordinator \<Rightarrow> 'r coordinator" where
  "release_locks n c =
     (case reqs (co_locks c) n of
        None \<Rightarrow> c
      | Some (ts, m, p) \<Rightarrow>
          (let woken = fst (releaseLocks ts m (registry (co_locks c)));
               locks = sys_release n ts m (co_locks c);
               ready = filter (\<lambda>r. case reqs locks r of Some (ts, m, []) \<Rightarrow> True | _ \<Rightarrow> False) (remdups (map fst woken))
           in later (map LocksHeld ready) (c\<lparr>co_locks := locks\<rparr>)))"

definition to_result :: "ms \<Rightarrow> query_item \<Rightarrow> nat \<Rightarrow> 'r query_outcome \<Rightarrow> 'r pool_result" where
  "to_result now i w r =
     (case r of
        Resolved x \<Rightarrow> PoolResult x w (it_startTime i - it_submittedAt i) (now - it_submittedAt i)
      | Cancelled why \<Rightarrow> QueryCancelled why
      | ExecutionFailed e \<Rightarrow> QueryFailed e
      | WorkerFailed e \<Rightarrow> QueryFailed e)"

text \<open>\<open>executeQueryOnWorker\<close> up to its \<open>await\<close>. Where the worker has gone with the pool, it refuses.\<close>

definition executeQueryOnWorker :: "ms \<Rightarrow> nat \<Rightarrow> nat \<Rightarrow> 'r coordinator \<Rightarrow> 'r coordinator" where
  "executeQueryOnWorker now n w c =
     (let c1 = upd_item n (\<lambda>i. i\<lparr>it_phase := OnWorker w, it_startTime := now\<rparr>) c
      in (if jm_get (wp_workers (co_pool c1)) w = None
          then later [WorkerSettled n (WorkerFailed ''Worker is shut down'')] c1
          else worker_op w (wk_execute now (is_aborted c1) \<lparr>qq_no = n, qq_id = it_id (the_item n c1)\<rparr>) c1))"

text \<open>
  \<open>executeQueryOnWorkerWithLocks\<close>, up to its first \<open>await\<close> and from the point where the locks are held; the flag says that it
  has thrown because the signal is aborted, after which its locks are released.
\<close>

definition with_locks :: "ms \<Rightarrow> nat \<Rightarrow> nat \<Rightarrow> 'r coordinator \<Rightarrow> bool \<times> 'r coordinator" where
  "with_locks now n w c =
     (if is_aborted c n then (True, set_phase n Over (release_locks n c)) else (False, executeQueryOnWorker now n w c))"

definition executeQueryOnWorkerWithLocks :: "ms \<Rightarrow> nat \<Rightarrow> nat \<Rightarrow> 'r coordinator \<Rightarrow> bool \<times> 'r coordinator" where
  "executeQueryOnWorkerWithLocks now n w c =
     (let i = the_item n c; tables = qr_tables (it_request i)
      in (if pc_enableTableLocking (co_config c) \<and> tables \<noteq> []
          then (let locks = sys_acquire n tables (item_mode i) (co_locks c);
                    c1 = set_phase n (AwaitLocks w) (c\<lparr>co_locks := locks\<rparr>)
                in (False, if map_option (\<lambda>(ts, m, p). p) (reqs locks n) = Some [] then later [LocksHeld n] c1 else c1))
          else with_locks now n w c))"

text \<open>In the overflow queue an exception ends the chain of promises: nobody rejects the query.\<close>

definition run_overflowed :: "nat \<Rightarrow> bool \<times> 'r coordinator \<Rightarrow> 'r coordinator" where
  "run_overflowed n = (\<lambda>(thrown, c). if thrown then later [ProcessOverflow] c else c)"

subsection \<open>The overflow queue\<close>

definition MAX_BATCH_SIZE :: nat where "MAX_BATCH_SIZE = 10"

fun dispatch_overflow :: "nat \<Rightarrow> ms \<Rightarrow> 'r coordinator \<Rightarrow> 'r coordinator" where
  "dispatch_overflow 0 now c = c"
| "dispatch_overflow (Suc k) now c =
     (if co_shuttingDown c \<or> pq_isEmpty (co_overflow c) then c
      else (case getLeastBusyWorker (co_pool c) of
              None \<Rightarrow> c
            | Some w \<Rightarrow>
                (case dequeue (co_overflow c) of
                   (None, q) \<Rightarrow> c\<lparr>co_overflow := q\<rparr>
                 | (Some n, q) \<Rightarrow>
                     dispatch_overflow k now
                       (run_overflowed n (executeQueryOnWorkerWithLocks now n w
                          (upd_item n (\<lambda>i. i\<lparr>it_viaOverflow := True\<rparr>) (c\<lparr>co_overflow := q\<rparr>)))))))"

definition processOverflowQueue :: "ms \<Rightarrow> 'r coordinator \<Rightarrow> 'r coordinator" where
  "processOverflowQueue now c =
     (if pq_isEmpty (co_overflow c) \<or> co_shuttingDown c then c
      else (let c1 = dispatch_overflow MAX_BATCH_SIZE now c
            in (if \<not> pq_isEmpty (co_overflow c1) \<and> \<not> co_shuttingDown c1 then later [ProcessOverflow] c1 else c1)))"

text \<open>The \<open>finally\<close> blocks at the end of a query.\<close>

definition after_query :: "ms \<Rightarrow> nat \<Rightarrow> 'r coordinator \<Rightarrow> 'r coordinator" where
  "after_query now n c =
     (let c1 = set_phase n Over (release_locks n c)
      in (if it_viaOverflow (the_item n c) then later [ProcessOverflow] c1 else processOverflowQueue now c1))"

subsection \<open>Queries\<close>

definition run_direct :: "ms \<Rightarrow> nat \<Rightarrow> bool \<times> 'r coordinator \<Rightarrow> 'r coordinator" where
  "run_direct now n = (\<lambda>(thrown, c). if thrown then processOverflowQueue now (settle_item n (QueryCancelled ''user'') c) else c)"

definition executeQuery :: "ms \<Rightarrow> nat \<Rightarrow> 'r coordinator \<Rightarrow> 'r coordinator" where
  "executeQuery now n c =
     (case getLeastBusyWorker (co_pool c) of
        None \<Rightarrow>
          if pc_maxOverflowQueueSize (co_config c) \<le> pq_size (co_overflow c)
          then processOverflowQueue now
                 (set_phase n Over (settle_item n (PoolCapacity (pc_maxOverflowQueueSize (co_config c)) (pq_size (co_overflow c))) c))
          else processOverflowQueue now
                 (set_phase n Overflowed
                    (c\<lparr>co_overflow := snd (enqueue now now n (or_default (qr_priority (it_request (the_item n c))) NORMAL) (co_overflow c))\<rparr>))
      | Some w \<Rightarrow> run_direct now n (executeQueryOnWorkerWithLocks now n w c))"

text \<open>\<open>query\<close> once the coordinator is initialized. \<open>gen\<close> makes the ids.\<close>

definition start_query_at :: "ms \<Rightarrow> nat \<Rightarrow> 'r coordinator \<Rightarrow> 'r coordinator" where
  "start_query_at now n c =
     (if co_shuttingDown c then set_phase n Over (settle_query n PoolShutdown c)
      else if pc_maxActiveQueries (co_config c) \<le> length (co_active c)
      then set_phase n Over (settle_query n (PoolCapacity (pc_maxActiveQueries (co_config c)) (length (co_active c))) c)
      else if is_aborted c n then set_phase n Over (settle_query n (QueryCancelled ''user'') c)
      else (let i = the_item n c;
                timeoutMs = or_default (qr_timeoutMs (it_request i)) (pc_defaultQueryTimeout (co_config c));
                due = (if timeoutMs > 0 then Some (now + timeoutMs) else None);
                c1 = upd_item n (\<lambda>i. i\<lparr>it_submittedAt := now, it_due := due, it_listening := True\<rparr>) c
            in executeQuery now n (c1\<lparr>co_active := jm_set (it_id i) n (co_active c1)\<rparr>)))"

definition submit :: "ms \<Rightarrow> (nat \<Rightarrow> string) \<Rightarrow> query_request \<Rightarrow> 'r coordinator \<Rightarrow> 'r coordinator" where
  "submit now gen r c =
     (let n = length (co_queries c);
          i = \<lparr>it_id = or_default (qr_id r) (gen n), it_request = r, it_submittedAt = now, it_startTime = now, it_phase = Starting,
               it_viaOverflow = False, it_due = None, it_listening = False\<rparr>;
          c1 = c\<lparr>co_queries := co_queries c @ [i]\<rparr>
      in (if co_initialized c1 then start_query_at now n c1
          else if wp_initialized (co_pool c1) \<or> wp_initializing (co_pool c1) then later [StartQuery n] c1
          else c1\<lparr>co_pool := begin_initialize now (co_pool c1), co_waiting := co_waiting c1 @ [n]\<rparr>))"

text \<open>Every worker is shut down before the pool forgets it.\<close>

definition close_workers :: "'r coordinator \<Rightarrow> 'r coordinator" where
  "close_workers c = fold (\<lambda>w. worker_op w wk_shutdown) (getWorkerIds (co_pool c)) c"

text \<open>The promise of \<open>pool.initialize\<close> settles.\<close>

definition pool_initialized :: "ms \<Rightarrow> bool \<Rightarrow> 'r coordinator \<Rightarrow> 'r coordinator" where
  "pool_initialized now success c =
     (let c1 = (if success \<or> wp_shuttingDown (co_pool c) then c else close_workers c);
          c2 = c1\<lparr>co_pool := end_initialize success (co_pool c1), co_waiting := []\<rparr>
      in (if success then later (map StartQuery (co_waiting c)) c2
          else fold (\<lambda>n c. set_phase n Over (settle_query n (QueryFailed ''Pool initialization failed'') c)) (co_waiting c) c2))"

text \<open>The locks of a query are held.\<close>

definition locks_held :: "ms \<Rightarrow> nat \<Rightarrow> 'r coordinator \<Rightarrow> 'r coordinator" where
  "locks_held now n c =
     (case it_phase (the_item n c) of
        AwaitLocks w \<Rightarrow>
          (if it_viaOverflow (the_item n c) then run_overflowed n (with_locks now n w c) else run_direct now n (with_locks now n w c))
      | _ \<Rightarrow> c)"

definition worker_settled :: "ms \<Rightarrow> nat \<Rightarrow> 'r query_outcome \<Rightarrow> 'r coordinator \<Rightarrow> 'r coordinator" where
  "worker_settled now n r c =
     (case it_phase (the_item n c) of
        OnWorker w \<Rightarrow>
          (let c1 = (case r of Resolved _ \<Rightarrow> c\<lparr>co_totalExecuted := co_totalExecuted c + 1\<rparr> | _ \<Rightarrow> c)
           in after_query now n (settle_item n (to_result now (the_item n c) w r) c1))
      | _ \<Rightarrow> c)"

subsection \<open>Cancellation, timeouts, shutdown\<close>

fun cancel_on :: "nat list \<Rightarrow> string \<Rightarrow> 'r coordinator \<Rightarrow> bool \<times> 'r coordinator" where
  "cancel_on [] i c = (False, c)"
| "cancel_on (w # ws) i c =
     (case jm_get (wp_workers (co_pool c)) w of
        None \<Rightarrow> cancel_on ws i c
      | Some v \<Rightarrow> if fst (wk_cancel i v) then (True, worker_op w (\<lambda>v. snd (wk_cancel i v)) c) else cancel_on ws i c)"

definition cancelQuery :: "string \<Rightarrow> 'r coordinator \<Rightarrow> bool \<times> 'r coordinator" where
  "cancelQuery i c =
     (case jm_get (co_active c) i of
        None \<Rightarrow> (False, c)
      | Some a \<Rightarrow>
          (let c1 = cleanupActiveQuery i c
           in (case pq_remove (\<lambda>n. it_id (the_item n c1) = i) (co_overflow c1) of
                 (Some n, q) \<Rightarrow> (True, settle_query a (QueryCancelled ''user'') (set_phase n Over (c1\<lparr>co_overflow := q\<rparr>)))
               | (None, q) \<Rightarrow> cancel_on (getWorkerIds (co_pool c1)) i c1)))"

definition query_timed_out :: "ms \<Rightarrow> nat \<Rightarrow> 'r coordinator \<Rightarrow> 'r coordinator" where
  "query_timed_out now n c =
     (case it_due (the_item n c) of
        None \<Rightarrow> c
      | Some due \<Rightarrow>
          if due \<le> now
          then settle_query n
                 (QueryTimeout (or_default (qr_timeoutMs (it_request (the_item n c))) (pc_defaultQueryTimeout (co_config c))))
                 (snd (cancelQuery (it_id (the_item n c)) (upd_item n (\<lambda>i. i\<lparr>it_due := None\<rparr>) c)))
          else c)"

text \<open>The signal of query \<open>n\<close> is aborted: the handler of the coordinator runs, then that of the worker.\<close>

definition signal_aborted :: "nat \<Rightarrow> 'r coordinator \<Rightarrow> 'r coordinator" where
  "signal_aborted n c =
     (let i = it_id (the_item n c);
          c1 = c\<lparr>co_aborted := n # co_aborted c\<rparr>;
          c2 = (if it_listening (the_item n c1) then snd (cancelQuery i (upd_item n (\<lambda>i. i\<lparr>it_listening := False\<rparr>) c1)) else c1)
      in (case it_phase (the_item n c2) of OnWorker w \<Rightarrow> worker_op w (wk_handleAbort i) c2 | _ \<Rightarrow> c2))"

definition clear_locks :: "lock_sys \<Rightarrow> req list \<times> lock_sys" where
  "clear_locks s =
     (let (woken, reg) = clearAll (registry s)
      in (remdups (map fst woken),
          \<lparr>registry = reg, reqs = (\<lambda>w. map_option (\<lambda>(ts, m, p). (ts, m, filter (\<lambda>t. (w, t) \<notin> set woken) p)) (reqs s w))\<rparr>))"

definition co_shutdown :: "'r coordinator \<Rightarrow> 'r coordinator" where
  "co_shutdown c =
     (if co_shuttingDown c then c
      else (let c1 = fold (\<lambda>(i, n) c. settle_query n PoolShutdown (cleanupActiveQuery i c)) (co_active c) (c\<lparr>co_shuttingDown := True\<rparr>);
                (items, q) = pq_clear (co_overflow c1);
                c2 = fold (\<lambda>n c. set_phase n Over (settle_item n PoolShutdown c)) items (c1\<lparr>co_active := [], co_overflow := q\<rparr>);
                (ready, locks) = clear_locks (co_locks c2);
                c3 = later (map LocksHeld ready) (c2\<lparr>co_locks := locks\<rparr>);
                c4 = close_workers c3
            in c4\<lparr>co_pool := pool_shutdown (co_pool c4), co_initialized := False\<rparr>))"

record pool_status =
  ps_ready :: bool
  ps_shuttingDown :: bool
  ps_workers :: "worker_info list"
  ps_globalQueueLength :: nat
  ps_totalExecuted :: nat
  ps_totalPending :: nat

definition co_getStatus :: "'r coordinator \<Rightarrow> pool_status" where
  "co_getStatus c =
     (let workers = getWorkerStatus (co_pool c)
      in \<lparr>ps_ready = co_isReady c, ps_shuttingDown = co_shuttingDown c, ps_workers = workers,
          ps_globalQueueLength = pq_size (co_overflow c), ps_totalExecuted = co_totalExecuted c,
          ps_totalPending = sum_list (map wi_queueLength workers) + pq_size (co_overflow c)\<rparr>)"

subsection \<open>Steps\<close>

datatype 'r co_event =
    Query query_request
  | WorkerReady nat "string + unit"
  | PoolInitialized bool
  | Answer nat "string + 'r"
  | Cancel string
  | Timeout nat
  | Abort nat
  | Shutdown
  | Microtask

definition run_microtask :: "ms \<Rightarrow> 'r coordinator \<Rightarrow> 'r coordinator" where
  "run_microtask now c =
     (case co_microtasks c of
        [] \<Rightarrow> c
      | t # ts \<Rightarrow>
          (let c1 = c\<lparr>co_microtasks := ts\<rparr>
           in (case t of
                 StartQuery n \<Rightarrow> start_query_at now n (c1\<lparr>co_initialized := True\<rparr>)
               | LocksHeld n \<Rightarrow> locks_held now n c1
               | WorkerSettled n r \<Rightarrow> worker_settled now n r c1
               | ResumeWorker w \<Rightarrow> worker_op w (wk_resume now (is_aborted c1)) c1
               | ProcessOverflow \<Rightarrow> processOverflowQueue now c1)))"

fun co_step :: "(nat \<Rightarrow> string) \<Rightarrow> ms \<times> 'r co_event \<Rightarrow> 'r coordinator \<Rightarrow> 'r coordinator" where
  "co_step gen (now, Query r) c = submit now gen r c"
| "co_step gen (now, WorkerReady w r) c = c\<lparr>co_pool := snd (end_addWorker now w r (co_pool c))\<rparr>"
| "co_step gen (now, PoolInitialized b) c = (if wp_initializing (co_pool c) then pool_initialized now b c else c)"
| "co_step gen (now, Answer w r) c = worker_op w (db_answers (is_aborted c) r) c"
| "co_step gen (now, Cancel i) c = snd (cancelQuery i c)"
| "co_step gen (now, Timeout n) c = (if n < length (co_queries c) then query_timed_out now n c else c)"
| "co_step gen (now, Abort n) c = (if n < length (co_queries c) then signal_aborted n c else c)"
| "co_step gen (now, Shutdown) c = co_shutdown c"
| "co_step gen (now, Microtask) c = run_microtask now c"

text \<open>The host runs events only when no microtask is left.\<close>

definition enabled :: "'r co_event \<Rightarrow> 'r coordinator \<Rightarrow> bool" where
  "enabled e c = (case e of Microtask \<Rightarrow> co_microtasks c \<noteq> [] | _ \<Rightarrow> co_microtasks c = [])"

fun co_run :: "(nat \<Rightarrow> string) \<Rightarrow> (ms \<times> 'r co_event) list \<Rightarrow> 'r coordinator \<Rightarrow> 'r coordinator option" where
  "co_run gen [] c = Some c"
| "co_run gen (e # es) c = (if enabled (snd e) c then co_run gen es (co_step gen e c) else None)"

subsection \<open>A full overflow queue takes the event loop\<close>

text \<open>
  \<open>processOverflowQueue\<close> schedules itself as a microtask as long as the queue is not empty, also when no worker can
  take a query. In such a state the only step there is changes nothing.
\<close>

definition starved :: "'r coordinator \<Rightarrow> bool" where
  "starved c \<longleftrightarrow>
     co_microtasks c = [ProcessOverflow] \<and> \<not> pq_isEmpty (co_overflow c) \<and> \<not> co_shuttingDown c \<and> getLeastBusyWorker (co_pool c) = None"

lemma dispatch_without_worker: "getLeastBusyWorker (co_pool c) = None \<Longrightarrow> dispatch_overflow k now c = c"
  by (cases k) simp_all

lemma process_without_worker:
  "getLeastBusyWorker (co_pool c) = None \<Longrightarrow> \<not> pq_isEmpty (co_overflow c) \<Longrightarrow> \<not> co_shuttingDown c \<Longrightarrow>
   processOverflowQueue now c = later [ProcessOverflow] c"
  by (simp add: processOverflowQueue_def dispatch_without_worker)

lemma starved_step: "starved c \<Longrightarrow> enabled (snd e) c \<Longrightarrow> co_step gen e c = c"
  by (cases e; cases "snd e") (auto simp: starved_def enabled_def run_microtask_def process_without_worker later_def)

lemma starved_run: "starved c \<Longrightarrow> co_run gen es c \<in> {None, Some c}"
  by (induction es) (auto simp: starved_step)

lemma enqueue_not_empty: "\<not> pq_isEmpty (snd (enqueue t t' x p q))"
  by (cases "idIndex q") (auto simp: pq_isEmpty_def enqueue_def Let_def split: if_splits)

lemma overflowing_query_starves:
  assumes "co_isReady c" "co_microtasks c = []" "getLeastBusyWorker (co_pool c) = None"
    and "length (co_active c) < pc_maxActiveQueries (co_config c)" "pq_size (co_overflow c) < pc_maxOverflowQueueSize (co_config c)"
    and "\<not> is_aborted c (length (co_queries c))"
  shows "starved (co_step gen (now, Query r) c)"
  using assms
  by (simp add: co_isReady_def submit_def start_query_at_def executeQuery_def is_aborted_def upd_item_def set_phase_def
      process_without_worker later_def starved_def enqueue_not_empty Let_def)

text \<open>C29 A query that arrives when every worker has a full queue is the end of the program: from then on no run, however
  long, changes anything, and no answer of a database, timer or call is ever handled.
\<close>

theorem overflow_starves_event_loop:
  assumes "co_isReady c" "co_microtasks c = []" "getLeastBusyWorker (co_pool c) = None"
    and "length (co_active c) < pc_maxActiveQueries (co_config c)" "pq_size (co_overflow c) < pc_maxOverflowQueueSize (co_config c)"
    and "\<not> is_aborted c (length (co_queries c))"
  shows "let c' = co_step gen (now, Query r) c
    in co_run gen es c' \<in> {None, Some c'} \<and> (\<forall>e. snd e \<noteq> Microtask \<longrightarrow> co_run gen (es @ [e]) c' = None)"
proof -
  note s = overflowing_query_starves [OF assms, of gen now r]
  have "co_run gen (es @ [e]) c' = None" if "starved c'" "snd e \<noteq> Microtask" for c' :: "'a coordinator" and e
    using that by (induction es) (auto simp: starved_step, auto simp: starved_def enabled_def split: co_event.splits)
  then show ?thesis
    using starved_run [OF s, of gen es] s by (simp add: Let_def)
qed

definition full_pool_run :: "(ms \<times> nat co_event) list" where
  "full_pool_run =
     map (Pair 1) [Query \<lparr>qr_id = None, qr_sql = ''a'', qr_tables = [], qr_mode = None, qr_priority = None, qr_timeoutMs = None\<rparr>,
       WorkerReady 1 (Inr ()), PoolInitialized True, Microtask]"

definition small_config :: pool_config where
  "small_config = resolvePoolConfig None
     \<lparr>po_workerCount = Some 1, po_maxQueuePerWorker = Some 1, po_maxActiveQueries = None, po_maxOverflowQueueSize = None,
      po_defaultQueryTimeout = None, po_workerInitTimeout = None, po_enableTableLocking = None, po_restartFailedWorkers = None, po_workerIdleTimeout = None\<rparr>"

definition full_coordinator :: "nat coordinator" where
  "full_coordinator = (case co_run show_nat full_pool_run (new_coordinator small_config) of Some c \<Rightarrow> c | None \<Rightarrow> new_coordinator small_config)"

lemma overflow_starves_event_loop_witness:
  "let c' = co_step show_nat (2, Query \<lparr>qr_id = None, qr_sql = ''b'', qr_tables = [], qr_mode = None, qr_priority = None, qr_timeoutMs = None\<rparr>)
       full_coordinator
   in co_run show_nat [(9, Microtask), (9, Microtask)] c' \<in> {None, Some c'} \<and>
      (\<forall>e. snd e \<noteq> Microtask \<longrightarrow> co_run show_nat ([(9, Microtask), (9, Microtask)] @ [e]) c' = None)"
proof (rule overflow_starves_event_loop)
  show "getLeastBusyWorker (co_pool full_coordinator) = None" by code_simp
qed (code_simp+)

lemma full_coordinator_runs_one: "map (\<lambda>(i, w). (wk_asked w, wk_status w)) (wp_workers (co_pool full_coordinator)) = [([0], BUSY)]"
  by code_simp

end
