(* ===== verification/Coordinator_Exclusion.thy ===== *)
theory Coordinator_Exclusion
  imports Query_Coordinator
begin

text \<open>
  The coordinator, the table locks and the workers together: two queries that the databases of the pool run at the same
  time and that name a common table only read it. The invariant ties the phase of a query to its lock request
  and to the worker that has it.
\<close>

subsection \<open>One worker\<close>

definition live_nos :: "'r worker \<Rightarrow> nat set" where
  "live_nos w = set (queued_nos w) \<union> running_nos w"

definition current_nos :: "'r worker \<Rightarrow> nat set" where
  "current_nos w = qq_no ` set_option (wk_current w)"

definition single :: "'r worker \<Rightarrow> bool" where
  "single w \<longleftrightarrow>
     (wk_isProcessing w \<longleftrightarrow> wk_loop w \<noteq> None) \<and> distinct (queued_nos w) \<and> running_nos w \<inter> set (queued_nos w) = {} \<and>
     live_nos w \<inter> settled_nos w = {} \<and> current_nos w \<subseteq> running_nos w \<union> settled_nos w"

text \<open>What an operation of a worker may do to the queries it has; \<open>new\<close> are those it is given.\<close>

definition worker_moves :: "nat set \<Rightarrow> 'r worker \<Rightarrow> 'r worker \<Rightarrow> bool" where
  "worker_moves new w w' \<longleftrightarrow>
     (single w \<longrightarrow> new \<inter> (live_nos w \<union> settled_nos w) = {} \<longrightarrow>
        single w' \<and> live_nos w' \<subseteq> live_nos w \<union> new \<and> settled_nos w \<subseteq> settled_nos w' \<and>
        settled_nos w' \<subseteq> settled_nos w \<union> live_nos w \<union> new)"

lemmas worker_parts = live_nos_def current_nos_def single_def queued_nos_def running_nos_def settled_nos_def

lemma single_new: "single (new_worker now)"
  by (simp add: worker_parts new_worker_def)

lemma wk_settle_fields [simp]:
  "wk_queue (wk_settle n r w) = wk_queue w" "wk_loop (wk_settle n r w) = wk_loop w"
  "wk_current (wk_settle n r w) = wk_current w"
  "wk_isProcessing (wk_settle n r w) = wk_isProcessing w" "wk_settled (wk_settle n r w) = settle_once n r (wk_settled w)"
  by (simp_all add: wk_settle_def)

lemma single_loop_head:
  assumes "distinct (queued_nos w)" "set (queued_nos w) \<inter> settled_nos w = {}" "wk_isProcessing w"
    and "current_nos w \<subseteq> settled_nos w"
  shows "single (loop_head now ab w) \<and> live_nos (loop_head now ab w) \<subseteq> set (queued_nos w) \<and>
    settled_nos w \<subseteq> settled_nos (loop_head now ab w) \<and> settled_nos (loop_head now ab w) \<subseteq> settled_nos w \<union> set (queued_nos w)"
  using assms by (cases "wk_queue w") (auto simp: worker_parts loop_head_def start_query_def image_iff)

lemma singleD:
  "single w \<Longrightarrow> distinct (queued_nos w)" "single w \<Longrightarrow> set (queued_nos w) \<inter> settled_nos w = {}"
  "single w \<Longrightarrow> set (queued_nos w) \<subseteq> live_nos w" "single w \<Longrightarrow> wk_isProcessing w \<longleftrightarrow> wk_loop w \<noteq> None"
  "single w \<Longrightarrow> current_nos w \<subseteq> running_nos w \<union> settled_nos w"
  by (auto simp: single_def live_nos_def)

lemma idle_current: "single w \<Longrightarrow> \<not> wk_isProcessing w \<Longrightarrow> current_nos w \<subseteq> settled_nos w"
  by (cases "wk_loop w") (simp_all add: single_def running_nos_def)

lemma moves_execute: "worker_moves {qq_no q} w (wk_execute now ab q w)"
proof -
  let ?v = "w\<lparr>wk_queue := wk_queue w @ [q], wk_isProcessing := True\<rparr>"
  have v: "queued_nos ?v = queued_nos w @ [qq_no q]" "settled_nos ?v = settled_nos w" "current_nos ?v = current_nos w"
    by (simp_all add: worker_parts)
  have h: "worker_moves {qq_no q} w (loop_head now ab ?v)" if p: "\<not> wk_isProcessing w"
    unfolding worker_moves_def
  proof (intro impI)
    assume w: "single w" and q: "{qq_no q} \<inter> (live_nos w \<union> settled_nos w) = {}"
    have "distinct (queued_nos ?v)" "set (queued_nos ?v) \<inter> settled_nos ?v = {}" "wk_isProcessing ?v" "current_nos ?v \<subseteq> settled_nos ?v"
      using singleD [OF w] q p idle_current [OF w p] unfolding v by auto
    note l = single_loop_head [OF this, of now ab, unfolded v]
    show "single (loop_head now ab ?v) \<and> live_nos (loop_head now ab ?v) \<subseteq> live_nos w \<union> {qq_no q} \<and>
        settled_nos w \<subseteq> settled_nos (loop_head now ab ?v) \<and>
        settled_nos (loop_head now ab ?v) \<subseteq> settled_nos w \<union> live_nos w \<union> {qq_no q}"
      using l singleD(3) [OF w] by auto
  qed
  show ?thesis
  proof (cases "wk_status w = SHUTDOWN \<or> wk_status w = WORKER_ERROR \<or> wk_isProcessing w \<or> wk_status w \<noteq> IDLE \<and> wk_status w \<noteq> BUSY")
    case True
    then show ?thesis
      by (auto simp: wk_execute_def processQueue_def worker_moves_def worker_parts Int_Un_distrib2)
  qed (use h in \<open>auto simp: wk_execute_def processQueue_def\<close>)
qed

lemma moves_resume: "worker_moves {} w (wk_resume now ab w)"
proof -
  let ?v = "w\<lparr>wk_current := None, wk_executed := Suc (wk_executed w)\<rparr>"
  have v: "queued_nos ?v = queued_nos w" "settled_nos ?v = settled_nos w" "current_nos ?v = {}"
    by (simp_all add: worker_parts)
  have "worker_moves {} w (loop_head now ab ?v)" if p: "wk_loop w = Some (q, True)" for q
    unfolding worker_moves_def
  proof (intro impI)
    assume w: "single w"
    have "distinct (queued_nos ?v)" "set (queued_nos ?v) \<inter> settled_nos ?v = {}" "wk_isProcessing ?v" "current_nos ?v \<subseteq> settled_nos ?v"
      using singleD [OF w] p unfolding v by auto
    note l = single_loop_head [OF this, of now ab, unfolded v]
    show "single (loop_head now ab ?v) \<and> live_nos (loop_head now ab ?v) \<subseteq> live_nos w \<union> {} \<and>
        settled_nos w \<subseteq> settled_nos (loop_head now ab ?v) \<and>
        settled_nos (loop_head now ab ?v) \<subseteq> settled_nos w \<union> live_nos w \<union> {}"
      using l singleD(3) [OF w] by auto
  qed
  then show ?thesis
    by (auto simp: wk_resume_def worker_moves_def split: option.split bool.split)
qed

lemma moves_answer: "worker_moves {} w (db_answers ab r w)"
  by (auto simp: db_answers_def worker_moves_def worker_parts split: option.split bool.split)

lemma removed_query: "remove_query i qs = Some (q, rest) \<Longrightarrow> mset (map qq_no qs) = mset (map qq_no (q # rest))"
  by (induction i qs arbitrary: rest rule: remove_query.induct) (auto split: if_splits)

lemma moves_handleAbort: "worker_moves {} w (wk_handleAbort i w)"
proof (cases "remove_query i (wk_queue w)")
  case (Some x)
  then obtain q rest where r: "remove_query i (wk_queue w) = Some (q, rest)"
    by (cases x) auto
  let ?v = "wk_settle (qq_no q) (Cancelled ''user'') (w\<lparr>wk_queue := rest\<rparr>)"
  have "set (queued_nos w) = insert (qq_no q) (set (queued_nos ?v))" "distinct (queued_nos w) \<longleftrightarrow> distinct (qq_no q # queued_nos ?v)"
    using mset_eq_setD [OF removed_query [OF r]] mset_eq_imp_distinct_iff [OF removed_query [OF r]] by (simp_all add: queued_nos_def)
  moreover have "settled_nos ?v = insert (qq_no q) (settled_nos w)" "running_nos ?v = running_nos w" "wk_loop ?v = wk_loop w"
    "wk_isProcessing ?v = wk_isProcessing w"
    "current_nos ?v = current_nos w"
    by (simp_all add: settled_nos_def running_nos_def current_nos_def)
  ultimately show ?thesis
    by (auto simp: r wk_handleAbort_def worker_moves_def single_def live_nos_def Int_Un_distrib2 simp del: wk_settle_fields)
qed (simp add: wk_handleAbort_def worker_moves_def)

lemma cancel_is_abort: "snd (wk_cancel i w) = wk_handleAbort i w"
  by (simp add: wk_cancel_def wk_handleAbort_def split: option.split)

lemma moves_initialize: "worker_moves {} w (snd (wk_initialize now r w))"
  by (auto simp: wk_initialize_def worker_moves_def worker_parts split: sum.split)

subsection \<open>The invariant\<close>

text \<open>Its parts are predicates on the phases and requests of the queries and the other parts of the state.\<close>

type_synonym items = "(query_phase \<times> query_request) list"

definition phase_at :: "items \<Rightarrow> nat \<Rightarrow> query_phase option" where
  "phase_at xs n = (if n < length xs then Some (fst (xs ! n)) else None)"

abbreviation tables_at :: "items \<Rightarrow> nat \<Rightarrow> table list" where
  "tables_at xs n \<equiv> qr_tables (snd (xs ! n))"

abbreviation mode_at :: "items \<Rightarrow> nat \<Rightarrow> lock_mode" where
  "mode_at xs n \<equiv> or_default (qr_mode (snd (xs ! n))) READ"

definition move :: "nat \<Rightarrow> query_phase \<Rightarrow> items \<Rightarrow> items" where
  "move n p xs = xs[n := (p, snd (xs ! n))]"

lemma phase_at_move [simp]: "phase_at (move n p xs) m = (if m = n \<and> n < length xs then Some p else phase_at xs m)"
  by (simp add: phase_at_def move_def nth_list_update)

lemma snd_move [simp]: "snd (move n p xs ! m) = snd (xs ! m)"
  by (cases "n < length xs") (simp_all add: move_def nth_list_update list_update_beyond)

lemma set_move: "snd ` set (move n p xs) = snd ` set xs"
proof -
  have "map snd (move n p xs) = map snd xs"
    by (cases "n < length xs") (simp_all add: move_def map_update list_update_beyond list_update_same_conv)
  then show ?thesis by (metis list.set_map)
qed

lemma phase_at_Some: "phase_at xs n = Some p \<Longrightarrow> n < length xs"
  by (simp add: phase_at_def split: if_splits)

definition resting :: "query_phase option \<Rightarrow> bool" where
  "resting p \<longleftrightarrow> p = Some Starting \<or> p = Some Overflowed"

fun dispatched :: "query_phase option \<Rightarrow> bool" where
  "dispatched (Some (OnWorker w)) = True"
| "dispatched (Some Over) = True"
| "dispatched _ = False"

text \<open>A query in a phase, with its tables, mode and lock request; \<open>h\<close> says that it has been told that it holds its locks.\<close>

fun fits :: "bool \<Rightarrow> query_phase option \<Rightarrow> table list \<Rightarrow> lock_mode \<Rightarrow> (table list \<times> lock_mode \<times> table list) option \<Rightarrow> bool \<Rightarrow> bool" where
  "fits en (Some (AwaitLocks w)) ts m q h \<longleftrightarrow> en \<and> ts \<noteq> [] \<and> (\<exists>p. q = Some (ts, m, p) \<and> (h \<longrightarrow> p = []))"
| "fits en (Some (OnWorker w)) ts m q h \<longleftrightarrow> q = (if en \<and> ts \<noteq> [] then Some (ts, m, []) else None)"
| "fits en (Some Over) ts m q h \<longleftrightarrow> q = None"
| "fits en (Some Starting) ts m q h \<longleftrightarrow> q = None \<and> \<not> h"
| "fits en (Some Overflowed) ts m q h \<longleftrightarrow> q = None \<and> \<not> h"
| "fits en None ts m q h \<longleftrightarrow> q = None \<and> \<not> h"

definition lock_fits :: "bool \<Rightarrow> items \<Rightarrow> lock_sys \<Rightarrow> nat set \<Rightarrow> nat \<Rightarrow> bool" where
  "lock_fits en xs l h n \<longleftrightarrow> fits en (phase_at xs n) (tables_at xs n) (mode_at xs n) (reqs l n) (n \<in> h)"

definition locks_part :: "bool \<Rightarrow> items \<Rightarrow> lock_sys \<Rightarrow> nat set \<Rightarrow> bool" where
  "locks_part en xs l held \<longleftrightarrow>
     lock_reachable l \<and> (\<forall>n. lock_fits en xs l held n) \<and> (\<forall>r\<in>snd ` set xs. distinct (qr_tables r))"

definition pool_part :: "items \<Rightarrow> (nat, 'r worker) jmap \<Rightarrow> nat set \<Rightarrow> bool" where
  "pool_part xs ws settled \<longleftrightarrow>
     (\<forall>i w. jm_get ws i = Some w \<longrightarrow> single w \<and> (\<forall>n\<in>live_nos w. phase_at xs n = Some (OnWorker i) \<and> n \<notin> settled) \<and>
        (\<forall>n\<in>settled_nos w. dispatched (phase_at xs n))) \<and>
     (\<forall>n\<in>settled. dispatched (phase_at xs n))"

definition idle_part :: "items \<Rightarrow> nat list \<Rightarrow> bool" where
  "idle_part xs idle \<longleftrightarrow> distinct idle \<and> (\<forall>n\<in>set idle. resting (phase_at xs n))"

fun starts :: "'r microtask list \<Rightarrow> nat list" where
  "starts [] = []"
| "starts (StartQuery n # ts) = n # starts ts"
| "starts (_ # ts) = starts ts"

definition held :: "'r microtask list \<Rightarrow> nat set" where
  "held ts = {n. LocksHeld n \<in> set ts}"

definition reported :: "'r microtask list \<Rightarrow> nat set" where
  "reported ts = {n. \<exists>r. WorkerSettled n r \<in> set ts}"

definition items :: "'r coordinator \<Rightarrow> items" where
  "items c = map (\<lambda>i. (it_phase i, it_request i)) (co_queries c)"

definition idle_nos :: "'r coordinator \<Rightarrow> nat list" where
  "idle_nos c = co_waiting c @ starts (co_microtasks c) @ toArray (co_overflow c)"

text \<open>\<open>F\<close> are queries that a step has taken from where they waited.\<close>

definition coord_inv :: "nat list \<Rightarrow> 'r coordinator \<Rightarrow> bool" where
  "coord_inv F c \<longleftrightarrow>
     locks_part (pc_enableTableLocking (co_config c)) (items c) (co_locks c) (held (co_microtasks c)) \<and>
     pool_part (items c) (wp_workers (co_pool c)) (reported (co_microtasks c)) \<and>
     idle_part (items c) (F @ idle_nos c) \<and> pq_inv (co_overflow c)"

lemma starts_append [simp]: "starts (ts @ us) = starts ts @ starts us"
  by (induction ts rule: starts.induct) simp_all

lemma held_simps [simp]:
  "held [] = {}" "held (ts @ us) = held ts \<union> held us" "held (LocksHeld n # ts) = insert n (held ts)" "held (map LocksHeld ns) = set ns"
  "held (StartQuery n # ts) = held ts" "held (WorkerSettled n r # ts) = held ts" "held (ResumeWorker i # ts) = held ts"
  "held (ProcessOverflow # ts) = held ts"
  by (auto simp: held_def)

lemma reported_simps [simp]:
  "reported [] = {}" "reported (ts @ us) = reported ts \<union> reported us" "reported (LocksHeld n # ts) = reported ts"
  "reported (StartQuery n # ts) = reported ts" "reported (WorkerSettled n r # ts) = insert n (reported ts)"
  "reported (ResumeWorker i # ts) = reported ts" "reported (ProcessOverflow # ts) = reported ts"
  by (auto simp: reported_def)

lemma starts_others [simp]: "starts (map LocksHeld ns) = []" "starts (map (\<lambda>(n, r). WorkerSettled n r) ps) = []"
  by (induction ns, simp_all) (induction ps, auto)

lemma reported_others [simp]: "reported (map LocksHeld ns) = {}" "reported (map (\<lambda>(n, r). WorkerSettled n r) ps) = fst ` set ps"
  by (force simp: reported_def)+

lemma held_settled [simp]: "held (map (\<lambda>(n, r). WorkerSettled n r) ps) = {}"
  by (auto simp: held_def)

subsection \<open>How the parts change\<close>

lemma fits_wake: "fits en p ts m q h \<Longrightarrow> (h' \<Longrightarrow> h \<or> (\<exists>us k. q = Some (us, k, []))) \<Longrightarrow> fits en p ts m q h'"
  by (cases "(en, p, ts, m, q, h)" rule: fits.cases) auto

lemma fits_release: "fits en p ts m q h \<Longrightarrow> fits en p ts m (map_option (\<lambda>(us, k, p). (us, k, filter P p)) q) h"
  by (cases "(en, p, ts, m, q, h)" rule: fits.cases) auto

lemma fits_phase: "fits en p ts m (Some q) h \<Longrightarrow> p \<noteq> None"
  by (cases "(en, p, ts, m, Some q, h)" rule: fits.cases) auto

lemma lock_fits_other: "m \<noteq> n \<Longrightarrow> lock_fits en (move n p xs) l h m = lock_fits en xs l h m"
  by (simp add: lock_fits_def)

lemma locks_fit: "locks_part en xs l h \<Longrightarrow> lock_fits en xs l h n"
  by (simp add: locks_part_def)

lemma locks_moveI:
  assumes "locks_part en xs l h" "lock_fits en (move n p xs) l h n"
  shows "locks_part en (move n p xs) l h"
  using assms lock_fits_other [of _ n en p xs l h] unfolding locks_part_def set_move by metis

lemma resting_fits: "resting (phase_at xs n) \<Longrightarrow> lock_fits en xs l h n \<longleftrightarrow> reqs l n = None \<and> n \<notin> h"
  by (auto simp: resting_def lock_fits_def)

lemma resting_length: "resting (phase_at xs n) \<Longrightarrow> n < length xs"
  by (auto simp: resting_def phase_at_def split: if_splits)

lemma locks_resting: "locks_part en xs l h \<Longrightarrow> resting (phase_at xs n) \<Longrightarrow> reqs l n = None \<and> n \<notin> h"
  using locks_fit [of en xs l h n] by (simp add: resting_fits)

lemma locks_rest:
  "locks_part en xs l h \<Longrightarrow> resting (phase_at xs n) \<Longrightarrow> p = Overflowed \<or> p = Over \<Longrightarrow> locks_part en (move n p xs) l h"
  by (rule locks_moveI, assumption) (auto simp: lock_fits_def resting_length locks_resting)

lemma locks_direct:
  "locks_part en xs l h \<Longrightarrow> resting (phase_at xs n) \<Longrightarrow> \<not> (en \<and> tables_at xs n \<noteq> []) \<Longrightarrow> locks_part en (move n (OnWorker w) xs) l h"
  by (rule locks_moveI, assumption) (auto simp: lock_fits_def resting_length locks_resting)

lemma locks_granted:
  "locks_part en xs l h \<Longrightarrow> phase_at xs n = Some (AwaitLocks v) \<Longrightarrow> reqs l n = Some (ts, m, []) \<Longrightarrow> locks_part en (move n (OnWorker w) xs) l h"
  using locks_fit [of en xs l h n] by (intro locks_moveI) (auto simp: lock_fits_def dest: phase_at_Some)

lemma locks_distinct: "locks_part en xs l h \<Longrightarrow> n < length xs \<Longrightarrow> distinct (tables_at xs n)"
  unfolding locks_part_def by (meson imageI nth_mem)

lemma reqs_acquire: "reqs (sys_acquire n ts m l) = (reqs l)(n \<mapsto> (ts, m, fst (acquireLocks n ts m (registry l))))"
  by (simp add: sys_acquire_def split_def Let_def)

lemma locks_await:
  assumes l: "locks_part en xs l h" and n: "resting (phase_at xs n)" and t: "en" "tables_at xs n \<noteq> []"
    and l': "l' = sys_acquire n (tables_at xs n) (mode_at xs n) l"
  shows "locks_part en (move n (AwaitLocks w) xs) l' h"
proof -
  note free = locks_resting [OF l n] and len = resting_length [OF n]
  have "lock_reachable l'"
    using l free locks_distinct [OF l len] by (simp add: l' locks_part_def reach_acquire)
  moreover have "lock_fits en (move n (AwaitLocks w) xs) l' h m" for m
    using locks_fit [OF l, of m] free t len by (auto simp: lock_fits_def l' reqs_acquire)
  ultimately show ?thesis
    using l by (simp add: locks_part_def set_move)
qed

lemma reqs_release:
  "reqs (sys_release n ts m l) r =
     (if r = n then None
      else map_option (\<lambda>(us, k, p). (us, k, filter (\<lambda>t. (r, t) \<notin> set (fst (releaseLocks ts m (registry l)))) p)) (reqs l r))"
  by (simp add: sys_release_def split_def Let_def)

lemma locks_release:
  assumes l: "locks_part en xs l h" and n: "reqs l n = Some (ts, m, [])"
  shows "locks_part en (move n Over xs) (sys_release n ts m l) h"
proof -
  have "lock_reachable (sys_release n ts m l)"
    using l n by (simp add: locks_part_def reach_release)
  moreover have "n < length xs"
    using locks_fit [OF l, of n] n by (auto simp: lock_fits_def phase_at_def dest: fits_phase split: if_splits)
  then have "lock_fits en (move n Over xs) (sys_release n ts m l) h r" for r
    using locks_fit [OF l, of r] by (auto simp: lock_fits_def reqs_release fits_release)
  ultimately show ?thesis
    using l by (simp add: locks_part_def set_move)
qed

lemma locks_free:
  "locks_part en xs l h \<Longrightarrow> reqs l n = None \<Longrightarrow> n < length xs \<Longrightarrow> locks_part en (move n Over xs) l h"
  by (rule locks_moveI) (auto simp: lock_fits_def)

lemma locks_wake:
  assumes "locks_part en xs l h" "\<And>r. r \<in> h' \<Longrightarrow> r \<in> h \<or> (\<exists>ts m. reqs l r = Some (ts, m, []))"
  shows "locks_part en xs l h'"
proof -
  have "lock_fits en xs l h' r" for r
    using locks_fit [OF assms(1), of r] assms(2) [of r] unfolding lock_fits_def by (rule fits_wake)
  then show ?thesis
    using assms(1) by (simp add: locks_part_def)
qed

lemma pool_partD:
  "pool_part xs ws S \<Longrightarrow> jm_get ws i = Some w \<Longrightarrow> single w"
  "pool_part xs ws S \<Longrightarrow> jm_get ws i = Some w \<Longrightarrow> n \<in> live_nos w \<Longrightarrow> phase_at xs n = Some (OnWorker i) \<and> n \<notin> S"
  "pool_part xs ws S \<Longrightarrow> jm_get ws i = Some w \<Longrightarrow> n \<in> settled_nos w \<Longrightarrow> dispatched (phase_at xs n)"
  "pool_part xs ws S \<Longrightarrow> n \<in> S \<Longrightarrow> dispatched (phase_at xs n)"
  by (simp_all add: pool_part_def)

lemma pool_move:
  assumes "pool_part xs ws S" "\<And>i w. jm_get ws i = Some w \<Longrightarrow> n \<notin> live_nos w"
    and "dispatched (phase_at xs n) \<Longrightarrow> dispatched (Some p)"
  shows "pool_part (move n p xs) ws S"
  using assms by (auto simp: pool_part_def)

lemma pool_worker:
  assumes p: "pool_part xs ws S" and w: "jm_get ws i = Some w" and m: "worker_moves N w w'"
    and N: "\<And>n. n \<in> N \<Longrightarrow> phase_at xs n = Some (OnWorker i) \<and> n \<notin> S \<and> n \<notin> live_nos w \<and> n \<notin> settled_nos w"
    and S: "S' = S \<union> (settled_nos w' - settled_nos w)"
  shows "pool_part xs (jm_set i w' ws) S'"
proof -
  have d: "single w'" "live_nos w' \<subseteq> live_nos w \<union> N" "settled_nos w' \<subseteq> settled_nos w \<union> live_nos w \<union> N"
    using m N pool_partD(1) [OF p w] unfolding worker_moves_def by blast+
  have dis: "live_nos w' \<inter> settled_nos w' = {}"
    using d(1) by (simp add: single_def)
  have on: "phase_at xs n = Some (OnWorker i) \<and> n \<notin> S" if "n \<in> live_nos w \<union> N" for n
    using that N pool_partD(2) [OF p w] by blast
  have st: "dispatched (phase_at xs n)" if "n \<in> settled_nos w'" for n
    using that d(3) on pool_partD(3) [OF p w] by fastforce
  have "phase_at xs n = Some (OnWorker j) \<and> n \<notin> S'" if "jm_get ws j = Some v" "n \<in> live_nos v" "j \<noteq> i" for j v n
    using pool_partD(2) [OF p that(1,2)] that(3) d(3) on unfolding S by fastforce
  moreover have "phase_at xs n = Some (OnWorker i) \<and> n \<notin> S'" if "n \<in> live_nos w'" for n
    using that d(2) dis on unfolding S by blast
  ultimately show ?thesis
    using p d(1) st by (auto simp: pool_part_def S)
qed

lemma pool_report:
  "pool_part xs ws S \<Longrightarrow> dispatched (phase_at xs n) \<Longrightarrow> (\<And>i w. jm_get ws i = Some w \<Longrightarrow> n \<notin> live_nos w) \<Longrightarrow>
   pool_part xs ws (insert n S)"
  by (auto simp: pool_part_def)

lemma pool_fewer:
  "pool_part xs ws S \<Longrightarrow> (\<And>i w. jm_get ws' i = Some w \<Longrightarrow> jm_get ws i = Some w \<or> single w \<and> live_nos w = {} \<and> settled_nos w = {}) \<Longrightarrow>
   S' \<subseteq> S \<Longrightarrow> pool_part xs ws' S'"
  by (fastforce simp: pool_part_def)

lemma resting_not_live: "pool_part xs ws S \<Longrightarrow> resting (phase_at xs n) \<Longrightarrow> jm_get ws i = Some w \<Longrightarrow> n \<notin> live_nos w \<and> n \<notin> settled_nos w"
  by (auto simp: resting_def dest: pool_partD(2,3))

lemma idle_move: "idle_part xs ns \<Longrightarrow> n \<notin> set ns \<or> resting (Some p) \<Longrightarrow> idle_part (move n p xs) ns"
  by (auto simp: idle_part_def resting_def)

subsection \<open>Operations that leave the parts alone\<close>

definition core :: "'r coordinator \<Rightarrow> _" where
  "core c = (items c, co_pool c, co_locks c, co_overflow c, co_waiting c, co_microtasks c)"

lemma coord_inv_core: "core c' = core c \<Longrightarrow> coord_inv F c' = coord_inv F c"
  by (simp add: core_def coord_inv_def idle_nos_def)

lemma items_upd: "(\<And>i. it_phase (f i) = it_phase i \<and> it_request (f i) = it_request i) \<Longrightarrow> items (upd_item n f c) = items c"
  by (cases "n < length (co_queries c)") (simp_all add: items_def upd_item_def map_update list_update_same_conv list_update_beyond)

lemma core_upd: "(\<And>i. it_phase (f i) = it_phase i \<and> it_request (f i) = it_request i) \<Longrightarrow> core (upd_item n f c) = core c"
  by (simp add: core_def items_upd) (simp add: upd_item_def)

lemma core_settle_query [simp]: "core (settle_query n r c) = core c"
  by (simp add: core_def settle_query_def items_def)

lemma core_active: "core (c\<lparr>co_active := a\<rparr>) = core c"
  by (simp add: core_def items_def)

lemma core_cleanup [simp]: "core (cleanupActiveQuery i c) = core c"
  by (simp add: cleanupActiveQuery_def core_active core_upd split: option.split)

lemma core_settle_item [simp]: "core (settle_item n r c) = core c"
  by (simp add: settle_item_def)

lemma core_eqD:
  assumes "core c' = core c"
  shows "items c' = items c" "co_pool c' = co_pool c" "co_locks c' = co_locks c" "co_overflow c' = co_overflow c"
    "co_waiting c' = co_waiting c" "co_microtasks c' = co_microtasks c"
  using assms by (simp_all add: core_def)

lemma set_phase_fields [simp]:
  "items (set_phase n p c) = move n p (items c)" "co_pool (set_phase n p c) = co_pool c" "co_locks (set_phase n p c) = co_locks c"
  "co_overflow (set_phase n p c) = co_overflow c" "co_waiting (set_phase n p c) = co_waiting c"
  "co_microtasks (set_phase n p c) = co_microtasks c"
  by (cases "n < length (co_queries c)"; simp add: items_def set_phase_def upd_item_def move_def map_update list_update_beyond)+

lemma later_fields [simp]:
  "items (later ts c) = items c" "co_pool (later ts c) = co_pool c" "co_locks (later ts c) = co_locks c"
  "co_overflow (later ts c) = co_overflow c" "co_waiting (later ts c) = co_waiting c"
  "co_microtasks (later ts c) = co_microtasks c @ ts"
  by (simp_all add: items_def later_def)

lemma items_fields [simp]:
  "items (c\<lparr>co_pool := p\<rparr>) = items c" "items (c\<lparr>co_locks := l\<rparr>) = items c" "items (c\<lparr>co_overflow := q\<rparr>) = items c"
  "items (c\<lparr>co_waiting := ns\<rparr>) = items c" "items (c\<lparr>co_microtasks := ts\<rparr>) = items c"
  by (simp_all add: items_def)

lemma item_at: "n < length (items c) \<Longrightarrow> the_item n c = co_queries c ! n \<and> items c ! n = (it_phase (the_item n c), it_request (the_item n c))"
  by (simp add: items_def the_item_def)

lemma later_overflow [simp]: "coord_inv F (later [ProcessOverflow] c) = coord_inv F c"
  by (simp add: coord_inv_def idle_nos_def)

subsection \<open>Queries that wait\<close>

lemma idle_mset: "mset ns = mset ns' \<Longrightarrow> idle_part xs ns \<longleftrightarrow> idle_part xs ns'"
  unfolding idle_part_def by (metis mset_eq_imp_distinct_iff mset_eq_setD)

lemma inv_over: "coord_inv (n # F) c \<Longrightarrow> coord_inv F (set_phase n Over c)"
  by (auto simp: coord_inv_def idle_part_def idle_nos_def resting_not_live intro!: locks_rest pool_move)

lemma array_contents: "mset (pq_contents q') = add_mset (p, x) (mset (pq_contents q)) \<Longrightarrow> mset (toArray q') = add_mset x (mset (toArray q))"
  by (metis map_snd_contents mset_map image_mset_add_mset snd_conv)

lemma toArray_enqueue: "pq_inv q \<Longrightarrow> mset (toArray (snd (enqueue t t' x p q))) = add_mset x (mset (toArray q))"
  using pq.mset_insert_stable [of p x "pq_contents q"] by (intro array_contents) (simp add: contents_enqueue)

lemma toArray_dequeue:
  "pq_inv q \<Longrightarrow> dequeue q = (r, q') \<Longrightarrow>
   pq_inv q' \<and> (case r of None \<Rightarrow> toArray q' = toArray q | Some x \<Rightarrow> toArray q = x # toArray q')"
  using contents_dequeue [of q] pq_inv_dequeue [of q] map_snd_contents [of q] map_snd_contents [of q']
  by (cases "pq_contents q") auto

lemma toArray_remove:
  assumes "pq_inv q" "pq_remove P q = (r, q')"
  shows "pq_inv q' \<and> (case r of None \<Rightarrow> toArray q' = toArray q | Some x \<Rightarrow> mset (toArray q) = add_mset x (mset (toArray q')))"
proof -
  have "pq_inv q'"
    using pq_inv_remove_from [OF assms(1), of PRIORITY_ORDER P] assms(2) by (simp add: pq_remove_def)
  moreover have m: "mset es = add_mset e (mset es')" if "Foundation_Prelude.remove_first Q es = Some (e, es')" for Q and e :: "priority_level \<times> 'a" and es es'
    using that by (induction es arbitrary: es') (auto split: if_splits option.splits)
  ultimately show ?thesis
    using contents_remove [of P q] assms(2) map_snd_contents [of q] map_snd_contents [of q']
    by (auto split: option.splits dest!: m intro: array_contents)
qed


lemma inv_enqueue:
  assumes i: "coord_inv (n # F) c"
  shows "coord_inv F (set_phase n Overflowed (c\<lparr>co_overflow := snd (enqueue t t' n p (co_overflow c))\<rparr>))"
proof -
  have q: "pq_inv (co_overflow c)" and r: "resting (phase_at (items c) n)"
    using i by (simp_all add: coord_inv_def idle_part_def)
  have "mset (F @ co_waiting c @ starts (co_microtasks c) @ toArray (snd (enqueue t t' n p (co_overflow c)))) =
      mset ((n # F) @ idle_nos c)"
    using toArray_enqueue [OF q, of t t' n p] by (simp add: idle_nos_def)
  then have "idle_part (items c) (F @ co_waiting c @ starts (co_microtasks c) @ toArray (snd (enqueue t t' n p (co_overflow c))))"
    using idle_mset i unfolding coord_inv_def by metis
  then show ?thesis
    using i r q resting_not_live [of "items c" _ _ n]
    by (auto simp: coord_inv_def idle_nos_def resting_def pq_inv_enqueue intro!: locks_rest pool_move idle_move)
qed

lemma inv_dequeue:
  assumes i: "coord_inv F c" and d: "dequeue (co_overflow c) = (r, q)"
  shows "case r of None \<Rightarrow> coord_inv F (c\<lparr>co_overflow := q\<rparr>) | Some n \<Rightarrow> coord_inv (n # F) (c\<lparr>co_overflow := q\<rparr>)"
proof -
  have "pq_inv (co_overflow c)"
    using i by (simp add: coord_inv_def)
  note t = toArray_dequeue [OF this d]
  have "idle_part (items c) ((n # F) @ co_waiting c @ starts (co_microtasks c) @ toArray q)" if "r = Some n" for n
    using t that i idle_mset [of "F @ idle_nos c" "(n # F) @ co_waiting c @ starts (co_microtasks c) @ toArray q" "items c"]
    by (simp add: coord_inv_def idle_nos_def)
  then show ?thesis
    using t i by (auto simp: coord_inv_def idle_nos_def split: option.splits)
qed

lemma inv_remove:
  assumes i: "coord_inv F c" and d: "pq_remove P (co_overflow c) = (Some n, q)"
  shows "coord_inv (n # F) (c\<lparr>co_overflow := q\<rparr>)"
proof -
  have "pq_inv (co_overflow c)"
    using i by (simp add: coord_inv_def)
  note t = toArray_remove [OF this d]
  have "idle_part (items c) ((n # F) @ co_waiting c @ starts (co_microtasks c) @ toArray q)"
    using t i idle_mset [of "F @ idle_nos c" "(n # F) @ co_waiting c @ starts (co_microtasks c) @ toArray q" "items c"]
    by (simp add: coord_inv_def idle_nos_def)
  then show ?thesis
    using t i by (simp add: coord_inv_def idle_nos_def)
qed

subsection \<open>Workers\<close>

lemma reported_new: "fst ` set (newly_settled w w') = settled_nos w' - settled_nos w"
  by (force simp: newly_settled_def settled_nos_def jm_has_def map_of_eq_None_iff)

lemma worker_op_fields [simp]:
  "items (worker_op i f c) = items c" "co_locks (worker_op i f c) = co_locks c" "co_overflow (worker_op i f c) = co_overflow c"
  "co_waiting (worker_op i f c) = co_waiting c" "wp_config (co_pool (worker_op i f c)) = wp_config (co_pool c)"
  "wp_shuttingDown (co_pool (worker_op i f c)) = wp_shuttingDown (co_pool c)"
  "starts (co_microtasks (worker_op i f c)) = starts (co_microtasks c)" "held (co_microtasks (worker_op i f c)) = held (co_microtasks c)"
  by (simp_all add: worker_op_def upd_worker_def split: option.split)

lemma worker_op_pool:
  "jm_get (wp_workers (co_pool c)) i = Some w \<Longrightarrow>
   wp_workers (co_pool (worker_op i f c)) = jm_set i (f w) (wp_workers (co_pool c)) \<and>
   reported (co_microtasks (worker_op i f c)) = reported (co_microtasks c) \<union> (settled_nos (f w) - settled_nos w)"
  by (simp add: worker_op_def upd_worker_def reported_new)

lemma worker_op_none: "jm_get (wp_workers (co_pool c)) i = None \<Longrightarrow> worker_op i f c = c"
  by (simp add: worker_op_def)

lemma inv_worker_op:
  assumes i: "coord_inv F c" and m: "\<And>w. worker_moves N w (f w)"
    and N: "\<And>n w. n \<in> N \<Longrightarrow> jm_get (wp_workers (co_pool c)) i = Some w \<Longrightarrow> phase_at (items c) n = Some (OnWorker i) \<and>
      n \<notin> reported (co_microtasks c) \<and> n \<notin> live_nos w \<and> n \<notin> settled_nos w"
  shows "coord_inv F (worker_op i f c)"
proof (cases "jm_get (wp_workers (co_pool c)) i")
  case None
  then show ?thesis using i by (simp add: worker_op_none)
next
  case (Some w)
  have "pool_part (items c) (wp_workers (co_pool (worker_op i f c))) (reported (co_microtasks (worker_op i f c)))"
    using i N [OF _ Some] by (auto simp: worker_op_pool [OF Some] coord_inv_def intro!: pool_worker [OF _ Some m])
  then show ?thesis
    using i by (simp add: coord_inv_def idle_nos_def)
qed

lemma inv_worker_quiet: "coord_inv F c \<Longrightarrow> (\<And>w. worker_moves {} w (f w)) \<Longrightarrow> coord_inv F (worker_op i f c)"
  by (erule inv_worker_op) auto

subsection \<open>A query goes to its worker\<close>

definition unknown :: "nat \<Rightarrow> 'r coordinator \<Rightarrow> bool" where
  "unknown n c \<longleftrightarrow>
     n \<notin> reported (co_microtasks c) \<and>
     (\<forall>i w. jm_get (wp_workers (co_pool c)) i = Some w \<longrightarrow> n \<notin> live_nos w \<and> n \<notin> settled_nos w)"

lemma undispatched_unknown: "coord_inv F c \<Longrightarrow> \<not> dispatched (phase_at (items c) n) \<Longrightarrow> unknown n c"
  unfolding coord_inv_def unknown_def by (metis dispatched.simps(1) pool_partD(2,3,4))

lemma resting_undispatched: "resting p \<Longrightarrow> \<not> dispatched p"
  by (auto simp: resting_def)

lemma inv_execute:
  assumes u: "unknown n c" and len: "n < length (items c)" and i: "coord_inv F (set_phase n (OnWorker w) c)"
  shows "coord_inv F (executeQueryOnWorker now n w c)"
proof -
  let ?c = "upd_item n (\<lambda>i. i\<lparr>it_phase := OnWorker w, it_startTime := now\<rparr>) c"
  have "items ?c = items (set_phase n (OnWorker w) c)"
    by (cases "n < length (co_queries c)")
      (simp_all add: items_def upd_item_def set_phase_def map_update list_update_beyond del: set_phase_fields)
  then have k: "core ?c = core (set_phase n (OnWorker w) c)"
    by (simp add: core_def) (simp add: upd_item_def)
  have c1: "coord_inv F ?c"
    using i coord_inv_core [OF k] by simp
  have on: "phase_at (items ?c) n = Some (OnWorker w)"
    using len by (simp add: core_eqD [OF k])
  have u1: "unknown n ?c"
    using u by (simp add: unknown_def core_eqD [OF k])
  show ?thesis
  proof (cases "jm_get (wp_workers (co_pool ?c)) w")
    case None
    then have "coord_inv F (later [WorkerSettled n (WorkerFailed ''Worker is shut down'')] ?c)"
      using c1 u1 on by (auto simp: coord_inv_def idle_nos_def unknown_def intro!: pool_report)
    then show ?thesis
      using None by (simp add: executeQueryOnWorker_def Let_def)
  next
    case (Some v)
    have "coord_inv F (worker_op w (wk_execute now ab \<lparr>qq_no = n, qq_id = i\<rparr>) ?c)" for ab i
      using c1 u1 on moves_execute [of "\<lparr>qq_no = n, qq_id = i\<rparr>"] by (intro inv_worker_op [where N = "{n}"]) (auto simp: unknown_def)
    then show ?thesis
      using Some by (simp add: executeQueryOnWorker_def Let_def)
  qed
qed

lemma mode_item: "n < length (items c) \<Longrightarrow> mode_at (items c) n = item_mode (the_item n c) \<and> tables_at (items c) n = qr_tables (it_request (the_item n c))"
  by (simp add: items_def the_item_def item_mode_def)

lemma inv_length: "coord_inv (n # F) c \<Longrightarrow> n < length (items c) \<and> resting (phase_at (items c) n)"
  by (auto simp: coord_inv_def idle_part_def resting_length)

text \<open>The end of a query: nobody works on it, and its locks, if it has any, are all granted.\<close>

lemma inv_release:
  assumes i: "coord_inv F c" and n: "n < length (items c)" "n \<notin> set (F @ idle_nos c)"
    and live: "\<And>i w. jm_get (wp_workers (co_pool c)) i = Some w \<Longrightarrow> n \<notin> live_nos w"
    and held: "\<And>ts m p. reqs (co_locks c) n = Some (ts, m, p) \<Longrightarrow> p = []"
  shows "coord_inv F (set_phase n Over (release_locks n c))"
proof -
  have parts: "pool_part (move n Over (items c)) (wp_workers (co_pool c)) (reported (co_microtasks c))"
    "idle_part (move n Over (items c)) (F @ idle_nos c)"
    using i live n by (auto simp: coord_inv_def intro!: pool_move idle_move)
  have l: "locks_part (pc_enableTableLocking (co_config c)) (items c) (co_locks c) (held (co_microtasks c))"
    using i by (simp add: coord_inv_def)
  show ?thesis
  proof (cases "reqs (co_locks c) n")
    case None
    then show ?thesis
      using i parts locks_free [OF l None n(1)] by (simp add: release_locks_def coord_inv_def idle_nos_def)
  next
    case (Some r)
    then obtain ts m where r: "reqs (co_locks c) n = Some (ts, m, [])"
      using held by (cases r) auto
    have "locks_part (pc_enableTableLocking (co_config c)) (move n Over (items c)) (sys_release n ts m (co_locks c)) (h \<union> R)"
      if "h = held (co_microtasks c)" "R = {r \<in> W. case reqs (sys_release n ts m (co_locks c)) r of Some (ts, m, []) \<Rightarrow> True | _ \<Rightarrow> False}"
      for h R W
      using locks_release [OF l r] that by (elim locks_wake) (auto split: option.splits list.splits)
    then show ?thesis
      using i parts by (simp add: release_locks_def r Let_def coord_inv_def idle_nos_def)
  qed
qed

lemma release_aborted [simp]: "is_aborted (release_locks n c) m = is_aborted c m"
  by (simp add: release_locks_def is_aborted_def later_def Let_def split: option.split)

subsection \<open>The operations of the coordinator\<close>

lemma not_idle: "coord_inv F c \<Longrightarrow> phase_at (items c) n = Some p \<Longrightarrow> p \<noteq> Starting \<Longrightarrow> p \<noteq> Overflowed \<Longrightarrow> n \<notin> set (F @ idle_nos c)"
  unfolding coord_inv_def idle_part_def resting_def by (metis option.inject)

lemma unknown_not_live: "unknown n c \<Longrightarrow> jm_get (wp_workers (co_pool c)) i = Some w \<Longrightarrow> n \<notin> live_nos w"
  by (simp add: unknown_def)

lemma inv_with_locks_rest:
  assumes i: "coord_inv (n # F) c" and e: "\<not> (pc_enableTableLocking (co_config c) \<and> tables_at (items c) n \<noteq> [])"
  shows "coord_inv F (snd (with_locks now n w c))"
proof -
  note n = inv_length [OF i]
  have u: "unknown n c"
    using n by (intro undispatched_unknown [OF i] resting_undispatched) simp
  have none: "reqs (co_locks c) n = None"
    using i locks_resting n by (auto simp: coord_inv_def)
  have "coord_inv F (set_phase n (OnWorker w) c)"
    using i e n unknown_not_live [OF u]
    by (auto simp: coord_inv_def idle_part_def idle_nos_def intro!: locks_direct pool_move)
  then show ?thesis
    using inv_execute [OF u] n inv_over [OF i] by (simp add: with_locks_def release_locks_def none)
qed

lemma inv_with_locks_held:
  assumes i: "coord_inv F c" and p: "phase_at (items c) n = Some (AwaitLocks v)" and r: "reqs (co_locks c) n = Some (ts, m, [])"
  shows "coord_inv F (snd (with_locks now n w c))"
proof -
  have u: "unknown n c"
    using p by (intro undispatched_unknown [OF i]) simp
  have n: "n < length (items c)" "n \<notin> set (F @ idle_nos c)"
    using phase_at_Some [OF p] not_idle [OF i p] by auto
  have "coord_inv F (set_phase n (OnWorker w) c)"
    using i p r n unknown_not_live [OF u] locks_granted [of _ "items c" "co_locks c" _ n v ts m w]
    by (auto simp: coord_inv_def idle_nos_def intro!: pool_move idle_move)
  then have "coord_inv F (executeQueryOnWorker now n w c)"
    using u n by (intro inv_execute) simp_all
  moreover have "coord_inv F (set_phase n Over (release_locks n c))"
    using i n unknown_not_live [OF u] r by (intro inv_release) auto
  ultimately show ?thesis
    by (simp add: with_locks_def)
qed

lemma inv_dispatch_one:
  assumes i: "coord_inv (n # F) c"
  shows "coord_inv F (snd (executeQueryOnWorkerWithLocks now n w c))"
proof (cases "pc_enableTableLocking (co_config c) \<and> qr_tables (it_request (the_item n c)) \<noteq> []")
  case False
  then show ?thesis
    using inv_with_locks_rest [OF i] mode_item [of n c] inv_length [OF i] by (auto simp: executeQueryOnWorkerWithLocks_def Let_def)
next
  case True
  let ?l = "sys_acquire n (qr_tables (it_request (the_item n c))) (item_mode (the_item n c)) (co_locks c)"
  let ?c = "set_phase n (AwaitLocks w) (c\<lparr>co_locks := ?l\<rparr>)"
  note n = inv_length [OF i] and t = mode_item [of n c]
  have "unknown n c"
    using n by (intro undispatched_unknown [OF i] resting_undispatched) simp
  note live = unknown_not_live [OF this]
  have c: "coord_inv F ?c"
    using i n t True live by (auto simp: coord_inv_def idle_part_def idle_nos_def resting_undispatched intro!: locks_await pool_move)
  moreover have "coord_inv F (later [LocksHeld n] ?c)" if "map_option (\<lambda>(ts, m, p). p) (reqs ?l n) = Some []"
    using c that by (auto simp: coord_inv_def idle_nos_def intro: locks_wake)
  ultimately show ?thesis
    using True by (simp add: executeQueryOnWorkerWithLocks_def Let_def)
qed

lemma inv_run_overflowed: "coord_inv F (snd x) \<Longrightarrow> coord_inv F (run_overflowed n x)"
  by (cases x) (simp add: run_overflowed_def)

lemma inv_dispatch: "coord_inv F c \<Longrightarrow> coord_inv F (dispatch_overflow k now c)"
proof (induction k now c rule: dispatch_overflow.induct)
  case (2 k now c)
  show ?case
  proof (cases "co_shuttingDown c \<or> pq_isEmpty (co_overflow c)")
    case False
    show ?thesis
    proof (cases "getLeastBusyWorker (co_pool c)")
      case (Some w)
      obtain r q where d: "dequeue (co_overflow c) = (r, q)" by fastforce
      note q = inv_dequeue [OF 2(2) d]
      show ?thesis
      proof (cases r)
        case None
        then show ?thesis using False Some q d by simp
      next
        case (Some n)
        let ?c = "upd_item n (\<lambda>i. i\<lparr>it_viaOverflow := True\<rparr>) (c\<lparr>co_overflow := q\<rparr>)"
        have "coord_inv (n # F) ?c"
          using q Some coord_inv_core [OF core_upd [of "\<lambda>i. i\<lparr>it_viaOverflow := True\<rparr>" n "c\<lparr>co_overflow := q\<rparr>"]] by simp
        then have "coord_inv F (run_overflowed n (executeQueryOnWorkerWithLocks now n w ?c))"
          by (intro inv_run_overflowed inv_dispatch_one)
        then show ?thesis
          using 2(1) [OF False \<open>getLeastBusyWorker (co_pool c) = Some w\<close> d [symmetric] Some]
            False Some d \<open>getLeastBusyWorker (co_pool c) = Some w\<close> by simp
      qed
    qed (use 2(2) False in simp)
  qed (use 2(2) in simp)
qed simp

lemma inv_process: "coord_inv F c \<Longrightarrow> coord_inv F (processOverflowQueue now c)"
  by (simp add: processOverflowQueue_def inv_dispatch Let_def)

lemma inv_run_direct: "coord_inv F (snd x) \<Longrightarrow> coord_inv F (run_direct now n x)"
  using coord_inv_core [OF core_settle_item] by (cases x) (auto simp: run_direct_def intro!: inv_process)

lemma inv_executeQuery: "coord_inv (n # F) c \<Longrightarrow> coord_inv F (executeQuery now n c)"
  using coord_inv_core [OF core_settle_item, of "n # F"]
  by (auto simp: executeQuery_def split: option.split intro!: inv_process inv_over inv_enqueue inv_run_direct inv_dispatch_one)

lemma inv_start_query:
  assumes i: "coord_inv (n # F) c"
  shows "coord_inv F (start_query_at now n c)"
proof -
  have "coord_inv F (set_phase n Over (settle_query n r c))" for r
    using i coord_inv_core [OF core_settle_query] by (intro inv_over) auto
  moreover have "coord_inv (n # F) ((upd_item n (\<lambda>i. i\<lparr>it_submittedAt := now, it_due := d, it_listening := True\<rparr>) c)\<lparr>co_active := a\<rparr>)" for d a
    using i by (subst coord_inv_core [OF trans [OF core_active core_upd]]) simp_all
  ultimately show ?thesis
    by (auto simp: start_query_at_def Let_def intro!: inv_executeQuery)
qed

subsection \<open>The pool\<close>

lemma locks_snoc:
  assumes l: "locks_part en xs l h" and t: "distinct (qr_tables r)"
  shows "locks_part en (xs @ [(Starting, r)]) l h"
proof -
  have "lock_fits en (xs @ [(Starting, r)]) l h n" for n
    using locks_fit [OF l, of n] by (auto simp: lock_fits_def phase_at_def nth_append)
  then show ?thesis
    using l t by (simp add: locks_part_def)
qed

lemma phase_snoc: "phase_at xs n = Some p \<Longrightarrow> phase_at (xs @ [x]) n = Some p"
  by (simp add: phase_at_def nth_append split: if_splits)

lemma dispatched_snoc: "dispatched (phase_at xs n) \<Longrightarrow> dispatched (phase_at (xs @ [x]) n)"
  using phase_snoc [of xs n _ x] by (cases "phase_at xs n") auto

lemma resting_snoc: "resting (phase_at xs n) \<Longrightarrow> resting (phase_at (xs @ [x]) n)"
  using phase_snoc [of xs n _ x] by (auto simp: resting_def)

lemma pool_snoc: "pool_part xs ws S \<Longrightarrow> pool_part (xs @ [x]) ws S"
  by (simp add: pool_part_def phase_snoc dispatched_snoc)

lemma idle_snoc: "idle_part xs ns \<Longrightarrow> idle_part (xs @ [(Starting, r)]) (length xs # ns)"
  by (auto simp: idle_part_def resting_snoc dest: resting_length) (simp add: resting_def phase_at_def)

lemma add_workers_fields:
  "wp_config (add_workers n now p) = wp_config p \<and>
   (\<forall>i w. jm_get (wp_workers (add_workers n now p)) i = Some w \<longrightarrow> jm_get (wp_workers p) i = Some w \<or> w = new_worker now)"
  by (induction n now p rule: add_workers.induct) (auto simp: begin_addWorker_def Let_def split: if_splits)

lemma new_worker_nos: "single (new_worker now) \<and> live_nos (new_worker now) = {} \<and> settled_nos (new_worker now) = {}"
  by (simp add: single_new) (simp add: worker_parts new_worker_def)

lemma inv_begin:
  assumes "coord_inv F c"
  shows "coord_inv F (c\<lparr>co_pool := begin_initialize now (co_pool c)\<rparr>)"
proof -
  let ?p = "begin_initialize now (co_pool c)"
  have "wp_config ?p = wp_config (co_pool c) \<and>
      (\<forall>i w. jm_get (wp_workers ?p) i = Some w \<longrightarrow> jm_get (wp_workers (co_pool c)) i = Some w \<or> w = new_worker now)"
    using add_workers_fields [of "pc_workerCount (wp_config (co_pool c))" now "co_pool c\<lparr>wp_initializing := True\<rparr>"]
    by (auto simp: begin_initialize_def)
  note p = this
  have "pool_part (items c) (wp_workers ?p) (reported (co_microtasks c))"
  proof (rule pool_fewer)
    show "pool_part (items c) (wp_workers (co_pool c)) (reported (co_microtasks c))"
      using assms by (simp add: coord_inv_def)
    show "jm_get (wp_workers (co_pool c)) i = Some w \<or> single w \<and> live_nos w = {} \<and> settled_nos w = {}"
      if "jm_get (wp_workers ?p) i = Some w" for i w
      using that p new_worker_nos [of now] by metis
  qed simp
  then show ?thesis
    using assms p by (simp add: coord_inv_def idle_nos_def)
qed

lemma inv_submit:
  assumes i: "coord_inv F c" and t: "distinct (qr_tables r)"
  shows "coord_inv F (submit now gen r c)"
proof -
  let ?i = "\<lparr>it_id = or_default (qr_id r) (gen (length (co_queries c))), it_request = r, it_submittedAt = now, it_startTime = now,
      it_phase = Starting, it_viaOverflow = False, it_due = None, it_listening = False\<rparr>"
  let ?n = "length (co_queries c)" and ?c = "c\<lparr>co_queries := co_queries c @ [?i]\<rparr>"
  have "items ?c = items c @ [(Starting, r)]" and n: "length (items c) = ?n"
    by (simp_all add: items_def)
  then have c: "coord_inv (?n # F) ?c"
    using i t idle_snoc [of "items c" "F @ idle_nos c" r] by (simp add: coord_inv_def idle_nos_def locks_snoc pool_snoc)
  have w: "coord_inv F (c'\<lparr>co_waiting := co_waiting c' @ [m]\<rparr>)" if "coord_inv (m # F) c'" for c' :: "'a coordinator" and m
    using that idle_mset [of "(m # F) @ idle_nos c'" "F @ (co_waiting c' @ [m]) @ starts (co_microtasks c') @ toArray (co_overflow c')"]
    by (simp add: coord_inv_def idle_nos_def)
  have l: "coord_inv F (later [StartQuery ?n] ?c)"
    using c idle_mset [of "(?n # F) @ idle_nos ?c" "F @ idle_nos (later [StartQuery ?n] ?c)"]
    by (simp add: coord_inv_def idle_nos_def)
  show ?thesis
    using inv_start_query [OF c] l w [OF inv_begin [OF c]] by (simp add: submit_def Let_def)
qed

lemma settled_initialize: "settled_nos (snd (wk_initialize now r w)) = settled_nos w"
  by (simp add: wk_initialize_def settled_nos_def split: sum.split)

lemma inv_worker_ready:
  assumes i: "coord_inv F c"
  shows "coord_inv F (c\<lparr>co_pool := snd (end_addWorker now k r (co_pool c))\<rparr>)"
proof -
  let ?ws = "wp_workers (co_pool c)"
  have p: "pool_part (items c) ?ws (reported (co_microtasks c))"
    using i by (simp add: coord_inv_def)
  have "pool_part (items c) (jm_delete k ?ws) (reported (co_microtasks c))"
    by (rule pool_fewer [OF p]) (auto split: if_splits)
  moreover have "pool_part (items c) (jm_set k (snd (wk_initialize now r w)) ?ws) (reported (co_microtasks c))" if "jm_get ?ws k = Some w" for w
    by (rule pool_worker [OF p that moves_initialize]) (simp_all add: settled_initialize)
  ultimately have "pool_part (items c) (wp_workers (snd (end_addWorker now k r (co_pool c)))) (reported (co_microtasks c)) \<and>
      wp_config (snd (end_addWorker now k r (co_pool c))) = wp_config (co_pool c)"
    using p by (auto simp: end_addWorker_def split: option.split prod.split)
  then show ?thesis
    using i by (simp add: coord_inv_def idle_nos_def)
qed

text \<open>The pool is closed: whatever its workers report was dispatched.\<close>

definition all_dispatched :: "'r coordinator \<Rightarrow> bool" where
  "all_dispatched c \<longleftrightarrow>
     (\<forall>n\<in>reported (co_microtasks c). dispatched (phase_at (items c) n)) \<and>
     (\<forall>i w. jm_get (wp_workers (co_pool c)) i = Some w \<longrightarrow>
        (\<forall>n\<in>live_nos w \<union> settled_nos w \<union> current_nos w. dispatched (phase_at (items c) n)))"

lemma settle_all_nos: "settled_nos (settle_all r qs w) = settled_nos w \<union> qq_no ` set qs"
  unfolding settle_all_def
  by (induction qs arbitrary: w) (simp_all add: settled_nos_def insert_commute)

lemma shutdown_nos: "live_nos (wk_shutdown w) \<union> settled_nos (wk_shutdown w) \<union> current_nos (wk_shutdown w) \<subseteq> live_nos w \<union> settled_nos w \<union> current_nos w"
proof -
  let ?v = "settle_all (Cancelled ''shutdown'') (wk_queue w) (w\<lparr>wk_status := SHUTDOWN\<rparr>)"
  have "settled_nos ?v = settled_nos w \<union> set (queued_nos w)"
    by (simp add: settle_all_nos queued_nos_def) (simp add: settled_nos_def)
  moreover have "wk_loop ?v = wk_loop w" "wk_current ?v = wk_current w"
    by (simp_all add: settle_all_fields)
  ultimately show ?thesis
    by (auto simp: wk_shutdown_def Let_def live_nos_def queued_nos_def running_nos_def settled_nos_def current_nos_def
        split: option.splits)
qed

lemma all_dispatched_shutdown:
  assumes "all_dispatched c"
  shows "all_dispatched (worker_op i wk_shutdown c)"
proof (cases "jm_get (wp_workers (co_pool c)) i")
  case None
  then show ?thesis using assms by (simp add: worker_op_none)
next
  case (Some w)
  then show ?thesis
    using assms shutdown_nos [of w] unfolding all_dispatched_def worker_op_pool [OF Some, THEN conjunct1] worker_op_pool [OF Some, THEN conjunct2]
    by (auto; blast)
qed

lemma close_workers_fields:
  "all_dispatched c \<Longrightarrow> all_dispatched (close_workers c)"
  "items (close_workers c) = items c" "co_locks (close_workers c) = co_locks c" "co_overflow (close_workers c) = co_overflow c"
  "co_waiting (close_workers c) = co_waiting c" "wp_shuttingDown (co_pool (close_workers c)) = wp_shuttingDown (co_pool c)"
  "wp_config (co_pool (close_workers c)) = wp_config (co_pool c)"
  "starts (co_microtasks (close_workers c)) = starts (co_microtasks c)" "held (co_microtasks (close_workers c)) = held (co_microtasks c)"
proof -
  have "(all_dispatched c \<longrightarrow> all_dispatched (fold (\<lambda>w. worker_op w wk_shutdown) ws c)) \<and>
      items (fold (\<lambda>w. worker_op w wk_shutdown) ws c) = items c \<and> co_locks (fold (\<lambda>w. worker_op w wk_shutdown) ws c) = co_locks c \<and>
      co_overflow (fold (\<lambda>w. worker_op w wk_shutdown) ws c) = co_overflow c \<and>
      co_waiting (fold (\<lambda>w. worker_op w wk_shutdown) ws c) = co_waiting c \<and>
      wp_config (co_pool (fold (\<lambda>w. worker_op w wk_shutdown) ws c)) = wp_config (co_pool c) \<and>
      wp_shuttingDown (co_pool (fold (\<lambda>w. worker_op w wk_shutdown) ws c)) = wp_shuttingDown (co_pool c) \<and>
      starts (co_microtasks (fold (\<lambda>w. worker_op w wk_shutdown) ws c)) = starts (co_microtasks c) \<and>
      held (co_microtasks (fold (\<lambda>w. worker_op w wk_shutdown) ws c)) = held (co_microtasks c)" for ws
    by (induction ws arbitrary: c) (simp_all add: all_dispatched_shutdown)
  from this [of "getWorkerIds (co_pool c)", folded close_workers_def]
  show "all_dispatched c \<Longrightarrow> all_dispatched (close_workers c)"
    "items (close_workers c) = items c" "co_locks (close_workers c) = co_locks c" "co_overflow (close_workers c) = co_overflow c"
    "co_waiting (close_workers c) = co_waiting c" "wp_shuttingDown (co_pool (close_workers c)) = wp_shuttingDown (co_pool c)"
  "wp_config (co_pool (close_workers c)) = wp_config (co_pool c)"
    "starts (co_microtasks (close_workers c)) = starts (co_microtasks c)" "held (co_microtasks (close_workers c)) = held (co_microtasks c)"
    by blast+
qed

lemma inv_all_dispatched:
  assumes "coord_inv F c"
  shows "all_dispatched c"
proof -
  have p: "pool_part (items c) (wp_workers (co_pool c)) (reported (co_microtasks c))"
    using assms by (simp add: coord_inv_def)
  have "dispatched (phase_at (items c) n)"
    if w: "jm_get (wp_workers (co_pool c)) i = Some w" and n: "n \<in> live_nos w \<union> settled_nos w \<union> current_nos w" for i w n
  proof -
    have "n \<in> live_nos w \<or> n \<in> settled_nos w"
      using n singleD(5) [OF pool_partD(1) [OF p w]] by (auto simp: live_nos_def)
    then show ?thesis
      using pool_partD(2,3) [OF p w] by auto
  qed
  then show ?thesis
    using pool_partD(4) [OF p] by (simp add: all_dispatched_def)
qed

lemma inv_waiting_over:
  "coord_inv (ns @ F) c \<Longrightarrow> coord_inv F (fold (\<lambda>n c. set_phase n Over (settle_query n r c)) ns c)"
proof (induction ns arbitrary: c)
  case (Cons n ns)
  have "coord_inv (n # ns @ F) (settle_query n r c)"
    using Cons.prems coord_inv_core [OF core_settle_query] by auto
  then show ?case
    using Cons.IH inv_over by fastforce
qed simp

lemma inv_pool_initialized:
  assumes i: "coord_inv [] c"
  shows "coord_inv [] (pool_initialized now success c)"
proof -
  have m: "starts (map StartQuery ns :: 'a microtask list) = ns" "held (map StartQuery ns :: 'a microtask list) = {}"
    "reported (map StartQuery ns :: 'a microtask list) = {}" for ns
    by (induction ns) (simp_all add: held_def reported_def)
  show ?thesis
  proof (cases success)
    case True
    then show ?thesis
      using i idle_mset [of "idle_nos c" "starts (co_microtasks c) @ co_waiting c @ toArray (co_overflow c)"]
      by (simp add: pool_initialized_def Let_def end_initialize_def coord_inv_def idle_nos_def m)
  next
    case False
    have "coord_inv (co_waiting c @ []) (c\<lparr>co_pool := end_initialize False (co_pool c), co_waiting := []\<rparr>)"
      if "wp_shuttingDown (co_pool c)"
      using i that by (simp add: coord_inv_def idle_nos_def end_initialize_def pool_shutdown_def)
    moreover have "coord_inv (co_waiting c @ [])
        ((close_workers c)\<lparr>co_pool := end_initialize False (co_pool (close_workers c)), co_waiting := []\<rparr>)"
      if "\<not> wp_shuttingDown (co_pool c)"
    proof -
      have "pool_part (items c) [] (reported (co_microtasks (close_workers c)))"
        using close_workers_fields(1) [OF inv_all_dispatched [OF i]] by (simp add: pool_part_def all_dispatched_def close_workers_fields)
      then show ?thesis
        using i that by (simp add: coord_inv_def idle_nos_def close_workers_fields end_initialize_def pool_shutdown_def)
    qed
    ultimately show ?thesis
      using False by (auto simp: pool_initialized_def Let_def intro: inv_waiting_over)
  qed
qed

subsection \<open>Microtasks and cancellation\<close>

lemma inv_locks_held:
  assumes i: "coord_inv F c" and n: "\<And>w. phase_at (items c) n = Some (AwaitLocks w) \<Longrightarrow> \<exists>ts m. reqs (co_locks c) n = Some (ts, m, [])"
    and l: "n < length (items c)"
  shows "coord_inv F (locks_held now n c)"
proof (cases "it_phase (the_item n c)")
  case (AwaitLocks w)
  then have p: "phase_at (items c) n = Some (AwaitLocks w)"
    using item_at [OF l] l by (simp add: phase_at_def)
  then obtain ts m where "reqs (co_locks c) n = Some (ts, m, [])"
    using n by blast
  then show ?thesis
    using AwaitLocks inv_with_locks_held [OF i p] by (simp add: locks_held_def inv_run_overflowed inv_run_direct)
qed (use i in \<open>simp_all add: locks_held_def\<close>)

lemma inv_after_query:
  assumes "coord_inv F c" "n < length (items c)" "n \<notin> set (F @ idle_nos c)"
    and "\<And>i w. jm_get (wp_workers (co_pool c)) i = Some w \<Longrightarrow> n \<notin> live_nos w"
    and "\<And>ts m p. reqs (co_locks c) n = Some (ts, m, p) \<Longrightarrow> p = []"
  shows "coord_inv F (after_query now n c)"
  using inv_release [OF assms] by (simp add: after_query_def Let_def inv_process)

lemma inv_worker_settled:
  assumes i: "coord_inv F c" and l: "n < length (items c)"
    and live: "\<And>i w. jm_get (wp_workers (co_pool c)) i = Some w \<Longrightarrow> n \<notin> live_nos w"
  shows "coord_inv F (worker_settled now n r c)"
proof (cases "it_phase (the_item n c)")
  case (OnWorker w)
  then have p: "phase_at (items c) n = Some (OnWorker w)"
    using item_at [OF l] l by (simp add: phase_at_def)
  have f: "lock_fits (pc_enableTableLocking (co_config c)) (items c) (co_locks c) (held (co_microtasks c)) n"
    using i by (simp add: coord_inv_def locks_fit)
  have q: "ps = []" if "reqs (co_locks c) n = Some (ts, m, ps)" for ts m ps
    using f that by (simp add: lock_fits_def p split: if_splits)
  have "coord_inv F (after_query now n (settle_item n x c'))" if "core c' = core c" for x c'
  proof -
    have k: "core (settle_item n x c') = core c"
      using that by simp
    note e = core_eqD [OF k]
    show ?thesis
      using i l live q not_idle [OF i p] by (intro inv_after_query) (auto simp: e idle_nos_def coord_inv_core [OF k])
  qed
  moreover have "core (c\<lparr>co_totalExecuted := k\<rparr>) = core c" for k
    by (simp add: core_def items_def)
  ultimately show ?thesis
    using OnWorker by (cases r) (simp_all add: worker_settled_def Let_def)
qed (use i in \<open>simp_all add: worker_settled_def\<close>)

lemma inv_cancel_on: "coord_inv F c \<Longrightarrow> coord_inv F (snd (cancel_on ws i c))"
  by (induction ws i c rule: cancel_on.induct) (auto split: option.split simp: cancel_is_abort intro!: inv_worker_quiet moves_handleAbort)

lemma inv_cancelQuery:
  assumes i: "coord_inv F c"
  shows "coord_inv F (snd (cancelQuery k c))"
proof (cases "jm_get (co_active c) k")
  case (Some a)
  let ?c = "cleanupActiveQuery k c"
  have c: "coord_inv F ?c"
    using i coord_inv_core [OF core_cleanup] by auto
  obtain r q where q: "pq_remove (\<lambda>n. it_id (the_item n ?c) = k) (co_overflow ?c) = (r, q)"
    by fastforce
  show ?thesis
  proof (cases r)
    case None
    then show ?thesis
      using Some q inv_cancel_on [OF c] by (simp add: cancelQuery_def Let_def)
  next
    case (Some n)
    have "coord_inv F (settle_query m x (set_phase n Over (?c\<lparr>co_overflow := q\<rparr>)))" for m x
      using inv_over [OF inv_remove [OF c q [unfolded Some]]] coord_inv_core [OF core_settle_query] by auto
    then show ?thesis
      using \<open>jm_get (co_active c) k = Some a\<close> Some q by (simp add: cancelQuery_def Let_def)
  qed
qed (use i in \<open>simp add: cancelQuery_def\<close>)

lemma inv_timed_out: "coord_inv F c \<Longrightarrow> coord_inv F (query_timed_out now n c)"
proof -
  assume i: "coord_inv F c"
  have "coord_inv F (upd_item n (\<lambda>i. i\<lparr>it_due := None\<rparr>) c)"
    using i by (subst coord_inv_core [OF core_upd]) simp_all
  then have "coord_inv F (settle_query n r (snd (cancelQuery k (upd_item n (\<lambda>i. i\<lparr>it_due := None\<rparr>) c))))" for r k
    by (subst coord_inv_core [OF core_settle_query]) (rule inv_cancelQuery)
  then show ?thesis
    using i by (simp add: query_timed_out_def split: option.split)
qed

lemma inv_signal_aborted: "coord_inv F c \<Longrightarrow> coord_inv F (signal_aborted n c)"
proof -
  assume i: "coord_inv F c"
  have k: "core (c\<lparr>co_aborted := ns\<rparr>) = core c" for ns
    by (simp add: core_def items_def)
  have "coord_inv F (c\<lparr>co_aborted := ns\<rparr>)" for ns
    using i by (subst coord_inv_core [OF k])
  moreover have "coord_inv F (upd_item n (\<lambda>i. i\<lparr>it_listening := False\<rparr>) (c\<lparr>co_aborted := ns\<rparr>))" for ns
    using i by (subst coord_inv_core [OF trans [OF core_upd k]]) simp_all
  ultimately show ?thesis
    by (auto simp: signal_aborted_def Let_def split: query_phase.split intro!: inv_worker_quiet moves_handleAbort inv_cancelQuery)
qed

lemma inv_pop:
  assumes i: "coord_inv [] c" and m: "co_microtasks c = t # ts"
  shows "coord_inv (starts [t]) (c\<lparr>co_microtasks := ts\<rparr>)"
proof -
  have "held ts \<subseteq> held (t # ts)" "reported ts \<subseteq> reported (t # ts)"
    by (auto simp: held_def reported_def)
  then have "locks_part (pc_enableTableLocking (co_config c)) (items c) (co_locks c) (held ts)"
    "pool_part (items c) (wp_workers (co_pool c)) (reported ts)"
    using i m by (auto simp: coord_inv_def elim!: locks_wake pool_fewer)
  moreover have "starts (t # ts) = starts [t] @ starts ts"
    using starts_append [of "[t]" ts] by simp
  then have "idle_part (items c) (starts [t] @ co_waiting c @ starts ts @ toArray (co_overflow c))"
    using i m idle_mset [of "idle_nos c" "starts [t] @ co_waiting c @ starts ts @ toArray (co_overflow c)"]
    by (simp add: coord_inv_def idle_nos_def)
  ultimately show ?thesis
    using i by (simp add: coord_inv_def idle_nos_def)
qed

lemma inv_microtask:
  assumes i: "coord_inv [] c"
  shows "coord_inv [] (run_microtask now c)"
proof (cases "co_microtasks c")
  case (Cons t ts)
  let ?c = "c\<lparr>co_microtasks := ts\<rparr>"
  note p = inv_pop [OF i Cons]
  show ?thesis
  proof (cases t)
    case (StartQuery n)
    have "coord_inv [n] (?c\<lparr>co_initialized := True\<rparr>)"
      using p StartQuery by (subst coord_inv_core [of _ ?c]) (simp_all add: core_def items_def)
    then show ?thesis
      using Cons StartQuery by (simp add: run_microtask_def inv_start_query)
  next
    case (LocksHeld n)
    have f: "lock_fits (pc_enableTableLocking (co_config c)) (items c) (co_locks c) (held (co_microtasks c)) n"
      using i by (simp add: coord_inv_def locks_fit)
    then have "phase_at (items c) n \<noteq> None"
      using Cons LocksHeld by (cases "phase_at (items c) n") (simp_all add: lock_fits_def)
    then have "n < length (items c)"
      by (simp add: phase_at_def split: if_splits)
    moreover have "\<exists>ts m. reqs (co_locks c) n = Some (ts, m, [])" if "phase_at (items c) n = Some (AwaitLocks w)" for w
      using f Cons LocksHeld by (simp add: lock_fits_def that)
    ultimately have "coord_inv [] (locks_held now n ?c)"
      using p LocksHeld by (intro inv_locks_held) simp_all
    then show ?thesis
      using Cons LocksHeld by (simp add: run_microtask_def)
  next
    case (WorkerSettled n r)
    have q: "pool_part (items c) (wp_workers (co_pool c)) (reported (co_microtasks c))"
      using i by (simp add: coord_inv_def)
    have n: "n \<in> reported (co_microtasks c)"
      by (simp add: Cons WorkerSettled)
    have "n < length (items c)"
      using pool_partD(4) [OF q n] phase_at_Some [of "items c" n] by (cases "phase_at (items c) n") auto
    moreover have "n \<notin> live_nos w" if "jm_get (wp_workers (co_pool c)) i = Some w" for i w
      using pool_partD(2) [OF q that, of n] n by blast
    ultimately have "coord_inv [] (worker_settled now n r ?c)"
      using p WorkerSettled by (intro inv_worker_settled) simp_all
    then show ?thesis
      using Cons WorkerSettled by (simp add: run_microtask_def)
  next
    case (ResumeWorker w)
    then show ?thesis
      using p Cons by (simp add: run_microtask_def Let_def inv_worker_quiet moves_resume)
  next
    case ProcessOverflow
    then show ?thesis
      using p Cons by (simp add: run_microtask_def inv_process)
  qed
qed (use i in \<open>simp add: run_microtask_def\<close>)

subsection \<open>Exclusion\<close>

definition fair_event :: "'r co_event \<Rightarrow> bool" where
  "fair_event e = (case e of Shutdown \<Rightarrow> False | Query r \<Rightarrow> distinct (qr_tables r) | _ \<Rightarrow> True)"

lemma inv_step:
  assumes i: "coord_inv [] c" and f: "fair_event (snd e)"
  shows "coord_inv [] (co_step gen e c)"
proof -
  obtain now ev where e: "e = (now, ev)" by fastforce
  show ?thesis
    using i f
    by (cases ev)
      (auto simp: e fair_event_def inv_submit inv_worker_ready inv_pool_initialized inv_cancelQuery inv_timed_out inv_signal_aborted
        inv_microtask inv_worker_quiet moves_answer)
qed

lemma inv_new: "coord_inv [] (new_coordinator config)"
  by (simp add: coord_inv_def new_coordinator_def new_pool_def locks_part_def pool_part_def idle_part_def idle_nos_def items_def
      lock_fits_def phase_at_def lock_reachable.start toArray_def PRIORITY_ORDER_def pq_inv_empty)
    (simp add: sys_init_def pq_empty_def)

lemma inv_run: "co_run gen es c = Some c' \<Longrightarrow> coord_inv [] c \<Longrightarrow> \<forall>e\<in>set es. fair_event (snd e) \<Longrightarrow> coord_inv [] c'"
  by (induction es arbitrary: c) (auto simp: inv_step split: if_splits)

text \<open>A query that the database of some worker runs.\<close>

definition at_database :: "'r coordinator \<Rightarrow> nat \<Rightarrow> bool" where
  "at_database c n =
     list_ex (\<lambda>i. case jm_get (wp_workers (co_pool c)) i of Some w \<Rightarrow> n \<in> running_nos w | None \<Rightarrow> False) (getWorkerIds (co_pool c))"

lemma running_granted:
  assumes i: "coord_inv [] c" and d: "at_database c n" and e: "pc_enableTableLocking (co_config c)"
    and t: "t \<in> set (qr_tables (it_request (the_item n c)))"
  shows "granted (co_locks c) n t (item_mode (the_item n c))"
proof -
  obtain k w where w: "jm_get (wp_workers (co_pool c)) k = Some w" "n \<in> live_nos w"
    using d by (auto simp: at_database_def list_ex_iff live_nos_def split: option.splits)
  have p: "phase_at (items c) n = Some (OnWorker k)"
    using i pool_partD(2) [OF _ w] unfolding coord_inv_def by blast
  note m = mode_item [OF phase_at_Some [OF p]]
  have "lock_fits True (items c) (co_locks c) (held (co_microtasks c)) n"
    using i e by (simp add: coord_inv_def locks_fit)
  then have "reqs (co_locks c) n = Some (qr_tables (it_request (the_item n c)), item_mode (the_item n c), [])"
    using t m by (auto simp: lock_fits_def p)
  then show ?thesis
    using t by (simp add: standing_at_def)
qed

text \<open>C28 Whatever calls, answers, timeouts and cancellations a coordinator with table locks has seen, short of its shutdown: two queries that
  databases of its pool run at the same time and that name a common table both only read.
\<close>

theorem database_exclusion:
  assumes run: "co_run gen es (new_coordinator config) = Some c" and fair: "\<forall>e\<in>set es. fair_event (snd e)"
    and locking: "pc_enableTableLocking (co_config c)"
    and both: "at_database c n1" "at_database c n2" "n1 \<noteq> n2"
    and t: "t \<in> set (qr_tables (it_request (the_item n1 c)))" "t \<in> set (qr_tables (it_request (the_item n2 c)))"
  shows "item_mode (the_item n1 c) = READ \<and> item_mode (the_item n2 c) = READ"
proof -
  note i = inv_run [OF run inv_new fair]
  have l: "lock_reachable (co_locks c)"
    using i by (simp add: coord_inv_def locks_part_def)
  note g = running_granted [OF i both(1) locking t(1)] running_granted [OF i both(2) locking t(2)]
  show ?thesis
    using lock_inv_exclusive [OF reachable_lock_inv [OF l, of t]] g both(3)
    by (cases "item_mode (the_item n1 c)"; cases "item_mode (the_item n2 c)") (auto simp: who_def)
qed

definition two_workers :: pool_config where
  "two_workers = resolvePoolConfig None
     \<lparr>po_workerCount = Some 2, po_maxQueuePerWorker = None, po_maxActiveQueries = None, po_maxOverflowQueueSize = None,
      po_defaultQueryTimeout = None, po_workerInitTimeout = None, po_enableTableLocking = None, po_restartFailedWorkers = None, po_workerIdleTimeout = None\<rparr>"

definition reads :: "string \<Rightarrow> query_request" where
  "reads i = \<lparr>qr_id = Some i, qr_sql = ''select'', qr_tables = [''T''], qr_mode = Some READ, qr_priority = None, qr_timeoutMs = None\<rparr>"

definition two_readers :: "(ms \<times> nat co_event) list" where
  "two_readers = map (Pair 1) [Query (reads ''a''), WorkerReady 1 (Inr ()), WorkerReady 2 (Inr ()), PoolInitialized True, Microtask, Microtask,
     Query (reads ''b''), Microtask]"

lemma database_exclusion_witness:
  "case co_run show_nat two_readers (new_coordinator two_workers) of
     None \<Rightarrow> False
   | Some c \<Rightarrow> at_database c 0 \<and> at_database c 1 \<and> item_mode (the_item 0 c) = READ \<and> item_mode (the_item 1 c) = READ"
proof -
  have "case co_run show_nat two_readers (new_coordinator two_workers) of
     None \<Rightarrow> False
   | Some c \<Rightarrow> at_database c 0 \<and> at_database c 1 \<and> pc_enableTableLocking (co_config c) \<and>
       qr_tables (it_request (the_item 0 c)) = [''T''] \<and> qr_tables (it_request (the_item 1 c)) = [''T'']"
    by code_simp
  then obtain c where c: "co_run show_nat two_readers (new_coordinator two_workers) = Some c" "at_database c 0" "at_database c 1"
    "pc_enableTableLocking (co_config c)" "qr_tables (it_request (the_item 0 c)) = [''T'']" "qr_tables (it_request (the_item 1 c)) = [''T'']"
    by (auto split: option.splits)
  have "\<forall>e\<in>set two_readers. fair_event (snd e)"
    by (simp add: two_readers_def fair_event_def reads_def)
  from database_exclusion [OF c(1) this c(4) c(2,3), of "''T''"] c show ?thesis
    by simp
qed

subsection \<open>Cancelling a query that waits for its locks\<close>

definition writes :: "string \<Rightarrow> query_request" where
  "writes i = \<lparr>qr_id = Some i, qr_sql = ''insert'', qr_tables = [''T''], qr_mode = Some WRITE, qr_priority = None, qr_timeoutMs = None\<rparr>"

definition writer_running :: "(ms \<times> nat co_event) list" where
  "writer_running = map (Pair 1) [Query (writes ''a''), WorkerReady 1 (Inr ()), WorkerReady 2 (Inr ()), PoolInitialized True, Microtask, Microtask]"

text \<open>The cancellation of a query that waits for its locks is refused, its timeout is dropped, and it runs when the locks are free.\<close>

lemma cancelled_waiter_runs:
  "(case co_run show_nat (writer_running @ [(1, Query (writes ''b''))]) (new_coordinator two_workers) of
      None \<Rightarrow> False
    | Some c \<Rightarrow>
        \<not> fst (cancelQuery ''b'' c) \<and>
        (case co_run show_nat [(1, Cancel ''b''), (2, Answer 1 (Inr 7)), (2, Microtask), (2, Microtask), (2, Microtask)] c of
           None \<Rightarrow> False
         | Some d \<Rightarrow> at_database d 1 \<and> it_due (the_item 1 d) = None \<and> \<not> jm_has (co_results d) 1))"
  by code_simp

text \<open>A query that comes after the shutdown is refused, but it starts the workers of the pool again.\<close>

lemma query_after_shutdown_starts_workers:
  "(case co_run show_nat (writer_running @ map (Pair 2) [Shutdown, Microtask, Query (reads ''c'')]) (new_coordinator two_workers) of
      None \<Rightarrow> False
    | Some c \<Rightarrow> co_shuttingDown c \<and> length (wp_workers (co_pool c)) = 2)"
  by code_simp

end
