(* ===== verification/Network_Monitor.thy ===== *)
theory Network_Monitor
  imports Foundation_Prelude
begin

text \<open>
  The network status monitor (\<open>libs/foundation/sync-engine/src/network/index.ts\<close>): what it believes about the connection,
  its health checks, the browser events and its listeners. A health check is a number; its answer is an event, as are the
  stored status that \<open>start\<close> loads and the ticks of the interval. The clock and \<open>navigator.onLine\<close> are
  arguments of a step. Making the URL of the check absolute and logging are left out.
\<close>

record network_status =
  ns_isOnline :: bool
  ns_lastOnlineAt :: "ms option"
  ns_lastOfflineAt :: "ms option"
  ns_connectionType :: "string option"

text \<open>\<open>heard\<close> is what listeners have been told, \<open>stored\<close> what was written to the database.\<close>

record monitor =
  nm_interval :: ms
  nm_browser :: bool
  nm_timeoutSignal :: bool
  nm_status :: network_status
  nm_started :: bool
  nm_disposed :: bool
  nm_attached :: bool
  nm_ticking :: bool
  nm_listeners :: "nat list"
  nm_loading :: nat
  nm_checks :: nat
  nm_open :: "nat list"
  nm_controller :: "nat option"
  nm_cancelled :: "nat list"
  nm_stored :: "network_status list"
  nm_heard :: "(nat \<times> network_status) list"

definition DEFAULT_HEALTH_CHECK_INTERVAL_MS :: ms where "DEFAULT_HEALTH_CHECK_INTERVAL_MS = 30000"

definition DEFAULT_NETWORK_STATUS :: "bool option \<Rightarrow> network_status" where
  "DEFAULT_NETWORK_STATUS navigator =
     \<lparr>ns_isOnline = (case navigator of Some b \<Rightarrow> b | None \<Rightarrow> True), ns_lastOnlineAt = None, ns_lastOfflineAt = None,
      ns_connectionType = None\<rparr>"

definition new_monitor :: "ms \<Rightarrow> bool \<Rightarrow> bool \<Rightarrow> bool option \<Rightarrow> monitor" where
  "new_monitor interval browser timeoutSignal navigator =
     \<lparr>nm_interval = interval, nm_browser = browser, nm_timeoutSignal = timeoutSignal, nm_status = DEFAULT_NETWORK_STATUS navigator,
      nm_started = False, nm_disposed = False, nm_attached = False, nm_ticking = False, nm_listeners = [], nm_loading = 0, nm_checks = 0,
      nm_open = [], nm_controller = None, nm_cancelled = [], nm_stored = [], nm_heard = []\<rparr>"

subsection \<open>The status\<close>

definition notifyListeners :: "monitor \<Rightarrow> monitor" where
  "notifyListeners m = m\<lparr>nm_heard := nm_heard m @ map (\<lambda>l. (l, nm_status m)) (nm_listeners m)\<rparr>"

definition persistStatus :: "monitor \<Rightarrow> monitor" where
  "persistStatus m = m\<lparr>nm_stored := nm_stored m @ [nm_status m]\<rparr>"

definition setOnline :: "ms \<Rightarrow> monitor \<Rightarrow> monitor" where
  "setOnline now m =
     (if ns_isOnline (nm_status m) then m
      else notifyListeners (persistStatus (m\<lparr>nm_status := (nm_status m)\<lparr>ns_isOnline := True, ns_lastOnlineAt := Some now\<rparr>\<rparr>)))"

definition setOffline :: "ms \<Rightarrow> monitor \<Rightarrow> monitor" where
  "setOffline now m =
     (if \<not> ns_isOnline (nm_status m) then m
      else notifyListeners (persistStatus (m\<lparr>nm_status := (nm_status m)\<lparr>ns_isOnline := False, ns_lastOfflineAt := Some now\<rparr>\<rparr>)))"

subsection \<open>Health checks\<close>

text \<open>An abort reaches the request only where \<open>AbortSignal.timeout\<close> is missing.\<close>

definition abort_current :: "monitor \<Rightarrow> monitor" where
  "abort_current m =
     (case nm_controller m of
        Some k \<Rightarrow> if nm_timeoutSignal m then m else m\<lparr>nm_cancelled := k # nm_cancelled m\<rparr>
      | None \<Rightarrow> m)"

datatype check_result = Refused | Known bool | Asked nat

definition checkConnectivity :: "ms \<Rightarrow> bool option \<Rightarrow> monitor \<Rightarrow> check_result \<times> monitor" where
  "checkConnectivity now navigator m =
     (if nm_disposed m then (Refused, m)
      else if navigator = Some False then (Known False, setOffline now m)
      else (let m1 = abort_current m; n = nm_checks m1
            in (Asked n, m1\<lparr>nm_checks := n + 1, nm_open := nm_open m1 @ [n], nm_controller := Some n\<rparr>)))"

datatype check_outcome = Head nat | Threw string | ThrewOther

definition check_answered :: "ms \<Rightarrow> nat \<Rightarrow> check_outcome \<Rightarrow> monitor \<Rightarrow> bool \<times> monitor" where
  "check_answered now n out m =
     (let m1 = m\<lparr>nm_open := remove1 n (nm_open m)\<rparr>
      in (case out of
            Head s \<Rightarrow> if s \<ge> 200 \<and> s < 300 then (True, setOnline now m1) else (False, setOffline now m1)
          | Threw name \<Rightarrow> (False, if name \<noteq> ''AbortError'' \<and> name \<noteq> ''CanceledError'' then setOffline now m1 else m1)
          | ThrewOther \<Rightarrow> (False, m1)))"

subsection \<open>Start and stop\<close>

definition attachWindowListeners :: "monitor \<Rightarrow> monitor" where
  "attachWindowListeners m = (if nm_attached m \<or> \<not> nm_browser m then m else m\<lparr>nm_attached := True\<rparr>)"

definition detachWindowListeners :: "monitor \<Rightarrow> monitor" where
  "detachWindowListeners m = (if \<not> nm_attached m \<or> \<not> nm_browser m then m else m\<lparr>nm_attached := False\<rparr>)"

definition startHealthChecks :: "monitor \<Rightarrow> monitor" where
  "startHealthChecks m = (if nm_ticking m then m else m\<lparr>nm_ticking := True\<rparr>)"

definition stopHealthChecks :: "monitor \<Rightarrow> monitor" where
  "stopHealthChecks m = m\<lparr>nm_ticking := False\<rparr>"

text \<open>\<open>start\<close> up to its first \<open>await\<close>; the flag says that it has thrown.\<close>

definition begin_start :: "monitor \<Rightarrow> bool \<times> monitor" where
  "begin_start m =
     (if nm_disposed m then (True, m)
      else if nm_started m then (False, m)
      else (False, m\<lparr>nm_started := True, nm_loading := nm_loading m + 1\<rparr>))"

datatype stored_status = LoadFailed | NoEntry | Malformed | Stored network_status

definition status_loaded :: "ms \<Rightarrow> bool option \<Rightarrow> stored_status \<Rightarrow> string option \<Rightarrow> monitor \<Rightarrow> check_result \<times> monitor" where
  "status_loaded now navigator entry connection m =
     (let m1 = m\<lparr>nm_loading := nm_loading m - 1\<rparr>;
          m2 = (case entry of Stored s \<Rightarrow> m1\<lparr>nm_status := s\<rparr> | _ \<Rightarrow> m1);
          m3 = (if nm_browser m2
                then (let m4 = attachWindowListeners m2
                      in (case connection of
                            Some (c # cs) \<Rightarrow> m4\<lparr>nm_status := (nm_status m4)\<lparr>ns_connectionType := Some (c # cs)\<rparr>\<rparr>
                          | _ \<Rightarrow> m4))
                else m2);
          m5 = (if nm_interval m3 > 0 then startHealthChecks m3 else m3)
      in checkConnectivity now navigator m5)"

definition nm_stop :: "monitor \<Rightarrow> monitor" where
  "nm_stop m =
     (if \<not> nm_started m then m
      else (detachWindowListeners ((abort_current (stopHealthChecks (m\<lparr>nm_started := False\<rparr>)))\<lparr>nm_controller := None\<rparr>))\<lparr>nm_listeners := []\<rparr>)"

definition nm_subscribe :: "nat \<Rightarrow> monitor \<Rightarrow> monitor" where
  "nm_subscribe l m =
     (if nm_disposed m then m
      else m\<lparr>nm_listeners := js_add l (nm_listeners m), nm_heard := nm_heard m @ [(l, nm_status m)]\<rparr>)"

definition nm_unsubscribe :: "nat \<Rightarrow> monitor \<Rightarrow> monitor" where
  "nm_unsubscribe l m = m\<lparr>nm_listeners := filter (\<lambda>k. k \<noteq> l) (nm_listeners m)\<rparr>"

definition nm_dispose :: "monitor \<Rightarrow> monitor" where
  "nm_dispose m = (if nm_disposed m then m else (nm_stop (m\<lparr>nm_disposed := True\<rparr>))\<lparr>nm_listeners := []\<rparr>)"

subsection \<open>Steps\<close>

datatype monitor_event =
    Start
  | Loaded stored_status "string option"
  | Stop
  | Subscribe nat
  | Unsubscribe nat
  | Check
  | Answered nat check_outcome
  | BrowserOnline
  | BrowserOffline
  | Tick
  | Dispose

text \<open>What can happen: the events of the browser and of the interval need their registration, an aborted request fails as such.\<close>

fun nm_enabled :: "monitor_event \<Rightarrow> monitor \<Rightarrow> bool" where
  "nm_enabled (Loaded s c) m \<longleftrightarrow> nm_loading m > 0"
| "nm_enabled (Answered n out) m \<longleftrightarrow> n \<in> set (nm_open m) \<and> (n \<in> set (nm_cancelled m) \<longrightarrow> out = Threw ''CanceledError'')"
| "nm_enabled BrowserOnline m \<longleftrightarrow> nm_attached m"
| "nm_enabled BrowserOffline m \<longleftrightarrow> nm_attached m"
| "nm_enabled Tick m \<longleftrightarrow> nm_ticking m"
| "nm_enabled _ m \<longleftrightarrow> True"

fun nm_step :: "ms \<times> bool option \<times> monitor_event \<Rightarrow> monitor \<Rightarrow> monitor" where
  "nm_step (now, nav, Start) m = snd (begin_start m)"
| "nm_step (now, nav, Loaded s c) m = snd (status_loaded now nav s c m)"
| "nm_step (now, nav, Stop) m = nm_stop m"
| "nm_step (now, nav, Subscribe l) m = nm_subscribe l m"
| "nm_step (now, nav, Unsubscribe l) m = nm_unsubscribe l m"
| "nm_step (now, nav, Check) m = snd (checkConnectivity now nav m)"
| "nm_step (now, nav, Answered n out) m = snd (check_answered now n out m)"
| "nm_step (now, nav, BrowserOnline) m = snd (checkConnectivity now nav m)"
| "nm_step (now, nav, BrowserOffline) m = setOffline now m"
| "nm_step (now, nav, Tick) m = snd (checkConnectivity now nav m)"
| "nm_step (now, nav, Dispose) m = nm_dispose m"

fun nm_run :: "(ms \<times> bool option \<times> monitor_event) list \<Rightarrow> monitor \<Rightarrow> monitor option" where
  "nm_run [] m = Some m"
| "nm_run (e # es) m = (if nm_enabled (snd (snd e)) m then nm_run es (nm_step e m) else None)"

subsection \<open>Listeners know the status\<close>

definition heard_by :: "nat \<Rightarrow> monitor \<Rightarrow> network_status list" where
  "heard_by l m = map snd (filter (\<lambda>e. fst e = l) (nm_heard m))"

text \<open>A value-level relation: every listener has been told, and the last it was told is the status.\<close>

definition told :: "nat list \<Rightarrow> (nat \<times> network_status) list \<Rightarrow> network_status \<Rightarrow> bool" where
  "told ls heard s \<longleftrightarrow> distinct ls \<and> (\<forall>l\<in>set ls. \<exists>us vs. heard = us @ (l, s) # vs \<and> l \<notin> fst ` set vs)"

lemma told_empty [simp]: "told [] heard s"
  by (simp add: told_def)

lemma told_all: "distinct ls \<Longrightarrow> told ls (heard @ map (\<lambda>l. (l, s)) ls) s"
proof -
  assume d: "distinct ls"
  have "\<exists>us vs. heard @ map (\<lambda>l. (l, s)) ls = us @ (l, s) # vs \<and> l \<notin> fst ` set vs" if l: "l \<in> set ls" for l
  proof -
    obtain as bs where ls: "ls = as @ l # bs" "l \<notin> set bs"
      using split_list_last [OF l] by blast
    then have "heard @ map (\<lambda>l. (l, s)) ls = (heard @ map (\<lambda>l. (l, s)) as) @ (l, s) # map (\<lambda>l. (l, s)) bs" "l \<notin> fst ` set (map (\<lambda>l. (l, s)) bs)"
      by (simp_all add: image_image)
    then show ?thesis by blast
  qed
  then show ?thesis
    using d by (simp add: told_def)
qed

lemma told_subscribe:
  assumes "told ls heard s"
  shows "told (js_add l ls) (heard @ [(l, s)]) s"
proof -
  have "\<exists>us vs. heard @ [(l, s)] = us @ (k, s) # vs \<and> k \<notin> fst ` set vs" if k: "k \<in> set (js_add l ls)" for k
  proof (cases "k = l")
    case True
    then have "heard @ [(l, s)] = heard @ (k, s) # []" by simp
    then show ?thesis by fastforce
  next
    case False
    then obtain us vs where "heard = us @ (k, s) # vs" "k \<notin> fst ` set vs"
      using assms k by (auto simp: told_def)
    then have "heard @ [(l, s)] = us @ (k, s) # (vs @ [(l, s)])" "k \<notin> fst ` set (vs @ [(l, s)])"
      using False by simp_all
    then show ?thesis by blast
  qed
  then show ?thesis
    using assms by (simp add: told_def)
qed

lemma told_filter: "told ls heard s \<Longrightarrow> told (filter P ls) heard s"
  by (simp add: told_def)

lemma told_last: "told ls (nm_heard m) s \<Longrightarrow> l \<in> set ls \<Longrightarrow> heard_by l m \<noteq> [] \<and> last (heard_by l m) = s"
proof -
  assume "told ls (nm_heard m) s" "l \<in> set ls"
  then obtain us vs where "nm_heard m = us @ (l, s) # vs" "l \<notin> fst ` set vs"
    by (auto simp: told_def)
  moreover from this have "filter (\<lambda>e. fst e = l) vs = []"
    by (auto simp: filter_empty_conv)
  ultimately show ?thesis
    by (simp add: heard_by_def)
qed

definition informed :: "monitor \<Rightarrow> bool" where
  "informed m \<longleftrightarrow> told (nm_listeners m) (nm_heard m) (nm_status m)"

lemma informed_distinct: "informed m \<Longrightarrow> distinct (nm_listeners m)"
  by (simp add: informed_def told_def)

lemma informed_set: "informed m \<Longrightarrow> informed (setOnline now m) \<and> informed (setOffline now m)"
  using informed_distinct [of m] by (auto simp: setOnline_def setOffline_def notifyListeners_def persistStatus_def informed_def told_all)

lemma informed_silent:
  "informed m \<Longrightarrow> nm_listeners m' = nm_listeners m \<Longrightarrow> nm_heard m' = nm_heard m \<Longrightarrow> nm_status m' = nm_status m \<Longrightarrow> informed m'"
  by (simp add: informed_def)

lemma informed_check: "informed m \<Longrightarrow> informed (snd (checkConnectivity now nav m))"
  by (auto simp: checkConnectivity_def informed_set Let_def abort_current_def intro: informed_silent split: option.split)

lemma informed_answered: "informed m \<Longrightarrow> informed (snd (check_answered now n out m))"
proof -
  assume "informed m"
  then have "informed (m\<lparr>nm_open := remove1 n (nm_open m)\<rparr>)"
    by (rule informed_silent) simp_all
  then show ?thesis
    by (simp add: check_answered_def Let_def informed_set split: check_outcome.split)
qed

lemma informed_quiet: "nm_listeners m = [] \<Longrightarrow> informed m"
  by (simp add: informed_def)

lemma listeners_kept [simp]:
  "nm_listeners (setOnline now m) = nm_listeners m" "nm_listeners (setOffline now m) = nm_listeners m"
  "nm_listeners (abort_current m) = nm_listeners m" "nm_listeners (startHealthChecks m) = nm_listeners m"
  "nm_listeners (attachWindowListeners m) = nm_listeners m" "nm_listeners (snd (checkConnectivity now nav m)) = nm_listeners m"
proof -
  show o: "nm_listeners (setOnline now m) = nm_listeners m" "nm_listeners (setOffline now m) = nm_listeners m"
    by (simp_all add: setOnline_def setOffline_def notifyListeners_def persistStatus_def)
  show a: "nm_listeners (abort_current m) = nm_listeners m"
    by (simp add: abort_current_def split: option.split)
  show "nm_listeners (startHealthChecks m) = nm_listeners m" "nm_listeners (attachWindowListeners m) = nm_listeners m"
    by (simp_all add: startHealthChecks_def attachWindowListeners_def)
  show "nm_listeners (snd (checkConnectivity now nav m)) = nm_listeners m"
    using o(2) a by (simp add: checkConnectivity_def Let_def)
qed

lemma listeners_loaded: "nm_listeners (snd (status_loaded now nav s c m)) = nm_listeners m"
proof -
  have "nm_listeners (case s of Stored x \<Rightarrow> k\<lparr>nm_status := x\<rparr> | _ \<Rightarrow> k) = nm_listeners k" for k :: monitor
    by (cases s) simp_all
  moreover have "nm_listeners (case c of Some (d # ds) \<Rightarrow> k\<lparr>nm_status := (nm_status k)\<lparr>ns_connectionType := Some (d # ds)\<rparr>\<rparr> | _ \<Rightarrow> k) = nm_listeners k"
    for k :: monitor
    by (simp split: option.split list.split)
  ultimately show ?thesis
    by (simp add: status_loaded_def Let_def if_distrib [of nm_listeners] cong: if_cong)
qed

text \<open>The stored status is loaded when nobody listens.\<close>

fun loads_unheard :: "(ms \<times> bool option \<times> monitor_event) list \<Rightarrow> monitor \<Rightarrow> bool" where
  "loads_unheard [] m = True"
| "loads_unheard (e # es) m =
     ((case snd (snd e) of Loaded _ _ \<Rightarrow> nm_listeners m = [] | _ \<Rightarrow> True) \<and> loads_unheard es (nm_step e m))"

lemma informed_step:
  assumes i: "informed m" and l: "case snd (snd e) of Loaded _ _ \<Rightarrow> nm_listeners m = [] | _ \<Rightarrow> True"
  shows "informed (nm_step e m)"
proof -
  obtain now nav ev where e: "e = (now, nav, ev)" by (cases e) auto
  show ?thesis
  proof (cases ev)
    case (Loaded s c)
    then show ?thesis using l by (simp add: e informed_quiet listeners_loaded)
  next
    case (Subscribe k)
    then show ?thesis using i by (simp add: e nm_subscribe_def informed_def told_subscribe)
  next
    case (Unsubscribe k)
    then show ?thesis using i by (simp add: e nm_unsubscribe_def informed_def told_filter)
  next
    case Start
    then show ?thesis using i by (auto simp: e begin_start_def intro: informed_silent)
  next
    case Stop
    then show ?thesis using i by (simp add: e nm_stop_def informed_quiet)
  next
    case Dispose
    then show ?thesis using i by (simp add: e nm_dispose_def informed_quiet)
  qed (use i in \<open>simp_all add: e informed_check informed_answered informed_set\<close>)
qed

lemma informed_run: "nm_run es m = Some m' \<Longrightarrow> informed m \<Longrightarrow> loads_unheard es m \<Longrightarrow> informed m'"
  by (induction es arbitrary: m) (auto simp: informed_step split: if_splits)

text \<open>C30 Whatever happens to a monitor, as long as the stored status is loaded before anybody listens: the last status a listener
  was told is the status of the monitor.
\<close>

theorem listeners_up_to_date:
  assumes "nm_run es (new_monitor interval browser signal nav) = Some m" and "loads_unheard es (new_monitor interval browser signal nav)"
    and "l \<in> set (nm_listeners m)"
  shows "heard_by l m \<noteq> [] \<and> last (heard_by l m) = nm_status m"
proof -
  have "informed (new_monitor interval browser signal nav)"
    by (simp add: informed_quiet new_monitor_def)
  from informed_run [OF assms(1) this assms(2)] show ?thesis
    using told_last assms(3) by (simp add: informed_def)
qed

definition sample_monitor_run :: "(ms \<times> bool option \<times> monitor_event) list" where
  "sample_monitor_run =
     [(1, Some True, Start), (2, Some True, Loaded NoEntry None), (3, Some True, Subscribe 7), (4, Some True, Answered 0 (Head 503)),
      (5, Some True, Tick), (6, Some True, Answered 1 (Head 200))]"

lemma listeners_up_to_date_witness:
  "case nm_run sample_monitor_run (new_monitor 30000 True True (Some True)) of
     None \<Rightarrow> False
   | Some m \<Rightarrow> 7 \<in> set (nm_listeners m) \<and> heard_by 7 m \<noteq> [] \<and> last (heard_by 7 m) = nm_status m \<and>
       map ns_isOnline (heard_by 7 m) = [True, False, True]"
proof -
  have r: "case nm_run sample_monitor_run (new_monitor 30000 True True (Some True)) of
     None \<Rightarrow> False
   | Some m \<Rightarrow> 7 \<in> set (nm_listeners m) \<and> map ns_isOnline (heard_by 7 m) = [True, False, True]"
    by code_simp
  have u: "loads_unheard sample_monitor_run (new_monitor 30000 True True (Some True))"
    by code_simp
  from r obtain m where m: "nm_run sample_monitor_run (new_monitor 30000 True True (Some True)) = Some m" "7 \<in> set (nm_listeners m)"
    "map ns_isOnline (heard_by 7 m) = [True, False, True]"
    by (auto split: option.splits)
  from listeners_up_to_date [OF m(1) u m(2)] m show ?thesis
    by simp
qed

subsection \<open>What goes wrong\<close>

text \<open>Health checks overlap, and the abort of the older one does not reach its request: its late failure undoes the newer answer.\<close>

lemma stale_check_wins:
  "(case nm_run [(1, Some True, Start), (2, Some True, Loaded NoEntry None), (3, Some True, Tick), (4, Some True, Answered 1 (Head 200)),
       (5, Some True, Answered 0 (Head 503))] (new_monitor 30000 True True (Some True)) of
      None \<Rightarrow> False
    | Some m \<Rightarrow> \<not> ns_isOnline (nm_status m))"
  by code_simp

text \<open>A monitor that is stopped while \<open>start\<close> loads the stored status goes on: it listens to the browser and its interval runs.\<close>

lemma stop_during_start_ignored:
  "(case nm_run [(1, Some True, Start), (2, Some True, Stop), (3, Some True, Loaded NoEntry None)] (new_monitor 30000 True True (Some True)) of
      None \<Rightarrow> False
    | Some m \<Rightarrow> \<not> nm_started m \<and> nm_attached m \<and> nm_ticking m \<and> nm_stop m = m)"
  by code_simp

text \<open>A health check that times out through the signal ends as \<open>CanceledError\<close>, which is not counted as offline.\<close>

lemma cancelled_check_keeps_status: "nm_status (snd (check_answered now n (Threw ''CanceledError'') m)) = nm_status m"
  by (simp add: check_answered_def Let_def)

end
