(* ===== verification/Sync_Coordinator.thy ===== *)
theory Sync_Coordinator
  imports Network_Monitor
begin

text \<open>
  The sync coordinator (\<open>libs/foundation/sync-engine/src/coordinator/index.ts\<close>): when a synchronisation runs. The network monitor is part of
  its state, and what the monitor tells its listener is handled at once. \<open>sync\<close> is split at its \<open>await\<close>s, of the queue
  manager and of the queue processor, whose results are events. The debounce is its refinement from
  \<open>Safe_Debounce\<close>, armed or not, the follow-up timer likewise. Which tab leads is told by events; \<open>sc_leader\<close> is \<open>None\<close> without other tabs.
  Listeners do not call back. The pass-through methods for realtime broadcasts are left out.
\<close>

datatype sync_phase = Marking | Processing

datatype 'r sync_event =
    ONLINE
  | OFFLINE
  | SYNC_START
  | SYNC_COMPLETE 'r
  | SYNC_ERROR string
  | LEADER_CHANGED bool

datatype cross_tab_note = SyncStarted | SyncCompleted | NotifyOnline | NotifyOffline

record 'r sync_coordinator =
  sc_monitor :: monitor
  sc_leader :: "bool option"
  sc_started :: bool
  sc_disposed :: bool
  sc_runtime :: bool
  sc_handlers :: bool
  sc_starting :: nat
  sc_startErrors :: nat
  sc_locked :: bool
  sc_syncs :: "(nat \<times> sync_phase \<times> string) list"
  sc_nextSync :: nat
  sc_lastSyncAt :: "ms option"
  sc_pending :: bool
  sc_debounce :: bool
  sc_timer :: bool
  sc_verify :: "nat list"
  sc_events :: "'r sync_event list"
  sc_sent :: "cross_tab_note list"
  sc_offlineMarks :: nat
  sc_errors :: "string list"

definition new_sync_coordinator :: "monitor \<Rightarrow> bool \<Rightarrow> 'r sync_coordinator" where
  "new_sync_coordinator m crossTab =
     \<lparr>sc_monitor = m, sc_leader = (if crossTab then Some False else None), sc_started = False, sc_disposed = False, sc_runtime = False,
      sc_handlers = False, sc_starting = 0, sc_startErrors = 0, sc_locked = False, sc_syncs = [], sc_nextSync = 0, sc_lastSyncAt = None,
      sc_pending = False, sc_debounce = False, sc_timer = False, sc_verify = [], sc_events = [], sc_sent = [], sc_offlineMarks = 0, sc_errors = []\<rparr>"

definition sc_online :: "'r sync_coordinator \<Rightarrow> bool" where
  "sc_online c = ns_isOnline (nm_status (sc_monitor c))"

definition sc_emit :: "'r sync_event \<Rightarrow> 'r sync_coordinator \<Rightarrow> 'r sync_coordinator" where
  "sc_emit e c = c\<lparr>sc_events := sc_events c @ [e]\<rparr>"

definition sc_notify :: "cross_tab_note \<Rightarrow> 'r sync_coordinator \<Rightarrow> 'r sync_coordinator" where
  "sc_notify n c = (if sc_leader c = None then c else c\<lparr>sc_sent := sc_sent c @ [n]\<rparr>)"

definition sc_handleError :: "string \<Rightarrow> 'r sync_coordinator \<Rightarrow> 'r sync_coordinator" where
  "sc_handleError context c = c\<lparr>sc_errors := sc_errors c @ [context]\<rparr>"

subsection \<open>Synchronisation\<close>

text \<open>The \<open>finally\<close> block of \<open>sync\<close>: a request that came while the lock was held gets a timer of its own.\<close>

definition sync_finally :: "'r sync_coordinator \<Rightarrow> 'r sync_coordinator" where
  "sync_finally c =
     (let c1 = c\<lparr>sc_locked := False\<rparr>
      in (if sc_pending c1 \<and> \<not> sc_disposed c1 then c1\<lparr>sc_pending := False, sc_timer := True\<rparr> else c1))"

definition sc_sync :: "string \<Rightarrow> 'r sync_coordinator \<Rightarrow> 'r sync_coordinator" where
  "sc_sync context c =
     (if sc_disposed c then sc_handleError context c
      else if sc_locked c then c\<lparr>sc_pending := True\<rparr>
      else if \<not> sc_online c then sync_finally (c\<lparr>sc_locked := True\<rparr>)
      else (let c1 = sc_notify SyncStarted (sc_emit SYNC_START (c\<lparr>sc_locked := True\<rparr>))
            in c1\<lparr>sc_syncs := sc_syncs c1 @ [(sc_nextSync c1, Marking, context)], sc_nextSync := sc_nextSync c1 + 1\<rparr>))"

definition drop_sync :: "nat \<Rightarrow> 'r sync_coordinator \<Rightarrow> 'r sync_coordinator" where
  "drop_sync n c = c\<lparr>sc_syncs := filter (\<lambda>(k, p, x). k \<noteq> n) (sc_syncs c)\<rparr>"

definition sync_failed :: "nat \<Rightarrow> string \<Rightarrow> string \<Rightarrow> 'r sync_coordinator \<Rightarrow> 'r sync_coordinator" where
  "sync_failed n context e c =
     sc_handleError context (sync_finally (drop_sync n (sc_handleError ''Sync'' (sc_emit (SYNC_ERROR e) c))))"

text \<open>\<open>markAllPending\<close> and \<open>process\<close> have settled.\<close>

definition sync_marked :: "nat \<Rightarrow> string \<Rightarrow> string + unit \<Rightarrow> 'r sync_coordinator \<Rightarrow> 'r sync_coordinator" where
  "sync_marked n context result c =
     (case result of
        Inl e \<Rightarrow> sync_failed n context e c
      | Inr _ \<Rightarrow> c\<lparr>sc_syncs := map (\<lambda>(k, p, x). if k = n then (k, Processing, x) else (k, p, x)) (sc_syncs c)\<rparr>)"

definition sync_processed :: "ms \<Rightarrow> nat \<Rightarrow> string \<Rightarrow> string + 'r \<Rightarrow> 'r sync_coordinator \<Rightarrow> 'r sync_coordinator" where
  "sync_processed now n context result c =
     (case result of
        Inl e \<Rightarrow> sync_failed n context e c
      | Inr r \<Rightarrow> sync_finally (drop_sync n (sc_notify SyncCompleted (sc_emit (SYNC_COMPLETE r) (c\<lparr>sc_lastSyncAt := Some now\<rparr>)))))"

definition scheduleSync :: "'r sync_coordinator \<Rightarrow> 'r sync_coordinator" where
  "scheduleSync c =
     (if sc_disposed c then c
      else if sc_pending c then c
      else c\<lparr>sc_pending := True, sc_debounce := True\<rparr>)"

definition debounce_fires :: "'r sync_coordinator \<Rightarrow> 'r sync_coordinator" where
  "debounce_fires c =
     (let c1 = c\<lparr>sc_debounce := False, sc_pending := False\<rparr>
      in (if sc_disposed c1 then c1 else sc_sync ''Scheduled sync'' c1))"

definition follow_up :: "'r sync_coordinator \<Rightarrow> 'r sync_coordinator" where
  "follow_up c =
     (let c1 = c\<lparr>sc_timer := False\<rparr>
      in (if \<not> sc_disposed c1 \<and> sc_online c1 then sc_sync ''Pending sync'' c1 else c1))"

subsection \<open>The network\<close>

definition handleNetworkStatusChange :: "network_status \<Rightarrow> 'r sync_coordinator \<Rightarrow> 'r sync_coordinator" where
  "handleNetworkStatusChange status c =
     (if sc_disposed c then c
      else if ns_isOnline status
      then (let c1 = sc_notify NotifyOnline (sc_emit ONLINE c)
            in (if sc_leader c1 \<noteq> Some False then scheduleSync c1 else c1))
      else (let c1 = sc_notify NotifyOffline (sc_emit OFFLINE c)
            in c1\<lparr>sc_debounce := False, sc_pending := False, sc_offlineMarks := sc_offlineMarks c1 + 1\<rparr>))"

text \<open>An operation on the monitor; the coordinator is its listener \<open>0\<close> and hears what it tells.\<close>

definition with_monitor :: "(monitor \<Rightarrow> monitor) \<Rightarrow> 'r sync_coordinator \<Rightarrow> 'r sync_coordinator" where
  "with_monitor f c =
     (let m = sc_monitor c; m' = f m;
          told = filter (\<lambda>(l, s). l = 0) (drop (length (nm_heard m)) (nm_heard m'))
      in fold (\<lambda>(l, s). handleNetworkStatusChange s) told (c\<lparr>sc_monitor := m'\<rparr>))"

text \<open>A health check is answered; the one another tab's message has asked for may schedule a synchronisation.\<close>

definition sc_check_answered :: "ms \<Rightarrow> nat \<Rightarrow> check_outcome \<Rightarrow> 'r sync_coordinator \<Rightarrow> 'r sync_coordinator" where
  "sc_check_answered now n out c =
     (let ok = fst (check_answered now n out (sc_monitor c));
          c1 = with_monitor (\<lambda>m. snd (check_answered now n out m)) c
      in (if n \<in> set (sc_verify c1) then (if ok then scheduleSync else id) (c1\<lparr>sc_verify := filter (\<lambda>k. k \<noteq> n) (sc_verify c1)\<rparr>) else c1))"

subsection \<open>Start and stop\<close>

definition sc_start :: "'r sync_coordinator \<Rightarrow> 'r sync_coordinator" where
  "sc_start c =
     (if sc_disposed c \<or> sc_started c then c
      else (let c1 = c\<lparr>sc_started := True, sc_runtime := True, sc_starting := sc_starting c + 1\<rparr>
            in with_monitor (\<lambda>m. snd (begin_start m)) c1))"

text \<open>\<open>networkMonitor.start()\<close> has returned. Without \<open>runtimeDisposables\<close> the next line but one throws a \<open>TypeError\<close>.\<close>

definition monitor_started :: "'r sync_coordinator \<Rightarrow> 'r sync_coordinator" where
  "monitor_started c =
     (let c1 = c\<lparr>sc_starting := sc_starting c - 1\<rparr>
      in (if nm_disposed (sc_monitor c1) then c1\<lparr>sc_startErrors := sc_startErrors c1 + 1\<rparr>
          else (let c2 = with_monitor (nm_subscribe 0) c1
                in (if \<not> sc_runtime c2 then c2\<lparr>sc_startErrors := sc_startErrors c2 + 1\<rparr>
                    else (let c3 = (if sc_leader c2 \<noteq> None then c2\<lparr>sc_handlers := True\<rparr> else c2)
                          in (if sc_online c3 then sc_sync ''Initial sync'' c3 else c3))))))"

definition sc_stop :: "'r sync_coordinator \<Rightarrow> 'r sync_coordinator" where
  "sc_stop c =
     (if \<not> sc_started c then c
      else with_monitor (\<lambda>m. nm_unsubscribe 0 (nm_stop m))
             (c\<lparr>sc_started := False, sc_debounce := False, sc_timer := False, sc_pending := False, sc_runtime := False, sc_handlers := False\<rparr>))"

definition sc_dispose :: "'r sync_coordinator \<Rightarrow> 'r sync_coordinator" where
  "sc_dispose c =
     (if sc_disposed c then c
      else with_monitor nm_dispose
             ((sc_stop (c\<lparr>sc_disposed := True\<rparr>))\<lparr>sc_debounce := False, sc_timer := False, sc_pending := False, sc_runtime := False\<rparr>))"

subsection \<open>Messages of other tabs\<close>

definition online_elsewhere :: "ms \<Rightarrow> bool option \<Rightarrow> 'r sync_coordinator \<Rightarrow> 'r sync_coordinator" where
  "online_elsewhere now navigator c =
     (if \<not> sc_handlers c \<or> sc_leader c \<noteq> Some True then c
      else (let c1 = with_monitor (\<lambda>m. snd (checkConnectivity now navigator m)) c
            in (case fst (checkConnectivity now navigator (sc_monitor c)) of
                  Asked n \<Rightarrow> c1\<lparr>sc_verify := sc_verify c1 @ [n]\<rparr>
                | Known b \<Rightarrow> c1
                | Refused \<Rightarrow> sc_handleError ''Cross-tab connectivity check'' c1)))"

definition leader_elected :: "bool \<Rightarrow> 'r sync_coordinator \<Rightarrow> 'r sync_coordinator" where
  "leader_elected isNowLeader c =
     (if \<not> sc_handlers c then c
      else (let c1 = sc_emit (LEADER_CHANGED isNowLeader) c in (if isNowLeader then scheduleSync c1 else c1)))"

record sync_state =
  ss_isOnline :: bool
  ss_isSyncing :: bool
  ss_lastSyncAt :: "ms option"
  ss_pendingMutations :: nat
  ss_failedMutations :: nat
  ss_isLeader :: bool

text \<open>\<open>getState\<close>, given the numbers of pending, offline and failed entries of the queue.\<close>

definition sc_getState :: "nat \<times> nat \<times> nat \<Rightarrow> 'r sync_coordinator \<Rightarrow> sync_state" where
  "sc_getState = (\<lambda>(pending, offline, failed) c.
     \<lparr>ss_isOnline = sc_online c, ss_isSyncing = sc_locked c, ss_lastSyncAt = sc_lastSyncAt c, ss_pendingMutations = pending + offline,
      ss_failedMutations = failed, ss_isLeader = (case sc_leader c of Some b \<Rightarrow> b | None \<Rightarrow> True)\<rparr>)"

subsection \<open>Steps\<close>

datatype 'r sc_event =
    StartCalled
  | MonitorStarted
  | StopCalled
  | DisposeCalled
  | SyncCalled
  | ScheduleCalled
  | DebounceFires
  | TimerFires
  | Marked nat "string + unit"
  | Processed nat "string + 'r"
  | CheckAnswered nat check_outcome
  | MonitorEvent monitor_event
  | OnlineElsewhere
  | Elected bool
  | Leads bool

definition context_of :: "nat \<Rightarrow> 'r sync_coordinator \<Rightarrow> (sync_phase \<times> string) option" where
  "context_of n c = map_of (sc_syncs c) n"

fun sc_enabled :: "'r sc_event \<Rightarrow> 'r sync_coordinator \<Rightarrow> bool" where
  "sc_enabled MonitorStarted c \<longleftrightarrow> sc_starting c > 0"
| "sc_enabled DebounceFires c \<longleftrightarrow> sc_debounce c"
| "sc_enabled TimerFires c \<longleftrightarrow> sc_timer c"
| "sc_enabled (Marked n r) c \<longleftrightarrow> map_option fst (context_of n c) = Some Marking"
| "sc_enabled (Processed n r) c \<longleftrightarrow> map_option fst (context_of n c) = Some Processing"
| "sc_enabled (CheckAnswered n out) c \<longleftrightarrow> nm_enabled (Answered n out) (sc_monitor c)"
| "sc_enabled (MonitorEvent e) c \<longleftrightarrow>
     nm_enabled e (sc_monitor c) \<and> (case e of Loaded _ _ \<Rightarrow> True | Check \<Rightarrow> True | BrowserOnline \<Rightarrow> True | BrowserOffline \<Rightarrow> True | Tick \<Rightarrow> True | _ \<Rightarrow> False)"
| "sc_enabled (Leads b) c \<longleftrightarrow> sc_leader c \<noteq> None"
| "sc_enabled _ c \<longleftrightarrow> True"

fun sc_step :: "ms \<times> bool option \<times> 'r sc_event \<Rightarrow> 'r sync_coordinator \<Rightarrow> 'r sync_coordinator" where
  "sc_step (now, nav, StartCalled) c = sc_start c"
| "sc_step (now, nav, MonitorStarted) c = monitor_started c"
| "sc_step (now, nav, StopCalled) c = sc_stop c"
| "sc_step (now, nav, DisposeCalled) c = sc_dispose c"
| "sc_step (now, nav, SyncCalled) c = sc_sync ''caller'' c"
| "sc_step (now, nav, ScheduleCalled) c = scheduleSync c"
| "sc_step (now, nav, DebounceFires) c = debounce_fires c"
| "sc_step (now, nav, TimerFires) c = follow_up c"
| "sc_step (now, nav, Marked n r) c = (case context_of n c of Some (p, x) \<Rightarrow> sync_marked n x r c | None \<Rightarrow> c)"
| "sc_step (now, nav, Processed n r) c = (case context_of n c of Some (p, x) \<Rightarrow> sync_processed now n x r c | None \<Rightarrow> c)"
| "sc_step (now, nav, CheckAnswered n out) c = sc_check_answered now n out c"
| "sc_step (now, nav, MonitorEvent e) c = with_monitor (nm_step (now, nav, e)) c"
| "sc_step (now, nav, OnlineElsewhere) c = online_elsewhere now nav c"
| "sc_step (now, nav, Elected b) c = leader_elected b c"
| "sc_step (now, nav, Leads b) c = c\<lparr>sc_leader := Some b\<rparr>"

fun sc_run :: "(ms \<times> bool option \<times> 'r sc_event) list \<Rightarrow> 'r sync_coordinator \<Rightarrow> 'r sync_coordinator option" where
  "sc_run [] c = Some c"
| "sc_run (e # es) c = (if sc_enabled (snd (snd e)) c then sc_run es (sc_step e c) else None)"

subsection \<open>One synchronisation at a time, and no request lost\<close>

text \<open>The events of synchronisations, in order: each start is answered by one completion or error before the next. The value says whether one is open.\<close>

fun brackets :: "bool \<Rightarrow> 'r sync_event list \<Rightarrow> bool option" where
  "brackets running [] = Some running"
| "brackets running (SYNC_START # es) = (if running then None else brackets True es)"
| "brackets running (SYNC_COMPLETE r # es) = (if running then brackets False es else None)"
| "brackets running (SYNC_ERROR e # es) = (if running then brackets False es else None)"
| "brackets running (_ # es) = brackets running es"

lemma brackets_append: "brackets b (es @ fs) = (case brackets b es of None \<Rightarrow> None | Some b' \<Rightarrow> brackets b' fs)"
  by (induction b es rule: brackets.induct) auto

definition orderly :: "bool \<Rightarrow> (nat \<times> sync_phase \<times> string) list \<Rightarrow> bool \<Rightarrow> bool \<Rightarrow> bool \<Rightarrow> 'r sync_event list \<Rightarrow> bool" where
  "orderly locked syncs pending debounce disposed events \<longleftrightarrow>
     locked = (syncs \<noteq> []) \<and> length syncs \<le> 1 \<and> (pending \<longrightarrow> (debounce \<or> locked) \<and> \<not> disposed) \<and>
     brackets False events = Some (syncs \<noteq> [])"

definition sync_inv :: "'r sync_coordinator \<Rightarrow> bool" where
  "sync_inv c \<longleftrightarrow> orderly (sc_locked c) (sc_syncs c) (sc_pending c) (sc_debounce c) (sc_disposed c) (sc_events c)"

lemma inv_notify [simp]: "sync_inv (sc_notify n c) = sync_inv c" and inv_error [simp]: "sync_inv (sc_handleError x c) = sync_inv c"
  by (simp_all add: sync_inv_def sc_notify_def sc_handleError_def)

lemma inv_emit: "sync_inv c \<Longrightarrow> brackets (sc_syncs c \<noteq> []) [e] = Some (sc_syncs c \<noteq> []) \<Longrightarrow> sync_inv (sc_emit e c)"
  by (auto simp: sync_inv_def sc_emit_def orderly_def brackets_append)

lemma inv_schedule: "sync_inv c \<Longrightarrow> sync_inv (scheduleSync c)"
  by (auto simp: scheduleSync_def sync_inv_def orderly_def)

lemma inv_quiet_down: "sync_inv c \<Longrightarrow> sync_inv (c\<lparr>sc_debounce := False, sc_pending := False, sc_offlineMarks := n\<rparr>)"
  by (auto simp: sync_inv_def orderly_def)

lemma inv_status: "sync_inv c \<Longrightarrow> sync_inv (handleNetworkStatusChange s c)"
  by (simp add: handleNetworkStatusChange_def Let_def inv_schedule inv_emit inv_quiet_down)

lemma inv_with_monitor: "sync_inv c \<Longrightarrow> sync_inv (with_monitor f c)"
proof -
  assume "sync_inv c"
  then have m: "sync_inv (c\<lparr>sc_monitor := m\<rparr>)" for m
    by (simp add: sync_inv_def)
  have "sync_inv c \<Longrightarrow> sync_inv (fold (\<lambda>(l, s). handleNetworkStatusChange s) xs c)" for xs :: "(nat \<times> network_status) list" and c :: "'a sync_coordinator"
    by (induction xs arbitrary: c) (auto simp: inv_status)
  from this [OF m] show ?thesis
    by (simp add: with_monitor_def Let_def)
qed

lemma inv_finally:
  "sc_syncs c = [] \<Longrightarrow> brackets False (sc_events c) = Some False \<Longrightarrow> sc_pending c \<longrightarrow> \<not> sc_disposed c \<Longrightarrow> sync_inv (sync_finally c)"
  by (auto simp: sync_finally_def sync_inv_def orderly_def Let_def)

lemma inv_sync: "sync_inv c \<Longrightarrow> sync_inv (sc_sync x c)"
proof -
  assume i: "sync_inv c"
  show ?thesis
  proof (cases "sc_disposed c \<or> sc_locked c")
    case True
    then show ?thesis using i by (auto simp: sc_sync_def) (auto simp: sync_inv_def orderly_def)
  next
    case False
    then have "sync_inv (sync_finally (c\<lparr>sc_locked := True\<rparr>))"
      using i by (intro inv_finally) (auto simp: sync_inv_def orderly_def)
    then show ?thesis
      using False i by (auto simp: sc_sync_def sc_notify_def sc_emit_def Let_def sync_inv_def orderly_def brackets_append)
  qed
qed

text \<open>The only synchronisation ends.\<close>

lemma only_sync:
  assumes "sync_inv c" "context_of n c = Some (p, x)"
  shows "sc_syncs c = [(n, p, x)]"
  using assms by (cases "sc_syncs c") (auto simp: sync_inv_def orderly_def context_of_def split: if_splits)

lemma inv_end:
  assumes "sync_inv c" "sc_syncs c = [(n, p, x)]" "brackets True [e] = Some False"
  shows "sync_inv (sync_finally (drop_sync n (sc_notify t (sc_emit e (c\<lparr>sc_lastSyncAt := l\<rparr>)))))"
    and "sync_inv (sync_finally (drop_sync n (sc_handleError y (sc_emit e c))))"
proof -
  have b: "brackets False (sc_events c @ [e]) = Some False" and d: "sc_pending c \<longrightarrow> \<not> sc_disposed c"
    using assms by (auto simp: sync_inv_def orderly_def brackets_append)
  show "sync_inv (sync_finally (drop_sync n (sc_notify t (sc_emit e (c\<lparr>sc_lastSyncAt := l\<rparr>)))))"
    by (rule inv_finally) (use assms(2) b d in \<open>simp_all add: drop_sync_def sc_notify_def sc_emit_def\<close>)
  show "sync_inv (sync_finally (drop_sync n (sc_handleError y (sc_emit e c))))"
    by (rule inv_finally) (use assms(2) b d in \<open>simp_all add: drop_sync_def sc_handleError_def sc_emit_def\<close>)
qed

lemma inv_failed: "sync_inv c \<Longrightarrow> sc_syncs c = [(n, p, x)] \<Longrightarrow> sync_inv (sync_failed n y e c)"
  by (simp add: sync_failed_def inv_end(2))

lemma inv_marked: "sync_inv c \<Longrightarrow> sc_syncs c = [(n, p, x)] \<Longrightarrow> sync_inv (sync_marked n y r c)"
  by (auto simp: sync_marked_def inv_failed split: sum.split) (auto simp: sync_inv_def orderly_def)

lemma inv_processed: "sync_inv c \<Longrightarrow> sc_syncs c = [(n, p, x)] \<Longrightarrow> sync_inv (sync_processed now n y r c)"
  by (auto simp: sync_processed_def inv_failed inv_end(1) split: sum.split)

lemma inv_stop: "sync_inv c \<Longrightarrow> sync_inv (sc_stop c)"
  unfolding sc_stop_def by (auto intro!: inv_with_monitor) (auto simp: sync_inv_def orderly_def)

lemma sync_inv_step:
  assumes i: "sync_inv c"
  shows "sync_inv (sc_step e c)"
proof -
  obtain now nav ev where e: "e = (now, nav, ev)" by (cases e) auto
  show ?thesis
  proof (cases ev)
    case StartCalled
    have "sync_inv (c\<lparr>sc_started := True, sc_runtime := True, sc_starting := n\<rparr>)" for n
      using i by (simp add: sync_inv_def)
    then show ?thesis
      using i by (simp add: e StartCalled sc_start_def Let_def inv_with_monitor)
  next
    case MonitorStarted
    have a: "sync_inv (c\<lparr>sc_starting := n\<rparr>)" for n
      using i by (simp add: sync_inv_def)
    then have b: "sync_inv (c\<lparr>sc_starting := n, sc_startErrors := k\<rparr>)" for n k
      by (simp add: sync_inv_def)
    have c: "sync_inv (d\<lparr>sc_startErrors := k\<rparr>)" "sync_inv (d\<lparr>sc_handlers := h\<rparr>)" if "sync_inv d" for d :: "'a sync_coordinator" and k h
      using that by (simp_all add: sync_inv_def)
    show ?thesis
      using a b by (simp add: e MonitorStarted monitor_started_def Let_def c inv_sync inv_with_monitor)
  next
    case DisposeCalled
    have calm: "sync_inv (d\<lparr>sc_debounce := False, sc_timer := False, sc_pending := False, sc_runtime := False\<rparr>)"
      if "sync_inv d" for d :: "'a sync_coordinator"
      using that by (auto simp: sync_inv_def orderly_def)
    have "sync_inv ((sc_stop (c\<lparr>sc_disposed := True\<rparr>))\<lparr>sc_debounce := False, sc_timer := False, sc_pending := False, sc_runtime := False\<rparr>)"
    proof (cases "sc_started c")
      case True
      have "sync_inv (sc_stop (c\<lparr>sc_disposed := True\<rparr>))"
        using i True unfolding sc_stop_def by (auto intro!: inv_with_monitor) (auto simp: sync_inv_def orderly_def)
      then show ?thesis by (rule calm)
    next
      case False
      then show ?thesis
        using i by (auto simp: sc_stop_def sync_inv_def orderly_def)
    qed
    then show ?thesis
      using i by (simp add: e DisposeCalled sc_dispose_def inv_with_monitor)
  next
    case DebounceFires
    have "sync_inv (c\<lparr>sc_debounce := False, sc_pending := False\<rparr>)"
      using i by (auto simp: sync_inv_def orderly_def)
    then show ?thesis
      by (simp add: e DebounceFires debounce_fires_def Let_def inv_sync)
  next
    case TimerFires
    have "sync_inv (c\<lparr>sc_timer := False\<rparr>)"
      using i by (simp add: sync_inv_def)
    then show ?thesis
      by (simp add: e TimerFires follow_up_def Let_def inv_sync)
  next
    case (Marked n r)
    then show ?thesis
      using i only_sync [OF i] by (auto simp: e inv_marked split: option.split)
  next
    case (Processed n r)
    then show ?thesis
      using i only_sync [OF i] by (auto simp: e inv_processed split: option.split)
  next
    case (CheckAnswered n out)
    have "sync_inv (d\<lparr>sc_verify := v\<rparr>)" if "sync_inv d" for d :: "'a sync_coordinator" and v
      using that by (simp add: sync_inv_def)
    then show ?thesis
      using inv_with_monitor [OF i] by (simp add: e CheckAnswered sc_check_answered_def Let_def inv_schedule)
  next
    case OnlineElsewhere
    have "sync_inv (d\<lparr>sc_verify := v\<rparr>)" if "sync_inv d" for d :: "'a sync_coordinator" and v
      using that by (simp add: sync_inv_def)
    then show ?thesis
      using i inv_with_monitor [OF i] by (simp add: e OnlineElsewhere online_elsewhere_def Let_def split: check_result.split)
  next
    case (Elected b)
    then show ?thesis
      using i by (simp add: e leader_elected_def Let_def inv_schedule inv_emit)
  next
    case (Leads b)
    then show ?thesis
      using i by (simp add: e sync_inv_def)
  qed (use i in \<open>simp_all add: e inv_sync inv_schedule inv_stop inv_with_monitor\<close>)
qed

lemma sync_inv_new: "sync_inv (new_sync_coordinator m crossTab)"
  by (simp add: sync_inv_def orderly_def new_sync_coordinator_def)

lemma sync_inv_run: "sc_run es c = Some c' \<Longrightarrow> sync_inv c \<Longrightarrow> sync_inv c'"
  by (induction es arbitrary: c) (auto simp: sync_inv_step split: if_splits)

text \<open>C31 Whatever calls, network changes, timers and results a coordinator sees: at most one synchronisation runs; listeners see a start, then
  its one completion or error, then the next start; and a request that is noted has a debounce that will fire or a running
  synchronisation at whose end it is taken up.
\<close>

theorem syncs_are_orderly:
  assumes "sc_run es (new_sync_coordinator m crossTab) = Some c"
  shows "length (sc_syncs c) \<le> 1 \<and> brackets False (sc_events c) = Some (sc_syncs c \<noteq> []) \<and>
    (sc_pending c \<longrightarrow> sc_debounce c \<or> sc_syncs c \<noteq> [])"
  using sync_inv_run [OF assms sync_inv_new] by (auto simp: sync_inv_def orderly_def)

definition fresh_monitor :: monitor where
  "fresh_monitor = new_monitor 30000 True True (Some True)"

definition started_run :: "(ms \<times> bool option \<times> nat sc_event) list" where
  "started_run = map (\<lambda>e. (1, Some True, e))
     [StartCalled, MonitorEvent (Loaded NoEntry None), CheckAnswered 0 (Head 200), MonitorStarted]"

definition started_coordinator :: "bool \<Rightarrow> nat sync_coordinator" where
  "started_coordinator crossTab =
     (case sc_run started_run (new_sync_coordinator fresh_monitor crossTab) of Some c \<Rightarrow> c | None \<Rightarrow> new_sync_coordinator fresh_monitor crossTab)"

lemma started_coordinator_runs: "sc_run started_run (new_sync_coordinator fresh_monitor b) = Some (started_coordinator b)"
proof -
  have "sc_run started_run (new_sync_coordinator fresh_monitor b) \<noteq> None"
    by (cases b) code_simp+
  then show ?thesis
    by (auto simp: started_coordinator_def)
qed

lemma syncs_are_orderly_witness:
  "length (sc_syncs (started_coordinator False)) \<le> 1 \<and>
   brackets False (sc_events (started_coordinator False)) = Some (sc_syncs (started_coordinator False) \<noteq> [])"
  using syncs_are_orderly [OF started_coordinator_runs] by blast



subsection \<open>What goes wrong\<close>

text \<open>The first synchronisation does not ask who leads, as later ones do: every tab that opens runs the queue.\<close>

lemma follower_syncs_at_start: "sc_leader (started_coordinator True) = Some False \<and> sc_syncs (started_coordinator True) \<noteq> []"
  by code_simp

text \<open>Subscribing to the monitor reports its status at once, so a start synchronises twice: now and when the debounce fires.\<close>

lemma start_syncs_twice: "sc_syncs (started_coordinator False) \<noteq> [] \<and> sc_debounce (started_coordinator False)"
  by code_simp

text \<open>Stopped while the monitor starts, the coordinator fails with a \<open>TypeError\<close>, and the monitor runs and reports to it.\<close>

lemma stop_during_start_leaks:
  "(case sc_run [(1, Some True, StartCalled), (2, Some True, StopCalled), (3, Some True, MonitorEvent (Loaded NoEntry None)),
       (4, Some True, CheckAnswered 0 (Head 200)), (5, Some True, MonitorStarted), (6, Some True, DebounceFires)]
       (new_sync_coordinator fresh_monitor False :: nat sync_coordinator) of
      None \<Rightarrow> False
    | Some c \<Rightarrow> \<not> sc_started c \<and> sc_startErrors c = 1 \<and> nm_ticking (sc_monitor c) \<and> sc_syncs c \<noteq> [])"
  by code_simp

end
