(* ===== verification/Http_Adapter.thy ===== *)
theory Http_Adapter
  imports Queue_Processor
begin

text \<open>
  The executor that replays queued mutations over HTTP (\<open>sync-engine/src/http/adapter.ts\<close>) and the
  realtime bridge (\<open>sync-engine/src/realtime/bridge.ts\<close>). The axios instance is a parameter: a request
  either answers with the data of its response or throws an error, which may carry a response with a
  status and data. The functions of a table's descriptors are parameters as well and may throw.
  \<open>Date.parse\<close> and \<open>Date.now\<close> are parameters; a timestamp of the server that is not whole is rounded
  down when it reaches the queue processor, whose clock counts whole milliseconds. A value that is
  neither plain object nor array (\<open>JOpaque\<close>) counts as no record. The last section puts the adapter
  into the processor of \<open>Queue_Processor\<close>.
\<close>

subsection \<open>Values\<close>

fun isRecord :: "jsv \<Rightarrow> bool" where
  "isRecord (JObj es) = True"
| "isRecord v = False"

text \<open>The property \<open>k\<close> of a value, \<open>undefined\<close> where it has none.\<close>

fun property_of :: "string \<Rightarrow> jsv \<Rightarrow> jsv" where
  "property_of k (JObj es) = (case jm_get es k of None \<Rightarrow> JUndef | Some v \<Rightarrow> v)"
| "property_of k v = JUndef"

fun has_property :: "string \<Rightarrow> jsv \<Rightarrow> bool" where
  "has_property k (JObj es) = jm_has es k"
| "has_property k v = False"

definition unwrapApiEnvelope :: "jsv \<Rightarrow> jsv" where
  "unwrapApiEnvelope v = (if isRecord v \<and> has_property ''data'' v then property_of ''data'' v else v)"

definition extractServerTimestamp :: "(string \<Rightarrow> int option) \<Rightarrow> jsv \<Rightarrow> rat option" where
  "extractServerTimestamp dateParse v =
     (if \<not> isRecord v then None
      else (case property_of ''occurredAt'' v of
              JNum t \<Rightarrow> Some t
            | _ \<Rightarrow>
                (case property_of ''updatedAt'' v of
                   JStr s \<Rightarrow> map_option of_int (dateParse s)
                 | _ \<Rightarrow>
                     (if isRecord (property_of ''meta'' v)
                      then (case property_of ''timestamp'' (property_of ''meta'' v) of
                              JNum t \<Rightarrow> Some t
                            | _ \<Rightarrow> None)
                      else None))))"

subsection \<open>Descriptors\<close>

text \<open>
  What is thrown while a mutation is replayed: the text that \<open>getErrorMessage\<close> finds, and the status
  and data of \<open>response\<close> where the error has one.
\<close>

record http_failure =
  hf_message :: string
  hf_response :: "(int \<times> jsv) option"

datatype mutation_method = POST | PUT | PATCH | HTTP_DELETE

datatype 'a descriptor_path = Fixed_path string | Path_of "'a \<Rightarrow> http_failure + string"

record api_descriptor =
  ad_method :: mutation_method
  ad_path :: "jsv descriptor_path"
  ad_params :: "(jsv \<Rightarrow> http_failure + jsv) option"
  ad_body :: "(jsv \<Rightarrow> http_failure + jsv) option"
  ad_mapResponse :: "(jsv \<Rightarrow> http_failure + jsv) option"

record unified_api =
  ta_create :: "api_descriptor option"
  ta_update :: "api_descriptor option"
  ta_delete :: "api_descriptor option"

record table_entry =
  te_name :: string
  te_api :: "unified_api option"

record axios_request =
  ax_method :: mutation_method
  ax_url :: string
  ax_params :: jsv
  ax_data :: jsv

fun resolveDescriptorPath :: "'a descriptor_path \<Rightarrow> 'a \<Rightarrow> http_failure + string" where
  "resolveDescriptorPath (Fixed_path p) args = Inr p"
| "resolveDescriptorPath (Path_of f) args = f args"

definition optional_call :: "('a \<Rightarrow> http_failure + jsv) option \<Rightarrow> 'a \<Rightarrow> http_failure + jsv" where
  "optional_call f args = (case f of None \<Rightarrow> Inr JUndef | Some g \<Rightarrow> g args)"

text \<open>The request, its parts evaluated in the order of the object literal.\<close>

definition build_request :: "api_descriptor \<Rightarrow> jsv \<Rightarrow> http_failure + axios_request" where
  "build_request d args =
     (case resolveDescriptorPath (ad_path d) args of
        Inl e \<Rightarrow> Inl e
      | Inr url \<Rightarrow>
          (case optional_call (ad_params d) args of
             Inl e \<Rightarrow> Inl e
           | Inr params \<Rightarrow>
               (case optional_call (ad_body d) args of
                  Inl e \<Rightarrow> Inl e
                | Inr body \<Rightarrow>
                    Inr \<lparr>ax_method = ad_method d, ax_url = url, ax_params = params, ax_data = body\<rparr>)))"

subsection \<open>The adapter\<close>

record http_adapter =
  ha_tables :: "(string, table_entry) jmap"
  ha_disposed :: bool

definition new_adapter :: "table_entry list \<Rightarrow> http_adapter" where
  "new_adapter tables = \<lparr>ha_tables = fold (\<lambda>t m. jm_set (te_name t) t m) tables [], ha_disposed = False\<rparr>"

definition ha_dispose :: "http_adapter \<Rightarrow> http_adapter" where
  "ha_dispose a = (if ha_disposed a then a else a\<lparr>ha_tables := [], ha_disposed := True\<rparr>)"

definition getDescriptor :: "http_adapter \<Rightarrow> mutation \<Rightarrow> api_descriptor option" where
  "getDescriptor a m =
     (case jm_get (ha_tables a) (m_tableName m) of
        None \<Rightarrow> None
      | Some t \<Rightarrow>
          (case te_api t of
             None \<Rightarrow> None
           | Some api \<Rightarrow>
               (case m_type m of
                  CREATE \<Rightarrow> ta_create api
                | UPDATE \<Rightarrow> ta_update api
                | DELETE \<Rightarrow> ta_delete api)))"

record adapter_env =
  ae_request :: "nat \<Rightarrow> axios_request \<Rightarrow> http_failure + jsv"
  ae_now :: "nat \<Rightarrow> ms"
  ae_dateParse :: "string \<Rightarrow> int option"

definition timestamp_or_now :: "adapter_env \<Rightarrow> nat \<Rightarrow> jsv \<Rightarrow> ms" where
  "timestamp_or_now env t v =
     (case extractServerTimestamp (ae_dateParse env) v of Some s \<Rightarrow> \<lfloor>s\<rfloor> | None \<Rightarrow> ae_now env t)"

definition adapter_failure :: "adapter_env \<Rightarrow> nat \<Rightarrow> http_failure \<Rightarrow> exec_result" where
  "adapter_failure env t e =
     (case hf_response e of
        Some (status, v) \<Rightarrow>
          if status = 409
          then \<lparr>er_success = False, er_serverId = None, er_serverTimestamp = Some (timestamp_or_now env t v),
                er_error = Some (hf_message e), er_serverData = unwrapApiEnvelope v\<rparr>
          else \<lparr>er_success = False, er_serverId = None, er_serverTimestamp = None,
                er_error = Some (hf_message e), er_serverData = JUndef\<rparr>
      | None \<Rightarrow> \<lparr>er_success = False, er_serverId = None, er_serverTimestamp = None,
                 er_error = Some (hf_message e), er_serverData = JUndef\<rparr>)"

definition server_id_of :: "jsv \<Rightarrow> string option" where
  "server_id_of v =
     (if isRecord v then (case property_of ''id'' v of JStr s \<Rightarrow> Some s | _ \<Rightarrow> None) else None)"

definition map_response :: "api_descriptor \<Rightarrow> jsv \<Rightarrow> http_failure + jsv" where
  "map_response d v = (case ad_mapResponse d of Some f \<Rightarrow> f v | None \<Rightarrow> Inr (unwrapApiEnvelope v))"

definition adapter_success :: "adapter_env \<Rightarrow> nat \<Rightarrow> jsv \<Rightarrow> jsv \<Rightarrow> exec_result" where
  "adapter_success env t raw mapped =
     \<lparr>er_success = True, er_serverId = server_id_of mapped,
      er_serverTimestamp = Some (timestamp_or_now env t raw), er_error = None, er_serverData = mapped\<rparr>"

text \<open>
  \<open>execute\<close> returns the requests it sent beside its outcome; the whole \<open>try\<close> block, the mapping of the
  response included, is covered by the \<open>catch\<close>.
\<close>

definition adapter_execute ::
  "adapter_env \<Rightarrow> http_adapter \<Rightarrow> nat \<Rightarrow> mutation \<Rightarrow> exec_outcome \<times> axios_request list" where
  "adapter_execute env a t m =
     (if ha_disposed a then (Threw ''Cannot use disposed HttpMutationAdapter'', [])
      else (case getDescriptor a m of
              None \<Rightarrow>
                (Returned \<lparr>er_success = False, er_serverId = None, er_serverTimestamp = None,
                   er_error = Some (''No API mutation configured for '' @ m_tableName m @ '':'' @
                     mutation_type_text (m_type m)),
                   er_serverData = JUndef\<rparr>, [])
            | Some d \<Rightarrow>
                (case build_request d (m_payload m) of
                   Inl e \<Rightarrow> (Returned (adapter_failure env t e), [])
                 | Inr rq \<Rightarrow>
                     (case ae_request env t rq of
                        Inl e \<Rightarrow> (Returned (adapter_failure env t e), [rq])
                      | Inr raw \<Rightarrow>
                          (case map_response d raw of
                             Inl e \<Rightarrow> (Returned (adapter_failure env t e), [rq])
                           | Inr mapped \<Rightarrow> (Returned (adapter_success env t raw mapped), [rq]))))))"

definition createMutationExecutor :: "adapter_env \<Rightarrow> http_adapter \<Rightarrow> nat \<Rightarrow> mutation \<Rightarrow> exec_outcome" where
  "createMutationExecutor env a t m = fst (adapter_execute env a t m)"

subsection \<open>The realtime bridge\<close>

record bridge_event =
  be_table :: string
  be_queryKeys :: "jsv list list option"

datatype bridge_effect = Invalidate_query "jsv list" | Invalidate_other_tabs "jsv list list"

record realtime_bridge =
  rb_crossTab :: bool
  rb_disposed :: bool

definition bridge_apply :: "realtime_bridge \<Rightarrow> bridge_event \<Rightarrow> string + bridge_effect list" where
  "bridge_apply b e =
     (if rb_disposed b then Inl ''Cannot use disposed RealtimeEventBridge''
      else (let keys = (case be_queryKeys e of Some ks \<Rightarrow> ks | None \<Rightarrow> [[JStr (be_table e)]])
            in Inr (map Invalidate_query keys @ (if rb_crossTab b then [Invalidate_other_tabs keys] else []))))"

text \<open>
  The coordinator's \<open>onSuccess\<close> hands the keys of the mutation that parse to arrays to the bridge; another
  tab invalidates the arrays among the keys it is sent.
\<close>

definition array_of :: "jsv \<Rightarrow> jsv list option" where
  "array_of v = (case v of JArr vs \<Rightarrow> Some vs | _ \<Rightarrow> None)"

definition success_keys :: "(string \<Rightarrow> jsv option) \<Rightarrow> mutation \<Rightarrow> jsv list list" where
  "success_keys parse m =
     (case m_invalidateKeys m of
        None \<Rightarrow> []
      | Some ks \<Rightarrow> List.map_filter (\<lambda>k. Option.bind (parse k) array_of) ks)"

definition on_success :: "(string \<Rightarrow> jsv option) \<Rightarrow> realtime_bridge \<Rightarrow> mutation \<Rightarrow> string + bridge_effect list" where
  "on_success parse b m =
     bridge_apply b \<lparr>be_table = m_tableName m, be_queryKeys = Some (success_keys parse m)\<rparr>"

definition invalidate_received :: "jsv list \<Rightarrow> bridge_effect list" where
  "invalidate_received keys = map Invalidate_query (List.map_filter array_of keys)"

subsection \<open>What the adapter reports\<close>

lemma adapter_failure_fields [simp]:
  "\<not> er_success (adapter_failure env t e)" "er_serverId (adapter_failure env t e) = None"
  "er_error (adapter_failure env t e) = Some (hf_message e)"
  by (auto simp: adapter_failure_def split: option.split prod.split)

lemma adapter_failure_data:
  "er_serverData (adapter_failure env t e) \<noteq> JUndef \<Longrightarrow> \<exists>v. hf_response e = Some (409, v)"
  by (auto simp: adapter_failure_def split: option.splits prod.splits if_splits)

lemma adapter_success_fields [simp]: "er_success (adapter_success env t raw mapped)"
  by (simp add: adapter_success_def)

text \<open>The four ways through \<open>execute\<close> on an adapter that is not disposed.\<close>

lemma adapter_cases:
  assumes "\<not> ha_disposed a"
  obtains (unknown) r where "getDescriptor a m = None" "adapter_execute env a t m = (Returned r, [])"
      "\<not> er_success r" "er_error r \<noteq> None" "er_serverData r = JUndef"
  | (unbuilt) d e where "getDescriptor a m = Some d" "build_request d (m_payload m) = Inl e"
      "adapter_execute env a t m = (Returned (adapter_failure env t e), [])"
  | (refused) d rq e where "getDescriptor a m = Some d" "build_request d (m_payload m) = Inr rq"
      "ae_request env t rq = Inl e \<or> (\<exists>raw. ae_request env t rq = Inr raw \<and> map_response d raw = Inl e)"
      "adapter_execute env a t m = (Returned (adapter_failure env t e), [rq])"
  | (accepted) d rq raw mapped where "getDescriptor a m = Some d" "build_request d (m_payload m) = Inr rq"
      "ae_request env t rq = Inr raw" "map_response d raw = Inr mapped"
      "adapter_execute env a t m = (Returned (adapter_success env t raw mapped), [rq])"
proof (cases "getDescriptor a m")
  case None
  then show ?thesis using assms by (intro unknown) (auto simp: adapter_execute_def)
next
  case d: (Some d)
  show ?thesis
  proof (cases "build_request d (m_payload m)")
    case (Inl e)
    then show ?thesis using assms d by (intro unbuilt) (auto simp: adapter_execute_def)
  next
    case rq: (Inr rq)
    show ?thesis
    proof (cases "ae_request env t rq")
      case (Inl e)
      then show ?thesis using assms d rq by (intro refused [of d rq e]) (auto simp: adapter_execute_def)
    next
      case raw: (Inr raw)
      show ?thesis
      proof (cases "map_response d raw")
        case (Inl e)
        then show ?thesis using assms d rq raw
          by (intro refused [of d rq e]) (auto simp: adapter_execute_def)
      next
        case (Inr mapped)
        then show ?thesis using assms d rq raw
          by (intro accepted [of d rq raw mapped]) (auto simp: adapter_execute_def)
      qed
    qed
  qed
qed

definition answered :: "adapter_env \<Rightarrow> http_adapter \<Rightarrow> nat \<Rightarrow> mutation \<Rightarrow> jsv option" where
  "answered env a t m =
     (case getDescriptor a m of
        None \<Rightarrow> None
      | Some d \<Rightarrow>
          (case build_request d (m_payload m) of
             Inl e \<Rightarrow> None
           | Inr rq \<Rightarrow>
               (case ae_request env t rq of
                  Inl e \<Rightarrow> None
                | Inr raw \<Rightarrow> (case map_response d raw of Inl e \<Rightarrow> None | Inr v \<Rightarrow> Some v))))"

text \<open>
  The data of a failed replay: it is there only when the error carried a response with status 409.
\<close>

definition failed_with_409 :: "adapter_env \<Rightarrow> http_adapter \<Rightarrow> nat \<Rightarrow> mutation \<Rightarrow> bool" where
  "failed_with_409 env a t m =
     (case getDescriptor a m of
        None \<Rightarrow> False
      | Some d \<Rightarrow>
          (let status = (\<lambda>e. map_option fst (hf_response e) = Some 409)
           in (case build_request d (m_payload m) of
                 Inl e \<Rightarrow> status e
               | Inr rq \<Rightarrow>
                   (case ae_request env t rq of
                      Inl e \<Rightarrow> status e
                    | Inr raw \<Rightarrow> (case map_response d raw of Inl e \<Rightarrow> status e | Inr v \<Rightarrow> False)))))"

text \<open>C33 An adapter that is not disposed never throws and sends at most one request: a replay whose
  descriptor exists, whose request is answered and whose response is mapped is the only success, with
  the mapped response and its id; every other replay is a failure with a message and no id, and only a
  409 hands the server's data to the conflict resolution.
\<close>

theorem adapter_reports_every_outcome:
  assumes "\<not> ha_disposed a"
  shows "(case adapter_execute env a t m of
            (Threw e, rqs) \<Rightarrow> False
          | (Returned r, rqs) \<Rightarrow>
              length rqs \<le> 1 \<and>
              (er_success r \<longleftrightarrow> answered env a t m \<noteq> None) \<and>
              (er_success r \<longrightarrow> length rqs = 1 \<and> answered env a t m = Some (er_serverData r) \<and>
                 er_serverId r = server_id_of (er_serverData r)) \<and>
              (\<not> er_success r \<longrightarrow> er_error r \<noteq> None \<and>
                 (er_serverData r \<noteq> JUndef \<longrightarrow> failed_with_409 env a t m)))"
  using assms
proof (cases rule: adapter_cases [of a m env t])
  case (refused d rq e)
  then show ?thesis
    by (auto simp: answered_def failed_with_409_def dest: adapter_failure_data)
qed (auto simp: answered_def failed_with_409_def adapter_success_def dest: adapter_failure_data)

definition sample_descriptor :: "mutation_method \<Rightarrow> (jsv \<Rightarrow> http_failure + jsv) option \<Rightarrow> api_descriptor" where
  "sample_descriptor v f =
     \<lparr>ad_method = v, ad_path = Fixed_path ''/notes'', ad_params = None, ad_body = Some Inr, ad_mapResponse = f\<rparr>"

definition sample_adapter :: "(jsv \<Rightarrow> http_failure + jsv) option \<Rightarrow> http_adapter" where
  "sample_adapter f =
     new_adapter [\<lparr>te_name = ''notes'',
       te_api = Some \<lparr>ta_create = Some (sample_descriptor POST f), ta_update = Some (sample_descriptor PUT f),
                       ta_delete = None\<rparr>\<rparr>]"

definition sample_net :: "http_failure + jsv \<Rightarrow> adapter_env" where
  "sample_net answer = \<lparr>ae_request = (\<lambda>t rq. answer), ae_now = (\<lambda>t. 5000), ae_dateParse = (\<lambda>s. Some 700)\<rparr>"

definition note_mutation :: "mutation_type \<Rightarrow> mutation" where
  "note_mutation ty =
     (entry ''m1'' 1000 PENDING [])\<lparr>m_type := ty, m_tableName := ''notes'', m_payload := JObj [(''title'', JStr ''a'')]\<rparr>"

lemma adapter_reports_every_outcome_witness:
  "(case adapter_execute (sample_net (Inr (JObj [(''data'', JObj [(''id'', JStr ''n7'')])]))) (sample_adapter None) 0
           (note_mutation CREATE) of
      (Threw e, rqs) \<Rightarrow> False
    | (Returned r, rqs) \<Rightarrow> length rqs = 1 \<and> er_success r \<and> er_serverId r = Some ''n7'')"
proof -
  let ?env = "sample_net (Inr (JObj [(''data'', JObj [(''id'', JStr ''n7'')])]))"
  have nd: "\<not> ha_disposed (sample_adapter None)" by code_simp
  have "answered ?env (sample_adapter None) 0 (note_mutation CREATE) = Some (JObj [(''id'', JStr ''n7'')])"
    by code_simp
  moreover have "server_id_of (JObj [(''id'', JStr ''n7'')]) = Some ''n7''" by code_simp
  ultimately show ?thesis
    using adapter_reports_every_outcome [OF nd, of ?env 0 "note_mutation CREATE"]
    by (auto split: prod.splits exec_outcome.splits)
qed

subsection \<open>Replaying through the adapter\<close>

definition reports_conflict :: "exec_outcome \<Rightarrow> bool" where
  "reports_conflict out = (case out of Returned r \<Rightarrow> \<not> er_success r \<and> js_truthy (er_serverData r) | Threw e \<Rightarrow> False)"

text \<open>
  With an executor that returns, and reports no conflict for an update, an attempt ends in a boolean:
  one call, and one completion if it is true.
\<close>

lemma processMutation_returns:
  fixes env m st
  defines "m' \<equiv> resolved_mutation (ps_queue (queue_do (markInProgress (m_id m)) st)) m"
    and "c \<equiv> ps_clock (queue_do (markInProgress (m_id m)) st)"
  assumes r: "pe_exec env c m' = Returned r"
    and calm: "m_type m = UPDATE \<Longrightarrow> \<not> reports_conflict (Returned r)"
  shows "fst (processMutation env m st) = Inr (er_success r) \<and>
         ps_trace (snd (processMutation env m st)) =
           ps_trace st @ [Called m'] @ (if er_success r then [Completed (m_id m)] else [])"
proof (cases "er_success r")
  case True
  then show ?thesis
    using r by (auto simp: processMutation_def Let_def m'_def [symmetric] c_def [symmetric]
        complete_mutation_def split: option.splits)
next
  case False
  then have "\<not> (js_truthy (er_serverData r) \<and> m_type m = UPDATE)"
    using calm by (auto simp: reports_conflict_def)
  with False show ?thesis
    using r by (auto simp: processMutation_def Let_def m'_def [symmetric] c_def [symmetric] fail_mutation_def
        split: option.splits)
qed

lemma createMutationExecutor_returns:
  "\<not> ha_disposed a \<Longrightarrow> \<exists>r. createMutationExecutor aenv a t m = Returned r"
  by (cases rule: adapter_cases [of a m aenv t]) (auto simp: createMutationExecutor_def)


definition replay_env :: "http_failure + jsv \<Rightarrow> processor_env" where
  "replay_env answer =
     (sample_env (Threw []))\<lparr>pe_exec := createMutationExecutor (sample_net answer) (sample_adapter None)\<rparr>"


subsection \<open>What the adapter does not do\<close>

text \<open>
  The request is built from the payload alone: the idempotency key of the entry is not sent, and the
  id of the entity, which the processor has resolved, is not used.
\<close>

lemma key_not_sent: "adapter_execute env a t (m\<lparr>m_idempotencyKey := k\<rparr>) = adapter_execute env a t m"
  by (simp add: adapter_execute_def getDescriptor_def cong: option.case_cong sum.case_cong)

lemma resolved_id_unused: "adapter_execute env a t (m\<lparr>m_entityId := i\<rparr>) = adapter_execute env a t m"
  by (simp add: adapter_execute_def getDescriptor_def cong: option.case_cong sum.case_cong)

text \<open>A mutation that the server accepted is reported as failed when its response cannot be mapped.\<close>

lemma accepted_reported_failed:
  "(case adapter_execute (sample_net (Inr JNull)) (sample_adapter (Some (\<lambda>v. Inl \<lparr>hf_message = ''bad'', hf_response = None\<rparr>)))
           0 (note_mutation CREATE) of
      (Threw e, rqs) \<Rightarrow> False
    | (Returned r, rqs) \<Rightarrow> \<not> er_success r \<and> length rqs = 1)"
  by code_simp

text \<open>
  The timestamp is looked for in the envelope, not in the entity it holds: the entity's own
  \<open>updatedAt\<close> is replaced by the time at which the answer arrived.
\<close>

lemma enveloped_timestamp_ignored:
  "extractServerTimestamp p (JObj [(''data'', JObj [(''updatedAt'', v)])]) = None"
  "extractServerTimestamp (\<lambda>s. Some 700) (JObj [(''updatedAt'', JStr s)]) = Some 700"
  by (simp_all add: extractServerTimestamp_def jm_get_def)

text \<open>
  So the last writer is misjudged: the server changed the entity at 700, before the client's change at
  1000, and the client's change is dropped nevertheless when the answer of 409 is an envelope.
\<close>

definition conflict_answer :: "bool \<Rightarrow> http_failure" where
  "conflict_answer enveloped =
     (let v = JObj [(''title'', JStr ''b''), (''updatedAt'', JStr ''t'')]
      in \<lparr>hf_message = ''Conflict'', hf_response = Some (409, if enveloped then JObj [(''data'', v)] else v)\<rparr>)"

lemma envelope_decides_conflict:
  "er_serverTimestamp (adapter_failure (sample_net (Inr JNull)) 0 (conflict_answer False)) = Some 700"
  "er_serverTimestamp (adapter_failure (sample_net (Inr JNull)) 0 (conflict_answer True)) = Some 5000"
  "er_serverData (adapter_failure (sample_net (Inr JNull)) 0 (conflict_answer False)) =
   er_serverData (adapter_failure (sample_net (Inr JNull)) 0 (conflict_answer True))"
  by code_simp+

text \<open>
  A mutation without keys of its own hands an empty list to the bridge, which is not \<open>undefined\<close>: the
  table is not invalidated, here or in another tab.
\<close>

lemma nothing_invalidated:
  "m_invalidateKeys m = None \<Longrightarrow>
   on_success parse \<lparr>rb_crossTab = True, rb_disposed = False\<rparr> m = Inr [Invalidate_other_tabs []]"
  "bridge_apply \<lparr>rb_crossTab = True, rb_disposed = False\<rparr> \<lparr>be_table = t, be_queryKeys = None\<rparr> =
   Inr [Invalidate_query [JStr t], Invalidate_other_tabs [[JStr t]]]"
  by (simp_all add: on_success_def bridge_apply_def success_keys_def)

text \<open>Another tab invalidates what this tab does.\<close>

lemma other_tab_invalidates_same:
  "invalidate_received (map JArr keys) = map Invalidate_query keys"
  by (induction keys) (simp_all add: invalidate_received_def array_of_def List.map_filter_simps)

end
