(* ===== verification/Schema_Registry.thy ===== *)
theory Schema_Registry
  imports Query_Model
begin

text \<open>
  The schema of the query engine: its definitions (\<open>query-engine/src/types/schema-definition.ts\<close>), the
  registry that resolves member references with a cache (\<open>query-engine/src/schema/registry.ts\<close>) and
  the validators of schemas and queries (\<open>query-engine/src/schema/validator.ts\<close>). A record of
  definitions is the list of its own properties; reading one also finds what every JavaScript object
  inherits. A missing text is the empty text, as the code does not tell them apart; an aggregation is
  always present. A validator's only use of a registry is \<open>resolveMember\<close>, which is its argument here.
\<close>

subsection \<open>Definitions\<close>

record measure_def =
  md_type :: string
  md_sql :: string
  md_visibility :: "string option"

record dimension_def =
  dd_type :: string
  dd_sql :: string
  dd_visibility :: "string option"

record join_def =
  jd_table :: string
  jd_sql :: string

record table_def =
  tbl_name :: string
  tbl_sql :: string
  tbl_measures :: "(string, measure_def) jmap option"
  tbl_dimensions :: "(string, dimension_def) jmap option"
  tbl_joins :: "(string, join_def) jmap option"

record schema_def =
  sd_name :: string
  sd_version :: string
  sd_tables :: "(string, table_def) jmap"

text \<open>Reading \<open>m[k]\<close>: an own property, one of \<open>Object.prototype\<close>, or \<open>undefined\<close>.\<close>

definition OBJECT_PROTOTYPE :: "string list" where
  "OBJECT_PROTOTYPE =
     [''constructor'', ''hasOwnProperty'', ''isPrototypeOf'', ''propertyIsEnumerable'', ''toLocaleString'',
      ''toString'', ''valueOf'', ''__proto__'', ''__defineGetter__'', ''__defineSetter__'',
      ''__lookupGetter__'', ''__lookupSetter__'']"

datatype 'v property = Own 'v | Inherited | Undefined

definition read_prop :: "(string, 'v) jmap \<Rightarrow> string \<Rightarrow> 'v property" where
  "read_prop m k =
     (case jm_get m k of Some v \<Rightarrow> Own v | None \<Rightarrow> if k \<in> set OBJECT_PROTOTYPE then Inherited else Undefined)"

definition read_optional :: "(string, 'v) jmap option \<Rightarrow> string \<Rightarrow> 'v property" where
  "read_optional m k = (case m of None \<Rightarrow> Undefined | Some es \<Rightarrow> read_prop es k)"

definition entries_of :: "(string, 'v) jmap option \<Rightarrow> (string, 'v) jmap" where
  "entries_of m = (case m of None \<Rightarrow> [] | Some es \<Rightarrow> es)"

definition getVisibleMembers :: "table_def \<Rightarrow> string list \<times> string list" where
  "getVisibleMembers t =
     (map fst (filter (\<lambda>e. md_visibility (snd e) \<noteq> Some ''hidden'') (entries_of (tbl_measures t))),
      map fst (filter (\<lambda>e. dd_visibility (snd e) \<noteq> Some ''hidden'') (entries_of (tbl_dimensions t))))"

subsection \<open>The registry\<close>

datatype member_definition = MeasureDef "measure_def property" | DimensionDef "dimension_def property"

record member_resolution =
  mr_table :: string
  mr_name :: string
  mr_ref :: string
  mr_definition :: member_definition

fun member_type :: "member_definition \<Rightarrow> string" where
  "member_type (MeasureDef d) = ''measure''"
| "member_type (DimensionDef d) = ''dimension''"

record registry =
  sr_tableMap :: "(string, table_def) jmap"
  sr_memberCache :: "(string, member_resolution) jmap"
  sr_disposed :: bool

datatype registry_error = RegistryDisposed | SchemaNotFound string string

definition new_registry :: "schema_def \<Rightarrow> registry" where
  "new_registry s =
     \<lparr>sr_tableMap = fold (\<lambda>(name, t) m. jm_set name t m) (sd_tables s) [], sr_memberCache = [], sr_disposed = False\<rparr>"

definition sr_dispose :: "registry \<Rightarrow> registry" where
  "sr_dispose r =
     (if sr_disposed r then r else r\<lparr>sr_disposed := True, sr_tableMap := [], sr_memberCache := []\<rparr>)"

definition getTableNames :: "registry \<Rightarrow> registry_error + string list" where
  "getTableNames r = (if sr_disposed r then Inl RegistryDisposed else Inr (jm_keys (sr_tableMap r)))"

definition hasTable :: "registry \<Rightarrow> string \<Rightarrow> registry_error + bool" where
  "hasTable r name = (if sr_disposed r then Inl RegistryDisposed else Inr (jm_has (sr_tableMap r) name))"

definition getTable :: "registry \<Rightarrow> string \<Rightarrow> registry_error + table_def option" where
  "getTable r name = (if sr_disposed r then Inl RegistryDisposed else Inr (jm_get (sr_tableMap r) name))"

definition getTableOrThrow :: "registry \<Rightarrow> string \<Rightarrow> registry_error + table_def" where
  "getTableOrThrow r name =
     (case getTable r name of
        Inl e \<Rightarrow> Inl e
      | Inr None \<Rightarrow> Inl (SchemaNotFound ''table'' name)
      | Inr (Some t) \<Rightarrow> Inr t)"

text \<open>The part of \<open>resolveMember\<close> behind the cache.\<close>

definition resolve_uncached :: "(string, table_def) jmap \<Rightarrow> string \<Rightarrow> member_resolution option" where
  "resolve_uncached tables raw =
     (case parseMemberRef raw of
        None \<Rightarrow> None
      | Some (table, column) \<Rightarrow>
          (case jm_get tables table of
             None \<Rightarrow> None
           | Some t \<Rightarrow>
               (let found = (\<lambda>d. Some \<lparr>mr_table = table, mr_name = column,
                                       mr_ref = MemberRef_create table column, mr_definition = d\<rparr>)
                in (case read_optional (tbl_measures t) column of
                      Undefined \<Rightarrow>
                        (case read_optional (tbl_dimensions t) column of
                           Undefined \<Rightarrow> None
                         | d \<Rightarrow> found (DimensionDef d))
                    | m \<Rightarrow> found (MeasureDef m)))))"

definition resolveMember :: "string \<Rightarrow> registry \<Rightarrow> (registry_error + member_resolution option) \<times> registry" where
  "resolveMember raw r =
     (if sr_disposed r then (Inl RegistryDisposed, r)
      else (case jm_get (sr_memberCache r) raw of
              Some x \<Rightarrow> (Inr (Some x), r)
            | None \<Rightarrow>
                (case resolve_uncached (sr_tableMap r) raw of
                   None \<Rightarrow> (Inr None, r)
                 | Some x \<Rightarrow> (Inr (Some x), r\<lparr>sr_memberCache := jm_set raw x (sr_memberCache r)\<rparr>))))"

definition resolveMemberOrThrow :: "string \<Rightarrow> registry \<Rightarrow> (registry_error + member_resolution) \<times> registry" where
  "resolveMemberOrThrow raw r =
     (case resolveMember raw r of
        (Inl e, r') \<Rightarrow> (Inl e, r')
      | (Inr None, r') \<Rightarrow> (Inl (SchemaNotFound ''member'' raw), r')
      | (Inr (Some x), r') \<Rightarrow> (Inr x, r'))"

definition getMeasure :: "string \<Rightarrow> registry \<Rightarrow> (registry_error + measure_def property option) \<times> registry" where
  "getMeasure raw r =
     (case resolveMember raw r of
        (Inl e, r') \<Rightarrow> (Inl e, r')
      | (Inr (Some x), r') \<Rightarrow> (Inr (case mr_definition x of MeasureDef d \<Rightarrow> Some d | DimensionDef d \<Rightarrow> None), r')
      | (Inr None, r') \<Rightarrow> (Inr None, r'))"

definition getDimension :: "string \<Rightarrow> registry \<Rightarrow> (registry_error + dimension_def property option) \<times> registry" where
  "getDimension raw r =
     (case resolveMember raw r of
        (Inl e, r') \<Rightarrow> (Inl e, r')
      | (Inr (Some x), r') \<Rightarrow> (Inr (case mr_definition x of MeasureDef d \<Rightarrow> None | DimensionDef d \<Rightarrow> Some d), r')
      | (Inr None, r') \<Rightarrow> (Inr None, r'))"

definition listed :: "string \<Rightarrow> ('v property \<Rightarrow> member_definition) \<Rightarrow> (string, 'v) jmap option \<Rightarrow> member_resolution list" where
  "listed table f es =
     map (\<lambda>(name, d). \<lparr>mr_table = table, mr_name = name, mr_ref = MemberRef_create table name,
                       mr_definition = f (Own d)\<rparr>) (entries_of es)"

definition getTableMeasures :: "registry \<Rightarrow> string \<Rightarrow> registry_error + member_resolution list" where
  "getTableMeasures r table =
     map_sum id (\<lambda>t. case t of None \<Rightarrow> [] | Some t \<Rightarrow> listed table MeasureDef (tbl_measures t)) (getTable r table)"

definition getTableDimensions :: "registry \<Rightarrow> string \<Rightarrow> registry_error + member_resolution list" where
  "getTableDimensions r table =
     map_sum id (\<lambda>t. case t of None \<Rightarrow> [] | Some t \<Rightarrow> listed table DimensionDef (tbl_dimensions t)) (getTable r table)"

definition getTableMembers :: "registry \<Rightarrow> string \<Rightarrow> registry_error + member_resolution list" where
  "getTableMembers r table =
     (case getTableMeasures r table of
        Inl e \<Rightarrow> Inl e
      | Inr ms \<Rightarrow> map_sum id (\<lambda>ds. ms @ ds) (getTableDimensions r table))"

definition clearMemberCache :: "registry \<Rightarrow> registry" where
  "clearMemberCache r = r\<lparr>sr_memberCache := []\<rparr>"

text \<open>\<open>validateMembers\<close> returns its errors; it is valid when there are none and never warns.\<close>

fun validateMembers :: "string list \<Rightarrow> registry \<Rightarrow> (registry_error + string list) \<times> registry" where
  "validateMembers [] r = (Inr [], r)"
| "validateMembers (ref # refs) r =
     (case resolveMember ref r of
        (Inl e, r1) \<Rightarrow> (Inl e, r1)
      | (Inr x, r1) \<Rightarrow>
          (case validateMembers refs r1 of
             (Inl e, r2) \<Rightarrow> (Inl e, r2)
           | (Inr errors, r2) \<Rightarrow>
               (Inr (if x = None then (''Member '' @ [CHR 0x27] @ ref @ [CHR 0x27] @ '' not found in schema'') # errors else errors), r2)))"

definition validateTableMembers ::
  "registry \<Rightarrow> string \<Rightarrow> string list option \<Rightarrow> string list option \<Rightarrow> registry_error + string list" where
  "validateTableMembers r table requiredMeasures requiredDimensions =
     (let q = (\<lambda>s. [CHR 0x27] @ s @ [CHR 0x27])
      in (case getTable r table of
            Inl e \<Rightarrow> Inl e
          | Inr None \<Rightarrow> Inr [''Table '' @ q table @ '' not found'']
          | Inr (Some t) \<Rightarrow>
              Inr (map (\<lambda>m. ''Required measure '' @ q m @ '' not found in table '' @ q table)
                     (filter (\<lambda>m. read_optional (tbl_measures t) m = Undefined) (or_empty requiredMeasures)) @
                   map (\<lambda>d. ''Required dimension '' @ q d @ '' not found in table '' @ q table)
                     (filter (\<lambda>d. read_optional (tbl_dimensions t) d = Undefined) (or_empty requiredDimensions)))))"

subsection \<open>The cache is transparent\<close>

definition registry_ok :: "registry \<Rightarrow> bool" where
  "registry_ok r \<longleftrightarrow>
     (\<forall>raw x. jm_get (sr_memberCache r) raw = Some x \<longrightarrow> resolve_uncached (sr_tableMap r) raw = Some x)"

lemma registry_ok_empty [simp]: "sr_memberCache r = [] \<Longrightarrow> registry_ok r"
  by (simp add: registry_ok_def)

lemma resolveMember_ok: "registry_ok r \<Longrightarrow> registry_ok (snd (resolveMember raw r))"
  by (auto simp: registry_ok_def resolveMember_def split: option.splits)

lemma resolveMember_frame [simp]:
  "sr_tableMap (snd (resolveMember raw r)) = sr_tableMap r" "sr_disposed (snd (resolveMember raw r)) = sr_disposed r"
  by (auto simp: resolveMember_def split: option.splits)

lemma resolveMember_answer:
  "registry_ok r \<Longrightarrow> \<not> sr_disposed r \<Longrightarrow> fst (resolveMember raw r) = Inr (resolve_uncached (sr_tableMap r) raw)"
  by (auto simp: registry_ok_def resolveMember_def split: option.splits)

text \<open>The calls that change a registry.\<close>

datatype registry_call = Resolve string | Validate "string list" | Clear | DisposeRegistry

fun registry_step :: "registry_call \<Rightarrow> registry \<Rightarrow> registry" where
  "registry_step (Resolve raw) r = snd (resolveMember raw r)"
| "registry_step (Validate refs) r = snd (validateMembers refs r)"
| "registry_step Clear r = clearMemberCache r"
| "registry_step DisposeRegistry r = sr_dispose r"

lemma validateMembers_ok:
  "registry_ok r \<Longrightarrow> registry_ok (snd (validateMembers refs r)) \<and>
     sr_tableMap (snd (validateMembers refs r)) = sr_tableMap r \<and> sr_disposed (snd (validateMembers refs r)) = sr_disposed r"
proof (induction refs r rule: validateMembers.induct)
  case (2 ref refs r)
  obtain x r1 where x: "resolveMember ref r = (x, r1)" by fastforce
  have r1: "registry_ok r1" "sr_tableMap r1 = sr_tableMap r" "sr_disposed r1 = sr_disposed r"
    using resolveMember_ok [OF 2(2), of ref] resolveMember_frame [of ref r] by (simp_all add: x)
  show ?case
  proof (cases x)
    case (Inr y)
    with x have res: "resolveMember ref r = (Inr y, r1)" by simp
    have step: "snd (validateMembers (ref # refs) r) = snd (validateMembers refs r1)"
      by (cases "validateMembers refs r1") (auto simp: res split: sum.splits)
    show ?thesis
      unfolding step using 2(1) [OF res [symmetric]] r1 by simp
  qed (use r1 in \<open>simp add: x\<close>)
qed simp

lemma registry_step_ok: "registry_ok r \<Longrightarrow> registry_ok (registry_step c r)"
  by (cases c) (auto simp: resolveMember_ok validateMembers_ok clearMemberCache_def sr_dispose_def)

lemma registry_step_tables:
  "registry_ok r \<Longrightarrow> \<not> sr_disposed (registry_step c r) \<Longrightarrow>
     \<not> sr_disposed r \<and> sr_tableMap (registry_step c r) = sr_tableMap r"
  by (cases c) (auto simp: validateMembers_ok clearMemberCache_def sr_dispose_def split: if_splits)

lemma registry_run:
  "registry_ok r \<Longrightarrow> \<not> sr_disposed (fold registry_step cs r) \<Longrightarrow>
     registry_ok (fold registry_step cs r) \<and> \<not> sr_disposed r \<and> sr_tableMap (fold registry_step cs r) = sr_tableMap r"
proof (induction cs arbitrary: r)
  case (Cons c cs)
  from Cons.IH [of "registry_step c r"] Cons.prems show ?case
    using registry_step_ok [of r c] registry_step_tables [of r c] by auto
qed simp

text \<open>C35 Whatever a registry was asked before, and however often its cache was cleared: a registry that is not
  disposed resolves a reference as the schema alone does.
\<close>

theorem resolution_cache_transparent:
  assumes "\<not> sr_disposed (fold registry_step cs (new_registry s))"
  shows "fst (resolveMember raw (fold registry_step cs (new_registry s))) =
         Inr (resolve_uncached (sr_tableMap (new_registry s)) raw)"
proof -
  have "registry_ok (new_registry s)" by (simp add: new_registry_def)
  from registry_run [OF this assms] show ?thesis
    using resolveMember_answer assms by metis
qed

definition sample_table :: table_def where
  "sample_table =
     \<lparr>tbl_name = ''orders'', tbl_sql = ''orders'', tbl_measures = Some [(''total'', \<lparr>md_type = ''sum'', md_sql = ''amount'', md_visibility = None\<rparr>)],
      tbl_dimensions = Some [(''day'', \<lparr>dd_type = ''time'', dd_sql = ''created'', dd_visibility = None\<rparr>),
                             (''total'', \<lparr>dd_type = ''number'', dd_sql = ''amount'', dd_visibility = None\<rparr>)],
      tbl_joins = None\<rparr>"

definition sample_schema :: schema_def where
  "sample_schema = \<lparr>sd_name = ''shop'', sd_version = ''1'', sd_tables = [(''orders'', sample_table)]\<rparr>"

lemma resolution_cache_transparent_witness:
  "map_sum id (\<lambda>x. x = None) (fst (resolveMember ''orders.day''
     (fold registry_step [Resolve ''orders.day'', Clear, Resolve ''orders.total''] (new_registry sample_schema)))) = Inr False"
proof -
  let ?cs = "[Resolve ''orders.day'', Clear, Resolve ''orders.total'']"
  have d: "\<not> sr_disposed (fold registry_step ?cs (new_registry sample_schema))" by code_simp
  have "resolve_uncached (sr_tableMap (new_registry sample_schema)) ''orders.day'' \<noteq> None" by code_simp
  then show ?thesis
    unfolding resolution_cache_transparent [OF d] by simp
qed

subsection \<open>Listed members\<close>

lemma read_prop_Own: "jm_get m k = Some v \<Longrightarrow> read_prop m k = Own v"
  by (simp add: read_prop_def)

lemma read_optional_entry:
  "jm_ok (entries_of m) \<Longrightarrow> (k, v) \<in> set (entries_of m) \<Longrightarrow> read_optional m k = Own v"
  by (cases m) (simp_all add: entries_of_def read_optional_def read_prop_Own jm_get_Some_iff)

lemma resolve_create:
  assumes "CHR ''.'' \<notin> set table" "table \<noteq> []" "name \<noteq> []" "jm_get tables table = Some t"
  shows "resolve_uncached tables (MemberRef_create table name) =
     (case read_optional (tbl_measures t) name of
        Undefined \<Rightarrow>
          (case read_optional (tbl_dimensions t) name of
             Undefined \<Rightarrow> None
           | d \<Rightarrow> Some \<lparr>mr_table = table, mr_name = name, mr_ref = MemberRef_create table name, mr_definition = DimensionDef d\<rparr>)
      | m \<Rightarrow> Some \<lparr>mr_table = table, mr_name = name, mr_ref = MemberRef_create table name, mr_definition = MeasureDef m\<rparr>)"
  using assms parseMemberRef_create [OF assms(1-3)]
  by (simp add: resolve_uncached_def Let_def split: property.split)

text \<open>
  What a table lists resolves to itself: the reference of a listed measure gives that measure; that of a listed
  dimension gives the dimension unless a measure, or a property of \<open>Object.prototype\<close> read as one, has its name.
\<close>

theorem listed_members_resolve:
  assumes "CHR ''.'' \<notin> set table" and "table \<noteq> []" and "\<not> sr_disposed r" and "registry_ok r"
    and "jm_get (sr_tableMap r) table = Some t" and "jm_ok (entries_of (tbl_measures t))" and "jm_ok (entries_of (tbl_dimensions t))"
    and "getTableMembers r table = Inr xs" and "x \<in> set xs" and "mr_name x \<noteq> []"
  shows "fst (resolveMember (mr_ref x) r) = Inr (Some x) \<or>
    (\<exists>d. mr_definition x = DimensionDef d \<and> read_optional (tbl_measures t) (mr_name x) \<noteq> Undefined)"
proof -
  have xs: "xs = listed table MeasureDef (tbl_measures t) @ listed table DimensionDef (tbl_dimensions t)"
    using assms(3,5,8) by (auto simp: getTableMembers_def getTableMeasures_def getTableDimensions_def getTable_def)
  have ans: "fst (resolveMember (mr_ref x) r) = Inr (resolve_uncached (sr_tableMap r) (mr_ref x))"
    using resolveMember_answer assms(3,4) by blast
  from assms(9) xs consider
      (measure) name d where "(name, d) \<in> set (entries_of (tbl_measures t))"
        "x = \<lparr>mr_table = table, mr_name = name, mr_ref = MemberRef_create table name, mr_definition = MeasureDef (Own d)\<rparr>"
    | (dimension) name d where "(name, d) \<in> set (entries_of (tbl_dimensions t))"
        "x = \<lparr>mr_table = table, mr_name = name, mr_ref = MemberRef_create table name, mr_definition = DimensionDef (Own d)\<rparr>"
    by (auto simp: listed_def)
  then show ?thesis
  proof cases
    case measure
    then show ?thesis
      using ans assms(10) resolve_create [OF assms(1,2) _ assms(5), of name] read_optional_entry [OF assms(6)] by simp
  next
    case dimension
    then show ?thesis
      using ans assms(10) resolve_create [OF assms(1,2) _ assms(5), of name] read_optional_entry [OF assms(7)]
      by (cases "read_optional (tbl_measures t) name") simp_all
  qed
qed

lemma listed_members_resolve_witness:
  "fst (resolveMember ''orders.day'' (new_registry sample_schema)) =
   Inr (Some \<lparr>mr_table = ''orders'', mr_name = ''day'', mr_ref = ''orders.day'',
     mr_definition = DimensionDef (Own \<lparr>dd_type = ''time'', dd_sql = ''created'', dd_visibility = None\<rparr>)\<rparr>)"
proof -
  let ?r = "new_registry sample_schema"
  let ?x = "\<lparr>mr_table = ''orders'', mr_name = ''day'', mr_ref = ''orders.day'',
     mr_definition = DimensionDef (Own \<lparr>dd_type = ''time'', dd_sql = ''created'', dd_visibility = None\<rparr>)\<rparr>"
  have xs: "getTableMembers ?r ''orders'' = Inr
      (listed ''orders'' MeasureDef (tbl_measures sample_table) @ listed ''orders'' DimensionDef (tbl_dimensions sample_table))"
    by code_simp
  have x: "?x \<in> set (listed ''orders'' MeasureDef (tbl_measures sample_table) @ listed ''orders'' DimensionDef (tbl_dimensions sample_table))"
    by (simp add: listed_def sample_table_def entries_of_def MemberRef_create_def)
  have side: "CHR ''.'' \<notin> set ''orders''" "''orders'' \<noteq> []" "\<not> sr_disposed ?r" "registry_ok ?r" "jm_get (sr_tableMap ?r) ''orders'' = Some sample_table"
    "jm_ok (entries_of (tbl_measures sample_table))" "jm_ok (entries_of (tbl_dimensions sample_table))"
    by (simp_all add: new_registry_def sample_schema_def sample_table_def entries_of_def jm_get_def)
  have "read_optional (tbl_measures sample_table) ''day'' = Undefined" by code_simp
  with listed_members_resolve [OF side xs x] show ?thesis by simp
qed

subsection \<open>What goes wrong\<close>

text \<open>A member named like an inherited property resolves to a measure that nobody defined.\<close>

lemma inherited_member_resolves:
  "map_option mr_definition (resolve_uncached (sr_tableMap (new_registry sample_schema)) ''orders.constructor'') =
   Some (MeasureDef Inherited)"
  by code_simp

text \<open>A dimension that shares its name with a measure cannot be reached.\<close>

lemma shadowed_dimension:
  "map_option (member_type \<circ> mr_definition) (resolve_uncached (sr_tableMap (new_registry sample_schema)) ''orders.total'') = Some ''measure''"
  by code_simp

text \<open>A table whose name has a dot is registered, and none of its members resolves.\<close>

lemma dotted_table_unreachable:
  "(\<forall>(name, t)\<in>set tables. CHR ''.'' \<in> set name) \<Longrightarrow> resolve_uncached tables raw = None"
proof -
  assume a: "\<forall>(name, t)\<in>set tables. CHR ''.'' \<in> set name"
  have "jm_get tables table = None" if "CHR ''.'' \<notin> set table" for table
    using a that by (auto simp: jm_get_None_iff)
  then show ?thesis
    by (auto simp: resolve_uncached_def dest: parseMemberRef_Some split: option.split)
qed

end
