(* ===== verification/Query_Validator.thy ===== *)
theory Query_Validator
  imports Schema_Registry
begin

text \<open>
  The validators of \<open>query-engine/src/schema/validator.ts\<close>: of a schema, and of a query against the
  members that a registry resolves. The resolver is an argument; by \<open>resolution_cache_transparent\<close> a live
  registry answers as \<open>resolve_uncached\<close> on its tables. The flag \<open>ungrouped\<close> of a query, which only the
  validator reads, is an argument as well.
\<close>

record validation_error =
  ve_path :: string
  ve_message :: string
  ve_suggestion :: "string option"

record validation_result =
  vr_valid :: bool
  vr_errors :: "validation_error list"
  vr_warnings :: "validation_error list"

definition mk_result :: "validation_error list \<Rightarrow> validation_error list \<Rightarrow> validation_result" where
  "mk_result errors warnings = \<lparr>vr_valid = (errors = []), vr_errors = errors, vr_warnings = warnings\<rparr>"

definition issue :: "string \<Rightarrow> string \<Rightarrow> string option \<Rightarrow> validation_error" where
  "issue path message suggestion = \<lparr>ve_path = path, ve_message = message, ve_suggestion = suggestion\<rparr>"

definition quoted :: "string \<Rightarrow> string" where
  "quoted s = [CHR 0x27] @ s @ [CHR 0x27]"

text \<open>\<open>${name}[${index}]\<close>\<close>

definition indexed :: "string \<Rightarrow> nat \<Rightarrow> string" where
  "indexed name i = name @ ''['' @ show_nat i @ '']''"

text \<open>A loop that validates one element after the other and collects what it finds.\<close>

definition collect_results :: "validation_result list \<Rightarrow> validation_error list \<times> validation_error list" where
  "collect_results rs = (concat (map vr_errors rs), concat (map vr_warnings rs))"

subsection \<open>Schemas\<close>

definition required_text :: "string \<Rightarrow> string \<Rightarrow> string \<Rightarrow> validation_error list" where
  "required_text s path message = (if s = [] then [issue path message None] else [])"

definition validateTableDefinition :: "table_def \<Rightarrow> string \<Rightarrow> validation_result" where
  "validateTableDefinition t tableName =
     (let basePath = ''schema.tables.'' @ tableName;
          errors =
            required_text (tbl_name t) (basePath @ ''.name'') ''Table name is required'' @
            required_text (tbl_sql t) (basePath @ ''.sql'') ''Table SQL expression is required'' @
            concat (map (\<lambda>(name, m).
                required_text (md_type m) (basePath @ ''.measures.'' @ name @ ''.type'') ''Measure aggregation type is required'' @
                required_text (md_sql m) (basePath @ ''.measures.'' @ name @ ''.sql'') ''Measure SQL expression is required'')
              (entries_of (tbl_measures t))) @
            concat (map (\<lambda>(name, d).
                required_text (dd_type d) (basePath @ ''.dimensions.'' @ name @ ''.type'') ''Dimension type is required'' @
                required_text (dd_sql d) (basePath @ ''.dimensions.'' @ name @ ''.sql'') ''Dimension SQL expression is required'')
              (entries_of (tbl_dimensions t)));
          warnings =
            (if tbl_measures t = None \<and> tbl_dimensions t = None
             then [issue basePath ''Table has no measures or dimensions''
                     (Some ''Define at least one measure or dimension to make the table queryable'')]
             else [])
      in mk_result errors warnings)"

definition check_joins :: "(string, table_def) jmap \<Rightarrow> string \<Rightarrow> table_def \<Rightarrow> validation_error list" where
  "check_joins tables tableName t =
     concat (map (\<lambda>(joinName, j).
         (if read_prop tables (jd_table j) = Undefined
          then [issue (''schema.tables.'' @ tableName @ ''.joins.'' @ joinName)
                  (''Join target table '' @ quoted (jd_table j) @ '' not found in schema'')
                  (Some (''Add table '' @ quoted (jd_table j) @ '' or correct the join target''))]
          else []))
       (entries_of (tbl_joins t)))"

definition validateSchema :: "schema_def \<Rightarrow> validation_result" where
  "validateSchema s =
     (let errors = required_text (sd_name s) ''schema.name'' ''Schema name is required'' @
                   required_text (sd_version s) ''schema.version'' ''Schema version is required''
      in (if sd_tables s = []
          then \<lparr>vr_valid = False,
                vr_errors = errors @ [issue ''schema.tables'' ''Schema must include at least one table'' None], vr_warnings = []\<rparr>
          else (let tables = collect_results (map (\<lambda>(name, t). validateTableDefinition t name) (sd_tables s));
                    joins = concat (map (\<lambda>(name, t). check_joins (sd_tables s) name t) (sd_tables s))
                in mk_result (errors @ fst tables @ joins) (snd tables))))"

definition isValidSchema :: "schema_def \<Rightarrow> bool" where
  "isValidSchema s = vr_valid (validateSchema s)"

subsection \<open>Queries\<close>

type_synonym resolver = "string \<Rightarrow> member_resolution option"

definition validateMeasureSpec :: "resolver \<Rightarrow> measure_spec \<Rightarrow> string \<Rightarrow> validation_result" where
  "validateMeasureSpec resolve m path =
     mk_result
       (if ms_member m \<noteq> ''*'' \<and> resolve (ms_member m) = None
        then [issue (path @ ''.member'') (''Measure member '' @ quoted (ms_member m) @ '' not found in schema'')
                (Some ''Use a registered schema member or add it to the schema'')]
        else []) []"

definition validateDimension :: "resolver \<Rightarrow> dimension_spec \<Rightarrow> string \<Rightarrow> validation_result" where
  "validateDimension resolve d path =
     mk_result
       (case resolve (dim_member d) of
          None \<Rightarrow>
            [issue (path @ ''.member'') (''Dimension '' @ quoted (dim_member d) @ '' not found in schema'')
               (Some ''Use a valid member reference from the registered schema'')]
        | Some x \<Rightarrow>
            (case mr_definition x of
               DimensionDef _ \<Rightarrow> []
             | MeasureDef _ \<Rightarrow>
                 [issue (path @ ''.member'') (quoted (dim_member d) @ '' resolves to a measure, not a dimension'')
                    (Some ''Move this member into measures if it is intended for aggregation'')])) []"

fun typed_as_time :: "dimension_def property \<Rightarrow> bool" where
  "typed_as_time (Own d) = (dd_type d = ''time'')"
| "typed_as_time _ = False"

definition validateTimeDimension :: "resolver \<Rightarrow> time_dimension_spec \<Rightarrow> string \<Rightarrow> validation_result" where
  "validateTimeDimension resolve td path =
     (case resolve (td_dimension td) of
        None \<Rightarrow>
          mk_result
            [issue (path @ ''.dimension'') (''Time dimension '' @ quoted (td_dimension td) @ '' not found in schema'')
               (Some ''Use a registered time dimension member'')] []
      | Some x \<Rightarrow>
          (case mr_definition x of
             MeasureDef _ \<Rightarrow>
               mk_result
                 [issue (path @ ''.dimension'') (quoted (td_dimension td) @ '' resolves to measure, not dimension'') None] []
           | DimensionDef d \<Rightarrow>
               mk_result []
                 (if typed_as_time d then []
                  else [issue (path @ ''.dimension'') (quoted (td_dimension td) @ '' is not typed as a time dimension'')
                          (Some ''Use a dimension with type \"time\" for date bucketing'')])))"

definition merge_results :: "validation_result list \<Rightarrow> validation_result" where
  "merge_results rs = mk_result (fst (collect_results rs)) (snd (collect_results rs))"

definition validateFilterExpression :: "resolver \<Rightarrow> filter_expression \<Rightarrow> string \<Rightarrow> validation_result" where
  "validateFilterExpression resolve e path =
     mapFilterExpression
       (\<lambda>c _. mk_result
          (if resolve (fc_member c) = None
           then [issue (path @ ''.member'') (''Filter member '' @ quoted (fc_member c) @ '' not found in schema'') None]
           else []) [])
       (\<lambda>rs _. merge_results rs) (\<lambda>rs _. merge_results rs) e 0"

definition validateOrder :: "resolver \<Rightarrow> order_by_spec \<Rightarrow> string \<Rightarrow> validation_result" where
  "validateOrder resolve x path =
     mk_result
       (if resolve (ob_member x) = None
        then [issue (path @ ''.member'') (''Order member '' @ quoted (ob_member x) @ '' not found in schema'')
                (Some ''Use a valid schema member for ordering'')]
        else []) []"

definition validate_each :: "('a \<Rightarrow> string \<Rightarrow> validation_result) \<Rightarrow> string \<Rightarrow> 'a list option \<Rightarrow> validation_result list" where
  "validate_each f name xs = map (\<lambda>(i, x). f x (indexed name i)) (enumerate 0 (or_empty xs))"

definition not_negative :: "int option \<Rightarrow> string \<Rightarrow> string \<Rightarrow> validation_error list" where
  "not_negative n path message =
     (case n of Some k \<Rightarrow> if k < 0 then [issue path message None] else [] | None \<Rightarrow> [])"

definition validateQuery :: "resolver \<Rightarrow> bool \<Rightarrow> query \<Rightarrow> validation_result" where
  "validateQuery resolve ungrouped q =
     (let found = collect_results
            (validate_each (validateMeasureSpec resolve) ''query.measures'' (q_measures q) @
             validate_each (validateDimension resolve) ''query.dimensions'' (q_dimensions q) @
             validate_each (validateTimeDimension resolve) ''query.timeDimensions'' (q_timeDimensions q) @
             validate_each (validateFilterExpression resolve) ''query.filters'' (q_filters q) @
             validate_each (validateOrder resolve) ''query.orderBy'' (q_orderBy q))
      in mk_result
           (fst found @
            not_negative (q_limit q) ''query.limit'' ''Limit must be greater than or equal to 0'' @
            not_negative (q_offset q) ''query.offset'' ''Offset must be greater than or equal to 0'')
           (snd found @
            (if ungrouped \<and> or_empty (q_measures q) \<noteq> []
             then [issue ''query.ungrouped'' ''Ungrouped query with measures can produce unexpected semantics''
                     (Some ''Confirm this query shape is intentional'')]
             else [])))"

definition isValidQuery :: "resolver \<Rightarrow> bool \<Rightarrow> query \<Rightarrow> bool" where
  "isValidQuery resolve ungrouped q = vr_valid (validateQuery resolve ungrouped q)"

definition format_lines :: "validation_error \<Rightarrow> string list" where
  "format_lines e =
     (''  - '' @ ve_path e @ '': '' @ ve_message e) #
     (case ve_suggestion e of
        Some s \<Rightarrow> if s \<noteq> [] then [''    Suggestion: '' @ s] else []
      | None \<Rightarrow> [])"

definition formatValidationErrors :: "validation_result \<Rightarrow> string" where
  "formatValidationErrors r =
     (if vr_valid r then ''Validation passed''
      else join [CHR 0x0A]
             (''Validation failed:'' # concat (map format_lines (vr_errors r)) @
              (if vr_warnings r \<noteq> [] then ''Warnings:'' # concat (map format_lines (vr_warnings r)) else [])))"

subsection \<open>What a valid query is\<close>

lemma mk_result_fields [simp]:
  "vr_errors (mk_result es ws) = es" "vr_warnings (mk_result es ws) = ws" "vr_valid (mk_result es ws) = (es = [])"
  by (simp_all add: mk_result_def)

lemma each_error_free:
  "concat (map vr_errors (validate_each f name xs)) = [] \<longleftrightarrow> (\<forall>x\<in>set (or_empty xs). \<exists>p. vr_errors (f x p) = [])"
  if "\<And>x p p'. vr_errors (f x p) = [] \<longleftrightarrow> vr_errors (f x p') = []"
proof -
  have "(\<exists>i. (i, x) \<in> set (enumerate 0 ys)) \<longleftrightarrow> x \<in> set ys" for x and ys :: "'a list"
    unfolding in_set_enumerate_eq by (auto simp: in_set_conv_nth [of x ys])
  then show ?thesis
    using that by (fastforce simp: validate_each_def)
qed

fun filter_members :: "filter_expression \<Rightarrow> string list" where
  "filter_members (Condition c) = [fc_member c]"
| "filter_members (AndGroup es) = concat (map filter_members es)"
| "filter_members (OrGroup es) = concat (map filter_members es)"
| "filter_members Malformed = []"

lemma merge_results_errors [simp]: "vr_errors (merge_results rs) = [] \<longleftrightarrow> (\<forall>r\<in>set rs. vr_errors r = [])"
  by (simp add: merge_results_def collect_results_def)

lemma filter_error_free:
  "vr_errors (validateFilterExpression resolve e path) = [] \<longleftrightarrow> (\<forall>mem\<in>set (filter_members e). resolve mem \<noteq> None)"
  unfolding validateFilterExpression_def map_filter_fold
  by (induction e) auto

definition is_dimension :: "resolver \<Rightarrow> string \<Rightarrow> bool" where
  "is_dimension resolve mem = (case resolve mem of Some x \<Rightarrow> member_type (mr_definition x) = ''dimension'' | None \<Rightarrow> False)"

definition bounded_below :: "int option \<Rightarrow> bool" where
  "bounded_below n = (case n of Some k \<Rightarrow> k \<ge> 0 | None \<Rightarrow> True)"

lemma dimension_error_free: "vr_errors (validateDimension resolve d path) = [] \<longleftrightarrow> is_dimension resolve (dim_member d)"
  by (auto simp: validateDimension_def is_dimension_def split: option.split member_definition.split)

lemma time_dimension_error_free: "vr_errors (validateTimeDimension resolve d path) = [] \<longleftrightarrow> is_dimension resolve (td_dimension d)"
  by (auto simp: validateTimeDimension_def is_dimension_def split: option.split member_definition.split)

lemma isValidQuery_iff:
  "isValidQuery resolve ungrouped q \<longleftrightarrow>
     (\<forall>m\<in>set (or_empty (q_measures q)). ms_member m = ''*'' \<or> resolve (ms_member m) \<noteq> None) \<and>
     (\<forall>d\<in>set (or_empty (q_dimensions q)). is_dimension resolve (dim_member d)) \<and>
     (\<forall>td\<in>set (or_empty (q_timeDimensions q)). is_dimension resolve (td_dimension td)) \<and>
     (\<forall>f\<in>set (or_empty (q_filters q)). \<forall>mem\<in>set (filter_members f). resolve mem \<noteq> None) \<and>
     (\<forall>x\<in>set (or_empty (q_orderBy q)). resolve (ob_member x) \<noteq> None) \<and>
     bounded_below (q_limit q) \<and> bounded_below (q_offset q)"
proof -
  have b: "not_negative n path message = [] \<longleftrightarrow> bounded_below n" for n path message
    by (auto simp: not_negative_def bounded_below_def split: option.split)
  have "concat (map vr_errors (validate_each (validateMeasureSpec resolve) name (q_measures q))) = [] \<longleftrightarrow>
      (\<forall>m\<in>set (or_empty (q_measures q)). ms_member m = ''*'' \<or> resolve (ms_member m) \<noteq> None)" for name
    by (subst each_error_free) (auto simp: validateMeasureSpec_def)
  moreover have "concat (map vr_errors (validate_each (validateDimension resolve) name (q_dimensions q))) = [] \<longleftrightarrow>
      (\<forall>d\<in>set (or_empty (q_dimensions q)). is_dimension resolve (dim_member d))" for name
    by (subst each_error_free) (simp_all add: dimension_error_free)
  moreover have "concat (map vr_errors (validate_each (validateTimeDimension resolve) name (q_timeDimensions q))) = [] \<longleftrightarrow>
      (\<forall>d\<in>set (or_empty (q_timeDimensions q)). is_dimension resolve (td_dimension d))" for name
    by (subst each_error_free) (simp_all add: time_dimension_error_free)
  moreover have "concat (map vr_errors (validate_each (validateFilterExpression resolve) name (q_filters q))) = [] \<longleftrightarrow>
      (\<forall>f\<in>set (or_empty (q_filters q)). \<forall>mem\<in>set (filter_members f). resolve mem \<noteq> None)" for name
    by (subst each_error_free) (simp_all add: filter_error_free)
  moreover have "concat (map vr_errors (validate_each (validateOrder resolve) name (q_orderBy q))) = [] \<longleftrightarrow>
      (\<forall>x\<in>set (or_empty (q_orderBy q)). resolve (ob_member x) \<noteq> None)" for name
    by (subst each_error_free) (auto simp: validateOrder_def)
  ultimately show ?thesis
    by (simp only: isValidQuery_def validateQuery_def Let_def mk_result_fields collect_results_def fst_conv
        map_append concat_append append_is_Nil_conv b) blast
qed

text \<open>
  A query is accepted exactly when its measures, filters at any depth and orderings name members that resolve,
  its dimensions and time dimensions name dimensions, and limit and offset are not negative. Warnings never
  reject a query.
\<close>

theorem validateQuery_exact:
  "isValidQuery resolve ungrouped q =
     (list_all (\<lambda>m. ms_member m = ''*'' \<or> resolve (ms_member m) \<noteq> None) (or_empty (q_measures q)) \<and>
      list_all (\<lambda>d. is_dimension resolve (dim_member d)) (or_empty (q_dimensions q)) \<and>
      list_all (\<lambda>td. is_dimension resolve (td_dimension td)) (or_empty (q_timeDimensions q)) \<and>
      list_all (\<lambda>mem. resolve mem \<noteq> None) (concat (map filter_members (or_empty (q_filters q)))) \<and>
      list_all (\<lambda>x. resolve (ob_member x) \<noteq> None) (or_empty (q_orderBy q)) \<and>
      bounded_below (q_limit q) \<and> bounded_below (q_offset q))"
  by (auto simp: isValidQuery_iff list_all_iff)

lemma validateTableDefinition_exact:
  "vr_errors (validateTableDefinition t name) = [] \<longleftrightarrow>
     tbl_name t \<noteq> [] \<and> tbl_sql t \<noteq> [] \<and>
     (\<forall>(n, m)\<in>set (entries_of (tbl_measures t)). md_type m \<noteq> [] \<and> md_sql m \<noteq> []) \<and>
     (\<forall>(n, d)\<in>set (entries_of (tbl_dimensions t)). dd_type d \<noteq> [] \<and> dd_sql d \<noteq> [])"
  by (auto simp: validateTableDefinition_def required_text_def Let_def)

definition complete_table :: "table_def \<Rightarrow> bool" where
  "complete_table t \<longleftrightarrow>
     tbl_name t \<noteq> [] \<and> tbl_sql t \<noteq> [] \<and>
     (\<forall>(n, m)\<in>set (entries_of (tbl_measures t)). md_type m \<noteq> [] \<and> md_sql m \<noteq> []) \<and>
     (\<forall>(n, d)\<in>set (entries_of (tbl_dimensions t)). dd_type d \<noteq> [] \<and> dd_sql d \<noteq> [])"

text \<open>A schema is accepted exactly when nothing it needs is empty and every join leads to a table of it.\<close>

theorem validateSchema_exact:
  "isValidSchema s =
     (sd_name s \<noteq> [] \<and> sd_version s \<noteq> [] \<and> sd_tables s \<noteq> [] \<and>
      list_all (\<lambda>e. complete_table (snd e) \<and>
         list_all (\<lambda>j. read_prop (sd_tables s) (jd_table (snd j)) \<noteq> Undefined) (entries_of (tbl_joins (snd e)))) (sd_tables s))"
proof -
  have t: "vr_errors (validateTableDefinition t name) = [] \<longleftrightarrow> complete_table t" for t name
    by (simp add: validateTableDefinition_exact complete_table_def)
  have j: "check_joins tables name t = [] \<longleftrightarrow>
      (\<forall>e\<in>set (entries_of (tbl_joins t)). read_prop tables (jd_table (snd e)) \<noteq> Undefined)" for tables name t
    by (auto simp: check_joins_def)
  have n: "required_text x path message = [] \<longleftrightarrow> x \<noteq> []" for x path message
    by (simp add: required_text_def)
  show ?thesis
  proof (cases "sd_tables s = []")
    case False
    then have "isValidSchema s \<longleftrightarrow> sd_name s \<noteq> [] \<and> sd_version s \<noteq> [] \<and>
        (\<forall>e\<in>set (sd_tables s). complete_table (snd e)) \<and> (\<forall>e\<in>set (sd_tables s). check_joins (sd_tables s) (fst e) (snd e) = [])"
      by (simp add: isValidSchema_def validateSchema_def Let_def collect_results_def case_prod_beta t n)
    with False show ?thesis by (auto simp: j list_all_iff)
  qed (simp add: isValidSchema_def validateSchema_def Let_def)
qed

subsection \<open>Validation and extraction\<close>

lemma resolved_table:
  "resolve_uncached tables mem \<noteq> None \<Longrightarrow> set (opt_table mem) \<subseteq> fst ` set tables"
  by (auto simp: resolve_uncached_def opt_table_def extractTableName_def jm_get_None_iff
      split: option.splits)
    (metis jm_get_Some_in image_eqI fst_conv)

lemma star_has_no_table: "opt_table ''*'' = []"
  by code_simp

lemma filter_tables:
  "(\<forall>mem\<in>set (filter_members e). resolve_uncached tables mem \<noteq> None) \<Longrightarrow>
   set (extractTablesFromFilterExpression e) \<subseteq> fst ` set tables"
  unfolding extractTablesFromFilterExpression_def map_filter_fold
proof (induction e)
  case (Condition c)
  then show ?case using resolved_table [of tables "fc_member c"] by (simp add: extractTablesFromCondition_def)
qed fastforce+

text \<open>C36 A query that is valid against a schema, without joins and filtered measures, uses only tables of the
  schema: what the table extractor finds in it, which is what the engine routes, locks and compiles by, is
  registered.
\<close>

theorem valid_query_tables_known:
  assumes "isValidQuery (resolve_uncached tables) ungrouped q"
    and "or_empty (q_joins q) = []" and "\<forall>m\<in>set (or_empty (q_measures q)). ms_filter m = None"
  shows "set (extract_tables q) \<subseteq> fst ` set tables"
proof -
  note v = assms(1) [unfolded isValidQuery_iff]
  have "set (extractFromDimensions (or_empty (q_dimensions q))) \<subseteq> fst ` set tables"
  proof -
    have "resolve_uncached tables (dim_member d) \<noteq> None" if "d \<in> set (or_empty (q_dimensions q))" for d
      using v that by (fastforce simp: is_dimension_def split: option.splits)
    then show ?thesis using resolved_table by (fastforce simp: extractFromDimensions_def)
  qed
  moreover have "set (extractFromMeasures (or_empty (q_measures q))) \<subseteq> fst ` set tables"
  proof -
    have "set (opt_table (ms_member m)) \<subseteq> fst ` set tables" if "m \<in> set (or_empty (q_measures q))" for m
    proof (cases "ms_member m = ''*''")
      case False
      then have "resolve_uncached tables (ms_member m) \<noteq> None" using v that by blast
      then show ?thesis by (rule resolved_table)
    qed (simp add: star_has_no_table)
    then show ?thesis using assms(3) by (fastforce simp: extractFromMeasures_def)
  qed
  moreover have "set (extractFromFilters (or_empty (q_filters q))) \<subseteq> fst ` set tables"
    using v filter_tables by (fastforce simp: extractFromFilters_def)
  moreover have "set (extractFromOrderBy (or_empty (q_orderBy q))) \<subseteq> fst ` set tables"
    using v resolved_table by (fastforce simp: extractFromOrderBy_def)
  moreover have "extractFromJoins (or_empty (q_joins q)) = []"
    using assms(2) by (simp add: extractFromJoins_def)
  ultimately show ?thesis
    by (simp add: extract_tables_def extractDetailed_def deduplicatePreserveOrder_def set_dedup Let_def)
qed

definition sample_valid_query :: query where
  "sample_valid_query =
     empty_query\<lparr>q_dimensions := Some [\<lparr>dim_member = ''orders.day'', dim_alias = None\<rparr>],
       q_measures := Some [\<lparr>ms_member = ''orders.total'', ms_aggregation = AGG_SUM, ms_alias = None, ms_distinct = False, ms_filter = None\<rparr>],
       q_limit := Some 10\<rparr>"

lemma valid_query_tables_known_witness:
  "extract_tables sample_valid_query = [''orders''] \<and> set (extract_tables sample_valid_query) \<subseteq> {''orders''}"
proof -
  have v: "isValidQuery (resolve_uncached (sr_tableMap (new_registry sample_schema))) False sample_valid_query" by code_simp
  have side: "or_empty (q_joins sample_valid_query) = []" "\<forall>m\<in>set (or_empty (q_measures sample_valid_query)). ms_filter m = None"
    by code_simp+
  have "fst ` set (sr_tableMap (new_registry sample_schema)) = {''orders''}"
    by (simp add: new_registry_def sample_schema_def)
  moreover have "extract_tables sample_valid_query = [''orders'']" by code_simp
  ultimately show ?thesis
    using valid_query_tables_known [OF v side] by simp
qed

subsection \<open>What goes wrong\<close>

text \<open>Joins are not validated, nor are the filters of measures.\<close>

lemma joins_not_validated: "validateQuery resolve ungrouped (q\<lparr>q_joins := js\<rparr>) = validateQuery resolve ungrouped q"
  by (simp add: validateQuery_def)

lemma measure_filters_not_validated:
  "validateMeasureSpec resolve (m\<lparr>ms_filter := f\<rparr>) path = validateMeasureSpec resolve m path"
  by (simp add: validateMeasureSpec_def)

text \<open>A query for a member that every object inherits is valid, and so is a schema that joins to one.\<close>

lemma inherited_member_valid:
  "isValidQuery (resolve_uncached (sr_tableMap (new_registry sample_schema))) False
     (empty_query\<lparr>q_measures := Some [\<lparr>ms_member = ''orders.constructor'', ms_aggregation = AGG_SUM, ms_alias = None,
        ms_distinct = False, ms_filter = None\<rparr>]\<rparr>)"
  "isValidSchema \<lparr>sd_name = ''shop'', sd_version = ''1'',
     sd_tables = [(''orders'', sample_table\<lparr>tbl_joins := Some [(''j'', \<lparr>jd_table = ''toString'', jd_sql = ''x''\<rparr>)]\<rparr>)]\<rparr>"
  by code_simp+

text \<open>All errors in one filter carry the path of the whole filter, not of the condition that is wrong.\<close>

lemma filter_paths_collapse:
  "\<forall>e\<in>set (vr_errors (validateFilterExpression resolve f path)). ve_path e = path @ ''.member''"
  unfolding validateFilterExpression_def map_filter_fold
  by (induction f) (auto simp: issue_def merge_results_def collect_results_def)

end
