(* ===== verification/View_Rehydration.thy ===== *)
theory View_Rehydration
  imports Sql_Text "HOL-Library.Multiset"
begin

text \<open>
  The views that the DuckDB router keeps for the next start of its bridge
  (\<open>bridge/src/duckdb/router.ts\<close>): the definitions it stores, the levels in which they are created again,
  and the creation level by level. The database is the set of names that exist in it; a view can be
  created when everything it depends on exists. Views of one level are created at the same time, so
  each sees what the levels before it made.
\<close>

record view_definition =
  vd_name :: string
  vd_sql :: string
  vd_dependencies :: "string list"

subsection \<open>Levels\<close>

definition view_names :: "view_definition list \<Rightarrow> string set" where
  "view_names views = vd_name ` set views"

definition dependencies_satisfied :: "view_definition list \<Rightarrow> string list \<Rightarrow> view_definition \<Rightarrow> bool" where
  "dependencies_satisfied views assigned v =
     list_all (\<lambda>d. d \<notin> set (map vd_name views) \<or> d \<in> set assigned) (vd_dependencies v)"

definition unassigned :: "view_definition list \<Rightarrow> string list \<Rightarrow> view_definition list" where
  "unassigned views assigned = filter (\<lambda>v. vd_name v \<notin> set assigned) views"

text \<open>The level that an iteration of the loop collects.\<close>

definition next_level :: "view_definition list \<Rightarrow> string list \<Rightarrow> view_definition list" where
  "next_level views assigned =
     (let currentLevel = filter (dependencies_satisfied views assigned) (unassigned views assigned)
      in (if currentLevel = [] \<and> length assigned < length views then unassigned views assigned else currentLevel))"

text \<open>
  The \<open>while\<close> loop. It does not end when two views share a name, which a \<open>Map\<close> by name rules out; so it is
  a partial function, and that it ends is part of the theorem below.
\<close>

partial_function (option) assign_levels ::
  "view_definition list \<Rightarrow> string list \<Rightarrow> view_definition list list \<Rightarrow> view_definition list list option" where
  "assign_levels views assigned levels =
     (if length assigned < length views
      then (let currentLevel = next_level views assigned
            in assign_levels views (fold js_add (map vd_name currentLevel) assigned)
                 (if currentLevel \<noteq> [] then levels @ [currentLevel] else levels))
      else Some levels)"

definition buildViewDependencyLevels :: "(string, view_definition) jmap \<Rightarrow> view_definition list list option" where
  "buildViewDependencyLevels m =
     (let views = map snd m in (if views = [] then Some [] else assign_levels views [] []))"

subsection \<open>The levels are a schedule\<close>

definition depends_on :: "view_definition list \<Rightarrow> (string \<times> string) set" where
  "depends_on views = {(d, vd_name v) | d v. v \<in> set views \<and> d \<in> set (vd_dependencies v) \<and> d \<in> view_names views}"

text \<open>What the loop has done after some iterations: the levels so far, over the names that are assigned.\<close>

definition scheduled :: "view_definition list \<Rightarrow> string list \<Rightarrow> view_definition list list \<Rightarrow> bool" where
  "scheduled views assigned levels \<longleftrightarrow>
     distinct assigned \<and> set assigned \<subseteq> view_names views \<and>
     mset (concat levels) = mset (filter (\<lambda>v. vd_name v \<in> set assigned) views) \<and> [] \<notin> set levels"

definition ordered :: "view_definition list \<Rightarrow> view_definition list list \<Rightarrow> bool" where
  "ordered views levels \<longleftrightarrow>
     (\<forall>i<length levels. \<forall>v\<in>set (levels ! i). \<forall>d\<in>set (vd_dependencies v).
        d \<in> view_names views \<longrightarrow> (\<exists>j<i. d \<in> view_names (levels ! j)))"

lemma unassigned_neq_Nil:
  assumes "distinct (map vd_name views)" "distinct assigned" "length assigned < length views"
  shows "unassigned views assigned \<noteq> []"
proof
  assume "unassigned views assigned = []"
  then have "set (map vd_name views) \<subseteq> set assigned" by (auto simp: unassigned_def filter_empty_conv)
  then have "card (set (map vd_name views)) \<le> card (set assigned)" by (intro card_mono) simp_all
  then have "length (map vd_name views) \<le> length assigned"
    using assms(1,2) by (simp only: distinct_card)
  with assms(3) show False by simp
qed

lemma next_level_unassigned: "set (next_level views assigned) \<subseteq> set (unassigned views assigned)"
  by (auto simp: next_level_def Let_def)

lemma next_level_neq_Nil:
  "distinct (map vd_name views) \<Longrightarrow> distinct assigned \<Longrightarrow> length assigned < length views \<Longrightarrow> next_level views assigned \<noteq> []"
  using unassigned_neq_Nil by (auto simp: next_level_def Let_def)

lemma next_level_filter: "\<exists>P. next_level views assigned = filter P (unassigned views assigned)"
  by (cases "filter (dependencies_satisfied views assigned) (unassigned views assigned) = [] \<and> length assigned < length views")
    (auto simp: next_level_def Let_def intro: exI [of _ "\<lambda>v. True"])

lemma mset_assigned:
  assumes d: "distinct (map vd_name views)" and l: "level = filter P (unassigned views assigned)"
  shows "mset (filter (\<lambda>v. vd_name v \<in> set assigned \<union> vd_name ` set level) views) =
         mset (filter (\<lambda>v. vd_name v \<in> set assigned) views) + mset level"
proof -
  have "v \<in> set level \<longleftrightarrow> vd_name v \<in> vd_name ` set level" if "v \<in> set views" for v
    using d that by (auto simp: l unassigned_def distinct_map inj_on_def)
  then have "filter (\<lambda>v. vd_name v \<in> set assigned \<union> vd_name ` set level) views =
      filter (\<lambda>v. vd_name v \<in> set assigned \<or> v \<in> set level) views"
    by (intro filter_cong) auto
  moreover have "level = filter (\<lambda>v. vd_name v \<notin> set assigned \<and> P v) views"
    by (simp add: l unassigned_def)
  moreover have "mset (filter (\<lambda>v. Q v \<or> \<not> Q v \<and> P v) views) = mset (filter Q views) + mset (filter (\<lambda>v. \<not> Q v \<and> P v) views)" for Q
    by (induction views) auto
  moreover have "filter (\<lambda>v. vd_name v \<in> set assigned \<or> v \<in> set level) views =
      filter (\<lambda>v. vd_name v \<in> set assigned \<or> \<not> vd_name v \<in> set assigned \<and> P v) views"
    by (intro filter_cong) (auto simp: l unassigned_def)
  ultimately show ?thesis by simp
qed

lemma scheduled_step:
  assumes "scheduled views assigned levels" "distinct (map vd_name views)" "length assigned < length views"
  shows "scheduled views (fold js_add (map vd_name (next_level views assigned)) assigned) (levels @ [next_level views assigned])"
proof -
  obtain P where P: "next_level views assigned = filter P (unassigned views assigned)"
    using next_level_filter by blast
  have "set (next_level views assigned) \<subseteq> set views"
    using next_level_unassigned [of views assigned] by (auto simp: unassigned_def)
  then have "vd_name ` set (next_level views assigned) \<subseteq> view_names views" by (auto simp: view_names_def)
  moreover have "next_level views assigned \<noteq> []"
    using assms next_level_neq_Nil by (simp add: scheduled_def)
  ultimately show ?thesis
    using assms(1) mset_assigned [OF assms(2) P] by (simp add: scheduled_def)
qed

lemma fold_js_add_longer:
  "\<exists>x\<in>set ys. x \<notin> set xs \<Longrightarrow> distinct xs \<Longrightarrow> length xs < length (fold js_add ys xs)"
proof -
  assume "\<exists>x\<in>set ys. x \<notin> set xs" "distinct xs"
  then have "card (set xs) < card (set (fold js_add ys xs))"
    by (intro psubset_card_mono) auto
  moreover have "card (set xs) = length xs" "card (set (fold js_add ys xs)) = length (fold js_add ys xs)"
    using \<open>distinct xs\<close> by (simp_all only: distinct_card distinct_fold_js_add)
  ultimately show ?thesis by simp
qed

lemma assigned_grows:
  assumes "distinct (map vd_name views)" "distinct assigned" "length assigned < length views"
  shows "length assigned < length (fold js_add (map vd_name (next_level views assigned)) assigned)"
proof (rule fold_js_add_longer)
  obtain v where "v \<in> set (next_level views assigned)"
    using next_level_neq_Nil [OF assms] by (cases "next_level views assigned") auto
  then show "\<exists>x\<in>set (map vd_name (next_level views assigned)). x \<notin> set assigned"
    using next_level_unassigned [of views assigned] by (auto simp: unassigned_def)
qed fact

text \<open>In an acyclic set of views some view is ready at every iteration.\<close>

lemma ready_view:
  assumes "acyclic (depends_on views)" "unassigned views assigned \<noteq> []"
  shows "\<exists>v\<in>set (unassigned views assigned). dependencies_satisfied views assigned v"
proof -
  have "depends_on views \<subseteq> (\<Union>v\<in>set views. set (vd_dependencies v)) \<times> view_names views"
    by (auto simp: depends_on_def view_names_def)
  then have "finite (depends_on views)" by (rule finite_subset) (simp add: view_names_def)
  then have "wf (depends_on views)" using assms(1) by (rule finite_acyclic_wf)
  moreover obtain v0 where "v0 \<in> set (unassigned views assigned)" 
    using assms(2) by (cases "unassigned views assigned") auto
  ultimately obtain x where x: "x \<in> vd_name ` set (unassigned views assigned)"
    and min: "\<And>y. (y, x) \<in> depends_on views \<Longrightarrow> y \<notin> vd_name ` set (unassigned views assigned)"
    by (metis wfE_min image_eqI)
  then obtain v where v: "v \<in> set (unassigned views assigned)" "x = vd_name v" by blast
  have "d \<in> set assigned" if "d \<in> set (vd_dependencies v)" "d \<in> set (map vd_name views)" for d
  proof -
    have "(d, x) \<in> depends_on views"
      using that v by (auto simp: depends_on_def view_names_def unassigned_def)
    from min [OF this] that(2) show ?thesis by (auto simp: unassigned_def)
  qed
  then show ?thesis using v(1) by (auto simp: dependencies_satisfied_def list_all_iff)
qed

lemma next_level_ready:
  assumes "acyclic (depends_on views)" "unassigned views assigned \<noteq> []" "v \<in> set (next_level views assigned)"
  shows "dependencies_satisfied views assigned v"
  using assms ready_view [OF assms(1,2)] by (auto simp: next_level_def Let_def filter_empty_conv split: if_splits)

lemma ordered_step:
  assumes s: "scheduled views assigned levels" and o: "ordered views levels"
    and ready: "\<forall>v\<in>set level. dependencies_satisfied views assigned v"
  shows "ordered views (levels @ [level])"
proof -
  have names: "set assigned \<subseteq> (\<Union>l\<in>set levels. view_names l)"
  proof
    fix d assume d: "d \<in> set assigned"
    then obtain v where "v \<in> set views" "vd_name v = d" using s by (auto simp: scheduled_def view_names_def)
    with d have "v \<in># mset (concat levels)" using s by (simp add: scheduled_def)
    then show "d \<in> (\<Union>l\<in>set levels. view_names l)" using \<open>vd_name v = d\<close> by (auto simp: view_names_def)
  qed
  have last: "\<exists>j<length levels. d \<in> view_names (levels ! j)"
    if "v \<in> set level" "d \<in> set (vd_dependencies v)" "d \<in> view_names views" for v d
  proof -
    have "d \<in> set assigned"
      using that ready by (auto simp: dependencies_satisfied_def list_all_iff view_names_def)
    then obtain l where "l \<in> set levels" "d \<in> view_names l" using names by blast
    then show ?thesis by (metis in_set_conv_nth)
  qed
  show ?thesis
    unfolding ordered_def
  proof (intro allI impI ballI)
    fix i v d
    assume i: "i < length (levels @ [level])" and v: "v \<in> set ((levels @ [level]) ! i)"
      and d: "d \<in> set (vd_dependencies v)" "d \<in> view_names views"
    show "\<exists>j<i. d \<in> view_names ((levels @ [level]) ! j)"
    proof (cases "i < length levels")
      case True
      then have "v \<in> set (levels ! i)" using v by (simp add: nth_append)
      from o [unfolded ordered_def, rule_format, OF True this d]
      obtain j where "j < i" "d \<in> view_names (levels ! j)" by blast
      with True show ?thesis by (intro exI [of _ j]) (simp add: nth_append)
    next
      case False
      with i have "i = length levels" by simp
      with last [of v d] v d obtain j where "j < i" "d \<in> view_names (levels ! j)" by auto
      with \<open>i = length levels\<close> show ?thesis by (intro exI [of _ j]) (simp add: nth_append)
    qed
  qed
qed

lemma assign_levels_ends:
  assumes d: "distinct (map vd_name views)"
  shows "scheduled views assigned levels \<Longrightarrow> (acyclic (depends_on views) \<longrightarrow> ordered views levels) \<Longrightarrow>
    \<exists>ls. assign_levels views assigned levels = Some ls \<and> mset (concat ls) = mset views \<and> [] \<notin> set ls \<and>
      (acyclic (depends_on views) \<longrightarrow> ordered views ls)"
proof (induction "length views - length assigned" arbitrary: assigned levels rule: less_induct)
  case less
  show ?case
  proof (cases "length assigned < length views")
    case True
    let ?level = "next_level views assigned"
    let ?assigned = "fold js_add (map vd_name ?level) assigned"
    have da: "distinct assigned" using less.prems by (simp add: scheduled_def)
    have "length views - length ?assigned < length views - length assigned"
      using assigned_grows [OF d da True] True by linarith
    moreover have "scheduled views ?assigned (levels @ [?level])"
      by (rule scheduled_step [OF less.prems(1) d True])
    moreover have "acyclic (depends_on views) \<longrightarrow> ordered views (levels @ [?level])"
      using less.prems ordered_step next_level_ready unassigned_neq_Nil [OF d da True] by blast
    ultimately have "\<exists>ls. assign_levels views ?assigned (levels @ [?level]) = Some ls \<and> mset (concat ls) = mset views \<and>
        [] \<notin> set ls \<and> (acyclic (depends_on views) \<longrightarrow> ordered views ls)"
      by (rule less.hyps)
    moreover have "?level \<noteq> []" by (rule next_level_neq_Nil [OF d da True])
    ultimately show ?thesis
      using True by (subst assign_levels.simps) (simp add: Let_def)
  next
    case False
    have sub: "set assigned \<subseteq> set (map vd_name views)" and da: "distinct assigned"
      using less.prems by (simp_all add: scheduled_def view_names_def)
    have "card (set (map vd_name views)) \<le> card (set assigned)"
      using False da d by (metis distinct_card length_map not_less)
    then have "set assigned = set (map vd_name views)"
      using sub by (intro card_seteq) auto
    then have "filter (\<lambda>v. vd_name v \<in> set assigned) views = views" by (simp add: filter_id_conv)
    then show ?thesis
      using False less.prems by (subst assign_levels.simps) (simp add: scheduled_def)
  qed
qed

lemma levels_of_map:
  assumes "keyed vd_name m"
  shows "\<exists>ls. buildViewDependencyLevels m = Some ls \<and> mset (concat ls) = mset (map snd m) \<and> [] \<notin> set ls \<and>
    (acyclic (depends_on (map snd m)) \<longrightarrow> ordered (map snd m) ls)"
proof (cases "m = []")
  case True
  then show ?thesis by (simp add: buildViewDependencyLevels_def ordered_def)
next
  case False
  have "map vd_name (map snd m) = map fst m"
    using assms by (auto simp: keyed_def)
  then have "distinct (map vd_name (map snd m))" using assms unfolding keyed_def by metis
  moreover have "scheduled (map snd m) [] []" by (simp add: scheduled_def)
  moreover have "ordered (map snd m) []" by (simp add: ordered_def)
  ultimately have "\<exists>ls. assign_levels (map snd m) [] [] = Some ls \<and> mset (concat ls) = mset (map snd m) \<and> [] \<notin> set ls \<and>
      (acyclic (depends_on (map snd m)) \<longrightarrow> ordered (map snd m) ls)"
    by (intro assign_levels_ends) simp_all
  moreover have "buildViewDependencyLevels m = assign_levels (map snd m) [] []"
    using False by (simp add: buildViewDependencyLevels_def)
  ultimately show ?thesis by (simp only:)
qed

text \<open>
  For any stored definitions the loop ends, with every view in exactly one level and no level empty; and
  when the views do not depend on each other in a circle, what a view depends on is in an earlier level.
\<close>

theorem levels_respect_dependencies:
  assumes "keyed vd_name m"
  shows "\<exists>ls. buildViewDependencyLevels m = Some ls \<and> mset (concat ls) = mset (map snd m) \<and> [] \<notin> set ls \<and>
    (acyclic (depends_on (map snd m)) \<longrightarrow> ordered (map snd m) ls)"
  by (rule levels_of_map [OF assms])

definition sample_views :: "(string, view_definition) jmap" where
  "sample_views =
     [(''c'', \<lparr>vd_name = ''c'', vd_sql = ''SELECT 1'', vd_dependencies = [''b'', ''sales'']\<rparr>),
      (''a'', \<lparr>vd_name = ''a'', vd_sql = ''SELECT 1'', vd_dependencies = [''sales'']\<rparr>),
      (''b'', \<lparr>vd_name = ''b'', vd_sql = ''SELECT 1'', vd_dependencies = [''a'']\<rparr>)]"

lemma levels_respect_dependencies_witness:
  "\<exists>ls. buildViewDependencyLevels sample_views = Some ls \<and> mset (map vd_name (concat ls)) = {#''a'', ''b'', ''c''#}"
proof -
  have k: "keyed vd_name sample_views" by (simp add: keyed_def sample_views_def)
  obtain ls where "buildViewDependencyLevels sample_views = Some ls" "mset (concat ls) = mset (map snd sample_views)"
    using levels_respect_dependencies [OF k] by blast
  moreover from this(2) have "mset (map vd_name (concat ls)) = mset (map vd_name (map snd sample_views))"
    by (metis mset_map)
  ultimately show ?thesis by (simp add: sample_views_def add_mset_commute)
qed

subsection \<open>Rehydration\<close>

text \<open>
  \<open>create\<close> tells whether the database can create a view, given the names that exist. All views of a level are
  asked for before any of them exists; a failure is logged and the rehydration goes on.
\<close>

definition rehydrate_level ::
  "(string list \<Rightarrow> view_definition \<Rightarrow> bool) \<Rightarrow> view_definition list \<Rightarrow> string list \<times> string list \<Rightarrow> string list \<times> string list" where
  "rehydrate_level create level = (\<lambda>(db, failed).
     (db @ map vd_name (filter (create db) level), failed @ map vd_name (filter (\<lambda>v. \<not> create db v) level)))"

definition rehydrateViewsParallel ::
  "(string list \<Rightarrow> view_definition \<Rightarrow> bool) \<Rightarrow> (string, view_definition) jmap \<Rightarrow> string list \<Rightarrow> (string list \<times> string list) option" where
  "rehydrateViewsParallel create m db =
     (if m = [] then Some (db, [])
      else map_option (\<lambda>levels. fold (rehydrate_level create) levels (db, [])) (buildViewDependencyLevels m))"

lemma rehydrate_levels:
  assumes create: "\<And>db v. \<forall>d\<in>set (vd_dependencies v). d \<in> set db \<Longrightarrow> create db v"
  shows "(\<forall>i<length levels. \<forall>v\<in>set (levels ! i). \<forall>d\<in>set (vd_dependencies v). d \<in> set db \<or> (\<exists>j<i. d \<in> view_names (levels ! j))) \<Longrightarrow>
    fold (rehydrate_level create) levels (db, failed) = (db @ map vd_name (concat levels), failed)"
proof (induction levels arbitrary: db)
  case (Cons level levels)
  have "create db v" if "v \<in> set level" for v
  proof (rule create)
    show "\<forall>d\<in>set (vd_dependencies v). d \<in> set db"
      using Cons.prems [rule_format, of 0 v] that by auto
  qed
  then have step: "rehydrate_level create level (db, failed) = (db @ map vd_name level, failed)"
    by (simp add: rehydrate_level_def)
  have "d \<in> set (db @ map vd_name level) \<or> (\<exists>j<i. d \<in> view_names (levels ! j))"
    if "i < length levels" "v \<in> set (levels ! i)" "d \<in> set (vd_dependencies v)" for i v d
  proof -
    have "d \<in> set db \<or> (\<exists>j<Suc i. d \<in> view_names ((level # levels) ! j))"
      using Cons.prems [rule_format, of "Suc i" v d] that by simp
    then show ?thesis
      by (auto simp: less_Suc_eq_0_disj view_names_def)
  qed
  then show ?case by (simp add: step Cons.IH)
qed simp

text \<open>C37 On a database that creates every view whose dependencies exist, which holds the tables that the views
  depend on, and for definitions without a circle: the rehydration restores every view, and none fails.
\<close>

theorem rehydration_restores_all:
  assumes k: "keyed vd_name m" and a: "acyclic (depends_on (map snd m))"
    and create: "\<And>db v. \<forall>d\<in>set (vd_dependencies v). d \<in> set db \<Longrightarrow> create db v"
    and tables: "\<forall>v\<in>set (map snd m). \<forall>d\<in>set (vd_dependencies v). d \<in> set db \<or> d \<in> view_names (map snd m)"
  shows "\<exists>db'. rehydrateViewsParallel create m db = Some (db', []) \<and> mset db' = mset db + mset (jm_keys m)"
proof -
  obtain ls where ls: "buildViewDependencyLevels m = Some ls" "mset (concat ls) = mset (map snd m)"
    and o: "ordered (map snd m) ls"
    using levels_of_map [OF k] a by blast
  have "set (concat ls) = set (map snd m)" using ls(2) by (rule mset_eq_setD)
  then have in_m: "v \<in> set (map snd m)" if "i < length ls" "v \<in> set (ls ! i)" for i v
    using that by (metis nth_mem set_concat UN_I)
  have "fold (rehydrate_level create) ls (db, []) = (db @ map vd_name (concat ls), [])"
  proof (rule rehydrate_levels [OF create], assumption, intro allI impI ballI)
    fix i v d
    assume i: "i < length ls" and v: "v \<in> set (ls ! i)" and d: "d \<in> set (vd_dependencies v)"
    show "d \<in> set db \<or> (\<exists>j<i. d \<in> view_names (ls ! j))"
      using tables in_m [OF i v] d o [unfolded ordered_def, rule_format, OF i v d] by blast
  qed
  moreover have "mset (map vd_name (concat ls)) = mset (jm_keys m)"
  proof -
    have "map vd_name (map snd m) = jm_keys m" using k by (auto simp: keyed_def)
    then show ?thesis using ls(2) by (metis mset_map)
  qed
  ultimately show ?thesis
    using ls(1) by (cases "m = []") (auto simp: rehydrateViewsParallel_def)
qed

definition dependencies_exist :: "string list \<Rightarrow> view_definition \<Rightarrow> bool" where
  "dependencies_exist db v = list_all (\<lambda>d. d \<in> set db) (vd_dependencies v)"

lemma rehydration_restores_all_witness:
  "\<exists>db'. rehydrateViewsParallel dependencies_exist sample_views [''sales''] = Some (db', []) \<and>
     mset db' = {#''sales'', ''a'', ''b'', ''c''#}"
proof -
  have k: "keyed vd_name sample_views" by (simp add: keyed_def sample_views_def)
  define rank where "rank n = (if n = ''a'' then 0 else if n = ''b'' then 1 else 2 :: nat)" for n :: string
  have "depends_on (map snd sample_views) \<subseteq> measure rank"
    by (auto simp: depends_on_def sample_views_def view_names_def rank_def)
  then have a: "acyclic (depends_on (map snd sample_views))"
    by (meson wf_measure wf_subset wf_acyclic)
  have c: "\<And>db v. \<forall>d\<in>set (vd_dependencies v). d \<in> set db \<Longrightarrow> dependencies_exist db v"
    by (simp add: dependencies_exist_def list_all_iff)
  have t: "\<forall>v\<in>set (map snd sample_views). \<forall>d\<in>set (vd_dependencies v). d \<in> set [''sales''] \<or> d \<in> view_names (map snd sample_views)"
    by (simp add: sample_views_def view_names_def)
  have "mset [''sales''] + mset (jm_keys sample_views) = {#''sales'', ''a'', ''b'', ''c''#}"
    by (simp add: sample_views_def add_mset_commute)
  with rehydration_restores_all [OF k a c t] show ?thesis by simp
qed

text \<open>
  Views in a circle are put into one last level together with everything that waits for them: what depends
  on the circle is then created beside it and fails, though the circle might have been created.
\<close>

lemma circle_takes_dependents:
  "map_option (map (map vd_name)) (buildViewDependencyLevels
     [(''p'', \<lparr>vd_name = ''p'', vd_sql = [], vd_dependencies = [''p'']\<rparr>),
      (''q'', \<lparr>vd_name = ''q'', vd_sql = [], vd_dependencies = [''p'']\<rparr>)]) = Some [[''p'', ''q'']]"
  by (simp add: buildViewDependencyLevels_def assign_levels.simps next_level_def dependencies_satisfied_def
      unassigned_def js_add_def)

end
