(* ===== verification/Duckdb_Router.thy ===== *)
theory Duckdb_Router
  imports View_Rehydration
begin

text \<open>
  The DuckDB router (\<open>bridge/src/duckdb/router.ts\<close>): the bridge it creates on demand, its mutex, the idle
  timer and the shutdown. A bridge is a number, and whether it is initialised is a set of numbers. Calls are
  numbers as well; a call that has got its bridge is served by it until it is done. Creating the bridge,
  restoring its views, saving them and shutting it down are asynchronous, so their ends are events. A
  resumed caller runs at once. The bridges themselves, and what \<open>createView\<close> validates, are not modelled here.
\<close>

datatype bridge_call = Run | Create_view view_definition | Drop_view string

datatype init_phase = Starting nat | Restoring nat

record router =
  rt_idleTimeout :: ms
  rt_bridge :: "nat option"
  rt_created :: nat
  rt_up :: "nat list"
  rt_initializing :: "(nat \<times> bridge_call \<times> init_phase) option"
  rt_waiting :: "(nat \<times> bridge_call) list"
  rt_timer :: bool
  rt_lastActivityAt :: "ms option"
  rt_saving :: nat
  rt_closing :: "nat list"
  rt_views :: "(string, view_definition) jmap"
  rt_running :: "(nat \<times> nat) list"
  rt_served :: "nat list"
  rt_failed :: "nat list"

definition new_router :: "ms \<Rightarrow> router" where
  "new_router idleTimeout =
     \<lparr>rt_idleTimeout = idleTimeout, rt_bridge = None, rt_created = 0, rt_up = [], rt_initializing = None, rt_waiting = [],
      rt_timer = False, rt_lastActivityAt = None, rt_saving = 0, rt_closing = [], rt_views = [], rt_running = [],
      rt_served = [], rt_failed = []\<rparr>"

definition bridge_ready :: "router \<Rightarrow> nat option" where
  "bridge_ready r = (case rt_bridge r of Some b \<Rightarrow> if b \<in> set (rt_up r) then Some b else None | None \<Rightarrow> None)"

definition resetIdleTimer :: "ms \<Rightarrow> router \<Rightarrow> router" where
  "resetIdleTimer now r = r\<lparr>rt_timer := rt_idleTimeout r > 0, rt_lastActivityAt := Some now\<rparr>"

text \<open>What a call does with the bridge it got; the definition of a view is noted before the bridge is asked.\<close>

definition serve :: "nat \<Rightarrow> bridge_call \<Rightarrow> nat \<Rightarrow> router \<Rightarrow> router" where
  "serve n call b r =
     r\<lparr>rt_served := rt_served r @ [n], rt_running := rt_running r @ [(n, b)],
       rt_views := (case call of
                      Run \<Rightarrow> rt_views r
                    | Create_view v \<Rightarrow> jm_set (vd_name v) v (rt_views r)
                    | Drop_view name \<Rightarrow> jm_delete name (rt_views r))\<rparr>"

text \<open>A caller that holds the mutex: another one may have initialised the bridge while it waited.\<close>

fun enter :: "(nat \<times> bridge_call) list \<Rightarrow> router \<Rightarrow> router" where
  "enter [] r = r\<lparr>rt_initializing := None, rt_waiting := []\<rparr>"
| "enter ((n, call) # waiting) r =
     (case bridge_ready r of
        Some b \<Rightarrow> enter waiting (serve n call b r)
      | None \<Rightarrow>
          r\<lparr>rt_bridge := Some (rt_created r), rt_created := rt_created r + 1,
            rt_initializing := Some (n, call, Starting (rt_created r)), rt_waiting := waiting\<rparr>)"

definition ensureBridge :: "ms \<Rightarrow> nat \<Rightarrow> bridge_call \<Rightarrow> router \<Rightarrow> router" where
  "ensureBridge now n call r =
     (let r1 = resetIdleTimer now r
      in (case bridge_ready r1 of
            Some b \<Rightarrow> serve n call b r1
          | None \<Rightarrow>
              if rt_initializing r1 \<noteq> None then r1\<lparr>rt_waiting := rt_waiting r1 @ [(n, call)]\<rparr>
              else enter [(n, call)] r1))"

text \<open>The end of \<open>initializeBridge\<close>: the bridge may be gone by then.\<close>

definition bridge_initialized :: "nat \<Rightarrow> bridge_call \<Rightarrow> router \<Rightarrow> router" where
  "bridge_initialized n call r =
     (case rt_bridge r of
        None \<Rightarrow> enter (rt_waiting r) (r\<lparr>rt_failed := rt_failed r @ [n]\<rparr>)
      | Some b \<Rightarrow> enter (rt_waiting r) (serve n call b r))"

text \<open>\<open>bridge.initialize()\<close> has settled. Views are restored on the bridge that is current then.\<close>

definition init_settled :: "bool \<Rightarrow> router \<Rightarrow> router" where
  "init_settled ok r =
     (case rt_initializing r of
        Some (n, call, Starting b) \<Rightarrow>
          (if \<not> ok then enter (rt_waiting r) (r\<lparr>rt_failed := rt_failed r @ [n]\<rparr>)
           else (let r1 = r\<lparr>rt_up := rt_up r @ [b]\<rparr>
                 in (case rt_bridge r1 of
                       Some c \<Rightarrow>
                         if rt_views r1 = [] then bridge_initialized n call r1
                         else r1\<lparr>rt_initializing := Some (n, call, Restoring c)\<rparr>
                     | None \<Rightarrow> bridge_initialized n call r1)))
      | _ \<Rightarrow> r)"

definition views_restored :: "router \<Rightarrow> router" where
  "views_restored r =
     (case rt_initializing r of
        Some (n, call, Restoring c) \<Rightarrow> bridge_initialized n call r
      | _ \<Rightarrow> r)"

definition rt_shutdown :: "router \<Rightarrow> router" where
  "rt_shutdown r =
     (let r1 = r\<lparr>rt_timer := False\<rparr>
      in (case rt_bridge r1 of
            Some b \<Rightarrow> r1\<lparr>rt_closing := rt_closing r1 @ [b]\<rparr>
          | None \<Rightarrow> r1))"

text \<open>\<open>bridge.shutdown()\<close> of bridge \<open>b\<close> has ended: the router forgets the bridge it has then.\<close>

definition bridge_closed :: "nat \<Rightarrow> router \<Rightarrow> router" where
  "bridge_closed b r =
     r\<lparr>rt_closing := remove1 b (rt_closing r), rt_up := filter (\<lambda>c. c \<noteq> b) (rt_up r), rt_bridge := None\<rparr>"

definition handleIdleTimeout :: "router \<Rightarrow> router" where
  "handleIdleTimeout r =
     (let r1 = r\<lparr>rt_timer := False\<rparr>
      in (if bridge_ready r1 \<noteq> None then r1\<lparr>rt_saving := rt_saving r1 + 1\<rparr> else rt_shutdown r1))"

text \<open>\<open>getViews\<close> has answered, with \<open>None\<close> for a failure.\<close>

definition views_saved :: "view_definition list option \<Rightarrow> router \<Rightarrow> router" where
  "views_saved answer r =
     rt_shutdown (r\<lparr>rt_saving := rt_saving r - 1,
       rt_views := (case answer of None \<Rightarrow> rt_views r | Some vs \<Rightarrow> fold (\<lambda>v m. jm_set (vd_name v) v m) vs (rt_views r))\<rparr>)"

subsection \<open>Steps\<close>

datatype router_event =
    Ask nat bridge_call
  | InitSettled bool
  | ViewsRestored
  | IdleFires
  | ViewsSaved "view_definition list option"
  | ShutdownCalled
  | Closed nat
  | CallDone nat

definition known_callers :: "router \<Rightarrow> nat list" where
  "known_callers r =
     rt_served r @ rt_failed r @ map fst (rt_waiting r) @ (case rt_initializing r of Some (n, x) \<Rightarrow> [n] | None \<Rightarrow> [])"

fun rt_enabled :: "router_event \<Rightarrow> router \<Rightarrow> bool" where
  "rt_enabled (Ask n call) r \<longleftrightarrow> n \<notin> set (known_callers r)"
| "rt_enabled (InitSettled ok) r \<longleftrightarrow> (case rt_initializing r of Some (n, c, Starting b) \<Rightarrow> True | _ \<Rightarrow> False)"
| "rt_enabled ViewsRestored r \<longleftrightarrow> (case rt_initializing r of Some (n, c, Restoring b) \<Rightarrow> True | _ \<Rightarrow> False)"
| "rt_enabled IdleFires r \<longleftrightarrow> rt_timer r"
| "rt_enabled (ViewsSaved vs) r \<longleftrightarrow> rt_saving r > 0"
| "rt_enabled ShutdownCalled r \<longleftrightarrow> True"
| "rt_enabled (Closed b) r \<longleftrightarrow> b \<in> set (rt_closing r)"
| "rt_enabled (CallDone n) r \<longleftrightarrow> n \<in> fst ` set (rt_running r)"

fun router_step :: "ms \<times> router_event \<Rightarrow> router \<Rightarrow> router" where
  "router_step (now, Ask n call) r = ensureBridge now n call r"
| "router_step (now, InitSettled ok) r = init_settled ok r"
| "router_step (now, ViewsRestored) r = views_restored r"
| "router_step (now, IdleFires) r = handleIdleTimeout r"
| "router_step (now, ViewsSaved vs) r = views_saved vs r"
| "router_step (now, ShutdownCalled) r = rt_shutdown r"
| "router_step (now, Closed b) r = bridge_closed b r"
| "router_step (now, CallDone n) r = r\<lparr>rt_running := filter (\<lambda>c. fst c \<noteq> n) (rt_running r)\<rparr>"

fun rt_run :: "(ms \<times> router_event) list \<Rightarrow> router \<Rightarrow> router option" where
  "rt_run [] r = Some r"
| "rt_run (e # es) r = (if rt_enabled (snd e) r then rt_run es (router_step e r) else None)"

fun asked :: "(ms \<times> router_event) list \<Rightarrow> nat list" where
  "asked [] = []"
| "asked ((now, Ask n call) # es) = n # asked es"
| "asked (e # es) = asked es"

subsection \<open>Every call is accounted for\<close>

lemma bridge_ready_cong: "rt_bridge r' = rt_bridge r \<Longrightarrow> rt_up r' = rt_up r \<Longrightarrow> bridge_ready r' = bridge_ready r"
  by (cases "rt_bridge r") (simp_all add: bridge_ready_def)

lemma bridge_ready_frame [simp]:
  "bridge_ready (serve n call b r) = bridge_ready r" "bridge_ready (resetIdleTimer now r) = bridge_ready r"
  by (simp_all add: bridge_ready_def serve_def resetIdleTimer_def split: option.split)

lemma serve_fields [simp]:
  "rt_served (serve n call b r) = rt_served r @ [n]" "rt_failed (serve n call b r) = rt_failed r"
  "rt_initializing (serve n call b r) = rt_initializing r" "rt_waiting (serve n call b r) = rt_waiting r"
  "rt_bridge (serve n call b r) = rt_bridge r" "rt_up (serve n call b r) = rt_up r"
  "rt_created (serve n call b r) = rt_created r" "rt_closing (serve n call b r) = rt_closing r"
  by (simp_all add: serve_def)

lemma resetIdleTimer_fields [simp]:
  "rt_served (resetIdleTimer now r) = rt_served r" "rt_failed (resetIdleTimer now r) = rt_failed r"
  "rt_initializing (resetIdleTimer now r) = rt_initializing r" "rt_waiting (resetIdleTimer now r) = rt_waiting r"
  "rt_bridge (resetIdleTimer now r) = rt_bridge r" "rt_up (resetIdleTimer now r) = rt_up r"
  "rt_created (resetIdleTimer now r) = rt_created r" "rt_closing (resetIdleTimer now r) = rt_closing r"
  by (simp_all add: resetIdleTimer_def)

text \<open>A waiting call waits behind an initialisation.\<close>

definition queue_behind_init :: "router \<Rightarrow> bool" where
  "queue_behind_init r \<longleftrightarrow> (rt_waiting r = [] \<or> rt_initializing r \<noteq> None)"

lemma enter_known: "mset (known_callers (enter w r)) = mset (rt_served r) + mset (rt_failed r) + mset (map fst w)"
  by (induction w r rule: enter.induct) (auto simp: known_callers_def split: option.split)

lemma enter_queue: "queue_behind_init (enter w r)"
  by (induction w r rule: enter.induct) (auto simp: queue_behind_init_def split: option.split)

lemma known_split:
  "mset (known_callers r) = mset (rt_served r) + mset (rt_failed r) + mset (map fst (rt_waiting r)) +
     (case rt_initializing r of Some (n, x) \<Rightarrow> {#n#} | None \<Rightarrow> {#})"
  by (simp add: known_callers_def split: option.split)

lemma bridge_initialized_known:
  "mset (known_callers (bridge_initialized n call r)) = add_mset n (mset (rt_served r) + mset (rt_failed r) + mset (map fst (rt_waiting r)))"
  by (simp add: bridge_initialized_def enter_known split: option.split)

lemma bridge_initialized_queue: "queue_behind_init (bridge_initialized n call r)"
  by (simp add: bridge_initialized_def enter_queue split: option.split)

lemma ensureBridge_ok:
  assumes "queue_behind_init r"
  shows "mset (known_callers (ensureBridge now n call r)) = add_mset n (mset (known_callers r)) \<and> queue_behind_init (ensureBridge now n call r)"
proof (cases "bridge_ready r")
  case None
  show ?thesis
  proof (cases "rt_initializing r = None")
    case True
    then have "rt_waiting r = []" using assms by (simp add: queue_behind_init_def)
    with True None show ?thesis
      by (simp add: ensureBridge_def Let_def enter_known enter_queue known_split [of r] del: enter.simps)
  next
    case False
    with None show ?thesis
      by (auto simp: ensureBridge_def Let_def known_split queue_behind_init_def)
  qed
next
  case (Some b)
  with assms show ?thesis
    by (auto simp: ensureBridge_def Let_def known_split queue_behind_init_def split: option.split)
qed

lemma init_settled_ok:
  assumes "rt_enabled (InitSettled ok) r"
  shows "mset (known_callers (init_settled ok r)) = mset (known_callers r) \<and> queue_behind_init (init_settled ok r)"
proof -
  obtain n call b where i: "rt_initializing r = Some (n, call, Starting b)"
    using assms by (auto split: option.splits init_phase.splits)
  show ?thesis
  proof (cases ok)
    case False
    with i show ?thesis by (simp add: init_settled_def enter_known enter_queue known_split [of r])
  next
    case True
    then show ?thesis
      using i by (auto simp: init_settled_def Let_def bridge_initialized_known bridge_initialized_queue known_split [of r] split: option.split)
        (auto simp: known_split queue_behind_init_def)
  qed
qed

lemma views_restored_ok:
  assumes "rt_enabled ViewsRestored r"
  shows "mset (known_callers (views_restored r)) = mset (known_callers r) \<and> queue_behind_init (views_restored r)"
proof -
  obtain n call b where "rt_initializing r = Some (n, call, Restoring b)"
    using assms by (auto split: option.splits init_phase.splits)
  then show ?thesis
    by (simp add: views_restored_def bridge_initialized_known bridge_initialized_queue known_split [of r])
qed

text \<open>The steps that neither take nor answer a call.\<close>

lemma quiet_ok:
  assumes "queue_behind_init r"
    and "rt_served r' = rt_served r" "rt_failed r' = rt_failed r" "rt_waiting r' = rt_waiting r" "rt_initializing r' = rt_initializing r"
  shows "mset (known_callers r') = mset (known_callers r) \<and> queue_behind_init r'"
  using assms by (simp add: known_callers_def queue_behind_init_def)

lemma router_step_ok:
  assumes "queue_behind_init r" "rt_enabled (snd e) r"
  shows "mset (known_callers (router_step e r)) = mset (asked [e]) + mset (known_callers r) \<and> queue_behind_init (router_step e r)"
proof -
  obtain now ev where e: "e = (now, ev)" by (cases e)
  show ?thesis
  proof (cases ev)
    case (Ask n call)
    then show ?thesis using ensureBridge_ok [OF assms(1)] by (simp add: e)
  next
    case (InitSettled ok)
    then show ?thesis using init_settled_ok assms(2) by (simp add: e)
  next
    case ViewsRestored
    then show ?thesis using views_restored_ok assms(2) by (simp add: e)
  next
    case IdleFires
    then show ?thesis
      using quiet_ok [OF assms(1), of "handleIdleTimeout r"]
      by (simp add: e handleIdleTimeout_def rt_shutdown_def Let_def split: option.split)
  next
    case (ViewsSaved vs)
    then show ?thesis
      using quiet_ok [OF assms(1), of "views_saved vs r"]
      by (simp add: e views_saved_def rt_shutdown_def Let_def split: option.split)
  next
    case ShutdownCalled
    then show ?thesis
      using quiet_ok [OF assms(1), of "rt_shutdown r"] by (simp add: e rt_shutdown_def Let_def split: option.split)
  next
    case (Closed b)
    then show ?thesis using quiet_ok [OF assms(1), of "bridge_closed b r"] by (simp add: e bridge_closed_def)
  next
    case (CallDone n)
    then show ?thesis
      using quiet_ok [OF assms(1), of "r\<lparr>rt_running := filter (\<lambda>c. fst c \<noteq> n) (rt_running r)\<rparr>"] by (simp add: e)
  qed
qed

lemma asked_Cons: "mset (asked (e # es)) = mset (asked [e]) + mset (asked es)"
  by (cases e; cases "snd e") auto

lemma rt_run_ok:
  "rt_run es r = Some r' \<Longrightarrow> queue_behind_init r \<Longrightarrow>
     mset (known_callers r') = mset (asked es) + mset (known_callers r) \<and> queue_behind_init r'"
proof (induction es arbitrary: r)
  case (Cons e es)
  then have e: "rt_enabled (snd e) r" and es: "rt_run es (router_step e r) = Some r'"
    by (auto split: if_splits)
  from router_step_ok [OF Cons.prems(2) e] Cons.IH [OF es] show ?case
    using asked_Cons [of e es] by (simp add: ac_simps del: asked.simps)
qed simp

lemma new_router_known [simp]: "known_callers (new_router t) = []" "queue_behind_init (new_router t)"
  by (simp_all add: known_callers_def queue_behind_init_def new_router_def)

text \<open>C38 Whatever happens to a router: every call it was asked has been given a bridge, has failed, waits, or is the one
  that initialises the bridge, and is only one of these; and nobody waits unless somebody initialises.
\<close>

theorem router_accounts_for_calls:
  assumes "rt_run es (new_router t) = Some r"
  shows "mset (rt_served r) + mset (rt_failed r) + mset (map fst (rt_waiting r)) +
      (case rt_initializing r of Some (n, x) \<Rightarrow> {#n#} | None \<Rightarrow> {#}) = mset (asked es) \<and>
    (rt_waiting r = [] \<or> rt_initializing r \<noteq> None)"
  using rt_run_ok [OF assms new_router_known(2)] by (simp only: known_split [symmetric] new_router_known queue_behind_init_def) simp

definition cold_start :: "(ms \<times> router_event) list" where
  "cold_start = [(1, Ask 0 Run), (2, Ask 1 Run), (3, Ask 2 Run)]"

lemma router_accounts_for_calls_witness:
  "case rt_run cold_start (new_router 30000) of
     None \<Rightarrow> False
   | Some r \<Rightarrow> mset (rt_served r) + mset (rt_failed r) + mset (map fst (rt_waiting r)) +
       (case rt_initializing r of Some (n, x) \<Rightarrow> {#n#} | None \<Rightarrow> {#}) = {#0, 1, 2#}"
proof -
  have a: "mset (asked cold_start) = {#0, 1, 2#}" by (simp add: cold_start_def)
  have "rt_run cold_start (new_router 30000) \<noteq> None" by code_simp
  then show ?thesis
    using router_accounts_for_calls [of cold_start 30000] by (auto simp: a)
qed

subsection \<open>An initialisation serves everybody\<close>

lemma enter_ready:
  "bridge_ready r = Some b \<Longrightarrow>
     rt_served (enter w r) = rt_served r @ map fst w \<and> rt_waiting (enter w r) = [] \<and>
     rt_initializing (enter w r) = None \<and> rt_failed (enter w r) = rt_failed r"
proof (induction w r rule: enter.induct)
  case (2 n call waiting r)
  then show ?case using "2.IH" [of b] by simp
qed simp

text \<open>
  When the bridge that is being initialised comes up, and was not shut down meanwhile, the caller that started it and
  all that wait for it are served at once, in their order; with views to restore, after these were restored.
\<close>

theorem initialization_serves_all:
  assumes "rt_initializing r = Some (n, call, Starting b)" and "rt_bridge r = Some b"
  shows "let r1 = router_step (t1, InitSettled True) r;
             r2 = (if rt_views r = [] then r1 else router_step (t2, ViewsRestored) r1)
    in rt_served r2 = rt_served r @ n # map fst (rt_waiting r) \<and> rt_waiting r2 = [] \<and> rt_initializing r2 = None \<and>
       rt_failed r2 = rt_failed r \<and> bridge_ready r2 = Some b"
proof -
  have ready: "bridge_ready (enter w s) = bridge_ready s" if "bridge_ready s \<noteq> None" for w s
    using that
  proof (induction w s rule: enter.induct)
    case (1 s)
    show ?case by (rule bridge_ready_cong) simp_all
  next
    case (2 n call waiting s)
    then show ?case by auto
  qed
  have up: "bridge_ready (serve n call b s) = Some b" if "rt_bridge s = Some b" "b \<in> set (rt_up s)" for s
    using that by (simp add: bridge_ready_def)
  have served: "rt_served (bridge_initialized n call s) = rt_served s @ n # map fst (rt_waiting s) \<and>
      rt_waiting (bridge_initialized n call s) = [] \<and> rt_initializing (bridge_initialized n call s) = None \<and>
      rt_failed (bridge_initialized n call s) = rt_failed s \<and> bridge_ready (bridge_initialized n call s) = Some b"
    if "rt_bridge s = Some b" "b \<in> set (rt_up s)" for s
    using that enter_ready [OF up [OF that], of "rt_waiting s"] ready [of "serve n call b s" "rt_waiting s"] up [OF that]
    by (simp add: bridge_initialized_def)
  define s where "s = r\<lparr>rt_up := rt_up r @ [b]\<rparr>"
  define s' where "s' = s\<lparr>rt_initializing := Some (n, call, Restoring b)\<rparr>"
  have s: "rt_bridge s = Some b" "b \<in> set (rt_up s)" "rt_served s = rt_served r" "rt_waiting s = rt_waiting r" "rt_failed s = rt_failed r"
    using assms(2) by (simp_all add: s_def)
  have s': "rt_bridge s' = Some b" "b \<in> set (rt_up s')" "rt_served s' = rt_served r" "rt_waiting s' = rt_waiting r" "rt_failed s' = rt_failed r"
    using s by (simp_all add: s'_def)
  show ?thesis
  proof (cases "rt_views r = []")
    case True
    then have "router_step (t1, InitSettled True) r = bridge_initialized n call s"
      using assms by (simp add: init_settled_def Let_def s_def)
    with True served [OF s(1,2)] s show ?thesis by simp
  next
    case False
    then have "router_step (t1, InitSettled True) r = s'"
      using assms by (simp add: init_settled_def Let_def s_def s'_def)
    moreover have "router_step (t2, ViewsRestored) s' = bridge_initialized n call s'"
      by (simp add: views_restored_def s'_def)
    ultimately show ?thesis using False served [OF s'(1,2)] s' by (simp add: Let_def del: router_step.simps)
  qed
qed

lemma initialization_serves_all_witness:
  "rt_served (router_step (4, InitSettled True) (the (rt_run cold_start (new_router 30000)))) = [0, 1, 2]"
proof -
  let ?r = "the (rt_run cold_start (new_router 30000))"
  have i: "rt_initializing ?r = Some (0, Run, Starting 0)" "rt_bridge ?r = Some 0" by code_simp+
  have v: "rt_views ?r = []" "rt_served ?r = []" "map fst (rt_waiting ?r) = [1, 2]" by code_simp+
  show ?thesis
    using initialization_serves_all [OF i, of 4 0] unfolding Let_def by (simp only: v if_True) simp
qed

subsection \<open>One bridge, as long as nothing overlaps\<close>

text \<open>
  A shutdown, also one by the idle timer, that comes while no bridge is starting or closing and the one that there is
  is up.
\<close>

fun settled_event :: "router_event \<Rightarrow> router \<Rightarrow> bool" where
  "settled_event IdleFires r \<longleftrightarrow> rt_initializing r = None \<and> rt_closing r = [] \<and> (rt_bridge r = None \<or> bridge_ready r \<noteq> None)"
| "settled_event (ViewsSaved vs) r \<longleftrightarrow> rt_initializing r = None \<and> rt_closing r = [] \<and> (rt_bridge r = None \<or> bridge_ready r \<noteq> None)"
| "settled_event ShutdownCalled r \<longleftrightarrow> rt_initializing r = None \<and> rt_closing r = [] \<and> (rt_bridge r = None \<or> bridge_ready r \<noteq> None)"
| "settled_event _ r \<longleftrightarrow> True"

fun settled_run :: "(ms \<times> router_event) list \<Rightarrow> router \<Rightarrow> bool" where
  "settled_run [] r = True"
| "settled_run (e # es) r = (settled_event (snd e) r \<and> settled_run es (router_step e r))"

text \<open>
  The bridges by what the router is doing: the part of the state it depends on is the bridge, those that are
  up, the initialisation and those that are closing.
\<close>

definition bridges_ok :: "nat option \<Rightarrow> nat list \<Rightarrow> init_phase option \<Rightarrow> nat list \<Rightarrow> bool" where
  "bridges_ok bridge up phase closing \<longleftrightarrow>
     set up \<subseteq> set_option bridge \<and> distinct up \<and>
     (closing = [] \<or> phase = None \<and> (\<exists>b. closing = [b] \<and> bridge = Some b \<and> up = [b])) \<and>
     (case phase of
        None \<Rightarrow> True
      | Some (Starting b) \<Rightarrow> bridge = Some b \<and> up = []
      | Some (Restoring b) \<Rightarrow> bridge = Some b \<and> up = [b])"

definition router_bridges_ok :: "router \<Rightarrow> bool" where
  "router_bridges_ok r =
     bridges_ok (rt_bridge r) (rt_up r) (map_option (\<lambda>(n, call, p). p) (rt_initializing r)) (rt_closing r)"

lemma ok_not_ready:
  assumes "bridges_ok (rt_bridge r) (rt_up r) phase (rt_closing r)" "bridge_ready r = None"
  shows "rt_up r = [] \<and> rt_closing r = []"
proof -
  have "set (rt_up r) \<subseteq> set_option (rt_bridge r)" using assms(1) by (simp add: bridges_ok_def)
  moreover have "\<forall>b. rt_bridge r = Some b \<longrightarrow> b \<notin> set (rt_up r)"
    using assms(2) by (auto simp: bridge_ready_def split: if_splits)
  ultimately have "set (rt_up r) = {}" by (intro equals0I) (auto simp: elem_set)
  then show ?thesis using assms(1) by (auto simp: bridges_ok_def)
qed

lemma ok_enter:
  assumes "bridges_ok (rt_bridge r) (rt_up r) None (rt_closing r)"
  shows "router_bridges_ok (enter w r)"
  using assms
proof (induction w r rule: enter.induct)
  case (1 r)
  then show ?case by (simp add: router_bridges_ok_def)
next
  case (2 n call waiting r)
  show ?case
  proof (cases "bridge_ready r")
    case None
    have "rt_up r = [] \<and> rt_closing r = []"
      using ok_not_ready "2.prems" None by blast
    with None show ?thesis by (simp add: router_bridges_ok_def bridges_ok_def)
  next
    case (Some b)
    then show ?thesis using 2 by simp
  qed
qed

lemma ok_same:
  "router_bridges_ok r \<Longrightarrow> rt_bridge r' = rt_bridge r \<Longrightarrow> rt_up r' = rt_up r \<Longrightarrow> rt_initializing r' = rt_initializing r \<Longrightarrow>
     rt_closing r' = rt_closing r \<Longrightarrow> router_bridges_ok r'"
  by (simp add: router_bridges_ok_def)

lemma ok_shutdown:
  assumes "router_bridges_ok r" "rt_initializing r = None" "rt_closing r = []" "rt_bridge r = None \<or> bridge_ready r \<noteq> None"
  shows "router_bridges_ok (rt_shutdown r)"
proof (cases "rt_bridge r")
  case None
  with assms show ?thesis by (simp add: rt_shutdown_def Let_def router_bridges_ok_def)
next
  case (Some b)
  then have "b \<in> set (rt_up r)" using assms(4) by (simp add: bridge_ready_def split: if_splits)
  moreover have "set (rt_up r) \<subseteq> {b}" "distinct (rt_up r)"
    using assms(1) Some by (simp_all add: router_bridges_ok_def bridges_ok_def)
  ultimately have "rt_up r = [b]"
    by (cases "rt_up r"; cases "tl (rt_up r)") auto
  with Some assms show ?thesis by (simp add: rt_shutdown_def Let_def router_bridges_ok_def bridges_ok_def)
qed

lemma ok_initialized:
  assumes "rt_bridge r = Some b" "rt_up r = [b]" "rt_closing r = []"
  shows "router_bridges_ok (bridge_initialized n call r)"
  using assms by (simp add: bridge_initialized_def) (rule ok_enter, simp add: bridges_ok_def)

lemma ok_init_settled:
  assumes i: "router_bridges_ok r" and e: "rt_enabled (InitSettled ok) r"
  shows "router_bridges_ok (init_settled ok r)"
proof -
  obtain n call b where p: "rt_initializing r = Some (n, call, Starting b)"
    using e by (auto split: option.splits init_phase.splits)
  then have b: "rt_bridge r = Some b" "rt_up r = []" "rt_closing r = []"
    using i by (auto simp: router_bridges_ok_def bridges_ok_def)
  show ?thesis
  proof (cases ok)
    case True
    with p b show ?thesis
      by (auto simp: init_settled_def Let_def intro: ok_initialized) (simp add: router_bridges_ok_def bridges_ok_def)
  next
    case False
    with p b show ?thesis
      by (simp add: init_settled_def) (rule ok_enter, simp add: bridges_ok_def)
  qed
qed

lemma ok_step:
  assumes i: "router_bridges_ok r" and e: "rt_enabled (snd e) r" and s: "settled_event (snd e) r"
  shows "router_bridges_ok (router_step e r)"
proof -
  obtain now ev where ev: "e = (now, ev)" by (cases e)
  show ?thesis
  proof (cases ev)
    case (Ask n call)
    have r1: "router_bridges_ok (resetIdleTimer now r)" by (rule ok_same [OF i]) simp_all
    have sv: "router_bridges_ok (serve n call b (resetIdleTimer now r))" for b by (rule ok_same [OF r1]) simp_all
    have wt: "router_bridges_ok (q\<lparr>rt_waiting := w\<rparr>)" if "router_bridges_ok q" for q w
      by (rule ok_same [OF that]) simp_all
    show ?thesis
    proof (cases "bridge_ready r = None \<and> rt_initializing r = None")
      case True
      then have "bridges_ok (rt_bridge r) (rt_up r) None (rt_closing r)" using i by (simp add: router_bridges_ok_def)
      with True show ?thesis
        by (simp add: ev Ask ensureBridge_def Let_def ok_enter del: enter.simps)
    next
      case False
      then show ?thesis
        using sv wt [OF r1] by (auto simp: ev Ask ensureBridge_def Let_def split: option.split)
    qed
  next
    case (InitSettled ok)
    then show ?thesis using ok_init_settled [OF i] e by (simp add: ev)
  next
    case ViewsRestored
    then obtain n call b where p: "rt_initializing r = Some (n, call, Restoring b)"
      using e by (auto simp: ev split: option.splits init_phase.splits)
    then have "rt_bridge r = Some b" "rt_up r = [b]" "rt_closing r = []"
      using i by (auto simp: router_bridges_ok_def bridges_ok_def)
    with p ViewsRestored show ?thesis by (simp add: ev views_restored_def ok_initialized)
  next
    case IdleFires
    have "router_bridges_ok (r\<lparr>rt_timer := False\<rparr>)" "router_bridges_ok (r\<lparr>rt_timer := False, rt_saving := k\<rparr>)" for k
      by (rule ok_same [OF i], simp_all)+
    then show ?thesis
      using s IdleFires by (auto simp: ev handleIdleTimeout_def Let_def bridge_ready_def split: option.splits if_splits intro!: ok_shutdown)
  next
    case (ViewsSaved vs)
    have "router_bridges_ok (r\<lparr>rt_saving := k, rt_views := v\<rparr>)" for k v
      by (rule ok_same [OF i], simp_all)
    then show ?thesis
      using s ViewsSaved bridge_ready_cong [of "r\<lparr>rt_saving := k, rt_views := v\<rparr>" r for k v]
      by (simp add: ev views_saved_def) (rule ok_shutdown, simp_all)
  next
    case ShutdownCalled
    then show ?thesis using s ok_shutdown [OF i] by (simp add: ev)
  next
    case (Closed b)
    then have "b \<in> set (rt_closing r)" using e by (simp add: ev)
    then have "rt_initializing r = None" "rt_closing r = [b]" "rt_up r = [b]"
      using i by (auto simp: router_bridges_ok_def bridges_ok_def)
    then show ?thesis by (simp add: ev Closed bridge_closed_def router_bridges_ok_def bridges_ok_def)
  next
    case (CallDone n)
    then show ?thesis using ok_same [OF i, of "r\<lparr>rt_running := filter (\<lambda>c. fst c \<noteq> n) (rt_running r)\<rparr>"] by (simp add: ev)
  qed
qed

lemma ok_run: "rt_run es r = Some r' \<Longrightarrow> settled_run es r \<Longrightarrow> router_bridges_ok r \<Longrightarrow> router_bridges_ok r'"
  by (induction es arbitrary: r) (auto simp: ok_step split: if_splits)

text \<open>C39 As long as a router is shut down, by a caller or when idle, only while its bridge is neither starting nor
  closing: no bridge is up but the one the router has, so none is left running.
\<close>

theorem no_bridge_leaks:
  assumes "rt_run es (new_router t) = Some r" and "settled_run es (new_router t)"
  shows "rt_up r = [] \<or> (\<exists>b. rt_bridge r = Some b \<and> rt_up r = [b])"
proof -
  have "router_bridges_ok (new_router t)" by (simp add: router_bridges_ok_def bridges_ok_def new_router_def)
  from ok_run [OF assms this] have "set (rt_up r) \<subseteq> set_option (rt_bridge r)" "distinct (rt_up r)"
    by (simp_all add: router_bridges_ok_def bridges_ok_def)
  then show ?thesis
    by (cases "rt_bridge r"; cases "rt_up r"; cases "tl (rt_up r)") auto
qed

definition idle_cycle :: "(ms \<times> router_event) list" where
  "idle_cycle =
     [(1, Ask 0 Run), (2, InitSettled True), (3, CallDone 0), (30003, IdleFires), (30004, ViewsSaved (Some [])), (30005, Closed 0),
      (40000, Ask 1 Run), (40001, InitSettled True)]"

lemma no_bridge_leaks_witness:
  "case rt_run idle_cycle (new_router 30000) of
     None \<Rightarrow> False
   | Some r \<Rightarrow> rt_created r = 2 \<and> (\<exists>b. rt_bridge r = Some b \<and> rt_up r = [b])"
proof -
  have r: "case rt_run idle_cycle (new_router 30000) of None \<Rightarrow> False | Some r \<Rightarrow> rt_created r = 2 \<and> rt_up r \<noteq> []" by code_simp
  have s: "settled_run idle_cycle (new_router 30000)" by code_simp
  from r show ?thesis using no_bridge_leaks [OF _ s] by (auto split: option.splits)
qed

subsection \<open>What goes wrong\<close>

text \<open>
  An idle timeout while the bridge starts drops it: the call fails, and the bridge comes up with nobody to shut
  it down.
\<close>

lemma idle_timeout_leaks_bridge:
  "(case rt_run [(1, Ask 0 Run), (30001, IdleFires), (30002, Closed 0), (30003, InitSettled True)] (new_router 30000) of
      None \<Rightarrow> False
    | Some r \<Rightarrow> rt_failed r = [0] \<and> rt_up r = [0] \<and> rt_bridge r = None)"
  by code_simp

text \<open>The idle timer counts from the start of the last call, so it closes the bridge under a call that takes longer.\<close>

lemma idle_timeout_closes_running_call:
  "(case rt_run [(1, Ask 0 Run), (2, InitSettled True), (30002, IdleFires), (30003, ViewsSaved (Some [])), (30004, Closed 0)] (new_router 30000) of
      None \<Rightarrow> False
    | Some r \<Rightarrow> rt_running r = [(0, 0)] \<and> rt_up r = [])"
  by code_simp

text \<open>Of two shutdowns that overlap the later drops the bridge that was created in between.\<close>

lemma second_shutdown_drops_new_bridge:
  "(case rt_run [(1, Ask 0 Run), (2, InitSettled True), (3, ShutdownCalled), (4, ShutdownCalled), (5, Closed 0), (6, Ask 1 Run), (7, InitSettled True),
       (8, Closed 0)] (new_router 30000) of
      None \<Rightarrow> False
    | Some r \<Rightarrow> rt_up r = [1] \<and> rt_bridge r = None)"
  by code_simp

end
