(* ===== verification/Shoulder_Tap.thy ===== *)
theory Shoulder_Tap
  imports Json_Values
begin

text \<open>
  The shoulder-tap client (\<open>data-layer/src/realtime/shoulder-tap-client.ts\<close>): one step function over the calls of the
  application and the events of the host. A socket, a timer and a run of \<open>openOnce\<close> that awaits its ticket
  are numbers; a socket is live until its \<open>onclose\<close>. \<open>toLowerCase\<close> and \<open>Math.random\<close> are parameters, a frame that
  is no JSON is \<open>None\<close>, and the storage is there. Building URLs and the HTTP request are left out.
\<close>

datatype tap_state = Idle | Connecting | Open | Reconnecting | Closed_state

record tap_event =
  tap_topic :: string
  tap_entityId :: string
  tap_action :: string
  tap_table :: string
  tap_timestamp :: string

record tap_client =
  tc_state :: tap_state
  tc_closed :: bool
  tc_socket :: "nat option"
  tc_live :: "nat list"
  tc_opened :: "nat list"
  tc_attempts :: nat
  tc_handle :: "nat option"
  tc_timers :: "nat list"
  tc_opening :: "nat list"
  tc_next :: nat
  tc_stored :: "string option"
  tc_taps :: "tap_event list"
  tc_states :: "tap_state list"
  tc_sent :: "(nat \<times> string) list"

definition new_tap_client :: "string option \<Rightarrow> tap_client" where
  "new_tap_client stored =
     \<lparr>tc_state = Idle, tc_closed = False, tc_socket = None, tc_live = [], tc_opened = [], tc_attempts = 0, tc_handle = None,
      tc_timers = [], tc_opening = [], tc_next = 0, tc_stored = stored, tc_taps = [], tc_states = [], tc_sent = []\<rparr>"

subsection \<open>Messages\<close>

definition text_of :: "string \<Rightarrow> (string \<times> jsv) list \<Rightarrow> string option" where
  "text_of k es = (case jm_get es k of Some (JStr s) \<Rightarrow> Some s | _ \<Rightarrow> None)"

fun isShoulderTapEnvelope :: "jsv \<Rightarrow> bool" where
  "isShoulderTapEnvelope (JObj es) =
     (text_of ''type'' es = Some ''MUTATION'' \<and> text_of ''topic'' es \<noteq> None \<and> text_of ''entity_id'' es \<noteq> None \<and>
      text_of ''action'' es \<noteq> None \<and> text_of ''ts'' es \<noteq> None)"
| "isShoulderTapEnvelope v = False"

definition tableFromTopic :: "string \<Rightarrow> string" where
  "tableFromTopic topic =
     (let parts = split_on (CHR ''.'') topic
      in (if length parts < 4 \<or> hd parts \<noteq> ''event'' then topic else parts ! 3))"

fun tap_of :: "(string \<Rightarrow> string) \<Rightarrow> jsv \<Rightarrow> tap_event option" where
  "tap_of lower (JObj es) =
     (if \<not> isShoulderTapEnvelope (JObj es) then None
      else (case (text_of ''topic'' es, text_of ''entity_id'' es, text_of ''action'' es, text_of ''ts'' es) of
              (Some topic, Some i, Some action, Some ts) \<Rightarrow>
                Some \<lparr>tap_topic = topic, tap_entityId = i, tap_action = lower action, tap_table = tableFromTopic topic, tap_timestamp = ts\<rparr>
            | _ \<Rightarrow> None))"
| "tap_of lower v = None"

definition handleTapMessage :: "(string \<Rightarrow> string) \<Rightarrow> jsv option \<Rightarrow> tap_client \<Rightarrow> tap_client" where
  "handleTapMessage lower parsed c =
     (case Option.bind parsed (tap_of lower) of
        None \<Rightarrow> c
      | Some tap \<Rightarrow> c\<lparr>tc_stored := Some (tap_timestamp tap), tc_taps := tc_taps c @ [tap]\<rparr>)"

subsection \<open>The connection\<close>

definition setState :: "tap_state \<Rightarrow> tap_client \<Rightarrow> tap_client" where
  "setState s c = (if tc_state c = s then c else c\<lparr>tc_state := s, tc_states := tc_states c @ [s]\<rparr>)"

definition BASE_DELAY_MS :: rat where "BASE_DELAY_MS = 500"
definition DEFAULT_MAX_DELAY_MS :: rat where "DEFAULT_MAX_DELAY_MS = 30000"

definition tap_reconnect_delay :: "rat option \<Rightarrow> rat \<Rightarrow> nat \<Rightarrow> rat" where
  "tap_reconnect_delay maxDelay random attempt =
     random * min (BASE_DELAY_MS * 2 ^ min attempt 6) (case maxDelay of Some d \<Rightarrow> d | None \<Rightarrow> DEFAULT_MAX_DELAY_MS)"

text \<open>A run of \<open>openOnce\<close> up to its ticket.\<close>

definition openOnce :: "tap_client \<Rightarrow> tap_client" where
  "openOnce c = c\<lparr>tc_opening := tc_opening c @ [tc_next c], tc_next := tc_next c + 1\<rparr>"

definition scheduleTapReconnect :: "tap_client \<Rightarrow> tap_client" where
  "scheduleTapReconnect c =
     (if tc_closed c then c
      else (let c1 = setState Reconnecting c
            in c1\<lparr>tc_attempts := tc_attempts c1 + 1, tc_timers := tc_timers c1 @ [tc_next c1],
                  tc_handle := Some (tc_next c1), tc_next := tc_next c1 + 1\<rparr>))"

definition tap_connect :: "tap_client \<Rightarrow> tap_client" where
  "tap_connect c = openOnce (setState Connecting (c\<lparr>tc_closed := False\<rparr>))"

text \<open>The ticket is there, or the request for it failed, which schedules the next attempt either way.\<close>

definition ticket_answered :: "nat \<Rightarrow> bool \<Rightarrow> tap_client \<Rightarrow> tap_client" where
  "ticket_answered k ok c =
     (let c1 = c\<lparr>tc_opening := remove1 k (tc_opening c)\<rparr>
      in (if ok then c1\<lparr>tc_socket := Some (tc_next c1), tc_live := tc_live c1 @ [tc_next c1], tc_next := tc_next c1 + 1\<rparr>
          else scheduleTapReconnect c1))"

definition socket_opened :: "nat \<Rightarrow> tap_client \<Rightarrow> tap_client" where
  "socket_opened n c = setState Open (c\<lparr>tc_attempts := 0, tc_opened := tc_opened c @ [n]\<rparr>)"

definition socket_closed :: "nat \<Rightarrow> tap_client \<Rightarrow> tap_client" where
  "socket_closed n c =
     (let c1 = c\<lparr>tc_live := filter (\<lambda>m. m \<noteq> n) (tc_live c), tc_opened := filter (\<lambda>m. m \<noteq> n) (tc_opened c), tc_socket := None\<rparr>
      in (if tc_closed c1 then c1 else scheduleTapReconnect c1))"

definition reconnect_fires :: "nat \<Rightarrow> tap_client \<Rightarrow> tap_client" where
  "reconnect_fires k c = openOnce (c\<lparr>tc_timers := remove1 k (tc_timers c), tc_handle := None\<rparr>)"

definition clearTapReconnect :: "tap_client \<Rightarrow> tap_client" where
  "clearTapReconnect c =
     (case tc_handle c of
        Some k \<Rightarrow> c\<lparr>tc_timers := filter (\<lambda>t. t \<noteq> k) (tc_timers c), tc_handle := None\<rparr>
      | None \<Rightarrow> c)"

text \<open>The socket that is closed reports it later; only then it is no longer live.\<close>

definition tap_disconnect :: "tap_client \<Rightarrow> tap_client" where
  "tap_disconnect c = setState Closed_state ((clearTapReconnect (c\<lparr>tc_closed := True\<rparr>))\<lparr>tc_socket := None\<rparr>)"

definition tap_send :: "string \<Rightarrow> tap_client \<Rightarrow> tap_client" where
  "tap_send text c =
     (case tc_socket c of
        Some n \<Rightarrow> if n \<in> set (tc_opened c) then c\<lparr>tc_sent := tc_sent c @ [(n, text)]\<rparr> else c
      | None \<Rightarrow> c)"

subsection \<open>Steps\<close>

datatype tap_step_event =
    Connect
  | Disconnect
  | Send string
  | TicketAnswered nat bool
  | SocketOpened nat
  | SocketMessage nat "jsv option"
  | SocketClosed nat
  | ReconnectFires nat

fun tc_enabled :: "tap_step_event \<Rightarrow> tap_client \<Rightarrow> bool" where
  "tc_enabled Connect c \<longleftrightarrow> True"
| "tc_enabled Disconnect c \<longleftrightarrow> True"
| "tc_enabled (Send text) c \<longleftrightarrow> True"
| "tc_enabled (TicketAnswered k ok) c \<longleftrightarrow> k \<in> set (tc_opening c)"
| "tc_enabled (SocketOpened n) c \<longleftrightarrow> n \<in> set (tc_live c) \<and> n \<notin> set (tc_opened c)"
| "tc_enabled (SocketMessage n v) c \<longleftrightarrow> n \<in> set (tc_opened c)"
| "tc_enabled (SocketClosed n) c \<longleftrightarrow> n \<in> set (tc_live c)"
| "tc_enabled (ReconnectFires k) c \<longleftrightarrow> k \<in> set (tc_timers c)"

fun tc_step :: "(string \<Rightarrow> string) \<Rightarrow> tap_step_event \<Rightarrow> tap_client \<Rightarrow> tap_client" where
  "tc_step lower Connect c = tap_connect c"
| "tc_step lower Disconnect c = tap_disconnect c"
| "tc_step lower (Send text) c = tap_send text c"
| "tc_step lower (TicketAnswered k ok) c = ticket_answered k ok c"
| "tc_step lower (SocketOpened n) c = socket_opened n c"
| "tc_step lower (SocketMessage n v) c = handleTapMessage lower v c"
| "tc_step lower (SocketClosed n) c = socket_closed n c"
| "tc_step lower (ReconnectFires k) c = reconnect_fires k c"

fun tc_run :: "(string \<Rightarrow> string) \<Rightarrow> tap_step_event list \<Rightarrow> tap_client \<Rightarrow> tap_client option" where
  "tc_run lower [] c = Some c"
| "tc_run lower (e # es) c = (if tc_enabled e c then tc_run lower es (tc_step lower e c) else None)"

subsection \<open>A connection that is wanted is always under way\<close>

text \<open>The value-level invariant: not closed and not idle means a socket, a ticket or a timer; and what the storage holds.\<close>

definition tap_ok :: "tap_state \<Rightarrow> bool \<Rightarrow> nat list \<Rightarrow> nat list \<Rightarrow> nat list \<Rightarrow> string option \<Rightarrow> string option \<Rightarrow> tap_event list \<Rightarrow> bool" where
  "tap_ok s off live timers opening stored0 stored taps \<longleftrightarrow>
     (off \<or> s = Idle \<or> live \<noteq> [] \<or> timers \<noteq> [] \<or> opening \<noteq> []) \<and>
     (s = Idle \<longrightarrow> \<not> off \<and> live = [] \<and> timers = [] \<and> opening = []) \<and>
     stored = (if taps = [] then stored0 else Some (tap_timestamp (last taps)))"

definition client_ok :: "string option \<Rightarrow> tap_client \<Rightarrow> bool" where
  "client_ok stored0 c =
     tap_ok (tc_state c) (tc_closed c) (tc_live c) (tc_timers c) (tc_opening c) stored0 (tc_stored c) (tc_taps c)"

lemma setState_fields [simp]:
  "tc_state (setState s c) = s" "tc_closed (setState s c) = tc_closed c" "tc_live (setState s c) = tc_live c"
  "tc_timers (setState s c) = tc_timers c" "tc_opening (setState s c) = tc_opening c" "tc_stored (setState s c) = tc_stored c"
  "tc_taps (setState s c) = tc_taps c"
  by (simp_all add: setState_def)

lemma schedule_fields [simp]:
  "tc_closed (scheduleTapReconnect c) = tc_closed c" "tc_live (scheduleTapReconnect c) = tc_live c"
  "tc_opening (scheduleTapReconnect c) = tc_opening c" "tc_stored (scheduleTapReconnect c) = tc_stored c"
  "tc_taps (scheduleTapReconnect c) = tc_taps c"
  "tc_state (scheduleTapReconnect c) = (if tc_closed c then tc_state c else Reconnecting)"
  "tc_timers (scheduleTapReconnect c) = [] \<longleftrightarrow> tc_closed c \<and> tc_timers c = []"
  by (simp_all add: scheduleTapReconnect_def Let_def)

lemma clear_fields [simp]:
  "tc_closed (clearTapReconnect c) = tc_closed c" "tc_live (clearTapReconnect c) = tc_live c"
  "tc_opening (clearTapReconnect c) = tc_opening c" "tc_stored (clearTapReconnect c) = tc_stored c"
  "tc_taps (clearTapReconnect c) = tc_taps c"
  by (simp_all add: clearTapReconnect_def split: option.split)

lemma client_ok_new: "client_ok s (new_tap_client s)"
  by (simp add: client_ok_def tap_ok_def new_tap_client_def)

lemma client_ok_step:
  assumes i: "client_ok s c" and e: "tc_enabled e c"
  shows "client_ok s (tc_step lower e c)"
proof (cases e)
  case Connect
  with i show ?thesis by (simp add: tap_connect_def openOnce_def client_ok_def tap_ok_def)
next
  case Disconnect
  with i show ?thesis by (simp add: tap_disconnect_def client_ok_def tap_ok_def)
next
  case (Send msg)
  with i show ?thesis by (simp add: tap_send_def client_ok_def tap_ok_def split: option.split)
next
  case (TicketAnswered k ok)
  with i e show ?thesis by (cases ok) (auto simp: ticket_answered_def Let_def client_ok_def tap_ok_def)
next
  case (SocketOpened n)
  with i e show ?thesis by (auto simp: socket_opened_def client_ok_def tap_ok_def)
next
  case (SocketMessage n v)
  with i show ?thesis by (auto simp: handleTapMessage_def client_ok_def tap_ok_def split: option.split)
next
  case (SocketClosed n)
  with i e show ?thesis by (auto simp: socket_closed_def Let_def client_ok_def tap_ok_def)
next
  case (ReconnectFires k)
  with i e show ?thesis by (auto simp: reconnect_fires_def openOnce_def client_ok_def tap_ok_def)
qed

lemma client_ok_run: "tc_run lower es c = Some c' \<Longrightarrow> client_ok s c \<Longrightarrow> client_ok s c'"
  by (induction es arbitrary: c) (auto simp: client_ok_step split: if_splits)


definition sample_frame :: "string \<Rightarrow> jsv option" where
  "sample_frame ts =
     Some (JObj [(''type'', JStr ''MUTATION''), (''topic'', JStr ''event.w.crm.contact''), (''entity_id'', JStr ''7''),
                 (''action'', JStr ''UPDATED''), (''ts'', JStr ts)])"

definition sample_session :: "tap_step_event list" where
  "sample_session =
     [Connect, TicketAnswered 0 True, SocketOpened 1, SocketMessage 1 (sample_frame ''t5''), SocketClosed 1]"


lemma tap_reconnect_delay_range:
  "0 \<le> random \<Longrightarrow> random < 1 \<Longrightarrow> 0 \<le> tap_reconnect_delay None random attempt \<and> tap_reconnect_delay None random attempt < 30000"
proof -
  assume r: "0 \<le> random" "random < 1"
  let ?b = "min (BASE_DELAY_MS * 2 ^ min attempt 6) DEFAULT_MAX_DELAY_MS"
  have b: "0 < ?b" "?b \<le> 30000" by (simp_all add: BASE_DELAY_MS_def DEFAULT_MAX_DELAY_MS_def)
  then have "random * ?b < 1 * ?b" using r by (intro mult_strict_right_mono) simp_all
  with b have "random * ?b < 30000" by linarith
  with b r show ?thesis by (simp add: tap_reconnect_delay_def)
qed

subsection \<open>What goes wrong\<close>

text \<open>A client that is disconnected while it awaits its ticket connects nevertheless, and hands on events.\<close>

lemma disconnect_during_ticket_connects:
  "(case tc_run id [Connect, Disconnect, TicketAnswered 0 True, SocketOpened 1, SocketMessage 1 (sample_frame ''t5'')] (new_tap_client None) of
      None \<Rightarrow> False
    | Some c \<Rightarrow> tc_closed c \<and> tc_state c = Open \<and> length (tc_taps c) = 1)"
  by code_simp

text \<open>Connecting twice opens two sockets, and every event arrives twice; the end of the first forgets the second.\<close>

lemma second_connect_doubles_events:
  "(case tc_run id [Connect, TicketAnswered 0 True, SocketOpened 1, Connect, TicketAnswered 2 True, SocketOpened 3,
       SocketMessage 1 (sample_frame ''t5''), SocketMessage 3 (sample_frame ''t5''), SocketClosed 1] (new_tap_client None) of
      None \<Rightarrow> False
    | Some c \<Rightarrow> length (tc_taps c) = 2 \<and> tc_live c = [3] \<and> tc_socket c = None)"
  by code_simp

text \<open>The cursor follows the order of arrival: an older event that arrives late moves it back.\<close>

lemma late_event_moves_cursor_back:
  "(case tc_run id [Connect, TicketAnswered 0 True, SocketOpened 1, SocketMessage 1 (sample_frame ''t6''), SocketMessage 1 (sample_frame ''t5'')]
       (new_tap_client None) of
      None \<Rightarrow> False
    | Some c \<Rightarrow> tc_stored c = Some ''t5'')"
  by code_simp

text \<open>What is asked for while the socket is not open is dropped, and nothing asks again after a reconnection.\<close>

lemma subscription_lost:
  "(case tc_run id [Connect, Send ''early'', TicketAnswered 0 True, SocketOpened 1, Send ''topic'', SocketClosed 1, ReconnectFires 2, TicketAnswered 3 True,
       SocketOpened 4] (new_tap_client None) of
      None \<Rightarrow> False
    | Some c \<Rightarrow> tc_sent c = [(1, ''topic'')] \<and> tc_socket c = Some 4)"
  by code_simp

end
