(* ===== verification/Spec2Isabelle.thy ===== *)
theory Spec2Isabelle
  imports Priority_Queue Table_Locks Async_Mutex Rate_Limiter Circuit_Breaker Http_Errors Http_Pipeline
    Http_Requests Http_Instances Sql_Text Query_Model Sql_Compiler Decision_Engine
    Dependency_Sort Json_Values Conflict_Resolution Mutation_Queue Offline_Queue Queue_Processor
    Safe_Timer Managed_Interval Safe_Debounce Disposables Leader_Election Realtime_Messages Realtime_Socket Realtime_Frames Realtime_Order
    Realtime_Lifecycle Realtime_Reconnect Realtime_Types Worker_Instance Worker_Pool Query_Coordinator Coordinator_Exclusion
    Network_Monitor Sync_Coordinator Http_Adapter Schema_Registry Query_Validator View_Rehydration Duckdb_Router Shoulder_Tap
begin

text \<open>
  \<^bold>\<open>The program.\<close> The repository is a monorepo of web applications over a set of TypeScript libraries,
  \<open>src/libs/foundation\<close>. A page describes the data it wants as a query of member references; the
  query engine decides whether the HTTP API or the in-browser DuckDB answers it, compiles it to SQL in
  the second case, and the DuckDB bridge schedules the SQL on a pool of workers under table locks. API
  calls go through the HTTP client with its interceptors (authentication, headers, retries, circuit
  breaker, error normalisation). Telemetry is limited by rate limiters. This development models
  that core, one theory per component.

  \<^bold>\<open>Theories.\<close>
  \<^item> \<open>Foundation_Prelude\<close>: JavaScript's insertion-ordered \<open>Map\<close> and \<open>Set\<close> as lists, decimal printing,
    splitting, joining and replacing strings, collecting errors; lemmas shared by all theories.
  \<^item> \<open>Priority_Queue\<close> (\<open>bridge/src/wasm/pool/priority-queue.ts\<close>): three FIFO lists and an id index; an
    invariant between the two and a refinement to one stable priority-ordered list.
  \<^item> \<open>Table_Locks\<close> (\<open>bridge/src/wasm/pool/table-lock-manager.ts\<close>): the lock registry and, around it, the
    transition system of its callers; exclusion, no lost wake-ups, progress, and reachable deadlock.
  \<^item> \<open>Worker_Instance\<close>, \<open>Worker_Pool\<close>, \<open>Query_Coordinator\<close> (\<open>bridge/src/wasm/pool\<close>): one worker with its queue and loop, the
    pool and its choice of a worker, and the coordinator that puts queue, locks and pool together, with promises as microtasks.
    \<open>Coordinator_Exclusion\<close> proves exclusion of the locks down to the databases; a full overflow queue stops the event loop.
  \<^item> \<open>Async_Mutex\<close> (\<open>utils/src/concurrency/mutex.ts\<close>): mutex and semaphore under one locale.
  \<^item> \<open>Rate_Limiter\<close> (\<open>metrics/src/sampling/rate-limiter.ts\<close>): sliding window, keyed limiter, token bucket.
  \<^item> \<open>Circuit_Breaker\<close> (\<open>http/src/interceptors/response/circuit-breaker-interceptor.ts\<close>): the map of host
    circuits refines one small automaton per host.
  \<^item> \<open>Http_Errors\<close>, \<open>Http_Pipeline\<close>, \<open>Http_Requests\<close>, \<open>Http_Instances\<close> (\<open>http/src\<close>,
    \<open>data-model/src/errors\<close>): error codes and guards, the response chain with retries over an arbitrary
    network, the request chain, the manager of client instances.
  \<^item> \<open>Sql_Text\<close> (\<open>bridge/src/utils/sql.ts\<close>, \<open>query-engine/src/compiler/sql-utils.ts\<close>): identifiers, quoting,
    LIKE patterns, view validation against a lexer's view of SQL.
  \<^item> \<open>Query_Model\<close>, \<open>Sql_Compiler\<close>, \<open>Decision_Engine\<close> (\<open>query-engine/src\<close>): the query types, filter
    conversion and table extraction; compilation to SQL with its cache; routing.
  \<^item> \<open>Schema_Registry\<close>, \<open>Query_Validator\<close> (\<open>query-engine/src/schema\<close>): the members of a schema and their cached
    resolution; the validators of schemas and queries, and what a valid query lets the table extractor find.
  \<^item> \<open>View_Rehydration\<close>, \<open>Duckdb_Router\<close> (\<open>bridge/src/duckdb/router.ts\<close>): the levels in which stored views are created
    again; the bridge that is created on demand, its idle timer and its shutdown as a step function.

  \<^item> \<open>Payload_Hash\<close> (\<open>utils/src/hash\<close>): the 32-bit hash of cache and idempotency keys.
  \<^item> \<open>Dependency_Sort\<close> (\<open>utils/src/algorithm\<close>): depth-first topological sort and cycle detection,
    related to the edge relation of the graph.
  \<^item> \<open>Json_Values\<close>, \<open>Conflict_Resolution\<close> (\<open>sync-engine/src/conflicts\<close>): values of type \<open>unknown\<close>,
    provisional ids in them, the conflict strategies with the three-way merge, the resolver.
  \<^item> \<open>Mutation_Queue\<close> (\<open>database/src\<close>), \<open>Offline_Queue\<close>, \<open>Queue_Processor\<close>
    (\<open>sync-engine/src/queue\<close>): the stored entries and their idempotency, the queue manager with
    its id mappings, and whole runs of the processor over an arbitrary executor: order, accounting,
    termination, nothing lost; and the runs that go wrong.
  \<^item> \<open>Http_Adapter\<close> (\<open>sync-engine/src/http\<close>, \<open>sync-engine/src/realtime\<close>): the executor that replays mutations
    over HTTP, what it reports, and the processor's retry loop over it; the invalidations that follow.
  \<^item> \<open>Network_Monitor\<close>, \<open>Sync_Coordinator\<close> (\<open>sync-engine/src/network\<close>, \<open>sync-engine/src/coordinator\<close>): the belief about
    the connection and when a synchronisation runs, as step functions over events; one at a time, and no request is lost.
  \<^item> \<open>Safe_Timer\<close>, \<open>Managed_Interval\<close>, \<open>Safe_Debounce\<close>, \<open>Disposables\<close> (\<open>utils/src/timer\<close>,
    \<open>utils/src/disposable\<close>): the event loop with clock and armed handles, the timer classes with callbacks that may call
    them again, the contract of a disposable object as a locale, and the debounce as a refinement of an abstract one.
  \<^item> \<open>Leader_Election\<close> (\<open>sync-engine/src/cross-tab\<close>): one tab with its timers and messages as a step relation; its
    invariant, elections that succeed, agreement after an exchange of heartbeats, and the ways it fails.
  \<^item> \<open>Realtime_Messages\<close>, \<open>Realtime_Socket\<close> (\<open>data-model/src/types/realtime.ts\<close>,
    \<open>data-layer/src/realtime/socket-client.ts\<close>): the protocol with its schemas and the socket client as one step function over
    the events of the host. \<open>Realtime_Frames\<close> states once what a preorder on client states needs for all operations to
    respect it; \<open>Realtime_Order\<close> (delivery in order, gaps), \<open>Realtime_Lifecycle\<close> (requests settle once),
    \<open>Realtime_Reconnect\<close> (reconnection and its failures) and \<open>Realtime_Types\<close> (what is sent conforms) build on it.
  \<^item> \<open>Shoulder_Tap\<close> (\<open>data-layer/src/realtime/shoulder-tap-client.ts\<close>): the client of the simpler event gateway, which
    never stops trying while it is wanted, and its failures.

  \<^bold>\<open>Conventions.\<close> A class is a record, its methods are functions that return the new state; a thrown
  error is the left half of a sum. A \<open>Map\<close> is a list of pairs with distinct keys. Clock readings, random
  numbers, generated ids and platform services (URL parser, calendar, \<open>JSON.stringify\<close>) are arguments.
  Promises are modelled by who waits: a queued callback is the caller it would resume. Numbers are
  integers where the source counts and rationals where it divides; the 32-bit hash is a word. Strings
  are lists of 8-bit characters.

  \<^bold>\<open>Bounds and fuel.\<close> Only the loop of the queue processor takes fuel, since it need not end
  (\<open>conflict_livelock\<close>); \<open>process_settles\<close> gives the fuel that is enough when no conflicts arise. The loop
  that builds view levels is a partial function; \<open>levels_respect_dependencies\<close> shows that it ends.
  All other recursion is structural or has a measure; the number of dispatches of a request is
  bounded by the retry configuration.

  \<^bold>\<open>Not modelled.\<close> User interface code, React hooks and providers, the DuckDB engine and its workers, IPC
  and storage drivers, and the Python services; what is left out of a modelled file is said at the
  head of its theory.
\<close>

end
